(* ===== verification/Prelude.thy ===== *)
theory Prelude
  imports Main "HOL-Library.AList"
begin

text \<open>
  Shared vocabulary of the development: the machine integers the Rust code uses
  (\<open>u64\<close> millisecond clocks and counters, kept as naturals with their bound written
  out), the \<open>Result\<close> type with the question-mark operator, and a \<open>HashMap\<close>
  represented as an association list with distinct keys. The map operations are
  collected behind the locale \<open>keyed_store\<close>, whose laws are what the clients use;
  the interpretation \<open>hm\<close> discharges the laws for the association lists.
\<close>

named_theorems unpeel_simps \<open>unfolding rules of small model definitions\<close>
named_theorems inv_intros \<open>preservation lemmas of the components' invariants\<close>

section \<open>Machine integers\<close>

type_synonym u64 = nat
type_synonym u32 = nat
type_synonym u16 = nat
type_synonym millis = nat
type_synonym sid = string

definition u64_max :: nat where
  "u64_max = 2 ^ 64 - 1"

definition saturating_add64 :: "u64 \<Rightarrow> u64 \<Rightarrow> u64" where
  "saturating_add64 a b = min (a + b) u64_max"

definition saturating_sub64 :: "u64 \<Rightarrow> u64 \<Rightarrow> u64" where
  "saturating_sub64 a b = a - b"

definition checked_add64 :: "u64 \<Rightarrow> u64 \<Rightarrow> u64 option" where
  "checked_add64 a b = (if a + b \<le> u64_max then Some (a + b) else None)"

definition abs_diff64 :: "u64 \<Rightarrow> u64 \<Rightarrow> u64" where
  "abs_diff64 a b = (if a < b then b - a else a - b)"

lemma saturating_add64_le: "saturating_add64 a b \<le> u64_max"
  by (simp add: saturating_add64_def)

lemma saturating_add64_exact: "a + b \<le> u64_max \<Longrightarrow> saturating_add64 a b = a + b"
  by (simp add: saturating_add64_def)

lemma saturating_sub64_le_iff: "saturating_sub64 a b \<le> c \<longleftrightarrow> a \<le> b + c"
  by (auto simp: saturating_sub64_def)

lemma checked_add64_Some: "checked_add64 a b = Some c \<longleftrightarrow> c = a + b \<and> a + b \<le> u64_max"
  by (auto simp: checked_add64_def)

lemma abs_diff64_sym: "abs_diff64 a b = abs_diff64 b a"
  by (simp add: abs_diff64_def)

lemma abs_diff64_le: "abs_diff64 a b \<le> d \<longleftrightarrow> a \<le> b + d \<and> b \<le> a + d"
  by (auto simp: abs_diff64_def)

section \<open>Results\<close>

text \<open>A Rust \<open>Result<T, E>\<close> is a sum with the error on the left; \<open>rbind\<close> is the
  question-mark operator.\<close>

fun rbind :: "'e + 'a \<Rightarrow> ('a \<Rightarrow> 'e + 'b) \<Rightarrow> 'e + 'b" where
  "rbind (Inl e) f = Inl e"
| "rbind (Inr a) f = f a"

fun ok_or :: "'e \<Rightarrow> 'a option \<Rightarrow> 'e + 'a" where
  "ok_or e None = Inl e"
| "ok_or e (Some a) = Inr a"

definition guard_err :: "bool \<Rightarrow> 'e \<Rightarrow> 'e + unit" where
  "guard_err b e = (if b then Inl e else Inr ())"

lemma rbind_Inr_iff: "rbind m f = Inr b \<longleftrightarrow> (\<exists>a. m = Inr a \<and> f a = Inr b)"
  by (cases m) auto

lemma rbind_Inl_iff: "rbind m f = Inl e \<longleftrightarrow> m = Inl e \<or> (\<exists>a. m = Inr a \<and> f a = Inl e)"
  by (cases m) auto

lemma ok_or_Inr_iff [simp]: "ok_or e x = Inr a \<longleftrightarrow> x = Some a"
  by (cases x) auto

lemma ok_or_Inl_iff [simp]: "ok_or e x = Inl e' \<longleftrightarrow> x = None \<and> e' = e"
  by (cases x) auto

lemma guard_err_simps [simp]:
  "guard_err b e = Inr u \<longleftrightarrow> \<not> b" "guard_err b e = Inl e' \<longleftrightarrow> b \<and> e' = e"
  "guard_err True e = Inl e" "guard_err False e = Inr ()"
  by (auto simp: guard_err_def)

text \<open>\<open>collect::<Result<Vec<_>, _>>()\<close>: the first error wins.\<close>

fun collect_results :: "('a \<Rightarrow> 'e + 'b) \<Rightarrow> 'a list \<Rightarrow> 'e + 'b list" where
  "collect_results f [] = Inr []"
| "collect_results f (x # xs) =
     rbind (f x) (\<lambda>y. rbind (collect_results f xs) (\<lambda>ys. Inr (y # ys)))"

lemma collect_results_Inr_map:
  "(\<And>x. x \<in> set xs \<Longrightarrow> f x = Inr (g x)) \<Longrightarrow> collect_results f xs = Inr (map g xs)"
  by (induction xs) auto

lemma collect_results_Inr_length:
  "collect_results f xs = Inr ys \<Longrightarrow> length ys = length xs"
  by (induction xs arbitrary: ys) (auto simp: rbind_Inr_iff)

section \<open>Keyed stores\<close>

text \<open>The contract of a \<open>HashMap\<close> as the sources use it: lookup, insert, remove and
  \<open>retain\<close>, over a representation with an invariant.\<close>

locale keyed_store =
  fixes empty :: 'm
    and lookup :: "'m \<Rightarrow> 'k \<Rightarrow> 'v option"
    and put :: "'k \<Rightarrow> 'v \<Rightarrow> 'm \<Rightarrow> 'm"
    and remove :: "'k \<Rightarrow> 'm \<Rightarrow> 'm"
    and retain :: "('k \<Rightarrow> 'v \<Rightarrow> bool) \<Rightarrow> 'm \<Rightarrow> 'm"
    and invar :: "'m \<Rightarrow> bool"
  assumes lookup_empty: "lookup empty k = None"
    and lookup_put: "lookup (put k v m) k' = (if k' = k then Some v else lookup m k')"
    and lookup_remove: "invar m \<Longrightarrow> lookup (remove k m) k' = (if k' = k then None else lookup m k')"
    and lookup_retain: "invar m \<Longrightarrow> lookup (retain P m) k =
          (case lookup m k of None \<Rightarrow> None | Some v \<Rightarrow> if P k v then Some v else None)"
    and invar_empty: "invar empty"
    and invar_put: "invar m \<Longrightarrow> invar (put k v m)"
    and invar_remove: "invar m \<Longrightarrow> invar (remove k m)"
    and invar_retain: "invar m \<Longrightarrow> invar (retain P m)"
begin

text \<open>\<open>entry(k).or_default()\<close> followed by an update in place.\<close>

definition upsert :: "'k \<Rightarrow> 'v \<Rightarrow> ('v \<Rightarrow> 'v) \<Rightarrow> 'm \<Rightarrow> 'm" where
  "upsert k d f m = put k (f (case lookup m k of None \<Rightarrow> d | Some v \<Rightarrow> v)) m"

lemma lookup_upsert_same:
  "lookup (upsert k d f m) k = Some (f (case lookup m k of None \<Rightarrow> d | Some v \<Rightarrow> v))"
  by (simp add: upsert_def lookup_put)

lemma lookup_upsert_other: "k' \<noteq> k \<Longrightarrow> lookup (upsert k d f m) k' = lookup m k'"
  by (simp add: upsert_def lookup_put)

lemma invar_upsert: "invar m \<Longrightarrow> invar (upsert k d f m)"
  by (simp add: upsert_def invar_put)

lemma retain_subset:
  "invar m \<Longrightarrow> lookup (retain P m) k = Some v \<longleftrightarrow> lookup m k = Some v \<and> P k v"
  by (auto simp: lookup_retain split: option.splits)

lemma retain_idem:
  "invar m \<Longrightarrow> lookup (retain P (retain P m)) k = lookup (retain P m) k"
  by (simp add: lookup_retain invar_retain split: option.splits)

lemma put_retain_survives:
  "invar m \<Longrightarrow> P k v \<Longrightarrow> lookup (retain P (put k v m)) k = Some v"
  by (simp add: lookup_retain invar_put lookup_put)

end

type_synonym ('k, 'v) hmap = "('k \<times> 'v) list"

definition hm_wf :: "('k, 'v) hmap \<Rightarrow> bool" where
  "hm_wf m = distinct (map fst m)"

abbreviation hm_get :: "('k, 'v) hmap \<Rightarrow> 'k \<Rightarrow> 'v option" where
  "hm_get \<equiv> map_of"

abbreviation hm_put :: "'k \<Rightarrow> 'v \<Rightarrow> ('k, 'v) hmap \<Rightarrow> ('k, 'v) hmap" where
  "hm_put \<equiv> AList.update"

definition hm_remove :: "'k \<Rightarrow> ('k, 'v) hmap \<Rightarrow> ('k, 'v) hmap" where
  "hm_remove k m = filter (\<lambda>(k', _). k' \<noteq> k) m"

definition hm_retain :: "('k \<Rightarrow> 'v \<Rightarrow> bool) \<Rightarrow> ('k, 'v) hmap \<Rightarrow> ('k, 'v) hmap" where
  "hm_retain P m = filter (\<lambda>(k, v). P k v) m"

definition hm_map_values :: "('v \<Rightarrow> 'w) \<Rightarrow> ('k, 'v) hmap \<Rightarrow> ('k, 'w) hmap" where
  "hm_map_values f m = map (\<lambda>(k, v). (k, f v)) m"

abbreviation hm_values :: "('k, 'v) hmap \<Rightarrow> 'v list" where
  "hm_values m \<equiv> map snd m"

abbreviation hm_keys :: "('k, 'v) hmap \<Rightarrow> 'k list" where
  "hm_keys m \<equiv> map fst m"

lemma hm_wf_Nil [simp]: "hm_wf []"
  by (simp add: hm_wf_def)

lemma hm_wf_put: "hm_wf m \<Longrightarrow> hm_wf (hm_put k v m)"
  by (simp add: hm_wf_def distinct_update)

lemma hm_wf_filter: "hm_wf m \<Longrightarrow> hm_wf (filter P m)"
  by (simp add: hm_wf_def distinct_map_filter)

lemma hm_wf_map_values [simp]: "hm_wf (hm_map_values f m) = hm_wf m"
  by (simp add: hm_wf_def hm_map_values_def comp_def case_prod_unfold)

lemma hm_get_filter:
  "hm_wf m \<Longrightarrow> hm_get (filter (\<lambda>(k, v). P k v) m) k =
     (case hm_get m k of None \<Rightarrow> None | Some v \<Rightarrow> if P k v then Some v else None)"
proof (induction m)
  case Nil
  then show ?case by simp
next
  case (Cons kv m)
  obtain k0 v0 where kv: "kv = (k0, v0)" by (cases kv)
  have "k0 \<notin> fst ` set m" and "hm_wf m"
    using Cons.prems by (auto simp: kv hm_wf_def)
  then have "map_of m k0 = None" by (simp add: map_of_eq_None_iff)
  with Cons.IH [OF \<open>hm_wf m\<close>] show ?case by (auto simp: kv)
qed

lemma hm_get_map_values [simp]:
  "hm_get (hm_map_values f m) k = map_option f (hm_get m k)"
  by (induction m) (auto simp: hm_map_values_def)

lemma hm_get_put [simp]:
  "hm_get (hm_put k v m) k' = (if k' = k then Some v else hm_get m k')"
  by (simp add: update_conv')

lemma hm_put_new: "hm_get m k = None \<Longrightarrow> hm_put k v m = m @ [(k, v)]"
  by (induction m) (auto split: if_splits)

lemma hm_get_in_set: "hm_get m k = Some v \<Longrightarrow> (k, v) \<in> set m"
  by (rule map_of_SomeD)

lemma hm_in_set_get: "hm_wf m \<Longrightarrow> (k, v) \<in> set m \<Longrightarrow> hm_get m k = Some v"
  by (simp add: hm_wf_def)

lemma set_hm_put: "hm_wf m \<Longrightarrow> set (hm_put k v m) = insert (k, v) {(k', v') \<in> set m. k' \<noteq> k}"
proof (intro equalityI subsetI)
  fix x assume wf: "hm_wf m" and x: "x \<in> set (hm_put k v m)"
  obtain k' v' where [simp]: "x = (k', v')" by (cases x)
  have "hm_get (hm_put k v m) k' = Some v'"
    using hm_in_set_get [OF hm_wf_put [OF wf]] x by simp
  then show "x \<in> insert (k, v) {(k', v') \<in> set m. k' \<noteq> k}"
    by (auto split: if_splits dest: hm_get_in_set)
next
  fix x assume wf: "hm_wf m" and x: "x \<in> insert (k, v) {(k', v') \<in> set m. k' \<noteq> k}"
  obtain k' v' where [simp]: "x = (k', v')" by (cases x)
  have "hm_get (hm_put k v m) k' = Some v'"
    using x hm_in_set_get [OF wf] by auto
  from this [THEN hm_get_in_set] show "x \<in> set (hm_put k v m)" by simp
qed

interpretation hm: keyed_store "[]" hm_get hm_put hm_remove hm_retain hm_wf
proof unfold_locales
  fix m :: "('a, 'b) hmap" and k k' :: 'a and v :: 'b and P
  show "hm_get [] k = None" by simp
  show "hm_get (hm_put k v m) k' = (if k' = k then Some v else hm_get m k')" by simp
  show "hm_wf []" by simp
  assume wf: "hm_wf m"
  show "hm_get (hm_remove k m) k' = (if k' = k then None else hm_get m k')"
    using hm_get_filter [OF wf, of "\<lambda>k' _. k' \<noteq> k" k']
    by (auto simp: hm_remove_def split: option.splits)
  show "hm_get (hm_retain P m) k =
      (case hm_get m k of None \<Rightarrow> None | Some v \<Rightarrow> if P k v then Some v else None)"
    unfolding hm_retain_def by (rule hm_get_filter [OF wf])
  show "hm_wf (hm_put k v m)" using wf by (rule hm_wf_put)
  show "hm_wf (hm_remove k m)" "hm_wf (hm_retain P m)"
    using wf by (simp_all add: hm_remove_def hm_retain_def hm_wf_filter)
qed

lemma hm_retain_Nil [simp]: "hm_retain P [] = []"
  by (simp add: hm_retain_def)

lemma set_hm_retain: "set (hm_retain P m) = {(k, v) \<in> set m. P k v}"
  by (auto simp: hm_retain_def)

lemma filter_id_length: "length (filter P xs) = length xs \<Longrightarrow> filter P xs = xs"
  by (metis filter_True length_filter_less less_irrefl)

end
