(* ===== verification/Rust_Str.thy ===== *)
theory Rust_Str
  imports Prelude "HOL-Library.Char_ord" "HOL-Library.List_Lexorder"
begin

text \<open>
  The part of Rust's \<open>str\<close> the sources use. A \<open>string\<close> is the list of UTF-8 bytes
  of a Rust string, so \<open>length\<close> is \<open>str::len\<close> and byte-string literals of the code are
  string literals here. \<open>trim\<close> recognises every code point of the Unicode property
  White\_Space in its UTF-8 form. Order on strings is the byte-lexicographic order of
  \<open>List_Lexorder\<close>, which is the order of \<open>str\<close> and of \<open>BTreeMap<String, _>\<close>.
\<close>

type_synonym byte = char

definition byte_val :: "byte \<Rightarrow> nat" where
  "byte_val c = of_char c"

definition is_ascii_lower :: "byte \<Rightarrow> bool" where
  "is_ascii_lower c \<longleftrightarrow> 97 \<le> byte_val c \<and> byte_val c \<le> 122"

definition is_ascii_upper :: "byte \<Rightarrow> bool" where
  "is_ascii_upper c \<longleftrightarrow> 65 \<le> byte_val c \<and> byte_val c \<le> 90"

definition is_ascii_digit :: "byte \<Rightarrow> bool" where
  "is_ascii_digit c \<longleftrightarrow> 48 \<le> byte_val c \<and> byte_val c \<le> 57"

definition is_ascii_alphanumeric :: "byte \<Rightarrow> bool" where
  "is_ascii_alphanumeric c \<longleftrightarrow> is_ascii_lower c \<or> is_ascii_upper c \<or> is_ascii_digit c"

definition is_ascii_hexdigit :: "byte \<Rightarrow> bool" where
  "is_ascii_hexdigit c \<longleftrightarrow> is_ascii_digit c
     \<or> (97 \<le> byte_val c \<and> byte_val c \<le> 102) \<or> (65 \<le> byte_val c \<and> byte_val c \<le> 70)"

definition to_ascii_lower :: "byte \<Rightarrow> byte" where
  "to_ascii_lower c = (if is_ascii_upper c then char_of (byte_val c + 32) else c)"

lemmas ascii_defs = byte_val_def is_ascii_lower_def is_ascii_upper_def is_ascii_digit_def
  is_ascii_alphanumeric_def is_ascii_hexdigit_def to_ascii_lower_def

lemma byte_val_less: "byte_val c < 256"
  by (simp add: byte_val_def)

section \<open>Searching and splitting\<close>

definition starts_with :: "string \<Rightarrow> string \<Rightarrow> bool" where
  "starts_with p s \<longleftrightarrow> take (length p) s = p"

definition ends_with :: "string \<Rightarrow> string \<Rightarrow> bool" where
  "ends_with p s \<longleftrightarrow> starts_with (rev p) (rev s)"

lemma starts_with_iff: "starts_with p s \<longleftrightarrow> (\<exists>r. s = p @ r)"
proof
  assume "starts_with p s"
  then have "s = p @ drop (length p) s"
    unfolding starts_with_def by (metis append_take_drop_id)
  then show "\<exists>r. s = p @ r" ..
qed (auto simp: starts_with_def)

lemma ends_with_iff: "ends_with p s \<longleftrightarrow> (\<exists>r. s = r @ p)"
  unfolding ends_with_def starts_with_iff
  by (metis rev_append rev_rev_ident)

fun split_on :: "byte \<Rightarrow> string \<Rightarrow> string list" where
  "split_on d [] = [[]]"
| "split_on d (c # cs) =
     (if c = d then [] # split_on d cs
      else case split_on d cs of [] \<Rightarrow> [[c]] | p # ps \<Rightarrow> (c # p) # ps)"

fun split_once :: "byte \<Rightarrow> string \<Rightarrow> (string \<times> string) option" where
  "split_once d [] = None"
| "split_once d (c # cs) =
     (if c = d then Some ([], cs)
      else case split_once d cs of None \<Rightarrow> None | Some (a, b) \<Rightarrow> Some (c # a, b))"

definition rsplit_once :: "byte \<Rightarrow> string \<Rightarrow> (string \<times> string) option" where
  "rsplit_once d s =
     (case split_once d (rev s) of None \<Rightarrow> None | Some (b, a) \<Rightarrow> Some (rev a, rev b))"

lemma split_on_not_Nil [simp]: "split_on d s \<noteq> []"
  by (induction s) (auto split: list.splits)

lemma split_on_no_delim: "p \<in> set (split_on d s) \<Longrightarrow> d \<notin> set p"
  by (induction s arbitrary: p) (auto split: if_splits list.splits)

lemma split_once_Some:
  "split_once d s = Some (a, b) \<Longrightarrow> s = a @ d # b \<and> d \<notin> set a"
  by (induction s arbitrary: a) (auto split: if_splits option.splits)

lemma split_once_append: "d \<notin> set a \<Longrightarrow> split_once d (a @ d # b) = Some (a, b)"
  by (induction a) auto

lemma split_once_None_iff: "split_once d s = None \<longleftrightarrow> d \<notin> set s"
  by (induction s) (auto split: option.splits)

lemma rsplit_once_Some:
  "rsplit_once d s = Some (a, b) \<Longrightarrow> s = a @ d # b \<and> d \<notin> set b"
  by (auto simp: rsplit_once_def split: option.splits dest!: split_once_Some)
     (metis append_Cons append_Nil append_assoc rev.simps(2) rev_append rev_rev_ident)

lemma rsplit_once_append: "d \<notin> set b \<Longrightarrow> rsplit_once d (a @ d # b) = Some (a, b)"
  by (simp add: rsplit_once_def split_once_append)

lemma rsplit_once_None_iff: "rsplit_once d s = None \<longleftrightarrow> d \<notin> set s"
  using split_once_None_iff [of d "rev s"] by (auto simp: rsplit_once_def split: option.splits)

section \<open>Trimming\<close>

text \<open>Bytes taken by a White\_Space code point at the head of the string, 0 if the
  first code point is not white space: U+0009..U+000D, U+0020, U+0085, U+00A0, U+1680,
  U+2000..U+200A, U+2028, U+2029, U+202F, U+205F, U+3000.\<close>

definition ws_len :: "nat list \<Rightarrow> nat" where
  "ws_len bs = (case bs of
     [] \<Rightarrow> 0
   | a # r \<Rightarrow>
       if (9 \<le> a \<and> a \<le> 13) \<or> a = 32 then 1
       else if a = 194 then (case r of b # _ \<Rightarrow> if b = 133 \<or> b = 160 then 2 else 0 | _ \<Rightarrow> 0)
       else (case r of
           b # c # _ \<Rightarrow>
             if (a = 225 \<and> b = 154 \<and> c = 128)
              \<or> (a = 226 \<and> b = 128 \<and> (128 \<le> c \<and> c \<le> 138 \<or> c = 168 \<or> c = 169 \<or> c = 175))
              \<or> (a = 226 \<and> b = 129 \<and> c = 159)
              \<or> (a = 227 \<and> b = 128 \<and> c = 128) then 3 else 0
         | _ \<Rightarrow> 0))"

text \<open>The same at the end, read from the reversed string.\<close>

definition ws_len_rev :: "nat list \<Rightarrow> nat" where
  "ws_len_rev bs =
     (if 0 < ws_len (rev (take 1 bs)) then 1
      else if ws_len (rev (take 2 bs)) = 2 then 2
      else if ws_len (rev (take 3 bs)) = 3 then 3
      else 0)"

lemma ws_len_Nil [simp]: "ws_len [] = 0"
  by (simp add: ws_len_def)

lemma ws_len_rev_Nil [simp]: "ws_len_rev [] = 0"
  by (simp add: ws_len_rev_def)

function trim_start :: "string \<Rightarrow> string" where
  "trim_start s =
     (if ws_len (map byte_val s) = 0 then s
      else trim_start (drop (ws_len (map byte_val s)) s))"
  by pat_completeness auto
termination
  by (relation "measure length") (auto intro: diff_less simp: neq_Nil_conv)

declare trim_start.simps [simp del]

function trim_rev :: "string \<Rightarrow> string" where
  "trim_rev s =
     (if ws_len_rev (map byte_val s) = 0 then s
      else trim_rev (drop (ws_len_rev (map byte_val s)) s))"
  by pat_completeness auto
termination
  by (relation "measure length") (auto intro: diff_less simp: neq_Nil_conv)

declare trim_rev.simps [simp del]

definition trim_end :: "string \<Rightarrow> string" where
  "trim_end s = rev (trim_rev (rev s))"

definition trim :: "string \<Rightarrow> string" where
  "trim s = trim_end (trim_start s)"

lemma trim_start_suffix: "\<exists>w. s = w @ trim_start s"
proof (induction s rule: trim_start.induct)
  case (1 s)
  show ?case
  proof (cases "ws_len (map byte_val s) = 0")
    case True
    then show ?thesis by (simp add: trim_start.simps [of s])
  next
    case False
    let ?n = "ws_len (map byte_val s)"
    from "1" [OF False] obtain w where "drop ?n s = w @ trim_start (drop ?n s)" by blast
    then have "s = (take ?n s @ w) @ trim_start (drop ?n s)"
      by (metis append.assoc append_take_drop_id)
    with False show ?thesis by (metis trim_start.simps)
  qed
qed

lemma trim_start_id: "ws_len (map byte_val s) = 0 \<Longrightarrow> trim_start s = s"
  by (simp add: trim_start.simps [of s])

lemma trim_start_idem [simp]: "trim_start (trim_start s) = trim_start s"
proof (induction s rule: trim_start.induct)
  case (1 s)
  then show ?case
    by (cases "ws_len (map byte_val s) = 0") (simp_all add: trim_start.simps [of s] trim_start_id)
qed

lemma trim_rev_length: "length (trim_rev s) \<le> length s"
proof (induction s rule: trim_rev.induct)
  case (1 s)
  show ?case
  proof (cases "ws_len_rev (map byte_val s) = 0")
    case True
    then show ?thesis by (simp add: trim_rev.simps [of s])
  next
    case False
    with "1" have "length (trim_rev (drop (ws_len_rev (map byte_val s)) s)) \<le> length s" by fastforce
    with False show ?thesis by (simp add: trim_rev.simps [of s])
  qed
qed

lemma trim_length: "length (trim s) \<le> length s"
proof -
  have "length (trim_start s) \<le> length s" using trim_start_suffix [of s] by (metis le_add2 length_append)
  then show ?thesis
    using trim_rev_length [of "rev (trim_start s)"] by (simp add: trim_def trim_end_def)
qed

lemma trim_Nil [simp]: "trim [] = []"
  by (simp add: trim_def trim_end_def trim_start.simps [of "[]"] trim_rev.simps [of "[]"])

text \<open>Literals without white space at either end are fixed points of \<open>trim\<close>.\<close>

lemma trim_id:
  "ws_len (map byte_val s) = 0 \<Longrightarrow> ws_len_rev (map byte_val (rev s)) = 0 \<Longrightarrow> trim s = s"
  by (simp add: trim_def trim_end_def trim_start_id trim_rev.simps [of "rev s"])

lemmas trim_eval = trim_def trim_end_def trim_start.simps trim_rev.simps ws_len_def
  ws_len_rev_def byte_val_def

section \<open>UTF-8 and control characters\<close>

text \<open>\<open>str::from_utf8\<close> succeeds exactly on the well-formed byte sequences.\<close>

definition utf8_cont :: "byte \<Rightarrow> bool" where
  "utf8_cont c \<longleftrightarrow> 128 \<le> byte_val c \<and> byte_val c \<le> 191"

definition utf8_second :: "nat \<Rightarrow> byte \<Rightarrow> bool" where
  "utf8_second lead c =
     (if lead = 224 then 160 \<le> byte_val c \<and> byte_val c \<le> 191
      else if lead = 237 then 128 \<le> byte_val c \<and> byte_val c \<le> 159
      else if lead = 240 then 144 \<le> byte_val c \<and> byte_val c \<le> 191
      else if lead = 244 then 128 \<le> byte_val c \<and> byte_val c \<le> 143
      else utf8_cont c)"

fun utf8_valid :: "string \<Rightarrow> bool" where
  "utf8_valid [] = True"
| "utf8_valid (a # s) =
     (let n = byte_val a in
      if n < 128 then utf8_valid s
      else if 194 \<le> n \<and> n \<le> 223 then
        (case s of b # r \<Rightarrow> utf8_cont b \<and> utf8_valid r | _ \<Rightarrow> False)
      else if 224 \<le> n \<and> n \<le> 239 then
        (case s of b # c # r \<Rightarrow> utf8_second n b \<and> utf8_cont c \<and> utf8_valid r | _ \<Rightarrow> False)
      else if 240 \<le> n \<and> n \<le> 244 then
        (case s of b # c # d # r \<Rightarrow>
           utf8_second n b \<and> utf8_cont c \<and> utf8_cont d \<and> utf8_valid r | _ \<Rightarrow> False)
      else False)"

text \<open>\<open>char::is_control\<close> is the Unicode category Cc: U+0000..U+001F, U+007F and
  U+0080..U+009F, the last range as the two bytes \<open>C2 80\<close>..\<open>C2 9F\<close>.\<close>

definition ascii_control :: "byte \<Rightarrow> bool" where
  "ascii_control c \<longleftrightarrow> byte_val c < 32 \<or> byte_val c = 127"

fun has_control :: "string \<Rightarrow> bool" where
  "has_control [] = False"
| "has_control (c # cs) = (ascii_control c
     \<or> (c = CHR 0xC2 \<and> (case cs of d # _ \<Rightarrow> 128 \<le> byte_val d \<and> byte_val d \<le> 159 | _ \<Rightarrow> False))
     \<or> has_control cs)"

lemma has_control_ascii: "\<not> has_control s \<Longrightarrow> c \<in> set s \<Longrightarrow> \<not> ascii_control c"
  by (induction s) auto

text \<open>\<open>str::parse::<u8>\<close>: an optional plus sign, at least one digit, no overflow.\<close>

fun digits_val :: "nat \<Rightarrow> string \<Rightarrow> nat" where
  "digits_val acc [] = acc"
| "digits_val acc (c # cs) = digits_val (acc * 10 + (byte_val c - 48)) cs"

definition parse_uint :: "nat \<Rightarrow> string \<Rightarrow> nat option" where
  "parse_uint max_val s =
     (let ds = (case s of c # cs \<Rightarrow> if c = CHR ''+'' then cs else s | [] \<Rightarrow> [])
      in if ds = [] \<or> \<not> list_all is_ascii_digit ds then None
         else if digits_val 0 ds \<le> max_val then Some (digits_val 0 ds) else None)"

lemma parse_uint_le: "parse_uint m s = Some n \<Longrightarrow> n \<le> m"
  by (auto simp: parse_uint_def Let_def split: if_splits)

end
