(* ===== verification/Json.thy ===== *)
theory Json
  imports Rust_Str
begin

text \<open>
  The JSON values the sources exchange through \<open>serde_json\<close>. Only the value type and its
  accessors are modelled: an object is a key-sorted association list with distinct keys
  (\<open>serde_json::Map\<close> is a \<open>BTreeMap\<close> in this build), numbers keep the distinction
  between unsigned, negative and floating-point numbers that \<open>as_u64\<close> depends on. The
  textual parser and printer belong to the library and are parameters, \<open>from_slice\<close> and
  \<open>to_string\<close>, of the definitions that call them.
\<close>

datatype jnumber = PosInt u64 | NegInt int | Float string

datatype json = JNull | JBool bool | JNum jnumber | JStr string | JArr "json list"
  | JObj "(string \<times> json) list"

type_synonym json_map = "(string \<times> json) list"

fun as_object :: "json \<Rightarrow> json_map option" where
  "as_object (JObj m) = Some m"
| "as_object _ = None"

fun as_array :: "json \<Rightarrow> json list option" where
  "as_array (JArr xs) = Some xs"
| "as_array _ = None"

fun as_str :: "json \<Rightarrow> string option" where
  "as_str (JStr s) = Some s"
| "as_str _ = None"

fun as_u64 :: "json \<Rightarrow> u64 option" where
  "as_u64 (JNum (PosInt n)) = Some n"
| "as_u64 _ = None"

fun as_bool :: "json \<Rightarrow> bool option" where
  "as_bool (JBool b) = Some b"
| "as_bool _ = None"

text \<open>\<open>Value::get\<close> on a string key: absent on every value that is not an object.\<close>

definition jget :: "string \<Rightarrow> json \<Rightarrow> json option" where
  "jget k v = Option.bind (as_object v) (\<lambda>m. map_of m k)"

definition jget_str :: "string \<Rightarrow> json \<Rightarrow> string option" where
  "jget_str k v = Option.bind (jget k v) as_str"

definition jget_u64 :: "string \<Rightarrow> json \<Rightarrow> u64 option" where
  "jget_u64 k v = Option.bind (jget k v) as_u64"

lemma jget_JObj [simp]: "jget k (JObj m) = map_of m k"
  by (simp add: jget_def)

text \<open>Insertion into the sorted map replaces the value of a present key.\<close>

fun jmap_insert :: "string \<Rightarrow> json \<Rightarrow> json_map \<Rightarrow> json_map" where
  "jmap_insert k v [] = [(k, v)]"
| "jmap_insert k v ((k', v') # m) =
     (if k < k' then (k, v) # (k', v') # m
      else if k = k' then (k, v) # m
      else (k', v') # jmap_insert k v m)"

definition jmap_of :: "(string \<times> json) list \<Rightarrow> json_map" where
  "jmap_of kvs = fold (\<lambda>(k, v) m. jmap_insert k v m) kvs []"

definition jmap_wf :: "json_map \<Rightarrow> bool" where
  "jmap_wf m \<longleftrightarrow> sorted_wrt (<) (map fst m)"

text \<open>\<open>json!({ ... })\<close>: the macro inserts the members one after the other.\<close>

definition jobj :: "(string \<times> json) list \<Rightarrow> json" where
  "jobj kvs = JObj (jmap_of kvs)"

lemma map_of_jmap_insert [simp]:
  "map_of (jmap_insert k v m) = (map_of m)(k \<mapsto> v)"
proof (induction m)
  case Nil
  show ?case by simp
next
  case (Cons kv m)
  then show ?case by (cases kv) (auto simp: fun_eq_iff)
qed

lemma map_of_fold_jmap_insert:
  "map_of (fold (\<lambda>(k, v) m. jmap_insert k v m) kvs m) = map_of m ++ map_of (rev kvs)"
  by (induction kvs arbitrary: m) (auto simp: map_add_def fun_eq_iff split: option.splits)

text \<open>A repeated key keeps its last value.\<close>

lemma map_of_jmap_of: "map_of (jmap_of kvs) = map_of (rev kvs)"
  by (simp add: jmap_of_def map_of_fold_jmap_insert)

lemma map_of_rev_distinct: "distinct (map fst kvs) \<Longrightarrow> map_of (rev kvs) = map_of kvs"
  by (rule map_of_inject_set [THEN iffD2]) (auto simp: rev_map [symmetric])

lemma map_of_jmap_of_distinct:
  "distinct (map fst kvs) \<Longrightarrow> map_of (jmap_of kvs) = map_of kvs"
  by (simp add: map_of_jmap_of map_of_rev_distinct)

lemma keys_jmap_insert: "set (map fst (jmap_insert k v m)) = insert k (set (map fst m))"
  unfolding set_map dom_map_of_conv_image_fst [symmetric] by simp

lemma jmap_wf_insert: "jmap_wf m \<Longrightarrow> jmap_wf (jmap_insert k v m)"
proof (induction m)
  case Nil
  show ?case by (simp add: jmap_wf_def)
next
  case (Cons kv m)
  obtain k' v' where [simp]: "kv = (k', v')" by (cases kv)
  have wf: "jmap_wf m" and lt: "\<forall>x \<in> set (map fst m). k' < x"
    using Cons.prems by (auto simp: jmap_wf_def)
  show ?case
    using Cons.prems Cons.IH [OF wf] lt keys_jmap_insert [of k v m]
    by (auto simp: jmap_wf_def dest: less_trans)
qed

lemma jmap_wf_fold:
  "jmap_wf m \<Longrightarrow> jmap_wf (fold (\<lambda>(k, v) m. jmap_insert k v m) kvs m)"
  by (induction kvs arbitrary: m) (auto simp: jmap_wf_insert)

lemma jmap_wf_of [simp]: "jmap_wf (jmap_of kvs)"
  unfolding jmap_of_def by (rule jmap_wf_fold) (simp add: jmap_wf_def)

lemma jmap_insert_last:
  "\<forall>x \<in> set (map fst m). x < k \<Longrightarrow> jmap_insert k v m = m @ [(k, v)]"
  by (induction m) (auto dest: less_not_sym)

lemma fold_jmap_insert_sorted:
  "sorted_wrt (<) (map fst (m @ kvs)) \<Longrightarrow>
     fold (\<lambda>(k, v) m. jmap_insert k v m) kvs m = m @ kvs"
proof (induction kvs arbitrary: m)
  case Nil
  then show ?case by simp
next
  case (Cons kv kvs)
  obtain k v where [simp]: "kv = (k, v)" by (cases kv)
  have "\<forall>x \<in> set (map fst m). x < k"
    using Cons.prems by (auto simp: sorted_wrt_append)
  then have "jmap_insert k v m = m @ [(k, v)]" by (rule jmap_insert_last)
  with Cons.IH [of "m @ [(k, v)]"] Cons.prems show ?case by simp
qed

text \<open>A map that is already sorted is rebuilt unchanged.\<close>

lemma jmap_of_sorted: "jmap_wf kvs \<Longrightarrow> jmap_of kvs = kvs"
  unfolding jmap_of_def jmap_wf_def using fold_jmap_insert_sorted [of "[]" kvs] by simp

lemma jget_jobj: "distinct (map fst kvs) \<Longrightarrow> jget k (jobj kvs) = map_of kvs k"
  by (simp add: jobj_def map_of_jmap_of_distinct)

lemma as_object_jobj [simp]: "as_object (jobj kvs) = Some (jmap_of kvs)"
  by (simp add: jobj_def)

lemma keys_jmap_of: "fst ` set (jmap_of kvs) = fst ` set kvs"
  by (metis map_of_jmap_of dom_map_of_conv_image_fst set_rev)

end
