(* ===== verification/Hook_Cancellation.thy ===== *)
theory Hook_Cancellation
  imports Json
begin

text \<open>
  Model of \<open>crates/unpeel-core/src/hook_cancellation.rs\<close>: the input tracker that scans
  the bytes a user typed for a standalone Escape (a cancellation intent) or a submitted
  line, and the durable marker \<open>hook-cancellation.json\<close> it feeds. The tracker is a byte
  automaton; indexing past the paste terminator would panic, so a step returns
  \<open>None\<close> there and the theorems show that it never does.
\<close>

section \<open>The durable marker\<close>

record cancellation =
  c_runtime_generation :: u64
  c_cancelled_at :: u64
  c_submitted_at :: "u64 option"

text \<open>The session directory as this module sees it: whether it exists, and the marker
  file (\<open>None\<close>: no file; \<open>Some None\<close>: a file that does not parse).\<close>

record marker_dir =
  md_is_dir :: bool
  md_marker :: "cancellation option option"

definition read_in :: "marker_dir \<Rightarrow> cancellation option" where
  "read_in d = (if md_is_dir d then Option.bind (md_marker d) id else None)"

text \<open>The value \<open>record_in\<close> writes, or \<open>None\<close> where it returns \<open>Ok(false)\<close> after the
  lock: \<open>previous\<close> is the marker read under the lock.\<close>

definition next_marker ::
  "cancellation option \<Rightarrow> u64 \<Rightarrow> u64 option \<Rightarrow> u64 option \<Rightarrow> cancellation option" where
  "next_marker previous generation cancelled_at submitted_at =
     (if (case previous of None \<Rightarrow> False | Some v \<Rightarrow> c_runtime_generation v > generation)
      then None
      else
        let previous = (case previous of None \<Rightarrow> None
              | Some v \<Rightarrow> if c_runtime_generation v = generation then Some v else None);
            fresh = (\<lambda>at. \<lparr>c_runtime_generation = generation, c_cancelled_at = at,
                           c_submitted_at = None\<rparr>);
            marker = (case (previous, cancelled_at) of
                (Some p, Some at) \<Rightarrow> if at \<le> c_cancelled_at p then Some p else Some (fresh at)
              | (None, Some at) \<Rightarrow> Some (fresh at)
              | (Some p, None) \<Rightarrow> Some p
              | (None, None) \<Rightarrow> None)
        in case marker of
             None \<Rightarrow> None
           | Some m \<Rightarrow> (case submitted_at of
               None \<Rightarrow> Some m
             | Some at \<Rightarrow>
                 if at > c_cancelled_at m
                 then Some (m\<lparr>c_submitted_at :=
                    Some (min (case c_submitted_at m of None \<Rightarrow> at | Some s \<Rightarrow> s) at)\<rparr>)
                 else Some m))"

text \<open>\<open>lock\<close> and \<open>write\<close> are the outcomes of taking the file lock and of the atomic
  write; an error leaves the file as it was.\<close>

definition record_in ::
  "marker_dir \<Rightarrow> u64 \<Rightarrow> u64 option \<Rightarrow> u64 option \<Rightarrow> string + unit \<Rightarrow> string + unit
     \<Rightarrow> (string + bool) \<times> marker_dir" where
  "record_in d generation cancelled_at submitted_at lock write =
     (if \<not> md_is_dir d \<or> (cancelled_at = None \<and> md_marker d = None) then (Inr False, d)
      else case lock of
        Inl e \<Rightarrow> (Inl e, d)
      | Inr _ \<Rightarrow>
          (case next_marker (read_in d) generation cancelled_at submitted_at of
             None \<Rightarrow> (Inr False, d)
           | Some m \<Rightarrow> (case write of
               Inl e \<Rightarrow> (Inl e, d)
             | Inr _ \<Rightarrow> (Inr True, d\<lparr>md_marker := Some (Some m)\<rparr>))))"

section \<open>The input tracker\<close>

definition ESCAPE_SETTLE_MS :: u64 where "ESCAPE_SETTLE_MS = 150"

datatype input_state =
    Plain
  | Escape u64 bool
  | Csi string bool
  | Ss3
  | StringSeq
  | StringEscape
  | Paste nat

record input_tracker =
  it_state :: input_state
  it_generation :: u64
  it_cancelled_at :: "u64 option"
  it_submitted_at :: "u64 option"

definition tracker_default :: input_tracker where
  "tracker_default = \<lparr>it_state = Plain, it_generation = 0, it_cancelled_at = None,
     it_submitted_at = None\<rparr>"

definition note_cancel :: "u64 \<Rightarrow> input_tracker \<Rightarrow> input_tracker" where
  "note_cancel at t = t\<lparr>it_cancelled_at := Some at,
     it_submitted_at := (case it_submitted_at t of None \<Rightarrow> None
        | Some s \<Rightarrow> if s > at then Some s else None)\<rparr>"

text \<open>\<open>submitted_at.get_or_insert(now)\<close>.\<close>

definition note_submit :: "u64 \<Rightarrow> input_tracker \<Rightarrow> input_tracker" where
  "note_submit now t = (case it_submitted_at t of None \<Rightarrow> t\<lparr>it_submitted_at := Some now\<rparr> | Some _ \<Rightarrow> t)"

abbreviation to_state :: "input_state \<Rightarrow> input_tracker \<Rightarrow> input_tracker" where
  "to_state s t \<equiv> t\<lparr>it_state := s\<rparr>"

definition PASTE_END :: string where
  "PASTE_END = [CHR 0x1B] @ ''[201~''"

definition kitty_escape_params :: "string list" where
  "kitty_escape_params = [''27'', ''27;1'', ''27;1:1'', ''27;1:2'']"

definition kitty_enter_params :: "string list" where
  "kitty_enter_params = [''13'', ''13;1'', ''13;1:1'', ''13;1:2'']"

definition csi_final :: "u64 \<Rightarrow> string \<Rightarrow> bool \<Rightarrow> byte \<Rightarrow> input_tracker \<Rightarrow> input_tracker" where
  "csi_final now parameters allowed b t =
     (if b = CHR ''~'' \<and> parameters = ''200'' then to_state (Paste 0) t
      else if b = CHR ''u'' \<and> allowed \<and> parameters \<in> set kitty_escape_params
        then to_state Plain (note_cancel now t)
      else if b = CHR ''u'' \<and> allowed \<and> parameters \<in> set kitty_enter_params
        then to_state Plain (note_submit now t)
      else to_state Plain t)"

fun feed_byte :: "u64 \<Rightarrow> bool \<Rightarrow> input_tracker \<Rightarrow> byte \<Rightarrow> input_tracker option" where
  "feed_byte now menu_active t b = (case it_state t of
     Plain \<Rightarrow> Some (
       if b = CHR 0x1B then to_state (Escape now (\<not> menu_active)) t
       else if b = CHR 0x0D \<or> b = CHR 0x0A then note_submit now t
       else t)
   | Escape at allowed \<Rightarrow> Some (
       if b = CHR ''['' then to_state (Csi [] allowed) t
       else if b = CHR ''O'' then to_state Ss3 t
       else if b \<in> {CHR '']'', CHR ''P'', CHR ''_'', CHR ''^'', CHR ''X''} then to_state StringSeq t
       else if b = CHR 0x1B then
         to_state (Escape now (\<not> menu_active)) (if allowed then note_cancel at t else t)
       else to_state Plain t)
   | Csi parameters allowed \<Rightarrow> Some (
       if 0x40 \<le> byte_val b \<and> byte_val b \<le> 0x7E then csi_final now parameters allowed b t
       else to_state
         (Csi (if length parameters < 64 then parameters @ [b] else parameters) allowed) t)
   | Ss3 \<Rightarrow> Some (to_state Plain t)
   | StringSeq \<Rightarrow> Some (
       if b = CHR 0x07 then to_state Plain t
       else if b = CHR 0x1B then to_state StringEscape t
       else t)
   | StringEscape \<Rightarrow> Some (
       if b = CHR 0x5C then to_state Plain t else to_state StringSeq t)
   | Paste matched \<Rightarrow>
       if matched < length PASTE_END then
         (let matched' = (if b = PASTE_END ! matched then matched + 1
                          else if b = PASTE_END ! 0 then 1 else 0)
          in Some (to_state (if matched' = length PASTE_END then Plain else Paste matched') t))
       else None)"

fun feed_bytes :: "u64 \<Rightarrow> bool \<Rightarrow> input_tracker \<Rightarrow> string \<Rightarrow> input_tracker option" where
  "feed_bytes now menu_active t [] = Some t"
| "feed_bytes now menu_active t (b # bs) =
     Option.bind (feed_byte now menu_active t b) (\<lambda>t'. feed_bytes now menu_active t' bs)"

definition feed :: "input_tracker \<Rightarrow> string \<Rightarrow> u64 \<Rightarrow> u64 \<Rightarrow> bool \<Rightarrow> input_tracker option" where
  "feed t bytes generation now menu_active =
     feed_bytes now menu_active
       (if it_generation t \<noteq> generation then tracker_default\<lparr>it_generation := generation\<rparr> else t)
       bytes"

definition take_pending ::
  "input_tracker \<Rightarrow> u64 \<Rightarrow> (u64 \<times> u64 option \<times> u64 option) \<times> input_tracker" where
  "take_pending t now =
     (let t' = (case it_state t of
          Escape at allowed \<Rightarrow>
            if saturating_sub64 now at \<ge> ESCAPE_SETTLE_MS
            then to_state Plain (if allowed then note_cancel at t else t)
            else t
        | _ \<Rightarrow> t)
      in ((it_generation t', it_cancelled_at t', it_submitted_at t'),
          t'\<lparr>it_cancelled_at := None, it_submitted_at := None\<rparr>))"

section \<open>Lemmas on the marker\<close>

definition marker_wf :: "cancellation \<Rightarrow> bool" where
  "marker_wf m \<longleftrightarrow> (case c_submitted_at m of None \<Rightarrow> True | Some s \<Rightarrow> s > c_cancelled_at m)"

lemma next_marker_generation:
  "next_marker p g ca sa = Some m \<Longrightarrow> c_runtime_generation m = g"
  by (auto simp: next_marker_def Let_def split: option.splits if_splits)

lemma next_marker_wf:
  assumes "next_marker p g ca sa = Some m"
    and "\<And>q. p = Some q \<Longrightarrow> marker_wf q"
  shows "marker_wf m"
  using assms
  by (auto simp: next_marker_def marker_wf_def Let_def min_def split: option.splits if_splits)

lemma next_marker_mono:
  assumes "next_marker (Some q) g ca sa = Some m" and "c_runtime_generation q = g"
  shows "c_cancelled_at q \<le> c_cancelled_at m"
  using assms by (auto simp: next_marker_def Let_def split: option.splits if_splits)

text \<open>Within one cancellation the submission marker only moves earlier.\<close>

lemma next_marker_submission_earliest:
  assumes "next_marker (Some q) g ca sa = Some m" and "c_runtime_generation q = g"
    and "c_cancelled_at m = c_cancelled_at q" and "c_submitted_at q = Some s"
  shows "\<exists>s'. c_submitted_at m = Some s' \<and> s' \<le> s"
  using assms by (auto simp: next_marker_def Let_def split: option.splits if_splits)

section \<open>Lemmas on the tracker\<close>

text \<open>The automaton's invariant: the paste index is inside the terminator and the CSI
  parameter buffer is bounded.\<close>

definition tracker_wf :: "input_tracker \<Rightarrow> bool" where
  "tracker_wf t = (case it_state t of
      Paste n \<Rightarrow> n < length PASTE_END
    | Csi ps _ \<Rightarrow> length ps \<le> 64
    | _ \<Rightarrow> True)"

lemma tracker_wf_default [simp]: "tracker_wf (tracker_default\<lparr>it_generation := g\<rparr>)"
  by (simp add: tracker_wf_def tracker_default_def)

lemma note_cancel_sel [simp]:
  "it_state (note_cancel a t) = it_state t" "it_generation (note_cancel a t) = it_generation t"
  "it_cancelled_at (note_cancel a t) = Some a"
  by (simp_all add: note_cancel_def)

lemma note_submit_sel [simp]:
  "it_state (note_submit a t) = it_state t" "it_generation (note_submit a t) = it_generation t"
  "it_cancelled_at (note_submit a t) = it_cancelled_at t"
  by (simp_all add: note_submit_def split: option.splits)

lemma length_PASTE_END [simp]: "length PASTE_END = 6"
  by (simp add: PASTE_END_def)

lemma csi_final_wf: "tracker_wf (csi_final now ps al b t)"
  by (simp add: csi_final_def tracker_wf_def)

lemma csi_final_generation [simp]: "it_generation (csi_final now ps al b t) = it_generation t"
  by (simp add: csi_final_def)

lemma feed_byte_wf:
  assumes "tracker_wf t"
  shows "\<exists>t'. feed_byte now m t b = Some t' \<and> tracker_wf t' \<and> it_generation t' = it_generation t"
proof (cases "it_state t")
  case (Csi ps al)
  then show ?thesis using assms by (simp add: csi_final_wf) (simp add: tracker_wf_def)
next
  case (Paste n)
  then show ?thesis using assms by (auto simp: tracker_wf_def Let_def)
qed (simp_all add: tracker_wf_def)

lemma feed_bytes_wf:
  "tracker_wf t \<Longrightarrow>
     \<exists>t'. feed_bytes now m t bs = Some t' \<and> tracker_wf t' \<and> it_generation t' = it_generation t"
proof (induction bs arbitrary: t)
  case Nil
  then show ?case by simp
next
  case (Cons b bs)
  obtain t1 where "feed_byte now m t b = Some t1" "tracker_wf t1" "it_generation t1 = it_generation t"
    using feed_byte_wf [OF Cons.prems] by blast
  with Cons.IH [of t1] show ?case by (simp del: feed_byte.simps)
qed

lemma feed_byte_generation:
  "feed_byte now m t b = Some t' \<Longrightarrow> it_generation t' = it_generation t"
  by (cases "it_state t") (auto simp: Let_def split: if_splits)

lemma feed_bytes_generation:
  "feed_bytes now m t bs = Some t' \<Longrightarrow> it_generation t' = it_generation t"
proof (induction bs arbitrary: t)
  case Nil
  then show ?case by simp
next
  case (Cons b bs)
  then obtain t1 where "feed_byte now m t b = Some t1" "feed_bytes now m t1 bs = Some t'"
    by (auto simp: bind_eq_Some_conv simp del: feed_byte.simps)
  then show ?case using Cons.IH feed_byte_generation by metis
qed

lemma feed_bytes_append:
  "feed_bytes now m t (xs @ ys) =
     Option.bind (feed_bytes now m t xs) (\<lambda>t'. feed_bytes now m t' ys)"
proof (induction xs arbitrary: t)
  case Nil
  then show ?case by simp
next
  case (Cons x xs)
  then show ?case by (cases "feed_byte now m t x") (simp_all del: feed_byte.simps)
qed

text \<open>The opening sequence of a bracketed paste, as \<open>csi_final\<close> recognises it.\<close>

definition PASTE_START :: string where
  "PASTE_START = [CHR 0x1B] @ ''[200~''"

text \<open>Inside a bracketed paste only the terminator moves the automaton out.\<close>

lemma feed_bytes_paste_body:
  assumes "CHR 0x1B \<notin> set body"
  shows "feed_bytes now m (t\<lparr>it_state := Paste 0\<rparr>) body = Some (t\<lparr>it_state := Paste 0\<rparr>)"
  using assms by (induction body) (auto simp: PASTE_END_def Let_def)

lemma feed_bytes_paste_end:
  "feed_bytes now m (t\<lparr>it_state := Paste 0\<rparr>) PASTE_END = Some (t\<lparr>it_state := Plain\<rparr>)"
  by (simp add: PASTE_END_def Let_def)

lemma feed_bytes_paste_start:
  "it_state t = Plain \<Longrightarrow>
     feed_bytes now m t PASTE_START = Some (t\<lparr>it_state := Paste 0\<rparr>)"
  by (simp add: PASTE_START_def csi_final_def byte_val_def)

text \<open>A whole bracketed paste without an escape byte in its body leaves no trace.\<close>

lemma feed_bytes_paste:
  assumes "it_state t = Plain" and "CHR 0x1B \<notin> set body"
  shows "feed_bytes now m t (PASTE_START @ body @ PASTE_END) = Some t"
proof -
  have "t\<lparr>it_state := Plain\<rparr> = t" using assms(1) by simp
  then show ?thesis
    using feed_bytes_paste_start [OF assms(1)] feed_bytes_paste_body [OF assms(2)]
      feed_bytes_paste_end by (simp add: feed_bytes_append)
qed

end
