(* ===== verification/Hook_Markers.thy ===== *)
theory Hook_Markers
  imports Json
begin

text \<open>
  Durable facts that runtime hooks and the Host leave in a session directory:
  background-activity markers (\<open>crates/unpeel-core/src/hook_assets/background.rs\<close>) and
  the expiry watermark of a timed-out turn (\<open>hook_assets/expiry.rs\<close>). A
  \<open>SystemTime\<close> is the signed number of nanoseconds from the Unix epoch.
\<close>

type_synonym systime = int

definition UNIX_EPOCH :: systime where "UNIX_EPOCH = 0"

definition from_millis :: "u64 \<Rightarrow> int" where
  "from_millis ms = int ms * 1000000"

definition from_secs :: "u64 \<Rightarrow> int" where
  "from_secs s = int s * 1000000000"

text \<open>\<open>duration_since(UNIX_EPOCH).unwrap_or_default().as_millis() as u64\<close>.\<close>

definition unix_ms :: "systime \<Rightarrow> u64" where
  "unix_ms t = (if t < 0 then 0 else nat (t div 1000000) mod 2 ^ 64)"

datatype io_error = NotFound | OtherIo

type_synonym 'a io = "io_error + 'a"

section \<open>Background activity markers\<close>

record hook_file =
  hf_metadata :: "(nat \<times> systime io) io"
  hf_bytes :: "string io"

record hook_dirent =
  de_extension :: "string option"
  de_file_stem :: "string option"
  de_is_file :: "bool io"
  de_open :: "hook_file io"

type_synonym background_activity = "string \<times> systime"

definition activity_id_ok :: "string \<Rightarrow> bool" where
  "activity_id_ok i \<longleftrightarrow> i \<noteq> [] \<and> length i \<le> 160
     \<and> list_all (\<lambda>b. is_ascii_alphanumeric b \<or> b = CHR ''_'' \<or> b = CHR ''-'') i"

definition read_marker ::
  "(string \<Rightarrow> json option) \<Rightarrow> u64 \<Rightarrow> hook_dirent \<Rightarrow> hook_file \<Rightarrow> background_activity option io" where
  "read_marker from_slice generation entry file =
     rbind (hf_metadata file) (\<lambda>(len, modified).
       if len > 1024 then Inr None
       else rbind (hf_bytes file) (\<lambda>bytes.
         case from_slice (take 1024 bytes) of
           None \<Rightarrow> Inr None
         | Some value \<Rightarrow>
             (case jget_str ''activity_id'' value of
                None \<Rightarrow> Inr None
              | Some i \<Rightarrow>
                  if \<not> activity_id_ok i \<or> de_file_stem entry \<noteq> Some i
                     \<or> jget_u64 ''unpeel_runtime_generation'' value \<noteq> Some generation
                  then Inr None
                  else rbind modified (\<lambda>at. Inr (Some (i, at))))))"

definition read_background_entry ::
  "(string \<Rightarrow> json option) \<Rightarrow> u64 \<Rightarrow> hook_dirent io \<Rightarrow> background_activity option io" where
  "read_background_entry from_slice generation entry =
     rbind entry (\<lambda>e.
       if de_extension e \<noteq> Some ''json'' then Inr None
       else rbind (de_is_file e) (\<lambda>is_file.
         if \<not> is_file then Inr None
         else case de_open e of
             Inl NotFound \<Rightarrow> Inr None
           | Inl err \<Rightarrow> Inl err
           | Inr file \<Rightarrow> read_marker from_slice generation e file))"

definition read_background_hook_activity ::
  "(string \<Rightarrow> json option) \<Rightarrow> u64 \<Rightarrow> hook_dirent io list io \<Rightarrow> background_activity list io" where
  "read_background_hook_activity from_slice generation directory =
     (case directory of
        Inl NotFound \<Rightarrow> Inr []
      | Inl err \<Rightarrow> Inl err
      | Inr entries \<Rightarrow>
          rbind (collect_results (read_background_entry from_slice generation) entries)
            (\<lambda>found. Inr (List.map_filter id found)))"

section \<open>Expiry watermark\<close>

record expiry =
  ex_runtime_generation :: u64
  ex_through :: systime

text \<open>\<open>None\<close> stands for an absent or unreadable \<open>hook-expiry.json\<close>.\<close>

definition hook_turn_expired :: "expiry option \<Rightarrow> u64 \<Rightarrow> systime \<Rightarrow> bool" where
  "hook_turn_expired file generation event_at =
     (case file of None \<Rightarrow> False
      | Some e \<Rightarrow> ex_runtime_generation e = generation \<and> event_at \<le> ex_through e)"

definition record_hook_expiry ::
  "bool \<Rightarrow> expiry option \<Rightarrow> string + unit \<Rightarrow> string + unit \<Rightarrow> u64 \<Rightarrow> systime
     \<Rightarrow> (string + unit) \<times> expiry option" where
  "record_hook_expiry is_dir file lock write generation through =
     (if \<not> is_dir then (Inr (), file)
      else case lock of
        Inl e \<Rightarrow> (Inl e, file)
      | Inr _ \<Rightarrow>
          if (case file of None \<Rightarrow> False
              | Some old \<Rightarrow> ex_runtime_generation old > generation
                  \<or> (ex_runtime_generation old = generation \<and> ex_through old \<ge> through))
          then (Inr (), file)
          else (case write of
              Inl e \<Rightarrow> (Inl e, file)
            | Inr _ \<Rightarrow> (Inr (), Some \<lparr>ex_runtime_generation = generation, ex_through = through\<rparr>)))"

section \<open>Lemmas\<close>

lemma unix_ms_from_millis: "m \<le> u64_max \<Longrightarrow> unix_ms (from_millis m) = m"
  by (simp add: unix_ms_def from_millis_def u64_max_def)

lemma unix_ms_mono:
  assumes "s \<le> t" and "t div 1000000 < 2 ^ 64"
  shows "unix_ms s \<le> unix_ms t"
proof (cases "s < 0")
  case False
  have q: "s div 1000000 \<le> t div 1000000" using assms(1) by (rule zdiv_mono1) simp
  have "nat (t div 1000000) < 2 ^ 64" using assms(2) by (simp add: nat_less_iff)
  moreover have "nat (s div 1000000) \<le> nat (t div 1000000)" using q by (rule nat_mono)
  ultimately show ?thesis using False assms(1) by (simp add: unix_ms_def)
qed (simp add: unix_ms_def)

lemma record_hook_expiry_covers:
  assumes "record_hook_expiry True file (Inr ()) (Inr ()) g through = (r, file')"
    and "case file of None \<Rightarrow> True | Some old \<Rightarrow> ex_runtime_generation old \<le> g"
  shows "at \<le> through \<Longrightarrow> hook_turn_expired file' g at"
  using assms
  by (auto simp: record_hook_expiry_def hook_turn_expired_def split: option.splits if_splits)

lemma rbind_marker_cases:
  "read_marker from_slice g e f = Inr (Some (i, at)) \<Longrightarrow> activity_id_ok i \<and> de_file_stem e = Some i"
  by (auto simp: read_marker_def rbind_Inr_iff split: prod.splits if_splits option.splits)

lemma collect_results_mem:
  "collect_results f xs = Inr ys \<Longrightarrow> y \<in> set ys \<Longrightarrow> \<exists>x \<in> set xs. f x = Inr y"
  by (induction xs arbitrary: ys) (auto simp: rbind_Inr_iff)

end
