(* ===== verification/Activity.thy ===== *)
theory Activity
  imports Hook_Cancellation Hook_Markers
begin

text \<open>
  Model of \<open>crates/unpeel-serve/src/activity.rs\<close>, the Host's busy/idle/attention engine.
  An \<open>entry\<close> is the engine's state for one session; the engine is a map from session
  ids to entries. Every public operation of \<open>ActivityEngine\<close> is a definition on the
  engine, built from the entry-level function that holds its branches. Files are values:
  a \<open>session_disk\<close> is what \<open>seed_from_disk\<close> can read of a session directory, and the
  one write the engine makes (the expiry watermark) is returned as an effect.
\<close>

section \<open>Constants and data\<close>

definition HOOK_IDLE_TIMEOUT :: int where "HOOK_IDLE_TIMEOUT = from_secs (5 * 60)"

definition LEGACY_GENERATION_STOP_GUARD :: int where
  "LEGACY_GENERATION_STOP_GUARD = from_secs 30"

datatype hook_state = Busy | Idle | Attention

record background_lease =
  bl_started_at :: systime
  bl_deadline_at :: systime
  bl_expired :: bool

record entry =
  background :: "(string, background_lease) hmap"
  background_expired :: bool
  native_cancelled :: bool
  last_cancelled_at :: "u64 option"
  cancelled_at :: "u64 option"
  submitted_at :: "u64 option"
  pending_opener :: "(string \<times> string option \<times> systime) option"
  last_turn_started_at :: "u64 option"
  completed :: bool
  runtime_launch_generation :: u64
  hook_seen :: bool
  state :: "hook_state option"
  deadline_at :: "systime option"
  last_signal :: "u64 option"
  last_transition_at :: "systime option"
  session_dir :: "string option"
  last_hook_generation :: "u64 option"
  confirmed_turn_generation :: "u64 option"
  legacy_turn_started_at :: "systime option"
  foreground_identity :: "string option"
  foreground_identity_recorded :: bool

definition entry_default :: entry where
  "entry_default = \<lparr>background = [], background_expired = False, native_cancelled = False,
     last_cancelled_at = None, cancelled_at = None, submitted_at = None, pending_opener = None,
     last_turn_started_at = None, completed = False, runtime_launch_generation = 0,
     hook_seen = False, state = None, deadline_at = None, last_signal = None,
     last_transition_at = None, session_dir = None, last_hook_generation = None,
     confirmed_turn_generation = None, legacy_turn_started_at = None,
     foreground_identity = None, foreground_identity_recorded = False\<rparr>"

type_synonym engine = "(sid, entry) hmap"

section \<open>Event names\<close>

text \<open>Matching is on the lower-cased, separator-free key. Lower-casing only its ASCII
  letters decides the match as \<open>to_lowercase\<close> does: the code points outside ASCII whose
  lower case contains an ASCII letter are U+212A (a \<open>k\<close>, in none of the keys) and
  U+0130 (which keeps a combining dot).\<close>

definition event_key :: "string \<Rightarrow> string" where
  "event_key raw = filter (\<lambda>c. c \<noteq> CHR ''-'' \<and> c \<noteq> CHR ''_'' \<and> c \<noteq> CHR '' '')
     (map to_ascii_lower (trim raw))"

definition canonical_names :: "(string \<times> string) list" where
  "canonical_names =
     [(''start'', ''Start''),
      (''sessionstart'', ''HookSeen''),
      (''userpromptsubmit'', ''UserPromptSubmit''),
      (''userpromptsubmitted'', ''UserPromptSubmit''),
      (''beforesubmitprompt'', ''UserPromptSubmit''),
      (''stop'', ''Stop''),
      (''sessionend'', ''Stop''),
      (''subagentstart'', ''HookSeen''),
      (''subagentstop'', ''HookSeen''),
      (''stopfailure'', ''StopFailure''),
      (''stopcancelled'', ''StopCancelled''),
      (''stopcanceled'', ''StopCancelled''),
      (''idle'', ''Idle''),
      (''permissionrequest'', ''PermissionRequest'')]"

definition normalize_event_name :: "string \<Rightarrow> string" where
  "normalize_event_name raw =
     (case map_of canonical_names (event_key raw) of Some name \<Rightarrow> name | None \<Rightarrow> trim raw)"

definition starts_turn :: "string \<Rightarrow> bool" where
  "starts_turn canonical \<longleftrightarrow> canonical = ''Start'' \<or> canonical = ''UserPromptSubmit''"

definition is_latch_only :: "string \<Rightarrow> string option \<Rightarrow> bool" where
  "is_latch_only canonical tool_name =
     (if canonical \<in> {''Start'', ''UserPromptSubmit'', ''Stop'', ''StopFailure'',
                       ''StopCancelled'', ''Idle''} then False
      else if canonical = ''PermissionRequest'' then tool_name = Some ''AskUserQuestion''
      else True)"

section \<open>Hook events\<close>

definition entry_of :: "engine \<Rightarrow> sid \<Rightarrow> entry" where
  "entry_of eng i = (case hm_get eng i of None \<Rightarrow> entry_default | Some e \<Rightarrow> e)"

text \<open>The transition proper: the final \<open>match canonical\<close>.\<close>

definition apply_transition :: "string \<Rightarrow> systime \<Rightarrow> entry \<Rightarrow> entry" where
  "apply_transition canonical now e =
     (if starts_turn canonical then
        e\<lparr>completed := False, background_expired := False,
          last_turn_started_at := Some (unix_ms now), state := Some Busy,
          deadline_at := Some (now + HOOK_IDLE_TIMEOUT)\<rparr>
      else if canonical = ''Stop'' \<or> canonical = ''StopFailure'' then
        e\<lparr>completed := (canonical = ''Stop''), state := Some Idle, deadline_at := None\<rparr>
      else if canonical = ''StopCancelled'' then
        e\<lparr>native_cancelled := True, completed := False, state := Some Idle, deadline_at := None\<rparr>
      else if canonical = ''Idle'' then
        e\<lparr>completed := False, state := Some Idle, deadline_at := None\<rparr>
      else if canonical = ''PermissionRequest'' then
        e\<lparr>completed := False, state := Some Attention, deadline_at := None, last_signal := None\<rparr>
      else e)"

text \<open>The two cancellation fences in front of it: \<open>Inl\<close> is the early \<open>return false\<close>
  with the entry as it stands then.\<close>

definition cancellation_fence ::
  "string \<Rightarrow> string option \<Rightarrow> systime \<Rightarrow> entry \<Rightarrow> entry + entry" where
  "cancellation_fence canonical tool_name now e =
     (if native_cancelled e \<and> \<not> starts_turn canonical then Inl e
      else
        let e = (if native_cancelled e then e\<lparr>native_cancelled := False\<rparr> else e)
        in case cancelled_at e of
             None \<Rightarrow> Inr e
           | Some cancelled \<Rightarrow>
               if starts_turn canonical
                  \<and> (case submitted_at e of None \<Rightarrow> False
                      | Some submitted \<Rightarrow> submitted > cancelled \<and> unix_ms now \<ge> submitted)
               then Inr (e\<lparr>cancelled_at := None, pending_opener := None\<rparr>)
               else if starts_turn canonical \<and> unix_ms now \<ge> cancelled
               then Inl (e\<lparr>pending_opener := Some (canonical, tool_name, now)\<rparr>)
               else Inl e)"

definition entry_apply_hook ::
  "string \<Rightarrow> string option \<Rightarrow> systime \<Rightarrow> entry \<Rightarrow> entry \<times> bool" where
  "entry_apply_hook raw_name tool_name now e =
     (let canonical = normalize_event_name raw_name
      in case cancellation_fence canonical tool_name now e of
           Inl e' \<Rightarrow> (e', False)
         | Inr e1 \<Rightarrow>
             let e2 = e1\<lparr>hook_seen := True\<rparr>
             in if is_latch_only canonical tool_name then (e2, True)
                else if canonical = ''Idle'' \<and> state e2 = Some Idle then (e2, True)
                else (apply_transition canonical now (e2\<lparr>last_transition_at := Some now\<rparr>), True))"

definition apply_hook_event_unchecked ::
  "engine \<Rightarrow> sid \<Rightarrow> string \<Rightarrow> string option \<Rightarrow> systime \<Rightarrow> engine \<times> bool" where
  "apply_hook_event_unchecked eng i raw_name tool_name now =
     (let (e, accepted) = entry_apply_hook raw_name tool_name now (entry_of eng i)
      in (hm_put i e eng, accepted))"

definition apply_hook_event ::
  "engine \<Rightarrow> sid \<Rightarrow> string \<Rightarrow> string option \<Rightarrow> systime \<Rightarrow> engine" where
  "apply_hook_event eng i raw_name tool_name now =
     fst (apply_hook_event_unchecked eng i raw_name tool_name now)"

section \<open>Runtime generations\<close>

definition launch_time :: "u64 option \<Rightarrow> systime option" where
  "launch_time launched_at_unix_ms =
     map_option (\<lambda>ms. UNIX_EPOCH + from_millis ms) launched_at_unix_ms"

definition entry_observe_launch :: "u64 \<Rightarrow> u64 option \<Rightarrow> entry \<Rightarrow> entry" where
  "entry_observe_launch generation launched_at_unix_ms e =
     (if runtime_launch_generation e = generation then e
      else
        let saw_exact_generation = (last_hook_generation e = Some generation);
            saw_new_legacy_turn = (last_hook_generation e = None
              \<and> (case launch_time launched_at_unix_ms of None \<Rightarrow> False
                  | Some launched_at \<Rightarrow>
                     (case legacy_turn_started_at e of None \<Rightarrow> False
                      | Some started_at \<Rightarrow> started_at \<ge> launched_at)));
            e1 = (if \<not> (saw_exact_generation \<or> saw_new_legacy_turn) then entry_default else e);
            e2 = e1\<lparr>runtime_launch_generation := generation\<rparr>
        in if saw_new_legacy_turn
           then e2\<lparr>confirmed_turn_generation := Some generation\<rparr> else e2)"

definition observe_runtime_launch :: "engine \<Rightarrow> sid \<Rightarrow> u64 \<Rightarrow> u64 option \<Rightarrow> engine" where
  "observe_runtime_launch eng i generation launched_at_unix_ms =
     hm_put i (entry_observe_launch generation launched_at_unix_ms (entry_of eng i)) eng"

text \<open>\<open>now.duration_since(launch).unwrap_or_default() < GUARD\<close>.\<close>

definition within_stop_guard :: "systime \<Rightarrow> systime \<Rightarrow> bool" where
  "within_stop_guard launch now \<longleftrightarrow> max 0 (now - launch) < LEGACY_GENERATION_STOP_GUARD"

definition legacy_stop_quarantined ::
  "string \<Rightarrow> systime \<Rightarrow> u64 option \<Rightarrow> u64 \<Rightarrow> systime option \<Rightarrow> entry \<Rightarrow> bool" where
  "legacy_stop_quarantined canonical now event_generation current_generation launched_at e \<longleftrightarrow>
     canonical \<in> {''Stop'', ''StopFailure'', ''StopCancelled'', ''Idle''}
     \<and> event_generation = None
     \<and> current_generation > 1
     \<and> confirmed_turn_generation e \<noteq> Some current_generation
     \<and> (case launched_at of None \<Rightarrow> False | Some launch \<Rightarrow> within_stop_guard launch now)"

text \<open>An opening event records the generation it confirms; an untagged one also its time.\<close>

definition confirm_opener :: "string \<Rightarrow> systime \<Rightarrow> u64 option \<Rightarrow> u64 \<Rightarrow> entry \<Rightarrow> entry" where
  "confirm_opener canonical now event_generation current_generation e =
     (if starts_turn canonical
      then e\<lparr>confirmed_turn_generation := Some
               (case event_generation of None \<Rightarrow> current_generation | Some g \<Rightarrow> g),
             legacy_turn_started_at :=
               (if event_generation = None then Some now else legacy_turn_started_at e)\<rparr>
      else e)"

definition apply_hook_event_for_runtime ::
  "engine \<Rightarrow> sid \<Rightarrow> string \<Rightarrow> string option \<Rightarrow> systime \<Rightarrow> u64 option \<Rightarrow> u64 \<Rightarrow> u64 option
     \<Rightarrow> engine \<times> bool" where
  "apply_hook_event_for_runtime eng i raw_name tool_name now event_generation current_generation
      launched_at_unix_ms =
     (let eng1 = observe_runtime_launch eng i current_generation launched_at_unix_ms
      in if (case event_generation of None \<Rightarrow> False | Some g \<Rightarrow> g < current_generation)
         then (eng1, False)
         else
           let canonical = normalize_event_name raw_name;
               launched_at = launch_time launched_at_unix_ms
           in if event_generation = None
                 \<and> (case launched_at of None \<Rightarrow> False | Some launch \<Rightarrow> now < launch)
              then (eng1, False)
              else
                let e = entry_of eng1 i
                in if \<not> starts_turn canonical
                      \<and> legacy_stop_quarantined canonical now event_generation
                           current_generation launched_at e
                   then (hm_put i e eng1, False)
                   else
                     let e1 = confirm_opener canonical now event_generation current_generation e;
                         (eng2, accepted) =
                            apply_hook_event_unchecked (hm_put i e1 eng1) i canonical tool_name now
                     in if \<not> accepted then (eng2, False)
                        else (hm_put i ((entry_of eng2 i)\<lparr>last_hook_generation := event_generation\<rparr>)
                                eng2, True))"

section \<open>Queries\<close>

definition is_latched :: "engine \<Rightarrow> sid \<Rightarrow> bool" where
  "is_latched eng i = (case hm_get eng i of None \<Rightarrow> False | Some e \<Rightarrow> hook_seen e)"

definition hook_owned_state :: "engine \<Rightarrow> sid \<Rightarrow> hook_state option" where
  "hook_owned_state eng i =
     (case hm_get eng i of
        None \<Rightarrow> None
      | Some e \<Rightarrow>
          if \<not> hook_seen e then None
          else if state e = Some Attention then state e
          else if list_ex (\<lambda>a. \<not> bl_expired a) (hm_values (background e)) then Some Busy
          else state e)"

definition is_cancelled :: "engine \<Rightarrow> sid \<Rightarrow> bool" where
  "is_cancelled eng i =
     (case hm_get eng i of None \<Rightarrow> False | Some e \<Rightarrow> cancelled_at e \<noteq> None \<or> native_cancelled e)"

definition is_completed :: "engine \<Rightarrow> sid \<Rightarrow> bool" where
  "is_completed eng i =
     (case hm_get eng i of None \<Rightarrow> False
      | Some e \<Rightarrow> hook_seen e \<and> state e = Some Idle \<and> completed e \<and> \<not> background_expired e
          \<and> list_all bl_expired (hm_values (background e)))"

definition engine_launch_generation :: "engine \<Rightarrow> sid \<Rightarrow> u64 option" where
  "engine_launch_generation eng i = map_option runtime_launch_generation (hm_get eng i)"

definition attention_has_new_output :: "engine \<Rightarrow> sid \<Rightarrow> u64 \<Rightarrow> bool" where
  "attention_has_new_output eng i activity_signal =
     (case hm_get eng i of None \<Rightarrow> False
      | Some e \<Rightarrow> state e = Some Attention
          \<and> (case last_signal e of None \<Rightarrow> False | Some previous \<Rightarrow> previous \<noteq> activity_signal))"

section \<open>Durable markers\<close>

definition sync_one_background ::
  "u64 option \<Rightarrow> background_activity \<Rightarrow> entry \<times> string list \<Rightarrow> entry \<times> string list" where
  "sync_one_background not_before activity acc =
     (let (i, started) = activity; (e, current) = acc
      in if (case not_before of None \<Rightarrow> False | Some epoch \<Rightarrow> unix_ms started < epoch)
         then (e, current)
         else if (case hm_get (background e) i of None \<Rightarrow> False
                  | Some known \<Rightarrow> bl_started_at known = started)
         then (e, i # current)
         else (e\<lparr>hook_seen := True,
                 background := hm_put i
                   \<lparr>bl_started_at = started, bl_deadline_at = started + HOOK_IDLE_TIMEOUT,
                    bl_expired = False\<rparr> (background e)\<rparr>, i # current))"

definition entry_sync_background ::
  "u64 option \<Rightarrow> background_activity list \<Rightarrow> entry \<Rightarrow> entry" where
  "entry_sync_background not_before activities e =
     (let (e', current) = fold (sync_one_background not_before) activities (e, [])
      in e'\<lparr>background := hm_retain (\<lambda>i _. i \<in> set current) (background e')\<rparr>)"

definition sync_background_from_disk ::
  "engine \<Rightarrow> sid \<Rightarrow> background_activity list io \<Rightarrow> u64 option \<Rightarrow> engine" where
  "sync_background_from_disk eng i activities not_before =
     (case activities of
        Inl _ \<Rightarrow> eng
      | Inr xs \<Rightarrow> hm_put i (entry_sync_background not_before xs (entry_of eng i)) eng)"

definition entry_note_cancellation :: "cancellation \<Rightarrow> entry \<Rightarrow> entry" where
  "entry_note_cancellation marker e =
     (if (case last_cancelled_at e of None \<Rightarrow> True | Some at \<Rightarrow> c_cancelled_at marker > at)
      then
        let e1 = e\<lparr>last_cancelled_at := Some (c_cancelled_at marker), pending_opener := None\<rparr>;
            already_started_next_turn =
              (case c_submitted_at marker of None \<Rightarrow> False
               | Some submitted \<Rightarrow> submitted > c_cancelled_at marker
                   \<and> (case last_turn_started_at e of None \<Rightarrow> False
                       | Some started \<Rightarrow> started \<ge> submitted))
        in if already_started_next_turn then e1
           else e1\<lparr>completed := False, cancelled_at := Some (c_cancelled_at marker),
                   state := (if hook_seen e then Some Idle else state e), deadline_at := None\<rparr>
      else e)"

definition entry_observe_cancellation :: "cancellation \<Rightarrow> entry \<Rightarrow> entry" where
  "entry_observe_cancellation marker e =
     (let e1 = (entry_note_cancellation marker e)\<lparr>submitted_at := c_submitted_at marker\<rparr>;
          e2 = e1\<lparr>pending_opener := None\<rparr>
      in case pending_opener e1 of
           None \<Rightarrow> e2
         | Some (name, tool, at) \<Rightarrow> fst (entry_apply_hook name tool at e2))"

definition observe_cancellation :: "engine \<Rightarrow> sid \<Rightarrow> cancellation \<Rightarrow> u64 \<Rightarrow> engine" where
  "observe_cancellation eng i marker generation =
     (if c_runtime_generation marker \<noteq> generation then eng
      else hm_put i (entry_observe_cancellation marker (entry_of eng i)) eng)"

definition sync_cancellation_from_disk ::
  "engine \<Rightarrow> sid \<Rightarrow> cancellation option \<Rightarrow> u64 \<Rightarrow> engine" where
  "sync_cancellation_from_disk eng i file generation =
     (case file of None \<Rightarrow> eng | Some marker \<Rightarrow> observe_cancellation eng i marker generation)"

section \<open>Foreground observation, output and timeouts\<close>

definition entry_observe_foreground :: "string option \<Rightarrow> entry \<Rightarrow> entry" where
  "entry_observe_foreground observed e =
     (let changed_to_new_agent = (foreground_identity_recorded e \<and> observed \<noteq> None
            \<and> foreground_identity e \<noteq> observed);
          e1 = (if changed_to_new_agent
                then entry_default\<lparr>runtime_launch_generation := runtime_launch_generation e\<rparr>
                else e)
      in e1\<lparr>foreground_identity := observed, foreground_identity_recorded := True\<rparr>)"

definition observe_foreground_runtime :: "engine \<Rightarrow> sid \<Rightarrow> string option \<Rightarrow> engine" where
  "observe_foreground_runtime eng i observed =
     hm_put i (entry_observe_foreground observed (entry_of eng i)) eng"

definition lease_sweep :: "bool \<Rightarrow> systime \<Rightarrow> background_lease \<Rightarrow> background_lease" where
  "lease_sweep grew now a =
     (if bl_expired a then a
      else if grew then a\<lparr>bl_deadline_at := now + HOOK_IDLE_TIMEOUT\<rparr>
      else if bl_deadline_at a \<le> now then a\<lparr>bl_expired := True\<rparr>
      else a)"

definition lease_runs_out :: "bool \<Rightarrow> systime \<Rightarrow> background_lease \<Rightarrow> bool" where
  "lease_runs_out grew now a \<longleftrightarrow> \<not> bl_expired a \<and> \<not> grew \<and> bl_deadline_at a \<le> now"

text \<open>The result carries the expiry record to persist: directory, generation, watermark.\<close>

type_synonym expiry_effect = "(string \<times> u64 \<times> systime) option"

definition entry_sweep_state :: "bool \<Rightarrow> bool \<Rightarrow> systime \<Rightarrow> entry \<Rightarrow> entry \<times> expiry_effect" where
  "entry_sweep_state grew allow_attention_clear now e =
     (if cancelled_at e \<noteq> None \<or> native_cancelled e then (e, None)
      else case state e of
        Some Attention \<Rightarrow>
          if allow_attention_clear \<and> grew
          then (e\<lparr>state := Some Busy, deadline_at := Some (now + HOOK_IDLE_TIMEOUT)\<rparr>, None)
          else (e, None)
      | Some Busy \<Rightarrow>
          if (case deadline_at e of None \<Rightarrow> False | Some d \<Rightarrow> d \<le> now)
          then (e\<lparr>completed := False, state := Some Idle, deadline_at := None\<rparr>,
                case (session_dir e, last_transition_at e) of
                  (Some dir, Some through) \<Rightarrow> Some (dir, runtime_launch_generation e, through)
                | _ \<Rightarrow> None)
          else if grew then (e\<lparr>deadline_at := Some (now + HOOK_IDLE_TIMEOUT)\<rparr>, None)
          else (e, None)
      | _ \<Rightarrow> (e, None))"

definition entry_note_output ::
  "u64 \<Rightarrow> bool \<Rightarrow> systime \<Rightarrow> entry \<Rightarrow> entry \<times> expiry_effect" where
  "entry_note_output activity_signal allow_attention_clear now e =
     (let grew = (case last_signal e of None \<Rightarrow> False | Some previous \<Rightarrow> previous \<noteq> activity_signal);
          e1 = e\<lparr>last_signal := Some activity_signal,
                 background := hm_map_values (lease_sweep grew now) (background e),
                 background_expired := (background_expired e
                    \<or> list_ex (lease_runs_out grew now) (hm_values (background e)))\<rparr>
      in entry_sweep_state grew allow_attention_clear now e1)"

definition note_output_and_sweep ::
  "engine \<Rightarrow> sid \<Rightarrow> u64 \<Rightarrow> bool \<Rightarrow> systime \<Rightarrow> engine \<times> expiry_effect" where
  "note_output_and_sweep eng i activity_signal allow_attention_clear now =
     (let (e, effect) = entry_note_output activity_signal allow_attention_clear now (entry_of eng i)
      in (hm_put i e eng, effect))"

definition clear_output_baseline :: "engine \<Rightarrow> sid \<Rightarrow> engine" where
  "clear_output_baseline eng i =
     (case hm_get eng i of None \<Rightarrow> eng | Some e \<Rightarrow> hm_put i (e\<lparr>last_signal := None\<rparr>) eng)"

definition remove_session :: "engine \<Rightarrow> sid \<Rightarrow> engine" where
  "remove_session eng i = hm_remove i eng"

definition retain_sessions :: "engine \<Rightarrow> sid set \<Rightarrow> engine" where
  "retain_sessions eng live = hm_retain (\<lambda>i _. i \<in> live) eng"

section \<open>Recovery from disk\<close>

record seed_file =
  sf_metadata :: "(nat \<times> systime option) option"
  sf_text :: "string option"

record session_disk =
  sd_path :: string
  sd_cancellation :: "cancellation option"
  sd_background :: "u64 \<Rightarrow> hook_dirent io list io"
  sd_seed :: "seed_file option"
  sd_output_mtime :: "systime option"
  sd_expiry :: "expiry option"

text \<open>The seed's event once it is read: name, tool, generation; \<open>None\<close> on any of the
  silent returns while decoding the file.\<close>

definition decode_seed ::
  "(string \<Rightarrow> json option) \<Rightarrow> nat \<Rightarrow> seed_file \<Rightarrow> (string \<times> string option \<times> u64 option) option" where
  "decode_seed from_str len file =
     (if len > 64 * 1024 then None
      else Option.bind (sf_text file) (\<lambda>raw.
        Option.bind (from_str (take (64 * 1024) raw)) (\<lambda>value.
          Option.bind (jget_str ''hook_event_name'' value) (\<lambda>name.
            Some (name, jget_str ''tool_name'' value,
                  Option.bind
                    (case jget ''unpeel_runtime_generation'' value of
                       None \<Rightarrow> jget ''unpeelRuntimeGeneration'' value | Some v \<Rightarrow> Some v)
                    as_u64)))))"

definition seed_is_stale :: "entry option \<Rightarrow> u64 option \<Rightarrow> systime option \<Rightarrow> bool" where
  "seed_is_stale e not_before modified \<longleftrightarrow>
     (case Option.bind e last_transition_at of None \<Rightarrow> False
      | Some at \<Rightarrow> (case modified of None \<Rightarrow> False | Some m \<Rightarrow> m \<le> at))
     \<or> (case not_before of None \<Rightarrow> False
        | Some epoch \<Rightarrow> (case modified of None \<Rightarrow> 0 | Some m \<Rightarrow> unix_ms m) < epoch)"

definition seed_lease_at ::
  "string \<Rightarrow> bool \<Rightarrow> bool \<Rightarrow> systime option \<Rightarrow> systime \<Rightarrow> systime" where
  "seed_lease_at canonical anchor_start_to_output cancelled output_mtime seed_at =
     (let anchor = (canonical = ''UserPromptSubmit''
                    \<or> (canonical = ''Start'' \<and> anchor_start_to_output))
      in if starts_turn canonical \<and> anchor \<and> \<not> cancelled
         then (case output_mtime of None \<Rightarrow> seed_at | Some m \<Rightarrow> max seed_at m)
         else seed_at)"

definition apply_seed ::
  "engine \<Rightarrow> sid \<Rightarrow> session_disk \<Rightarrow> bool \<Rightarrow> u64 option \<Rightarrow> u64 \<Rightarrow> systime
     \<Rightarrow> string \<times> string option \<times> u64 option \<Rightarrow> engine" where
  "apply_seed eng i disk anchor_start_to_output not_before current_generation seed_at event =
     (let (name, tool_name, seed_generation) = event;
          canonical = normalize_event_name name;
          lease_at = seed_lease_at canonical anchor_start_to_output (is_cancelled eng i)
                       (sd_output_mtime disk) seed_at;
          (eng1, accepted) = apply_hook_event_for_runtime eng i canonical tool_name seed_at
                       seed_generation current_generation not_before
      in if accepted \<and> starts_turn canonical
         then hm_put i
           (if hook_turn_expired (sd_expiry disk) current_generation seed_at
            then (entry_of eng1 i)\<lparr>state := Some Idle, deadline_at := None\<rparr>
            else (entry_of eng1 i)\<lparr>deadline_at := Some (lease_at + HOOK_IDLE_TIMEOUT)\<rparr>) eng1
         else eng1)"

definition seed_from_disk ::
  "(string \<Rightarrow> json option) \<Rightarrow> engine \<Rightarrow> sid \<Rightarrow> session_disk \<Rightarrow> bool \<Rightarrow> u64 option \<Rightarrow> u64 \<Rightarrow> engine" where
  "seed_from_disk from_str eng i disk anchor_start_to_output not_before current_generation =
     (let eng1 = observe_runtime_launch eng i current_generation not_before;
          eng2 = hm_put i ((entry_of eng1 i)\<lparr>session_dir := Some (sd_path disk)\<rparr>) eng1;
          eng3 = sync_cancellation_from_disk eng2 i (sd_cancellation disk) current_generation;
          eng4 = sync_background_from_disk eng3 i
                   (read_background_hook_activity from_str current_generation
                      (sd_background disk current_generation)) not_before
      in case sd_seed disk of
           None \<Rightarrow> eng4
         | Some file \<Rightarrow>
             (case sf_metadata file of
                None \<Rightarrow> eng4
              | Some (len, modified) \<Rightarrow>
                  if seed_is_stale (hm_get eng4 i) not_before modified then eng4
                  else (case decode_seed from_str len file of
                      None \<Rightarrow> eng4
                    | Some event \<Rightarrow>
                        apply_seed eng4 i disk anchor_start_to_output not_before
                          current_generation
                          (case modified of None \<Rightarrow> UNIX_EPOCH | Some m \<Rightarrow> m) event)))"

end
