(* ===== verification/Activity_Facts.thy ===== *)
theory Activity_Facts
  imports Activity
begin

text \<open>
  Facts about the activity engine: the entry invariant and its preservation by every
  operation (collected in \<open>inv_intros\<close>), the states an engine can reach, and the
  properties that make the busy/idle/attention verdict trustworthy.
\<close>

section \<open>Event names\<close>

lemma normalize_literals [simp]:
  "normalize_event_name ''Start'' = ''Start''"
  "normalize_event_name ''UserPromptSubmit'' = ''UserPromptSubmit''"
  "normalize_event_name ''Stop'' = ''Stop''"
  "normalize_event_name ''StopFailure'' = ''StopFailure''"
  "normalize_event_name ''StopCancelled'' = ''StopCancelled''"
  "normalize_event_name ''Idle'' = ''Idle''"
  "normalize_event_name ''PermissionRequest'' = ''PermissionRequest''"
  by (simp_all add: normalize_event_name_def event_key_def canonical_names_def trim_eval ascii_defs)

lemma starts_turn_literals [simp]:
  "starts_turn ''Start''" "starts_turn ''UserPromptSubmit''" "\<not> starts_turn ''Stop''"
  "\<not> starts_turn ''StopFailure''" "\<not> starts_turn ''StopCancelled''" "\<not> starts_turn ''Idle''"
  "\<not> starts_turn ''PermissionRequest''"
  by (simp_all add: starts_turn_def)

lemma normalize_starts_turn: "starts_turn n \<Longrightarrow> normalize_event_name n = n"
  by (auto simp: starts_turn_def)

lemma is_latch_only_starts_turn [simp]: "starts_turn n \<Longrightarrow> \<not> is_latch_only n t"
  by (auto simp: starts_turn_def is_latch_only_def)

lemma is_latch_only_cases:
  "\<not> is_latch_only n t \<Longrightarrow>
     starts_turn n \<or> n \<in> {''Stop'', ''StopFailure'', ''StopCancelled'', ''Idle'', ''PermissionRequest''}"
  by (auto simp: is_latch_only_def starts_turn_def split: if_splits)

section \<open>Entry lookup\<close>

lemma entry_of_put [simp]: "entry_of (hm_put i e eng) j = (if j = i then e else entry_of eng j)"
  by (simp add: entry_of_def)

lemma entry_of_Nil [simp]: "entry_of [] i = entry_default"
  by (simp add: entry_of_def)

lemma entry_of_Cons [simp]: "entry_of ((i, e) # eng) j = (if j = i then e else entry_of eng j)"
  by (simp add: entry_of_def)

lemma hm_get_entry_of: "hm_get eng i = Some e \<Longrightarrow> entry_of eng i = e"
  by (simp add: entry_of_def)

section \<open>The entry invariant\<close>

definition opener_ok :: "(string \<times> string option \<times> systime) option \<Rightarrow> bool" where
  "opener_ok p = (case p of None \<Rightarrow> True | Some (name, _, _) \<Rightarrow> starts_turn name)"

lemma opener_ok_simps [simp]: "opener_ok None" "opener_ok (Some (n, t, a)) = starts_turn n"
  by (simp_all add: opener_ok_def)

definition entry_inv :: "entry \<Rightarrow> bool" where
  "entry_inv e \<longleftrightarrow>
     (state e \<noteq> None \<longrightarrow> hook_seen e)
   \<and> (deadline_at e \<noteq> None \<longleftrightarrow> state e = Some Busy)
   \<and> (completed e \<longrightarrow> state e = Some Idle)
   \<and> (cancelled_at e \<noteq> None \<longrightarrow> state e = None \<or> state e = Some Idle)
   \<and> (native_cancelled e \<longrightarrow> state e = Some Idle)
   \<and> (pending_opener e \<noteq> None \<longrightarrow> cancelled_at e \<noteq> None)
   \<and> opener_ok (pending_opener e)
   \<and> hm_wf (background e)"

definition engine_inv :: "engine \<Rightarrow> bool" where
  "engine_inv eng \<longleftrightarrow> hm_wf eng \<and> (\<forall>i e. hm_get eng i = Some e \<longrightarrow> entry_inv e)"

lemma entry_inv_default [inv_intros]: "entry_inv entry_default"
  by (simp add: entry_inv_def entry_default_def)

lemma entry_inv_generation [simp]:
  "entry_inv (e\<lparr>runtime_launch_generation := g\<rparr>) = entry_inv e"
  "entry_inv (e\<lparr>confirmed_turn_generation := c\<rparr>) = entry_inv e"
  "entry_inv (e\<lparr>legacy_turn_started_at := l\<rparr>) = entry_inv e"
  "entry_inv (e\<lparr>last_hook_generation := h\<rparr>) = entry_inv e"
  "entry_inv (e\<lparr>session_dir := d\<rparr>) = entry_inv e"
  "entry_inv (e\<lparr>last_signal := s\<rparr>) = entry_inv e"
  "entry_inv (e\<lparr>submitted_at := sa\<rparr>) = entry_inv e"
  "entry_inv (e\<lparr>last_transition_at := lt\<rparr>) = entry_inv e"
  "entry_inv (e\<lparr>foreground_identity := fi, foreground_identity_recorded := r\<rparr>) = entry_inv e"
  by (simp_all add: entry_inv_def)

lemma entry_inv_hook_seen [inv_intros]: "entry_inv e \<Longrightarrow> entry_inv (e\<lparr>hook_seen := True\<rparr>)"
  by (simp add: entry_inv_def)

lemma entry_inv_no_pending [inv_intros]: "entry_inv e \<Longrightarrow> entry_inv (e\<lparr>pending_opener := None\<rparr>)"
  by (simp add: entry_inv_def)

lemma apply_transition_inv [inv_intros]:
  assumes "entry_inv e" and "hook_seen e" and "cancelled_at e = None" and "\<not> native_cancelled e"
  shows "entry_inv (apply_transition n now e)"
  using assms by (auto simp: entry_inv_def apply_transition_def)

lemma fence_rejects_inv [inv_intros]:
  "entry_inv e \<Longrightarrow> cancellation_fence n t now e = Inl e' \<Longrightarrow> entry_inv e'"
  by (auto simp: cancellation_fence_def entry_inv_def Let_def split: if_splits option.splits)

lemma fence_passes:
  assumes "cancellation_fence n t now e = Inr e'"
  shows "cancelled_at e' = None" and "\<not> native_cancelled e'" and "entry_inv e \<Longrightarrow> entry_inv e'"
    and "state e' = state e" and "background e' = background e" and "hook_seen e' = hook_seen e"
    and "last_signal e' = last_signal e" and "session_dir e' = session_dir e"
  using assms
  by (auto simp: cancellation_fence_def entry_inv_def Let_def split: if_splits option.splits)

lemma entry_apply_hook_inv [inv_intros]:
  assumes "entry_inv e"
  shows "entry_inv (fst (entry_apply_hook raw t now e))"
proof (cases "cancellation_fence (normalize_event_name raw) t now e")
  case (Inl e')
  then show ?thesis
    using fence_rejects_inv [OF assms Inl] by (simp add: entry_apply_hook_def Let_def)
next
  case (Inr e')
  note f = fence_passes [OF Inr]
  have "entry_inv (e'\<lparr>hook_seen := True\<rparr>)" using f(3) [OF assms] by (rule entry_inv_hook_seen)
  then show ?thesis
    using Inr f by (auto simp: entry_apply_hook_def Let_def intro!: apply_transition_inv)
qed

lemma entry_observe_launch_inv [inv_intros]:
  "entry_inv e \<Longrightarrow> entry_inv (entry_observe_launch g l e)"
  by (simp add: entry_observe_launch_def Let_def entry_inv_default)

lemma entry_observe_foreground_inv [inv_intros]:
  "entry_inv e \<Longrightarrow> entry_inv (entry_observe_foreground ob e)"
  by (simp add: entry_observe_foreground_def Let_def entry_inv_default)

lemma entry_inv_forget:
  "entry_inv e \<Longrightarrow> entry_inv (e\<lparr>last_cancelled_at := x, pending_opener := None\<rparr>)"
  by (simp add: entry_inv_def)

lemma entry_inv_settle:
  "entry_inv e \<Longrightarrow> entry_inv (e\<lparr>last_cancelled_at := x, pending_opener := None,
     completed := False, cancelled_at := c, state := if hook_seen e then Some Idle else state e,
     deadline_at := None\<rparr>)"
  by (auto simp: entry_inv_def)

lemma entry_note_cancellation_inv [inv_intros]:
  "entry_inv e \<Longrightarrow> entry_inv (entry_note_cancellation m e)"
  by (simp add: entry_note_cancellation_def Let_def entry_inv_forget entry_inv_settle)

lemma entry_observe_cancellation_inv [inv_intros]:
  "entry_inv e \<Longrightarrow> entry_inv (entry_observe_cancellation m e)"
  by (auto simp: entry_observe_cancellation_def Let_def
      intro!: entry_apply_hook_inv entry_inv_no_pending entry_note_cancellation_inv
      split: option.splits)

lemma entry_inv_put_background:
  "entry_inv e \<Longrightarrow> entry_inv (e\<lparr>hook_seen := True, background := hm_put i a (background e)\<rparr>)"
  by (simp add: entry_inv_def hm_wf_put)

lemma sync_one_background_inv:
  assumes "entry_inv (fst acc)"
  shows "entry_inv (fst (sync_one_background nb a acc))"
proof -
  obtain i at e c where [simp]: "a = (i, at)" "acc = (e, c)" by (cases a, cases acc)
  show ?thesis
    using assms entry_inv_put_background [of e i] by (simp add: sync_one_background_def)
qed

lemma fold_sync_background_inv:
  "entry_inv (fst acc) \<Longrightarrow> entry_inv (fst (fold (sync_one_background nb) as acc))"
  by (induction as arbitrary: acc) (simp_all add: sync_one_background_inv)

lemma entry_sync_background_inv [inv_intros]:
  assumes "entry_inv e"
  shows "entry_inv (entry_sync_background nb as e)"
proof -
  obtain e' c where f: "fold (sync_one_background nb) as (e, []) = (e', c)" by fastforce
  have "entry_inv e'" using fold_sync_background_inv [of "(e, [])" nb as] f assms by simp
  then show ?thesis
    by (simp add: entry_sync_background_def f entry_inv_def hm.invar_retain)
qed

lemma entry_sweep_state_inv:
  assumes "entry_inv e"
  shows "entry_inv (fst (entry_sweep_state grew ac now e))"
proof (cases "state e")
  case None
  then show ?thesis using assms by (simp add: entry_sweep_state_def)
next
  case (Some s)
  then show ?thesis
    using assms by (cases s) (auto simp: entry_sweep_state_def entry_inv_def)
qed

lemma entry_note_output_inv [inv_intros]:
  "entry_inv e \<Longrightarrow> entry_inv (fst (entry_note_output s ac now e))"
  unfolding entry_note_output_def Let_def
  by (rule entry_sweep_state_inv) (simp add: entry_inv_def)

section \<open>Engine operations keep the invariant\<close>

lemma engine_inv_entry [dest]: "engine_inv eng \<Longrightarrow> entry_inv (entry_of eng i)"
  by (auto simp: engine_inv_def entry_of_def entry_inv_default split: option.splits)

lemma engine_inv_put [inv_intros]:
  "engine_inv eng \<Longrightarrow> entry_inv e \<Longrightarrow> engine_inv (hm_put i e eng)"
  by (auto simp: engine_inv_def hm_wf_put split: if_splits)

lemma engine_inv_unchecked [inv_intros]:
  "engine_inv eng \<Longrightarrow> engine_inv (fst (apply_hook_event_unchecked eng i raw t now))"
  unfolding apply_hook_event_unchecked_def Let_def case_prod_unfold fst_conv
  by (intro engine_inv_put entry_apply_hook_inv engine_inv_entry)

lemma engine_inv_launch [inv_intros]:
  "engine_inv eng \<Longrightarrow> engine_inv (observe_runtime_launch eng i g l)"
  unfolding observe_runtime_launch_def by (intro engine_inv_put entry_observe_launch_inv engine_inv_entry)

lemma confirm_opener_inv [simp]: "entry_inv (confirm_opener n now eg cg e) = entry_inv e"
  by (simp add: confirm_opener_def entry_inv_def)

lemma confirm_opener_sel [simp]:
  "state (confirm_opener n now eg cg e) = state e"
  "background (confirm_opener n now eg cg e) = background e"
  "hook_seen (confirm_opener n now eg cg e) = hook_seen e"
  "completed (confirm_opener n now eg cg e) = completed e"
  "background_expired (confirm_opener n now eg cg e) = background_expired e"
  by (simp_all add: confirm_opener_def)

lemma engine_inv_for_runtime [inv_intros]:
  assumes "engine_inv eng"
  shows "engine_inv (fst (apply_hook_event_for_runtime eng i raw t now eg cg l))"
proof -
  let ?eng1 = "observe_runtime_launch eng i cg l"
  have inv1: "engine_inv ?eng1" using assms by (rule engine_inv_launch)
  have put1: "engine_inv (hm_put i e ?eng1)" if "entry_inv e" for e
    using inv1 that by (rule engine_inv_put)
  have step: "engine_inv (fst (apply_hook_event_unchecked (hm_put i e ?eng1) i n t now))"
    if "entry_inv e" for e n
    using put1 [OF that] by (rule engine_inv_unchecked)
  show ?thesis
    using inv1 engine_inv_entry [OF inv1, of i]
    by (auto simp: apply_hook_event_for_runtime_def Let_def case_prod_unfold
        intro!: engine_inv_put step engine_inv_entry)
qed

lemma engine_inv_cancellation [inv_intros]:
  "engine_inv eng \<Longrightarrow> engine_inv (observe_cancellation eng i m g)"
  by (auto simp: observe_cancellation_def intro!: engine_inv_put entry_observe_cancellation_inv)

lemma engine_inv_sync_cancellation [inv_intros]:
  "engine_inv eng \<Longrightarrow> engine_inv (sync_cancellation_from_disk eng i f g)"
  by (auto simp: sync_cancellation_from_disk_def intro: engine_inv_cancellation split: option.splits)

lemma engine_inv_sync_background [inv_intros]:
  "engine_inv eng \<Longrightarrow> engine_inv (sync_background_from_disk eng i as nb)"
  by (auto simp: sync_background_from_disk_def intro!: engine_inv_put entry_sync_background_inv
      split: sum.splits)

lemma engine_inv_foreground [inv_intros]:
  "engine_inv eng \<Longrightarrow> engine_inv (observe_foreground_runtime eng i ob)"
  by (auto simp: observe_foreground_runtime_def intro!: engine_inv_put entry_observe_foreground_inv)

lemma engine_inv_note_output [inv_intros]:
  "engine_inv eng \<Longrightarrow> engine_inv (fst (note_output_and_sweep eng i s ac now))"
  by (auto simp: note_output_and_sweep_def Let_def case_prod_unfold
      intro!: engine_inv_put entry_note_output_inv)

lemma engine_inv_clear_baseline [inv_intros]:
  "engine_inv eng \<Longrightarrow> engine_inv (clear_output_baseline eng i)"
  by (auto simp: clear_output_baseline_def intro!: engine_inv_put split: option.splits)
     (auto simp: engine_inv_def)

lemma engine_inv_remove [inv_intros]:
  "engine_inv eng \<Longrightarrow> engine_inv (remove_session eng i)"
  by (auto simp: remove_session_def engine_inv_def hm.invar_remove hm.lookup_remove split: if_splits)

lemma engine_inv_retain [inv_intros]:
  "engine_inv eng \<Longrightarrow> engine_inv (retain_sessions eng live)"
  by (auto simp: retain_sessions_def engine_inv_def hm.invar_retain hm.retain_subset)

text \<open>An accepted opening event leaves the entry busy, so the lease that the recovery
  path installs belongs to a busy turn.\<close>

lemma accepted_opener_busy:
  assumes "apply_hook_event_for_runtime eng i raw t now eg cg l = (eng', True)"
    and "starts_turn (normalize_event_name raw)"
  shows "state (entry_of eng' i) = Some Busy" and "\<not> completed (entry_of eng' i)"
    and "cancelled_at (entry_of eng' i) = None" and "\<not> native_cancelled (entry_of eng' i)"
    and "hook_seen (entry_of eng' i)"
  using assms
  by (auto simp: apply_hook_event_for_runtime_def apply_hook_event_unchecked_def Let_def
      case_prod_unfold entry_apply_hook_def apply_transition_def normalize_starts_turn
      dest: fence_passes(1,2) split: if_splits sum.splits)

lemma engine_inv_apply_seed [inv_intros]:
  assumes "engine_inv eng"
  shows "engine_inv (apply_seed eng i disk an nb cg at ev)"
proof -
  obtain name tool sg where ev: "ev = (name, tool, sg)" by (cases ev)
  let ?c = "normalize_event_name name"
  obtain eng1 acc where app: "apply_hook_event_for_runtime eng i ?c tool at sg cg nb = (eng1, acc)"
    by fastforce
  have inv1: "engine_inv eng1" using engine_inv_for_runtime [OF assms, of i ?c tool at sg cg nb] app by simp
  show ?thesis
  proof (cases "acc \<and> starts_turn ?c")
    case True
    then have "starts_turn (normalize_event_name ?c)" by (simp add: normalize_starts_turn)
    then have "state (entry_of eng1 i) = Some Busy" and "\<not> completed (entry_of eng1 i)"
      and "cancelled_at (entry_of eng1 i) = None" and "\<not> native_cancelled (entry_of eng1 i)"
      and "hook_seen (entry_of eng1 i)"
      using accepted_opener_busy [of eng i ?c tool at sg cg nb eng1] app True by simp_all
    then show ?thesis
      using True inv1 engine_inv_entry [OF inv1, of i]
      by (auto simp: apply_seed_def ev Let_def app entry_inv_def intro!: engine_inv_put
          split: option.splits)
  next
    case False
    then show ?thesis using inv1 by (auto simp: apply_seed_def ev Let_def app)
  qed
qed

lemma engine_inv_seed_from_disk [inv_intros]:
  assumes "engine_inv eng"
  shows "engine_inv (seed_from_disk from_str eng i disk an nb cg)"
proof -
  define eng1 where "eng1 = observe_runtime_launch eng i cg nb"
  define eng2 where "eng2 = hm_put i ((entry_of eng1 i)\<lparr>session_dir := Some (sd_path disk)\<rparr>) eng1"
  define eng3 where "eng3 = sync_cancellation_from_disk eng2 i (sd_cancellation disk) cg"
  define eng4 where "eng4 = sync_background_from_disk eng3 i
     (read_background_hook_activity from_str cg (sd_background disk cg)) nb"
  have "engine_inv eng1" unfolding eng1_def by (rule engine_inv_launch [OF assms])
  then have "engine_inv eng2"
    unfolding eng2_def by (intro engine_inv_put) (auto dest: engine_inv_entry)
  then have "engine_inv eng4"
    unfolding eng4_def eng3_def
    by (intro engine_inv_sync_background engine_inv_sync_cancellation)
  then show ?thesis
    unfolding seed_from_disk_def
    by (fold eng1_def, unfold Let_def, fold eng2_def, fold eng3_def, fold eng4_def)
       (auto intro: engine_inv_apply_seed split: option.splits prod.splits)
qed

end
