(* ===== verification/Activity_Props.thy ===== *)
theory Activity_Props
  imports Activity_Facts
begin

text \<open>
  The properties of the activity engine. \<open>engine_reachable\<close> are the engines that some
  sequence of its public operations builds from an empty one, in any order.
\<close>

inductive engine_reachable :: "(string \<Rightarrow> json option) \<Rightarrow> engine \<Rightarrow> bool" for from_str where
  reach_init: "engine_reachable from_str []"
| reach_hook: "engine_reachable from_str eng \<Longrightarrow>
     engine_reachable from_str (apply_hook_event eng i raw tool now)"
| reach_runtime_hook: "engine_reachable from_str eng \<Longrightarrow>
     engine_reachable from_str
       (fst (apply_hook_event_for_runtime eng i raw tool now eg cg launched))"
| reach_launch: "engine_reachable from_str eng \<Longrightarrow>
     engine_reachable from_str (observe_runtime_launch eng i cg launched)"
| reach_foreground: "engine_reachable from_str eng \<Longrightarrow>
     engine_reachable from_str (observe_foreground_runtime eng i observed)"
| reach_cancellation: "engine_reachable from_str eng \<Longrightarrow>
     engine_reachable from_str (sync_cancellation_from_disk eng i file cg)"
| reach_output: "engine_reachable from_str eng \<Longrightarrow>
     engine_reachable from_str (fst (note_output_and_sweep eng i signal allow now))"
| reach_baseline: "engine_reachable from_str eng \<Longrightarrow>
     engine_reachable from_str (clear_output_baseline eng i)"
| reach_seed: "engine_reachable from_str eng \<Longrightarrow>
     engine_reachable from_str (seed_from_disk from_str eng i disk anchor not_before cg)"
| reach_remove: "engine_reachable from_str eng \<Longrightarrow>
     engine_reachable from_str (remove_session eng i)"
| reach_retain: "engine_reachable from_str eng \<Longrightarrow>
     engine_reachable from_str (retain_sessions eng live)"

lemma engine_inv_Nil: "engine_inv []"
  by (simp add: engine_inv_def)

lemma reachable_engine_inv: "engine_reachable from_str eng \<Longrightarrow> engine_inv eng"
proof (induction rule: engine_reachable.induct)
  case reach_init
  show ?case by (rule engine_inv_Nil)
next
  case (reach_hook eng i raw tool now)
  then show ?case unfolding apply_hook_event_def by (intro engine_inv_unchecked)
qed (auto intro: inv_intros)

lemma hook_owned_state_put:
  "hook_owned_state (hm_put i e eng) j =
     (if j = i then hook_owned_state [(i, e)] i else hook_owned_state eng j)"
  by (simp add: hook_owned_state_def)

lemma is_completed_put:
  "is_completed (hm_put i e eng) j =
     (if j = i then is_completed [(i, e)] i else is_completed eng j)"
  by (simp add: is_completed_def)

lemma hook_owned_state_entry_of: "hook_owned_state eng i = hook_owned_state [(i, entry_of eng i)] i"
  by (simp add: hook_owned_state_def entry_of_def entry_default_def split: option.splits)

lemma is_completed_entry_of: "is_completed eng i = is_completed [(i, entry_of eng i)] i"
  by (simp add: is_completed_def entry_of_def entry_default_def split: option.splits)

section \<open>Invariant and timeouts\<close>

text \<open>C5. In every reachable engine each session's entry satisfies the lifecycle
  invariant: a visible state implies the hook latch, exactly the busy entries carry a
  deadline, only a settled idle turn is completed, and a cancelled turn is never busy or
  waiting for attention.\<close>

theorem reachable_entry_inv:
  assumes "engine_reachable from_str eng" and "hm_get eng i = Some e"
  shows "entry_inv e"
  using reachable_engine_inv [OF assms(1)] assms(2) by (simp add: engine_inv_def)

theorem reachable_entry_inv_witness:
  "entry_inv (entry_of (apply_hook_event [] ''s'' ''Start'' None 0) ''s'')"
proof -
  let ?eng = "apply_hook_event [] ''s'' ''Start'' None 0"
  have "engine_reachable (\<lambda>_. None) ?eng"
    by (intro reach_hook reach_init)
  moreover have "hm_get ?eng ''s'' = Some (entry_of ?eng ''s'')"
    by (simp add: apply_hook_event_def apply_hook_event_unchecked_def Let_def case_prod_unfold)
  ultimately show ?thesis by (rule reachable_entry_inv)
qed

lemma sweep_past_deadline:
  assumes "entry_inv e" and "state e = Some Busy" and "deadline_at e = Some d" and "d \<le> now"
  shows "state (fst (entry_note_output sig ac now e)) = Some Idle"
    and "\<not> completed (fst (entry_note_output sig ac now e))"
  using assms by (auto simp: entry_note_output_def entry_sweep_state_def Let_def entry_inv_def)

text \<open>C1. No session can stay busy for ever: in a reachable engine a busy turn has a
  deadline, and the first sweep at or after it settles the turn as idle and not
  completed, whatever the output signal of that tick is.\<close>

theorem busy_turn_settles:
  assumes "engine_reachable from_str eng" and "hm_get eng i = Some e" and "state e = Some Busy"
  shows "\<exists>d. deadline_at e = Some d \<and>
    (\<forall>now sig ac. d \<le> now \<longrightarrow>
       (let e' = entry_of (fst (note_output_and_sweep eng i sig ac now)) i
        in state e' = Some Idle \<and> \<not> completed e'))"
proof -
  have inv: "entry_inv e"
    using reachable_engine_inv [OF assms(1)] assms(2) by (simp add: engine_inv_def)
  then obtain d where d: "deadline_at e = Some d" using assms(3) by (auto simp: entry_inv_def)
  then show ?thesis
    using sweep_past_deadline [OF inv assms(3) d]
    by (auto simp: note_output_and_sweep_def Let_def case_prod_unfold hm_get_entry_of [OF assms(2)])
qed

definition started :: engine where
  "started = apply_hook_event [] ''s'' ''Start'' None 0"

lemma started_get:
  "hm_get started ''s'' = Some (entry_of started ''s'')" "state (entry_of started ''s'') = Some Busy"
  by (simp_all add: started_def apply_hook_event_def apply_hook_event_unchecked_def Let_def
      case_prod_unfold entry_apply_hook_def cancellation_fence_def entry_default_def
      apply_transition_def)

theorem busy_turn_settles_witness:
  "\<exists>d. deadline_at (entry_of started ''s'') = Some d \<and>
    (\<forall>now sig ac. d \<le> now \<longrightarrow>
       (let e' = entry_of (fst (note_output_and_sweep started ''s'' sig ac now)) ''s''
        in state e' = Some Idle \<and> \<not> completed e'))"
proof -
  have "engine_reachable (\<lambda>_. None) started"
    unfolding started_def by (intro reach_hook reach_init)
  then show ?thesis using started_get by (rule busy_turn_settles)
qed

section \<open>Output has no lifecycle authority\<close>

lemma sweep_keeps_settled:
  assumes "state e = None \<or> state e = Some Idle"
  shows "state (fst (entry_note_output sig ac now e)) = state e"
    and "hook_seen (fst (entry_note_output sig ac now e)) = hook_seen e"
    and "background (fst (entry_note_output sig ac now e)) =
      hm_map_values (lease_sweep (case last_signal e of None \<Rightarrow> False | Some p \<Rightarrow> p \<noteq> sig) now)
        (background e)"
  using assms by (auto simp: entry_note_output_def entry_sweep_state_def Let_def)

lemma entry_note_output_hook_seen:
  "hook_seen (fst (entry_note_output sig ac now e)) = hook_seen e"
  by (simp add: entry_note_output_def entry_sweep_state_def Let_def split: option.split hook_state.split)

lemma lease_sweep_keeps_expired:
  "list_all bl_expired (hm_values m) \<Longrightarrow>
     list_all bl_expired (hm_values (hm_map_values (lease_sweep g now) m))"
  by (auto simp: list_all_iff hm_map_values_def lease_sweep_def)

text \<open>Raw output never wakes a session: if the engine's verdict is absent or idle,
  observing output (growing or not, at any time) leaves the verdict of every session as it
  is.\<close>

lemma output_never_wakes:
  assumes "hook_owned_state eng i = None \<or> hook_owned_state eng i = Some Idle"
  shows "hook_owned_state (fst (note_output_and_sweep eng i sig ac now)) j = hook_owned_state eng j"
proof (cases "j = i")
  case True
  let ?e = "entry_of eng i"
  let ?e' = "fst (entry_note_output sig ac now ?e)"
  have own: "hook_owned_state [(i, ?e)] i = None \<or> hook_owned_state [(i, ?e)] i = Some Idle"
    using assms hook_owned_state_entry_of [of eng i] by simp
  have "hook_owned_state [(i, ?e')] i = hook_owned_state [(i, ?e)] i"
  proof (cases "hook_seen ?e")
    case False
    then show ?thesis by (simp add: hook_owned_state_def entry_note_output_hook_seen)
  next
    case seen: True
    with own have settled: "state ?e = None \<or> state ?e = Some Idle"
      and idle: "list_all bl_expired (hm_values (background ?e))"
      by (auto simp: hook_owned_state_def list_all_iff list_ex_iff split: if_splits)
    note s = sweep_keeps_settled [OF settled, of sig ac now]
    have "list_all bl_expired (hm_values (background ?e'))"
      unfolding s(3) by (rule lease_sweep_keeps_expired [OF idle])
    then show ?thesis
      using s(1,2) idle by (auto simp: hook_owned_state_def list_all_iff list_ex_iff)
  qed
  then show ?thesis
    using True hook_owned_state_entry_of [of eng i]
    by (simp add: note_output_and_sweep_def Let_def case_prod_unfold hook_owned_state_put)
next
  case False
  then show ?thesis
    by (simp add: note_output_and_sweep_def Let_def case_prod_unfold hook_owned_state_put)
qed

definition stopped :: engine where
  "stopped = apply_hook_event started ''s'' ''Stop'' None 1"

lemma entry_stopped:
  "entry_of stopped ''s'' = entry_default\<lparr>last_turn_started_at := Some 0, completed := True,
     hook_seen := True, state := Some Idle, last_transition_at := Some 1\<rparr>"
  by (simp add: stopped_def started_def apply_hook_event_def apply_hook_event_unchecked_def Let_def
      case_prod_unfold entry_apply_hook_def cancellation_fence_def entry_default_def is_latch_only_def
      apply_transition_def unix_ms_def)

lemma stopped_idle: "hook_owned_state stopped ''s'' = Some Idle"
  unfolding hook_owned_state_entry_of [of stopped] entry_stopped
  by (simp add: hook_owned_state_def entry_default_def)

section \<open>Provenance: stale and rejected events\<close>

lemma fence_rejects:
  assumes "cancellation_fence n t now e = Inl e'"
  shows "state e' = state e" and "background e' = background e" and "hook_seen e' = hook_seen e"
    and "completed e' = completed e" and "background_expired e' = background_expired e"
    and "cancelled_at e' = cancelled_at e"
  using assms by (auto simp: cancellation_fence_def Let_def split: if_splits option.splits)

lemma entry_apply_hook_rejected:
  assumes "entry_apply_hook raw t now e = (e', False)"
  shows "state e' = state e" and "background e' = background e" and "hook_seen e' = hook_seen e"
    and "completed e' = completed e" and "background_expired e' = background_expired e"
    and "cancelled_at e' = cancelled_at e"
proof -
  have "cancellation_fence (normalize_event_name raw) t now e = Inl e'"
    using assms by (auto simp: entry_apply_hook_def Let_def split: sum.splits if_splits)
  note r = fence_rejects [OF this]
  show "state e' = state e" "background e' = background e" "hook_seen e' = hook_seen e"
    "completed e' = completed e" "background_expired e' = background_expired e"
    "cancelled_at e' = cancelled_at e"
    by (fact r)+
qed

lemma verdict_cong:
  assumes "state e' = state e" and "background e' = background e" and "hook_seen e' = hook_seen e"
    and "completed e' = completed e" and "background_expired e' = background_expired e"
  shows "hook_owned_state [(i, e')] i = hook_owned_state [(i, e)] i"
    and "is_completed [(i, e')] i = is_completed [(i, e)] i"
  using assms by (simp_all add: hook_owned_state_def is_completed_def)

lemma unchecked_rejected_verdict:
  assumes "apply_hook_event_unchecked eng i raw t now = (eng', False)"
  shows "hook_owned_state eng' j = hook_owned_state eng j" and "is_completed eng' j = is_completed eng j"
proof -
  obtain e' where e': "entry_apply_hook raw t now (entry_of eng i) = (e', False)"
    and eng': "eng' = hm_put i e' eng"
    using assms by (cases "entry_apply_hook raw t now (entry_of eng i)")
      (auto simp: apply_hook_event_unchecked_def)
  note v = verdict_cong [OF entry_apply_hook_rejected(1-5) [OF e'], of i]
  show "hook_owned_state eng' j = hook_owned_state eng j"
    using v(1) hook_owned_state_entry_of [of eng i] by (simp add: eng' hook_owned_state_put)
  show "is_completed eng' j = is_completed eng j"
    using v(2) is_completed_entry_of [of eng i] by (simp add: eng' is_completed_put)
qed

lemma put_entry_of_verdict:
  assumes "state e' = state (entry_of eng i)" and "background e' = background (entry_of eng i)"
    and "hook_seen e' = hook_seen (entry_of eng i)" and "completed e' = completed (entry_of eng i)"
    and "background_expired e' = background_expired (entry_of eng i)"
  shows "hook_owned_state (hm_put i e' eng) j = hook_owned_state eng j"
    and "is_completed (hm_put i e' eng) j = is_completed eng j"
  using verdict_cong [OF assms, of i] hook_owned_state_entry_of [of eng i] is_completed_entry_of [of eng i]
  by (simp_all add: hook_owned_state_put is_completed_put)

lemma reject_chain:
  "(x, False) = (if a then (p, False) else if b then (p, False) else if c then (q, False)
      else if \<not> d then (r, False) else (w, True)) \<Longrightarrow> x = p \<or> x = q \<or> (\<not> d \<and> x = r)"
  by (simp split: if_splits)

text \<open>A hook event that the engine rejects (stale generation, sent before the launch,
  quarantined legacy stop, or fenced by a cancellation) changes no verdict: beyond the
  observation of the current launch itself, neither the visible state nor the completion
  flag of any session moves.\<close>

lemma rejected_event_invisible:
  assumes "apply_hook_event_for_runtime eng i raw t now eg cg launched = (eng', False)"
  shows "hook_owned_state eng' j = hook_owned_state (observe_runtime_launch eng i cg launched) j
       \<and> is_completed eng' j = is_completed (observe_runtime_launch eng i cg launched) j"
proof -
  let ?n = "normalize_event_name raw" and ?l = "launch_time launched"
  define eng1 where "eng1 = observe_runtime_launch eng i cg launched"
  define e1 where "e1 = confirm_opener ?n now eg cg (entry_of eng1 i)"
  have put: "hook_owned_state (hm_put i e1 eng1) j = hook_owned_state eng1 j"
    "is_completed (hm_put i e1 eng1) j = is_completed eng1 j"
    using put_entry_of_verdict [of e1 eng1 i j] by (simp_all add: e1_def)
  note same = put_entry_of_verdict [of "entry_of eng1 i" eng1 i j, OF refl refl refl refl refl]
  consider (unchanged) "eng' = eng1" | (touched) "eng' = hm_put i (entry_of eng1 i) eng1"
    | (fenced) "apply_hook_event_unchecked (hm_put i e1 eng1) i ?n t now = (eng', False)"
  proof -
    let ?stale = "case eg of None \<Rightarrow> False | Some g \<Rightarrow> g < cg"
    let ?early = "eg = None \<and> (case ?l of None \<Rightarrow> False | Some l \<Rightarrow> now < l)"
    let ?quarantined = "\<not> starts_turn ?n \<and> legacy_stop_quarantined ?n now eg cg ?l (entry_of eng1 i)"
    obtain eng2 acc where u: "apply_hook_event_unchecked (hm_put i e1 eng1) i ?n t now = (eng2, acc)"
      by fastforce
    have "(eng', False) =
       (if ?stale then (eng1, False) else if ?early then (eng1, False)
        else if ?quarantined then (hm_put i (entry_of eng1 i) eng1, False)
        else if \<not> acc then (eng2, False)
        else (hm_put i ((entry_of eng2 i)\<lparr>last_hook_generation := eg\<rparr>) eng2, True))"
      unfolding assms [symmetric] apply_hook_event_for_runtime_def Let_def
      by (simp only: eng1_def [symmetric] e1_def [symmetric] u case_prod_conv)
    from reject_chain [OF this] show thesis
      using unchanged touched fenced u by auto
  qed
  then have "hook_owned_state eng' j = hook_owned_state eng1 j \<and> is_completed eng' j = is_completed eng1 j"
  proof cases
    case unchanged
    show ?thesis unfolding unchanged by (intro conjI refl)
  next
    case touched
    show ?thesis unfolding touched using same by (rule conjI)
  next
    case fenced
    show ?thesis using unchecked_rejected_verdict [OF fenced, of j] put by (simp only: simp_thms)
  qed
  then show ?thesis unfolding eng1_def .
qed

text \<open>An in-place runtime launch drops the authority of the previous process: when the
  entry has seen neither a hook of the new generation nor an untagged opening event after
  the launch, observing the new generation leaves the session unlatched, with no verdict,
  not cancelled and bound to the new generation.\<close>

lemma relaunch_drops_stale_latch:
  assumes "runtime_launch_generation (entry_of eng i) \<noteq> g"
    and "last_hook_generation (entry_of eng i) \<noteq> Some g"
    and "\<And>s l. legacy_turn_started_at (entry_of eng i) = Some s \<Longrightarrow>
           launch_time launched = Some l \<Longrightarrow> s < l"
  shows "hook_owned_state (observe_runtime_launch eng i g launched) i = None
       \<and> \<not> is_latched (observe_runtime_launch eng i g launched) i
       \<and> \<not> is_cancelled (observe_runtime_launch eng i g launched) i
       \<and> engine_launch_generation (observe_runtime_launch eng i g launched) i = Some g"
proof -
  have "entry_observe_launch g launched (entry_of eng i)
      = entry_default\<lparr>runtime_launch_generation := g\<rparr>"
    using assms by (fastforce simp: entry_observe_launch_def Let_def split: option.splits)
  then show ?thesis
    by (simp add: observe_runtime_launch_def hook_owned_state_def is_latched_def is_cancelled_def
        engine_launch_generation_def entry_default_def)
qed

section \<open>Cancellation\<close>

text \<open>C6. While a session is cancelled, no event other than an opening one is accepted:
  late tool, stop or permission hooks of the interrupted turn change no verdict and leave
  the session cancelled.\<close>

theorem cancelled_turn_fenced:
  assumes "is_cancelled eng i" and "\<not> starts_turn (normalize_event_name raw)"
    and "apply_hook_event_unchecked eng i raw t now = (eng', accepted)"
  shows "\<not> accepted \<and> hook_owned_state eng' j = hook_owned_state eng j \<and> is_cancelled eng' i"
proof -
  let ?e = "entry_of eng i"
  have c: "cancelled_at ?e \<noteq> None \<or> native_cancelled ?e"
    using assms(1) by (auto simp: is_cancelled_def entry_of_def split: option.splits)
  then have f: "cancellation_fence (normalize_event_name raw) t now ?e = Inl ?e"
    using assms(2) by (auto simp: cancellation_fence_def)
  then have r: "eng' = hm_put i ?e eng" "\<not> accepted"
    using assms(3) by (auto simp: apply_hook_event_unchecked_def entry_apply_hook_def Let_def)
  moreover have "hook_owned_state eng' j = hook_owned_state eng j"
    using assms(3) r(2) unchecked_rejected_verdict(1) [of eng i raw t now eng' j] by simp
  ultimately show ?thesis using c by (simp add: is_cancelled_def)
qed

definition cancelled_now :: engine where
  "cancelled_now = observe_cancellation started ''s''
     \<lparr>c_runtime_generation = 0, c_cancelled_at = 3, c_submitted_at = None\<rparr> 0"

lemma entry_started:
  "entry_of started ''s'' = entry_default\<lparr>last_turn_started_at := Some 0, hook_seen := True,
     state := Some Busy, deadline_at := Some HOOK_IDLE_TIMEOUT, last_transition_at := Some 0\<rparr>"
  by (simp add: started_def apply_hook_event_def apply_hook_event_unchecked_def Let_def
      case_prod_unfold entry_apply_hook_def cancellation_fence_def entry_default_def
      apply_transition_def unix_ms_def)

lemma entry_cancelled_now:
  "hm_get cancelled_now ''s'' = Some (entry_default\<lparr>last_cancelled_at := Some 3,
     cancelled_at := Some 3, last_turn_started_at := Some 0, hook_seen := True,
     state := Some Idle, last_transition_at := Some 0\<rparr>)"
  by (simp add: cancelled_now_def observe_cancellation_def entry_observe_cancellation_def
      entry_note_cancellation_def entry_started entry_default_def Let_def)

theorem cancelled_turn_fenced_witness:
  "\<not> snd (apply_hook_event_unchecked cancelled_now ''s'' ''PermissionRequest'' None 5)"
proof -
  have c: "is_cancelled cancelled_now ''s''"
    by (simp add: is_cancelled_def entry_cancelled_now)
  have n: "\<not> starts_turn (normalize_event_name ''PermissionRequest'')" by simp
  show ?thesis
    using cancelled_turn_fenced [OF c n surjective_pairing, of None 5 "''s''"] by simp
qed

text \<open>A provider that is faster than the input marker loses no turn: an opening event
  that arrives while the session is cancelled is held back, and as soon as the marker of a
  submission between the cancellation and the event is observed, the session is busy and
  no longer cancelled.\<close>

lemma fast_opener_survives:
  assumes "cancelled_at (entry_of eng i) = Some c" and "last_cancelled_at (entry_of eng i) = Some c"
    and "submitted_at (entry_of eng i) = None"
    and "starts_turn (normalize_event_name raw)"
    and "c_runtime_generation m = g" and "c_cancelled_at m = c" and "c_submitted_at m = Some s"
    and "c < s" and "s \<le> unix_ms now"
    and "apply_hook_event_unchecked eng i raw t now = (eng1, accepted)"
  shows "\<not> accepted \<and> hook_owned_state (observe_cancellation eng1 i m g) i = Some Busy
       \<and> \<not> is_cancelled (observe_cancellation eng1 i m g) i"
proof -
  let ?n = "normalize_event_name raw"
  define e1 where "e1 = (entry_of eng i)\<lparr>native_cancelled := False, pending_opener := Some (?n, t, now)\<rparr>"
  have f: "cancellation_fence ?n t now (entry_of eng i) = Inl e1"
    using assms(1,3,4,8,9) by (auto simp: cancellation_fence_def Let_def e1_def)
  then have eng1: "eng1 = hm_put i e1 eng" "\<not> accepted"
    using assms(10) by (auto simp: apply_hook_event_unchecked_def entry_apply_hook_def Let_def)
  have nn: "normalize_event_name ?n = ?n" using assms(4) by (rule normalize_starts_turn)
  define e2 where "e2 = e1\<lparr>submitted_at := Some s, pending_opener := None\<rparr>"
  have obs: "entry_observe_cancellation m e1 = fst (entry_apply_hook ?n t now e2)"
    using assms(2,6,7) by (simp add: entry_observe_cancellation_def entry_note_cancellation_def
        Let_def e1_def e2_def)
  have f2: "cancellation_fence ?n t now e2 = Inr (e2\<lparr>cancelled_at := None, pending_opener := None\<rparr>)"
    using assms(1,4,8,9) by (simp add: cancellation_fence_def Let_def e1_def e2_def)
  have notidle: "?n \<noteq> ''Idle''" using assms(4) by auto
  have "state (entry_observe_cancellation m e1) = Some Busy"
    and "cancelled_at (entry_observe_cancellation m e1) = None"
    and "\<not> native_cancelled (entry_observe_cancellation m e1)"
    and "hook_seen (entry_observe_cancellation m e1)"
    unfolding obs entry_apply_hook_def nn Let_def f2
    using assms(4) notidle
    by (simp_all add: apply_transition_def e2_def e1_def)
  then show ?thesis
    using eng1 assms(5) by (simp add: observe_cancellation_def hook_owned_state_def is_cancelled_def)
qed

section \<open>Background work and durable expiry\<close>

text \<open>The main turn's Stop does not finish its children: with a live background lease
  an accepted Stop leaves the session busy and not completed.\<close>

lemma stop_keeps_background_busy:
  assumes "apply_hook_event_unchecked eng i raw t now = (eng', True)"
    and "normalize_event_name raw = ''Stop''"
    and "(k, lease) \<in> set (background (entry_of eng i))" and "\<not> bl_expired lease"
  shows "hook_owned_state eng' i = Some Busy \<and> \<not> is_completed eng' i"
proof -
  obtain e1 where f: "cancellation_fence ''Stop'' t now (entry_of eng i) = Inr e1"
    using assms(1,2) by (cases "cancellation_fence ''Stop'' t now (entry_of eng i)")
      (auto simp: apply_hook_event_unchecked_def entry_apply_hook_def Let_def)
  let ?e = "apply_transition ''Stop'' now (e1\<lparr>hook_seen := True, last_transition_at := Some now\<rparr>)"
  have eng': "eng' = hm_put i ?e eng"
    using assms(1,2) f
    by (simp add: apply_hook_event_unchecked_def entry_apply_hook_def Let_def is_latch_only_def)
  have "background ?e = background (entry_of eng i)" "state ?e = Some Idle" "hook_seen ?e"
    using fence_passes(5) [OF f] by (simp_all add: apply_transition_def)
  then show ?thesis
    using assms(3,4) by (force simp: eng' hook_owned_state_def is_completed_def list_ex_iff list_all_iff)
qed

definition with_child :: engine where
  "with_child = sync_background_from_disk started ''s'' (Inr [(''child'', 0)]) None"

lemma entry_with_child:
  "entry_of with_child ''s'' = entry_default\<lparr>background :=
      [(''child'', \<lparr>bl_started_at = 0, bl_deadline_at = HOOK_IDLE_TIMEOUT, bl_expired = False\<rparr>)],
     last_turn_started_at := Some 0, hook_seen := True,
     state := Some Busy, deadline_at := Some HOOK_IDLE_TIMEOUT, last_transition_at := Some 0\<rparr>"
  by (simp add: with_child_def sync_background_from_disk_def entry_sync_background_def
      sync_one_background_def entry_started entry_default_def hm_retain_def Let_def)

lemma no_background:
  "entry_sync_background nb [] e = e\<lparr>background := []\<rparr>"
  by (simp add: entry_sync_background_def hm_retain_def)

lemma fresh_opener_accepted:
  assumes "starts_turn n" and "\<And>g'. sg = Some g' \<Longrightarrow> g \<le> g'"
    and "runtime_launch_generation (entry_of eng i) = g" and "cancelled_at (entry_of eng i) = None"
  shows "\<exists>eng'. apply_hook_event_for_runtime eng i n t at sg g None = (eng', True)
     \<and> background (entry_of eng' i) = background (entry_of eng i)"
proof -
  let ?e0 = "entry_of eng i"
  have launch: "entry_of (observe_runtime_launch eng i g None) i = ?e0"
    using assms(3) by (simp add: observe_runtime_launch_def entry_observe_launch_def)
  define e1 where "e1 = confirm_opener n at sg g ?e0"
  have e1: "cancelled_at e1 = None" "background e1 = background ?e0"
    using assms(1,4) by (simp_all add: e1_def confirm_opener_def)
  let ?e1 = "if native_cancelled e1 then e1\<lparr>native_cancelled := False\<rparr> else e1"
  have f: "cancellation_fence n t at e1 = Inr ?e1"
    using assms(1) e1(1) by (simp add: cancellation_fence_def Let_def)
  have app: "entry_apply_hook n t at e1 =
     (apply_transition n at (?e1\<lparr>hook_seen := True, last_transition_at := Some at\<rparr>), True)"
    unfolding entry_apply_hook_def Let_def normalize_starts_turn [OF assms(1)] f
    using assms(1) by (auto simp: starts_turn_def)
  have fresh: "\<not> (case sg of None \<Rightarrow> False | Some g' \<Rightarrow> g' < g)"
    using assms(2) by (cases sg) (auto simp: not_less)
  show ?thesis
    using assms(1) fresh
    by (simp add: apply_hook_event_for_runtime_def normalize_starts_turn launch_time_def Let_def
        launch e1_def [symmetric] apply_hook_event_unchecked_def app apply_transition_def e1(2))
qed

text \<open>A timed-out turn stays expired across a restart of the Host: once the expiry
  record of a sweep is written, a fresh engine that recovers the same opening event from
  disk reports the session idle instead of reviving the turn.\<close>

lemma expired_turn_survives_restart:
  assumes "note_output_and_sweep eng i sig ac now = (eng', Some (dir, g, through))"
    and "record_hook_expiry True old (Inr ()) (Inr ()) g through = (r, file')"
    and "case old of None \<Rightarrow> True | Some x \<Rightarrow> ex_runtime_generation x \<le> g"
    and "sd_expiry disk = file'" and "sd_cancellation disk = None"
    and "sd_background disk g = Inl NotFound"
    and "sd_seed disk = Some f" and "sf_metadata f = Some (len, Some m)" and "m \<le> through"
    and "decode_seed from_str len f = Some (name, tool, sg)"
    and "starts_turn (normalize_event_name name)" and "\<And>g'. sg = Some g' \<Longrightarrow> g \<le> g'"
  shows "hook_owned_state (seed_from_disk from_str [] i disk an None g) i = Some Idle"
proof -
  let ?n = "normalize_event_name name"
  define e0 where "e0 = entry_default\<lparr>runtime_launch_generation := g, session_dir := Some (sd_path disk)\<rparr>"
  have launch: "entry_observe_launch g None entry_default = entry_default\<lparr>runtime_launch_generation := g\<rparr>"
    by (simp add: entry_observe_launch_def launch_time_def entry_default_def)
  have bg: "e0\<lparr>background := []\<rparr> = e0" by (simp add: e0_def entry_default_def)
  have seed: "seed_from_disk from_str [] i disk an None g
     = apply_seed [(i, e0)] i disk an None g m (name, tool, sg)"
    using assms(5-10)
    by (simp add: seed_from_disk_def observe_runtime_launch_def sync_cancellation_from_disk_def
        sync_background_from_disk_def read_background_hook_activity_def launch Let_def
        no_background e0_def [symmetric] bg seed_is_stale_def)
       (simp add: e0_def entry_default_def)
  obtain eng2 where app: "apply_hook_event_for_runtime [(i, e0)] i ?n tool m sg g None = (eng2, True)"
    and b2: "background (entry_of eng2 i) = []"
    using fresh_opener_accepted [OF assms(11,12), where eng = "[(i, e0)]" and i = i and t = tool
        and at = m]
    by (auto simp: e0_def entry_default_def)
  have expired: "hook_turn_expired (sd_expiry disk) g m"
    unfolding assms(4) using record_hook_expiry_covers [OF assms(2,3)] assms(9) by blast
  have "starts_turn (normalize_event_name ?n)" using assms(11) by (simp add: normalize_starts_turn)
  then have "hook_seen (entry_of eng2 i)" using accepted_opener_busy(5) [OF app] by simp
  then show ?thesis
    using b2 expired assms(11) by (simp add: seed apply_seed_def app hook_owned_state_def Let_def)
qed

definition swept :: "engine \<times> expiry_effect" where
  "swept = note_output_and_sweep
     (hm_put ''s'' ((entry_of started ''s'')\<lparr>session_dir := Some ''d''\<rparr>) started)
     ''s'' 1 True (HOOK_IDLE_TIMEOUT + 1)"

definition seed_json :: json where
  "seed_json = JObj [(''hook_event_name'', JStr ''Start'')]"

definition restart_disk :: session_disk where
  "restart_disk = \<lparr>sd_path = ''d'', sd_cancellation = None, sd_background = (\<lambda>_. Inl NotFound),
     sd_seed = Some \<lparr>sf_metadata = Some (1, Some 0), sf_text = Some ''x''\<rparr>,
     sd_output_mtime = None,
     sd_expiry = Some \<lparr>ex_runtime_generation = 0, ex_through = 0\<rparr>\<rparr>"

end
