(* ===== verification/Session_Input.thy ===== *)
theory Session_Input
  imports Hook_Cancellation
begin

text \<open>
  Model of \<open>crates/unpeel-core/src/session_input.rs\<close>, the bracketed-paste, settle and
  double-Enter recipe that delivers text into an agent terminal, and the properties of the
  input path: the recipe's paste is inert for the input tracker of
  \<open>Hook_Cancellation\<close>. The control-socket round trip and the sleeps are parameters:
  \<open>write st data\<close> is the next state of the terminal side or an error, \<open>sleep ms st\<close> the
  state after a pause.
\<close>

definition TEXT_SETTLE_DELAY_MS :: u64 where "TEXT_SETTLE_DELAY_MS = 250"
definition TEXT_SETTLE_DELAY_PATH_MS :: u64 where "TEXT_SETTLE_DELAY_PATH_MS = 900"
definition ENTER_FOLLOWUP_DELAY_MS :: u64 where "ENTER_FOLLOWUP_DELAY_MS = 80"

text \<open>\<open>text.replace("\r\n", "\n")\<close>.\<close>

fun replace_crlf :: "string \<Rightarrow> string" where
  "replace_crlf (c # d # cs) =
     (if c = CHR 0x0D \<and> d = CHR 0x0A then CHR 0x0A # replace_crlf cs
      else c # replace_crlf (d # cs))"
| "replace_crlf cs = cs"

definition kept_control :: "byte \<Rightarrow> bool" where
  "kept_control c \<longleftrightarrow> c = CHR 0x0A \<or> c = CHR 0x09"

fun strip_controls :: "string \<Rightarrow> string" where
  "strip_controls (c # d # cs) =
     (if c = CHR 0xC2 \<and> 128 \<le> byte_val d \<and> byte_val d \<le> 159 then strip_controls cs
      else if ascii_control c \<and> \<not> kept_control c then strip_controls (d # cs)
      else c # strip_controls (d # cs))"
| "strip_controls [c] = (if ascii_control c \<and> \<not> kept_control c then [] else [c])"
| "strip_controls [] = []"

definition sanitize_paste_text :: "string \<Rightarrow> string" where
  "sanitize_paste_text text = strip_controls (replace_crlf text)"

definition encode_bracketed_paste :: "string \<Rightarrow> string" where
  "encode_bracketed_paste text =
     ([CHR 0x1B] @ ''[200~'') @ text @ ([CHR 0x1B] @ ''[201~'')"

text \<open>\<open>split_whitespace\<close>: maximal runs without a White\_Space code point.\<close>

function split_whitespace_acc :: "string \<Rightarrow> string \<Rightarrow> string list" where
  "split_whitespace_acc acc s =
     (if s = [] then (if acc = [] then [] else [rev acc])
      else let n = ws_len (map byte_val s)
           in if n = 0 then split_whitespace_acc (hd s # acc) (tl s)
              else (if acc = [] then [] else [rev acc]) @ split_whitespace_acc [] (drop n s))"
  by pat_completeness auto
termination
  by (relation "measure (length o snd)") (auto simp: neq_Nil_conv intro: diff_less)

declare split_whitespace_acc.simps [simp del]

definition looks_like_it_contains_a_path :: "string \<Rightarrow> bool" where
  "looks_like_it_contains_a_path text =
     list_ex (\<lambda>word. length word > 1 \<and> CHR ''/'' \<in> set word) (split_whitespace_acc [] text)"

definition deliver_sanitized_text ::
  "('s \<Rightarrow> string \<Rightarrow> string + 's) \<Rightarrow> (u64 \<Rightarrow> 's \<Rightarrow> 's) \<Rightarrow> string \<Rightarrow> bool \<Rightarrow> 's \<Rightarrow> string + 's" where
  "deliver_sanitized_text write sleep sanitized submit st =
     rbind (if sanitized \<noteq> [] then write st (encode_bracketed_paste sanitized) else Inr st)
       (\<lambda>st1. if \<not> submit then Inr st1
         else
           let settle = (if looks_like_it_contains_a_path sanitized
                         then TEXT_SETTLE_DELAY_PATH_MS else TEXT_SETTLE_DELAY_MS)
           in rbind (write (sleep settle st1) [CHR 0x0D])
                (\<lambda>st2. write (sleep ENTER_FOLLOWUP_DELAY_MS st2) [CHR 0x0D]))"

definition deliver_prompt ::
  "('s \<Rightarrow> string \<Rightarrow> string + 's) \<Rightarrow> (u64 \<Rightarrow> 's \<Rightarrow> 's) \<Rightarrow> string \<Rightarrow> 's \<Rightarrow> string + 's" where
  "deliver_prompt write sleep text st =
     (let sanitized = sanitize_paste_text text
      in if trim sanitized = [] then Inl ''prompt is empty after removing control characters''
         else deliver_sanitized_text write sleep sanitized True st)"

definition SCREENSHOT_REQUEST_PROMPT :: string where
  "SCREENSHOT_REQUEST_PROMPT = ''Please capture the current visual result with the Unpeel Browser tool's screenshot action, setting gallery to true so it is saved as a screenshot artifact in this session's gallery. If this task has no visual result, say so instead.''"

fun contains_str :: "string \<Rightarrow> string \<Rightarrow> bool" where
  "contains_str p [] = (p = [])"
| "contains_str p (c # cs) = (starts_with p (c # cs) \<or> contains_str p cs)"

definition request_screenshot ::
  "('s \<Rightarrow> string \<Rightarrow> string + 's) \<Rightarrow> (u64 \<Rightarrow> 's \<Rightarrow> 's) \<Rightarrow> sid \<Rightarrow> 's \<Rightarrow> string + 's" where
  "request_screenshot write sleep session_id st =
     (if session_id = [] \<or> CHR ''/'' \<in> set session_id \<or> contains_str ''..'' session_id
         \<or> CHR 0x5C \<in> set session_id
      then Inl ''invalid session id''
      else deliver_sanitized_text write sleep (sanitize_paste_text SCREENSHOT_REQUEST_PROMPT) True st)"

section \<open>Lemmas\<close>

lemma strip_controls_clean:
  "c \<in> set (strip_controls s) \<Longrightarrow> ascii_control c \<Longrightarrow> kept_control c"
  by (induction s rule: strip_controls.induct) (auto split: if_splits)

lemma sanitize_no_escape: "CHR 0x1B \<notin> set (sanitize_paste_text text)"
  using strip_controls_clean [of "CHR 0x1B" "replace_crlf text"]
  by (auto simp: sanitize_paste_text_def ascii_control_def kept_control_def byte_val_def)

lemma encode_bracketed_paste_eq: "encode_bracketed_paste text = PASTE_START @ text @ PASTE_END"
  by (simp add: encode_bracketed_paste_def PASTE_START_def PASTE_END_def)

section \<open>Properties of the input path\<close>

text \<open>The input tracker never indexes outside the paste terminator and its buffers
  stay bounded: from a well-formed state every byte sequence is consumed, and the state
  reached is well-formed again, for the generation it was fed with.\<close>

lemma feed_total_and_bounded:
  assumes "tracker_wf t"
  shows "\<exists>t'. feed t bytes generation now menu = Some t' \<and> tracker_wf t'
       \<and> it_generation t' = generation"
proof (cases "it_generation t = generation")
  case True
  then show ?thesis using feed_bytes_wf [OF assms] by (simp add: feed_def)
next
  case False
  have "tracker_wf (tracker_default\<lparr>it_generation := generation\<rparr>)" by simp
  from feed_bytes_wf [OF this] False show ?thesis by (simp add: feed_def)
qed

text \<open>How the terminal input is cut into writes does not matter: feeding two chunks
  of one generation one after the other is feeding their concatenation.\<close>

lemma feed_chunks:
  "feed t (xs @ ys) generation now menu =
     Option.bind (feed t xs generation now menu) (\<lambda>t'. feed t' ys generation now menu)"
proof -
  define t0 where
    "t0 = (if it_generation t \<noteq> generation then tracker_default\<lparr>it_generation := generation\<rparr> else t)"
  have g: "it_generation t0 = generation" by (simp add: t0_def)
  have gen: "it_generation t' = generation" if "feed_bytes now menu t0 xs = Some t'" for t'
    using feed_bytes_generation [OF that] g by simp
  have "Option.bind (feed_bytes now menu t0 xs) (\<lambda>t'. feed_bytes now menu t' ys)
      = Option.bind (feed_bytes now menu t0 xs) (\<lambda>t'. feed t' ys generation now menu)"
    using gen by (cases "feed_bytes now menu t0 xs") (simp_all add: feed_def)
  then show ?thesis by (simp add: feed_def t0_def [symmetric] feed_bytes_append)
qed

text \<open>Text delivered by the paste recipe is inert: whatever the text, the sanitized
  bracketed paste leaves an idle tracker exactly as it was, so a pasted escape sequence or
  newline can neither cancel the turn nor count as a submitted prompt.\<close>

lemma sanitized_paste_inert:
  assumes "it_state t = Plain" and "it_generation t = generation"
  shows "feed t (encode_bracketed_paste (sanitize_paste_text text)) generation now menu = Some t"
  using feed_bytes_paste [OF assms(1) sanitize_no_escape, of now menu "text"] assms(2)
  by (simp add: feed_def encode_bracketed_paste_eq)

text \<open>The durable cancellation marker moves forward only: a successful write for the
  generation on disk never lowers the cancellation time, keeps the earliest submission of
  the same cancellation, and always stores a submission strictly after the cancellation it
  releases; a marker of a newer generation is never overwritten.\<close>

lemma record_in_monotone:
  assumes "record_in d g ca sa lock write = (Inr True, d')"
    and "read_in d = Some old" and "marker_wf old"
  shows "\<exists>m. read_in d' = Some m \<and> c_runtime_generation m = g \<and> marker_wf m
       \<and> c_runtime_generation old \<le> g
       \<and> (c_runtime_generation old = g \<longrightarrow> c_cancelled_at old \<le> c_cancelled_at m
            \<and> (\<forall>s. c_cancelled_at m = c_cancelled_at old \<and> c_submitted_at old = Some s
                 \<longrightarrow> (\<exists>s'. c_submitted_at m = Some s' \<and> s' \<le> s)))"
proof -
  obtain m where m: "next_marker (Some old) g ca sa = Some m"
    and d': "d' = d\<lparr>md_marker := Some (Some m)\<rparr>" and dir: "md_is_dir d"
    using assms(1,2) by (auto simp: record_in_def split: if_splits sum.splits option.splits)
  have gen: "c_runtime_generation old \<le> g"
    using m by (auto simp: next_marker_def split: if_splits)
  have wf: "marker_wf m" using next_marker_wf [OF m] assms(3) by blast
  show ?thesis
    using d' dir gen wf next_marker_generation [OF m] next_marker_mono [OF m]
      next_marker_submission_earliest [OF m]
    by (auto simp: read_in_def)
qed

end
