(* ===== verification/Program_Status.thy ===== *)
theory Program_Status
  imports Rust_Str
begin

text \<open>
  Model of \<open>crates/unpeel-core/src/program_status.rs\<close> (the \<open>OSC 7501\<close> program status
  protocol: report parser, per-terminal record store, passive output scanner) and of the
  tracker in \<open>session_io.rs\<close> that applies stream events and publishes the summary. The
  base64 engine is a library function and a parameter, \<open>b64_decode\<close>. Update sequence
  numbers are unbounded here; the source's 64-bit counter needs \<open>2 ^ 64\<close> reports to wrap.
\<close>

section \<open>Limits and data\<close>

definition MAX_SEQUENCE_BYTES :: nat where "MAX_SEQUENCE_BYTES = 4096"
definition MAX_BODY_BYTES :: nat where "MAX_BODY_BYTES = MAX_SEQUENCE_BYTES - 7 - 1"
definition MAX_MSG_BYTES :: nat where "MAX_MSG_BYTES = 2048"
definition MAX_TITLE_BYTES :: nat where "MAX_TITLE_BYTES = 192"
definition MAX_APP_BYTES :: nat where "MAX_APP_BYTES = 32"
definition MAX_ID_BYTES :: nat where "MAX_ID_BYTES = 128"
definition MAX_ID_SEGMENT_BYTES :: nat where "MAX_ID_SEGMENT_BYTES = 32"
definition MAX_ID_LEVELS :: nat where "MAX_ID_LEVELS = 8"
definition MAX_RECORDS :: nat where "MAX_RECORDS = 256"

datatype program_state = PsIdle | PsWorking | PsDone | PsBlocked | PsError

fun is_transient :: "program_state \<Rightarrow> bool" where
  "is_transient PsIdle = True"
| "is_transient PsWorking = True"
| "is_transient PsBlocked = True"
| "is_transient _ = False"

fun is_finished :: "program_state \<Rightarrow> bool" where
  "is_finished PsDone = True"
| "is_finished PsError = True"
| "is_finished _ = False"

fun urgency :: "program_state \<Rightarrow> nat" where
  "urgency PsBlocked = 4"
| "urgency PsWorking = 3"
| "urgency PsError = 2"
| "urgency PsDone = 1"
| "urgency PsIdle = 0"

datatype blocked_kind = Permission | Question | Auth

record program_record =
  pr_state :: program_state
  pr_kind :: "blocked_kind option"
  pr_progress :: "nat option"
  pr_app :: "string option"
  pr_title :: "string option"
  pr_msg :: "string option"

datatype report = SetRecord string program_record | ClearRecord string

section \<open>Parsing a report body\<close>

definition is_value_byte :: "byte \<Rightarrow> bool" where
  "is_value_byte b \<longleftrightarrow> is_ascii_alphanumeric b
     \<or> b \<in> {CHR ''_'', CHR ''.'', CHR '','', CHR ''+'', CHR ''/'', CHR ''='', CHR ''-''}"

definition validate_id :: "string \<Rightarrow> string option" where
  "validate_id i =
     (if i = [] then Some []
      else let segments = split_on (CHR ''/'') i
           in if length i \<le> MAX_ID_BYTES \<and> length segments \<le> MAX_ID_LEVELS
                 \<and> list_all (\<lambda>s. s \<noteq> [] \<and> length s \<le> MAX_ID_SEGMENT_BYTES) segments
              then Some i else None)"

text \<open>Bidirectional overrides U+202A..U+202E and isolates U+2066..U+2069 are removed.\<close>

fun strip_bidi :: "string \<Rightarrow> string" where
  "strip_bidi (a # b # c # cs) =
     (if a = CHR 0xE2
         \<and> ((b = CHR 0x80 \<and> 0xAA \<le> byte_val c \<and> byte_val c \<le> 0xAE)
           \<or> (b = CHR 0x81 \<and> 0xA6 \<le> byte_val c \<and> byte_val c \<le> 0xA9))
      then strip_bidi cs else a # strip_bidi (b # c # cs))"
| "strip_bidi cs = cs"

definition decode_text ::
  "(string \<Rightarrow> string option) \<Rightarrow> string option \<Rightarrow> nat \<Rightarrow> string option option" where
  "decode_text b64_decode value limit =
     (case value of
        None \<Rightarrow> Some None
      | Some v \<Rightarrow>
          if v = [] then Some None
          else Option.bind (b64_decode v) (\<lambda>bytes.
            if length bytes > limit then None
            else if \<not> utf8_valid bytes then None
            else if has_control bytes then None
            else let t = trim (strip_bidi bytes)
                 in Some (if t = [] then None else Some t)))"

definition parse_pair :: "string \<Rightarrow> (string \<times> string) option" where
  "parse_pair pair =
     (case split_once (CHR ''='') pair of
        None \<Rightarrow> None
      | Some (key, value) \<Rightarrow>
          if key = [] \<or> \<not> list_all is_ascii_lower key \<or> \<not> list_all is_value_byte value
          then None else Some (key, value))"

definition collect_pairs :: "string \<Rightarrow> (string, string) hmap" where
  "collect_pairs body =
     fold (\<lambda>pair m. case parse_pair pair of None \<Rightarrow> m | Some (k, v) \<Rightarrow> hm_put k v m)
       (split_on (CHR '':'') body) []"

definition parse_state :: "string \<Rightarrow> program_state option" where
  "parse_state s = map_of [(''idle'', PsIdle), (''working'', PsWorking), (''done'', PsDone),
     (''blocked'', PsBlocked), (''error'', PsError)] s"

definition parse_kind :: "string \<Rightarrow> blocked_kind option" where
  "parse_kind s = map_of [(''permission'', Permission), (''question'', Question), (''auth'', Auth)] s"

definition parse_progress :: "program_state \<Rightarrow> string option \<Rightarrow> nat option" where
  "parse_progress st value =
     (if st = PsWorking \<or> st = PsBlocked
      then Option.bind value (\<lambda>v. Option.bind (parse_uint 255 v)
             (\<lambda>n. if n \<le> 100 then Some n else None))
      else None)"

definition parse_app :: "string option \<Rightarrow> string option option" where
  "parse_app value =
     (case value of None \<Rightarrow> Some None
      | Some a \<Rightarrow> if a = [] then Some None
                  else if length a > MAX_APP_BYTES then None else Some (Some a))"

definition parse_report :: "(string \<Rightarrow> string option) \<Rightarrow> string \<Rightarrow> report option" where
  "parse_report b64_decode body =
     (if length body > MAX_BODY_BYTES then None
      else if \<not> utf8_valid body then None
      else
        let get = hm_get (collect_pairs body)
        in Option.bind (case get ''id'' of None \<Rightarrow> Some [] | Some i \<Rightarrow> validate_id i) (\<lambda>i.
             Option.bind (get ''state'') (\<lambda>st.
               if st = ''clear'' then Some (ClearRecord i)
               else Option.bind (parse_state st) (\<lambda>state.
                 let kind = (if state = PsBlocked then Option.bind (get ''kind'') parse_kind else None);
                     progress = parse_progress state (get ''progress'')
                 in Option.bind (parse_app (get ''app'')) (\<lambda>app.
                      Option.bind (decode_text b64_decode (get ''title'') MAX_TITLE_BYTES) (\<lambda>title.
                        Option.bind (decode_text b64_decode (get ''msg'') MAX_MSG_BYTES) (\<lambda>msg.
                          Some (SetRecord i \<lparr>pr_state = state, pr_kind = kind,
                            pr_progress = progress, pr_app = app, pr_title = title,
                            pr_msg = msg\<rparr>))))))))"

section \<open>The record store\<close>

record process_owner =
  po_pid :: u32
  po_started_at :: u64

record stored_record =
  st_record :: program_record
  st_seq :: u64
  st_changed_at :: u64
  st_owner :: "process_owner option"

record status_store =
  ps_records :: "(string, stored_record) hmap"
  ps_clock :: u64

definition store_new :: status_store where
  "store_new = \<lparr>ps_records = [], ps_clock = 0\<rparr>"

text \<open>\<open>min_by_key(seq)\<close> over the entries: the key of the least recently updated record.\<close>

fun oldest_key :: "(string, stored_record) hmap \<Rightarrow> string option" where
  "oldest_key [] = None"
| "oldest_key ((k, r) # m) =
     (case oldest_key m of
        None \<Rightarrow> Some k
      | Some k' \<Rightarrow> (case hm_get m k' of
            None \<Rightarrow> Some k
          | Some r' \<Rightarrow> if st_seq r' < st_seq r then Some k' else Some k))"

definition store_clear :: "string \<Rightarrow> status_store \<Rightarrow> status_store \<times> bool" where
  "store_clear i s =
     (let records = (if i = [] then []
            else hm_retain (\<lambda>key _. key \<noteq> i \<and> \<not> starts_with (i @ ''/'') key) (ps_records s))
      in (s\<lparr>ps_records := records\<rparr>, length records \<noteq> length (ps_records s)))"

definition store_set ::
  "string \<Rightarrow> program_record \<Rightarrow> process_owner option \<Rightarrow> u64 \<Rightarrow> status_store \<Rightarrow> status_store \<times> bool" where
  "store_set i rec owner now_ms s =
     (let seq = ps_clock s + 1;
          s1 = s\<lparr>ps_clock := seq\<rparr>
      in case hm_get (ps_records s) i of
           Some stored \<Rightarrow>
             let touched = stored\<lparr>st_seq := seq,
                   st_owner := (case owner of None \<Rightarrow> st_owner stored | Some p \<Rightarrow> Some p)\<rparr>
             in if st_record stored = rec
                then (s1\<lparr>ps_records := hm_put i touched (ps_records s)\<rparr>, False)
                else (s1\<lparr>ps_records := hm_put i
                        (touched\<lparr>st_record := rec, st_changed_at := now_ms\<rparr>) (ps_records s)\<rparr>, True)
         | None \<Rightarrow>
             let records = hm_put i \<lparr>st_record = rec, st_seq = seq, st_changed_at = now_ms,
                                     st_owner = owner\<rparr> (ps_records s);
                 kept = (if length records > MAX_RECORDS
                         then (case oldest_key records of None \<Rightarrow> records
                               | Some k \<Rightarrow> hm_remove k records)
                         else records)
             in (s1\<lparr>ps_records := kept\<rparr>, True))"

fun store_apply ::
  "report \<Rightarrow> process_owner option \<Rightarrow> u64 \<Rightarrow> status_store \<Rightarrow> status_store \<times> bool" where
  "store_apply (ClearRecord i) owner now_ms s = store_clear i s"
| "store_apply (SetRecord i rec) owner now_ms s = store_set i rec owner now_ms s"

definition drop_transient :: "status_store \<Rightarrow> status_store \<times> bool" where
  "drop_transient s =
     (let records = hm_retain (\<lambda>_ r. \<not> is_transient (pr_state (st_record r))) (ps_records s)
      in (s\<lparr>ps_records := records\<rparr>, length records \<noteq> length (ps_records s)))"

definition store_reset :: "status_store \<Rightarrow> status_store \<times> bool" where
  "store_reset s = (s\<lparr>ps_records := []\<rparr>, ps_records s \<noteq> [])"

definition sweep_departed :: "(process_owner \<Rightarrow> bool) \<Rightarrow> status_store \<Rightarrow> status_store \<times> bool" where
  "sweep_departed is_alive s =
     (let records = hm_retain (\<lambda>_ r. \<not> is_transient (pr_state (st_record r))
            \<or> (case st_owner r of None \<Rightarrow> True | Some p \<Rightarrow> is_alive p)) (ps_records s)
      in (s\<lparr>ps_records := records\<rparr>, length records \<noteq> length (ps_records s)))"

definition has_owned_transient :: "status_store \<Rightarrow> bool" where
  "has_owned_transient s =
     list_ex (\<lambda>r. is_transient (pr_state (st_record r)) \<and> st_owner r \<noteq> None) (hm_values (ps_records s))"

record status_summary =
  ss_state :: program_state
  ss_kind :: "blocked_kind option"
  ss_progress :: "nat option"
  ss_app :: "string option"
  ss_title :: "string option"
  ss_msg :: "string option"
  ss_id :: "string option"
  ss_changed_at :: u64

definition speaks_before :: "stored_record \<Rightarrow> stored_record \<Rightarrow> bool" where
  "speaks_before a b \<longleftrightarrow>
     urgency (pr_state (st_record a)) > urgency (pr_state (st_record b))
     \<or> (urgency (pr_state (st_record a)) = urgency (pr_state (st_record b)) \<and> st_seq a > st_seq b)"

fun speaker :: "(string, stored_record) hmap \<Rightarrow> (string \<times> stored_record) option" where
  "speaker [] = None"
| "speaker ((k, r) # m) =
     (case speaker m of None \<Rightarrow> Some (k, r)
      | Some (k', r') \<Rightarrow> if speaks_before r r' then Some (k, r) else Some (k', r'))"

definition parent_path :: "string \<Rightarrow> string" where
  "parent_path p = (case rsplit_once (CHR ''/'') p of None \<Rightarrow> [] | Some (parent, _) \<Rightarrow> parent)"

lemma parent_path_shorter: "p \<noteq> [] \<Longrightarrow> length (parent_path p) < length p"
  by (auto simp: parent_path_def split: option.splits dest!: rsplit_once_Some)

function inherited_app :: "(string, stored_record) hmap \<Rightarrow> string \<Rightarrow> string option" where
  "inherited_app m path =
     (if path = [] then None
      else let parent = parent_path path
           in case Option.bind (hm_get m parent) (\<lambda>r. pr_app (st_record r)) of
                Some app \<Rightarrow> Some app
              | None \<Rightarrow> inherited_app m parent)"
  by pat_completeness auto
termination
  by (relation "measure (length o snd)") (auto simp: parent_path_shorter)

declare inherited_app.simps [simp del]

definition summary :: "status_store \<Rightarrow> status_summary option" where
  "summary s =
     (case speaker (ps_records s) of
        None \<Rightarrow> None
      | Some (i, stored) \<Rightarrow>
          let rec = st_record stored
          in Some \<lparr>ss_state = pr_state rec, ss_kind = pr_kind rec, ss_progress = pr_progress rec,
               ss_app = (case pr_app rec of None \<Rightarrow> inherited_app (ps_records s) i | Some a \<Rightarrow> Some a),
               ss_title = pr_title rec, ss_msg = pr_msg rec,
               ss_id = (if i = [] then None else Some i), ss_changed_at = st_changed_at stored\<rparr>)"

section \<open>The output scanner\<close>

datatype stream_event = Report string | PromptStart | FullReset

definition SKIP_BUDGET_BYTES :: nat where "SKIP_BUDGET_BYTES = 64 * 1024"
definition MAX_PROMPT_PAYLOAD_BYTES :: nat where "MAX_PROMPT_PAYLOAD_BYTES = 256"

datatype scan_state = Ground | ScanEscape | Code | Payload | PayloadEscape | Skip | SkipEscape

record scanner =
  sc_state :: scan_state
  sc_code :: u32
  sc_code_digits :: nat
  sc_payload :: string
  sc_skipped :: nat

definition scanner_new :: scanner where
  "scanner_new = \<lparr>sc_state = Ground, sc_code = 0, sc_code_digits = 0, sc_payload = [], sc_skipped = 0\<rparr>"

definition after_escape :: "byte \<Rightarrow> scanner \<Rightarrow> scanner \<times> stream_event list" where
  "after_escape b s =
     (if b = CHR '']'' then (s\<lparr>sc_code := 0, sc_code_digits := 0, sc_state := Code\<rparr>, [])
      else if b = CHR ''c'' then (s\<lparr>sc_state := Ground\<rparr>, [FullReset])
      else if b = CHR 0x1B then (s\<lparr>sc_state := ScanEscape\<rparr>, [])
      else (s\<lparr>sc_state := Ground\<rparr>, []))"

definition scan_finish :: "scanner \<Rightarrow> scanner \<times> stream_event list" where
  "scan_finish s =
     (s\<lparr>sc_payload := []\<rparr>,
      if sc_code s = 7501 then [Report (sc_payload s)]
      else if sc_code s = 133 \<and> (case sc_payload s of c # _ \<Rightarrow> c = CHR ''A'' | [] \<Rightarrow> False)
      then [PromptStart] else [])"

definition payload_limit :: "scanner \<Rightarrow> nat" where
  "payload_limit s = (if sc_code s = 7501 then MAX_BODY_BYTES else MAX_PROMPT_PAYLOAD_BYTES)"

definition finish_to_ground :: "scanner \<Rightarrow> scanner \<times> stream_event list" where
  "finish_to_ground s = (let (s', ev) = scan_finish s in (s'\<lparr>sc_state := Ground\<rparr>, ev))"

fun scan_byte :: "scanner \<Rightarrow> byte \<Rightarrow> scanner \<times> stream_event list" where
  "scan_byte s b = (case sc_state s of
     Ground \<Rightarrow> (if b = CHR 0x1B then (s\<lparr>sc_state := ScanEscape\<rparr>, []) else (s, []))
   | ScanEscape \<Rightarrow> after_escape b s
   | Code \<Rightarrow>
       (if is_ascii_digit b \<and> sc_code_digits s < 6 then
          (s\<lparr>sc_code := sc_code s * 10 + (byte_val b - 48),
             sc_code_digits := sc_code_digits s + 1\<rparr>, [])
        else if b = CHR '';'' \<and> (sc_code s = 7501 \<or> sc_code s = 133) then
          (s\<lparr>sc_payload := [], sc_state := Payload\<rparr>, [])
        else if b = CHR 0x07 then (s\<lparr>sc_state := Ground\<rparr>, [])
        else if b = CHR 0x1B then (s\<lparr>sc_state := SkipEscape\<rparr>, [])
        else (s\<lparr>sc_skipped := 0, sc_state := Skip\<rparr>, []))
   | Payload \<Rightarrow>
       (if b = CHR 0x07 then finish_to_ground s
        else if b = CHR 0x1B then (s\<lparr>sc_state := PayloadEscape\<rparr>, [])
        else if length (sc_payload s) < payload_limit s then
          (s\<lparr>sc_payload := sc_payload s @ [b]\<rparr>, [])
        else (s\<lparr>sc_payload := [], sc_skipped := 0, sc_state := Skip\<rparr>, []))
   | PayloadEscape \<Rightarrow>
       (if b = CHR 0x5C then finish_to_ground s
        else after_escape b (s\<lparr>sc_payload := []\<rparr>))
   | Skip \<Rightarrow>
       (let s1 = s\<lparr>sc_skipped := sc_skipped s + 1\<rparr>
        in if b = CHR 0x07 then (s1\<lparr>sc_state := Ground\<rparr>, [])
           else if b = CHR 0x1B then (s1\<lparr>sc_state := SkipEscape\<rparr>, [])
           else if sc_skipped s1 > SKIP_BUDGET_BYTES then (s1\<lparr>sc_state := Ground\<rparr>, [])
           else (s1, []))
   | SkipEscape \<Rightarrow>
       (if b = CHR 0x5C then (s\<lparr>sc_state := Ground\<rparr>, []) else after_escape b s))"

declare scan_byte.simps [simp del]

fun scan_loop :: "scanner \<Rightarrow> string \<Rightarrow> scanner \<times> stream_event list" where
  "scan_loop s [] = (s, [])"
| "scan_loop s (b # bs) =
     (let (s1, ev1) = scan_byte s b; (s2, ev2) = scan_loop s1 bs in (s2, ev1 @ ev2))"

text \<open>The early return for steady output, then the byte loop.\<close>

definition scan :: "scanner \<Rightarrow> string \<Rightarrow> scanner \<times> stream_event list" where
  "scan s input =
     (if sc_state s = Ground \<and> CHR 0x1B \<notin> set input then (s, []) else scan_loop s input)"

section \<open>The session's tracker\<close>

definition PROGRAM_STATUS_COALESCE :: nat where "PROGRAM_STATUS_COALESCE = 500"

record status_tracker =
  tr_scanner :: scanner
  tr_store :: status_store
  tr_published :: "status_summary option option"
  tr_dirty :: bool
  tr_last_write :: "millis option"

definition apply_stream_event ::
  "(string \<Rightarrow> string option) \<Rightarrow> process_owner option \<Rightarrow> u64 \<Rightarrow> stream_event
     \<Rightarrow> status_store \<times> bool \<Rightarrow> status_store \<times> bool" where
  "apply_stream_event b64_decode owner now ev acc =
     (let (store, changed) = acc
      in case ev of
           Report body \<Rightarrow>
             (case parse_report b64_decode body of
                None \<Rightarrow> (store, changed)
              | Some report \<Rightarrow>
                  let (store', c) = store_apply report owner now store in (store', changed \<or> c))
         | PromptStart \<Rightarrow> let (store', c) = drop_transient store in (store', changed \<or> c)
         | FullReset \<Rightarrow> let (store', c) = store_reset store in (store', changed \<or> c))"

text \<open>\<open>clock\<close> is the monotonic time in milliseconds. The second result is the summary
  written to the manifest, if this call wrote one.\<close>

definition summary_edge :: "status_summary option \<Rightarrow> (program_state \<times> blocked_kind option) option" where
  "summary_edge s = map_option (\<lambda>x. (ss_state x, ss_kind x)) s"

definition publish_program_status ::
  "bool \<Rightarrow> millis \<Rightarrow> status_tracker \<Rightarrow> status_tracker \<times> status_summary option option" where
  "publish_program_status force clock t =
     (let s = summary (tr_store t)
      in if tr_published t = Some s then (t\<lparr>tr_dirty := False\<rparr>, None)
         else
           let state_edge = (case tr_published t of None \<Rightarrow> True
                 | Some p \<Rightarrow> summary_edge s \<noteq> summary_edge p)
           in if \<not> state_edge \<and> \<not> force
                 \<and> (case tr_last_write t of None \<Rightarrow> False
                     | Some at \<Rightarrow> clock - at < PROGRAM_STATUS_COALESCE)
              then (t\<lparr>tr_dirty := True\<rparr>, None)
              else (t\<lparr>tr_dirty := False, tr_last_write := Some clock, tr_published := Some s\<rparr>,
                    Some s))"

definition apply_program_status_events ::
  "(string \<Rightarrow> string option) \<Rightarrow> process_owner option \<Rightarrow> u64 \<Rightarrow> millis \<Rightarrow> stream_event list
     \<Rightarrow> status_tracker \<Rightarrow> status_tracker \<times> status_summary option option" where
  "apply_program_status_events b64_decode owner now clock events t =
     (let (store, changed) =
            fold (apply_stream_event b64_decode owner now) events (tr_store t, False);
          t1 = t\<lparr>tr_store := store\<rparr>
      in if changed then publish_program_status False clock t1 else (t1, None))"

text \<open>\<open>persisted\<close> is the summary in the manifest on disk, \<open>is_alive\<close> the identity check of
  an owner process.\<close>

definition sweep_program_status ::
  "status_summary option \<Rightarrow> (process_owner \<Rightarrow> bool) \<Rightarrow> millis \<Rightarrow> status_tracker
     \<Rightarrow> status_tracker \<times> status_summary option option" where
  "sweep_program_status persisted is_alive clock t =
     (let t1 = (if tr_published t = None
                then t\<lparr>tr_published := Some persisted,
                       tr_dirty := (tr_dirty t \<or> ps_records (tr_store t) = [])\<rparr>
                else t);
          (store, departed) = (if has_owned_transient (tr_store t1)
                               then sweep_departed is_alive (tr_store t1)
                               else (tr_store t1, False));
          t2 = t1\<lparr>tr_store := store\<rparr>
      in if departed \<or> tr_dirty t2 then publish_program_status True clock t2 else (t2, None))"

end
