(* ===== verification/Program_Status_Facts.thy ===== *)
theory Program_Status_Facts
  imports Program_Status
begin

text \<open>
  Facts about the program status protocol: the scanner's invariant and its independence of
  chunk boundaries, the store invariant, and the contract \<open>record_filter\<close> that the three
  removal operations of the store share.
\<close>

section \<open>Scanner\<close>

lemma scan_loop_append:
  "scan_loop s (xs @ ys) =
     (let (s1, e1) = scan_loop s xs; (s2, e2) = scan_loop s1 ys in (s2, e1 @ e2))"
  by (induction xs arbitrary: s) (auto simp: Let_def split: prod.splits)

lemma scan_loop_ground:
  "sc_state s = Ground \<Longrightarrow> CHR 0x1B \<notin> set xs \<Longrightarrow> scan_loop s xs = (s, [])"
  by (induction xs) (auto simp: scan_byte.simps)

lemma scan_eq_loop: "scan s xs = scan_loop s xs"
  by (simp add: scan_def scan_loop_ground)

definition scanner_wf :: "scanner \<Rightarrow> bool" where
  "scanner_wf s \<longleftrightarrow>
     sc_code_digits s \<le> 6 \<and> sc_code s < 10 ^ sc_code_digits s
   \<and> (sc_state s = Payload \<or> sc_state s = PayloadEscape \<longrightarrow>
        (sc_code s = 7501 \<or> sc_code s = 133) \<and> length (sc_payload s) \<le> payload_limit s)
   \<and> (sc_state s = Skip \<longrightarrow> sc_skipped s \<le> SKIP_BUDGET_BYTES)"

lemma scanner_wf_new [simp]: "scanner_wf scanner_new"
  by (simp add: scanner_wf_def scanner_new_def)

lemma payload_limit_upd [simp]:
  "payload_limit (s\<lparr>sc_payload := p\<rparr>) = payload_limit s"
  "payload_limit (s\<lparr>sc_state := st\<rparr>) = payload_limit s"
  by (simp_all add: payload_limit_def)

definition reports_bounded :: "stream_event list \<Rightarrow> bool" where
  "reports_bounded evs \<longleftrightarrow> (\<forall>b. Report b \<in> set evs \<longrightarrow> length b \<le> MAX_BODY_BYTES)"

lemma after_escape_wf:
  assumes "scanner_wf s"
  shows "scanner_wf (fst (after_escape b s))" and "reports_bounded (snd (after_escape b s))"
  using assms by (auto simp: after_escape_def scanner_wf_def reports_bounded_def)

lemma finish_to_ground_wf:
  assumes "scanner_wf s" and "sc_state s = Payload \<or> sc_state s = PayloadEscape"
  shows "scanner_wf (fst (finish_to_ground s))" and "reports_bounded (snd (finish_to_ground s))"
  using assms
  by (auto simp: finish_to_ground_def scan_finish_def scanner_wf_def reports_bounded_def payload_limit_def)

lemma code_digit_wf:
  assumes "c < 10 ^ d" and "is_ascii_digit b"
  shows "c * 10 + (byte_val b - 48) < 10 ^ Suc d"
proof -
  have "byte_val b - 48 \<le> 9" using assms(2) by (auto simp: is_ascii_digit_def)
  moreover have "c + 1 \<le> 10 ^ d" using assms(1) by simp
  then have "(c + 1) * 10 \<le> 10 ^ d * 10" by (rule mult_le_mono1)
  ultimately show ?thesis by simp
qed

lemma scan_byte_wf:
  assumes "scanner_wf s"
  shows "scanner_wf (fst (scan_byte s b)) \<and> reports_bounded (snd (scan_byte s b))"
proof (cases "sc_state s")
  case Code
  then show ?thesis
    using assms code_digit_wf [of "sc_code s" "sc_code_digits s" b]
    by (auto simp: scan_byte.simps scanner_wf_def reports_bounded_def payload_limit_def)
next
  case Payload
  then show ?thesis
    using assms finish_to_ground_wf [OF assms]
    by (auto simp: scan_byte.simps scanner_wf_def reports_bounded_def)
next
  case PayloadEscape
  have "scanner_wf (s\<lparr>sc_payload := []\<rparr>)" using assms by (auto simp: scanner_wf_def)
  from after_escape_wf [OF this] PayloadEscape show ?thesis
    using finish_to_ground_wf [OF assms] by (simp add: scan_byte.simps)
next
  case SkipEscape
  then show ?thesis
    using assms after_escape_wf [OF assms]
    by (auto simp: scan_byte.simps scanner_wf_def reports_bounded_def)
next
  case ScanEscape
  then show ?thesis using after_escape_wf [OF assms] by (simp add: scan_byte.simps)
qed (use assms in \<open>auto simp: scan_byte.simps scanner_wf_def reports_bounded_def Let_def\<close>)

lemma reports_bounded_append [simp]:
  "reports_bounded (xs @ ys) \<longleftrightarrow> reports_bounded xs \<and> reports_bounded ys"
  by (auto simp: reports_bounded_def)

lemma scan_loop_wf:
  "scanner_wf s \<Longrightarrow> scanner_wf (fst (scan_loop s xs)) \<and> reports_bounded (snd (scan_loop s xs))"
proof (induction xs arbitrary: s)
  case Nil
  then show ?case by (simp add: reports_bounded_def)
next
  case (Cons b xs)
  note w = scan_byte_wf [OF Cons.prems, of b]
  have w1: "scanner_wf (fst (scan_byte s b))" using w by blast
  from Cons.IH [OF w1] w show ?case by (simp add: Let_def case_prod_unfold)
qed

lemma scan_payload:
  assumes "sc_state s = Payload" and "CHR 0x07 \<notin> set body" and "CHR 0x1B \<notin> set body"
    and "length (sc_payload s) + length body \<le> payload_limit s"
  shows "scan_loop s body = (s\<lparr>sc_payload := sc_payload s @ body\<rparr>, [])"
  using assms
proof (induction body arbitrary: s)
  case Nil
  then show ?case by simp
next
  case (Cons b body)
  have "scan_byte s b = (s\<lparr>sc_payload := sc_payload s @ [b]\<rparr>, [])"
    using Cons.prems by (auto simp: scan_byte.simps)
  moreover have "scan_loop (s\<lparr>sc_payload := sc_payload s @ [b]\<rparr>) body
      = (s\<lparr>sc_payload := (sc_payload s @ [b]) @ body\<rparr>, [])"
    using Cons.IH [of "s\<lparr>sc_payload := sc_payload s @ [b]\<rparr>"] Cons.prems by simp
  ultimately show ?case by simp
qed

text \<open>The opening \<open>ESC ] 7501 ;\<close> from ground reaches an empty payload.\<close>

definition REPORT_OPEN :: string where
  "REPORT_OPEN = CHR 0x1B # '']7501;''"

lemma scan_report_open:
  "sc_state s = Ground \<Longrightarrow> scan_loop s REPORT_OPEN =
     (s\<lparr>sc_state := Payload, sc_code := 7501, sc_code_digits := 4, sc_payload := []\<rparr>, [])"
  by (simp add: REPORT_OPEN_def scan_byte.simps after_escape_def ascii_defs)

section \<open>Store\<close>

definition seqs :: "(string, stored_record) hmap \<Rightarrow> nat list" where
  "seqs m = map (st_seq o snd) m"

definition store_inv :: "status_store \<Rightarrow> bool" where
  "store_inv s \<longleftrightarrow> hm_wf (ps_records s) \<and> length (ps_records s) \<le> MAX_RECORDS
     \<and> distinct (seqs (ps_records s)) \<and> (\<forall>n \<in> set (seqs (ps_records s)). n \<le> ps_clock s)"

lemma store_inv_new [simp]: "store_inv store_new"
  by (simp add: store_inv_def store_new_def seqs_def)

text \<open>Removal operations: each keeps the records a predicate selects and reports
  whether the number of records changed.\<close>

locale record_filter =
  fixes keep :: "string \<Rightarrow> stored_record \<Rightarrow> bool"
    and rm :: "status_store \<Rightarrow> status_store \<times> bool"
  assumes rm_records: "ps_records (fst (rm s)) = hm_retain keep (ps_records s)"
    and rm_clock: "ps_clock (fst (rm s)) = ps_clock s"
    and rm_changed: "snd (rm s) \<longleftrightarrow> length (hm_retain keep (ps_records s)) \<noteq> length (ps_records s)"
begin

lemma lookup_rm:
  "hm_wf (ps_records s) \<Longrightarrow> hm_get (ps_records (fst (rm s))) k = Some r
     \<longleftrightarrow> hm_get (ps_records s) k = Some r \<and> keep k r"
  by (simp add: rm_records hm.retain_subset)

lemma rm_reports_removal:
  "snd (rm s) \<longleftrightarrow> (\<exists>(k, r) \<in> set (ps_records s). \<not> keep k r)"
proof -
  have "length (filter (\<lambda>(k, r). keep k r) (ps_records s)) = length (ps_records s)
      \<longleftrightarrow> (\<forall>x \<in> set (ps_records s). case x of (k, r) \<Rightarrow> keep k r)"
    by (metis (no_types, lifting) filter_True length_filter_less less_irrefl)
  then show ?thesis by (auto simp: rm_changed hm_retain_def)
qed

lemma rm_inv:
  assumes "store_inv s"
  shows "store_inv (fst (rm s))"
proof -
  have "distinct (seqs (hm_retain keep (ps_records s)))"
    using assms by (simp add: store_inv_def seqs_def hm_retain_def distinct_map_filter)
  moreover have "set (seqs (hm_retain keep (ps_records s))) \<subseteq> set (seqs (ps_records s))"
    by (auto simp: seqs_def hm_retain_def)
  moreover have "length (hm_retain keep (ps_records s)) \<le> length (ps_records s)"
    by (simp add: hm_retain_def)
  ultimately show ?thesis
    using assms by (auto simp: store_inv_def rm_records rm_clock hm.invar_retain)
qed

end

interpretation cleared: record_filter
  "\<lambda>k _. i \<noteq> [] \<and> k \<noteq> i \<and> \<not> starts_with (i @ ''/'') k" "store_clear i" for i
  by unfold_locales (auto simp: store_clear_def Let_def hm_retain_def)

interpretation prompted: record_filter
  "\<lambda>_ r. \<not> is_transient (pr_state (st_record r))" drop_transient
  by unfold_locales (auto simp: drop_transient_def Let_def)

interpretation departed: record_filter
  "\<lambda>_ r. \<not> is_transient (pr_state (st_record r))
      \<or> (case st_owner r of None \<Rightarrow> True | Some p \<Rightarrow> is_alive p)" "sweep_departed is_alive" for is_alive
  by unfold_locales (auto simp: sweep_departed_def Let_def)

interpretation resetted: record_filter "\<lambda>_ _. False" store_reset
  by unfold_locales (auto simp: store_reset_def hm_retain_def)

end
