(* ===== verification/Program_Status_Props.thy ===== *)
theory Program_Status_Props
  imports Program_Status_Facts
begin

text \<open>Properties of the program status protocol, from the byte scanner to the summary
  that reaches the manifest.\<close>

section \<open>More on the store\<close>

lemma length_hm_put:
  "length (hm_put k v m) = (if k \<in> fst ` set m then length m else Suc (length m))"
  by (induction m) auto

lemma length_hm_remove:
  assumes "hm_wf m" and "hm_get m k = Some v"
  shows "Suc (length (hm_remove k m)) = length m"
  using assms
proof (induction m)
  case Nil
  then show ?case by simp
next
  case (Cons kv m)
  obtain k0 v0 where [simp]: "kv = (k0, v0)" by (cases kv)
  show ?case
  proof (cases "k0 = k")
    case True
    then have "k \<notin> fst ` set m" using Cons.prems by (simp add: hm_wf_def)
    then have "filter (\<lambda>(k', _). k' \<noteq> k) m = m" by (force simp: filter_id_conv)
    then show ?thesis using True by (simp add: hm_remove_def)
  next
    case False
    then show ?thesis using Cons by (simp add: hm_wf_def hm_remove_def)
  qed
qed

lemma seqs_put:
  assumes "hm_wf m" and "distinct (seqs m)" and "\<forall>n \<in> set (seqs m). n < st_seq x"
  shows "distinct (seqs (hm_put k x m)) \<and> (\<forall>n \<in> set (seqs (hm_put k x m)). n \<le> st_seq x)"
proof -
  have "distinct (hm_put k x m)"
    using hm_wf_put [OF assms(1)] by (simp add: hm_wf_def distinct_map)
  moreover have "inj_on (st_seq o snd) (set (hm_put k x m))"
    using assms(2,3) unfolding set_hm_put [OF assms(1)]
    by (fastforce simp: seqs_def distinct_map inj_on_def)
  moreover have "\<forall>n \<in> set (seqs (hm_put k x m)). n \<le> st_seq x"
    using assms(3) by (fastforce simp: seqs_def set_hm_put [OF assms(1)])
  ultimately show ?thesis by (simp add: seqs_def distinct_map)
qed

lemma oldest_key_spec:
  assumes "hm_wf m" and "m \<noteq> []"
  shows "\<exists>k r. oldest_key m = Some k \<and> hm_get m k = Some r \<and> (\<forall>(k', r') \<in> set m. st_seq r \<le> st_seq r')"
  using assms
proof (induction m)
  case Nil
  then show ?case by simp
next
  case (Cons kv m)
  obtain k0 r0 where kv [simp]: "kv = (k0, r0)" by (cases kv)
  have wf: "hm_wf m" and k0: "hm_get m k0 = None"
    using Cons.prems by (simp_all add: hm_wf_def map_of_eq_None_iff)
  show ?case
  proof (cases "m = []")
    case True
    then show ?thesis by simp
  next
    case False
    obtain k r where k: "oldest_key m = Some k" "hm_get m k = Some r"
      and min: "\<forall>(k', r') \<in> set m. st_seq r \<le> st_seq r'"
      using Cons.IH [OF wf False] by blast
    then have "k \<noteq> k0" using k0 by auto
    show ?thesis
    proof (cases "st_seq r < st_seq r0")
      case True
      then show ?thesis using k min \<open>k \<noteq> k0\<close> by auto
    next
      case ge: False
      then have "\<forall>(k', r') \<in> set (kv # m). st_seq r0 \<le> st_seq r'" using min by fastforce
      then show ?thesis using k ge by auto
    qed
  qed
qed

lemma store_set_records:
  assumes "store_inv s" and "hm_get (ps_records s) i = None"
  shows "\<exists>x. st_record x = rec \<and> st_seq x = ps_clock s + 1 \<and>
    ps_records (fst (store_set i rec ow now s)) =
      (let m = hm_put i x (ps_records s)
       in if length m > MAX_RECORDS
          then (case oldest_key m of None \<Rightarrow> m | Some k \<Rightarrow> hm_remove k m) else m)"
  using assms
  by (intro exI [of _ "\<lparr>st_record = rec, st_seq = ps_clock s + 1, st_changed_at = now, st_owner = ow\<rparr>"])
     (simp add: store_set_def Let_def)

lemma seqs_sub: "set m' \<subseteq> set m \<Longrightarrow> set (seqs m') \<subseteq> set (seqs m)"
  by (auto simp: seqs_def)

lemma store_set_inv:
  assumes inv: "store_inv s"
  shows "store_inv (fst (store_set i rec ow now s))"
proof -
  let ?m = "ps_records s"
  have wf: "hm_wf ?m" and len: "length ?m \<le> MAX_RECORDS" and dist: "distinct (seqs ?m)"
    and bound: "\<forall>n \<in> set (seqs ?m). n < Suc (ps_clock s)"
    using inv by (auto simp: store_inv_def less_Suc_eq_le)
  have put: "distinct (seqs (hm_put i x ?m)) \<and> (\<forall>n \<in> set (seqs (hm_put i x ?m)). n \<le> Suc (ps_clock s))"
    if "st_seq x = Suc (ps_clock s)" for x
    using seqs_put [OF wf dist, of x i] that bound by simp
  show ?thesis
  proof (cases "hm_get ?m i")
    case (Some stored)
    then have "i \<in> fst ` set ?m" by (metis hm_get_in_set fst_conv image_eqI)
    then have "length (hm_put i x ?m) = length ?m" for x by (simp add: length_hm_put)
    then have "store_inv \<lparr>ps_records = hm_put i x ?m, ps_clock = Suc (ps_clock s)\<rparr>"
      if "st_seq x = Suc (ps_clock s)" for x
      using put [OF that] len by (simp add: store_inv_def hm_wf_put [OF wf])
    then show ?thesis
      using Some by (cases s) (simp add: store_set_def Let_def)
  next
    case None
    define x where "x = \<lparr>st_record = rec, st_seq = ps_clock s + 1, st_changed_at = now, st_owner = ow\<rparr>"
    define m1 where "m1 = hm_put i x ?m"
    have wf1: "hm_wf m1" unfolding m1_def by (rule hm_wf_put [OF wf])
    have p1: "distinct (seqs m1)" "\<forall>n \<in> set (seqs m1). n \<le> Suc (ps_clock s)"
      using put [of x] by (simp_all add: m1_def x_def)
    have l1: "length m1 \<le> Suc MAX_RECORDS"
      using len by (simp add: m1_def length_hm_put)
    show ?thesis
    proof (cases "length m1 > MAX_RECORDS")
      case True
      then have "m1 \<noteq> []" by auto
      then obtain k r where k: "oldest_key m1 = Some k" "hm_get m1 k = Some r"
        using oldest_key_spec [OF wf1] by blast
      have "length (hm_remove k m1) \<le> MAX_RECORDS"
        using length_hm_remove [OF wf1 k(2)] l1 by simp
      moreover have "distinct (seqs (hm_remove k m1))"
        using p1(1) by (simp add: seqs_def hm_remove_def distinct_map_filter)
      moreover have "set (seqs (hm_remove k m1)) \<subseteq> set (seqs m1)"
        by (rule seqs_sub) (auto simp: hm_remove_def)
      ultimately have "store_inv \<lparr>ps_records = hm_remove k m1, ps_clock = Suc (ps_clock s)\<rparr>"
        using p1(2) hm.invar_remove [OF wf1] by (auto simp: store_inv_def)
      moreover have "fst (store_set i rec ow now s) = s\<lparr>ps_clock := Suc (ps_clock s), ps_records := hm_remove k m1\<rparr>"
        using None True k(1) unfolding m1_def x_def by (simp add: store_set_def Let_def)
      ultimately show ?thesis by (simp add: store_inv_def)
    next
      case False
      then show ?thesis
        using None p1 wf1
        by (simp add: store_set_def store_inv_def Let_def x_def [simplified, symmetric] m1_def [symmetric])
    qed
  qed
qed

lemma speaker_spec:
  assumes "hm_wf m" and "distinct (seqs m)" and "m \<noteq> []"
  shows "\<exists>i r. speaker m = Some (i, r) \<and> (i, r) \<in> set m
     \<and> (\<forall>(k', r') \<in> set m. (k', r') = (i, r) \<or> speaks_before r r')"
  using assms
proof (induction m)
  case Nil
  then show ?case by simp
next
  case (Cons kv m)
  obtain k0 r0 where kv [simp]: "kv = (k0, r0)" by (cases kv)
  have wf: "hm_wf m" and d: "distinct (seqs m)" and s0: "st_seq r0 \<notin> set (seqs m)"
    using Cons.prems by (simp_all add: hm_wf_def seqs_def)
  show ?case
  proof (cases "m = []")
    case True
    then show ?thesis by simp
  next
    case False
    obtain i r where ir: "speaker m = Some (i, r)" "(i, r) \<in> set m"
      and top: "\<forall>(k', r') \<in> set m. (k', r') = (i, r) \<or> speaks_before r r'"
      using Cons.IH [OF wf d False] by blast
    have ne: "st_seq r0 \<noteq> st_seq r" using s0 ir(2) by (force simp: seqs_def)
    show ?thesis
    proof (cases "speaks_before r0 r")
      case True
      then have "\<forall>(k', r') \<in> set (kv # m). (k', r') = (k0, r0) \<or> speaks_before r0 r'"
        using top by (fastforce simp: speaks_before_def)
      then show ?thesis using True ir by auto
    next
      case False
      then have "speaks_before r r0" using ne by (auto simp: speaks_before_def)
      then show ?thesis using False ir top by auto
    qed
  qed
qed

lemma apply_stream_event_inv:
  "store_inv (fst acc) \<Longrightarrow> store_inv (fst (apply_stream_event b64 ow now ev acc))"
proof (cases ev)
  case (Report body)
  assume "store_inv (fst acc)"
  moreover have "store_inv (fst (store_apply rep ow now st))" if "store_inv st" for rep st
    using that by (cases rep) (simp_all add: store_set_inv cleared.rm_inv)
  ultimately show ?thesis
    using Report by (simp add: apply_stream_event_def case_prod_unfold Let_def split: option.split)
qed (simp_all add: apply_stream_event_def case_prod_unfold Let_def prompted.rm_inv resetted.rm_inv)

lemma fold_stream_events_inv:
  "store_inv (fst acc) \<Longrightarrow> store_inv (fst (fold (apply_stream_event b64 ow now) evs acc))"
  by (induction evs arbitrary: acc) (simp_all add: apply_stream_event_inv)

section \<open>Properties of the scanner and the parser\<close>

text \<open>The scanner does not depend on how the terminal output is cut into chunks:
  scanning two chunks one after the other gives the state and the events of scanning their
  concatenation, early return for escape-free output included.\<close>

lemma scan_chunks:
  "scan s (xs @ ys) =
     (let (s1, e1) = scan s xs; (s2, e2) = scan s1 ys in (s2, e1 @ e2))"
  by (simp add: scan_eq_loop scan_loop_append)

text \<open>C8. A report of at most \<open>MAX_BODY_BYTES\<close> without BEL and ESC is delivered whole:
  after any escape-free output, \<open>ESC ] 7501 ; body\<close> ended by BEL or by \<open>ESC \\<close> yields exactly
  that body as one event and leaves the scanner in ground state.\<close>

theorem scan_report_delivered:
  assumes "sc_state s = Ground" and "CHR 0x1B \<notin> set noise"
    and "CHR 0x07 \<notin> set body" and "CHR 0x1B \<notin> set body" and "length body \<le> MAX_BODY_BYTES"
    and "terminator = [CHR 0x07] \<or> terminator = [CHR 0x1B, CHR 0x5C]"
  shows "\<exists>s'. scan s (noise @ REPORT_OPEN @ body @ terminator) = (s', [Report body])
       \<and> sc_state s' = Ground"
proof -
  let ?p = "s\<lparr>sc_state := Payload, sc_code := 7501, sc_code_digits := 4, sc_payload := []\<rparr>"
  have body: "scan_loop ?p body = (?p\<lparr>sc_payload := body\<rparr>, [])"
    using scan_payload [of ?p body] assms(3-5) by (simp add: payload_limit_def)
  have "\<exists>s'. scan_loop (?p\<lparr>sc_payload := body\<rparr>) terminator = (s', [Report body]) \<and> sc_state s' = Ground"
    using assms(6) by (auto simp: scan_byte.simps finish_to_ground_def scan_finish_def)
  then show ?thesis
    using assms(1,2) body
    by (auto simp: scan_eq_loop scan_loop_append scan_loop_ground scan_report_open)
qed

theorem scan_report_delivered_witness:
  "\<exists>s'. scan scanner_new (''ls'' @ REPORT_OPEN @ ''state=done'' @ [CHR 0x1B, CHR 0x5C])
     = (s', [Report ''state=done'']) \<and> sc_state s' = Ground"
  by (rule scan_report_delivered) (simp_all add: scanner_new_def MAX_BODY_BYTES_def MAX_SEQUENCE_BYTES_def)

text \<open>Whatever bytes the hosted program prints, the scanner's buffers stay bounded
  (at most six code digits, so the code cannot overflow; at most \<open>MAX_BODY_BYTES\<close> of
  payload) and no report longer than \<open>MAX_BODY_BYTES\<close> is ever emitted.\<close>

lemma scanner_bounded:
  assumes "scanner_wf s"
  shows "scanner_wf (fst (scan s xs)) \<and> sc_code (fst (scan s xs)) < 10 ^ 6
       \<and> (\<forall>b. Report b \<in> set (snd (scan s xs)) \<longrightarrow> length b \<le> MAX_BODY_BYTES)"
proof -
  have wf: "scanner_wf (fst (scan s xs))" and "reports_bounded (snd (scan s xs))"
    using scan_loop_wf [OF assms] by (simp_all add: scan_eq_loop)
  moreover have "(10::nat) ^ sc_code_digits (fst (scan s xs)) \<le> 10 ^ 6"
    using wf by (intro power_increasing) (simp_all add: scanner_wf_def)
  ultimately show ?thesis
    by (auto simp: scanner_wf_def reports_bounded_def intro: order_less_le_trans)
qed

lemma validate_id_Some:
  "validate_id i = Some j \<Longrightarrow> j = i \<and> length i \<le> MAX_ID_BYTES
     \<and> length (split_on (CHR ''/'') i) \<le> MAX_ID_LEVELS"
  by (auto simp: validate_id_def Let_def MAX_ID_LEVELS_def split: if_splits)

lemma decode_text_Some:
  assumes "decode_text b64 v limit = Some (Some t)"
  shows "t \<noteq> [] \<and> length t \<le> limit"
proof -
  obtain bytes where t: "t = trim (strip_bidi bytes)" "t \<noteq> []" "length bytes \<le> limit"
    using assms
    by (auto simp: decode_text_def Let_def bind_eq_Some_conv split: option.splits if_splits)
  have "length (trim (strip_bidi bytes)) \<le> length (strip_bidi bytes)" by (rule trim_length)
  also have "\<dots> \<le> length bytes" by (induction bytes rule: strip_bidi.induct) auto
  finally show ?thesis using t by simp
qed

text \<open>Every record that parsing accepts respects the protocol's limits, whatever the
  base64 decoder returns: the identifier is at most 128 bytes and 8 levels, \<open>kind\<close> appears
  only on blocked records, \<open>progress\<close> is a percentage and only on working or blocked
  records, and the display texts are non-empty and bounded.\<close>

lemma parse_report_limits:
  assumes "parse_report b64_decode body = Some (SetRecord i rec)"
  shows "length i \<le> MAX_ID_BYTES \<and> length (split_on (CHR ''/'') i) \<le> MAX_ID_LEVELS
       \<and> (pr_kind rec \<noteq> None \<longrightarrow> pr_state rec = PsBlocked)
       \<and> (\<forall>n. pr_progress rec = Some n \<longrightarrow> n \<le> 100 \<and> pr_state rec \<in> {PsWorking, PsBlocked})
       \<and> (\<forall>a. pr_app rec = Some a \<longrightarrow> a \<noteq> [] \<and> length a \<le> MAX_APP_BYTES)
       \<and> (\<forall>t. pr_title rec = Some t \<longrightarrow> t \<noteq> [] \<and> length t \<le> MAX_TITLE_BYTES)
       \<and> (\<forall>t. pr_msg rec = Some t \<longrightarrow> t \<noteq> [] \<and> length t \<le> MAX_MSG_BYTES)"
proof -
  let ?get = "hm_get (collect_pairs body)"
  obtain st where i: "(case ?get ''id'' of None \<Rightarrow> Some [] | Some j \<Rightarrow> validate_id j) = Some i"
    and st: "pr_state rec = st"
    and kind: "pr_kind rec = (if st = PsBlocked then Option.bind (?get ''kind'') parse_kind else None)"
    and prog: "pr_progress rec = parse_progress st (?get ''progress'')"
    and app: "parse_app (?get ''app'') = Some (pr_app rec)"
    and title: "decode_text b64_decode (?get ''title'') MAX_TITLE_BYTES = Some (pr_title rec)"
    and msg: "decode_text b64_decode (?get ''msg'') MAX_MSG_BYTES = Some (pr_msg rec)"
    using assms
    by (simp add: parse_report_def Let_def bind_eq_Some_conv split: if_splits) fastforce
  have "length i \<le> MAX_ID_BYTES \<and> length (split_on (CHR ''/'') i) \<le> MAX_ID_LEVELS"
    using i by (auto simp: MAX_ID_LEVELS_def split: option.splits dest: validate_id_Some)
  moreover have "n \<le> 100 \<and> st \<in> {PsWorking, PsBlocked}" if "pr_progress rec = Some n" for n
    using prog [unfolded that, symmetric]
    by (auto simp: parse_progress_def bind_eq_Some_conv split: if_splits)
  moreover have "a \<noteq> [] \<and> length a \<le> MAX_APP_BYTES" if "pr_app rec = Some a" for a
    using app that by (auto simp: parse_app_def split: option.splits if_splits)
  ultimately show ?thesis
    using kind st title msg by (auto dest: decode_text_Some split: if_splits)
qed

lemma report_example:
  "parse_report Some ''id=a/b:state=blocked:kind=auth:progress=7'' =
     Some (SetRecord ''a/b'' \<lparr>pr_state = PsBlocked, pr_kind = Some Auth, pr_progress = Some 7,
       pr_app = None, pr_title = None, pr_msg = None\<rparr>)"
  by code_simp

section \<open>Properties of the store and the tracker\<close>

text \<open>The store stays within its limits under any stream of events: from a store that
  satisfies the invariant (distinct identifiers, at most \<open>MAX_RECORDS\<close> records, distinct
  update numbers not above the clock), every sequence of reports, prompts and resets and
  every sweep of departed processes reach a store that satisfies it.\<close>

lemma store_stays_bounded:
  assumes "store_inv s"
  shows "store_inv (fst (fold (apply_stream_event b64_decode owner now) events (s, changed)))
       \<and> store_inv (fst (sweep_departed is_alive s))"
  using fold_stream_events_inv [of "(s, changed)"] departed.rm_inv assms by simp

text \<open>A new record on a full store evicts the least recently updated record and no
  other: the new record is stored, one identifier disappears, its update number was the
  smallest, and every other record is unchanged.\<close>

lemma full_store_evicts_oldest:
  assumes inv: "store_inv s" and full: "length (ps_records s) = MAX_RECORDS"
    and fresh: "hm_get (ps_records s) i = None"
  shows "\<exists>k r. hm_get (ps_records s) k = Some r
     \<and> (\<forall>(k', r') \<in> set (ps_records s). st_seq r \<le> st_seq r')
     \<and> (let s' = fst (store_apply (SetRecord i rec) owner now s)
        in hm_get (ps_records s') k = None
         \<and> map_option st_record (hm_get (ps_records s') i) = Some rec
         \<and> (\<forall>k'. k' \<noteq> k \<and> k' \<noteq> i \<longrightarrow> hm_get (ps_records s') k' = hm_get (ps_records s) k'))"
proof -
  let ?m = "ps_records s"
  have wf: "hm_wf ?m" and bound: "\<forall>n \<in> set (seqs ?m). n \<le> ps_clock s"
    using inv by (auto simp: store_inv_def)
  define x where "x = \<lparr>st_record = rec, st_seq = ps_clock s + 1, st_changed_at = now, st_owner = owner\<rparr>"
  define m1 where "m1 = hm_put i x ?m"
  have wf1: "hm_wf m1" unfolding m1_def by (rule hm_wf_put [OF wf])
  have "i \<notin> fst ` set ?m" using fresh by (simp add: map_of_eq_None_iff)
  then have over: "length m1 > MAX_RECORDS" using full by (simp add: m1_def length_hm_put)
  obtain k r where k: "oldest_key m1 = Some k" "hm_get m1 k = Some r"
    and min: "\<forall>(k', r') \<in> set m1. st_seq r \<le> st_seq r'"
    using oldest_key_spec [OF wf1] over by fastforce
  have sub: "(k', r') \<in> set m1" if "(k', r') \<in> set ?m" for k' r'
    using that \<open>i \<notin> fst ` set ?m\<close> by (force simp: m1_def set_hm_put [OF wf])
  have "k \<noteq> i"
  proof
    assume "k = i"
    then have "r = x" using k(2) by (simp add: m1_def)
    have "?m \<noteq> []" using full by (auto simp: MAX_RECORDS_def)
    then obtain k' r' where in_m: "(k', r') \<in> set ?m" by (cases ?m) auto
    then have "st_seq r' \<le> ps_clock s" using bound by (force simp: seqs_def)
    then show False using min sub [OF in_m] \<open>r = x\<close> by (fastforce simp: x_def)
  qed
  then have old: "hm_get ?m k = Some r" using k(2) by (simp add: m1_def)
  have "fst (store_apply (SetRecord i rec) owner now s)
      = s\<lparr>ps_clock := Suc (ps_clock s), ps_records := hm_remove k m1\<rparr>"
    using fresh over k(1) unfolding m1_def x_def by (simp add: store_set_def Let_def)
  then have rec': "ps_records (fst (store_apply (SetRecord i rec) owner now s)) = hm_remove k m1"
    by simp
  have "\<forall>(k', r') \<in> set ?m. st_seq r \<le> st_seq r'" using min sub by fast
  moreover have "hm_get (hm_remove k m1) k' = (if k' = k then None else if k' = i then Some x else hm_get ?m k')" for k'
    using hm.lookup_remove [OF wf1, of k k'] by (simp add: m1_def)
  ultimately show ?thesis
    using old \<open>k \<noteq> i\<close> unfolding Let_def rec'
    by (intro exI [of _ k] exI [of _ r]) (simp add: x_def)
qed

definition rec0 :: program_record where
  "rec0 = \<lparr>pr_state = PsDone, pr_kind = None, pr_progress = None, pr_app = None,
     pr_title = None, pr_msg = None\<rparr>"

definition full_store :: status_store where
  "full_store = \<lparr>ps_records = map (\<lambda>n. (replicate n (CHR ''a''),
      \<lparr>st_record = rec0, st_seq = n, st_changed_at = 0, st_owner = None\<rparr>))
      [0..<MAX_RECORDS], ps_clock = MAX_RECORDS\<rparr>"

lemma full_store_inv: "store_inv full_store"
proof -
  have "inj_on (\<lambda>n. replicate n (CHR ''a'')) A" for A by (rule inj_onI) (metis length_replicate)
  then show ?thesis
    by (auto simp: store_inv_def full_store_def hm_wf_def seqs_def comp_def distinct_map
        simp del: replicate_eq_replicate)
qed

text \<open>Clearing an identifier removes exactly its subtree: a record survives a clear
  report if and only if its identifier is neither the cleared one nor below it, and the
  root identifier clears everything. The result says whether a record was removed.\<close>

lemma clear_removes_subtree:
  assumes "store_inv s"
  shows "(hm_get (ps_records (fst (store_apply (ClearRecord i) owner now s))) k = Some r
      \<longleftrightarrow> hm_get (ps_records s) k = Some r \<and> i \<noteq> [] \<and> k \<noteq> i \<and> (\<forall>rest. k \<noteq> i @ ''/'' @ rest))
    \<and> (snd (store_apply (ClearRecord i) owner now s)
      \<longleftrightarrow> (\<exists>(k, r) \<in> set (ps_records s). i = [] \<or> k = i \<or> (\<exists>rest. k = i @ ''/'' @ rest)))"
  using cleared.lookup_rm [of s i k r] cleared.rm_reports_removal [of i s] assms
  by (simp add: store_inv_def starts_with_iff)

text \<open>The summary speaks for the record that needs attention most: it exists whenever
  a record exists, it carries the state, kind and text of a stored record, and every other
  record is less urgent, or as urgent and updated earlier.\<close>

lemma summary_most_urgent:
  assumes "store_inv s" and "ps_records s \<noteq> []"
  shows "\<exists>sm i r. summary s = Some sm \<and> hm_get (ps_records s) i = Some r
     \<and> ss_state sm = pr_state (st_record r) \<and> ss_kind sm = pr_kind (st_record r)
     \<and> ss_msg sm = pr_msg (st_record r) \<and> ss_changed_at sm = st_changed_at r
     \<and> (\<forall>k' r'. hm_get (ps_records s) k' = Some r' \<and> k' \<noteq> i \<longrightarrow>
          urgency (pr_state (st_record r')) < urgency (pr_state (st_record r))
        \<or> urgency (pr_state (st_record r')) = urgency (pr_state (st_record r)) \<and> st_seq r' < st_seq r)"
proof -
  have wf: "hm_wf (ps_records s)" and d: "distinct (seqs (ps_records s))"
    using assms(1) by (auto simp: store_inv_def)
  obtain i r where sp: "speaker (ps_records s) = Some (i, r)" "(i, r) \<in> set (ps_records s)"
    and top: "\<forall>(k', r') \<in> set (ps_records s). (k', r') = (i, r) \<or> speaks_before r r'"
    using speaker_spec [OF wf d assms(2)] by blast
  have "\<forall>k' r'. hm_get (ps_records s) k' = Some r' \<and> k' \<noteq> i \<longrightarrow>
          urgency (pr_state (st_record r')) < urgency (pr_state (st_record r))
        \<or> urgency (pr_state (st_record r')) = urgency (pr_state (st_record r)) \<and> st_seq r' < st_seq r"
    using top by (fastforce simp: speaks_before_def dest: hm_get_in_set)
  moreover obtain sm where "summary s = Some sm" "ss_state sm = pr_state (st_record r)"
    "ss_kind sm = pr_kind (st_record r)" "ss_msg sm = pr_msg (st_record r)"
    "ss_changed_at sm = st_changed_at r"
    using sp(1) by (simp add: summary_def Let_def)
  ultimately show ?thesis
    using hm_in_set_get [OF wf sp(2)]
    by (intro exI [of _ sm] exI [of _ i] exI [of _ r]) simp
qed

lemma publish_forced:
  assumes "publish_program_status True clock t = (t', w)"
  shows "\<not> tr_dirty t' \<and> tr_published t' = Some (summary (tr_store t')) \<and> tr_store t' = tr_store t
       \<and> (\<forall>s. w = Some s \<longrightarrow> s = summary (tr_store t'))"
  using assms by (auto simp: publish_program_status_def Let_def split: if_splits)

lemma finished_not_transient: "is_finished st \<longleftrightarrow> \<not> is_transient st"
  by (cases st) simp_all

text \<open>The idle sweep settles the published status: after it no write is pending, what
  the manifest was last told is the store's current summary whenever a record departed or a
  write was pending, and no finished record was lost.\<close>

lemma idle_sweep_settles:
  assumes "sweep_program_status persisted is_alive clock t = (t', w)"
  shows "\<not> tr_dirty t'
       \<and> (tr_dirty t \<or> ps_records (tr_store t') \<noteq> ps_records (tr_store t) \<longrightarrow>
            tr_published t' = Some (summary (tr_store t')))
       \<and> (\<forall>s. w = Some s \<longrightarrow> s = summary (tr_store t'))
       \<and> (\<forall>k r. (k, r) \<in> set (ps_records (tr_store t)) \<and> is_finished (pr_state (st_record r)) \<longrightarrow>
            (k, r) \<in> set (ps_records (tr_store t')))"
proof -
  define t1 where "t1 = (if tr_published t = None
      then t\<lparr>tr_published := Some persisted, tr_dirty := (tr_dirty t \<or> ps_records (tr_store t) = [])\<rparr> else t)"
  define sw where "sw = (if has_owned_transient (tr_store t1) then sweep_departed is_alive (tr_store t1)
      else (tr_store t1, False))"
  have t1: "tr_store t1 = tr_store t" "tr_dirty t \<longrightarrow> tr_dirty t1" by (auto simp: t1_def)
  have eq: "(if snd sw \<or> tr_dirty t1 then publish_program_status True clock (t1\<lparr>tr_store := fst sw\<rparr>)
      else (t1\<lparr>tr_store := fst sw\<rparr>, None)) = (t', w)"
    using assms unfolding sweep_program_status_def Let_def t1_def [symmetric] sw_def [symmetric]
    by (simp add: case_prod_unfold)
  have kept: "(k, r) \<in> set (ps_records (fst sw))"
    if "(k, r) \<in> set (ps_records (tr_store t))" "is_finished (pr_state (st_record r))" for k r
    using that by (auto simp: sw_def t1 departed.rm_records set_hm_retain finished_not_transient)
  have same: "ps_records (fst sw) = ps_records (tr_store t)" if "\<not> snd sw"
  proof (cases "has_owned_transient (tr_store t1)")
    case True
    then have "length (ps_records (fst sw)) = length (ps_records (tr_store t))"
      using that departed.rm_changed [of is_alive "tr_store t"]
      by (simp add: sw_def t1 departed.rm_records)
    then show ?thesis
      using True by (simp add: sw_def t1 departed.rm_records hm_retain_def filter_id_length)
  qed (simp add: sw_def t1)
  show ?thesis
  proof (cases "snd sw \<or> tr_dirty t1")
    case True
    then show ?thesis using eq publish_forced [of clock "t1\<lparr>tr_store := fst sw\<rparr>" t' w] kept by auto
  next
    case False
    then show ?thesis using eq t1 kept same by auto
  qed
qed

definition swept_tracker :: status_tracker where
  "swept_tracker = \<lparr>tr_scanner = scanner_new, tr_store = store_new, tr_published = Some None,
     tr_dirty = True, tr_last_write = Some 3\<rparr>"

definition reassert_events :: "stream_event list" where
  "reassert_events = [Report ''id=a:state=working'', Report ''id=b:state=working'']"

text \<open>A report that repeats a stored record is not published even when it changes
  what the store's summary is: with two records of equal urgency, re-asserting the older
  one makes it the most recently updated, so the summary moves to it, while \<open>apply\<close>
  answers that nothing changed and the tracker writes nothing.\<close>

lemma reasserted_record_stale_summary:
  "let t = fst (apply_program_status_events Some None 10 0 reassert_events swept_tracker);
       (t', w) = apply_program_status_events Some None 20 1 [Report ''id=a:state=working''] t
   in w = None \<and> \<not> tr_dirty t' \<and> tr_published t' \<noteq> Some (summary (tr_store t'))"
  by code_simp

end
