(* ===== verification/Auto_Stop.thy ===== *)
theory Auto_Stop
  imports Json
begin

text \<open>
  Model of the two Host-owned sweeps: \<open>crates/unpeel-serve/src/auto_stop.rs\<close> (stop a
  continuously idle resumable session) and \<open>retention.rs\<close> (remove stopped sessions past
  the keep limit). A worker thread is outside the model: a step returns the identifiers a
  thread was started for, and whether the operating system could start it is the
  parameter \<open>spawn_ok\<close>. The channel of the auto-stop sweep is the queue \<open>sw_outcomes\<close>;
  the result of polling the retention channel is the parameter \<open>poll\<close>. Both sweeps back off
  after a failure; the locale \<open>retry_backoff\<close> states that contract once.
\<close>

section \<open>Auto-stop\<close>

datatype row_status = StStarting | StBusy | StIdle | StAttention | StExited

text \<open>The fields of \<open>SessionRow\<close> the sweep reads.\<close>

record session_row =
  row_id :: sid
  row_resumable :: bool
  row_running :: bool
  row_status :: row_status
  row_pinned :: bool
  row_unread :: bool
  row_activity_at :: u64

definition SETTING_KEY :: string where "SETTING_KEY = ''auto_stop_archive_minutes''"
definition MINUTE_OPTIONS :: "u64 list" where "MINUTE_OPTIONS = [0, 30, 60, 120, 240, 480, 1440]"
definition DEFAULT_MINUTES :: u64 where "DEFAULT_MINUTES = 1440"
definition RETRY_DELAY_MS :: u64 where "RETRY_DELAY_MS = 60000"

definition minutes_from_state :: "json \<Rightarrow> u64" where
  "minutes_from_state state =
     (case jget_u64 SETTING_KEY state of
        Some minutes \<Rightarrow> if minutes \<in> set MINUTE_OPTIONS then minutes else 0
      | None \<Rightarrow> DEFAULT_MINUTES)"

text \<open>\<open>file\<close> is what reading \<open>app-state.json\<close> gave; an unreadable or malformed document is
  \<open>Value::Null\<close>.\<close>

definition minutes_from_disk :: "(string \<Rightarrow> json option) \<Rightarrow> string option \<Rightarrow> u64" where
  "minutes_from_disk from_slice file =
     minutes_from_state (case Option.bind file from_slice of None \<Rightarrow> JNull | Some v \<Rightarrow> v)"

record stop_outcome =
  oc_session_id :: sid
  oc_error :: "string option"

datatype sweep_event = Stopped sid | StopFailed sid string | Skipped sid string

record sweeper =
  sw_started_at :: u64
  sw_idle_since :: "(sid, u64) hmap"
  sw_skip_reasons :: "(sid, string) hmap"
  sw_issued :: "sid set"
  sw_retry_after :: "(sid, u64) hmap"
  sw_outcomes :: "stop_outcome list"

definition sweeper_default :: "u64 \<Rightarrow> sweeper" where
  "sweeper_default started = \<lparr>sw_started_at = started, sw_idle_since = [], sw_skip_reasons = [],
     sw_issued = {}, sw_retry_after = [], sw_outcomes = []\<rparr>"

definition attempt_blocked :: "sid set \<Rightarrow> (sid, u64) hmap \<Rightarrow> sid \<Rightarrow> u64 \<Rightarrow> bool" where
  "attempt_blocked issued retry_after session_id now_ms \<longleftrightarrow>
     session_id \<in> issued
     \<or> (case hm_get retry_after session_id of None \<Rightarrow> False | Some retry_at \<Rightarrow> now_ms < retry_at)"

definition worker_available :: "sid set \<Rightarrow> bool" where
  "worker_available issued \<longleftrightarrow> issued = {}"

definition stopped_retry_due :: "session_row \<Rightarrow> sid set \<Rightarrow> (sid, u64) hmap \<Rightarrow> u64 \<Rightarrow> bool" where
  "stopped_retry_due row issued retry_after now_ms \<longleftrightarrow>
     \<not> row_running row \<and> row_resumable row \<and> \<not> row_pinned row \<and> row_id row \<notin> issued
     \<and> (case hm_get retry_after (row_id row) of None \<Rightarrow> False | Some retry_at \<Rightarrow> now_ms \<ge> retry_at)"

definition note_outcome :: "stop_outcome \<Rightarrow> u64 \<Rightarrow> (sid, u64) hmap \<Rightarrow> (sid, u64) hmap" where
  "note_outcome oc now_ms retry_after =
     (case oc_error oc of
        Some _ \<Rightarrow> hm_put (oc_session_id oc) (saturating_add64 now_ms RETRY_DELAY_MS) retry_after
      | None \<Rightarrow> hm_remove (oc_session_id oc) retry_after)"

definition apply_outcome ::
  "u64 \<Rightarrow> stop_outcome \<Rightarrow> sid set \<times> (sid, u64) hmap \<Rightarrow> sid set \<times> (sid, u64) hmap" where
  "apply_outcome now_ms oc st =
     (fst st - {oc_session_id oc}, note_outcome oc now_ms (snd st))"

definition observed_idle_since :: "u64 option \<Rightarrow> u64 \<Rightarrow> u64 \<Rightarrow> u64" where
  "observed_idle_since existing lifecycle_at now_ms =
     (let observed = min lifecycle_at now_ms
      in case existing of
           Some anchor \<Rightarrow> max anchor observed
         | None \<Rightarrow> if lifecycle_at = 0 then now_ms else observed)"

definition outcome_event :: "stop_outcome \<Rightarrow> sweep_event" where
  "outcome_event oc =
     (case oc_error oc of Some e \<Rightarrow> StopFailed (oc_session_id oc) e | None \<Rightarrow> Stopped (oc_session_id oc))"

text \<open>The idle clock of one row.\<close>

definition observe_row :: "u64 \<Rightarrow> u64 \<Rightarrow> session_row \<Rightarrow> (sid, u64) hmap \<Rightarrow> (sid, u64) hmap" where
  "observe_row started now_ms row idle =
     (if row_running row \<and> row_status row = StIdle then
        hm_put (row_id row)
          (case hm_get idle (row_id row) of
             Some anchor \<Rightarrow> observed_idle_since (Some anchor) (row_activity_at row) now_ms
           | None \<Rightarrow> max (observed_idle_since None (row_activity_at row) now_ms) started) idle
      else hm_remove (row_id row) idle)"

text \<open>The verdict on one row: due, skipped with a reason, or ignored.\<close>

datatype verdict = Due | SkipRow string | IgnoreRow

definition row_verdict :: "sweeper \<Rightarrow> sid set \<Rightarrow> u64 \<Rightarrow> u64 \<Rightarrow> session_row \<Rightarrow> verdict" where
  "row_verdict sw unread threshold_ms now_ms row =
     (if stopped_retry_due row (sw_issued sw) (sw_retry_after sw) now_ms then Due
      else if \<not> row_running row then IgnoreRow
      else if row_status row = StAttention \<and> (row_unread row \<or> row_id row \<in> unread) then
        SkipRow ''unread attention (waiting on the user; never auto-stopped unseen)''
      else if row_status row \<noteq> StIdle then SkipRow ''not idle''
      else if \<not> row_resumable row then
        SkipRow ''no resumable conversation (plain shells are never auto-stopped)''
      else if row_pinned row then SkipRow ''pinned''
      else if attempt_blocked (sw_issued sw) (sw_retry_after sw) (row_id row) now_ms then
        SkipRow ''stop attempt pending or in retry backoff''
      else case hm_get (sw_idle_since sw) (row_id row) of
          Some idle_since \<Rightarrow>
            if saturating_sub64 now_ms idle_since < threshold_ms then SkipRow ''idle for less than the cutoff''
            else Due
        | None \<Rightarrow> SkipRow ''idle clock not started'')"

fun next_due :: "sweeper \<Rightarrow> session_row list \<Rightarrow> sid set \<Rightarrow> u64 \<Rightarrow> u64 \<Rightarrow> sid option \<times> (sid \<times> string) list" where
  "next_due sw [] unread threshold_ms now_ms = (None, [])"
| "next_due sw (row # rows) unread threshold_ms now_ms =
     (case row_verdict sw unread threshold_ms now_ms row of
        Due \<Rightarrow> (Some (row_id row), [])
      | IgnoreRow \<Rightarrow> next_due sw rows unread threshold_ms now_ms
      | SkipRow reason \<Rightarrow>
          let (due, skips) = next_due sw rows unread threshold_ms now_ms
          in (due, (row_id row, reason) # skips))"

text \<open>A skip is reported once per reason change.\<close>

fun report_skips :: "(sid \<times> string) list \<Rightarrow> (sid, string) hmap \<Rightarrow> (sid, string) hmap \<times> sweep_event list" where
  "report_skips [] reasons = (reasons, [])"
| "report_skips ((i, reason) # skips) reasons =
     (if hm_get reasons i \<noteq> Some reason
      then let (reasons', events) = report_skips skips (hm_put i reason reasons)
           in (reasons', Skipped i reason # events)
      else report_skips skips reasons)"

text \<open>Draining the channel, observing the rows and dropping what is no longer listed.\<close>

definition drain_and_observe :: "session_row list \<Rightarrow> u64 \<Rightarrow> sweeper \<Rightarrow> sweeper" where
  "drain_and_observe rows now_ms sw =
     (let (issued, retry) = fold (apply_outcome now_ms) (sw_outcomes sw) (sw_issued sw, sw_retry_after sw);
          idle = fold (observe_row (sw_started_at sw) now_ms) rows (sw_idle_since sw);
          live = (\<lambda>i. i \<in> row_id ` set rows)
      in sw\<lparr>sw_outcomes := [],
            sw_idle_since := hm_retain (\<lambda>i _. live i) idle,
            sw_skip_reasons := hm_retain (\<lambda>i _. live i) (sw_skip_reasons sw),
            sw_issued := Set.filter live issued,
            sw_retry_after := hm_retain (\<lambda>i _. live i) retry\<rparr>)"

text \<open>The result: the next sweeper, the events, and the session a stop thread runs for.\<close>

definition sweeper_step ::
  "session_row list \<Rightarrow> sid set \<Rightarrow> u64 \<Rightarrow> u64 \<Rightarrow> bool \<Rightarrow> sweeper
     \<Rightarrow> sweeper \<times> sweep_event list \<times> sid option" where
  "sweeper_step rows unread minutes now_ms spawn_ok sw =
     (let drained = map outcome_event (sw_outcomes sw);
          sw1 = drain_and_observe rows now_ms sw
      in if \<not> worker_available (sw_issued sw1) \<or> minutes = 0 then (sw1, drained, None)
         else
           let (due, skips) = next_due sw1 rows unread (minutes * 60000) now_ms;
               (reasons, skipped) = report_skips skips (sw_skip_reasons sw1);
               sw2 = sw1\<lparr>sw_skip_reasons := reasons\<rparr>
           in case due of
                None \<Rightarrow> (sw2, drained @ skipped, None)
              | Some i \<Rightarrow>
                  (sw2\<lparr>sw_skip_reasons := hm_remove i reasons, sw_issued := insert i (sw_issued sw2)\<rparr>,
                   drained @ skipped, if spawn_ok then Some i else None))"

section \<open>Retention\<close>

definition KEPT_RECHECK_MS :: u64 where "KEPT_RECHECK_MS = 600000"

datatype retention_event = Removed sid | RemoveFailed sid string

text \<open>\<open>Ok(true)\<close>: removed; \<open>Ok(false)\<close>: left alone; \<open>Err\<close>: failed.\<close>

type_synonym removal = "sid \<times> (string + bool)"

datatype poll = Received "removal list" | PollEmpty | Disconnected

record retention =
  rt_in_flight :: bool
  rt_retry_after :: "(sid, u64) hmap"

fun note_removal :: "u64 \<Rightarrow> removal \<Rightarrow> (sid, u64) hmap \<times> retention_event list
    \<Rightarrow> (sid, u64) hmap \<times> retention_event list" where
  "note_removal now_ms (i, Inr True) (retry, events) = (retry, events @ [Removed i])"
| "note_removal now_ms (i, Inr False) (retry, events) = (hm_put i (now_ms + KEPT_RECHECK_MS) retry, events)"
| "note_removal now_ms (i, Inl e) (retry, events) =
     (hm_put i (now_ms + RETRY_DELAY_MS) retry, events @ [RemoveFailed i e])"

definition removal_blocked :: "(sid, u64) hmap \<Rightarrow> sid \<Rightarrow> u64 \<Rightarrow> bool" where
  "removal_blocked retry_after i now_ms =
     (case hm_get retry_after i of None \<Rightarrow> False | Some retry_at \<Rightarrow> \<not> now_ms \<ge> retry_at)"

definition due :: "sid list \<Rightarrow> (sid, u64) hmap \<Rightarrow> u64 \<Rightarrow> sid list" where
  "due expired retry_after now_ms = filter (\<lambda>i. \<not> removal_blocked retry_after i now_ms) expired"

text \<open>The result: the next state, the events, and the batch a removal thread runs for.\<close>

definition retention_step ::
  "sid list \<Rightarrow> u64 \<Rightarrow> poll \<Rightarrow> bool \<Rightarrow> retention \<Rightarrow> retention \<times> retention_event list \<times> sid list" where
  "retention_step expired now_ms poll spawn_ok rt =
     (if rt_in_flight rt \<and> poll = PollEmpty then (rt, [], [])
      else
        let (retry, events) =
              (if rt_in_flight rt
               then (case poll of Received outcomes \<Rightarrow> fold (note_removal now_ms) outcomes (rt_retry_after rt, [])
                     | _ \<Rightarrow> (rt_retry_after rt, []))
               else (rt_retry_after rt, []));
            retry1 = hm_retain (\<lambda>i _. i \<in> set expired) retry;
            batch = due expired retry1 now_ms
        in if batch = [] then (\<lparr>rt_in_flight = False, rt_retry_after = retry1\<rparr>, events, [])
           else (\<lparr>rt_in_flight = spawn_ok, rt_retry_after = retry1\<rparr>, events,
                 if spawn_ok then batch else []))"

section \<open>The shared backoff contract\<close>

locale retry_backoff =
  fixes blocked :: "(sid, u64) hmap \<Rightarrow> sid \<Rightarrow> u64 \<Rightarrow> bool"
    and note_failed :: "sid \<Rightarrow> u64 \<Rightarrow> (sid, u64) hmap \<Rightarrow> (sid, u64) hmap"
    and retry_at :: "u64 \<Rightarrow> u64"
  assumes blocked_iff: "blocked m i now \<longleftrightarrow> (\<exists>r. hm_get m i = Some r \<and> now < r)"
    and get_failed: "hm_get (note_failed i t m) k = (if k = i then Some (retry_at t) else hm_get m k)"
begin

lemma blocked_after_failure: "blocked (note_failed i t m) i now \<longleftrightarrow> now < retry_at t"
  by (simp add: blocked_iff get_failed)

lemma failure_is_local: "k \<noteq> i \<Longrightarrow> blocked (note_failed i t m) k now = blocked m k now"
  by (simp add: blocked_iff get_failed)

lemma unblocks: "\<exists>now0. \<forall>now \<ge> now0. \<not> blocked m i now"
  by (cases "hm_get m i") (auto simp: blocked_iff intro: exI [of _ "the (hm_get m i)"])

end

interpretation stop_backoff: retry_backoff "attempt_blocked {}"
  "\<lambda>i t. note_outcome \<lparr>oc_session_id = i, oc_error = Some e\<rparr> t"
  "\<lambda>t. saturating_add64 t RETRY_DELAY_MS" for e
  by unfold_locales (auto simp: attempt_blocked_def note_outcome_def split: option.splits)

interpretation removal_backoff: retry_backoff removal_blocked
  "\<lambda>i t m. fst (note_removal t (i, Inl e) (m, []))" "\<lambda>t. t + RETRY_DELAY_MS" for e
  by unfold_locales (auto simp: removal_blocked_def split: option.splits)

interpretation kept_backoff: retry_backoff removal_blocked
  "\<lambda>i t m. fst (note_removal t (i, Inr False) (m, []))" "\<lambda>t. t + KEPT_RECHECK_MS"
  by unfold_locales (auto simp: removal_blocked_def split: option.splits)

end
