(* ===== verification/Sweep_Props.thy ===== *)
theory Sweep_Props
  imports Auto_Stop
begin

text \<open>
  Properties of the auto-stop and retention sweeps: what a stop or a removal requires, that
  one stop runs at a time, that failures back off, and what a failed thread start does.
\<close>

section \<open>The sweeper's invariant\<close>

definition sweeper_inv :: "sweeper \<Rightarrow> bool" where
  "sweeper_inv sw \<longleftrightarrow>
     hm_wf (sw_idle_since sw) \<and> hm_wf (sw_retry_after sw)
   \<and> (\<forall>(i, t) \<in> set (sw_idle_since sw). sw_started_at sw \<le> t)
   \<and> (sw_issued sw = {} \<or> (\<exists>i. sw_issued sw = {i}))"

lemma sweeper_inv_default [simp]: "sweeper_inv (sweeper_default t)"
  by (simp add: sweeper_inv_def sweeper_default_def)

lemma observe_row_inv:
  assumes "hm_wf idle" and "\<forall>(i, t) \<in> set idle. started \<le> t"
  shows "hm_wf (observe_row started now row idle)
     \<and> (\<forall>(i, t) \<in> set (observe_row started now row idle). started \<le> t)"
proof -
  have keep: "started \<le> t" if "hm_get idle i = Some t" for i t
    using assms(2) hm_get_in_set [OF that] by blast
  show ?thesis
    using assms keep [of "row_id row"]
    by (auto simp: observe_row_def set_hm_put hm_wf_put hm_wf_filter hm_remove_def
        observed_idle_since_def Let_def le_max_iff_disj split: option.splits)
qed

lemma fold_observe_inv:
  "hm_wf idle \<Longrightarrow> \<forall>(i, t) \<in> set idle. started \<le> t \<Longrightarrow>
     hm_wf (fold (observe_row started now) rows idle)
     \<and> (\<forall>(i, t) \<in> set (fold (observe_row started now) rows idle). started \<le> t)"
proof (induction rows arbitrary: idle)
  case (Cons row rows)
  from observe_row_inv [OF Cons.prems, of now row] Cons.IH show ?case by fastforce
qed simp



lemma fold_outcomes_other:
  "i \<notin> oc_session_id ` set ocs \<Longrightarrow> hm_wf (snd st) \<Longrightarrow>
     hm_get (snd (fold (apply_outcome now) ocs st)) i = hm_get (snd st) i
     \<and> (i \<in> fst (fold (apply_outcome now) ocs st) \<longleftrightarrow> i \<in> fst st)"
proof (induction ocs arbitrary: st)
  case (Cons oc ocs)
  have "hm_wf (note_outcome oc now (snd st))"
    using Cons.prems(2) by (simp add: note_outcome_def hm_wf_put hm.invar_remove split: option.split)
  moreover have "hm_get (note_outcome oc now (snd st)) i = hm_get (snd st) i"
    using Cons.prems by (simp add: note_outcome_def hm.lookup_remove split: option.split)
  ultimately show ?case
    using Cons.IH [of "apply_outcome now oc st"] Cons.prems by (simp add: apply_outcome_def)
qed simp

lemma fold_outcomes_wf:
  "hm_wf (snd st) \<Longrightarrow> hm_wf (snd (fold (apply_outcome now) ocs st))
     \<and> fst (fold (apply_outcome now) ocs st) \<subseteq> fst st"
proof (induction ocs arbitrary: st)
  case (Cons oc ocs)
  have "hm_wf (snd (apply_outcome now oc st))"
    using Cons.prems
    by (simp add: apply_outcome_def note_outcome_def hm_wf_put hm.invar_remove split: option.split)
  from Cons.IH [OF this] show ?case by (auto simp: apply_outcome_def)
qed simp

text \<open>The drained sweeper, field by field.\<close>

lemma drain_fields:
  "sw_started_at (drain_and_observe rows now sw) = sw_started_at sw"
  "sw_outcomes (drain_and_observe rows now sw) = []"
  "sw_idle_since (drain_and_observe rows now sw) =
     hm_retain (\<lambda>i _. i \<in> row_id ` set rows) (fold (observe_row (sw_started_at sw) now) rows (sw_idle_since sw))"
  "sw_issued (drain_and_observe rows now sw) =
     {i \<in> fst (fold (apply_outcome now) (sw_outcomes sw) (sw_issued sw, sw_retry_after sw)). i \<in> row_id ` set rows}"
  "sw_retry_after (drain_and_observe rows now sw) = hm_retain (\<lambda>i _. i \<in> row_id ` set rows)
     (snd (fold (apply_outcome now) (sw_outcomes sw) (sw_issued sw, sw_retry_after sw)))"
  by (simp_all add: drain_and_observe_def case_prod_unfold Let_def)

lemma subset_singleton: "A \<subseteq> B \<Longrightarrow> B = {} \<or> (\<exists>i. B = {i}) \<Longrightarrow> A = {} \<or> (\<exists>i. A = {i})"
  by auto

lemma drain_inv:
  assumes "sweeper_inv sw"
  shows "sweeper_inv (drain_and_observe rows now sw)"
proof -
  let ?f = "fold (apply_outcome now) (sw_outcomes sw) (sw_issued sw, sw_retry_after sw)"
  have wf: "hm_wf (snd ?f)" and sub: "fst ?f \<subseteq> sw_issued sw"
    using fold_outcomes_wf [of "(sw_issued sw, sw_retry_after sw)"] assms by (simp_all add: sweeper_inv_def)
  have obs: "hm_wf (fold (observe_row (sw_started_at sw) now) rows (sw_idle_since sw))"
    "\<forall>(i, t) \<in> set (fold (observe_row (sw_started_at sw) now) rows (sw_idle_since sw)). sw_started_at sw \<le> t"
    using fold_observe_inv [of "sw_idle_since sw" "sw_started_at sw" now rows] assms
    by (simp_all add: sweeper_inv_def)
  have "sw_issued (drain_and_observe rows now sw) \<subseteq> sw_issued sw" using sub by (auto simp: drain_fields)
  from subset_singleton [OF this] wf obs assms show ?thesis
    by (auto simp: sweeper_inv_def drain_fields hm.invar_retain set_hm_retain)
qed

lemma next_due_Some:
  "fst (next_due sw rows unread threshold now) = Some i \<Longrightarrow>
     \<exists>row \<in> set rows. row_id row = i \<and> row_verdict sw unread threshold now row = Due"
  by (induction rows) (auto simp: case_prod_unfold Let_def split: verdict.splits)

lemma row_due:
  assumes "row_verdict sw unread threshold now row = Due"
  shows "row_resumable row \<and> \<not> row_pinned row \<and> \<not> attempt_blocked (sw_issued sw) (sw_retry_after sw) (row_id row) now
    \<and> (\<not> row_running row \<and> (\<exists>r. hm_get (sw_retry_after sw) (row_id row) = Some r \<and> r \<le> now)
       \<or> row_running row \<and> row_status row = StIdle
         \<and> (\<exists>t. hm_get (sw_idle_since sw) (row_id row) = Some t \<and> threshold \<le> now - t))"
  using assms
  by (auto simp: row_verdict_def stopped_retry_due_def attempt_blocked_def saturating_sub64_def
      split: if_splits option.splits)

text \<open>The step, by its three outcomes.\<close>

lemma step_cases:
  assumes "sweeper_step rows unread minutes now spawn_ok sw = (sw', events, spawned)"
  defines "sw1 \<equiv> drain_and_observe rows now sw"
  shows "spawned = None \<and> sw_issued sw' = sw_issued sw1 \<and> sw_retry_after sw' = sw_retry_after sw1
       \<and> sw_idle_since sw' = sw_idle_since sw1 \<and> sw_started_at sw' = sw_started_at sw1 \<and> sw_outcomes sw' = []
     \<or> (\<exists>i. fst (next_due sw1 rows unread (minutes * 60000) now) = Some i \<and> sw_issued sw1 = {} \<and> minutes \<noteq> 0
          \<and> spawned = (if spawn_ok then Some i else None) \<and> sw_issued sw' = {i}
          \<and> sw_retry_after sw' = sw_retry_after sw1 \<and> sw_idle_since sw' = sw_idle_since sw1
          \<and> sw_started_at sw' = sw_started_at sw1 \<and> sw_outcomes sw' = [])"
proof -
  have out: "sw_outcomes sw1 = []" by (simp add: sw1_def drain_fields)
  show ?thesis
    using assms(1) out unfolding sweeper_step_def Let_def sw1_def [symmetric] worker_available_def
    by (auto simp: case_prod_unfold split: if_splits option.splits)
qed

section \<open>Runs of sweeps\<close>

text \<open>Consecutive sweeps with no outcome arriving in between, and the stops they start.\<close>

fun run_sweeps ::
  "(session_row list \<times> sid set \<times> u64 \<times> u64 \<times> bool) list \<Rightarrow> sweeper \<Rightarrow> sweeper \<times> sid list" where
  "run_sweeps [] sw = (sw, [])"
| "run_sweeps ((rows, unread, minutes, now, spawn_ok) # ticks) sw =
     (let (sw1, _, spawned) = sweeper_step rows unread minutes now spawn_ok sw;
          (sw2, stops) = run_sweeps ticks sw1
      in (sw2, (case spawned of None \<Rightarrow> stops | Some i \<Rightarrow> i # stops)))"

lemma step_inv:
  assumes "sweeper_step rows unread minutes now spawn_ok sw = (sw', events, spawned)" and "sweeper_inv sw"
  shows "sweeper_inv sw'"
  using step_cases [OF assms(1)] drain_inv [OF assms(2), of rows now]
  by (elim disjE exE conjE) (simp_all add: sweeper_inv_def)

lemma drain_keeps_retry:
  assumes "sweeper_inv sw" and "i \<in> row_id ` set rows" and "i \<notin> oc_session_id ` set (sw_outcomes sw)"
  shows "hm_get (sw_retry_after (drain_and_observe rows now sw)) i = hm_get (sw_retry_after sw) i"
    and "i \<in> sw_issued (drain_and_observe rows now sw) \<longleftrightarrow> i \<in> sw_issued sw"
proof -
  let ?f = "fold (apply_outcome now) (sw_outcomes sw) (sw_issued sw, sw_retry_after sw)"
  have f: "hm_get (snd ?f) i = hm_get (sw_retry_after sw) i" "i \<in> fst ?f \<longleftrightarrow> i \<in> sw_issued sw" "hm_wf (snd ?f)"
    using fold_outcomes_other [OF assms(3), of "(sw_issued sw, sw_retry_after sw)" now]
      fold_outcomes_wf [of "(sw_issued sw, sw_retry_after sw)" now] assms(1)
    by (simp_all add: sweeper_inv_def)
  show "hm_get (sw_retry_after (drain_and_observe rows now sw)) i = hm_get (sw_retry_after sw) i"
    using f assms(2) by (simp add: drain_fields hm.lookup_retain split: option.split)
  show "i \<in> sw_issued (drain_and_observe rows now sw) \<longleftrightarrow> i \<in> sw_issued sw"
    using f assms(2) by (simp add: drain_fields)
qed

lemma run_sweeps_backoff:
  assumes "sweeper_inv sw" and "sw_outcomes sw = []" and "hm_get (sw_retry_after sw) i = Some r"
    and "\<forall>(rows, unread, minutes, now, ok) \<in> set ticks. i \<in> row_id ` set rows \<and> now < r"
  shows "i \<notin> set (snd (run_sweeps ticks sw))"
  using assms
proof (induction ticks arbitrary: sw)
  case (Cons tick ticks)
  obtain rows unread minutes now ok where [simp]: "tick = (rows, unread, minutes, now, ok)" by (cases tick)
  obtain sw1 events spawned where st: "sweeper_step rows unread minutes now ok sw = (sw1, events, spawned)"
    using prod_cases3 by blast
  have live: "i \<in> row_id ` set rows" and early: "now < r" using Cons.prems(4) by auto
  let ?d = "drain_and_observe rows now sw"
  have kept: "hm_get (sw_retry_after ?d) i = Some r"
    using drain_keeps_retry(1) [OF Cons.prems(1) live] Cons.prems(2,3) by simp
  have "spawned \<noteq> Some i"
    using step_cases [OF st] kept early
    by (auto dest!: next_due_Some row_due simp: attempt_blocked_def split: if_splits)
  moreover have "sw_outcomes sw1 = []" "hm_get (sw_retry_after sw1) i = Some r"
    using step_cases [OF st] kept by auto
  then have "i \<notin> set (snd (run_sweeps ticks sw1))"
    using Cons.IH [OF step_inv [OF st Cons.prems(1)]] Cons.prems(4) by simp
  ultimately show ?case by (auto simp: st case_prod_unfold Let_def split: option.split)
qed simp


section \<open>Properties\<close>













lemma sweeper_inv_outcomes [simp]: "sweeper_inv (sw\<lparr>sw_outcomes := os\<rparr>) = sweeper_inv sw"
  by (simp add: sweeper_inv_def)

















text \<open>One stop at a time: every sweep keeps the sweeper's invariant (at most one issued
  session); a stop is started only when no issued stop is outstanding and becomes the one
  issued session; and while an issued session is still listed and its outcome has not
  arrived, no stop is started.\<close>

lemma one_stop_at_a_time:
  assumes "sweeper_step rows unread minutes now spawn_ok sw = (sw', events, spawned)" and "sweeper_inv sw"
  shows "sweeper_inv sw'
     \<and> (\<forall>i. spawned = Some i \<longrightarrow> sw_issued sw' = {i})
     \<and> (\<forall>j \<in> sw_issued sw. j \<in> row_id ` set rows \<and> j \<notin> oc_session_id ` set (sw_outcomes sw) \<longrightarrow> spawned = None)"
proof -
  have "spawned = None"
    if j: "j \<in> sw_issued sw" "j \<in> row_id ` set rows" "j \<notin> oc_session_id ` set (sw_outcomes sw)" for j
    using step_cases [OF assms(1)] drain_keeps_retry(2) [OF assms(2) j(2,3), of now] j(1) by auto
  then show ?thesis
    using step_inv [OF assms] step_cases [OF assms(1)] by (auto split: if_splits)
qed

text \<open>A failed stop backs off for a minute: once the sweep at time \<open>t\<close> has taken the
  failure of session \<open>i\<close> from the channel, no sweep before \<open>t + 60 s\<close> starts a stop of
  \<open>i\<close>, however many sweeps run and whatever else they do, as long as \<open>i\<close> stays listed.\<close>

lemma failed_stop_backs_off:
  assumes inv: "sweeper_inv sw" and out: "sw_outcomes sw = [\<lparr>oc_session_id = i, oc_error = Some e\<rparr>]"
    and live: "i \<in> row_id ` set rows" and range: "t + RETRY_DELAY_MS \<le> u64_max"
    and step: "sweeper_step rows unread minutes t spawn_ok sw = (sw', events, spawned)"
    and ticks: "\<forall>(rows, unread, minutes, now, ok) \<in> set ticks. i \<in> row_id ` set rows \<and> now < t + RETRY_DELAY_MS"
  shows "spawned \<noteq> Some i \<and> i \<notin> set (snd (run_sweeps ticks sw'))"
proof -
  let ?d = "drain_and_observe rows t sw"
  have wf: "hm_wf (sw_retry_after sw)" using inv by (simp add: sweeper_inv_def)
  have r: "hm_get (sw_retry_after ?d) i = Some (t + RETRY_DELAY_MS)"
    using live range
    by (simp add: drain_fields out apply_outcome_def note_outcome_def hm.lookup_retain hm_wf_put wf
        saturating_add64_exact)
  have "spawned \<noteq> Some i"
    using step_cases [OF step] r
    by (auto dest!: next_due_Some row_due simp: attempt_blocked_def RETRY_DELAY_MS_def split: if_splits)
  moreover have "sw_outcomes sw' = []" "hm_get (sw_retry_after sw') i = Some (t + RETRY_DELAY_MS)"
    using step_cases [OF step] r by auto
  ultimately show ?thesis using run_sweeps_backoff [OF step_inv [OF step inv] _ _ ticks] by blast
qed

definition failed_sweeper :: sweeper where
  "failed_sweeper = (sweeper_default 7)\<lparr>sw_outcomes := [\<lparr>oc_session_id = ''a'', oc_error = Some ''busy''\<rparr>]\<rparr>"




text \<open>Retention removes expired sessions only, one batch at a time: a batch is started
  only when no earlier batch is outstanding, it holds exactly the expired sessions that are
  not backing off, the failures just received included, and when the thread cannot be
  started nothing is outstanding, so the next sweep tries again.\<close>

lemma retention_batch_sound:
  assumes "retention_step expired now poll spawn_ok rt = (rt', events, batch)"
  shows "(batch \<noteq> [] \<longrightarrow> \<not> (rt_in_flight rt \<and> poll = PollEmpty) \<and> rt_in_flight rt'
        \<and> batch = due expired (rt_retry_after rt') now)
     \<and> set batch \<subseteq> set expired
     \<and> (\<not> spawn_ok \<and> \<not> (rt_in_flight rt \<and> poll = PollEmpty) \<longrightarrow> \<not> rt_in_flight rt')"
  using assms
  by (auto simp: retention_step_def due_def case_prod_unfold Let_def split: if_splits)

end
