(* ===== verification/Approvals.thy ===== *)
theory Approvals
  imports Json
begin

text \<open>
  Model of \<open>crates/unpeel-serve/src/approvals.rs\<close>: the hub of blocking approval requests and
  the grants it persists. A requester thread runs \<open>request\<close>, which takes the hub's lock twice
  and waits on its own channel in between; \<open>answer\<close> runs on another thread. The interleavings
  are the step relation \<open>hub_step\<close>: queueing, answering, the end of the wait (by a message or
  by the timeout) and the final removal are separate steps. The channel of a request is its
  mailbox; its receiving end lives until \<open>request\<close> returns. The hub's lock is never
  poisoned in the model. Grants are functions on the root object of \<open>app-state.json\<close>, which
  \<open>app_state::edit\<close> reads and writes under its own lock.
\<close>

section \<open>The hub\<close>

record pending_approval =
  pa_id :: string
  pa_kind :: string
  pa_title :: string
  pa_body :: string
  pa_caller_session_id :: string
  pa_target_session_id :: "string option"
  pa_requested_at :: u64

record approval_hub =
  hub_pending :: "pending_approval list"
  hub_generation :: u64

definition hub_default :: approval_hub where
  "hub_default = \<lparr>hub_pending = [], hub_generation = 0\<rparr>"

datatype approval_outcome = Approved | Declined | ApprovalTimedOut

definition approved :: "approval_outcome \<Rightarrow> bool" where
  "approved o1 \<longleftrightarrow> o1 = Approved"

text \<open>\<open>fetch_add(1)\<close> wraps around.\<close>

definition bump :: "approval_hub \<Rightarrow> approval_hub" where
  "bump h = h\<lparr>hub_generation := (hub_generation h + 1) mod 2 ^ 64\<rparr>"

definition hub_push :: "pending_approval \<Rightarrow> approval_hub \<Rightarrow> approval_hub" where
  "hub_push p h = bump (h\<lparr>hub_pending := hub_pending h @ [p]\<rparr>)"

definition recv_outcome :: "bool option \<Rightarrow> approval_outcome" where
  "recv_outcome received =
     (case received of Some True \<Rightarrow> Approved | Some False \<Rightarrow> Declined | None \<Rightarrow> ApprovalTimedOut)"

definition hub_cleanup :: "string \<Rightarrow> approval_hub \<Rightarrow> approval_hub" where
  "hub_cleanup i h =
     (let kept = filter (\<lambda>p. pa_id p \<noteq> i) (hub_pending h);
          h1 = h\<lparr>hub_pending := kept\<rparr>
      in if length kept \<noteq> length (hub_pending h) then bump h1 else h1)"

text \<open>\<open>position\<close> and \<open>remove(index)\<close>: the first entry with the id.\<close>

fun take_entry :: "string \<Rightarrow> pending_approval list \<Rightarrow> (pending_approval \<times> pending_approval list) option" where
  "take_entry i [] = None"
| "take_entry i (p # ps) =
     (if pa_id p = i then Some (p, ps)
      else map_option (\<lambda>(q, qs). (q, p # qs)) (take_entry i ps))"

text \<open>\<open>receiver_alive\<close> tells whether the requester still holds its receiver. The result is the
  returned value, and whether the decision was put into the requester's channel.\<close>

definition hub_answer :: "string \<Rightarrow> bool \<Rightarrow> approval_hub \<Rightarrow> approval_hub \<times> bool" where
  "hub_answer i receiver_alive h =
     (case take_entry i (hub_pending h) of
        None \<Rightarrow> (h, False)
      | Some (entry, rest) \<Rightarrow> (bump (h\<lparr>hub_pending := rest\<rparr>), receiver_alive))"

definition hub_front :: "approval_hub \<Rightarrow> (string \<times> string) option" where
  "hub_front h = (case hub_pending h of [] \<Rightarrow> None | p # _ \<Rightarrow> Some (pa_id p, pa_title p))"

definition pending_json :: "pending_approval \<Rightarrow> json" where
  "pending_json p =
     (let m = jmap_of [(''id'', JStr (pa_id p)), (''kind'', JStr (pa_kind p)), (''title'', JStr (pa_title p)),
            (''body'', JStr (pa_body p)), (''callerSessionID'', JStr (pa_caller_session_id p)),
            (''requestedAtUnixMs'', JNum (PosInt (pa_requested_at p)))]
      in JObj (case pa_target_session_id p of None \<Rightarrow> m
               | Some target \<Rightarrow> jmap_insert ''targetSessionID'' (JStr target) m))"

definition list_json :: "approval_hub \<Rightarrow> json list" where
  "list_json h = map pending_json (hub_pending h)"

definition decorate_bootstrap :: "approval_hub \<Rightarrow> json \<Rightarrow> json" where
  "decorate_bootstrap h bootstrap =
     (case as_object bootstrap of None \<Rightarrow> bootstrap
      | Some object \<Rightarrow> JObj (jmap_insert ''pendingApprovals'' (JArr (list_json h)) object))"

section \<open>Interleaved requests\<close>

datatype request_phase = Waiting "bool option" | Decided "bool option" approval_outcome | Returned approval_outcome

text \<open>The log holds the answers given: id, decision, returned value.\<close>

record hub_system =
  sys_hub :: approval_hub
  sys_requests :: "string \<Rightarrow> request_phase option"
  sys_log :: "(string \<times> bool \<times> bool) list"

definition sys_init :: hub_system where
  "sys_init = \<lparr>sys_hub = hub_default, sys_requests = (\<lambda>_. None), sys_log = []\<rparr>"

fun receiver_alive :: "request_phase option \<Rightarrow> bool" where
  "receiver_alive (Some (Waiting _)) = True"
| "receiver_alive (Some (Decided _ _)) = True"
| "receiver_alive _ = False"

fun post :: "bool \<Rightarrow> request_phase \<Rightarrow> request_phase" where
  "post b (Waiting None) = Waiting (Some b)"
| "post b (Decided None o1) = Decided (Some b) o1"
| "post b ph = ph"

inductive hub_step :: "hub_system \<Rightarrow> hub_system \<Rightarrow> bool" where
  queue: "sys_requests s (pa_id p) = None \<Longrightarrow>
    hub_step s (s\<lparr>sys_hub := hub_push p (sys_hub s), sys_requests := (sys_requests s)(pa_id p \<mapsto> Waiting None)\<rparr>)"
| answer: "hub_answer i (receiver_alive (sys_requests s i)) (sys_hub s) = (h, ok) \<Longrightarrow>
    hub_step s (s\<lparr>sys_hub := h,
      sys_requests := (if ok then (sys_requests s)(i := map_option (post decision) (sys_requests s i)) else sys_requests s),
      sys_log := sys_log s @ [(i, decision, ok)]\<rparr>)"
| receive: "sys_requests s i = Some (Waiting (Some b)) \<Longrightarrow>
    hub_step s (s\<lparr>sys_requests := (sys_requests s)(i \<mapsto> Decided (Some b) (recv_outcome (Some b)))\<rparr>)"
| expire: "sys_requests s i = Some (Waiting None) \<Longrightarrow>
    hub_step s (s\<lparr>sys_requests := (sys_requests s)(i \<mapsto> Decided None (recv_outcome None))\<rparr>)"
| clean: "sys_requests s i = Some (Decided m o1) \<Longrightarrow>
    hub_step s (s\<lparr>sys_hub := hub_cleanup i (sys_hub s), sys_requests := (sys_requests s)(i \<mapsto> Returned o1)\<rparr>)"

inductive hub_reachable :: "hub_system \<Rightarrow> bool" where
  init: "hub_reachable sys_init"
| step: "hub_reachable s \<Longrightarrow> hub_step s s' \<Longrightarrow> hub_reachable s'"

section \<open>Grants\<close>

text \<open>\<open>entry(key).or_insert_with(default)\<close>: the value, and the map holding it.\<close>

definition or_insert :: "string \<Rightarrow> json \<Rightarrow> json_map \<Rightarrow> json \<times> json_map" where
  "or_insert key d m = (case map_of m key of Some v \<Rightarrow> (v, m) | None \<Rightarrow> (d, jmap_insert key d m))"

definition push_unique :: "string \<Rightarrow> json list \<Rightarrow> json list" where
  "push_unique s xs = (if list_ex (\<lambda>v. as_str v = Some s) xs then xs else xs @ [JStr s])"

definition grant_pair :: "string \<Rightarrow> string \<Rightarrow> string \<Rightarrow> json_map \<Rightarrow> json_map" where
  "grant_pair key caller target root =
     (let (mv, root1) = or_insert key (JObj []) root
      in case as_object mv of
           None \<Rightarrow> root1
         | Some m \<Rightarrow>
             let (lv, m1) = or_insert caller (JArr []) m
             in case as_array lv of
                  None \<Rightarrow> jmap_insert key (JObj m1) root1
                | Some xs \<Rightarrow> jmap_insert key (JObj (jmap_insert caller (JArr (push_unique target xs)) m1)) root1)"

definition grant_caller :: "string \<Rightarrow> string \<Rightarrow> json_map \<Rightarrow> json_map" where
  "grant_caller key caller root =
     (let (lv, root1) = or_insert key (JArr []) root
      in case as_array lv of
           None \<Rightarrow> root1
         | Some xs \<Rightarrow> jmap_insert key (JArr (push_unique caller xs)) root1)"

definition persist_grant :: "string \<Rightarrow> string \<Rightarrow> string option \<Rightarrow> json_map \<Rightarrow> json_map" where
  "persist_grant kind caller target root =
     (if kind = ''write'' then
        (case target of None \<Rightarrow> root | Some t \<Rightarrow> grant_pair ''mcp_write_approvals'' caller t root)
      else if kind = ''browser'' then grant_caller ''browser_approvals'' caller root
      else if kind = ''computer'' then grant_caller ''computer_approvals'' caller root
      else if kind = ''app-open'' then
        (case target of None \<Rightarrow> root | Some t \<Rightarrow> grant_pair ''mcp_app_open_approvals'' caller t root)
      else root)"

definition has_str :: "string \<Rightarrow> json option \<Rightarrow> bool" where
  "has_str s v = (case Option.bind v as_array of None \<Rightarrow> False | Some xs \<Rightarrow> list_ex (\<lambda>v. as_str v = Some s) xs)"

text \<open>\<open>state\<close> is the parsed document, \<open>None\<close> when it cannot be read or parsed.\<close>

definition already_granted :: "string \<Rightarrow> string \<Rightarrow> string option \<Rightarrow> json option \<Rightarrow> bool" where
  "already_granted kind caller target state =
     (case state of None \<Rightarrow> False
      | Some st \<Rightarrow>
          if kind = ''write'' then
            (case target of None \<Rightarrow> False
             | Some t \<Rightarrow> has_str t (Option.bind (jget ''mcp_write_approvals'' st) (jget caller)))
          else if kind = ''browser'' then has_str caller (jget ''browser_approvals'' st)
          else if kind = ''computer'' then has_str caller (jget ''computer_approvals'' st)
          else if kind = ''app-open'' then
            (case target of None \<Rightarrow> False
             | Some t \<Rightarrow> has_str t (Option.bind (jget ''mcp_app_open_approvals'' st) (jget caller)))
          else False)"

end
