(* ===== verification/Approvals_Props.thy ===== *)
theory Approvals_Props
  imports Approvals
begin

text \<open>
  Properties of the approval hub under every interleaving of requesters and answers, and of
  the persisted grants.
\<close>

section \<open>The hub's invariant\<close>

definition answers :: "hub_system \<Rightarrow> string \<Rightarrow> (string \<times> bool \<times> bool) list" where
  "answers s i = filter (\<lambda>(j, _, ok). j = i \<and> ok) (sys_log s)"

fun queued :: "request_phase option \<Rightarrow> bool" where
  "queued (Some (Waiting None)) = True"
| "queued (Some (Decided None _)) = True"
| "queued _ = False"

fun mail :: "string \<Rightarrow> bool option \<Rightarrow> (string \<times> bool \<times> bool) list" where
  "mail i None = []"
| "mail i (Some b) = [(i, b, True)]"

fun phase_ok :: "string \<Rightarrow> request_phase option \<Rightarrow> (string \<times> bool \<times> bool) list \<Rightarrow> bool" where
  "phase_ok i None as = (as = [])"
| "phase_ok i (Some (Waiting m)) as = (as = mail i m)"
| "phase_ok i (Some (Decided m o1)) as = (as = mail i m \<and> (o1 = recv_outcome m \<or> o1 = ApprovalTimedOut))"
| "phase_ok i (Some (Returned o1)) as =
     (\<exists>m. as = mail i m \<and> (o1 = recv_outcome m \<or> o1 = ApprovalTimedOut))"

definition hub_inv :: "hub_system \<Rightarrow> bool" where
  "hub_inv s \<longleftrightarrow> distinct (map pa_id (hub_pending (sys_hub s)))
     \<and> (\<forall>p \<in> set (hub_pending (sys_hub s)). queued (sys_requests s (pa_id p)))
     \<and> (\<forall>i. phase_ok i (sys_requests s i) (answers s i))"

inductive_cases hub_stepE: "hub_step s s'"

lemma bump_pending [simp]: "hub_pending (bump h) = hub_pending h"
  by (simp add: bump_def)

lemma push_pending [simp]: "hub_pending (hub_push p h) = hub_pending h @ [p]"
  by (simp add: hub_push_def)

lemma cleanup_pending [simp]: "hub_pending (hub_cleanup i h) = filter (\<lambda>p. pa_id p \<noteq> i) (hub_pending h)"
  by (simp add: hub_cleanup_def Let_def)

lemma take_entry_Some:
  "take_entry i ps = Some (p, rest) \<Longrightarrow>
     pa_id p = i \<and> p \<in> set ps \<and> set rest \<subseteq> set ps
     \<and> (distinct (map pa_id ps) \<longrightarrow> distinct (map pa_id rest) \<and> i \<notin> pa_id ` set rest)"
proof (induction ps arbitrary: rest)
  case (Cons q ps)
  show ?case
  proof (cases "pa_id q = i")
    case True
    then show ?thesis using Cons.prems by auto
  next
    case False
    then obtain rest' where r: "take_entry i ps = Some (p, rest')" "rest = q # rest'" using Cons.prems by auto
    note ih = Cons.IH [OF r(1)]
    have "pa_id q \<notin> pa_id ` set rest'" if "distinct (map pa_id (q # ps))" using that ih by auto
    then show ?thesis using ih r(2) False by auto
  qed
qed simp

lemma hub_inv_init: "hub_inv sys_init"
  by (simp add: hub_inv_def sys_init_def hub_default_def answers_def)

lemma mail_queued: "queued ph \<Longrightarrow> phase_ok i ph as \<Longrightarrow> as = [] \<and> receiver_alive ph"
  by (cases ph rule: queued.cases) auto

lemma post_ok:
  "queued ph \<Longrightarrow> phase_ok i ph as \<Longrightarrow> phase_ok i (map_option (post d) ph) (as @ [(i, d, True)])"
  by (cases ph rule: queued.cases) (auto simp: recv_outcome_def)

lemma hub_inv_answer:
  assumes inv: "hub_inv s" and a: "hub_answer i (receiver_alive (sys_requests s i)) (sys_hub s) = (h, ok)"
  shows "hub_inv (s\<lparr>sys_hub := h,
      sys_requests := (if ok then (sys_requests s)(i := map_option (post d) (sys_requests s i)) else sys_requests s),
      sys_log := sys_log s @ [(i, d, ok)]\<rparr>)" (is "hub_inv ?s'")
proof (cases "take_entry i (hub_pending (sys_hub s))")
  case None
  then have "h = sys_hub s" "\<not> ok" using a by (auto simp: hub_answer_def)
  then show ?thesis using inv by (simp add: hub_inv_def answers_def)
next
  case (Some pr)
  obtain p rest where pr: "pr = (p, rest)" by (cases pr)
  note t = take_entry_Some [OF Some [unfolded pr]]
  have q: "queued (sys_requests s i)" and ph: "phase_ok j (sys_requests s j) (answers s j)" for j
    using inv t by (auto simp: hub_inv_def)
  have h: "h = bump ((sys_hub s)\<lparr>hub_pending := rest\<rparr>)" and ok: ok
    using a Some pr mail_queued [OF q ph] by (auto simp: hub_answer_def)
  have d: "distinct (map pa_id rest)" and ni: "i \<notin> pa_id ` set rest" using inv t by (auto simp: hub_inv_def)
  have "\<forall>p \<in> set rest. queued (((sys_requests s)(i := x)) (pa_id p))" for x
  proof
    fix q assume q: "q \<in> set rest"
    then have "pa_id q \<noteq> i" using ni by auto
    then show "queued (((sys_requests s)(i := x)) (pa_id q))" using inv t q by (auto simp: hub_inv_def)
  qed
  moreover have "phase_ok j (sys_requests ?s' j) (answers ?s' j)" for j
    using ph [of j] post_ok [OF q ph, of d] ok by (auto simp: answers_def)
  ultimately show ?thesis using d h ok by (simp add: hub_inv_def)
qed

lemma hub_inv_queue:
  assumes inv: "hub_inv s" and new: "sys_requests s (pa_id p) = None"
  shows "hub_inv (s\<lparr>sys_hub := hub_push p (sys_hub s), sys_requests := (sys_requests s)(pa_id p \<mapsto> Waiting None)\<rparr>)"
proof -
  have fresh: "pa_id p \<notin> pa_id ` set (hub_pending (sys_hub s))" using inv new by (force simp: hub_inv_def)
  have "answers s (pa_id p) = []" using inv new by (simp add: hub_inv_def) (metis phase_ok.simps(1))
  then show ?thesis using inv fresh by (auto simp: hub_inv_def answers_def)
qed

lemma hub_inv_phase: "hub_inv s \<Longrightarrow> phase_ok i (sys_requests s i) (answers s i)"
  by (simp add: hub_inv_def)

lemma hub_inv_step: "hub_step s s' \<Longrightarrow> hub_inv s \<Longrightarrow> hub_inv s'"
proof (erule hub_stepE, goal_cases)
  case (1 p)
  then show ?case using hub_inv_queue by simp
next
  case (2 i h ok d)
  then show ?case using hub_inv_answer by simp
next
  case (3 i b)
  then have "answers s i = mail i (Some b)" using hub_inv_phase [of s i] by simp
  then show ?case using 3 by (fastforce simp: hub_inv_def answers_def)
next
  case (4 i)
  then have "answers s i = mail i None" using hub_inv_phase [of s i] by simp
  then show ?case using 4 by (auto simp: hub_inv_def answers_def)
next
  case (5 i m o1)
  then have "\<exists>m. answers s i = mail i m \<and> (o1 = recv_outcome m \<or> o1 = ApprovalTimedOut)"
    using hub_inv_phase [of s i] by auto
  then show ?case using 5 by (auto simp: hub_inv_def answers_def distinct_map_filter)
qed

lemma reachable_hub_inv: "hub_reachable s \<Longrightarrow> hub_inv s"
  by (induction rule: hub_reachable.induct) (simp_all add: hub_inv_init hub_inv_step)

section \<open>Properties of the hub\<close>

text \<open>C7. An approval is the user's and the first answer wins, in every interleaving: at most one
  answer per request succeeds; a request returns approved only after a successful yes for
  that very request and declined only after a successful no; and a request that returned has
  left the queue.\<close>

theorem approval_needs_answer:
  assumes "hub_reachable s"
  shows "length (answers s i) \<le> 1
     \<and> (sys_requests s i = Some (Returned Approved) \<longrightarrow> answers s i = [(i, True, True)])
     \<and> (sys_requests s i = Some (Returned Declined) \<longrightarrow> answers s i = [(i, False, True)])
     \<and> (\<forall>o1. sys_requests s i = Some (Returned o1) \<longrightarrow> i \<notin> pa_id ` set (hub_pending (sys_hub s)))"
proof -
  have inv: "hub_inv s" by (rule reachable_hub_inv [OF assms])
  then have ph: "phase_ok i (sys_requests s i) (answers s i)" by (simp add: hub_inv_def)
  have "length (mail i m) \<le> 1" for m by (cases m) simp_all
  then have "length (answers s i) \<le> 1" using ph by (cases "(i, sys_requests s i, answers s i)" rule: phase_ok.cases) auto
  moreover have "answers s i = [(i, b, True)]"
    if r: "sys_requests s i = Some (Returned (if b then Approved else Declined))" for b
  proof -
    obtain m where m: "answers s i = mail i m" "(if b then Approved else Declined) = recv_outcome m"
      using ph r by (auto split: if_splits)
    then have "m = Some b" by (cases m) (auto simp: recv_outcome_def split: if_splits bool.splits)
    then show ?thesis using m by simp
  qed
  from this [of True] this [of False] have "sys_requests s i = Some (Returned Approved) \<longrightarrow> answers s i = [(i, True, True)]"
    "sys_requests s i = Some (Returned Declined) \<longrightarrow> answers s i = [(i, False, True)]" by simp_all
  moreover have "\<forall>o1. sys_requests s i = Some (Returned o1) \<longrightarrow> i \<notin> pa_id ` set (hub_pending (sys_hub s))"
    using inv by (force simp: hub_inv_def)
  ultimately show ?thesis by blast
qed

definition ask :: pending_approval where
  "ask = \<lparr>pa_id = ''r'', pa_kind = ''write'', pa_title = ''t'', pa_body = [], pa_caller_session_id = ''c'',
     pa_target_session_id = None, pa_requested_at = 1\<rparr>"

definition asked :: hub_system where
  "asked = sys_init\<lparr>sys_hub := hub_push ask hub_default, sys_requests := [''r'' \<mapsto> Waiting None]\<rparr>"

lemma asked_reachable: "hub_reachable asked"
  using hub_reachable.step [OF hub_reachable.init hub_step.queue [of sys_init ask]]
  by (simp add: asked_def sys_init_def ask_def)

theorem approval_needs_answer_witness: "length (answers asked ''r'') \<le> 1"
  using approval_needs_answer [OF asked_reachable] by blast

definition late_answer :: hub_system where
  "late_answer = asked\<lparr>sys_hub := fst (hub_answer ''r'' True (sys_hub asked)),
     sys_requests := [''r'' \<mapsto> Decided (Some True) ApprovalTimedOut], sys_log := [(''r'', True, True)]\<rparr>"

lemma late_answer_reachable: "hub_reachable late_answer"
proof -
  let ?e = "asked\<lparr>sys_requests := (sys_requests asked)(''r'' \<mapsto> Decided None (recv_outcome None))\<rparr>"
  have e: "hub_reachable ?e"
    by (rule hub_reachable.step [OF asked_reachable hub_step.expire]) (simp add: asked_def)
  have a: "hub_answer ''r'' (receiver_alive (sys_requests ?e ''r'')) (sys_hub ?e)
      = (fst (hub_answer ''r'' True (sys_hub asked)), True)"
    by (simp add: hub_answer_def asked_def hub_push_def hub_default_def ask_def)
  from hub_step.answer [OF a, of True] have "hub_step ?e late_answer"
    by (simp add: late_answer_def asked_def sys_init_def recv_outcome_def fun_upd_def cong: if_cong)
  then show ?thesis using e hub_reachable.step by blast
qed

text \<open>An answer can be accepted too late: there is an interleaving in which the answer of a
  user returns true although the request has timed out and returns as such, because the answer
  comes between the end of the wait and the removal of the entry.\<close>

lemma late_answer_accepted:
  "\<exists>s. hub_reachable s \<and> sys_requests s ''r'' = Some (Returned ApprovalTimedOut) \<and> (''r'', True, True) \<in> set (sys_log s)"
proof -
  have "sys_requests late_answer ''r'' = Some (Decided (Some True) ApprovalTimedOut)" by (simp add: late_answer_def)
  from hub_step.clean [OF this] have "hub_reachable (late_answer\<lparr>sys_hub := hub_cleanup ''r'' (sys_hub late_answer),
      sys_requests := (sys_requests late_answer)(''r'' \<mapsto> Returned ApprovalTimedOut)\<rparr>)"
    by (rule hub_reachable.step [OF late_answer_reachable])
  then show ?thesis by (intro exI conjI) (assumption, simp_all add: late_answer_def)
qed

section \<open>Grants\<close>

lemma or_insert_get: "or_insert key d m = (v, m1) \<Longrightarrow> map_of m1 = (map_of m)(key \<mapsto> v)"
  by (auto simp: or_insert_def fun_eq_iff split: option.splits)

lemma push_unique_has: "list_ex (\<lambda>v. as_str v = Some s) (push_unique t xs) \<longleftrightarrow>
    list_ex (\<lambda>v. as_str v = Some s) xs \<or> s = t"
  by (auto simp: push_unique_def list_ex_iff)

text \<open>The shape the writer expects: an absent value or one of the right kind.\<close>

definition pair_shape :: "string \<Rightarrow> string \<Rightarrow> json_map \<Rightarrow> bool" where
  "pair_shape key caller root =
     (case map_of root key of None \<Rightarrow> True
      | Some (JObj m) \<Rightarrow> (case map_of m caller of None \<Rightarrow> True | Some v \<Rightarrow> as_array v \<noteq> None)
      | Some _ \<Rightarrow> False)"

definition caller_shape :: "string \<Rightarrow> json_map \<Rightarrow> bool" where
  "caller_shape key root = (case map_of root key of None \<Rightarrow> True | Some v \<Rightarrow> as_array v \<noteq> None)"

lemma or_insert_array:
  assumes "caller_shape key m"
  shows "\<exists>xs m1. or_insert key (JArr []) m = (JArr xs, m1)
     \<and> (\<forall>t. has_str t (map_of m key) \<longleftrightarrow> list_ex (\<lambda>v. as_str v = Some t) xs)"
proof (cases "map_of m key")
  case None
  then show ?thesis by (simp add: or_insert_def has_str_def)
next
  case (Some v)
  then obtain xs where "v = JArr xs" using assms by (cases v) (simp_all add: caller_shape_def)
  then show ?thesis using Some by (simp add: or_insert_def has_str_def)
qed

lemma grant_caller_get:
  assumes "caller_shape key root"
  shows "\<exists>xs. map_of (grant_caller key caller root) = (map_of root)(key \<mapsto> JArr (push_unique caller xs))
     \<and> (\<forall>t. has_str t (map_of root key) \<longleftrightarrow> list_ex (\<lambda>v. as_str v = Some t) xs)"
proof -
  obtain xs root1 where xs: "or_insert key (JArr []) root = (JArr xs, root1)"
    and has: "\<forall>t. has_str t (map_of root key) \<longleftrightarrow> list_ex (\<lambda>v. as_str v = Some t) xs"
    using or_insert_array [OF assms] by blast
  then show ?thesis using or_insert_get [OF xs] by (auto simp: grant_caller_def)
qed

lemma grant_caller_has:
  assumes "caller_shape key root"
  shows "has_str t (map_of (grant_caller key caller root) key')
     \<longleftrightarrow> has_str t (map_of root key') \<or> (key' = key \<and> t = caller)"
proof -
  obtain xs where "map_of (grant_caller key caller root) = (map_of root)(key \<mapsto> JArr (push_unique caller xs))"
    and "has_str t (map_of root key) \<longleftrightarrow> list_ex (\<lambda>v. as_str v = Some t) xs"
    using grant_caller_get [OF assms] by blast
  then show ?thesis by (auto simp: has_str_def push_unique_has)
qed

text \<open>The grant of a pair is the grant of the target in the caller's list.\<close>

lemma grant_pair_get:
  assumes "pair_shape key caller root"
  shows "\<exists>m. map_of (grant_pair key caller target root) = (map_of root)(key \<mapsto> JObj (grant_caller caller target m))
     \<and> caller_shape caller m \<and> (\<forall>c. Option.bind (map_of root key) (jget c) = map_of m c)"
proof -
  obtain m root1 where m: "or_insert key (JObj []) root = (JObj m, root1)" and sh: "caller_shape caller m"
    and old: "\<forall>c. Option.bind (map_of root key) (jget c) = map_of m c"
    using assms
    by (auto simp: pair_shape_def caller_shape_def or_insert_def split: option.splits json.splits)
  obtain xs m1 where xs: "or_insert caller (JArr []) m = (JArr xs, m1)" using or_insert_array [OF sh] by blast
  have "map_of (grant_pair key caller target root) = (map_of root)(key \<mapsto> JObj (grant_caller caller target m))"
    using or_insert_get [OF m] by (simp add: grant_pair_def grant_caller_def m xs)
  then show ?thesis using sh old by blast
qed

lemma grant_pair_has:
  assumes "pair_shape key caller root"
  shows "has_str t (Option.bind (map_of (grant_pair key caller target root) key') (jget c))
     \<longleftrightarrow> has_str t (Option.bind (map_of root key') (jget c)) \<or> (key' = key \<and> c = caller \<and> t = target)"
proof -
  obtain m where m: "map_of (grant_pair key caller target root) = (map_of root)(key \<mapsto> JObj (grant_caller caller target m))"
    "caller_shape caller m" "\<forall>c. Option.bind (map_of root key) (jget c) = map_of m c"
    using grant_pair_get [OF assms] by blast
  show ?thesis using grant_caller_has [OF m(2), of t target c] m(1,3) by auto
qed

lemma grant_pair_other: "key' \<noteq> key \<Longrightarrow> map_of (grant_pair key caller target root) key' = map_of root key'"
  by (auto simp: grant_pair_def or_insert_def Let_def split: option.splits)

lemma grant_caller_other: "key' \<noteq> key \<Longrightarrow> map_of (grant_caller key caller root) key' = map_of root key'"
  by (auto simp: grant_caller_def or_insert_def Let_def split: option.splits)

section \<open>Properties of the grants\<close>

text \<open>The part of the document a grant of a kind writes, in the expected shape.\<close>

definition grant_shape :: "string \<Rightarrow> string \<Rightarrow> json_map \<Rightarrow> bool" where
  "grant_shape kind caller root =
     (if kind = ''write'' then pair_shape ''mcp_write_approvals'' caller root
      else if kind = ''app-open'' then pair_shape ''mcp_app_open_approvals'' caller root
      else if kind = ''browser'' then caller_shape ''browser_approvals'' root
      else if kind = ''computer'' then caller_shape ''computer_approvals'' root else True)"

text \<open>Whether a persisted grant covers a later check.\<close>

definition covers :: "string \<Rightarrow> string \<Rightarrow> string option \<Rightarrow> string \<Rightarrow> string \<Rightarrow> string option \<Rightarrow> bool" where
  "covers kind caller target k c t \<longleftrightarrow> k = kind \<and> c = caller
     \<and> (kind \<in> {''write'', ''app-open''} \<and> target \<noteq> None \<and> t = target \<or> kind \<in> {''browser'', ''computer''})"

text \<open>Persisting a grant allows exactly what was granted: after it, a check succeeds if and
  only if it succeeded before or it is covered by the grant, that is the same kind and caller
  and, for writes and app opens, the same target. A grant never widens to another caller,
  target or kind.\<close>

lemma grant_exact:
  assumes "grant_shape kind caller root"
  shows "already_granted k c t (Some (JObj (persist_grant kind caller target root)))
     \<longleftrightarrow> already_granted k c t (Some (JObj root)) \<or> covers kind caller target k c t"
proof -
  consider (pair) key tg where "target = Some tg" "persist_grant kind caller target root = grant_pair key caller tg root"
      "kind = ''write'' \<and> key = ''mcp_write_approvals'' \<or> kind = ''app-open'' \<and> key = ''mcp_app_open_approvals''"
    | (caller) key where "persist_grant kind caller target root = grant_caller key caller root"
      "kind = ''browser'' \<and> key = ''browser_approvals'' \<or> kind = ''computer'' \<and> key = ''computer_approvals''"
    | (none) "persist_grant kind caller target root = root" "\<not> covers kind caller target k c t"
    by (cases target; cases "kind = ''write''"; cases "kind = ''app-open''"; cases "kind = ''browser''"; cases "kind = ''computer''")
       (auto simp: persist_grant_def covers_def)
  then show ?thesis
  proof cases
    case pair
    then have "pair_shape key caller root" using assms by (auto simp: grant_shape_def)
    with pair(3) show ?thesis
      unfolding pair(2)
      by (elim disjE conjE)
         (simp_all add: already_granted_def covers_def pair(1) grant_pair_has grant_pair_other split: option.split)
  next
    case caller
    then have "caller_shape key root" using assms by (auto simp: grant_shape_def)
    with caller(2) show ?thesis
      unfolding caller(1)
      by (elim disjE conjE)
         (simp_all add: already_granted_def covers_def grant_caller_has grant_caller_other split: option.split)
  next
    case none
    then show ?thesis by simp
  qed
qed

end
