(* ===== verification/Relay_Wire.thy ===== *)
theory Relay_Wire
  imports Json "HOL-Library.Countable"
begin

text \<open>
  Model of \<open>crates/unpeel-core/src/relay_wire.rs\<close>, the request/response envelope that every
  Controller transport carries. The JSON printer and parser (\<open>to_string\<close>, \<open>from_slice\<close>) and
  the base64 engine (\<open>b64\<close>, \<open>unb64\<close>) are library functions and parameters; what the
  codecs rely on is stated by \<open>json_faithful\<close> and \<open>base64_faithful\<close>. An error is the
  message of the source; the failed assertion of the bounded encoder is \<open>None\<close>.
\<close>

section \<open>Frame budget\<close>

definition MAX_FRAME_BYTES :: nat where "MAX_FRAME_BYTES = 512 * 1024"
definition AEAD_OVERHEAD_BYTES :: nat where "AEAD_OVERHEAD_BYTES = 8 + 16"
definition MAX_SEALED_BYTES :: nat where "MAX_SEALED_BYTES = MAX_FRAME_BYTES"
definition MAX_PLAINTEXT_BYTES :: nat where "MAX_PLAINTEXT_BYTES = MAX_SEALED_BYTES - AEAD_OVERHEAD_BYTES"

definition sealed_frame_fits :: "nat \<Rightarrow> bool" where
  "sealed_frame_fits byte_count \<longleftrightarrow> byte_count \<le> MAX_SEALED_BYTES"

definition plaintext_frame_fits :: "nat \<Rightarrow> bool" where
  "plaintext_frame_fits byte_count \<longleftrightarrow> byte_count \<le> MAX_PLAINTEXT_BYTES"

section \<open>Requests\<close>

record tunnel_request =
  rq_id :: u64
  rq_method :: string
  rq_path :: string
  rq_query :: "(string \<times> string) list"
  rq_auth :: "string option"
  rq_content_type :: "string option"
  rq_body :: string

fun opt_str :: "string option \<Rightarrow> json" where
  "opt_str None = JNull"
| "opt_str (Some s) = JStr s"

definition body_json :: "(string \<Rightarrow> string) \<Rightarrow> string \<Rightarrow> json" where
  "body_json b64 body = (if body = [] then JNull else JStr (b64 body))"

definition tunnel_request_json :: "(string \<Rightarrow> string) \<Rightarrow> tunnel_request \<Rightarrow> json" where
  "tunnel_request_json b64 r =
     jobj [(''id'', JNum (PosInt (rq_id r))), (''method'', JStr (rq_method r)), (''path'', JStr (rq_path r)),
       (''query'', JObj (jmap_of (map (\<lambda>(k, v). (k, JStr v)) (rq_query r)))),
       (''auth'', opt_str (rq_auth r)), (''contentType'', opt_str (rq_content_type r)),
       (''bodyB64'', body_json b64 (rq_body r))]"

definition encode_tunnel_request ::
  "(json \<Rightarrow> string) \<Rightarrow> (string \<Rightarrow> string) \<Rightarrow> tunnel_request \<Rightarrow> string" where
  "encode_tunnel_request to_string b64 request = to_string (tunnel_request_json b64 request)"

definition query_pair :: "string \<times> json \<Rightarrow> string + (string \<times> string)" where
  "query_pair kv = (case as_str (snd kv) of
     Some s \<Rightarrow> Inr (fst kv, s) | None \<Rightarrow> Inl ''query values must be strings'')"

definition strict_query :: "json_map \<Rightarrow> string + (string \<times> string) list" where
  "strict_query object =
     (case map_of object ''query'' of
        None \<Rightarrow> Inr []
      | Some JNull \<Rightarrow> Inr []
      | Some (JObj query) \<Rightarrow> collect_results query_pair query
      | Some _ \<Rightarrow> Inl ''query must be an object'')"

definition optional_string :: "json_map \<Rightarrow> string \<Rightarrow> string + string option" where
  "optional_string object key =
     (case map_of object key of
        None \<Rightarrow> Inr None
      | Some JNull \<Rightarrow> Inr None
      | Some (JStr value) \<Rightarrow> Inr (Some value)
      | Some _ \<Rightarrow> Inl (key @ '' must be a string''))"

definition required_u64 :: "json_map \<Rightarrow> string \<Rightarrow> string + u64" where
  "required_u64 object key = ok_or (key @ '' must be an unsigned integer'') (Option.bind (map_of object key) as_u64)"

definition required_str :: "json_map \<Rightarrow> string \<Rightarrow> string + string" where
  "required_str object key = ok_or (key @ '' must be a string'') (Option.bind (map_of object key) as_str)"

definition strict_body :: "(string \<Rightarrow> string option) \<Rightarrow> string option \<Rightarrow> string + string" where
  "strict_body unb64 value =
     (case value of None \<Rightarrow> Inr [] | Some v \<Rightarrow> ok_or ''bodyB64 is not valid base64'' (unb64 v))"

definition parse_tunnel_request_strict ::
  "(string \<Rightarrow> json option) \<Rightarrow> (string \<Rightarrow> string option) \<Rightarrow> string \<Rightarrow> string + tunnel_request" where
  "parse_tunnel_request_strict from_slice unb64 plaintext =
     rbind (ok_or ''request is not valid JSON'' (from_slice plaintext)) (\<lambda>value.
     rbind (ok_or ''request envelope must be an object'' (as_object value)) (\<lambda>object.
     rbind (strict_query object) (\<lambda>query.
     rbind (optional_string object ''bodyB64'') (\<lambda>encoded.
     rbind (strict_body unb64 encoded) (\<lambda>body.
     rbind (required_u64 object ''id'') (\<lambda>i.
     rbind (required_str object ''method'') (\<lambda>method.
     rbind (required_str object ''path'') (\<lambda>path.
     rbind (optional_string object ''auth'') (\<lambda>auth.
     rbind (optional_string object ''contentType'') (\<lambda>content_type.
       Inr \<lparr>rq_id = i, rq_method = method, rq_path = path, rq_query = query, rq_auth = auth,
            rq_content_type = content_type, rq_body = body\<rparr>))))))))))"

text \<open>The permissive dialect of shipped Relay clients.\<close>

definition lenient_query :: "json \<Rightarrow> (string \<times> string) list" where
  "lenient_query value =
     (case Option.bind (jget ''query'' value) as_object of
        None \<Rightarrow> []
      | Some object \<Rightarrow>
          List.map_filter (\<lambda>(k, v). map_option (\<lambda>s. (k, s)) (as_str v)) object)"

definition parse_tunnel_request ::
  "(string \<Rightarrow> json option) \<Rightarrow> (string \<Rightarrow> string option) \<Rightarrow> string \<Rightarrow> tunnel_request option" where
  "parse_tunnel_request from_slice unb64 plaintext =
     Option.bind (from_slice plaintext) (\<lambda>value.
     Option.bind (jget_u64 ''id'' value) (\<lambda>i.
     Option.bind (jget_str ''method'' value) (\<lambda>method.
     Option.bind (jget_str ''path'' value) (\<lambda>path.
       Some \<lparr>rq_id = i, rq_method = method, rq_path = path, rq_query = lenient_query value,
             rq_auth = jget_str ''auth'' value, rq_content_type = jget_str ''contentType'' value,
             rq_body = (case Option.bind (jget_str ''bodyB64'' value) unb64 of None \<Rightarrow> [] | Some b \<Rightarrow> b)\<rparr>))))"

section \<open>Responses\<close>

record tunnel_response =
  rs_id :: u64
  rs_status :: u16
  rs_body :: string

definition response_body :: "(string \<Rightarrow> string option) \<Rightarrow> json_map \<Rightarrow> string + string" where
  "response_body unb64 object =
     (case map_of object ''bodyB64'' of
        None \<Rightarrow> Inr []
      | Some JNull \<Rightarrow> Inr []
      | Some (JStr value) \<Rightarrow> ok_or ''bodyB64 is not valid base64'' (unb64 value)
      | Some _ \<Rightarrow> Inl ''bodyB64 must be a string'')"

definition try_u16 :: "u64 \<Rightarrow> u16 option" where
  "try_u16 n = (if n < 2 ^ 16 then Some n else None)"

definition parse_tunnel_response ::
  "(string \<Rightarrow> json option) \<Rightarrow> (string \<Rightarrow> string option) \<Rightarrow> string \<Rightarrow> string + tunnel_response" where
  "parse_tunnel_response from_slice unb64 plaintext =
     rbind (ok_or ''response is not valid JSON'' (from_slice plaintext)) (\<lambda>value.
     rbind (ok_or ''response envelope must be an object'' (as_object value)) (\<lambda>object.
     rbind (response_body unb64 object) (\<lambda>body.
     rbind (ok_or ''status must be an unsigned 16-bit integer''
              (Option.bind (Option.bind (map_of object ''status'') as_u64) try_u16)) (\<lambda>status.
     rbind (required_u64 object ''id'') (\<lambda>i.
       Inr \<lparr>rs_id = i, rs_status = status, rs_body = body\<rparr>)))))"

definition tunnel_response_json :: "(string \<Rightarrow> string) \<Rightarrow> u64 \<Rightarrow> u16 \<Rightarrow> string \<Rightarrow> json" where
  "tunnel_response_json b64 i status body =
     jobj [(''id'', JNum (PosInt i)), (''status'', JNum (PosInt status)), (''bodyB64'', body_json b64 body)]"

definition encode_tunnel_response ::
  "(json \<Rightarrow> string) \<Rightarrow> (string \<Rightarrow> string) \<Rightarrow> u64 \<Rightarrow> u16 \<Rightarrow> string \<Rightarrow> string" where
  "encode_tunnel_response to_string b64 i status body = to_string (tunnel_response_json b64 i status body)"

definition TOO_LARGE_BODY :: string where
  "TOO_LARGE_BODY = ''{\"error\":\"response too large\"}''"

definition encode_bounded_tunnel_response ::
  "(json \<Rightarrow> string) \<Rightarrow> (string \<Rightarrow> string) \<Rightarrow> u64 \<Rightarrow> u16 \<Rightarrow> string \<Rightarrow> string option" where
  "encode_bounded_tunnel_response to_string b64 i status body =
     (let response = encode_tunnel_response to_string b64 i status body
      in if plaintext_frame_fits (length response) then Some response
         else
           let replacement = encode_tunnel_response to_string b64 i 413 TOO_LARGE_BODY
           in if plaintext_frame_fits (length replacement) then Some replacement else None)"

section \<open>What the codecs rely on\<close>

text \<open>The JSON values a message can carry: integers in their machine range, UTF-8 strings,
  objects as the sorted map holds them. Floating-point numbers never occur in a message.\<close>

fun num_wf :: "jnumber \<Rightarrow> bool" where
  "num_wf (PosInt n) = (n \<le> u64_max)"
| "num_wf (NegInt i) = (- (2 ^ 63) \<le> i \<and> i < 0)"
| "num_wf (Float _) = False"

fun json_wf :: "json \<Rightarrow> bool" where
  "json_wf JNull = True"
| "json_wf (JBool b) = True"
| "json_wf (JNum n) = num_wf n"
| "json_wf (JStr s) = utf8_valid s"
| "json_wf (JArr xs) = list_all json_wf xs"
| "json_wf (JObj m) = (jmap_wf m \<and> list_all (\<lambda>kv. utf8_valid (fst kv) \<and> json_wf (snd kv)) m)"

text \<open>Arrays and objects nest at most \<open>n\<close> deep; the parser gives up at a depth of 128.\<close>

fun json_nests :: "nat \<Rightarrow> json \<Rightarrow> bool" where
  "json_nests n (JArr xs) = (case n of 0 \<Rightarrow> False | Suc m \<Rightarrow> list_all (json_nests m) xs)"
| "json_nests n (JObj kvs) = (case n of 0 \<Rightarrow> False | Suc m \<Rightarrow> list_all (\<lambda>kv. json_nests m (snd kv)) kvs)"
| "json_nests n v = True"

definition json_faithful :: "(json \<Rightarrow> string) \<Rightarrow> (string \<Rightarrow> json option) \<Rightarrow> bool" where
  "json_faithful to_string from_slice \<longleftrightarrow>
     (\<forall>v. json_wf v \<and> json_nests 127 v \<longrightarrow> from_slice (to_string v) = Some v)"

definition base64_faithful :: "(string \<Rightarrow> string) \<Rightarrow> (string \<Rightarrow> string option) \<Rightarrow> bool" where
  "base64_faithful b64 unb64 \<longleftrightarrow> (\<forall>bs. unb64 (b64 bs) = Some bs \<and> utf8_valid (b64 bs))"

text \<open>A Rust value of the request type: strings are UTF-8, the id is 64 bits wide.\<close>

definition request_wf :: "tunnel_request \<Rightarrow> bool" where
  "request_wf r \<longleftrightarrow> rq_id r \<le> u64_max \<and> utf8_valid (rq_method r) \<and> utf8_valid (rq_path r)
     \<and> list_all (\<lambda>(k, v). utf8_valid k \<and> utf8_valid v) (rq_query r)
     \<and> (case rq_auth r of None \<Rightarrow> True | Some s \<Rightarrow> utf8_valid s)
     \<and> (case rq_content_type r of None \<Rightarrow> True | Some s \<Rightarrow> utf8_valid s)"

text \<open>The query a receiver sees: sorted by key, the last of repeated keys.\<close>

definition normal_query :: "(string \<times> string) list \<Rightarrow> (string \<times> string) list" where
  "normal_query q = map (\<lambda>(k, v). (k, case v of JStr s \<Rightarrow> s | _ \<Rightarrow> [])) (jmap_of (map (\<lambda>(k, v). (k, JStr v)) q))"

end
