(* ===== verification/Relay_Wire_Props.thy ===== *)
theory Relay_Wire_Props
  imports Relay_Wire
begin

text \<open>Round trips and the frame budget of the transport envelope.\<close>

lemma set_jmap_insert: "set (jmap_insert k v m) \<subseteq> insert (k, v) (set m)"
  by (induction m) (auto split: if_splits)

lemma set_fold_jmap_insert: "set (fold (\<lambda>(k, v) m. jmap_insert k v m) kvs m) \<subseteq> set kvs \<union> set m"
proof (induction kvs arbitrary: m)
  case (Cons kv kvs)
  obtain k v where [simp]: "kv = (k, v)" by (cases kv)
  have "set (fold (\<lambda>(k, v) m. jmap_insert k v m) kvs (jmap_insert k v m))
      \<subseteq> set kvs \<union> insert (k, v) (set m)"
    using Cons.IH [of "jmap_insert k v m"] set_jmap_insert [of k v m] by blast
  then show ?case by auto
qed simp

lemma set_jmap_of: "set (jmap_of kvs) \<subseteq> set kvs"
  unfolding jmap_of_def using set_fold_jmap_insert [of kvs "[]"] by simp

lemma json_wf_jobj:
  "list_all (\<lambda>kv. utf8_valid (fst kv) \<and> json_wf (snd kv)) kvs \<Longrightarrow> json_wf (JObj (jmap_of kvs))"
  using set_jmap_of [of kvs] by (auto simp: list_all_iff)

lemma json_nests_mono: "json_nests m v \<Longrightarrow> m \<le> n \<Longrightarrow> json_nests n v"
proof (induction m v arbitrary: n rule: json_nests.induct)
  case (1 m xs)
  obtain m' where m: "m = Suc m'" using "1.prems"(1) by (cases m) simp_all
  obtain n' where n: "n = Suc n'" "m' \<le> n'" using "1.prems"(2) m by (cases n) simp_all
  show ?case using "1.IH" [OF m _ _ n(2)] "1.prems"(1) m n(1) by (simp add: list_all_iff)
next
  case (2 m kvs)
  obtain m' where m: "m = Suc m'" using "2.prems"(1) by (cases m) simp_all
  obtain n' where n: "n = Suc n'" "m' \<le> n'" using "2.prems"(2) m by (cases n) simp_all
  show ?case using "2.IH" [OF m _ _ n(2)] "2.prems"(1) m n(1) by (simp add: list_all_iff)
qed simp_all

lemma json_nests_jobj: "list_all (\<lambda>kv. json_nests n (snd kv)) kvs \<Longrightarrow> json_nests (Suc n) (JObj (jmap_of kvs))"
  using set_jmap_of [of kvs] by (auto simp: list_all_iff)

lemma json_nests_message: "list_all (\<lambda>kv. json_nests 3 (snd kv)) kvs \<Longrightarrow> json_nests 4 (JObj (jmap_of kvs))"
  using json_nests_jobj [of 3 kvs] by simp

text \<open>What a faithful parser reads back: the messages nest at most four deep.\<close>

lemma json_read_back:
  assumes "json_faithful to_string from_slice" and "json_wf v" and "json_nests 4 v"
  shows "from_slice (to_string v) = Some v"
  using assms json_nests_mono [of 4 v 127] by (simp add: json_faithful_def)

abbreviation query_json :: "(string \<times> string) list \<Rightarrow> json_map" where
  "query_json q \<equiv> jmap_of (map (\<lambda>(k, v). (k, JStr v)) q)"

lemma query_json_strings: "x \<in> set (query_json q) \<Longrightarrow> \<exists>k s. x = (k, JStr s)"
  using set_jmap_of [of "map (\<lambda>(k, v). (k, JStr v)) q"] by auto

lemma query_pair_normal:
  "collect_results query_pair (query_json q) = Inr (normal_query q)"
  unfolding normal_query_def
proof (rule collect_results_Inr_map)
  fix x assume "x \<in> set (query_json q)"
  then show "query_pair x = Inr (case x of (k, v) \<Rightarrow> (k, case v of JStr s \<Rightarrow> s | _ \<Rightarrow> []))"
    by (auto simp: query_pair_def dest!: query_json_strings)
qed

lemma map_filter_all:
  "(\<And>x. x \<in> set xs \<Longrightarrow> f x = Some (g x)) \<Longrightarrow> List.map_filter f xs = map g xs"
  by (induction xs) (simp_all add: map_filter_simps)

lemma lenient_normal:
  "List.map_filter (\<lambda>(k, v). map_option (\<lambda>s. (k, s)) (as_str v)) (query_json q) = normal_query q"
  unfolding normal_query_def
proof (rule map_filter_all)
  fix x assume "x \<in> set (query_json q)"
  then show "(case x of (k, v) \<Rightarrow> map_option (\<lambda>s. (k, s)) (as_str v))
      = Some (case x of (k, v) \<Rightarrow> (k, case v of JStr s \<Rightarrow> s | _ \<Rightarrow> []))"
    by (auto dest!: query_json_strings)
qed

text \<open>The query a receiver sees has sorted distinct keys and maps each key to the last value
  the sender gave it.\<close>

lemma normal_query_map: "map_of (normal_query q) k = map_of (rev q) k"
proof -
  have "map_of (normal_query q) k
      = map_option (\<lambda>v. case v of JStr s \<Rightarrow> s | _ \<Rightarrow> []) (map_of (query_json q) k)"
    by (simp add: normal_query_def map_of_map)
  also have "\<dots> = map_option (\<lambda>v. case v of JStr s \<Rightarrow> s | _ \<Rightarrow> []) (map_option JStr (map_of (rev q) k))"
    by (simp add: map_of_jmap_of rev_map map_of_map)
  finally show ?thesis by (simp add: option.map_comp comp_def option.map_ident)
qed

lemma normal_query_sorted: "sorted_wrt (<) (map fst (normal_query q))"
  using jmap_wf_of [of "map (\<lambda>(k, v). (k, JStr v)) q"]
  by (simp add: normal_query_def jmap_wf_def comp_def case_prod_unfold)

lemma opt_str_wf: "json_wf (opt_str s) \<longleftrightarrow> (case s of None \<Rightarrow> True | Some t \<Rightarrow> utf8_valid t)"
  by (cases s) simp_all

lemma utf8_ascii: "list_all (\<lambda>c. byte_val c < 128) s \<Longrightarrow> utf8_valid s"
  by (induction s) simp_all

lemma request_json_wf:
  assumes "request_wf r" and "base64_faithful b64 unb64"
  shows "json_wf (tunnel_request_json b64 r)"
proof -
  have "list_all (\<lambda>kv. utf8_valid (fst kv) \<and> json_wf (snd kv)) (map (\<lambda>(k, v). (k, JStr v)) (rq_query r))"
    using assms(1) by (auto simp: request_wf_def list_all_iff)
  note q = json_wf_jobj [OF this]
  show ?thesis
    unfolding tunnel_request_json_def jobj_def
    using assms
    by (intro json_wf_jobj)
       (simp add: request_wf_def q [simplified] opt_str_wf body_json_def base64_faithful_def byte_val_def)
qed

lemma tunnel_json_nests: "json_nests 4 (tunnel_request_json b64 r)" "json_nests 4 (tunnel_response_json b64 i status body)"
proof -
  have opt: "json_nests n (opt_str s)" "json_nests n (body_json b64 bs)" for n s bs
    by (cases s) (simp_all add: body_json_def)
  have "json_nests (Suc 0) (JObj (query_json (rq_query r)))"
    by (rule json_nests_jobj) (auto simp: list_all_iff)
  then have q: "json_nests 3 (JObj (query_json (rq_query r)))" by (rule json_nests_mono) simp
  show "json_nests 4 (tunnel_request_json b64 r)" "json_nests 4 (tunnel_response_json b64 i status body)"
    unfolding tunnel_request_json_def tunnel_response_json_def jobj_def
    using q by (intro json_nests_message; simp add: opt del: json_nests.simps(2))+
qed

lemma response_json_wf:
  assumes "i \<le> u64_max" and "status < 2 ^ 16" and "base64_faithful b64 unb64"
  shows "json_wf (tunnel_response_json b64 i status body)"
proof -
  have "status \<le> u64_max" using assms(2) by (simp add: u64_max_def)
  then show ?thesis
    unfolding tunnel_response_json_def jobj_def
    using assms
    by (intro json_wf_jobj) (simp add: body_json_def base64_faithful_def byte_val_def)
qed

lemma map_of_request_json:
  "as_object (tunnel_request_json b64 r) = Some m \<Longrightarrow> map_of m = map_of
     [(''id'', JNum (PosInt (rq_id r))), (''method'', JStr (rq_method r)), (''path'', JStr (rq_path r)),
       (''query'', JObj (query_json (rq_query r))),
       (''auth'', opt_str (rq_auth r)), (''contentType'', opt_str (rq_content_type r)),
       (''bodyB64'', body_json b64 (rq_body r))]"
  unfolding tunnel_request_json_def as_object_jobj option.inject
  by (erule subst) (rule map_of_jmap_of_distinct, simp)

lemma body_json_cases:
  "(case body_json b64 body of JNull \<Rightarrow> a | JStr s \<Rightarrow> f s | _ \<Rightarrow> c) = (if body = [] then a else f (b64 body))"
  by (simp add: body_json_def)

text \<open>A request survives the envelope: what either decoder reads from an encoded request
  is that request, with the query in its canonical form, which has sorted distinct keys and
  maps each key to the last value it was given.\<close>

lemma tunnel_request_round_trip:
  assumes "json_faithful to_string from_slice" and "base64_faithful b64 unb64" and "request_wf r"
  shows "\<exists>q. sorted_wrt (<) (map fst q) \<and> (\<forall>k. map_of q k = map_of (rev (rq_query r)) k)
     \<and> parse_tunnel_request_strict from_slice unb64 (encode_tunnel_request to_string b64 r) = Inr (r\<lparr>rq_query := q\<rparr>)
     \<and> parse_tunnel_request from_slice unb64 (encode_tunnel_request to_string b64 r) = Some (r\<lparr>rq_query := q\<rparr>)"
proof -
  let ?q = "normal_query (rq_query r)"
  have json: "from_slice (encode_tunnel_request to_string b64 r) = Some (tunnel_request_json b64 r)"
    unfolding encode_tunnel_request_def by (rule json_read_back [OF assms(1) request_json_wf [OF assms(3,2)] tunnel_json_nests(1)])
  obtain m where m: "as_object (tunnel_request_json b64 r) = Some m" by (simp add: tunnel_request_json_def)
  note mo = map_of_request_json [OF m]
  have body: "unb64 (b64 bs) = Some bs" for bs using assms(2) by (simp add: base64_faithful_def)
  have opt: "(case opt_str s of JNull \<Rightarrow> Inr None | JStr v \<Rightarrow> Inr (Some v) | _ \<Rightarrow> Inl e) = Inr s"
    "as_str (opt_str s) = s" for s :: "string option" and e :: string
    by (cases s; simp)+
  have "parse_tunnel_request_strict from_slice unb64 (encode_tunnel_request to_string b64 r) = Inr (r\<lparr>rq_query := ?q\<rparr>)"
    by (cases "rq_body r = []")
       (simp_all add: parse_tunnel_request_strict_def json m strict_query_def optional_string_def mo
         required_u64_def required_str_def query_pair_normal opt body_json_def strict_body_def body)
  moreover have "parse_tunnel_request from_slice unb64 (encode_tunnel_request to_string b64 r) = Some (r\<lparr>rq_query := ?q\<rparr>)"
    by (cases "rq_body r = []")
       (simp_all add: parse_tunnel_request_def json jget_u64_def jget_str_def jget_def m mo lenient_query_def
         lenient_normal opt body_json_def body)
  ultimately show ?thesis
    using normal_query_map normal_query_sorted by blast
qed

text \<open>The bounded encoder always answers within the frame budget, however large the
  response is, and the receiver gets a correlated answer: the response itself whenever it fits, and otherwise status
  413 under the same request id. The one size it relies on is that of the 413 message.\<close>

definition bounded_answer :: "(json \<Rightarrow> string) \<Rightarrow> (string \<Rightarrow> string) \<Rightarrow> u64 \<Rightarrow> u16 \<Rightarrow> string \<Rightarrow> u16 \<times> string" where
  "bounded_answer to_string b64 i status body =
     (if length (to_string (tunnel_response_json b64 i status body)) + AEAD_OVERHEAD_BYTES \<le> MAX_FRAME_BYTES
      then (status, body) else (413, TOO_LARGE_BODY))"

lemma bounded_response_fits:
  assumes "json_faithful to_string from_slice" and "base64_faithful b64 unb64"
    and "i \<le> u64_max" and "status < 2 ^ 16"
    and "length (to_string (tunnel_response_json b64 i 413 TOO_LARGE_BODY)) \<le> MAX_PLAINTEXT_BYTES"
  shows "\<exists>bytes. encode_bounded_tunnel_response to_string b64 i status body = Some bytes
     \<and> length bytes + AEAD_OVERHEAD_BYTES \<le> MAX_FRAME_BYTES
     \<and> parse_tunnel_response from_slice unb64 bytes
       = Inr \<lparr>rs_id = i, rs_status = fst (bounded_answer to_string b64 i status body),
              rs_body = snd (bounded_answer to_string b64 i status body)\<rparr>"
proof -
  have body: "unb64 (b64 bs) = Some bs" for bs using assms(2) by (simp add: base64_faithful_def)
  have parse: "parse_tunnel_response from_slice unb64 (encode_tunnel_response to_string b64 i st bd)
      = Inr \<lparr>rs_id = i, rs_status = st, rs_body = bd\<rparr>" if "st < 2 ^ 16" for st bd
  proof -
    have json: "from_slice (encode_tunnel_response to_string b64 i st bd) = Some (tunnel_response_json b64 i st bd)"
      unfolding encode_tunnel_response_def
      by (rule json_read_back [OF assms(1) response_json_wf [OF assms(3) that assms(2)] tunnel_json_nests(2)])
    have "map_of (jmap_of [(''id'', JNum (PosInt i)), (''status'', JNum (PosInt st)), (''bodyB64'', body_json b64 bd)])
        = map_of [(''id'', JNum (PosInt i)), (''status'', JNum (PosInt st)), (''bodyB64'', body_json b64 bd)]"
      by (rule map_of_jmap_of_distinct) simp
    with that show ?thesis
      unfolding parse_tunnel_response_def json
      by (simp add: tunnel_response_json_def response_body_def body_json_def body required_u64_def try_u16_def)
  qed
  have "MAX_PLAINTEXT_BYTES + AEAD_OVERHEAD_BYTES = MAX_FRAME_BYTES"
    by (simp add: MAX_PLAINTEXT_BYTES_def MAX_SEALED_BYTES_def MAX_FRAME_BYTES_def AEAD_OVERHEAD_BYTES_def)
  then show ?thesis
    using assms(4,5) parse [of status body] parse [of 413 TOO_LARGE_BODY]
    by (auto simp: encode_bounded_tunnel_response_def encode_tunnel_response_def plaintext_frame_fits_def bounded_answer_def Let_def)
qed

section \<open>Witnesses\<close>

instance jnumber :: countable
  by countable_datatype

instance json :: countable
  by countable_datatype

text \<open>A concrete printer and parser that satisfy the hypotheses: a value is written as its
  number in unary, a chosen one as the empty text.\<close>

definition unary_print :: "json \<Rightarrow> json \<Rightarrow> string" where
  "unary_print v0 v = (if v = v0 then [] else CHR ''a'' # replicate (to_nat v) (CHR ''a''))"

definition unary_parse :: "json \<Rightarrow> string \<Rightarrow> json option" where
  "unary_parse v0 s = (case s of [] \<Rightarrow> Some v0 | _ # r \<Rightarrow> Some (from_nat (length r)))"

definition unary_b64 :: "string \<Rightarrow> string" where
  "unary_b64 s = replicate (to_nat s) (CHR ''A'')"

definition unary_unb64 :: "string \<Rightarrow> string option" where
  "unary_unb64 s = Some (from_nat (length s))"

lemma unary_faithful: "json_faithful (unary_print v0) (unary_parse v0)"
  by (simp add: json_faithful_def unary_print_def unary_parse_def)

lemma unary_b64_faithful: "base64_faithful unary_b64 unary_unb64"
proof -
  have "utf8_valid (replicate n (CHR ''A''))" for n
    by (rule utf8_ascii) (simp add: list_all_iff byte_val_def)
  then show ?thesis by (simp add: base64_faithful_def unary_b64_def unary_unb64_def)
qed

definition sample_request :: tunnel_request where
  "sample_request = \<lparr>rq_id = 7, rq_method = ''GET'', rq_path = ''/s'', rq_query = [(''b'', ''2''), (''a'', ''1'')],
     rq_auth = None, rq_content_type = None, rq_body = ''x''\<rparr>"

end
