(* ===== verification/Bytes.thy ===== *)
theory Bytes
  imports Rust_Str
begin

text \<open>
  Big-endian integers in byte strings (\<open>to_be_bytes\<close>, \<open>from_be_bytes\<close>), length-prefixed
  fields, and the bitwise operations on single bytes that the wire formats use.
\<close>

unbundle bit_operations_syntax

fun be_bytes :: "nat \<Rightarrow> nat \<Rightarrow> string" where
  "be_bytes 0 x = []"
| "be_bytes (Suc n) x = be_bytes n (x div 256) @ [char_of (x mod 256)]"

definition be_val :: "string \<Rightarrow> nat" where
  "be_val s = foldl (\<lambda>a c. a * 256 + byte_val c) 0 s"

definition be16 :: "u16 \<Rightarrow> string" where "be16 = be_bytes 2"
definition be32 :: "u32 \<Rightarrow> string" where "be32 = be_bytes 4"
definition be64 :: "u64 \<Rightarrow> string" where "be64 = be_bytes 8"

lemma length_be_bytes [simp]: "length (be_bytes n x) = n"
  by (induction n arbitrary: x) simp_all

lemma length_be [simp]: "length (be16 x) = 2" "length (be32 x) = 4" "length (be64 x) = 8"
  by (simp_all add: be16_def be32_def be64_def)

lemma byte_val_char_of [simp]: "byte_val (char_of n) = n mod 256"
  by (simp add: byte_val_def)

lemma be_val_be_bytes: "x < 256 ^ n \<Longrightarrow> be_val (be_bytes n x) = x"
proof (induction n arbitrary: x)
  case 0
  then show ?case by (simp add: be_val_def)
next
  case (Suc n)
  have "x div 256 < 256 ^ n" using Suc.prems by (simp add: less_mult_imp_div_less mult.commute)
  from Suc.IH [OF this] show ?case by (simp add: be_val_def)
qed

lemma be_val_be64 [simp]: "x \<le> u64_max \<Longrightarrow> be_val (be64 x) = x"
  by (simp add: be64_def be_val_be_bytes u64_max_def)

lemma be_val_be32 [simp]: "x < 2 ^ 32 \<Longrightarrow> be_val (be32 x) = x"
  by (simp add: be32_def be_val_be_bytes)

lemma be_val_be16 [simp]: "x < 2 ^ 16 \<Longrightarrow> be_val (be16 x) = x"
  by (simp add: be16_def be_val_be_bytes)

lemma be_val_append1: "be_val (s @ [c]) = be_val s * 256 + byte_val c"
  by (simp add: be_val_def)

lemma be_val_less: "be_val s < 256 ^ length s"
proof (induction s rule: rev_induct)
  case Nil
  then show ?case by (simp add: be_val_def)
next
  case (snoc c s)
  have "be_val s * 256 + byte_val c < (be_val s + 1) * 256"
    using byte_val_less [of c] by simp
  also have "\<dots> \<le> 256 ^ length s * 256" using snoc by (intro mult_le_mono1) simp
  finally show ?case by (simp add: be_val_append1 mult.commute)
qed

lemma be_bytes_be_val: "be_bytes (length s) (be_val s) = s"
proof (induction s rule: rev_induct)
  case Nil
  then show ?case by simp
next
  case (snoc c s)
  have "(be_val s * 256 + byte_val c) div 256 = be_val s"
    using byte_val_less [of c] by simp
  moreover have "char_of ((be_val s * 256 + byte_val c) mod 256) = c"
    using byte_val_less [of c] by (simp add: byte_val_def)
  ultimately show ?case using snoc by (simp add: be_val_append1)
qed

lemma be_bytes_inj: "x < 256 ^ n \<Longrightarrow> y < 256 ^ n \<Longrightarrow> be_bytes n x = be_bytes n y \<Longrightarrow> x = y"
  by (metis be_val_be_bytes)

section \<open>Length-prefixed fields\<close>

definition lp_field :: "string \<Rightarrow> string" where
  "lp_field f = be32 (length f mod 2 ^ 32) @ f"

lemma lp_field_inj:
  assumes "lp_field f @ r = lp_field g @ r'" and "length f < 2 ^ 32" and "length g < 2 ^ 32"
  shows "f = g \<and> r = r'"
proof -
  have "be32 (length f) @ f @ r = be32 (length g) @ g @ r'"
    using assms by (simp add: lp_field_def)
  then have "be32 (length f) = be32 (length g)" and fr: "f @ r = g @ r'" by (simp_all add: append_eq_append_conv)
  then have "length f = length g"
    using assms(2,3) by (metis be_val_be32)
  with fr show ?thesis by simp
qed

lemma lp_fields_inj:
  assumes "concat (map lp_field fs) = concat (map lp_field gs)" and "length fs = length gs"
    and "\<forall>f \<in> set fs. length f < 2 ^ 32" and "\<forall>g \<in> set gs. length g < 2 ^ 32"
  shows "fs = gs"
  using assms
proof (induction fs arbitrary: gs)
  case (Cons f fs)
  then obtain g gs' where [simp]: "gs = g # gs'" by (cases gs) auto
  have "f = g \<and> concat (map lp_field fs) = concat (map lp_field gs')"
    using Cons.prems by (intro lp_field_inj) auto
  with Cons show ?case by auto
qed simp

section \<open>Bitwise operations\<close>

definition byte_xor :: "byte \<Rightarrow> byte \<Rightarrow> byte" where
  "byte_xor a b = char_of (byte_val a XOR byte_val b)"

lemma xor_nat_lt: "(a :: nat) < 2 ^ n \<Longrightarrow> b < 2 ^ n \<Longrightarrow> a XOR b < 2 ^ n"
  using take_bit_nat_eq_self_iff [of n "a XOR b"] take_bit_nat_eq_self_iff [of n a]
    take_bit_nat_eq_self_iff [of n b] by simp

lemma byte_xor_cancel [simp]: "byte_xor (byte_xor a m) m = a"
proof -
  have "byte_val a XOR byte_val m < 2 ^ 8"
    using byte_val_less [of a] byte_val_less [of m] by (intro xor_nat_lt) simp_all
  then have "byte_val (byte_xor a m) = byte_val a XOR byte_val m" by (simp add: byte_xor_def)
  then show ?thesis using byte_val_less [of a]
    by (simp add: byte_xor_def [of "byte_xor a m"] xor.assoc byte_val_def)
qed

lemma drop_split: "drop a s = take n (drop a s) @ drop (a + n) s"
  by (metis add.commute append_take_drop_id drop_drop)

end
