(* ===== verification/Relay_Crypto.thy ===== *)
theory Relay_Crypto
  imports Bytes Relay_Wire
begin

text \<open>
  Model of \<open>crates/unpeel-core/src/relay_crypto.rs\<close>: the frames between Host and Relay, the
  handshake transcript and messages, and the per-connection AEAD channel. The primitives of
  the \<open>ring\<close> library are parameters: \<open>hkdf ikm salt info\<close> (32 derived bytes), \<open>hmac key msg\<close>,
  \<open>aead_seal key nonce plaintext\<close> and \<open>aead_open key nonce body\<close>, the last two with
  \<open>None\<close> for an error. A session operation returns the outcome and the next session.
\<close>

section \<open>Host frames\<close>

definition VERSION :: u32 where "VERSION = 1"
definition MAX_DEVICE_ID_BYTES :: nat where "MAX_DEVICE_ID_BYTES = 128"
definition LEGACY_CLIENT_PAYLOAD_SLACK_BYTES :: nat where "LEGACY_CLIENT_PAYLOAD_SLACK_BYTES = 5"
definition MAX_CLIENT_DATA_FRAME_BYTES :: nat where
  "MAX_CLIENT_DATA_FRAME_BYTES = 6 + MAX_DEVICE_ID_BYTES + MAX_SEALED_BYTES + LEGACY_CLIENT_PAYLOAD_SLACK_BYTES"

definition FRAME_HELLO :: byte where "FRAME_HELLO = CHR 0x01"
definition FRAME_DATA :: byte where "FRAME_DATA = CHR 0x02"
definition FRAME_CLIENT_CLOSED :: byte where "FRAME_CLIENT_CLOSED = CHR 0x03"
definition FRAME_CLIENT_DATA :: byte where "FRAME_CLIENT_DATA = CHR 0x04"
definition FRAME_HOST_HEARTBEAT :: byte where "FRAME_HOST_HEARTBEAT = CHR 0x05"
definition FRAME_HOST_HEARTBEAT_ACK :: byte where "FRAME_HOST_HEARTBEAT_ACK = CHR 0x06"

lemmas frame_defs = FRAME_HELLO_def FRAME_DATA_def FRAME_CLIENT_CLOSED_def FRAME_CLIENT_DATA_def
  FRAME_HOST_HEARTBEAT_def FRAME_HOST_HEARTBEAT_ACK_def

definition hello_json :: "(string \<times> string) list \<Rightarrow> json" where
  "hello_json devices =
     jobj [(''v'', JNum (PosInt VERSION)),
       (''devices'', JArr (map (\<lambda>(device_id, token_hash).
          jobj [(''deviceID'', JStr device_id), (''tokenHash'', JStr token_hash)]) devices))]"

definition encode_hello :: "(json \<Rightarrow> string) \<Rightarrow> (string \<times> string) list \<Rightarrow> string" where
  "encode_hello to_string devices = FRAME_HELLO # to_string (hello_json devices)"

definition encode_host_heartbeat :: "string \<Rightarrow> string" where
  "encode_host_heartbeat nonce = FRAME_HOST_HEARTBEAT # nonce"

definition encode_data :: "u32 \<Rightarrow> string \<Rightarrow> string" where
  "encode_data conn_id payload = FRAME_DATA # be32 conn_id @ payload"

datatype incoming = ClientClosed u32 | ClientData u32 string string | HeartbeatAck string

text \<open>\<open>frame[a..b]\<close> for indices in range.\<close>

definition slice :: "nat \<Rightarrow> nat \<Rightarrow> string \<Rightarrow> string" where
  "slice a b s = take (b - a) (drop a s)"

definition decode_client_data :: "string \<Rightarrow> incoming option" where
  "decode_client_data frame =
     (let conn_id = be_val (slice 1 5 frame);
          id_len = byte_val (frame ! 5)
      in if id_len = 0 \<or> id_len > MAX_DEVICE_ID_BYTES then None
         else
           let payload_start = 6 + id_len
           in if length frame < payload_start
                 \<or> length frame - payload_start > MAX_SEALED_BYTES + LEGACY_CLIENT_PAYLOAD_SLACK_BYTES
              then None
              else
                let device_id = slice 6 payload_start frame
                in if \<not> utf8_valid device_id then None
                   else Some (ClientData conn_id device_id (drop payload_start frame)))"

definition decode_incoming :: "string \<Rightarrow> incoming option" where
  "decode_incoming frame =
     (if length frame > MAX_CLIENT_DATA_FRAME_BYTES then None
      else case frame of
        [] \<Rightarrow> None
      | kind # _ \<Rightarrow>
          if kind = FRAME_CLIENT_CLOSED \<and> length frame \<ge> 5 then
            Some (ClientClosed (be_val (slice 1 5 frame)))
          else if kind = FRAME_HOST_HEARTBEAT_ACK \<and> length frame \<le> 17 then
            Some (HeartbeatAck (drop 1 frame))
          else if kind = FRAME_CLIENT_DATA \<and> length frame \<ge> 6 then decode_client_data frame
          else None)"

section \<open>Handshake transcript\<close>

definition handshake_mac_label :: string where
  "handshake_mac_label = ''unpeel-relay-v1:handshake-mac''"

definition transcript :: "string \<Rightarrow> string \<Rightarrow> string \<Rightarrow> string \<Rightarrow> string \<Rightarrow> string" where
  "transcript device_id client_salt host_salt client_ephemeral host_ephemeral =
     be32 VERSION @ concat (map lp_field [device_id, client_salt, host_salt, client_ephemeral, host_ephemeral])"

definition transcript_mac ::
  "(string \<Rightarrow> string \<Rightarrow> string \<Rightarrow> string) \<Rightarrow> (string \<Rightarrow> string \<Rightarrow> string)
     \<Rightarrow> string \<Rightarrow> string \<Rightarrow> string \<Rightarrow> string \<Rightarrow> string \<Rightarrow> string \<Rightarrow> string" where
  "transcript_mac hkdf hmac e2e_key device_id client_salt host_salt client_ephemeral host_ephemeral =
     hmac (hkdf e2e_key [] handshake_mac_label)
       (transcript device_id client_salt host_salt client_ephemeral host_ephemeral)"

section \<open>The AEAD channel\<close>

record crypto_session =
  cs_send_key :: string
  cs_receive_key :: string
  cs_send_tag :: string
  cs_receive_tag :: string
  cs_send_counter :: u64
  cs_last_received :: u64

text \<open>\<open>aead::UnboundKey::new\<close> accepts exactly the keys of 32 bytes.\<close>

definition aead_key :: "string \<Rightarrow> string + string" where
  "aead_key bytes = (if length bytes = 32 then Inr bytes else Inl ''bad key'')"

definition session_new ::
  "(string \<Rightarrow> string \<Rightarrow> string \<Rightarrow> string) \<Rightarrow> string \<Rightarrow> string \<Rightarrow> string \<Rightarrow> string \<Rightarrow> bool
     \<Rightarrow> string + crypto_session" where
  "session_new hkdf e2e_key shared client_salt host_salt is_host =
     (if length e2e_key \<noteq> 32 \<or> length shared \<noteq> 32 \<or> length client_salt \<noteq> 16 \<or> length host_salt \<noteq> 16
      then Inl ''handshake failed''
      else
        let ikm = e2e_key @ shared;
            salt = client_salt @ host_salt;
            c2h = hkdf ikm salt ''unpeel-relay-v1:c2h'';
            h2c = hkdf ikm salt ''unpeel-relay-v1:h2c'';
            (snd_bytes, rcv_bytes) = (if is_host then (h2c, c2h) else (c2h, h2c))
        in rbind (aead_key snd_bytes) (\<lambda>send_key. rbind (aead_key rcv_bytes) (\<lambda>receive_key.
             Inr \<lparr>cs_send_key = send_key, cs_receive_key = receive_key,
                  cs_send_tag = (if is_host then ''h2c!'' else ''c2h!''),
                  cs_receive_tag = (if is_host then ''c2h!'' else ''h2c!''),
                  cs_send_counter = 0, cs_last_received = 0\<rparr>)))"

definition nonce :: "string \<Rightarrow> u64 \<Rightarrow> string" where
  "nonce tag counter = tag @ be64 counter"

definition seal ::
  "(string \<Rightarrow> string \<Rightarrow> string \<Rightarrow> string option) \<Rightarrow> string \<Rightarrow> crypto_session
     \<Rightarrow> (string + string) \<times> crypto_session" where
  "seal aead_seal plaintext s =
     (if \<not> plaintext_frame_fits (length plaintext) then (Inl ''relay plaintext frame too large'', s)
      else case checked_add64 (cs_send_counter s) 1 of
        None \<Rightarrow> (Inl ''counter exhausted'', s)
      | Some counter \<Rightarrow>
          let s1 = s\<lparr>cs_send_counter := counter\<rparr>
          in case aead_seal (cs_send_key s) (nonce (cs_send_tag s) counter) plaintext of
               None \<Rightarrow> (Inl ''seal failed'', s1)
             | Some body \<Rightarrow> (Inr (be64 counter @ body), s1))"

definition open_frame ::
  "(string \<Rightarrow> string \<Rightarrow> string \<Rightarrow> string option) \<Rightarrow> string \<Rightarrow> crypto_session
     \<Rightarrow> (string + string) \<times> crypto_session" where
  "open_frame aead_open frame s =
     (if length frame < 8 + 16 then (Inl ''open failed'', s)
      else
        let counter = be_val (take 8 frame)
        in if counter \<le> cs_last_received s then (Inl ''replay detected'', s)
           else case aead_open (cs_receive_key s) (nonce (cs_receive_tag s) counter) (drop 8 frame) of
               None \<Rightarrow> (Inl ''open failed'', s)
             | Some plaintext \<Rightarrow> (Inr plaintext, s\<lparr>cs_last_received := counter\<rparr>))"

section \<open>Handshake messages\<close>

record client_hello =
  ch_device_id :: string
  ch_salt :: string
  ch_ephemeral_public :: string

definition parse_client_hello ::
  "(string \<Rightarrow> json option) \<Rightarrow> (string \<Rightarrow> string option) \<Rightarrow> string \<Rightarrow> client_hello option" where
  "parse_client_hello from_slice unb64 payload =
     Option.bind (from_slice payload) (\<lambda>value.
     Option.bind (jget_u64 ''v'' value) (\<lambda>v.
       if v \<noteq> VERSION then None
       else
         Option.bind (Option.bind (jget_str ''saltB64'' value) unb64) (\<lambda>salt.
         Option.bind (Option.bind (jget_str ''ephemeralPublicKeyB64'' value) unb64) (\<lambda>ephemeral.
           if length salt \<noteq> 16 then None
           else Option.bind (jget_str ''deviceID'' value) (\<lambda>device_id.
             Some \<lparr>ch_device_id = device_id, ch_salt = salt, ch_ephemeral_public = ephemeral\<rparr>)))))"

definition client_hello_json :: "(string \<Rightarrow> string) \<Rightarrow> string \<Rightarrow> string \<Rightarrow> string \<Rightarrow> json" where
  "client_hello_json b64 device_id salt ephemeral_public =
     jobj [(''v'', JNum (PosInt VERSION)), (''deviceID'', JStr device_id), (''saltB64'', JStr (b64 salt)),
       (''ephemeralPublicKeyB64'', JStr (b64 ephemeral_public))]"

definition encode_client_hello ::
  "(json \<Rightarrow> string) \<Rightarrow> (string \<Rightarrow> string) \<Rightarrow> string \<Rightarrow> string \<Rightarrow> string \<Rightarrow> string" where
  "encode_client_hello to_string b64 device_id salt ephemeral_public =
     to_string (client_hello_json b64 device_id salt ephemeral_public)"

record host_hello =
  hh_salt :: string
  hh_ephemeral_public :: string
  hh_mac :: string

definition host_hello_json :: "(string \<Rightarrow> string) \<Rightarrow> string \<Rightarrow> string \<Rightarrow> string \<Rightarrow> json" where
  "host_hello_json b64 salt ephemeral_public mac =
     jobj [(''v'', JNum (PosInt VERSION)), (''saltB64'', JStr (b64 salt)),
       (''ephemeralPublicKeyB64'', JStr (b64 ephemeral_public)), (''macB64'', JStr (b64 mac))]"

definition encode_host_hello ::
  "(json \<Rightarrow> string) \<Rightarrow> (string \<Rightarrow> string) \<Rightarrow> string \<Rightarrow> string \<Rightarrow> string \<Rightarrow> string" where
  "encode_host_hello to_string b64 salt ephemeral_public mac =
     to_string (host_hello_json b64 salt ephemeral_public mac)"

definition parse_host_hello ::
  "(string \<Rightarrow> json option) \<Rightarrow> (string \<Rightarrow> string option) \<Rightarrow> string \<Rightarrow> host_hello option" where
  "parse_host_hello from_slice unb64 payload =
     Option.bind (from_slice payload) (\<lambda>value.
     Option.bind (jget_u64 ''v'' value) (\<lambda>v.
       if v \<noteq> VERSION then None
       else
         Option.bind (Option.bind (jget_str ''saltB64'' value) unb64) (\<lambda>salt.
           if length salt \<noteq> 16 then None
           else
             Option.bind (Option.bind (jget_str ''ephemeralPublicKeyB64'' value) unb64) (\<lambda>ephemeral.
             Option.bind (Option.bind (jget_str ''macB64'' value) unb64) (\<lambda>mac.
               Some \<lparr>hh_salt = salt, hh_ephemeral_public = ephemeral, hh_mac = mac\<rparr>)))))"

section \<open>What the channel relies on\<close>

text \<open>The AEAD opens what it sealed under the same key and nonce, and its output carries the
  16-byte tag.\<close>

definition aead_correct ::
  "(string \<Rightarrow> string \<Rightarrow> string \<Rightarrow> string option) \<Rightarrow> (string \<Rightarrow> string \<Rightarrow> string \<Rightarrow> string option) \<Rightarrow> bool" where
  "aead_correct aead_seal aead_open \<longleftrightarrow>
     (\<forall>k n p. length k = 32 \<longrightarrow>
        (\<exists>c. aead_seal k n p = Some c \<and> length c = length p + 16 \<and> aead_open k n c = Some p))"

definition hkdf_32 :: "(string \<Rightarrow> string \<Rightarrow> string \<Rightarrow> string) \<Rightarrow> bool" where
  "hkdf_32 hkdf \<longleftrightarrow> (\<forall>ikm salt info. length (hkdf ikm salt info) = 32)"

text \<open>Sealing a list of plaintexts one after the other, with the nonces the attempts used.\<close>

fun seal_all ::
  "(string \<Rightarrow> string \<Rightarrow> string \<Rightarrow> string option) \<Rightarrow> string list \<Rightarrow> crypto_session
     \<Rightarrow> (string + string) list \<times> crypto_session" where
  "seal_all aead_seal [] s = ([], s)"
| "seal_all aead_seal (p # ps) s =
     (let (r, s1) = seal aead_seal p s; (rs, s2) = seal_all aead_seal ps s1 in (r # rs, s2))"

fun open_all ::
  "(string \<Rightarrow> string \<Rightarrow> string \<Rightarrow> string option) \<Rightarrow> string list \<Rightarrow> crypto_session
     \<Rightarrow> (string + string) list \<times> crypto_session" where
  "open_all aead_open [] s = ([], s)"
| "open_all aead_open (f # fs) s =
     (let (r, s1) = open_frame aead_open f s; (rs, s2) = open_all aead_open fs s1 in (r # rs, s2))"

end
