(* ===== verification/Relay_Crypto_Props.thy ===== *)
theory Relay_Crypto_Props
  imports Relay_Crypto Relay_Wire_Props
begin

text \<open>
  Properties of the Relay channel: what one end seals the other opens, replays are refused,
  nonces are not reused, the handshake transcript determines its fields, and the frame and
  hello codecs.
\<close>

section \<open>Sealing and opening\<close>

lemma seal_fit:
  assumes "aead_correct aead_seal aead_open" and "length (cs_send_key s) = 32"
    and "plaintext_frame_fits (length p)" and "cs_send_counter s < u64_max"
  shows "\<exists>c. seal aead_seal p s = (Inr (be64 (Suc (cs_send_counter s)) @ c), s\<lparr>cs_send_counter := Suc (cs_send_counter s)\<rparr>)
    \<and> length c = length p + 16
    \<and> aead_open (cs_send_key s) (nonce (cs_send_tag s) (Suc (cs_send_counter s))) c = Some p"
proof -
  obtain c where "aead_seal (cs_send_key s) (nonce (cs_send_tag s) (Suc (cs_send_counter s))) p = Some c"
    "length c = length p + 16" "aead_open (cs_send_key s) (nonce (cs_send_tag s) (Suc (cs_send_counter s))) c = Some p"
    using assms(1,2) unfolding aead_correct_def by blast
  moreover have "checked_add64 (cs_send_counter s) 1 = Some (Suc (cs_send_counter s))"
    using assms(4) by (simp add: checked_add64_def)
  ultimately show ?thesis using assms(3) by (simp add: seal_def Let_def)
qed

text \<open>The frame with the given counter opens to the plaintext under the peer's key and tag.\<close>

definition frame_opens ::
  "(string \<Rightarrow> string \<Rightarrow> string \<Rightarrow> string option) \<Rightarrow> string \<Rightarrow> string \<Rightarrow> nat \<Rightarrow> string \<Rightarrow> string \<Rightarrow> bool" where
  "frame_opens aead_open key tag counter p f \<longleftrightarrow>
     length f \<ge> 24 \<and> take 8 f = be64 counter \<and> aead_open key (nonce tag counter) (drop 8 f) = Some p"

lemma seal_all_frames:
  assumes "aead_correct aead_seal aead_open"
  shows "length (cs_send_key s) = 32 \<Longrightarrow> \<forall>p \<in> set ps. plaintext_frame_fits (length p) \<Longrightarrow>
    cs_send_counter s + length ps \<le> u64_max \<Longrightarrow>
    \<exists>fs. fst (seal_all aead_seal ps s) = map Inr fs \<and> length fs = length ps
      \<and> (\<forall>k < length ps. frame_opens aead_open (cs_send_key s) (cs_send_tag s) (cs_send_counter s + k + 1) (ps ! k) (fs ! k))"
proof (induction ps arbitrary: s)
  case Nil
  then show ?case by simp
next
  case (Cons p ps)
  obtain c where c: "seal aead_seal p s = (Inr (be64 (Suc (cs_send_counter s)) @ c), s\<lparr>cs_send_counter := Suc (cs_send_counter s)\<rparr>)"
    "length c = length p + 16" "aead_open (cs_send_key s) (nonce (cs_send_tag s) (Suc (cs_send_counter s))) c = Some p"
    using seal_fit [OF assms Cons.prems(1), of p] Cons.prems(2,3) by auto
  let ?s = "s\<lparr>cs_send_counter := Suc (cs_send_counter s)\<rparr>"
  have "\<exists>fs. fst (seal_all aead_seal ps ?s) = map Inr fs \<and> length fs = length ps
      \<and> (\<forall>k < length ps. frame_opens aead_open (cs_send_key ?s) (cs_send_tag ?s) (cs_send_counter ?s + k + 1) (ps ! k) (fs ! k))"
    using Cons.prems by (intro Cons.IH) simp_all
  then obtain fs where fs: "fst (seal_all aead_seal ps ?s) = map Inr fs" "length fs = length ps"
    "\<forall>k < length ps. frame_opens aead_open (cs_send_key s) (cs_send_tag s) (Suc (cs_send_counter s) + k + 1) (ps ! k) (fs ! k)"
    by auto
  let ?f = "be64 (Suc (cs_send_counter s)) @ c"
  have "frame_opens aead_open (cs_send_key s) (cs_send_tag s) (cs_send_counter s + k + 1) ((p # ps) ! k) ((?f # fs) ! k)"
    if "k < length (p # ps)" for k
    using that c fs(3) by (cases k) (simp_all add: frame_opens_def)
  then show ?case
    using c fs by (intro exI [of _ "?f # fs"]) (simp add: case_prod_unfold Let_def)
qed

lemma open_frame_opens:
  assumes "frame_opens aead_open (cs_receive_key r) (cs_receive_tag r) counter p f"
    and "cs_last_received r < counter" and "counter \<le> u64_max"
  shows "open_frame aead_open f r = (Inr p, r\<lparr>cs_last_received := counter\<rparr>)"
  using assms by (simp add: open_frame_def frame_opens_def Let_def)

lemma open_all_subsequence:
  assumes "\<forall>k < length ps. frame_opens aead_open key tag (n + k + 1) (ps ! k) (fs ! k)"
    and "n + length ps \<le> u64_max"
  shows "sorted_wrt (<) ks \<Longrightarrow> \<forall>k \<in> set ks. k < length ps \<Longrightarrow>
    cs_receive_key r = key \<Longrightarrow> cs_receive_tag r = tag \<Longrightarrow> \<forall>k \<in> set ks. cs_last_received r < n + k + 1 \<Longrightarrow>
    fst (open_all aead_open (map (\<lambda>k. fs ! k) ks) r) = map (\<lambda>k. Inr (ps ! k)) ks"
proof (induction ks arbitrary: r)
  case (Cons k ks)
  have "open_frame aead_open (fs ! k) r = (Inr (ps ! k), r\<lparr>cs_last_received := n + k + 1\<rparr>)"
    using assms Cons.prems by (intro open_frame_opens) simp_all
  moreover have "fst (open_all aead_open (map (\<lambda>k. fs ! k) ks) (r\<lparr>cs_last_received := n + k + 1\<rparr>))
      = map (\<lambda>k. Inr (ps ! k)) ks"
    using Cons.prems by (intro Cons.IH) simp_all
  ultimately show ?case by (simp add: case_prod_unfold Let_def)
qed simp

lemma session_new_pair:
  assumes "session_new hkdf e2e shared csalt hsalt is_host = Inr s"
    and "session_new hkdf e2e shared csalt hsalt (\<not> is_host) = Inr r"
  shows "cs_receive_key r = cs_send_key s \<and> cs_receive_tag r = cs_send_tag s \<and> length (cs_send_key s) = 32
    \<and> cs_send_counter s = 0 \<and> cs_last_received r = 0"
  using assms
  by (auto simp: session_new_def Let_def aead_key_def rbind_Inr_iff split: if_splits)

text \<open>C2. What one end of the channel seals, the other end opens: two sessions set up from the
  same handshake values, one per role, deliver every plaintext that fits the frame budget,
  and still do so when any of the frames in between are lost.\<close>

theorem channel_delivers:
  assumes "aead_correct aead_seal aead_open"
    and "session_new hkdf e2e shared csalt hsalt is_host = Inr s"
    and "session_new hkdf e2e shared csalt hsalt (\<not> is_host) = Inr r"
    and "\<forall>p \<in> set ps. plaintext_frame_fits (length p)" and "length ps \<le> u64_max"
    and "sorted_wrt (<) ks" and "\<forall>k \<in> set ks. k < length ps"
  shows "\<exists>fs. fst (seal_all aead_seal ps s) = map Inr fs
     \<and> fst (open_all aead_open (map (\<lambda>k. fs ! k) ks) r) = map (\<lambda>k. Inr (ps ! k)) ks"
proof -
  note pair = session_new_pair [OF assms(2,3)]
  obtain fs where fs: "fst (seal_all aead_seal ps s) = map Inr fs"
    "\<forall>k < length ps. frame_opens aead_open (cs_send_key s) (cs_send_tag s) (0 + k + 1) (ps ! k) (fs ! k)"
    using seal_all_frames [OF assms(1), of s ps] pair assms(4,5) by auto
  have "fst (open_all aead_open (map (\<lambda>k. fs ! k) ks) r) = map (\<lambda>k. Inr (ps ! k)) ks"
    using open_all_subsequence [OF fs(2) _ assms(6,7)] pair assms(5) by simp
  with fs(1) show ?thesis by blast
qed

lemma open_all_monotone: "cs_last_received r \<le> cs_last_received (snd (open_all aead_open fs r))"
proof (induction fs arbitrary: r)
  case (Cons f fs)
  have "cs_last_received r \<le> cs_last_received (snd (open_frame aead_open f r))"
    by (simp add: open_frame_def Let_def split: option.split)
  also have "\<dots> \<le> cs_last_received (snd (open_all aead_open fs (snd (open_frame aead_open f r))))"
    by (rule Cons.IH)
  finally show ?case by (simp add: case_prod_unfold Let_def)
qed simp

text \<open>A frame is opened at most once: after it was accepted, and whatever further frames
  the session received, it is refused as a replay and the refusal changes nothing.\<close>

lemma replay_refused:
  assumes "open_frame aead_open f r = (Inr p, r1)"
  shows "open_frame aead_open f (snd (open_all aead_open fs r1))
     = (Inl ''replay detected'', snd (open_all aead_open fs r1))"
proof -
  have "cs_last_received r1 = be_val (take 8 f)" and "\<not> length f < 24"
    using assms by (auto simp: open_frame_def Let_def split: if_splits option.splits)
  with open_all_monotone [of r1 aead_open fs] show ?thesis by (simp add: open_frame_def Let_def)
qed

abbreviation sealed_frames :: "(string + string) list \<Rightarrow> string list" where
  "sealed_frames rs \<equiv> List.map_filter (\<lambda>r. case r of Inl _ \<Rightarrow> None | Inr f \<Rightarrow> Some f) rs"

lemma seal_counter:
  assumes "cs_send_counter s \<le> u64_max" and "seal aead_seal p s = (r, s1)"
  shows "cs_send_counter s \<le> cs_send_counter s1 \<and> cs_send_counter s1 \<le> u64_max
    \<and> (\<forall>f. r = Inr f \<longrightarrow> be_val (take 8 f) = cs_send_counter s1 \<and> cs_send_counter s < cs_send_counter s1)"
  using assms
  by (auto simp: seal_def Let_def checked_add64_def split: if_splits option.splits)

text \<open>No nonce is used twice: over any sequence of seal calls, failed ones included, the
  counters of the frames produced increase strictly, start above the session's counter
  and never pass \<open>u64::MAX\<close>; at the end of the range sealing fails instead of wrapping.\<close>

lemma counters_never_repeat:
  assumes "cs_send_counter s \<le> u64_max"
  shows "sorted_wrt (\<lambda>f g. be_val (take 8 f) < be_val (take 8 g)) (sealed_frames (fst (seal_all aead_seal ps s)))
     \<and> (\<forall>f \<in> set (sealed_frames (fst (seal_all aead_seal ps s))).
          cs_send_counter s < be_val (take 8 f) \<and> be_val (take 8 f) \<le> u64_max)"
  using assms
proof (induction ps arbitrary: s)
  case (Cons p ps)
  obtain r s1 where st: "seal aead_seal p s = (r, s1)" by fastforce
  note c = seal_counter [OF Cons.prems st]
  have le: "cs_send_counter s1 \<le> u64_max" using c by blast
  show ?case
  proof (cases r)
    case (Inl e)
    then show ?thesis using Cons.IH [OF le] c st by (auto simp: case_prod_unfold Let_def map_filter_simps)
  next
    case (Inr f)
    then have f: "be_val (take 8 f) = cs_send_counter s1" "cs_send_counter s < cs_send_counter s1" using c by auto
    show ?thesis using Cons.IH [OF le] le f Inr st by (auto simp: case_prod_unfold Let_def map_filter_simps)
  qed
qed (simp add: map_filter_simps)

text \<open>The handshake transcript is injective: two transcripts agree only when the device
  id, both salts and both ephemeral keys agree, so no two different handshakes present the
  same bytes to the MAC.\<close>

lemma transcript_injective:
  assumes "transcript d cs hs ce he = transcript d' cs' hs' ce' he'"
    and "\<forall>f \<in> set [d, cs, hs, ce, he, d', cs', hs', ce', he']. length f < 2 ^ 32"
  shows "d = d' \<and> cs = cs' \<and> hs = hs' \<and> ce = ce' \<and> he = he'"
proof -
  have "[d, cs, hs, ce, he] = [d', cs', hs', ce', he']"
    by (rule lp_fields_inj) (use assms in \<open>simp_all add: transcript_def\<close>)
  then show ?thesis by simp
qed

section \<open>Codecs\<close>

lemma slice_all: "length s = b - a \<Longrightarrow> a \<le> b \<Longrightarrow> slice a b (p @ s @ r) = s" if "length p = a" for p s r a b
  using that by (simp add: slice_def)

text \<open>Client data frames decode to exactly what they carry: a frame of kind 4 is accepted
  with connection, device and payload if and only if it is the concatenation of the kind
  byte, the connection number, the length byte, a UTF-8 device id of 1 to 128 bytes and a
  payload within the budget.\<close>

lemma client_data_frame_exact:
  assumes "conn < 2 ^ 32"
  shows "decode_incoming frame = Some (ClientData conn device payload) \<longleftrightarrow>
     frame = FRAME_CLIENT_DATA # be32 conn @ [char_of (length device)] @ device @ payload
     \<and> 1 \<le> length device \<and> length device \<le> MAX_DEVICE_ID_BYTES \<and> utf8_valid device
     \<and> length payload \<le> MAX_SEALED_BYTES + LEGACY_CLIENT_PAYLOAD_SLACK_BYTES"
    (is "?dec \<longleftrightarrow> ?shape")
proof
  assume ?dec
  then have kind: "frame \<noteq> []" "hd frame = FRAME_CLIENT_DATA" "6 \<le> length frame"
    and dec: "decode_client_data frame = Some (ClientData conn device payload)"
    by (auto simp: decode_incoming_def split: list.splits if_splits)
  have c: "conn = be_val (slice 1 5 frame)" and d: "device = slice 6 (6 + byte_val (frame ! 5)) frame"
    and p: "payload = drop (6 + byte_val (frame ! 5)) frame"
    and rest: "byte_val (frame ! 5) \<noteq> 0" "byte_val (frame ! 5) \<le> MAX_DEVICE_ID_BYTES" "utf8_valid device"
      "6 + byte_val (frame ! 5) \<le> length frame"
      "length frame - (6 + byte_val (frame ! 5)) \<le> MAX_SEALED_BYTES + LEGACY_CLIENT_PAYLOAD_SLACK_BYTES"
    using dec by (auto simp: decode_client_data_def Let_def split: if_splits)
  have ld: "length device = byte_val (frame ! 5)" using rest(4) by (simp add: d slice_def)
  have "length (slice 1 5 frame) = 4" using kind(3) by (simp add: slice_def)
  then have "be32 conn = slice 1 5 frame" using be_bytes_be_val [of "slice 1 5 frame"] by (simp add: c be32_def)
  moreover have "frame = take 1 frame @ slice 1 5 frame @ take 1 (drop 5 frame) @ device @ payload"
    using drop_split [of 0 frame 1] drop_split [of 1 frame 4] drop_split [of 5 frame 1]
      drop_split [of 6 frame "byte_val (frame ! 5)"]
    by (simp add: d p slice_def)
  moreover have "take 1 frame = [FRAME_CLIENT_DATA]" using kind by (cases frame) auto
  moreover have "take 1 (drop 5 frame) = [char_of (length device)]"
    using kind(3) by (simp add: ld byte_val_def take_Suc_conv_app_nth hd_drop_conv_nth)
  ultimately show ?shape using rest ld p by auto
next
  assume s: ?shape
  let ?f = "FRAME_CLIENT_DATA # be32 conn @ [char_of (length device)] @ device @ payload"
  have "slice 1 5 ?f = be32 conn" using slice_all [of "[FRAME_CLIENT_DATA]" 1 "be32 conn" 5] by simp
  moreover have "?f ! 5 = char_of (length device)" by (simp add: nth_append)
  moreover have "device \<noteq> []" using s by auto
  moreover have "slice 6 (6 + length device) ?f = device"
    using slice_all [of "FRAME_CLIENT_DATA # be32 conn @ [char_of (length device)]" 6 device "6 + length device" payload] by simp
  moreover have "drop (6 + length device) ?f = payload"
    using append_eq_conv_conj [of "FRAME_CLIENT_DATA # be32 conn @ [char_of (length device)] @ device" payload ?f] by simp
  ultimately show ?dec
    using s assms
    by (simp add: decode_incoming_def decode_client_data_def Let_def frame_defs MAX_CLIENT_DATA_FRAME_BYTES_def
        MAX_DEVICE_ID_BYTES_def)
qed

lemma client_hello_json_wf:
  assumes "utf8_valid device_id" and "base64_faithful b64 unb64"
  shows "json_wf (client_hello_json b64 device_id salt eph)" and "json_wf (host_hello_json b64 salt eph mac)"
  unfolding client_hello_json_def host_hello_json_def jobj_def
  using assms
  by (intro json_wf_jobj; simp add: base64_faithful_def byte_val_def VERSION_def u64_max_def)+

lemma hello_json_nests: "json_nests 4 (client_hello_json b64 device_id salt eph)" "json_nests 4 (host_hello_json b64 salt eph mac)"
  unfolding client_hello_json_def host_hello_json_def jobj_def by (intro json_nests_message; simp)+

text \<open>Both hello messages survive their codecs: what the peer parses from an encoded hello
  with a 16-byte salt is the device id, salt, ephemeral key and MAC that were encoded.\<close>

lemma hello_round_trip:
  assumes "json_faithful to_string from_slice" and "base64_faithful b64 unb64"
    and "utf8_valid device_id" and "length salt = 16"
  shows "parse_client_hello from_slice unb64 (encode_client_hello to_string b64 device_id salt eph)
       = Some \<lparr>ch_device_id = device_id, ch_salt = salt, ch_ephemeral_public = eph\<rparr>
     \<and> parse_host_hello from_slice unb64 (encode_host_hello to_string b64 salt eph mac)
       = Some \<lparr>hh_salt = salt, hh_ephemeral_public = eph, hh_mac = mac\<rparr>"
proof -
  have b: "unb64 (b64 bs) = Some bs" for bs using assms(2) by (simp add: base64_faithful_def)
  have c: "from_slice (encode_client_hello to_string b64 device_id salt eph) = Some (client_hello_json b64 device_id salt eph)"
    and h: "from_slice (encode_host_hello to_string b64 salt eph mac) = Some (host_hello_json b64 salt eph mac)"
    using json_read_back [OF assms(1) _ hello_json_nests(1)] json_read_back [OF assms(1) _ hello_json_nests(2)]
      client_hello_json_wf [OF assms(3,2)]
    by (simp_all add: encode_client_hello_def encode_host_hello_def)
  show ?thesis
    using assms(4)
    by (simp add: parse_client_hello_def parse_host_hello_def c h client_hello_json_def host_hello_json_def
        jget_u64_def jget_str_def jget_jobj b)
qed

section \<open>Witnesses\<close>

definition pad_seal :: "string \<Rightarrow> string \<Rightarrow> string \<Rightarrow> string option" where
  "pad_seal k n p = Some (p @ replicate 16 (CHR 0x00))"

definition pad_open :: "string \<Rightarrow> string \<Rightarrow> string \<Rightarrow> string option" where
  "pad_open k n c = Some (take (length c - 16) c)"

lemma pad_correct: "aead_correct pad_seal pad_open"
  by (simp add: aead_correct_def pad_seal_def pad_open_def)

definition flat_hkdf :: "string \<Rightarrow> string \<Rightarrow> string \<Rightarrow> string" where
  "flat_hkdf ikm salt info = replicate 32 (last info)"

abbreviation test_session :: "bool \<Rightarrow> string + crypto_session" where
  "test_session \<equiv> session_new flat_hkdf (replicate 32 (CHR ''k'')) (replicate 32 (CHR ''s''))
     (replicate 16 (CHR ''c'')) (replicate 16 (CHR ''h''))"

lemma test_session_ok: "\<exists>s. test_session b = Inr s"
  by (cases b) (simp_all add: session_new_def aead_key_def flat_hkdf_def Let_def)

theorem channel_delivers_witness:
  "\<exists>s r fs. test_session True = Inr s \<and> test_session False = Inr r
     \<and> fst (seal_all pad_seal [''a'', ''b'', ''c''] s) = map Inr fs
     \<and> fst (open_all pad_open (map (\<lambda>k. fs ! k) [0, 2]) r) = [Inr ''a'', Inr ''c'']"
proof -
  obtain s r where s: "test_session True = Inr s" and r: "test_session False = Inr r"
    using test_session_ok by blast
  have r': "test_session (\<not> True) = Inr r" using r by simp
  have "\<exists>fs. fst (seal_all pad_seal [''a'', ''b'', ''c''] s) = map Inr fs
     \<and> fst (open_all pad_open (map (\<lambda>k. fs ! k) [0, 2]) r) = map (\<lambda>k. Inr ([''a'', ''b'', ''c''] ! k)) [0, 2]"
    by (rule channel_delivers [OF pad_correct s r'])
       (simp_all add: plaintext_frame_fits_def MAX_PLAINTEXT_BYTES_def MAX_SEALED_BYTES_def MAX_FRAME_BYTES_def
         AEAD_OVERHEAD_BYTES_def u64_max_def)
  moreover have "map (\<lambda>k. Inr ([''a'', ''b'', ''c''] ! k)) [0, 2] = [Inr ''a'', Inr ''c'']" by simp
  ultimately show ?thesis using s r by metis
qed

end
