(* ===== verification/Direct_Path.thy ===== *)
theory Direct_Path
  imports Bytes
begin

text \<open>
  The data and the address policy of \<open>crates/unpeel-core/src/direct_path.rs\<close>: candidates of a
  direct path and which addresses may be one. An address is its octets; the predicates are
  those of \<open>std::net\<close>.
\<close>

definition MAX_CANDIDATES :: nat where "MAX_CANDIDATES = 16"
definition PATH_SESSION_HEX_LEN :: nat where "PATH_SESSION_HEX_LEN = 32"

datatype ip_addr = V4 string | V6 string

fun ip_wf :: "ip_addr \<Rightarrow> bool" where
  "ip_wf (V4 os) = (length os = 4)"
| "ip_wf (V6 os) = (length os = 16)"

datatype candidate_kind = Local | Reflexive

record path_candidate =
  pc_kind :: candidate_kind
  pc_address :: ip_addr
  pc_port :: u16

fun is_loopback :: "ip_addr \<Rightarrow> bool" where
  "is_loopback (V4 os) = (byte_val (os ! 0) = 127)"
| "is_loopback (V6 os) = (os = replicate 15 (CHR 0x00) @ [CHR 0x01])"

fun is_unspecified :: "ip_addr \<Rightarrow> bool" where
  "is_unspecified (V4 os) = (os = replicate 4 (CHR 0x00))"
| "is_unspecified (V6 os) = (os = replicate 16 (CHR 0x00))"

fun is_multicast :: "ip_addr \<Rightarrow> bool" where
  "is_multicast (V4 os) = (224 \<le> byte_val (os ! 0) \<and> byte_val (os ! 0) \<le> 239)"
| "is_multicast (V6 os) = (byte_val (os ! 0) = 255)"

definition v4_is_broadcast :: "string \<Rightarrow> bool" where
  "v4_is_broadcast os \<longleftrightarrow> os = replicate 4 (CHR 0xFF)"

definition v4_is_link_local :: "string \<Rightarrow> bool" where
  "v4_is_link_local os \<longleftrightarrow> byte_val (os ! 0) = 169 \<and> byte_val (os ! 1) = 254"

definition segment0 :: "string \<Rightarrow> nat" where
  "segment0 os = be_val (take 2 os)"

text \<open>\<open>to_ipv4_mapped\<close> recognises \<open>::ffff:a.b.c.d\<close>, \<open>to_ipv4\<close> also \<open>::a.b.c.d\<close>.\<close>

definition v6_is_ipv4_mapped :: "string \<Rightarrow> bool" where
  "v6_is_ipv4_mapped os \<longleftrightarrow> take 12 os = replicate 10 (CHR 0x00) @ replicate 2 (CHR 0xFF)"

definition v6_is_ipv4 :: "string \<Rightarrow> bool" where
  "v6_is_ipv4 os \<longleftrightarrow> v6_is_ipv4_mapped os \<or> take 12 os = replicate 12 (CHR 0x00)"

definition validate_candidate_address :: "ip_addr \<Rightarrow> string + unit" where
  "validate_candidate_address address =
     (if is_loopback address then Inl ''loopback candidates are invalid''
      else if is_unspecified address then Inl ''unspecified candidates are invalid''
      else if is_multicast address then Inl ''multicast candidates are invalid''
      else case address of
        V4 v4 \<Rightarrow>
          if v4_is_broadcast v4 then Inl ''broadcast candidates are invalid''
          else if v4_is_link_local v4 then Inl ''link-local candidates are invalid''
          else Inr ()
      | V6 v6 \<Rightarrow>
          if segment0 v6 AND 0xffc0 = 0xfe80 then Inl ''link-local candidates are invalid''
          else if v6_is_ipv4_mapped v6 \<or> v6_is_ipv4 v6
          then Inl ''v4-in-v6 candidates are invalid; send the IPv4 form''
          else Inr ())"

end
