(* ===== verification/Direct_Path_Punch.thy ===== *)
theory Direct_Path_Punch
  imports Direct_Path Relay_Crypto
begin

text \<open>
  Model of \<open>crates/unpeel-core/src/direct_path_punch.rs\<close>: the authenticated probe datagram, the
  STUN binding query and the punch state machine. Parameters: \<open>hmac\<close> and \<open>hkdf\<close> of the
  \<open>ring\<close> library, random bytes (\<open>rng\<close>), the results of socket calls, and \<open>fround\<close>, the
  rounding of an \<open>f64\<close> operation on the token bucket. An \<open>Instant\<close> is a number of
  nanoseconds; the several readings of the clock in one call are one value, \<open>clock\<close>. A slice
  out of range panics in the source: \<open>parse_stun_response\<close> is \<open>None\<close> there.
\<close>

section \<open>Probes\<close>

definition PROBE_MAGIC :: string where "PROBE_MAGIC = ''UNPD''"
definition PROBE_VERSION :: byte where "PROBE_VERSION = CHR 0x01"
definition PROBE_LEN :: nat where "PROBE_LEN = 54"
definition PROBE_TAG_LEN :: nat where "PROBE_TAG_LEN = 16"
definition PROBE_TIME_WINDOW_MS :: u64 where "PROBE_TIME_WINDOW_MS = 30000"
definition PROBE_RATE_PER_SEC :: u32 where "PROBE_RATE_PER_SEC = 10"
definition PROBE_BURST :: u32 where "PROBE_BURST = 20"
definition PATH_SESSION_LIFETIME :: nat where "PATH_SESSION_LIFETIME = 60 * 1000000000"

datatype probe_direction = ControllerToHost | HostToController

fun direction_byte :: "probe_direction \<Rightarrow> byte" where
  "direction_byte ControllerToHost = CHR 0x01"
| "direction_byte HostToController = CHR 0x02"

definition direction_from_byte :: "byte \<Rightarrow> probe_direction option" where
  "direction_from_byte b =
     (if b = CHR 0x01 then Some ControllerToHost
      else if b = CHR 0x02 then Some HostToController else None)"

fun flipped :: "probe_direction \<Rightarrow> probe_direction" where
  "flipped ControllerToHost = HostToController"
| "flipped HostToController = ControllerToHost"

definition probe_key ::
  "(string \<Rightarrow> string \<Rightarrow> string \<Rightarrow> string) \<Rightarrow> string \<Rightarrow> string \<Rightarrow> string \<Rightarrow> string \<Rightarrow> string" where
  "probe_key hkdf shared_secret client_salt host_salt path_session_hex =
     hkdf shared_secret (client_salt @ host_salt) (''unpeel-direct-v1:probe:'' @ path_session_hex)"

record probe =
  pb_direction :: probe_direction
  pb_timestamp_ms :: u64
  pb_nonce :: string

definition probe_head :: "string \<Rightarrow> probe_direction \<Rightarrow> u64 \<Rightarrow> string \<Rightarrow> string" where
  "probe_head path_session direction timestamp_ms pnonce =
     PROBE_MAGIC @ [PROBE_VERSION] @ [direction_byte direction] @ path_session @ be64 timestamp_ms @ pnonce"

definition encode_probe ::
  "(string \<Rightarrow> string \<Rightarrow> string) \<Rightarrow> string \<Rightarrow> string \<Rightarrow> probe_direction \<Rightarrow> u64 \<Rightarrow> string \<Rightarrow> string" where
  "encode_probe hmac key path_session direction timestamp_ms pnonce =
     (let head = probe_head path_session direction timestamp_ms pnonce
      in head @ take PROBE_TAG_LEN (hmac key head))"

definition constant_time_eq :: "string \<Rightarrow> string \<Rightarrow> bool" where
  "constant_time_eq a b =
     (if length a \<noteq> length b then False
      else fold (\<lambda>(x, y) diff. diff OR (byte_val x XOR byte_val y)) (zip a b) 0 = 0)"

definition verify_probe ::
  "(string \<Rightarrow> string \<Rightarrow> string) \<Rightarrow> string \<Rightarrow> string \<Rightarrow> string \<Rightarrow> probe_direction \<Rightarrow> u64 \<Rightarrow> string set
     \<Rightarrow> probe option \<times> string set" where
  "verify_probe hmac bytes key path_session expected_direction now_ms seen_nonces =
     (if length bytes \<noteq> PROBE_LEN \<or> slice 0 4 bytes \<noteq> PROBE_MAGIC \<or> bytes ! 4 \<noteq> PROBE_VERSION
         \<or> slice 6 22 bytes \<noteq> path_session
      then (None, seen_nonces)
      else case direction_from_byte (bytes ! 5) of
        None \<Rightarrow> (None, seen_nonces)
      | Some direction \<Rightarrow>
          if direction \<noteq> expected_direction then (None, seen_nonces)
          else if \<not> constant_time_eq (take PROBE_TAG_LEN (hmac key (take 38 bytes))) (drop 38 bytes)
          then (None, seen_nonces)
          else
            let timestamp_ms = be_val (slice 22 30 bytes); pnonce = slice 30 38 bytes
            in if abs_diff64 now_ms timestamp_ms > PROBE_TIME_WINDOW_MS then (None, seen_nonces)
               else if pnonce \<in> seen_nonces then (None, seen_nonces)
               else (Some \<lparr>pb_direction = direction, pb_timestamp_ms = timestamp_ms, pb_nonce = pnonce\<rparr>,
                     insert pnonce seen_nonces))"

section \<open>Path session identifiers\<close>

definition hex_char :: "nat \<Rightarrow> byte" where
  "hex_char n = (if n < 10 then char_of (48 + n) else char_of (87 + n))"

text \<open>\<open>format!("{byte:02x}")\<close> over the bytes of \<open>random_path_session\<close>.\<close>

definition path_session_hex :: "string \<Rightarrow> string" where
  "path_session_hex bytes = concat (map (\<lambda>b. [hex_char (byte_val b div 16), hex_char (byte_val b mod 16)]) bytes)"

definition hex_digit :: "byte \<Rightarrow> nat option" where
  "hex_digit c =
     (let n = byte_val c in
      if is_ascii_digit c then Some (n - 48)
      else if 97 \<le> n \<and> n \<le> 102 then Some (n - 87)
      else if 65 \<le> n \<and> n \<le> 70 then Some (n - 55) else None)"

text \<open>\<open>u8::from_str_radix(text, 16)\<close> on a text of two bytes: a leading plus sign is allowed.\<close>

definition hex_byte :: "byte \<Rightarrow> byte \<Rightarrow> byte option" where
  "hex_byte a b =
     (if a = CHR ''+'' then map_option char_of (hex_digit b)
      else Option.bind (hex_digit a) (\<lambda>x. Option.bind (hex_digit b) (\<lambda>y. Some (char_of (16 * x + y)))))"

fun hex_pairs :: "string \<Rightarrow> string option" where
  "hex_pairs (a # b # cs) = Option.bind (hex_byte a b) (\<lambda>x. map_option ((#) x) (hex_pairs cs))"
| "hex_pairs _ = Some []"

definition path_session_bytes :: "string \<Rightarrow> string option" where
  "path_session_bytes hex = (if length hex \<noteq> 32 then None else hex_pairs hex)"

section \<open>Candidate gathering\<close>

text \<open>\<open>interfaces\<close> is the list \<open>getifaddrs\<close> gives, entries of other families already \<open>None\<close>.\<close>

definition local_candidate_addresses :: "ip_addr option list option \<Rightarrow> ip_addr list" where
  "local_candidate_addresses interfaces =
     (case interfaces of None \<Rightarrow> []
      | Some entries \<Rightarrow>
          fold (\<lambda>entry addresses. case entry of None \<Rightarrow> addresses
             | Some address \<Rightarrow>
                 if validate_candidate_address address = Inr () \<and> address \<notin> set addresses
                 then addresses @ [address] else addresses) entries [])"

type_synonym socket_addr = "ip_addr \<times> u16"

definition STUN_COOKIE :: nat where "STUN_COOKIE = 0x2112A442"

definition stun_request :: "string \<Rightarrow> string" where
  "stun_request transaction = be16 0x0001 @ be16 0 @ be32 STUN_COOKIE @ transaction"

definition parse_xor_mapped :: "string \<Rightarrow> string \<Rightarrow> (string + socket_addr) option" where
  "parse_xor_mapped value transaction =
     (if length value < 8 then Some (Inl ''short xor-mapped-address'')
      else
        let port = be_val (slice 2 4 value) XOR 0x2112
        in if value ! 1 = CHR 0x01 then
             Some (Inr (V4 (be32 (be_val (slice 4 8 value) XOR STUN_COOKIE)), port))
           else if value ! 1 = CHR 0x02 then
             (if length value < 20 then None
              else Some (Inr (V6 (map2 byte_xor (slice 4 20 value) (be32 STUN_COOKIE @ transaction)), port)))
           else Some (Inl ''unknown stun address family''))"

function stun_attributes :: "string \<Rightarrow> string \<Rightarrow> nat \<Rightarrow> (string + socket_addr) option" where
  "stun_attributes bytes transaction offset =
     (if offset + 4 \<le> length bytes then
        let kind = be_val (slice offset (offset + 2) bytes);
            len = be_val (slice (offset + 2) (offset + 4) bytes)
        in if offset + 4 + len > length bytes then Some (Inl ''truncated stun attribute'')
           else if kind = 0x0020 then
             parse_xor_mapped (slice (offset + 4) (offset + 4 + len) bytes) transaction
           else stun_attributes bytes transaction (offset + 4 + (len + 3) div 4 * 4)
      else Some (Inl ''no xor-mapped-address attribute''))"
  by pat_completeness auto
termination
  by (relation "measure (\<lambda>(bytes, _, offset). length bytes - offset)") auto

declare stun_attributes.simps [simp del]

definition parse_stun_response :: "string \<Rightarrow> string \<Rightarrow> (string + socket_addr) option" where
  "parse_stun_response bytes transaction =
     (if length bytes < 20 \<or> slice 0 2 bytes \<noteq> be16 0x0101 then Some (Inl ''not a stun binding success'')
      else if slice 8 20 bytes \<noteq> transaction then Some (Inl ''stun transaction mismatch'')
      else stun_attributes bytes transaction 20)"

section \<open>Punch state machine\<close>

datatype punch_state = Probing | Established socket_addr | TimedOut

record punch_session =
  pu_key :: string
  pu_path_session :: string
  pu_send_direction :: probe_direction
  pu_peers :: "socket_addr list"
  pu_outgoing_nonces :: "string set"
  pu_seen_nonces :: "string set"
  pu_tokens :: rat
  pu_last_refill :: nat
  pu_started :: nat
  pu_state :: punch_state
  pu_rtt :: "nat option"
  pu_in_flight :: "(string \<times> nat) list"

text \<open>\<open>Vec::dedup\<close> drops consecutive repetitions only: \<open>remdups_adj\<close>.\<close>

definition punch_new ::
  "string \<Rightarrow> string \<Rightarrow> probe_direction \<Rightarrow> path_candidate list \<Rightarrow> nat \<Rightarrow> punch_session" where
  "punch_new key path_session send_direction peers clock =
     \<lparr>pu_key = key, pu_path_session = path_session, pu_send_direction = send_direction,
      pu_peers = remdups_adj (map (\<lambda>c. (pc_address c, pc_port c)) peers),
      pu_outgoing_nonces = {}, pu_seen_nonces = {}, pu_tokens = of_nat PROBE_BURST,
      pu_last_refill = clock, pu_started = clock, pu_state = Probing, pu_rtt = None, pu_in_flight = []\<rparr>"

text \<open>\<open>rng n\<close> is the \<open>n\<close>-th nonce that \<open>random_nonce\<close> returns during the call.\<close>

fun send_probes ::
  "(rat \<Rightarrow> rat) \<Rightarrow> (string \<Rightarrow> string \<Rightarrow> string) \<Rightarrow> nat \<Rightarrow> u64 \<Rightarrow> (nat \<Rightarrow> string) \<Rightarrow> socket_addr list
     \<Rightarrow> punch_session \<Rightarrow> punch_session \<times> (socket_addr \<times> string) list" where
  "send_probes fround hmac clock now_ms rng [] s = (s, [])"
| "send_probes fround hmac clock now_ms rng (peer # peers) s =
     (if pu_tokens s < 1 then (s, [])
      else
        let pnonce = rng 0;
            s1 = s\<lparr>pu_tokens := fround (pu_tokens s - 1),
                   pu_outgoing_nonces := insert pnonce (pu_outgoing_nonces s),
                   pu_in_flight := pu_in_flight s @ [(pnonce, clock)]\<rparr>;
            (s2, sends) = send_probes fround hmac clock now_ms (\<lambda>n. rng (Suc n)) peers s1
        in (s2, (peer, encode_probe hmac (pu_key s) (pu_path_session s) (pu_send_direction s) now_ms pnonce) # sends))"

definition punch_tick ::
  "(rat \<Rightarrow> rat) \<Rightarrow> (string \<Rightarrow> string \<Rightarrow> string) \<Rightarrow> (nat \<Rightarrow> string) \<Rightarrow> nat \<Rightarrow> u64 \<Rightarrow> punch_session
     \<Rightarrow> punch_session \<times> (socket_addr \<times> string) list" where
  "punch_tick fround hmac rng clock now_ms s =
     (if pu_state s \<noteq> Probing then (s, [])
      else if clock - pu_started s \<ge> PATH_SESSION_LIFETIME then (s\<lparr>pu_state := TimedOut\<rparr>, [])
      else
        let elapsed = fround (of_nat (clock - pu_last_refill s) / 1000000000);
            tokens = min (fround (pu_tokens s + fround (elapsed * of_nat PROBE_RATE_PER_SEC))) (of_nat PROBE_BURST)
        in send_probes fround hmac clock now_ms rng (pu_peers s)
             (s\<lparr>pu_last_refill := clock, pu_tokens := tokens\<rparr>))"

definition handle_datagram ::
  "(string \<Rightarrow> string \<Rightarrow> string) \<Rightarrow> string \<Rightarrow> socket_addr \<Rightarrow> nat \<Rightarrow> u64 \<Rightarrow> punch_session
     \<Rightarrow> punch_session \<times> (socket_addr \<times> string) option" where
  "handle_datagram hmac bytes sender clock now_ms s =
     (let peer_direction = flipped (pu_send_direction s)
      in if length bytes = PROBE_LEN \<and> bytes ! 5 = direction_byte peer_direction then
           (case fst (verify_probe hmac bytes (pu_key s) (pu_path_session s) peer_direction now_ms {}) of
              None \<Rightarrow> (s, None)
            | Some pb \<Rightarrow>
                if pb_nonce pb \<in> pu_outgoing_nonces s then
                  (if pu_state s = Probing
                   then (s\<lparr>pu_state := Established sender,
                           pu_rtt := map_option (\<lambda>(_, sent). clock - sent)
                             (find (\<lambda>(n, _). n = pb_nonce pb) (pu_in_flight s))\<rparr>, None)
                   else (s, None))
                else if pb_nonce pb \<in> pu_seen_nonces s then (s, None)
                else (s\<lparr>pu_seen_nonces := insert (pb_nonce pb) (pu_seen_nonces s)\<rparr>,
                      Some (sender, encode_probe hmac (pu_key s) (pu_path_session s) (pu_send_direction s)
                                      now_ms (pb_nonce pb))))
         else (s, None))"

end
