(* ===== verification/Punch_Props.thy ===== *)
theory Punch_Props
  imports Direct_Path_Punch
begin

text \<open>
  Properties of the direct-path punch: which datagrams a verifier accepts, when a path counts
  as established, the rate bound, path session identifiers and STUN responses.
\<close>

section \<open>Bytes\<close>

lemma xor_nat_eq_0: "(a :: nat) XOR b = 0 \<longleftrightarrow> a = b"
proof
  assume "a XOR b = 0"
  then have "(a XOR b) XOR b = b" by simp
  then show "a = b" by (simp add: xor.assoc)
qed simp

lemma fold_diff_zero:
  "fold (\<lambda>(x, y) diff. diff OR (byte_val x XOR byte_val y)) zs d = 0
     \<longleftrightarrow> d = 0 \<and> (\<forall>(x, y) \<in> set zs. x = y)"
  by (induction zs arbitrary: d) (auto simp: xor_nat_eq_0 or_eq_0_iff byte_val_def)

lemma constant_time_eq_iff: "constant_time_eq a b \<longleftrightarrow> a = b"
proof (cases "length a = length b")
  case True
  then have "(\<forall>(x, y) \<in> set (zip a b). x = y) \<longleftrightarrow> a = b"
    by (induction a b rule: list_induct2) auto
  then show ?thesis using True by (simp add: constant_time_eq_def fold_diff_zero)
qed (auto simp: constant_time_eq_def)

lemma direction_from_byte_iff: "direction_from_byte b = Some d \<longleftrightarrow> b = direction_byte d"
  by (cases d) (auto simp: direction_from_byte_def)

section \<open>Probe layout\<close>

text \<open>The fields of a datagram of 54 bytes.\<close>

lemma probe_fields:
  fixes v d :: byte
  assumes "length m = 4" and "length ps = 16" and "length ts = 8" and "length nn = 8"
  defines "h \<equiv> m @ [v] @ [d] @ ps @ ts @ nn"
  shows "slice 0 4 (h @ t) = m" "(h @ t) ! 4 = v" "(h @ t) ! 5 = d" "slice 6 22 (h @ t) = ps"
    "slice 22 30 (h @ t) = ts" "slice 30 38 (h @ t) = nn" "take 38 (h @ t) = h" "drop 38 (h @ t) = t"
    "length h = 38"
  using assms(1-4) unfolding h_def slice_def by (simp_all add: nth_append)

lemma probe_split:
  assumes "length b = 54"
  shows "b = (slice 0 4 b @ [b ! 4] @ [b ! 5] @ slice 6 22 b @ slice 22 30 b @ slice 30 38 b) @ drop 38 b"
proof -
  have "drop 4 b = b ! 4 # drop 5 b" and "drop 5 b = b ! 5 # drop 6 b"
    using Cons_nth_drop_Suc [of 4 b] Cons_nth_drop_Suc [of 5 b] assms by simp_all
  then show ?thesis
    using drop_split [of 0 b 4] drop_split [of 6 b 16] drop_split [of 22 b 8] drop_split [of 30 b 8]
    by (simp add: slice_def)
qed

lemma length_probe_head:
  "length ps = 16 \<Longrightarrow> length n = 8 \<Longrightarrow> length (probe_head ps d ts n) = 38"
  by (simp add: probe_head_def PROBE_MAGIC_def)

lemma length_encode_probe:
  assumes "length ps = 16" and "length n = 8" and "16 \<le> length (hmac key (probe_head ps d ts n))"
  shows "length (encode_probe hmac key ps d ts n) = PROBE_LEN"
  using assms by (simp add: encode_probe_def Let_def length_probe_head PROBE_TAG_LEN_def PROBE_LEN_def)

lemma encode_probe_direction:
  "length ps = 16 \<Longrightarrow> length n = 8 \<Longrightarrow> encode_probe hmac key ps d ts n ! 5 = direction_byte d"
  using probe_fields(3) [where m = PROBE_MAGIC and ps = ps and ts = "be64 ts" and nn = n and v = PROBE_VERSION
      and d = "direction_byte d"]
  by (simp add: encode_probe_def probe_head_def PROBE_MAGIC_def Let_def)

lemma verify_probe_iff:
  assumes ps: "length ps = 16" and mac: "\<And>k m. 16 \<le> length (hmac k m)"
  shows "fst (verify_probe hmac bytes key ps dir now seen) = Some p \<longleftrightarrow>
     bytes = encode_probe hmac key ps dir (pb_timestamp_ms p) (pb_nonce p)
     \<and> pb_direction p = dir \<and> length (pb_nonce p) = 8 \<and> pb_timestamp_ms p \<le> u64_max
     \<and> abs_diff64 now (pb_timestamp_ms p) \<le> PROBE_TIME_WINDOW_MS \<and> pb_nonce p \<notin> seen" (is "?acc \<longleftrightarrow> ?probe")
proof
  assume ?acc
  then have len: "length bytes = 54" and m: "slice 0 4 bytes = PROBE_MAGIC" and v: "bytes ! 4 = PROBE_VERSION"
    and s: "slice 6 22 bytes = ps" and d: "bytes ! 5 = direction_byte dir"
    and tag: "take 16 (hmac key (take 38 bytes)) = drop 38 bytes"
    and p: "p = \<lparr>pb_direction = dir, pb_timestamp_ms = be_val (slice 22 30 bytes), pb_nonce = slice 30 38 bytes\<rparr>"
    and rest: "abs_diff64 now (be_val (slice 22 30 bytes)) \<le> PROBE_TIME_WINDOW_MS" "slice 30 38 bytes \<notin> seen"
    by (auto simp: verify_probe_def Let_def PROBE_LEN_def PROBE_TAG_LEN_def constant_time_eq_iff
        direction_from_byte_iff split: if_splits option.splits)
  have l8: "length (slice 22 30 bytes) = 8" "length (slice 30 38 bytes) = 8" using len by (simp_all add: slice_def)
  have ts: "be64 (be_val (slice 22 30 bytes)) = slice 22 30 bytes"
    using be_bytes_be_val [of "slice 22 30 bytes"] l8 by (simp add: be64_def)
  have "be_val (slice 22 30 bytes) < 256 ^ 8" using be_val_less [of "slice 22 30 bytes"] l8 by simp
  moreover have "take 38 bytes = probe_head ps dir (be_val (slice 22 30 bytes)) (slice 30 38 bytes)"
  proof -
    have "bytes = probe_head ps dir (be_val (slice 22 30 bytes)) (slice 30 38 bytes) @ drop 38 bytes"
      using probe_split [OF len] unfolding m v s d by (simp add: probe_head_def ts)
    then show ?thesis using length_probe_head [OF ps l8(2)] by (metis append_eq_conv_conj)
  qed
  moreover have "bytes = take 38 bytes @ drop 38 bytes" by simp
  ultimately show ?probe
    using tag l8 rest by (simp add: p encode_probe_def Let_def PROBE_TAG_LEN_def u64_max_def)
next
  assume r: ?probe
  let ?n = "pb_nonce p" and ?t = "pb_timestamp_ms p"
  let ?h = "probe_head ps dir ?t ?n"
  have b: "bytes = ?h @ take 16 (hmac key ?h)" using r by (simp add: encode_probe_def Let_def PROBE_TAG_LEN_def)
  have n8: "length ?n = 8" using r by blast
  have len: "length bytes = 54" using length_probe_head [OF ps n8] mac [of key ?h] by (simp add: b)
  have f: "slice 0 4 bytes = PROBE_MAGIC" "bytes ! 4 = PROBE_VERSION" "bytes ! 5 = direction_byte dir"
    "slice 6 22 bytes = ps" "slice 22 30 bytes = be64 ?t" "slice 30 38 bytes = ?n" "take 38 bytes = ?h"
    "drop 38 bytes = take 16 (hmac key ?h)"
    using probe_fields(1-8) [where m = PROBE_MAGIC and ps = ps and ts = "be64 ?t" and nn = ?n and v = PROBE_VERSION
        and d = "direction_byte dir" and t = "take 16 (hmac key ?h)"] n8 ps
    unfolding b by (simp_all add: probe_head_def PROBE_MAGIC_def)
  have "direction_from_byte (direction_byte dir) = Some dir" by (simp add: direction_from_byte_iff)
  then show ?acc
    using r f len by (simp add: verify_probe_def Let_def PROBE_LEN_def PROBE_TAG_LEN_def constant_time_eq_iff)
qed

section \<open>Sending\<close>

lemma send_probes_spec:
  assumes "send_probes fround hmac clock now rng peers s = (s', sends)"
  shows "pu_key s' = pu_key s \<and> pu_path_session s' = pu_path_session s \<and> pu_send_direction s' = pu_send_direction s
     \<and> pu_state s' = pu_state s \<and> pu_seen_nonces s' = pu_seen_nonces s
     \<and> pu_outgoing_nonces s \<subseteq> pu_outgoing_nonces s'
     \<and> (\<forall>(peer, b) \<in> set sends. \<exists>i. rng i \<in> pu_outgoing_nonces s'
          \<and> b = encode_probe hmac (pu_key s) (pu_path_session s) (pu_send_direction s) now (rng i))"
  using assms
proof (induction peers arbitrary: rng s s' sends)
  case Nil
  then show ?case by simp
next
  case (Cons peer peers)
  show ?case
  proof (cases "pu_tokens s < 1")
    case True
    then show ?thesis using Cons.prems by simp
  next
    case False
    let ?s1 = "s\<lparr>pu_tokens := fround (pu_tokens s - 1), pu_outgoing_nonces := insert (rng 0) (pu_outgoing_nonces s),
                 pu_in_flight := pu_in_flight s @ [(rng 0, clock)]\<rparr>"
    obtain rest where rest: "send_probes fround hmac clock now (\<lambda>n. rng (Suc n)) peers ?s1 = (s', rest)"
      and sends: "sends = (peer, encode_probe hmac (pu_key s) (pu_path_session s) (pu_send_direction s) now (rng 0)) # rest"
      using Cons.prems False by (auto simp: Let_def split: prod.splits)
    note ih = Cons.IH [OF rest, simplified]
    have "\<exists>i. rng i \<in> pu_outgoing_nonces s'
        \<and> b = encode_probe hmac (pu_key s) (pu_path_session s) (pu_send_direction s) now (rng i)"
      if "(peer', b) \<in> set sends" for peer' b
      using that ih unfolding sends by fastforce
    then show ?thesis using ih by blast
  qed
qed

lemma punch_tick_spec:
  assumes "punch_tick fround hmac rng clock now s = (s', sends)" and "(peer, b) \<in> set sends"
  shows "pu_state s' = Probing \<and> pu_key s' = pu_key s \<and> pu_path_session s' = pu_path_session s
     \<and> pu_send_direction s' = pu_send_direction s
     \<and> (\<exists>i. rng i \<in> pu_outgoing_nonces s'
          \<and> b = encode_probe hmac (pu_key s) (pu_path_session s) (pu_send_direction s) now (rng i))"
proof -
  have pr: "pu_state s = Probing" using assms by (auto simp: punch_tick_def split: if_splits)
  obtain t where "send_probes fround hmac clock now rng (pu_peers s) (s\<lparr>pu_last_refill := clock, pu_tokens := t\<rparr>) = (s', sends)"
    using assms by (auto simp: punch_tick_def Let_def split: if_splits)
  from send_probes_spec [OF this] assms(2) pr show ?thesis by fastforce
qed

section \<open>Properties\<close>

text \<open>C3. The verifier accepts exactly the authentic probes: a datagram is accepted with a given
  timestamp and nonce if and only if it is, byte for byte, the probe the peer encodes for this
  path session, key and direction with that timestamp and nonce, the timestamp is within 30
  seconds and the nonce is new; accepting records the nonce, rejecting changes nothing.\<close>

theorem probe_accepted_iff_authentic:
  assumes "length ps = 16" and "\<forall>k m. 16 \<le> length (hmac k m)"
  shows "(fst (verify_probe hmac bytes key ps dir now seen) = Some p \<longleftrightarrow>
       bytes = encode_probe hmac key ps dir (pb_timestamp_ms p) (pb_nonce p)
       \<and> pb_direction p = dir \<and> length (pb_nonce p) = 8 \<and> pb_timestamp_ms p \<le> u64_max
       \<and> abs_diff64 now (pb_timestamp_ms p) \<le> PROBE_TIME_WINDOW_MS \<and> pb_nonce p \<notin> seen)
     \<and> snd (verify_probe hmac bytes key ps dir now seen) =
         (case fst (verify_probe hmac bytes key ps dir now seen) of
            None \<Rightarrow> seen | Some q \<Rightarrow> insert (pb_nonce q) seen)"
  using verify_probe_iff [OF assms(1), of hmac bytes key dir now seen p] assms(2)
  by (auto simp: verify_probe_def Let_def split: option.splits)

definition flat_hmac :: "string \<Rightarrow> string \<Rightarrow> string" where
  "flat_hmac k m = replicate 32 (CHR ''t'')"

lemma flat_hmac_length: "\<forall>k m. 16 \<le> length (flat_hmac k m)"
  by (simp add: flat_hmac_def)

theorem probe_accepted_iff_authentic_witness:
  "let ps = replicate 16 (CHR ''p''); n = replicate 8 (CHR ''n'')
   in fst (verify_probe flat_hmac (encode_probe flat_hmac ''k'' ps ControllerToHost 5 n) ''k'' ps ControllerToHost 9 {})
     = Some \<lparr>pb_direction = ControllerToHost, pb_timestamp_ms = 5, pb_nonce = n\<rparr>"
  using probe_accepted_iff_authentic [OF _ flat_hmac_length, of "replicate 16 (CHR ''p'')"
      "encode_probe flat_hmac ''k'' (replicate 16 (CHR ''p'')) ControllerToHost 5 (replicate 8 (CHR ''n''))"
      "''k''" ControllerToHost 9 "{}"
      "\<lparr>pb_direction = ControllerToHost, pb_timestamp_ms = 5, pb_nonce = replicate 8 (CHR ''n'')\<rparr>"]
  by (simp add: Let_def abs_diff64_def PROBE_TIME_WINDOW_MS_def u64_max_def)

text \<open>A path is established only by a proven round trip, and answering never amplifies. A
  datagram that moves a session to established is an authentic probe in the peer's direction
  carrying a nonce this session itself sent, and the path is the datagram's sender; a reply
  goes to the sender only, is exactly as long as the datagram, and answers a nonce not
  answered before.\<close>

lemma established_only_by_round_trip:
  assumes "length (pu_path_session s) = 16" and "\<forall>k m. 16 \<le> length (hmac k m)"
    and step: "handle_datagram hmac bytes sender clock now s = (s', reply)"
  shows "(\<forall>a. pu_state s' = Established a \<and> pu_state s \<noteq> Established a \<longrightarrow>
        a = sender \<and> pu_state s = Probing \<and> reply = None
        \<and> (\<exists>ts n. n \<in> pu_outgoing_nonces s
             \<and> bytes = encode_probe hmac (pu_key s) (pu_path_session s) (flipped (pu_send_direction s)) ts n))
     \<and> (\<forall>dest r. reply = Some (dest, r) \<longrightarrow> dest = sender \<and> length r = length bytes
        \<and> (\<exists>n. n \<notin> pu_seen_nonces s \<and> pu_seen_nonces s' = insert n (pu_seen_nonces s)))"
proof (cases "fst (verify_probe hmac bytes (pu_key s) (pu_path_session s) (flipped (pu_send_direction s)) now {})")
  case None
  then have "s' = s \<and> reply = None" using step by (auto simp: handle_datagram_def Let_def split: if_splits)
  then show ?thesis by auto
next
  case (Some pb)
  have auth: "bytes = encode_probe hmac (pu_key s) (pu_path_session s) (flipped (pu_send_direction s)) (pb_timestamp_ms pb) (pb_nonce pb)"
    and n8: "length (pb_nonce pb) = 8"
    using Some verify_probe_iff [OF assms(1)] assms(2) by blast+
  have "length (encode_probe hmac (pu_key s) (pu_path_session s) (pu_send_direction s) now (pb_nonce pb)) = length bytes"
    unfolding auth using assms(1,2) n8 by (simp add: length_encode_probe)
  then show ?thesis
    using step Some auth by (auto simp: handle_datagram_def Let_def split: if_splits)
qed

abbreviation test_punch :: punch_session where
  "test_punch \<equiv> punch_new ''k'' (replicate 16 (CHR ''p'')) ControllerToHost [] 0"

text \<open>The punch completes when packets get through: a probe that one peer's tick sends,
  delivered to the other peer of the same path session, is answered, and the answer delivered
  back establishes the path to the answering address, provided both clocks agree within the
  30 second window and the nonce is new to the answering peer.\<close>

lemma punch_completes:
  assumes key: "pu_key b = pu_key a" and ps: "pu_path_session b = pu_path_session a"
    and dir: "pu_send_direction b = flipped (pu_send_direction a)"
    and len: "length (pu_path_session a) = 16" and mac: "\<forall>k m. 16 \<le> length (hmac k m)"
    and rng: "\<forall>i. length (rng i) = 8 \<and> rng i \<notin> pu_seen_nonces b \<and> rng i \<notin> pu_outgoing_nonces b"
    and tick: "punch_tick fround hmac rng clock now_a a = (a1, sends)" and sent: "(peer, bytes) \<in> set sends"
    and clocks: "now_a \<le> u64_max" "now_b \<le> u64_max" "abs_diff64 now_b now_a \<le> PROBE_TIME_WINDOW_MS"
      "abs_diff64 now_a2 now_b \<le> PROBE_TIME_WINDOW_MS"
  shows "\<exists>answer b1. handle_datagram hmac bytes addr_a clock_b now_b b = (b1, Some (addr_a, answer))
     \<and> pu_state (fst (handle_datagram hmac answer addr_b clock_a2 now_a2 a1)) = Established addr_b"
proof -
  obtain i where a1: "pu_state a1 = Probing" "pu_key a1 = pu_key a" "pu_path_session a1 = pu_path_session a"
    "pu_send_direction a1 = pu_send_direction a" "rng i \<in> pu_outgoing_nonces a1"
    and bytes: "bytes = encode_probe hmac (pu_key a) (pu_path_session a) (pu_send_direction a) now_a (rng i)"
    using punch_tick_spec [OF tick sent] by blast
  have n8: "length (rng i) = 8" using rng by blast
  have ff: "flipped (flipped d) = d" for d by (cases d) simp_all
  let ?probe = "\<lambda>d t. encode_probe hmac (pu_key a) (pu_path_session a) d t (rng i)"
  have plen: "length (?probe d t) = PROBE_LEN" "?probe d t ! 5 = direction_byte d" for d t
    using len n8 mac by (simp_all add: length_encode_probe encode_probe_direction)
  have ver: "fst (verify_probe hmac (?probe d t) (pu_key a) (pu_path_session a) d now {})
      = Some \<lparr>pb_direction = d, pb_timestamp_ms = t, pb_nonce = rng i\<rparr>"
    if "t \<le> u64_max" "abs_diff64 now t \<le> PROBE_TIME_WINDOW_MS" for d t now
    using verify_probe_iff [OF len, of hmac "?probe d t" "pu_key a" d now "{}"
        "\<lparr>pb_direction = d, pb_timestamp_ms = t, pb_nonce = rng i\<rparr>"] mac that n8 by simp
  let ?answer = "?probe (flipped (pu_send_direction a)) now_b"
  have "handle_datagram hmac bytes addr_a clock_b now_b b
      = (b\<lparr>pu_seen_nonces := insert (rng i) (pu_seen_nonces b)\<rparr>, Some (addr_a, ?answer))"
    using ver [OF clocks(1,3)] rng by (simp add: handle_datagram_def bytes key ps dir ff plen Let_def)
  moreover have "pu_state (fst (handle_datagram hmac ?answer addr_b clock_a2 now_a2 a1)) = Established addr_b"
    using ver [OF clocks(2,4)] a1 by (simp add: handle_datagram_def plen Let_def)
  ultimately show ?thesis by blast
qed

definition test_rng :: "nat \<Rightarrow> string" where
  "test_rng n = replicate 8 (CHR ''n'')"

abbreviation test_peer :: path_candidate where
  "test_peer \<equiv> \<lparr>pc_kind = Local, pc_address = V4 ''abcd'', pc_port = 9\<rparr>"

end
