(* ===== verification/Stun_Props.thy ===== *)
theory Stun_Props
  imports Punch_Props
begin

text \<open>
  STUN binding responses and path session identifiers: the decoders against the encodings of
  RFC 5389 and of \<open>random_path_session\<close>.
\<close>

section \<open>Attributes\<close>

text \<open>An attribute on the wire: type, length, value, zero padding to a multiple of four.\<close>

definition stun_attr :: "nat \<Rightarrow> string \<Rightarrow> string" where
  "stun_attr kind v = be16 kind @ be16 (length v) @ v @ replicate ((length v + 3) div 4 * 4 - length v) (CHR 0x00)"

lemma length_stun_attr: "length (stun_attr kind v) = 4 + (length v + 3) div 4 * 4"
proof -
  have "length v \<le> (length v + 3) div 4 * 4" by presburger
  then show ?thesis by (simp add: stun_attr_def)
qed

lemma slice_at: "slice (length pre + a) (length pre + b) (pre @ x) = slice a b x"
  by (simp add: slice_def)

lemma attr_fields:
  fixes pre post v :: string and kind :: nat
  defines "b \<equiv> pre @ stun_attr kind v @ post" and "n \<equiv> length pre"
  assumes "kind < 2 ^ 16" and "length v < 2 ^ 16"
  shows "be_val (slice n (n + 2) b) = kind" "be_val (slice (n + 2) (n + 4) b) = length v"
    "slice (n + 4) (n + 4 + length v) b = v" "n + 4 + length v \<le> length b"
proof -
  have s: "slice n (n + 2) b = be16 kind" "slice (n + 2) (n + 4) b = be16 (length v)"
    "slice (n + 4) (n + 4 + length v) b = v"
    using slice_at [of pre 0 2 "stun_attr kind v @ post"] slice_at [of pre 2 4 "stun_attr kind v @ post"]
      slice_at [of pre 4 "4 + length v" "stun_attr kind v @ post"]
    unfolding b_def n_def by (simp_all add: stun_attr_def slice_def add.assoc)
  then show "be_val (slice n (n + 2) b) = kind" "be_val (slice (n + 2) (n + 4) b) = length v"
    "slice (n + 4) (n + 4 + length v) b = v"
    using assms(3,4) by simp_all
  have "length v \<le> (length v + 3) div 4 * 4" by presburger
  then show "n + 4 + length v \<le> length b" by (simp add: b_def n_def length_stun_attr)
qed

lemma stun_attributes_skip:
  assumes "kind < 2 ^ 16" and "length v < 2 ^ 16" and "kind \<noteq> 0x0020"
  shows "stun_attributes (pre @ stun_attr kind v @ post) tx (length pre)
     = stun_attributes (pre @ stun_attr kind v @ post) tx (length (pre @ stun_attr kind v))"
proof -
  note f = attr_fields [OF assms(1,2), of pre post]
  have fits: "length pre + 4 \<le> length (pre @ stun_attr kind v @ post)" by (simp add: length_stun_attr)
  show ?thesis
    by (subst stun_attributes.simps, simp only: fits f Let_def if_True)
       (use f(4) assms(3) in \<open>simp add: length_stun_attr add.assoc\<close>)
qed

lemma stun_attributes_skip_all:
  assumes "\<forall>(k, v) \<in> set others. k < 2 ^ 16 \<and> length v < 2 ^ 16 \<and> k \<noteq> 0x0020"
  shows "stun_attributes (pre @ concat (map (\<lambda>(k, v). stun_attr k v) others) @ post) tx (length pre)
     = stun_attributes (pre @ concat (map (\<lambda>(k, v). stun_attr k v) others) @ post) tx
         (length (pre @ concat (map (\<lambda>(k, v). stun_attr k v) others)))"
  using assms
proof (induction others arbitrary: pre)
  case (Cons kv others)
  obtain k v where [simp]: "kv = (k, v)" by (cases kv)
  let ?rest = "concat (map (\<lambda>(k, v). stun_attr k v) others)"
  have "stun_attributes (pre @ stun_attr k v @ ?rest @ post) tx (length pre)
      = stun_attributes (pre @ stun_attr k v @ ?rest @ post) tx (length (pre @ stun_attr k v))"
    using Cons.prems by (intro stun_attributes_skip) auto
  also have "\<dots> = stun_attributes ((pre @ stun_attr k v) @ ?rest @ post) tx (length ((pre @ stun_attr k v) @ ?rest))"
    using Cons.IH [of "pre @ stun_attr k v"] Cons.prems by simp
  finally show ?case by simp
qed simp

lemma stun_attributes_mapped:
  assumes "length v < 2 ^ 16"
  shows "stun_attributes (pre @ stun_attr 0x0020 v @ post) tx (length pre) = parse_xor_mapped v tx"
proof -
  have k: "(0x0020 :: nat) < 2 ^ 16" by simp
  note f = attr_fields [OF k assms, of pre post]
  have fits: "length pre + 4 \<le> length (pre @ stun_attr 0x0020 v @ post)" by (simp add: length_stun_attr)
  have "\<not> length pre + 4 + length v > length (pre @ stun_attr 0x0020 v @ post)" using f(4) by simp
  then show ?thesis
    by (subst stun_attributes.simps) (simp only: fits f Let_def if_True if_False simp_thms)
qed

text \<open>The encoding of an address in the attribute.\<close>

fun xor_mapped_value :: "ip_addr \<Rightarrow> u16 \<Rightarrow> string \<Rightarrow> string" where
  "xor_mapped_value (V4 os) port tx =
     [CHR 0x00, CHR 0x01] @ be16 (port XOR 0x2112) @ be32 (be_val os XOR STUN_COOKIE)"
| "xor_mapped_value (V6 os) port tx =
     [CHR 0x00, CHR 0x02] @ be16 (port XOR 0x2112) @ map2 byte_xor os (be32 STUN_COOKIE @ tx)"

definition stun_success :: "string \<Rightarrow> string \<Rightarrow> (nat \<times> string) list \<Rightarrow> string \<Rightarrow> string" where
  "stun_success len_cookie tx attrs rest =
     be16 0x0101 @ len_cookie @ tx @ concat (map (\<lambda>(k, v). stun_attr k v) attrs) @ rest"

lemma parse_stun_success:
  assumes "length tx = 12" and "length len_cookie = 6" and "length v < 2 ^ 16"
    and "\<forall>(k, w) \<in> set others. k < 2 ^ 16 \<and> length w < 2 ^ 16 \<and> k \<noteq> 0x0020"
  shows "parse_stun_response (stun_success len_cookie tx (others @ [(0x0020, v)]) rest) tx = parse_xor_mapped v tx"
proof -
  let ?pre = "be16 0x0101 @ len_cookie @ tx"
  let ?others = "concat (map (\<lambda>(k, v). stun_attr k v) others)"
  have b: "stun_success len_cookie tx (others @ [(0x0020, v)]) rest = ?pre @ ?others @ stun_attr 0x0020 v @ rest"
    by (simp add: stun_success_def)
  have l: "length ?pre = 20" using assms(1,2) by simp
  have "slice 0 2 (?pre @ x) = be16 0x0101" "slice 8 20 (?pre @ x) = tx" for x
    using assms(1,2) by (simp_all add: slice_def)
  then have "parse_stun_response (?pre @ ?others @ stun_attr 0x0020 v @ rest) tx
      = stun_attributes (?pre @ ?others @ stun_attr 0x0020 v @ rest) tx (length ?pre)"
    using l by (simp add: parse_stun_response_def del: append_assoc)
  also have "\<dots> = stun_attributes (?pre @ ?others @ stun_attr 0x0020 v @ rest) tx (length (?pre @ ?others))"
    by (rule stun_attributes_skip_all [OF assms(4)])
  also have "\<dots> = parse_xor_mapped v tx"
    using stun_attributes_mapped [OF assms(3), of "?pre @ ?others" rest tx] by simp
  finally show ?thesis by (simp add: b)
qed

lemma map2_xor_cancel: "length a = length m \<Longrightarrow> map2 byte_xor (map2 byte_xor a m) m = a"
  by (induction a m rule: list_induct2) simp_all

lemma parse_xor_mapped_value:
  assumes "ip_wf addr" and "port < 2 ^ 16" and "length tx = 12"
  shows "parse_xor_mapped (xor_mapped_value addr port tx) tx = Some (Inr (addr, port))"
proof -
  have "port XOR 0x2112 < 2 ^ 16" using assms(2) by (intro xor_nat_lt) simp_all
  then have p: "be_val (be16 (port XOR 0x2112)) XOR 0x2112 = port" by (simp add: xor.assoc)
  show ?thesis
  proof (cases addr)
    case (V4 os)
    have "be_val os < 2 ^ 32" using be_val_less [of os] assms(1) V4 by simp
    then have "be_val os XOR STUN_COOKIE < 2 ^ 32" by (intro xor_nat_lt) (simp_all add: STUN_COOKIE_def)
    then have "be_val (be32 (be_val os XOR STUN_COOKIE)) XOR STUN_COOKIE = be_val os" by (simp add: xor.assoc)
    moreover have "be32 (be_val os) = os" using be_bytes_be_val [of os] assms(1) V4 by (simp add: be32_def)
    ultimately show ?thesis using p V4 by (simp add: parse_xor_mapped_def slice_def Let_def)
  next
    case (V6 os)
    then have "length os = length (be32 STUN_COOKIE @ tx)" using assms by simp
    from map2_xor_cancel [OF this] show ?thesis
      using p V6 assms by (simp add: parse_xor_mapped_def slice_def Let_def)
  qed
qed

lemma length_xor_mapped_value: "ip_wf addr \<Longrightarrow> length tx = 12 \<Longrightarrow> length (xor_mapped_value addr port tx) < 2 ^ 16"
  by (cases addr) simp_all

section \<open>Properties\<close>

text \<open>A STUN success response yields the address it encodes: for either address family,
  whatever other attributes precede the mapped address and whatever follows it.\<close>

lemma stun_response_decodes:
  assumes "ip_wf addr" and "port < 2 ^ 16" and "length tx = 12" and "length len_cookie = 6"
    and "\<forall>(k, w) \<in> set others. k < 2 ^ 16 \<and> length w < 2 ^ 16 \<and> k \<noteq> 0x0020"
  shows "parse_stun_response
       (stun_success len_cookie tx (others @ [(0x0020, xor_mapped_value addr port tx)]) rest) tx
     = Some (Inr (addr, port))"
  using parse_stun_success [OF assms(3,4) length_xor_mapped_value [OF assms(1,3)] assms(5)]
    parse_xor_mapped_value [OF assms(1-3)] by simp

text \<open>A success response whose mapped address has family 2 and a value of 8 to 19 bytes makes
  the decoder panic: the slice \<open>value[4..20]\<close> is out of range before the conversion that would
  report a short address is reached.\<close>

lemma stun_short_v6_panics:
  assumes "8 \<le> length v" and "length v < 20" and "v ! 1 = CHR 0x02" and "length tx = 12"
  shows "parse_stun_response (stun_success ''......'' tx [(0x0020, v)] []) tx = None"
  using parse_stun_success [OF assms(4), of "''......''" v "[]" "[]"] assms
  by (simp add: parse_xor_mapped_def Let_def)

lemma hex_digit_char: "n < 16 \<Longrightarrow> hex_digit (hex_char n) = Some n \<and> hex_char n \<noteq> CHR ''+''"
proof -
  assume n: "n < 16"
  have v: "byte_val (hex_char n) = (if n < 10 then 48 + n else 87 + n)"
    using n by (simp add: hex_char_def)
  have "byte_val (CHR ''+'') = 43" by (simp add: byte_val_def)
  with v have "hex_char n \<noteq> CHR ''+''" by (auto split: if_splits)
  then show ?thesis using n v by (simp add: hex_digit_def is_ascii_digit_def Let_def)
qed

lemma hex_byte_char: "hex_byte (hex_char (byte_val b div 16)) (hex_char (byte_val b mod 16)) = Some b"
proof -
  have "byte_val b div 16 < 16" using byte_val_less [of b] by simp
  then show ?thesis
    using hex_digit_char [of "byte_val b div 16"] hex_digit_char [of "byte_val b mod 16"]
    by (simp add: hex_byte_def byte_val_def)
qed

lemma hex_pairs_hex: "hex_pairs (path_session_hex bytes) = Some bytes"
  by (induction bytes) (simp_all add: path_session_hex_def hex_byte_char)

text \<open>Path session identifiers survive the wire: the 32 hexadecimal characters printed for
  16 bytes are read back as those bytes.\<close>

lemma path_session_round_trip:
  assumes "length bytes = 16"
  shows "length (path_session_hex bytes) = PATH_SESSION_HEX_LEN
     \<and> path_session_bytes (path_session_hex bytes) = Some bytes"
proof -
  have "length (path_session_hex bytes) = 2 * length bytes"
    by (induction bytes) (simp_all add: path_session_hex_def)
  then show ?thesis using assms hex_pairs_hex by (simp add: path_session_bytes_def PATH_SESSION_HEX_LEN_def)
qed

end
