(* ===== verification/Row_Navigation.thy ===== *)
theory Row_Navigation
  imports Prelude
begin

text \<open>
  Focus and viewport engine of App Kit's row collections
  (\<open>apps/app-kit/src/list_navigation.rs\<close>): the keymap, the state \<open>RowNavigationState\<close> with
  every operation that changes it, and the geometry queries. Rows have individual heights and
  may be passive (dividers). \<open>usize\<close> is a natural number, saturating additions keep their
  bound. \<open>starts\<close> holds the cumulative row numbers of the items; its indices are shown to be in
  range in every reachable state. \<open>partition_point\<close> is applied to \<open>starts\<close> only, which is
  increasing, so it is the length of the longest prefix on which the predicate holds.
  Key events and rectangles belong to crossterm and ratatui: of a key event only what the keymap
  reads is kept, and \<open>Rect::contains\<close> and \<open>Rect::new\<close> are parameters of the definitions that call
  them. Pointer tracking is presentation state and left out.
\<close>

section \<open>Keymap\<close>

datatype list_page_behavior = PageSelection | PageScroll

datatype row_boundary_behavior = Clamp | Wrap

datatype row_primary_role = StaticRow | Toggle | Checkmark | Disclosure | Command | Destructive

definition is_interactive :: "row_primary_role \<Rightarrow> bool" where
  "is_interactive r \<longleftrightarrow> r \<noteq> StaticRow"

datatype list_navigation_action = NavDown | NavUp | NavFirst | NavLast | NavPageDown | NavPageUp
  | NavActivate | NavBack

datatype list_navigation_outcome = NavNone | SelectionChanged nat | Scrolled nat
  | Activate nat | WentBack | FocusedBack

datatype row_key_decision = Navigate list_navigation_action | InvokePrimary

record list_keymap =
  space_pages_down :: bool
  character_aliases :: bool

definition keymap_new :: list_keymap where
  "keymap_new = \<lparr>space_pages_down = False, character_aliases = True\<rparr>"

datatype key_code = KDown | KUp | KHome | KEnd | KPageDown | KPageUp | KEnter | KEsc | KChar u32
  | KOther

text \<open>A character key carries its code point (32 is the space, 106 \<open>j\<close>, 107 \<open>k\<close>, 103 \<open>g\<close>,
  71 \<open>G\<close>, 113 \<open>q\<close>). \<open>key_command\<close>: one of the modifiers control, alt, super, hyper or meta is held.\<close>

record key_event =
  key_release :: bool
  key_command :: bool
  key_code :: key_code

definition action_for_key :: "list_keymap \<Rightarrow> key_event \<Rightarrow> list_navigation_action option" where
  "action_for_key km k =
     (if key_release k then None
      else let cmd = key_command k; alias = character_aliases km \<and> \<not> cmd in
      (case key_code k of
         KDown \<Rightarrow> Some NavDown
       | KUp \<Rightarrow> Some NavUp
       | KHome \<Rightarrow> Some NavFirst
       | KEnd \<Rightarrow> Some NavLast
       | KPageDown \<Rightarrow> Some NavPageDown
       | KPageUp \<Rightarrow> Some NavPageUp
       | KEnter \<Rightarrow> Some NavActivate
       | KEsc \<Rightarrow> Some NavBack
       | KChar c \<Rightarrow>
           if c = 32 \<and> space_pages_down km \<and> \<not> cmd then Some NavPageDown
           else if c = 106 \<and> alias then Some NavDown
           else if c = 107 \<and> alias then Some NavUp
           else if c = 103 \<and> alias then Some NavFirst
           else if c = 71 \<and> alias then Some NavLast
           else if c = 113 \<and> alias then Some NavBack
           else None
       | KOther \<Rightarrow> None))"

definition decision_for_key ::
    "list_keymap \<Rightarrow> key_event \<Rightarrow> row_primary_role \<Rightarrow> row_key_decision option" where
  "decision_for_key km k role =
     (if key_release k then None
      else if key_command k then None
      else case key_code k of
         KEnter \<Rightarrow> if is_interactive role then Some InvokePrimary else None
       | KChar c \<Rightarrow>
           if c = 32 then
             if role = Toggle then Some InvokePrimary else Some (Navigate NavPageDown)
           else map_option Navigate (action_for_key km k)
       | _ \<Rightarrow> map_option Navigate (action_for_key km k))"

section \<open>State\<close>

record rect =
  rect_x :: u16
  rect_y :: u16
  rect_width :: u16
  rect_height :: u16

record row_metrics =
  row_height :: u16
  row_selectable :: bool

record nav_state =
  selected :: "nat option"
  offset :: nat
  viewport_rows :: nat
  scroll_padding :: nat
  page_overlap :: nat
  page_behavior :: list_page_behavior
  boundary_behavior :: row_boundary_behavior
  reveal_selected :: bool
  rows_area :: rect
  heights :: "u16 list"
  selectable :: "bool list"
  starts :: "nat list"

definition nav_new :: "nat option \<Rightarrow> nav_state" where
  "nav_new sel = \<lparr>selected = sel, offset = 0, viewport_rows = 0, scroll_padding = 0,
     page_overlap = 1, page_behavior = PageSelection, boundary_behavior = Clamp,
     reveal_selected = True,
     rows_area = \<lparr>rect_x = 0, rect_y = 0, rect_width = 0, rect_height = 0\<rparr>,
     heights = [], selectable = [], starts = []\<rparr>"

section \<open>Queries\<close>

definition is_selectable :: "nav_state \<Rightarrow> nat \<Rightarrow> bool" where
  "is_selectable st i = (if i < length (selectable st) then selectable st ! i else True)"

definition snap_selectable :: "nav_state \<Rightarrow> nat \<Rightarrow> nat \<Rightarrow> nat option" where
  "snap_selectable st frm n =
     (if n = 0 then None
      else let f = min frm (n - 1) in
        (case List.find (is_selectable st) [f..<n] of
           Some i \<Rightarrow> Some i
         | None \<Rightarrow> List.find (is_selectable st) (rev [0..<f])))"

definition next_selectable :: "nav_state \<Rightarrow> nat \<Rightarrow> nat \<Rightarrow> nat option" where
  "next_selectable st frm n = List.find (is_selectable st) [saturating_add64 frm 1..<n]"

definition previous_selectable :: "nav_state \<Rightarrow> nat \<Rightarrow> nat option" where
  "previous_selectable st frm = List.find (is_selectable st) (rev [0..<frm])"

definition item_height :: "nav_state \<Rightarrow> nat \<Rightarrow> nat" where
  "item_height st i = (if i < length (heights st) then heights st ! i else 1)"

definition item_start_row :: "nav_state \<Rightarrow> nat \<Rightarrow> nat" where
  "item_start_row st i =
     (if heights st = [] then i else starts st ! min i (length (heights st)))"

definition content_rows :: "nav_state \<Rightarrow> nat \<Rightarrow> nat" where
  "content_rows st n =
     (if heights st = [] then n else if starts st = [] then 0 else last (starts st))"

definition offset_row :: "nav_state \<Rightarrow> nat" where
  "offset_row st = item_start_row st (offset st)"

fun visible_loop :: "nav_state \<Rightarrow> nat \<Rightarrow> nat list \<Rightarrow> nat" where
  "visible_loop st used [] = 0"
| "visible_loop st used (i # is) =
     (let used' = used + item_height st i in
      if viewport_rows st < used' then 0 else Suc (visible_loop st used' is))"

definition visible_item_count :: "nav_state \<Rightarrow> nat \<Rightarrow> nat" where
  "visible_item_count st n =
     (if heights st = [] then min (viewport_rows st) (n - offset st)
      else visible_loop st 0 [offset st..<min n (length (heights st))])"

definition partition_point :: "(nat \<Rightarrow> bool) \<Rightarrow> nat list \<Rightarrow> nat" where
  "partition_point P xs = length (takeWhile P xs)"

definition item_at_row :: "nav_state \<Rightarrow> nat \<Rightarrow> nat" where
  "item_at_row st r =
     (if heights st = [] then r
      else partition_point (\<lambda>s. s \<le> r) (take (length (heights st)) (starts st)) - 1)"

definition item_starting_at_or_after :: "nav_state \<Rightarrow> nat \<Rightarrow> nat" where
  "item_starting_at_or_after st r =
     (if heights st = [] then r
      else partition_point (\<lambda>s. s < r) (take (length (heights st)) (starts st)))"

definition max_offset :: "nav_state \<Rightarrow> nat \<Rightarrow> nat" where
  "max_offset st n =
     (if heights st = [] then n - viewport_rows st
      else let m = min n (length (heights st));
               first_row = starts st ! m - viewport_rows st
           in partition_point (\<lambda>s. s < first_row) (take m (starts st)))"

definition item_at ::
    "(rect \<Rightarrow> nat \<times> nat \<Rightarrow> bool) \<Rightarrow> nav_state \<Rightarrow> nat \<times> nat \<Rightarrow> nat \<Rightarrow> nat option" where
  "item_at rect_contains st pos n =
     (if \<not> rect_contains (rows_area st) pos then None
      else let row = snd pos - rect_y (rows_area st) in
        if heights st = [] then
          (let i = saturating_add64 (offset st) row in if i < n then Some i else None)
        else
          (let cr = saturating_add64 (offset_row st) row in
           if content_rows st n \<le> cr then None
           else let i = item_at_row st cr in if i < n then Some i else None))"

definition item_area ::
    "(u16 \<Rightarrow> u16 \<Rightarrow> u16 \<Rightarrow> u16 \<Rightarrow> rect) \<Rightarrow> nav_state \<Rightarrow> nat \<Rightarrow> rect option" where
  "item_area rect_new st i =
     (if i < offset st then None
      else let row = item_start_row st i - offset_row st; area = rows_area st in
        if 65535 < row then None
        else if rect_height area \<le> row then None
        else Some (rect_new (rect_x area) (min (rect_y area + row) 65535) (rect_width area)
               (min (min (item_height st i) 65535) (rect_height area - row))))"

section \<open>Operations\<close>

definition set_navigation :: "nat \<Rightarrow> nat \<Rightarrow> list_page_behavior \<Rightarrow> nav_state \<Rightarrow> nav_state" where
  "set_navigation padding overlap behavior st =
     st\<lparr>scroll_padding := padding, page_overlap := overlap, page_behavior := behavior\<rparr>"

definition set_boundary_behavior :: "row_boundary_behavior \<Rightarrow> nav_state \<Rightarrow> nav_state" where
  "set_boundary_behavior b st = st\<lparr>boundary_behavior := b\<rparr>"

definition select :: "nat option \<Rightarrow> nat \<Rightarrow> nav_state \<Rightarrow> nav_state \<times> bool" where
  "select sel n st =
     (let nxt = (if n = 0 then None else Option.bind sel (\<lambda>i. snap_selectable st i n));
          changed = (nxt \<noteq> selected st);
          st' = st\<lparr>selected := nxt\<rparr>
      in (if changed then st'\<lparr>reveal_selected := True\<rparr> else st', changed))"

definition request_reveal :: "nav_state \<Rightarrow> nav_state" where
  "request_reveal st = st\<lparr>reveal_selected := True\<rparr>"

definition set_offset :: "nat \<Rightarrow> nat \<Rightarrow> nav_state \<Rightarrow> nav_state" where
  "set_offset k n st = st\<lparr>offset := min k (max_offset st n), reveal_selected := False\<rparr>"

definition saturating_add_signed :: "nat \<Rightarrow> int \<Rightarrow> nat" where
  "saturating_add_signed a d = nat (min (max 0 (int a + d)) (int u64_max))"

definition scroll_by :: "int \<Rightarrow> nat \<Rightarrow> nav_state \<Rightarrow> nav_state \<times> bool" where
  "scroll_by delta n st =
     (let nxt = min (saturating_add_signed (offset st) delta) (max_offset st n)
      in (st\<lparr>offset := nxt, reveal_selected := False\<rparr>, nxt \<noteq> offset st))"

definition effective_padding :: "nav_state \<Rightarrow> nat" where
  "effective_padding st = min (scroll_padding st) ((viewport_rows st - 1) div 2)"

definition reveal :: "nat \<Rightarrow> nav_state \<Rightarrow> nav_state" where
  "reveal n st =
     (case selected st of
        None \<Rightarrow> st\<lparr>offset := min (offset st) (max_offset st n), reveal_selected := False\<rparr>
      | Some sel \<Rightarrow>
          if viewport_rows st = 0 then st\<lparr>offset := 0\<rparr>
          else
            let padding = effective_padding st;
                sel_start = item_start_row st sel;
                sel_end = saturating_add64 sel_start (item_height st sel);
                top = offset_row st;
                first_row = saturating_add64 top padding;
                last_row = saturating_add64 top (viewport_rows st - padding);
                off = (if sel_start < first_row then item_at_row st (sel_start - padding)
                       else if last_row < sel_end then
                         min (item_starting_at_or_after st
                                (saturating_add64 sel_end padding - viewport_rows st)) sel
                       else offset st)
            in st\<lparr>offset := min off (max_offset st n), reveal_selected := False\<rparr>)"

definition page_size :: "nat \<Rightarrow> nav_state \<Rightarrow> nat" where
  "page_size n st = max ((if heights st = [] then viewport_rows st else visible_item_count st n)
     - page_overlap st) 1"

definition isize_max :: nat where
  "isize_max = 2 ^ 63 - 1"

definition navigate_target ::
    "list_navigation_action \<Rightarrow> nat \<Rightarrow> nat \<Rightarrow> nat \<Rightarrow> nav_state \<Rightarrow> nat" where
  "navigate_target action n current page st =
     (let wrap = (boundary_behavior st = Wrap);
          first = (case snap_selectable st 0 n of Some i \<Rightarrow> i | None \<Rightarrow> current);
          lst = (case previous_selectable st n of Some i \<Rightarrow> i | None \<Rightarrow> current)
      in min (case action of
           NavDown \<Rightarrow> (case next_selectable st current n of
               Some i \<Rightarrow> i | None \<Rightarrow> if wrap then first else current)
         | NavUp \<Rightarrow> (case previous_selectable st current of
               Some i \<Rightarrow> i | None \<Rightarrow> if wrap then lst else current)
         | NavFirst \<Rightarrow> first
         | NavLast \<Rightarrow> lst
         | NavPageDown \<Rightarrow>
             (let target = min (saturating_add64 current page) (n - 1) in
              case List.find (is_selectable st) [target..<n] of
                Some i \<Rightarrow> i
              | None \<Rightarrow> (case previous_selectable st (target + 1) of
                  Some i \<Rightarrow> i | None \<Rightarrow> current))
         | NavPageUp \<Rightarrow>
             (let target = current - page in
              case List.find (is_selectable st) (rev [0..<Suc target]) of
                Some i \<Rightarrow> i
              | None \<Rightarrow> (case next_selectable st (target - 1) n of
                  Some i \<Rightarrow> i | None \<Rightarrow> current))
         | NavActivate \<Rightarrow> current
         | NavBack \<Rightarrow> current) (n - 1))"

definition navigate ::
    "list_navigation_action \<Rightarrow> nat \<Rightarrow> nav_state \<Rightarrow> nav_state \<times> list_navigation_outcome" where
  "navigate action n st =
     (if action = NavBack then (st, WentBack)
      else if n = 0 then (st\<lparr>selected := None, offset := 0\<rparr>, NavNone)
      else case snap_selectable st (case selected st of None \<Rightarrow> 0 | Some i \<Rightarrow> i) n of
        None \<Rightarrow> (st\<lparr>selected := None\<rparr>, NavNone)
      | Some current \<Rightarrow>
          if action = NavActivate then (st\<lparr>selected := Some current\<rparr>, Activate current)
          else
            let page = page_size n st in
            if page_behavior st = PageScroll \<and> (action = NavPageDown \<or> action = NavPageUp) then
              (let d = int (min page isize_max);
                   (st', changed) = scroll_by (if action = NavPageDown then d else - d) n st
               in (st', if changed then Scrolled (offset st') else NavNone))
            else
              let nxt = navigate_target action n current page st;
                  (st', changed) = select (Some nxt) n st
              in (reveal n st', if changed then SelectionChanged nxt else NavNone))"

definition prepare_common :: "rect \<Rightarrow> nat \<Rightarrow> nav_state \<Rightarrow> nav_state" where
  "prepare_common area n st =
     (let st = st\<lparr>rows_area := area, viewport_rows := rect_height area\<rparr> in
      if n = 0 then st\<lparr>selected := None, offset := 0, reveal_selected := False\<rparr>
      else
        let st = st\<lparr>selected := Option.bind (selected st) (\<lambda>i. snap_selectable st i n)\<rparr>;
            st = st\<lparr>offset := min (offset st) (max_offset st n)\<rparr>
        in if reveal_selected st then reveal n st else st)"

definition prepare :: "rect \<Rightarrow> nat \<Rightarrow> nav_state \<Rightarrow> nav_state" where
  "prepare area n st = prepare_common area n (st\<lparr>heights := [], starts := [], selectable := []\<rparr>)"

fun running_totals :: "nat \<Rightarrow> nat list \<Rightarrow> nat list" where
  "running_totals t [] = [t]"
| "running_totals t (h # hs) = t # running_totals (t + h) hs"

definition prepare_with_heights_and_selectable :: "rect \<Rightarrow> u16 list \<Rightarrow> nav_state \<Rightarrow> nav_state" where
  "prepare_with_heights_and_selectable area hs st =
     (let hs' = map (\<lambda>h. max h 1) hs in
      prepare_common area (length hs') (st\<lparr>heights := hs', starts := running_totals 0 hs'\<rparr>))"

definition prepare_with_heights :: "rect \<Rightarrow> u16 list \<Rightarrow> nav_state \<Rightarrow> nav_state" where
  "prepare_with_heights area hs st =
     prepare_with_heights_and_selectable area hs (st\<lparr>selectable := []\<rparr>)"

definition prepare_with_rows :: "rect \<Rightarrow> row_metrics list \<Rightarrow> nav_state \<Rightarrow> nav_state" where
  "prepare_with_rows area rows st =
     prepare_with_heights_and_selectable area (map row_height rows)
       (st\<lparr>selectable := map row_selectable rows\<rparr>)"

end
