(* ===== verification/Row_Navigation_Facts.thy ===== *)
theory Row_Navigation_Facts
  imports Row_Navigation
begin

text \<open>
  Facts about the row engine: searching for selectable rows, the geometry of rows with one
  common or with individual heights behind one interface (locale \<open>row_layout\<close>, interpreted for
  both), and the state invariant \<open>nav_inv\<close> with its preservation by every operation.
\<close>

section \<open>Searching ranges\<close>

lemma find_upt_Some_iff:
  "List.find P [a..<b] = Some i \<longleftrightarrow> a \<le> i \<and> i < b \<and> P i \<and> (\<forall>j. a \<le> j \<and> j < i \<longrightarrow> \<not> P j)"
proof (induction "b - a" arbitrary: a)
  case 0
  then show ?case by simp
next
  case (Suc k)
  then have ab: "a < b" and IH: "List.find P [Suc a..<b] = Some i \<longleftrightarrow>
      Suc a \<le> i \<and> i < b \<and> P i \<and> (\<forall>j. Suc a \<le> j \<and> j < i \<longrightarrow> \<not> P j)" by auto
  have split: "a \<le> j \<longleftrightarrow> j = a \<or> Suc a \<le> j" for j by auto
  show ?case
  proof (cases "P a")
    case True
    then have "List.find P [a..<b] = Some a" using ab by (simp add: upt_conv_Cons)
    with True ab show ?thesis by (auto simp: split)
  next
    case False
    then have "List.find P [a..<b] = List.find P [Suc a..<b]" using ab by (simp add: upt_conv_Cons)
    with False IH show ?thesis by (auto simp: split)
  qed
qed

lemma find_rev_upt_Some_iff:
  "List.find P (rev [a..<b]) = Some i \<longleftrightarrow> a \<le> i \<and> i < b \<and> P i \<and> (\<forall>j. i < j \<and> j < b \<longrightarrow> \<not> P j)"
proof (induction b)
  case 0
  then show ?case by simp
next
  case (Suc b)
  show ?case
  proof (cases "a \<le> b \<and> P b")
    case True
    then show ?thesis by (auto simp: less_Suc_eq)
  next
    case False
    then show ?thesis using Suc by (auto simp: less_Suc_eq)
  qed
qed

lemma find_upt_None_iff: "List.find P [a..<b] = None \<longleftrightarrow> (\<forall>j. a \<le> j \<and> j < b \<longrightarrow> \<not> P j)"
  by (auto simp: find_None_iff)

lemma find_rev_upt_None_iff:
  "List.find P (rev [a..<b]) = None \<longleftrightarrow> (\<forall>j. a \<le> j \<and> j < b \<longrightarrow> \<not> P j)"
  by (auto simp: find_None_iff)

lemmas find_range_iffs = find_upt_Some_iff find_rev_upt_Some_iff find_upt_None_iff
  find_rev_upt_None_iff

lemma snap_selectable_Some:
  "snap_selectable st frm n = Some i \<Longrightarrow> i < n \<and> is_selectable st i"
  by (auto simp: snap_selectable_def Let_def find_range_iffs split: if_splits option.splits)

lemma snap_selectable_id:
  assumes "i < n" and "is_selectable st i"
  shows "snap_selectable st i n = Some i"
proof -
  have "List.find (is_selectable st) [i..<n] = Some i" using assms by (auto simp: find_upt_Some_iff)
  moreover have "min i (n - 1) = i" using assms(1) by simp
  ultimately show ?thesis using assms(1) by (simp add: snap_selectable_def)
qed

lemma snap_selectable_None:
  assumes "snap_selectable st frm n = None" and "i < n"
  shows "\<not> is_selectable st i"
proof -
  let ?f = "min frm (n - 1)"
  have up: "List.find (is_selectable st) [?f..<n] = None"
    and down: "List.find (is_selectable st) (rev [0..<?f]) = None"
    using assms by (auto simp: snap_selectable_def Let_def split: option.splits)
  show ?thesis
  proof (cases "?f \<le> i")
    case True
    then show ?thesis using up assms(2) by (simp only: find_upt_None_iff) blast
  next
    case False
    then show ?thesis using down by (simp only: find_rev_upt_None_iff) (meson le0 not_le)
  qed
qed

section \<open>Partition points and running totals\<close>

lemma partition_point_bounds:
  "partition_point P xs \<le> length xs"
  "i < partition_point P xs \<Longrightarrow> P (xs ! i)"
  "partition_point P xs < length xs \<Longrightarrow> \<not> P (xs ! partition_point P xs)"
  unfolding partition_point_def
  by (simp_all add: length_takeWhile_le nth_length_takeWhile)
     (metis nth_mem set_takeWhileD takeWhile_nth)

lemma length_running_totals [simp]: "length (running_totals t hs) = Suc (length hs)"
  by (induction hs arbitrary: t) auto

lemma running_totals_nth: "i \<le> length hs \<Longrightarrow> running_totals t hs ! i = t + sum_list (take i hs)"
proof (induction hs arbitrary: t i)
  case Nil
  then show ?case by simp
next
  case (Cons h hs)
  then show ?case by (cases i) auto
qed

lemma sum_take_mono: "i \<le> j \<Longrightarrow> sum_list (take i hs) \<le> (sum_list (take j hs) :: nat)"
proof -
  assume "i \<le> j"
  then have "take j hs = take i hs @ take (j - i) (drop i hs)" by (metis le_add_diff_inverse take_add)
  then show ?thesis by simp
qed

lemma sum_take_Suc: "i < length hs \<Longrightarrow> sum_list (take (Suc i) hs) = sum_list (take i hs) + (hs ! i :: nat)"
  by (simp add: take_Suc_conv_app_nth)

section \<open>Row layouts\<close>

text \<open>What scrolling relies on: the first row of an item, its height, the item that owns a row
  and the first item that starts at or after a row.\<close>

locale row_layout =
  fixes start height owner at_or_after :: "nat \<Rightarrow> nat" and n :: nat
  assumes start_mono: "i \<le> j \<Longrightarrow> start i \<le> start j"
    and start_Suc: "i < n \<Longrightarrow> start (Suc i) = start i + height i"
    and height_pos: "i < n \<Longrightarrow> 1 \<le> height i"
    and owner_bounds: "r < start n \<Longrightarrow>
          start (owner r) \<le> r \<and> r < start (owner r) + height (owner r) \<and> owner r < n"
    and at_or_after_start: "r \<le> start n \<Longrightarrow> r \<le> start (at_or_after r)"
begin

definition scroll_target :: "nat \<Rightarrow> nat \<Rightarrow> nat \<Rightarrow> nat \<Rightarrow> nat" where
  "scroll_target v p sel off =
     min (if start sel < start off + p then owner (start sel - p)
          else if start off + (v - p) < start sel + height sel then
            min (at_or_after (start sel + height sel + p - v)) sel
          else off)
       (at_or_after (start n - v))"

lemma end_le: "i < n \<Longrightarrow> start i + height i \<le> start n"
  using start_Suc [of i] start_mono [of "Suc i" n] by simp

lemma owner_start: "sel < n \<Longrightarrow> owner (start sel) = sel"
proof -
  assume "sel < n"
  have "start sel < start n" using end_le [OF \<open>sel < n\<close>] height_pos [OF \<open>sel < n\<close>] by simp
  from owner_bounds [OF this] have o1: "start (owner (start sel)) \<le> start sel"
    and o2: "start sel < start (owner (start sel)) + height (owner (start sel))"
    and o3: "owner (start sel) < n" by auto
  have "\<not> owner (start sel) < sel"
    using o2 start_Suc [OF o3] start_mono [of "Suc (owner (start sel))" sel] by (metis Suc_leI not_le)
  moreover have "\<not> sel < owner (start sel)"
    using o1 start_Suc [OF \<open>sel < n\<close>] height_pos [OF \<open>sel < n\<close>]
      start_mono [of "Suc sel" "owner (start sel)"] by fastforce
  ultimately show ?thesis by simp
qed

lemma scroll_target_shows:
  assumes sel: "sel < n" and v: "height sel \<le> v" and p: "p < v"
    and fit: "p = 0 \<or> (height sel + p + H \<le> v + 1 \<and> (\<forall>i < n. height i \<le> H))"
  shows "start (scroll_target v p sel off) \<le> start sel
    \<and> start sel + height sel \<le> start (scroll_target v p sel off) + v"
proof -
  define a where "a = (if start sel < start off + p then owner (start sel - p)
    else if start off + (v - p) < start sel + height sel then
      min (at_or_after (start sel + height sel + p - v)) sel
    else off)"
  define b where "b = at_or_after (start n - v)"
  note sel_end = end_le [OF sel]
  have b: "start n \<le> start b + v" using at_or_after_start [of "start n - v"] by (simp add: b_def)
  have own: "start (owner (start sel - p)) \<le> start sel - p
      \<and> start sel - p < start (owner (start sel - p)) + height (owner (start sel - p))
      \<and> owner (start sel - p) < n"
    using sel_end height_pos [OF sel] by (intro owner_bounds) simp
  have a_start: "start a \<le> start sel"
    using own start_mono [of "min (at_or_after (start sel + height sel + p - v)) sel" sel]
    by (auto simp: a_def)
  have a_end: "start sel + height sel \<le> start a + v"
  proof (cases "start sel < start off + p")
    case True
    then have a: "a = owner (start sel - p)" by (simp add: a_def)
    show ?thesis
    proof (cases "p = 0")
      case True
      then show ?thesis using a owner_start [OF sel] v by simp
    next
      case False
      with fit have "height sel + p + H \<le> v + 1" and "height a \<le> H" using own a by auto
      moreover have "start sel - p < start a + height a" using own a by simp
      ultimately show ?thesis by linarith
    qed
  next
    case False
    have "start sel + height sel + p - v \<le> start n" using sel_end p by simp
    from at_or_after_start [OF this] show ?thesis
      using False p v by (auto simp: a_def min_def)
  qed
  show ?thesis
  proof (cases "a \<le> b")
    case True
    then show ?thesis using a_start a_end by (simp add: scroll_target_def a_def [symmetric] b_def [symmetric])
  next
    case False
    then show ?thesis using a_start start_mono [of b a] b sel_end
      by (simp add: scroll_target_def a_def [symmetric] b_def [symmetric])
  qed
qed

end

interpretation uniform: row_layout "\<lambda>i. i" "\<lambda>_. Suc 0" "\<lambda>r. r" "\<lambda>r. r" n for n
  by unfold_locales auto

text \<open>Individual heights, as \<open>prepare_with_heights_and_selectable\<close> stores them.\<close>

abbreviation clamped :: "nat list \<Rightarrow> nat list" where
  "clamped hs \<equiv> map (\<lambda>h. max h 1) hs"

definition layout_start :: "nat list \<Rightarrow> nat \<Rightarrow> nat" where
  "layout_start hs i = sum_list (take i hs)"

definition layout_owner :: "nat list \<Rightarrow> nat \<Rightarrow> nat" where
  "layout_owner hs r = partition_point (\<lambda>s. s \<le> r) (take (length hs) (running_totals 0 hs)) - 1"

definition layout_after :: "nat list \<Rightarrow> nat \<Rightarrow> nat" where
  "layout_after hs r = partition_point (\<lambda>s. s < r) (take (length hs) (running_totals 0 hs))"

lemma totals_nth: "i < length hs \<Longrightarrow> take (length hs) (running_totals 0 hs) ! i = layout_start hs i"
  by (simp add: running_totals_nth layout_start_def)

lemma layout_owner_bounds:
  assumes "r < layout_start hs (length hs)"
  shows "layout_start hs (layout_owner hs r) \<le> r
    \<and> r < layout_start hs (layout_owner hs r) + hs ! layout_owner hs r
    \<and> layout_owner hs r < length hs"
proof -
  let ?t = "take (length hs) (running_totals 0 hs)"
  let ?k = "partition_point (\<lambda>s. s \<le> r) ?t"
  have len: "length ?t = length hs" by simp
  have k: "?k \<le> length hs" using partition_point_bounds(1) [of "\<lambda>s. s \<le> r" ?t] len by simp
  have hs: "hs \<noteq> []" using assms by (auto simp: layout_start_def)
  have "?k \<noteq> 0"
  proof
    assume "?k = 0"
    then have "\<not> layout_start hs 0 \<le> r"
      using partition_point_bounds(3) [of "\<lambda>s. s \<le> r" ?t] hs totals_nth [of 0 hs] by simp
    then show False by (simp add: layout_start_def)
  qed
  then obtain j where j: "?k = Suc j" by (cases ?k) auto
  then have jl: "j < length hs" using k by simp
  have lo: "layout_start hs j \<le> r"
    using partition_point_bounds(2) [of j "\<lambda>s. s \<le> r" ?t] j totals_nth [OF jl] by simp
  have hi: "r < layout_start hs (Suc j)"
  proof (cases "Suc j < length hs")
    case True
    then show ?thesis
      using partition_point_bounds(3) [of "\<lambda>s. s \<le> r" ?t] j totals_nth [OF True] by simp
  next
    case False
    then have "Suc j = length hs" using jl by simp
    with assms show ?thesis by simp
  qed
  then show ?thesis using lo jl j by (simp add: layout_owner_def layout_start_def sum_take_Suc)
qed

interpretation variable: row_layout "layout_start (clamped hs)"
    "\<lambda>i. if i < length (clamped hs) then clamped hs ! i else 1" "layout_owner (clamped hs)"
    "layout_after (clamped hs)" "length (clamped hs)" for hs
proof unfold_locales
  fix i j r :: nat
  let ?hs = "clamped hs"
  show "i \<le> j \<Longrightarrow> layout_start ?hs i \<le> layout_start ?hs j"
    unfolding layout_start_def by (rule sum_take_mono)
  show "i < length ?hs \<Longrightarrow> layout_start ?hs (Suc i)
      = layout_start ?hs i + (if i < length ?hs then ?hs ! i else 1)"
    using sum_take_Suc [of i ?hs] by (simp add: layout_start_def)
  show "i < length ?hs \<Longrightarrow> 1 \<le> (if i < length ?hs then ?hs ! i else 1)" by simp
  show "r < layout_start ?hs (length ?hs) \<Longrightarrow> layout_start ?hs (layout_owner ?hs r) \<le> r
      \<and> r < layout_start ?hs (layout_owner ?hs r)
          + (if layout_owner ?hs r < length ?hs then ?hs ! layout_owner ?hs r else 1)
      \<and> layout_owner ?hs r < length ?hs"
    using layout_owner_bounds [of r ?hs] by auto
  show "r \<le> layout_start ?hs (length ?hs) \<Longrightarrow> r \<le> layout_start ?hs (layout_after ?hs r)"
  proof (cases "layout_after ?hs r < length ?hs")
    case True
    then show ?thesis
      using partition_point_bounds(3) [of "\<lambda>s. s < r" "take (length ?hs) (running_totals 0 ?hs)"]
        totals_nth [OF True] by (simp add: layout_after_def)
  next
    case False
    then have "layout_after ?hs r = length ?hs"
      using partition_point_bounds(1) [of "\<lambda>s. s < r" "take (length ?hs) (running_totals 0 ?hs)"]
      by (simp add: layout_after_def)
    then show "r \<le> layout_start ?hs (length ?hs) \<Longrightarrow> ?thesis" by simp
  qed
qed

section \<open>State invariant\<close>

definition nav_geom :: "nav_state \<Rightarrow> bool" where
  "nav_geom st \<longleftrightarrow> heights st = []
     \<or> (list_all (\<lambda>h. 1 \<le> h) (heights st) \<and> starts st = running_totals 0 (heights st))"

definition sel_ok :: "nav_state \<Rightarrow> nat \<Rightarrow> bool" where
  "sel_ok st n = (case selected st of None \<Rightarrow> True | Some i \<Rightarrow> i < n \<and> is_selectable st i)"

inductive nav_reachable :: "nav_state \<Rightarrow> bool" where
  reach_new: "nav_reachable (nav_new sel)"
| reach_set_navigation: "nav_reachable st \<Longrightarrow> nav_reachable (set_navigation p v b st)"
| reach_set_boundary: "nav_reachable st \<Longrightarrow> nav_reachable (set_boundary_behavior wb st)"
| reach_select: "nav_reachable st \<Longrightarrow> nav_reachable (fst (select sel n st))"
| reach_request_reveal: "nav_reachable st \<Longrightarrow> nav_reachable (request_reveal st)"
| reach_set_offset: "nav_reachable st \<Longrightarrow> nav_reachable (set_offset k n st)"
| reach_scroll: "nav_reachable st \<Longrightarrow> nav_reachable (fst (scroll_by d n st))"
| reach_reveal: "nav_reachable st \<Longrightarrow> nav_reachable (reveal n st)"
| reach_navigate: "nav_reachable st \<Longrightarrow> nav_reachable (fst (navigate a n st))"
| reach_prepare: "nav_reachable st \<Longrightarrow> nav_reachable (prepare area n st)"
| reach_prepare_heights: "nav_reachable st \<Longrightarrow> nav_reachable (prepare_with_heights area hs st)"
| reach_prepare_rows: "nav_reachable st \<Longrightarrow> nav_reachable (prepare_with_rows area rows st)"

text \<open>No operation but the preparations touches the geometry.\<close>

definition geometry :: "nav_state \<Rightarrow> u16 list \<times> nat list \<times> bool list" where
  "geometry st = (heights st, starts st, selectable st)"

lemma geometry_simps [simp]:
  "geometry (set_navigation p v b st) = geometry st"
  "geometry (set_boundary_behavior wb st) = geometry st"
  "geometry (request_reveal st) = geometry st"
  "geometry (set_offset k n st) = geometry st"
  "geometry (fst (scroll_by d n st)) = geometry st"
  "geometry (reveal n st) = geometry st"
  "geometry (fst (select sel n st)) = geometry st"
  by (simp_all add: geometry_def set_navigation_def set_boundary_behavior_def request_reveal_def
      set_offset_def scroll_by_def reveal_def select_def Let_def split: option.splits)

lemma geometry_navigate [simp]: "geometry (fst (navigate a n st)) = geometry st"
  using geometry_simps(5) [of _ n st] geometry_simps(6,7)
  by (auto simp: navigate_def Let_def case_prod_unfold geometry_def split: option.splits)

lemma geometry_prepare_common [simp]: "geometry (prepare_common area n st) = geometry st"
  using geometry_simps(6) by (simp add: prepare_common_def Let_def geometry_def)

lemma nav_geom_cong: "geometry st = geometry st' \<Longrightarrow> nav_geom st = nav_geom st'"
  by (simp add: geometry_def nav_geom_def)

lemma is_selectable_cong: "geometry st = geometry st' \<Longrightarrow> is_selectable st = is_selectable st'"
  by (simp add: geometry_def is_selectable_def fun_eq_iff)

lemma nav_reachable_geom: "nav_reachable st \<Longrightarrow> nav_geom st"
proof (induction rule: nav_reachable.induct)
  case (reach_new sel)
  then show ?case by (simp add: nav_new_def nav_geom_def)
next
  case (reach_prepare st area n)
  show ?case
    using nav_geom_cong [OF geometry_prepare_common, of area n "st\<lparr>heights := [], starts := [], selectable := []\<rparr>"]
    by (simp add: prepare_def nav_geom_def)
next
  case (reach_prepare_heights st area hs)
  show ?case
    unfolding prepare_with_heights_def prepare_with_heights_and_selectable_def Let_def
    by (subst nav_geom_cong [OF geometry_prepare_common]) (simp add: nav_geom_def list_all_iff)
next
  case (reach_prepare_rows st area rows)
  show ?case
    unfolding prepare_with_rows_def prepare_with_heights_and_selectable_def Let_def
    by (subst nav_geom_cong [OF geometry_prepare_common]) (simp add: nav_geom_def list_all_iff)
qed (simp_all add: nav_geom_cong [OF geometry_navigate] nav_geom_cong [OF geometry_simps(1)]
      nav_geom_cong [OF geometry_simps(2)] nav_geom_cong [OF geometry_simps(3)]
      nav_geom_cong [OF geometry_simps(4)] nav_geom_cong [OF geometry_simps(5)]
      nav_geom_cong [OF geometry_simps(6)] nav_geom_cong [OF geometry_simps(7)])

section \<open>Moving the selection\<close>

lemma select_selected:
  "selected (fst (select (Some i) n st)) = (if n = 0 then None else snap_selectable st i n)"
  by (simp add: select_def Let_def)

lemma selected_reveal [simp]: "selected (reveal n st) = selected st"
  by (simp add: reveal_def Let_def split: option.splits)

text \<open>The row a move aims at is selectable, so \<open>select\<close> takes it as it is.\<close>

lemma navigate_target_ok:
  assumes "c < n" and "is_selectable st c"
  shows "navigate_target a n c page st < n \<and> is_selectable st (navigate_target a n c page st)"
proof -
  define ok where "ok i \<longleftrightarrow> i < n \<and> is_selectable st i" for i
  have c: "ok c" using assms by (simp add: ok_def)
  have first: "snap_selectable st 0 n = Some i \<Longrightarrow> ok i" for i
    unfolding ok_def by (rule snap_selectable_Some)
  have nxt: "next_selectable st j n = Some i \<Longrightarrow> ok i" for i j
    by (auto simp: ok_def next_selectable_def find_range_iffs)
  have prv: "j \<le> n \<Longrightarrow> previous_selectable st j = Some i \<Longrightarrow> ok i" for i j
    by (auto simp: ok_def previous_selectable_def find_range_iffs)
  have fwd: "List.find (is_selectable st) [j..<n] = Some i \<Longrightarrow> ok i" for i j
    by (auto simp: ok_def find_range_iffs)
  have bwd: "j < n \<Longrightarrow> List.find (is_selectable st) (rev [0..<Suc j]) = Some i \<Longrightarrow> ok i" for i j
    unfolding find_range_iffs ok_def by auto
  have tgt: "min (saturating_add64 c page) (n - 1) + 1 \<le> n" using assms(1) by simp
  have up: "c - page < n" using assms(1) by simp
  have cn: "c \<le> n" using assms(1) by simp
  have opt: "(\<And>i. x = Some i \<Longrightarrow> ok i) \<Longrightarrow> ok d \<Longrightarrow> ok (case x of Some i \<Rightarrow> i | None \<Rightarrow> d)" for x d
    by (cases x) auto
  have fst_ok: "ok (case snap_selectable st 0 n of Some i \<Rightarrow> i | None \<Rightarrow> c)"
    using first c by (rule opt)
  have lst_ok: "ok (case previous_selectable st n of Some i \<Rightarrow> i | None \<Rightarrow> c)"
    using prv [OF order_refl] c by (rule opt)
  have fin: "ok i \<Longrightarrow> ok (min i (n - 1))" for i by (auto simp: ok_def min_def)
  have "ok (navigate_target a n c page st)"
  proof (cases a)
    case NavPageDown
    show ?thesis
      unfolding navigate_target_def Let_def NavPageDown list_navigation_action.case
      by (intro fin opt) (erule fwd prv [OF tgt] | rule c)+
  next
    case NavPageUp
    show ?thesis
      unfolding navigate_target_def Let_def NavPageUp list_navigation_action.case
      by (intro fin opt) (erule bwd [OF up] nxt | rule c)+
  qed (use fst_ok lst_ok c nxt prv [OF cn] in
      \<open>auto simp: navigate_target_def intro!: fin [simplified] opt\<close>)
  then show ?thesis by (simp add: ok_def)
qed

lemma navigate_selected:
  assumes "snap_selectable st (case selected st of None \<Rightarrow> 0 | Some i \<Rightarrow> i) n = Some c"
    and "a \<noteq> NavBack" and "a \<noteq> NavActivate"
    and "page_behavior st = PageSelection \<or> a \<notin> {NavPageDown, NavPageUp}"
  shows "fst (navigate a n st)
      = reveal n (fst (select (Some (navigate_target a n c (page_size n st) st)) n st))"
    and "selected (fst (navigate a n st)) = Some (navigate_target a n c (page_size n st) st)"
    and "selected st \<noteq> Some (navigate_target a n c (page_size n st) st) \<Longrightarrow>
      snd (navigate a n st) = SelectionChanged (navigate_target a n c (page_size n st) st)"
proof -
  have n: "n \<noteq> 0" using assms(1) by (auto simp: snap_selectable_def split: if_splits)
  show eq: "fst (navigate a n st)
      = reveal n (fst (select (Some (navigate_target a n c (page_size n st) st)) n st))"
    using assms n by (auto simp: navigate_def Let_def case_prod_unfold)
  show "selected (fst (navigate a n st)) = Some (navigate_target a n c (page_size n st) st)"
    using n navigate_target_ok [of c n st a "page_size n st"] snap_selectable_Some [OF assms(1)]
    by (simp add: eq select_selected snap_selectable_id)
  show "selected st \<noteq> Some (navigate_target a n c (page_size n st) st) \<Longrightarrow>
      snd (navigate a n st) = SelectionChanged (navigate_target a n c (page_size n st) st)"
    using assms n navigate_target_ok [of c n st a "page_size n st"] snap_selectable_Some [OF assms(1)]
    by (auto simp: navigate_def Let_def case_prod_unfold select_def snap_selectable_id)
qed

end
