(* ===== verification/Row_Navigation_Props.thy ===== *)
theory Row_Navigation_Props
  imports Row_Navigation_Facts
begin

text \<open>
  Properties of the row engine: the selection is always a selectable row, moves refine a cursor
  over the list of selectable rows, a move leaves the selected row inside the viewport, and a
  tall neighbour can scroll it out of view.
\<close>

section \<open>Visibility\<close>

definition fully_visible :: "nav_state \<Rightarrow> nat \<Rightarrow> bool" where
  "fully_visible st i \<longleftrightarrow> offset_row st \<le> item_start_row st i
     \<and> item_start_row st i + item_height st i \<le> offset_row st + viewport_rows st"

text \<open>The state agrees with \<open>n\<close> items and all row numbers are far from the machine bound.\<close>

definition nav_fits :: "nav_state \<Rightarrow> nat \<Rightarrow> bool" where
  "nav_fits st n \<longleftrightarrow> nav_geom st \<and> (heights st = [] \<or> n = length (heights st))
     \<and> offset st \<le> n \<and> item_start_row st n + 2 * viewport_rows st \<le> u64_max \<and> n < u64_max"

lemma clamped_id: "list_all (\<lambda>h. 1 \<le> h) hs \<Longrightarrow> clamped hs = hs"
  by (auto simp: list_all_iff intro!: map_idI)

lemma reveal_shows_selected:
  assumes fits: "nav_fits st n" and sel: "selected st = Some i" "i < n"
    and h: "item_height st i \<le> viewport_rows st" and v: "0 < viewport_rows st"
    and pad: "effective_padding st = 0 \<or> (item_height st i + effective_padding st + H
      \<le> viewport_rows st + 1 \<and> (\<forall>j < n. item_height st j \<le> H))"
  shows "fully_visible (reveal n st) i"
proof -
  let ?v = "viewport_rows st" and ?p = "effective_padding st" and ?st = "reveal n st"
  have p: "?p < ?v" using v by (auto simp: effective_padding_def min_def)
  have same: "item_height ?st = item_height st" "item_start_row ?st = item_start_row st"
    "viewport_rows ?st = ?v"
    by (auto simp: fun_eq_iff reveal_def item_height_def item_start_row_def Let_def sel v)
  have off: "offset st \<le> n" and big: "item_start_row st n + 2 * ?v \<le> u64_max"
    using fits by (auto simp: nav_fits_def)
  show ?thesis
  proof (cases "heights st = []")
    case True
    have sat: "saturating_add64 i (Suc 0) = Suc i" "saturating_add64 (offset st) ?p = offset st + ?p"
      "saturating_add64 (offset st) (?v - ?p) = offset st + (?v - ?p)"
      "saturating_add64 (Suc i) ?p = Suc i + ?p"
      using off big sel(2) p True by (auto intro!: saturating_add64_exact [THEN trans] simp: item_start_row_def)
    have "offset ?st = uniform.scroll_target n ?v ?p i (offset st)"
      unfolding uniform.scroll_target_def using sel v True
      by (simp add: reveal_def Let_def item_start_row_def item_height_def offset_row_def
          item_at_row_def item_starting_at_or_after_def max_offset_def sat)
    moreover have "uniform.scroll_target n ?v ?p i (offset st) \<le> i
        \<and> i + 1 \<le> uniform.scroll_target n ?v ?p i (offset st) + ?v"
      using uniform.scroll_target_shows [OF sel(2), of ?v ?p 1 "offset st"] v p h
        effective_padding_def [of st] by simp
    ultimately show ?thesis
      using True by (simp add: fully_visible_def same offset_row_def item_start_row_def item_height_def)
  next
    case False
    let ?hs = "heights st"
    have geo: "list_all (\<lambda>h. 1 \<le> h) ?hs" "starts st = running_totals 0 ?hs" and n: "n = length ?hs"
      using fits False by (auto simp: nav_fits_def nav_geom_def)
    note c = clamped_id [OF geo(1)]
    have start: "item_start_row st j = layout_start ?hs j" for j
      using False geo(2) by (simp add: item_start_row_def layout_start_def running_totals_nth min_def)
    have ht: "item_height st j = (if j < length ?hs then ?hs ! j else 1)" for j
      by (simp add: item_height_def)
    have own: "item_at_row st r = layout_owner ?hs r" for r
      using False geo(2) by (simp add: item_at_row_def layout_owner_def)
    have aft: "item_starting_at_or_after st r = layout_after ?hs r" for r
      using False geo(2) by (simp add: item_starting_at_or_after_def layout_after_def)
    have mx: "max_offset st n = layout_after ?hs (layout_start ?hs n - ?v)"
      using False geo(2) by (simp add: max_offset_def Let_def layout_after_def n layout_start_def running_totals_nth)
    have mono: "layout_start ?hs j \<le> layout_start ?hs n" if "j \<le> n" for j
      using that unfolding layout_start_def by (rule sum_take_mono)
    have ends: "layout_start ?hs i + item_height st i \<le> layout_start ?hs n"
      using variable.end_le [of i ?hs] sel(2) n ht c by simp
    have sat: "saturating_add64 (layout_start ?hs i) (item_height st i) = layout_start ?hs i + item_height st i"
      "saturating_add64 (layout_start ?hs (offset st)) ?p = layout_start ?hs (offset st) + ?p"
      "saturating_add64 (layout_start ?hs (offset st)) (?v - ?p) = layout_start ?hs (offset st) + (?v - ?p)"
      "saturating_add64 (layout_start ?hs i + item_height st i) ?p = layout_start ?hs i + item_height st i + ?p"
      using big ends mono [OF off] p by (auto intro!: saturating_add64_exact [THEN trans] simp: start)
    define tgt where "tgt = row_layout.scroll_target (layout_start ?hs)
      (\<lambda>j. if j < length ?hs then ?hs ! j else 1) (layout_owner ?hs) (layout_after ?hs) (length ?hs)
      ?v ?p i (offset st)"
    have "offset ?st = tgt"
      unfolding tgt_def variable.scroll_target_def [of ?hs, unfolded c]
      unfolding ht [symmetric] unfolding n [symmetric] using sel v p
      by (simp add: reveal_def Let_def offset_row_def start own aft mx sat)
    moreover have "layout_start ?hs tgt \<le> layout_start ?hs i
        \<and> layout_start ?hs i + item_height st i \<le> layout_start ?hs tgt + ?v"
      unfolding tgt_def ht
      by (rule variable.scroll_target_shows [of i ?hs ?v ?p H "offset st", unfolded c])
        (use sel(2) h pad p in \<open>simp_all add: ht n\<close>)
    ultimately show ?thesis by (simp add: fully_visible_def same start offset_row_def)
  qed
qed

section \<open>The cursor specification\<close>

text \<open>Abstractly the selection is a position in the list of selectable rows.\<close>

definition selectable_rows :: "nav_state \<Rightarrow> nat \<Rightarrow> nat list" where
  "selectable_rows st n = filter (is_selectable st) [0..<n]"

definition cursor_at :: "nav_state \<Rightarrow> nat \<Rightarrow> nat \<Rightarrow> bool" where
  "cursor_at st n k \<longleftrightarrow> k < length (selectable_rows st n)
     \<and> selected st = Some (selectable_rows st n ! k)"

fun cursor_step :: "row_boundary_behavior \<Rightarrow> list_navigation_action \<Rightarrow> nat \<Rightarrow> nat \<Rightarrow> nat" where
  "cursor_step b NavDown len k = (if Suc k < len then Suc k else if b = Wrap then 0 else k)"
| "cursor_step b NavUp len k = (if 0 < k then k - 1 else if b = Wrap then len - 1 else k)"
| "cursor_step b NavFirst len k = 0"
| "cursor_step b NavLast len k = len - 1"
| "cursor_step b _ len k = k"

lemma find_filter: "List.find P xs = (case filter P xs of [] \<Rightarrow> None | x # _ \<Rightarrow> Some x)"
  by (induction xs) auto

lemma find_rev_filter:
  "List.find P (rev xs) = (if filter P xs = [] then None else Some (last (filter P xs)))"
  by (cases "filter P xs" rule: rev_cases) (simp_all add: find_filter rev_filter [symmetric])

lemma selectable_rows_split:
  assumes "c < n" and "is_selectable st c"
  shows "selectable_rows st n = filter (is_selectable st) [0..<c] @ c # filter (is_selectable st) [Suc c..<n]"
proof -
  have "[0..<n] = [0..<c] @ c # [Suc c..<n]"
    using assms(1) upt_add_eq_append [of 0 c "n - c"] by (simp add: upt_conv_Cons)
  then show ?thesis using assms(2) by (simp add: selectable_rows_def)
qed

lemma cursor_split:
  assumes "cursor_at st n k" and "c = selectable_rows st n ! k"
  shows "c < n" "is_selectable st c" "length (filter (is_selectable st) [0..<c]) = k"
proof -
  let ?r = "selectable_rows st n"
  have k: "k < length ?r" using assms(1) by (simp add: cursor_at_def)
  then have "c \<in> set ?r" using assms(2) by simp
  then show c: "c < n" "is_selectable st c" by (auto simp: selectable_rows_def)
  let ?j = "length (filter (is_selectable st) [0..<c])"
  have "?j < length ?r" and "?r ! ?j = c" by (simp_all add: selectable_rows_split [OF c])
  moreover have "distinct ?r" by (simp add: selectable_rows_def)
  ultimately show "?j = k" using k assms(2) by (simp add: nth_eq_iff_index_eq)
qed

lemma cursor_target:
  assumes cur: "cursor_at st n k" and c: "c = selectable_rows st n ! k" and n: "n < u64_max"
    and a: "a \<in> {NavDown, NavUp, NavFirst, NavLast}"
  shows "navigate_target a n c page st
    = selectable_rows st n ! cursor_step (boundary_behavior st) a (length (selectable_rows st n)) k"
proof -
  let ?P = "is_selectable st" and ?r = "selectable_rows st n"
  note c' = cursor_split [OF cur c]
  let ?A = "filter ?P [0..<c]" and ?B = "filter ?P [Suc c..<n]"
  have r: "?r = ?A @ c # ?B" by (rule selectable_rows_split [OF c'(1,2)])
  have len: "length ?r = Suc (k + length ?B)" using r c'(3) by simp
  have nxt: "next_selectable st c n = (if Suc k < length ?r then Some (?r ! Suc k) else None)"
    using c'(1,3) n len r
    by (auto simp: next_selectable_def saturating_add64_exact find_filter nth_append split: list.splits)
  have prv: "previous_selectable st c = (if 0 < k then Some (?r ! (k - 1)) else None)"
    using c'(3) r by (auto simp: previous_selectable_def find_rev_filter nth_append last_conv_nth)
  have "?r \<noteq> []" using len by auto
  then have lst: "previous_selectable st n = Some (?r ! (length ?r - 1))"
    by (simp add: previous_selectable_def find_rev_filter selectable_rows_def [symmetric] last_conv_nth)
  have fst: "snap_selectable st 0 n = Some (?r ! 0)"
    using len c'(1) by (auto simp: snap_selectable_def find_filter selectable_rows_def [symmetric]
        split: list.splits)
  have bound: "?r ! j < n" if "j < length ?r" for j
    using nth_mem [OF that] by (auto simp: selectable_rows_def)
  have clip: "j < length ?r \<Longrightarrow> min (?r ! j) (n - 1) = ?r ! j" for j
    using bound [of j] by (auto simp: min_def)
  have kr: "k < length ?r" using cur by (simp add: cursor_at_def)
  show ?thesis
    unfolding navigate_target_def Let_def nxt prv lst fst
    using a kr \<open>?r \<noteq> []\<close>
    by (elim insertE emptyE) (simp_all add: c clip [simplified] kr less_imp_diff_less)
qed

text \<open>C17. The row engine implements a cursor over the selectable rows: for Down, Up, Home and End the
  selected row after the key is the row at the position the abstract cursor moves to (next, previous,
  first, last; at the ends it stays or wraps around as configured), whatever passive rows lie between,
  and Enter keeps it.\<close>

theorem navigation_refines_cursor:
  assumes "cursor_at st n k" and "n < u64_max"
    and "a \<in> {NavDown, NavUp, NavFirst, NavLast, NavActivate}"
  shows "cursor_at (fst (navigate a n st)) n
    (cursor_step (boundary_behavior st) a (length (selectable_rows st n)) k)"
proof -
  let ?r = "selectable_rows st n"
  define c where "c = ?r ! k"
  note c = cursor_split [OF assms(1) c_def]
  have sel: "selected st = Some c" and k: "k < length ?r"
    using assms(1) by (auto simp: cursor_at_def c_def)
  have rows: "selectable_rows (fst (navigate a n st)) n = ?r"
    using is_selectable_cong [OF geometry_navigate [of a n st]] by (simp add: selectable_rows_def)
  have snap: "snap_selectable st (case selected st of None \<Rightarrow> 0 | Some i \<Rightarrow> i) n = Some c"
    using c by (simp add: sel snap_selectable_id)
  show ?thesis
  proof (cases "a = NavActivate")
    case True
    have "selected (fst (navigate a n st)) = Some c" using snap c(1) True by (simp add: navigate_def)
    then show ?thesis using True k rows by (simp add: cursor_at_def c_def)
  next
    case False
    then have a: "a \<in> {NavDown, NavUp, NavFirst, NavLast}" using assms(3) by auto
    then have "selected (fst (navigate a n st)) = Some (navigate_target a n c (page_size n st) st)"
      using snap by (intro navigate_selected(2)) auto
    moreover have "cursor_step (boundary_behavior st) a (length ?r) k < length ?r"
      using a k by auto
    ultimately show ?thesis
      using rows cursor_target [OF assms(1) c_def assms(2) a] by (simp add: cursor_at_def)
  qed
qed

text \<open>In every state the operations can produce, a key that is not Back leaves a selection that is a
  selectable row of the list (or none), unless it only scrolls the page; and every index into the table
  of row starts is in range.\<close>

lemma selection_stays_selectable:
  assumes "nav_reachable st" and "a \<noteq> NavBack"
    and "page_behavior st = PageSelection \<or> a \<notin> {NavPageDown, NavPageUp}"
  shows "sel_ok (fst (navigate a n st)) n
    \<and> (heights st = [] \<or> min i (length (heights st)) < length (starts st))"
proof
  show "heights st = [] \<or> min i (length (heights st)) < length (starts st)"
    using nav_reachable_geom [OF assms(1)] by (auto simp: nav_geom_def)
  show "sel_ok (fst (navigate a n st)) n"
  proof (cases "n = 0 \<or> snap_selectable st (case selected st of None \<Rightarrow> 0 | Some i \<Rightarrow> i) n = None")
    case True
    then show ?thesis using assms(2) by (auto simp: navigate_def sel_ok_def)
  next
    case False
    then obtain c where c: "snap_selectable st (case selected st of None \<Rightarrow> 0 | Some i \<Rightarrow> i) n = Some c"
      by auto
    note ok = snap_selectable_Some [OF c]
    have same: "is_selectable (fst (navigate a n st)) = is_selectable st"
      by (rule is_selectable_cong) simp
    show ?thesis
    proof (cases "a = NavActivate")
      case True
      then have "selected (fst (navigate a n st)) = Some c" using c ok by (simp add: navigate_def)
      then show ?thesis using ok same by (simp add: sel_ok_def)
    next
      case False
      then show ?thesis
        using navigate_selected(2) [OF c assms(2) False assms(3)] same
          navigate_target_ok [of c n st a "page_size n st"] ok by (simp add: sel_ok_def)
    qed
  qed
qed

text \<open>A key that changes the selection scrolls it into view: the new selection is a selectable row and
  all its terminal rows lie inside the viewport, if the row fits and either no scroll padding is in
  effect or the padding leaves room for the tallest row.\<close>

lemma moved_selection_visible:
  assumes "nav_fits st n" and "navigate a n st = (st', SelectionChanged i)"
    and "item_height st i \<le> viewport_rows st" and "0 < viewport_rows st"
    and "effective_padding st = 0 \<or> (item_height st i + effective_padding st + H
      \<le> viewport_rows st + 1 \<and> (\<forall>j < n. item_height st j \<le> H))"
  shows "selected st' = Some i \<and> i < n \<and> is_selectable st' i \<and> fully_visible st' i"
proof -
  have pb: "page_behavior st \<noteq> PageScroll \<longleftrightarrow> page_behavior st = PageSelection"
    by (cases "page_behavior st") auto
  obtain c where c: "snap_selectable st (case selected st of None \<Rightarrow> 0 | Some i \<Rightarrow> i) n = Some c"
    and a: "a \<noteq> NavBack" "a \<noteq> NavActivate"
    and pg: "page_behavior st = PageSelection \<or> a \<notin> {NavPageDown, NavPageUp}"
    and i: "i = navigate_target a n c (page_size n st) st"
    using assms(2) pb by (auto simp: navigate_def Let_def case_prod_unfold split: if_splits option.splits)
  let ?s = "fst (select (Some i) n st)"
  have st': "st' = reveal n ?s"
    using navigate_selected(1) [OF c a pg] assms(2) i by simp
  have sel: "selected st' = Some i" using navigate_selected(2) [OF c a pg] assms(2) i by simp
  have ok: "i < n \<and> is_selectable st i"
    using navigate_target_ok snap_selectable_Some [OF c] i by blast
  have geo: "geometry st' = geometry st" using geometry_navigate [of a n st] assms(2) by simp
  have keep: "heights ?s = heights st" "starts ?s = starts st" "offset ?s = offset st"
    "viewport_rows ?s = viewport_rows st" "scroll_padding ?s = scroll_padding st"
    by (simp_all add: select_def Let_def)
  have fits: "nav_fits ?s n"
    using assms(1) unfolding nav_fits_def nav_geom_def item_start_row_def keep .
  have eqs: "item_height ?s = item_height st" "effective_padding ?s = effective_padding st"
    by (simp_all add: fun_eq_iff item_height_def effective_padding_def keep)
  have "selected ?s = Some i" using sel st' by simp
  then have "fully_visible (reveal n ?s) i"
    using fits ok assms(3-5) by (intro reveal_shows_selected [where H = H]) (simp_all only: eqs keep)
  then show ?thesis using sel ok st' is_selectable_cong [OF geo] by simp
qed

lemmas nav_defs = prepare_with_rows_def prepare_with_heights_def prepare_with_heights_and_selectable_def
  prepare_common_def nav_new_def set_navigation_def reveal_def navigate_def select_def
  navigate_target_def snap_selectable_def next_selectable_def previous_selectable_def
  is_selectable_def item_start_row_def item_height_def offset_row_def max_offset_def item_at_row_def
  item_starting_at_or_after_def partition_point_def effective_padding_def page_size_def
  visible_item_count_def saturating_add64_def u64_max_def fully_visible_def

text \<open>A list of four rows with a divider, in a viewport of two rows.\<close>

definition demo_state :: nav_state where
  "demo_state = prepare_with_rows \<lparr>rect_x = 0, rect_y = 0, rect_width = 10, rect_height = 2\<rparr>
     [\<lparr>row_height = 1, row_selectable = True\<rparr>, \<lparr>row_height = 1, row_selectable = False\<rparr>,
      \<lparr>row_height = 1, row_selectable = True\<rparr>, \<lparr>row_height = 1, row_selectable = True\<rparr>]
     (nav_new (Some 0))"

lemma demo_state_eq: "demo_state = \<lparr>selected = Some 0, offset = 0, viewport_rows = 2,
    scroll_padding = 0, page_overlap = 1, page_behavior = PageSelection, boundary_behavior = Clamp,
    reveal_selected = False,
    rows_area = \<lparr>rect_x = 0, rect_y = 0, rect_width = 10, rect_height = 2\<rparr>,
    heights = [1, 1, 1, 1], selectable = [True, False, True, True], starts = [0, 1, 2, 3, 4]\<rparr>"
  by (simp add: demo_state_def nav_defs upt_rec)

lemma demo_ranges: "[0..<4] = [0, 1, 2, 3]" "[1..<4] = [1, 2, 3]" "[Suc 0..<4] = [1, 2, 3]"
  "[2..<4] = [2, 3]"
  by (simp_all add: upt_rec)

lemma demo_rows: "selectable_rows demo_state 4 = [0, 2, 3]"
  by (simp add: demo_state_eq selectable_rows_def is_selectable_def demo_ranges)

lemma demo_facts: "cursor_at demo_state 4 0" "nav_fits demo_state 4" "item_height demo_state 2 = 1"
  "viewport_rows demo_state = 2" "effective_padding demo_state = 0"
  by (simp_all add: cursor_at_def demo_rows)
     (simp_all add: demo_state_eq nav_fits_def nav_geom_def item_start_row_def u64_max_def
      item_height_def effective_padding_def)

lemma demo_reachable: "nav_reachable demo_state"
  unfolding demo_state_def by (intro reach_prepare_rows reach_new)

lemma demo_moves: "navigate NavDown 4 demo_state = (fst (navigate NavDown 4 demo_state), SelectionChanged 2)"
proof -
  have "navigate_target NavDown 4 0 (page_size 4 demo_state) demo_state = 2"
    using cursor_target [OF demo_facts(1), of 0 NavDown] by (simp add: demo_rows u64_max_def)
  moreover have "selected demo_state = Some 0" by (simp add: demo_state_eq)
  moreover have "snap_selectable demo_state 0 4 = Some 0"
    by (rule snap_selectable_id) (simp_all add: demo_state_eq is_selectable_def)
  ultimately show ?thesis using navigate_selected(3) [of demo_state 4 0 NavDown] by (simp add: prod_eq_iff)
qed

theorem navigation_refines_cursor_witness:
  "cursor_at (fst (navigate NavDown 4 demo_state)) 4
     (cursor_step (boundary_behavior demo_state) NavDown (length (selectable_rows demo_state 4)) 0)"
  by (rule navigation_refines_cursor [OF demo_facts(1)]) (simp_all add: u64_max_def)

text \<open>With scroll padding a tall row above the selection defeats scrolling: in a viewport of three
  rows, a one-row item below a ten-row item is first shown, and pressing Down on it (it is the last
  row, nothing moves) scrolls it out of view.\<close>

lemma tall_row_hides_selection:
  "let st = prepare_with_heights \<lparr>rect_x = 0, rect_y = 0, rect_width = 10, rect_height = 3\<rparr> [10, 1]
         (set_navigation 1 0 PageSelection (nav_new (Some 1)));
       st' = fst (navigate NavDown 2 st)
   in selected st = Some 1 \<and> fully_visible st 1 \<and> snd (navigate NavDown 2 st) = NavNone
    \<and> selected st' = Some 1 \<and> item_height st' 1 \<le> viewport_rows st' \<and> \<not> fully_visible st' 1"
  by (simp add: nav_defs upt_rec Let_def)

end
