(* ===== verification/Relay_Socket.thy ===== *)
theory Relay_Socket
  imports Bytes Relay_Wire
begin

text \<open>
  Model of the transport half of \<open>crates/unpeel-core/src/relay_uplink.rs\<close>: the WebSocket framing
  of \<open>RelaySocket\<close> and the freshness of the cached entitlement. The socket is the script of what it
  will do: one \<open>tick\<close> per iteration of the read loop, with the cancellation flag, the clock and the
  outcome of the read as observed there. A call whose script ends before it returns yields \<open>None\<close>:
  it is still blocked. The random mask of an outgoing frame and the result of writing it are
  parameters. Dialling, TLS and the HTTP upgrade are I/O and left out.
\<close>

section \<open>Entitlement cache\<close>

definition ENTITLEMENT_REFRESH_WINDOW_SECS :: int where
  "ENTITLEMENT_REFRESH_WINDOW_SECS = 7 * 24 * 60 * 60"

datatype entitlement_cache_state = Missing | HostMismatch | Fresh | RefreshDue | Expired

record cached_entitlement =
  ce_entitlement :: string
  ce_mac_id :: string
  ce_expires_at :: int

fun as_i64 :: "json \<Rightarrow> int option" where
  "as_i64 (JNum (PosInt n)) = (if n < 2 ^ 63 then Some (int n) else None)"
| "as_i64 (JNum (NegInt i)) = Some i"
| "as_i64 _ = None"

text \<open>\<open>contents\<close> is the cache file, absent when it cannot be read.\<close>

definition cached_entitlement_record ::
    "(string \<Rightarrow> json option) \<Rightarrow> string option \<Rightarrow> cached_entitlement option" where
  "cached_entitlement_record from_slice contents =
     Option.bind contents (\<lambda>raw. Option.bind (from_slice raw) (\<lambda>value.
     Option.bind (jget_str ''entitlement'' value) (\<lambda>e.
     Option.bind (jget_str ''macID'' value) (\<lambda>m.
     Option.bind (Option.bind (jget ''expiresAt'' value) as_i64) (\<lambda>x.
       Some \<lparr>ce_entitlement = e, ce_mac_id = m, ce_expires_at = x\<rparr>)))))"

definition cache_state_at ::
    "cached_entitlement option \<Rightarrow> string \<Rightarrow> int \<Rightarrow> entitlement_cache_state" where
  "cache_state_at rec expected_mac_id now =
     (case rec of
        None \<Rightarrow> Missing
      | Some r \<Rightarrow>
          if ce_mac_id r \<noteq> expected_mac_id then HostMismatch
          else if ce_expires_at r \<le> now then Expired
          else if ce_expires_at r - now \<le> ENTITLEMENT_REFRESH_WINDOW_SECS then RefreshDue
          else Fresh)"

text \<open>\<open>cached_entitlement\<close>: the entitlement and the Host it is bound to, when still valid.\<close>

definition cached_entitlement_at ::
    "cached_entitlement option \<Rightarrow> string \<Rightarrow> int \<Rightarrow> (string \<times> string) option" where
  "cached_entitlement_at rec expected_mac_id now =
     Option.bind rec (\<lambda>r.
       if ce_expires_at r \<le> now \<or> ce_mac_id r \<noteq> expected_mac_id then None
       else Some (ce_entitlement r, ce_mac_id r))"

section \<open>Outgoing frames\<close>

definition xor_mask :: "string \<Rightarrow> string \<Rightarrow> string" where
  "xor_mask key payload = map (\<lambda>(i, b). byte_xor b (key ! (i mod 4))) (enumerate 0 payload)"

text \<open>\<open>len as u8\<close> and the like are exact in their branches.\<close>

definition frame_header :: "nat \<Rightarrow> nat \<Rightarrow> string" where
  "frame_header opcode len =
     char_of (128 OR opcode) #
       (if len < 126 then [char_of (128 OR len)]
        else if len < 65536 then char_of (128 OR (126 :: nat)) # be16 len
        else char_of (128 OR (127 :: nat)) # be64 len)"

text \<open>\<open>key\<close> is the four-byte mask.\<close>

definition send_opcode :: "string \<Rightarrow> nat \<Rightarrow> string \<Rightarrow> string" where
  "send_opcode key opcode payload =
     frame_header opcode (length payload) @ key @ xor_mask key payload"

definition socket_send :: "string \<Rightarrow> string \<Rightarrow> string" where
  "socket_send key payload = send_opcode key 2 payload"

definition send_ping :: "string \<Rightarrow> string" where
  "send_ping key = send_opcode key 9 []"

section \<open>Incoming frames\<close>

datatype read_result = ReadOk string | ReadWouldBlock | ReadError string

record tick =
  tk_cancelled :: bool
  tk_expired :: bool
  tk_timeout_error :: "string option"
  tk_read :: read_result

text \<open>The read buffer has 16 KiB.\<close>

definition READ_CHUNK :: nat where "READ_CHUNK = 16 * 1024"

fun fill_until :: "nat \<Rightarrow> tick list \<Rightarrow> string \<Rightarrow> (string + bool) option \<times> string \<times> tick list" where
  "fill_until needed [] buf = (if needed \<le> length buf then (Some (Inr True), buf, []) else (None, buf, []))"
| "fill_until needed (t # ts) buf =
     (if needed \<le> length buf then (Some (Inr True), buf, t # ts)
      else if tk_cancelled t then (Some (Inr False), buf, ts)
      else if tk_expired t then (Some (Inr False), buf, ts)
      else case tk_timeout_error t of
        Some e \<Rightarrow> (Some (Inl (''set relay read timeout: '' @ e)), buf, ts)
      | None \<Rightarrow>
          (case tk_read t of
             ReadWouldBlock \<Rightarrow> fill_until needed ts buf
           | ReadError e \<Rightarrow> (Some (Inl (''ws read: '' @ e)), buf, ts)
           | ReadOk bs \<Rightarrow>
               if bs = [] then (Some (Inl ''relay socket ended''), buf, ts)
               else fill_until needed ts (buf @ bs)))"

text \<open>Continue only when the buffer was filled; \<open>Inr None\<close> is the code's \<open>Ok(None)\<close>.\<close>

definition after_fill ::
    "(string + bool) option \<times> string \<times> tick list
       \<Rightarrow> (string \<Rightarrow> tick list \<Rightarrow> (string + 'a option) option \<times> string \<times> tick list)
       \<Rightarrow> (string + 'a option) option \<times> string \<times> tick list" where
  "after_fill r k =
     (case r of
        (None, buf, ts) \<Rightarrow> (None, buf, ts)
      | (Some (Inl e), buf, ts) \<Rightarrow> (Some (Inl e), buf, ts)
      | (Some (Inr False), buf, ts) \<Rightarrow> (Some (Inr None), buf, ts)
      | (Some (Inr True), buf, ts) \<Rightarrow> k buf ts)"

text \<open>Payload and rest of the buffer once the whole frame is there.\<close>

definition take_frame :: "nat \<Rightarrow> bool \<Rightarrow> nat \<Rightarrow> string \<Rightarrow> string \<times> string" where
  "take_frame off masked len buf =
     (let mask_len = (if masked then 4 else 0);
          payload = take len (drop (off + mask_len) buf);
          payload = (if masked then xor_mask (take 4 (drop off buf)) payload else payload)
      in (payload, drop (off + mask_len + len) buf))"

definition read_payload ::
    "nat \<Rightarrow> bool \<Rightarrow> nat \<Rightarrow> nat \<Rightarrow> tick list \<Rightarrow> string
       \<Rightarrow> (string + (nat \<times> string) option) option \<times> string \<times> tick list" where
  "read_payload opcode masked len off ts buf =
     (if MAX_FRAME_BYTES + 1024 < len then (Some (Inl ''oversized ws frame''), buf, ts)
      else after_fill (fill_until (off + (if masked then 4 else 0) + len) ts buf) (\<lambda>buf ts.
        let (payload, rest) = take_frame off masked len buf
        in (Some (Inr (Some (opcode, payload))), rest, ts)))"

definition read_frame_until ::
    "tick list \<Rightarrow> string \<Rightarrow> (string + (nat \<times> string) option) option \<times> string \<times> tick list" where
  "read_frame_until ts buf =
     after_fill (fill_until 2 ts buf) (\<lambda>buf ts.
       let opcode = byte_val (buf ! 0) AND 15;
           masked = (byte_val (buf ! 1) AND 128 \<noteq> 0);
           len = byte_val (buf ! 1) AND 127
       in if len = 126 then
            after_fill (fill_until 4 ts buf) (\<lambda>buf ts.
              read_payload opcode masked (be_val (take 2 (drop 2 buf))) 4 ts buf)
          else if len = 127 then
            after_fill (fill_until 10 ts buf) (\<lambda>buf ts.
              read_payload opcode masked (be_val (take 8 (drop 2 buf))) 10 ts buf)
          else read_payload opcode masked len 2 ts buf)"

datatype receive_outcome = Message string | Control | Idle

section \<open>Termination of the receive loop\<close>

text \<open>The bytes a call can still see: the buffer and what the script delivers.\<close>

definition tick_bytes :: "tick \<Rightarrow> string" where
  "tick_bytes t = (case tk_read t of ReadOk bs \<Rightarrow> bs | _ \<Rightarrow> [])"

definition pending :: "string \<Rightarrow> tick list \<Rightarrow> nat" where
  "pending buf ts = length buf + length (concat (map tick_bytes ts))"

lemma fill_until_pending: "fill_until m ts buf = (r, buf', ts') \<Longrightarrow> pending buf' ts' \<le> pending buf ts"
proof (induction m ts buf rule: fill_until.induct)
  case (1 m buf)
  then show ?case by (auto split: if_splits)
next
  case (2 m t ts buf)
  have less: "pending buf ts \<le> pending buf (t # ts)" by (simp add: pending_def)
  have "pending (buf @ bs) ts = pending buf (t # ts)" if "tk_read t = ReadOk bs" for bs
    using that by (simp add: pending_def tick_bytes_def)
  then show ?case
    using "2" less by (auto split: if_splits option.splits read_result.splits intro: order_trans)
qed

lemma fill_until_length:
  "fill_until m ts buf = (Some (Inr True), buf', ts') \<Longrightarrow> m \<le> length buf'"
  by (induction m ts buf rule: fill_until.induct)
     (auto split: if_splits option.splits read_result.splits)

lemma after_fill_eq_frame:
  assumes "after_fill (fill_until m ts buf) k = (Some (Inr (Some f)), buf', ts')"
  obtains buf1 ts1 where "k buf1 ts1 = (Some (Inr (Some f)), buf', ts')"
    and "m \<le> length buf1" and "pending buf1 ts1 \<le> pending buf ts"
proof (cases "fill_until m ts buf")
  case (fields r buf1 ts1)
  then have r: "r = Some (Inr True)" and k: "k buf1 ts1 = (Some (Inr (Some f)), buf', ts')"
    using assms by (auto simp: after_fill_def split: option.splits sum.splits bool.splits)
  show ?thesis
    using that [OF k] fill_until_length fill_until_pending fields r by blast
qed

lemma read_payload_consumes:
  assumes "read_payload opcode masked len off ts buf = (Some (Inr (Some f)), buf', ts')" and "2 \<le> off"
  shows "pending buf' ts' < pending buf ts"
proof -
  let ?n = "off + (if masked then 4 else 0) + len"
  from assms(1) have "after_fill (fill_until ?n ts buf) (\<lambda>buf ts.
        let (payload, rest) = take_frame off masked len buf
        in (Some (Inr (Some (opcode, payload))), rest, ts)) = (Some (Inr (Some f)), buf', ts')"
    by (auto simp: read_payload_def split: if_splits)
  then show ?thesis
  proof (rule after_fill_eq_frame)
    fix buf1 ts1
    assume k: "(let (payload, rest) = take_frame off masked len buf1
        in (Some (Inr (Some (opcode, payload))), rest, ts1)) = (Some (Inr (Some f)), buf', ts')"
      and n: "?n \<le> length buf1" and p: "pending buf1 ts1 \<le> pending buf ts"
    have "buf' = drop ?n buf1" "ts' = ts1" using k by (auto simp: take_frame_def Let_def)
    then show ?thesis using n p assms(2) by (simp add: pending_def)
  qed
qed

lemma read_frame_consumes:
  assumes "read_frame_until ts buf = (Some (Inr (Some f)), buf', ts')"
  shows "pending buf' ts' < pending buf ts"
  using assms unfolding read_frame_until_def
proof (rule after_fill_eq_frame)
  fix buf1 ts1
  let ?opcode = "byte_val (buf1 ! 0) AND 15" and ?masked = "byte_val (buf1 ! 1) AND 128 \<noteq> 0"
    and ?len = "byte_val (buf1 ! 1) AND 127"
  assume k: "(let opcode = ?opcode; masked = ?masked; len = ?len
       in if len = 126 then
            after_fill (fill_until 4 ts1 buf1) (\<lambda>buf ts.
              read_payload opcode masked (be_val (take 2 (drop 2 buf))) 4 ts buf)
          else if len = 127 then
            after_fill (fill_until 10 ts1 buf1) (\<lambda>buf ts.
              read_payload opcode masked (be_val (take 8 (drop 2 buf))) 10 ts buf)
          else read_payload opcode masked len 2 ts1 buf1) = (Some (Inr (Some f)), buf', ts')"
    and p: "pending buf1 ts1 \<le> pending buf ts"
  have "pending buf' ts' < pending buf1 ts1"
  proof (cases "?len = 126 \<or> ?len = 127")
    case True
    then show ?thesis
      using k by (auto simp: Let_def elim!: after_fill_eq_frame dest!: read_payload_consumes)
  next
    case False
    then show ?thesis using k by (auto simp: Let_def dest!: read_payload_consumes)
  qed
  with p show ?thesis by simp
qed

section \<open>Receiving\<close>

text \<open>The loop of \<open>receive_timeout_cancellable\<close>. \<open>again\<close> is the cancellation flag as read after a
  poll without a frame; \<open>key\<close> (the mask) and \<open>write_error\<close> belong to the pong that answers a ping. The last
  component lists what was written.\<close>

function receive_loop ::
    "bool \<Rightarrow> string \<Rightarrow> string option \<Rightarrow> tick list \<Rightarrow> string
       \<Rightarrow> (string + receive_outcome) option \<times> string \<times> tick list \<times> string list" where
  "receive_loop again key write_error ts buf =
     (case read_frame_until ts buf of
        (None, buf, ts) \<Rightarrow> (None, buf, ts, [])
      | (Some (Inl e), buf, ts) \<Rightarrow> (Some (Inl e), buf, ts, [])
      | (Some (Inr None), buf, ts) \<Rightarrow>
          (Some (if again then Inl ''relay receive cancelled'' else Inr Idle), buf, ts, [])
      | (Some (Inr (Some (opcode, payload))), buf, ts) \<Rightarrow>
          if opcode = 2 \<or> opcode = 1 then (Some (Inr (Message payload)), buf, ts, [])
          else if opcode = 9 then
            (case write_error of
               Some e \<Rightarrow> (Some (Inl (''ws send: '' @ e)), buf, ts, [])
             | None \<Rightarrow> (Some (Inr Control), buf, ts, [send_opcode key 10 payload]))
          else if opcode = 10 then (Some (Inr Control), buf, ts, [])
          else if opcode = 8 then (Some (Inl ''relay closed the socket''), buf, ts, [])
          else receive_loop again key write_error ts buf)"
  by pat_completeness auto
termination
proof (relation "measure (\<lambda>(again, key, write_error, ts, buf). pending buf ts)")
qed (auto dest!: sym [THEN read_frame_consumes])

declare receive_loop.simps [simp del]

end
