(* ===== verification/Relay_Socket_Props.thy ===== *)
theory Relay_Socket_Props
  imports Relay_Socket
begin

text \<open>
  Properties of the WebSocket framing: what is sent is received for every way the bytes are cut
  into reads, an idle poll loses nothing, and the buffer stays bounded whatever the peer sends.
\<close>

section \<open>Bits of the header bytes\<close>

lemma or_128: "x < 128 \<Longrightarrow> 128 OR x = (128 + x :: nat)"
proof -
  assume x: "x < 128"
  have "\<not> bit (128 :: nat) n \<or> \<not> bit x n" for n
  proof (cases "n = 7")
    case True
    have "x div 2 ^ 7 = 0" using x by simp
    then show ?thesis using True by (simp add: bit_iff_odd)
  next
    case False
    have "bit ((2 :: nat) ^ 7) n \<longleftrightarrow> n = 7" by (simp only: bit_exp_iff) auto
    then show ?thesis using False by simp
  qed
  then show ?thesis by (simp add: disjunctive_add [symmetric])
qed

lemma and_low: "(x :: nat) AND 127 = x mod 128" "(x :: nat) AND 15 = x mod 16"
  using take_bit_eq_mod [of 7 x]
    take_bit_eq_mod [of 4 x] take_bit_eq_mask [of 4 x] take_bit_eq_mask [of 7 x]
  by (simp_all add: mask_eq_exp_minus_1)

lemma and_128: "(x :: nat) AND 128 \<noteq> 0 \<longleftrightarrow> odd (x div 128)"
  using and_exp_eq_0_iff_not_bit [of x 7] by (simp add: bit_iff_odd)

lemma header_bits:
  assumes "x < 128"
  shows "byte_val (char_of (128 OR x)) AND 127 = x" "byte_val (char_of (128 OR x)) AND 128 \<noteq> 0"
    "byte_val (char_of x) AND 127 = x" "byte_val (char_of x) AND 128 = 0"
proof -
  have "128 + x < (256 :: nat)" using assms by simp
  then have v: "byte_val (char_of (128 OR x)) = 128 + x" by (simp add: or_128 [OF assms])
  show "byte_val (char_of (128 OR x)) AND 127 = x" unfolding v and_low using assms by simp
  show "byte_val (char_of (128 OR x)) AND 128 \<noteq> 0" unfolding v and_128 using assms by simp
  have w: "byte_val (char_of x) = x" using assms by simp
  show "byte_val (char_of x) AND 127 = x" unfolding w and_low using assms by simp
  have "\<not> byte_val (char_of x) AND 128 \<noteq> 0" unfolding w and_128 using assms by simp
  then show "byte_val (char_of x) AND 128 = 0" by simp
qed

lemma opcode_bits: "opcode < 16 \<Longrightarrow> byte_val (char_of (128 OR opcode)) AND 15 = opcode"
proof -
  assume a: "opcode < 16"
  then have v: "byte_val (char_of (128 OR opcode)) = 128 + opcode" by (simp add: or_128)
  have "(128 + opcode) mod 16 = opcode" using a by (simp add: mod_add_eq [symmetric])
  then show ?thesis unfolding v and_low .
qed

lemma length_xor_mask [simp]: "length (xor_mask k p) = length p"
  by (simp add: xor_mask_def)

lemma xor_mask_cancel [simp]: "xor_mask k (xor_mask k p) = p"
  by (rule nth_equalityI) (simp_all add: xor_mask_def nth_enumerate_eq)

section \<open>Frames on the wire\<close>

text \<open>The layout of RFC 6455, with or without mask, in its shortest form.\<close>

definition length_field :: "bool \<Rightarrow> nat \<Rightarrow> string" where
  "length_field masked len =
     (let bit = (\<lambda>x. char_of (if masked then 128 OR x else x)) in
      if len < 126 then [bit len]
      else if len < 65536 then bit 126 # be16 len
      else bit 127 # be64 len)"

definition ws_frame :: "string option \<Rightarrow> nat \<Rightarrow> string \<Rightarrow> string" where
  "ws_frame key opcode payload =
     char_of (128 OR opcode) # length_field (key \<noteq> None) (length payload)
       @ (case key of None \<Rightarrow> payload | Some k \<Rightarrow> k @ xor_mask k payload)"

lemma send_opcode_ws_frame: "send_opcode key opcode payload = ws_frame (Some key) opcode payload"
  by (simp add: send_opcode_def frame_header_def ws_frame_def length_field_def)

section \<open>Reads that deliver\<close>

definition good_tick :: "tick \<Rightarrow> bool" where
  "good_tick t \<longleftrightarrow> \<not> tk_cancelled t \<and> \<not> tk_expired t \<and> tk_timeout_error t = None
     \<and> (case tk_read t of ReadOk bs \<Rightarrow> bs \<noteq> [] | ReadWouldBlock \<Rightarrow> True | ReadError e \<Rightarrow> False)"

abbreviation bytes :: "tick list \<Rightarrow> string" where
  "bytes ts \<equiv> concat (map tick_bytes ts)"

lemma fill_until_full: "m \<le> length buf \<Longrightarrow> fill_until m ts buf = (Some (Inr True), buf, ts)"
  by (cases ts) auto

lemma fill_until_good:
  assumes "list_all good_tick us" and "m \<le> length (buf @ bytes us)"
  shows "\<exists>us'. fill_until m (us @ vs) buf = (Some (Inr True), buf @ bytes (take (length us - length us') us), us' @ vs)
     \<and> m \<le> length (buf @ bytes (take (length us - length us') us))
     \<and> us = take (length us - length us') us @ us'"
  using assms
proof (induction us arbitrary: buf)
  case Nil
  then show ?case by (intro exI [of _ "[]"]) (simp add: fill_until_full)
next
  case (Cons t us)
  show ?case
  proof (cases "m \<le> length buf")
    case True
    then show ?thesis by (intro exI [of _ "t # us"]) (simp add: fill_until_full)
  next
    case False
    have t: "good_tick t" and us: "list_all good_tick us" using Cons.prems(1) by simp_all
    have step: "fill_until m ((t # us) @ vs) buf = fill_until m (us @ vs) (buf @ tick_bytes t)"
      using False t by (auto simp: good_tick_def tick_bytes_def split: read_result.splits)
    from Cons.IH [OF us, of "buf @ tick_bytes t"] Cons.prems(2) obtain us' where
      u: "fill_until m (us @ vs) (buf @ tick_bytes t)
          = (Some (Inr True), (buf @ tick_bytes t) @ bytes (take (length us - length us') us), us' @ vs)"
      "m \<le> length ((buf @ tick_bytes t) @ bytes (take (length us - length us') us))"
      "us = take (length us - length us') us @ us'"
      by auto
    have "length us' \<le> length us" using u(3) by (metis le_add2 length_append)
    then have "take (length (t # us) - length us') (t # us) = t # take (length us - length us') us"
      by (simp add: Suc_diff_le)
    then show ?thesis using u step by (intro exI [of _ us']) simp
  qed
qed

text \<open>Seen from outside, only the stream \<open>buf @ bytes us\<close> matters.\<close>

lemma fill_until_stream:
  assumes "list_all good_tick us" and "m \<le> length (buf @ bytes us)"
  obtains buf' us' where "fill_until m (us @ vs) buf = (Some (Inr True), buf', us' @ vs)"
    and "buf' @ bytes us' = buf @ bytes us" and "m \<le> length buf'" and "list_all good_tick us'"
proof -
  obtain us' where u: "fill_until m (us @ vs) buf
      = (Some (Inr True), buf @ bytes (take (length us - length us') us), us' @ vs)"
    "m \<le> length (buf @ bytes (take (length us - length us') us))"
    "us = take (length us - length us') us @ us'"
    using fill_until_good [OF assms] by blast
  show ?thesis
  proof (rule that [OF u(1) _ u(2)])
    show "(buf @ bytes (take (length us - length us') us)) @ bytes us' = buf @ bytes us"
      using u(3) by (metis append.assoc concat_append map_append)
    show "list_all good_tick us'" using assms(1) u(3) by (metis list_all_append)
  qed
qed

lemma fill_until_stops:
  assumes "list_all good_tick us" and "length (buf @ bytes us) < m" and "tk_cancelled t \<or> tk_expired t"
  shows "fill_until m (us @ t # vs) buf = (Some (Inr False), buf @ bytes us, vs)"
  using assms
proof (induction us arbitrary: buf)
  case (Cons u us)
  then have "fill_until m ((u # us) @ t # vs) buf = fill_until m (us @ t # vs) (buf @ tick_bytes u)"
    by (auto simp: good_tick_def tick_bytes_def split: read_result.splits)
  then show ?case using Cons by simp
qed auto

section \<open>Decoding the stream\<close>

lemma nth_stream: "i < length a \<Longrightarrow> a @ b = c \<Longrightarrow> a ! i = c ! i"
  by (auto simp: nth_append)

lemma take_drop_stream: "n + k \<le> length a \<Longrightarrow> a @ b = c \<Longrightarrow> take k (drop n a) = take k (drop n c)"
  by auto

lemma read_payload_stream:
  assumes "len \<le> MAX_FRAME_BYTES + 1024" and "list_all good_tick us"
    and "off + (if masked then 4 else 0) + len \<le> length (buf @ bytes us)"
  obtains buf' us' where "read_payload opcode masked len off (us @ vs) buf
      = (Some (Inr (Some (opcode, fst (take_frame off masked len (buf @ bytes us))))), buf', us' @ vs)"
    and "buf' @ bytes us' = snd (take_frame off masked len (buf @ bytes us))" and "list_all good_tick us'"
proof -
  let ?n = "off + (if masked then 4 else 0) + len" and ?view = "buf @ bytes us"
  obtain buf1 us1 where f: "fill_until ?n (us @ vs) buf = (Some (Inr True), buf1, us1 @ vs)"
    and view: "buf1 @ bytes us1 = ?view" and n: "?n \<le> length buf1" and good: "list_all good_tick us1"
    using fill_until_stream [OF assms(2,3)] by blast
  have fst: "fst (take_frame off masked len buf1) = fst (take_frame off masked len ?view)"
    using n take_drop_stream [OF _ view, of "off + 4" len] take_drop_stream [OF _ view, of off 4]
      take_drop_stream [OF _ view, of off len] by (auto simp: take_frame_def Let_def)
  have "drop ?n buf1 @ bytes us1 = drop ?n ?view" using n view by (metis drop_append diff_is_0_eq drop0)
  then have snd: "snd (take_frame off masked len buf1) @ bytes us1 = snd (take_frame off masked len ?view)"
    by (simp add: take_frame_def Let_def)
  show ?thesis
    by (rule that [OF _ snd good])
       (use assms(1) f fst in \<open>simp add: read_payload_def after_fill_def case_prod_unfold\<close>)
qed

lemma length_field_cases:
  assumes "len \<le> MAX_FRAME_BYTES + 1024"
  obtains (short) x where "length_field masked len = [x]" "byte_val x AND 127 = len"
      "byte_val x AND 128 \<noteq> 0 \<longleftrightarrow> masked" "len < 126"
    | (medium) x where "length_field masked len = x # be16 len" "byte_val x AND 127 = 126"
      "byte_val x AND 128 \<noteq> 0 \<longleftrightarrow> masked" "len < 2 ^ 16"
    | (long) x where "length_field masked len = x # be64 len" "byte_val x AND 127 = 127"
      "byte_val x AND 128 \<noteq> 0 \<longleftrightarrow> masked" "len \<le> u64_max"
proof -
  let ?b = "\<lambda>x :: nat. char_of (if masked then 128 OR x else x) :: byte"
  have bits: "byte_val (?b x) AND 127 = x" "byte_val (?b x) AND 128 \<noteq> 0 \<longleftrightarrow> masked" if "x < 128" for x
    using header_bits [OF that] by simp_all
  have le: "len \<le> u64_max" using assms by (simp add: u64_max_def MAX_FRAME_BYTES_def)
  show ?thesis
  proof (cases "len < 126")
    case True
    then show ?thesis using short [of "?b len"] bits [of len] by (simp add: length_field_def Let_def)
  next
    case False
    show ?thesis
    proof (cases "len < 65536")
      case True
      then show ?thesis
        using False medium [of "?b 126"] bits [of 126] by (simp add: length_field_def Let_def)
    next
      case big: False
      then show ?thesis
        using False long [of "?b 127"] bits [of 127] le by (simp add: length_field_def Let_def)
    qed
  qed
qed

lemma read_frame_header:
  assumes view: "buf @ bytes us = char_of (128 OR opcode) # length_field masked len @ tail_bytes"
    and good: "list_all good_tick us" and opcode: "opcode < 16" and len: "len \<le> MAX_FRAME_BYTES + 1024"
  obtains buf' us' where "read_frame_until (us @ vs) buf
      = read_payload opcode masked len (Suc (length (length_field masked len))) (us' @ vs) buf'"
    and "buf' @ bytes us' = buf @ bytes us" and "list_all good_tick us'"
proof -
  let ?view = "buf @ bytes us"
  have l1: "1 \<le> length (length_field masked len)" by (simp add: length_field_def Let_def)
  then have "2 \<le> length ?view" unfolding view by simp
  from fill_until_stream [OF good this] obtain b1 us1 where
    f1: "fill_until 2 (us @ vs) buf = (Some (Inr True), b1, us1 @ vs)"
    and v1: "b1 @ bytes us1 = ?view" and n1: "2 \<le> length b1" and g1: "list_all good_tick us1" by blast
  have "0 < length b1" using n1 by linarith
  from nth_stream [OF this v1] have "b1 ! 0 = char_of (128 OR opcode)" unfolding view by simp
  then have b0: "byte_val (b1 ! 0) AND 15 = opcode" using opcode_bits [OF opcode] by (simp only:)
  have second: "b1 ! 1 = (length_field masked len @ tail_bytes) ! 0"
    using nth_stream [OF _ v1, of 1] n1 unfolding view by simp
  from len show ?thesis
  proof (cases rule: length_field_cases [of _ masked])
    case (short x)
    have "b1 ! 1 = x" using second short by simp
    then have "read_frame_until (us @ vs) buf = read_payload opcode masked len 2 (us1 @ vs) b1"
      using short b0 by (simp add: read_frame_until_def after_fill_def f1 Let_def)
    then show ?thesis using that v1 g1 short(1) by (simp add: numeral_2_eq_2)
  next
    case (medium x)
    have x: "b1 ! 1 = x" using second medium by simp
    have "4 \<le> length (b1 @ bytes us1)" unfolding v1 view medium by simp
    from fill_until_stream [OF g1 this] obtain b2 us2 where
      f2: "fill_until 4 (us1 @ vs) b1 = (Some (Inr True), b2, us2 @ vs)"
      and v2: "b2 @ bytes us2 = b1 @ bytes us1" and n2: "4 \<le> length b2" and g2: "list_all good_tick us2" by blast
    have "take 2 (drop 2 b2) = take 2 (drop 2 ?view)" using take_drop_stream [OF _ v2, of 2 2] n2 v1 by simp
    then have "be_val (take 2 (drop 2 b2)) = len" unfolding view medium using medium(4) by simp
    then have "read_frame_until (us @ vs) buf = read_payload opcode masked len 4 (us2 @ vs) b2"
      using medium x b0 by (simp add: read_frame_until_def after_fill_def f1 f2 Let_def)
    then show ?thesis using that v2 v1 g2 medium(1) by simp
  next
    case (long x)
    have x: "b1 ! 1 = x" using second long by simp
    have "10 \<le> length (b1 @ bytes us1)" unfolding v1 view long by simp
    from fill_until_stream [OF g1 this] obtain b2 us2 where
      f2: "fill_until 10 (us1 @ vs) b1 = (Some (Inr True), b2, us2 @ vs)"
      and v2: "b2 @ bytes us2 = b1 @ bytes us1" and n2: "10 \<le> length b2" and g2: "list_all good_tick us2" by blast
    have "take 8 (drop 2 b2) = take 8 (drop 2 ?view)" using take_drop_stream [OF _ v2, of 2 8] n2 v1 by simp
    then have "be_val (take 8 (drop 2 b2)) = len" unfolding view long using long(4) by simp
    then have "read_frame_until (us @ vs) buf = read_payload opcode masked len 10 (us2 @ vs) b2"
      using long x b0 by (simp add: read_frame_until_def after_fill_def f1 f2 Let_def)
    then show ?thesis using that v2 v1 g2 long(1) by simp
  qed
qed

lemma take_frame_ws:
  assumes "case key of None \<Rightarrow> True | Some k \<Rightarrow> length k = 4"
  shows "take_frame (Suc (length (length_field (key \<noteq> None) (length payload)))) (key \<noteq> None) (length payload)
      (ws_frame key opcode payload @ rest) = (payload, rest)"
  using assms by (cases key) (simp_all add: take_frame_def ws_frame_def Let_def)

text \<open>Reading one frame from any good script.\<close>

lemma read_frame_ws:
  assumes "buf @ bytes us = ws_frame key opcode payload @ rest" and "list_all good_tick us"
    and "opcode < 16" and "length payload \<le> MAX_FRAME_BYTES + 1024"
    and "case key of None \<Rightarrow> True | Some k \<Rightarrow> length k = 4"
  obtains buf' us' where "read_frame_until (us @ vs) buf = (Some (Inr (Some (opcode, payload))), buf', us' @ vs)"
    and "buf' @ bytes us' = rest" and "list_all good_tick us'"
proof -
  let ?m = "key \<noteq> None" and ?len = "length payload"
  let ?off = "Suc (length (length_field ?m ?len))"
  obtain tail_bytes where "ws_frame key opcode payload @ rest = char_of (128 OR opcode) # length_field ?m ?len @ tail_bytes"
    by (simp add: ws_frame_def)
  with assms(1) have "buf @ bytes us = char_of (128 OR opcode) # length_field ?m ?len @ tail_bytes" by simp
  from read_frame_header [OF this assms(2-4)] obtain b1 us1 where
    r: "read_frame_until (us @ vs) buf = read_payload opcode ?m ?len ?off (us1 @ vs) b1"
    and v: "b1 @ bytes us1 = buf @ bytes us" and g: "list_all good_tick us1" by blast
  have n: "?off + (if ?m then 4 else 0) + ?len \<le> length (b1 @ bytes us1)"
    unfolding v assms(1) using assms(5) by (cases key) (simp_all add: ws_frame_def)
  obtain b2 us2 where "read_payload opcode ?m ?len ?off (us1 @ vs) b1
      = (Some (Inr (Some (opcode, fst (take_frame ?off ?m ?len (b1 @ bytes us1))))), b2, us2 @ vs)"
    and "b2 @ bytes us2 = snd (take_frame ?off ?m ?len (b1 @ bytes us1))" and "list_all good_tick us2"
    using read_payload_stream [OF assms(4) g n] by blast
  then show ?thesis
    using that r take_frame_ws [OF assms(5), of payload opcode rest] v assms(1) by simp
qed

text \<open>A call that sees only a part of a frame before its deadline.\<close>

lemma after_fill_stop:
  assumes "list_all good_tick us" and "length (buf @ bytes us) < m" and "tk_cancelled t \<or> tk_expired t"
  shows "after_fill (fill_until m (us @ t # vs) buf) k = (Some (Inr None), buf @ bytes us, vs)"
  using fill_until_stops [OF assms] by (simp add: after_fill_def)

lemma read_payload_stop:
  assumes "list_all good_tick us" and "length (buf @ bytes us) < off + (if masked then 4 else 0) + len"
    and "tk_cancelled t \<or> tk_expired t" and "len \<le> MAX_FRAME_BYTES + 1024"
  shows "read_payload opcode masked len off (us @ t # vs) buf = (Some (Inr None), buf @ bytes us, vs)"
  using after_fill_stop [OF assms(1-3)] assms(4) by (cases masked) (simp_all add: read_payload_def)

lemma read_extended_stop:
  assumes "list_all good_tick us" and "length (buf @ bytes us) < 2 + n + (if masked then 4 else 0) + len"
    and "tk_cancelled t \<or> tk_expired t" and "len \<le> MAX_FRAME_BYTES + 1024"
    and "2 + n \<le> length (buf @ bytes us) \<Longrightarrow> be_val (take n (drop 2 (buf @ bytes us))) = len"
  shows "after_fill (fill_until (2 + n) (us @ t # vs) buf)
      (\<lambda>buf ts. read_payload opcode masked (be_val (take n (drop 2 buf))) (2 + n) ts buf)
    = (Some (Inr None), buf @ bytes us, vs)"
proof (cases "2 + n \<le> length (buf @ bytes us)")
  case False
  then show ?thesis by (intro after_fill_stop assms) linarith
next
  case True
  obtain b1 us1 where f: "fill_until (2 + n) (us @ t # vs) buf = (Some (Inr True), b1, us1 @ t # vs)"
    and v: "b1 @ bytes us1 = buf @ bytes us" and l: "2 + n \<le> length b1" and g: "list_all good_tick us1"
    using fill_until_stream [OF assms(1) True] by blast
  have "be_val (take n (drop 2 b1)) = len"
    using take_drop_stream [OF l v] assms(5) [OF True] by simp
  then show ?thesis
    unfolding f using read_payload_stop [OF g, of b1 "2 + n" masked len t opcode vs] assms(2-4) v
    by (simp add: after_fill_def)
qed

lemma partial_frame_idle:
  assumes "buf @ bytes us @ bytes vs = ws_frame key opcode payload @ rest"
    and "list_all good_tick us" and "tk_cancelled t \<or> tk_expired t"
    and "length (buf @ bytes us) < length (ws_frame key opcode payload)"
    and "opcode < 16" and "length payload \<le> MAX_FRAME_BYTES + 1024"
    and "case key of None \<Rightarrow> True | Some k \<Rightarrow> length k = 4"
  shows "read_frame_until (us @ t # vs) buf = (Some (Inr None), buf @ bytes us, vs)"
proof (cases "2 \<le> length (buf @ bytes us)")
  case False
  then show ?thesis unfolding read_frame_until_def by (intro after_fill_stop assms) simp
next
  case True
  let ?m = "key \<noteq> None" and ?len = "length payload"
  obtain b1 us1 where f: "fill_until 2 (us @ t # vs) buf = (Some (Inr True), b1, us1 @ t # vs)"
    and v: "b1 @ bytes us1 = buf @ bytes us" and l: "2 \<le> length b1" and g: "list_all good_tick us1"
    using fill_until_stream [OF assms(2) True] by blast
  have stream: "b1 @ bytes us1 @ bytes vs = char_of (128 OR opcode) # length_field ?m ?len
      @ (case key of None \<Rightarrow> payload | Some k \<Rightarrow> k @ xor_mask k payload) @ rest"
    using v assms(1) by (simp add: ws_frame_def) (metis append_assoc)
  have short_view: "length (b1 @ bytes us1)
      < Suc (length (length_field ?m ?len)) + (if ?m then 4 else 0) + ?len"
    unfolding v using assms(4,7) by (cases key) (simp_all add: ws_frame_def)
  have "0 < length b1" "1 < length b1" using l by linarith+
  then have "b1 ! 0 = char_of (128 OR opcode)"
    and second: "b1 ! 1 = (length_field ?m ?len @ (case key of None \<Rightarrow> payload | Some k \<Rightarrow> k @ xor_mask k payload) @ rest) ! 0"
    using nth_stream [OF _ stream, of 0] nth_stream [OF _ stream, of 1] by simp_all
  then have b0: "byte_val (b1 ! 0) AND 15 = opcode" using opcode_bits [OF assms(5)] by (simp only:)
  have take: "take n (drop 2 (b1 @ bytes us1)) = take n (drop 2 (b1 @ bytes us1 @ bytes vs))"
    if "2 + n \<le> length (b1 @ bytes us1)" for n
    using that by simp
  have "read_frame_until (us @ t # vs) buf = (Some (Inr None), b1 @ bytes us1, vs)"
    using assms(6)
  proof (cases rule: length_field_cases [of _ ?m])
    case (short x)
    then have "b1 ! 1 = x" using second by simp
    moreover have "read_payload opcode ?m ?len 2 (us1 @ t # vs) b1 = (Some (Inr None), b1 @ bytes us1, vs)"
      by (rule read_payload_stop [OF g _ assms(3,6)]) (use short_view short(1) in simp)
    ultimately show ?thesis
      using short b0 by (simp add: read_frame_until_def after_fill_def f Let_def)
  next
    case (medium x)
    then have x: "b1 ! 1 = x" using second by simp
    have "be_val (take 2 (drop 2 (b1 @ bytes us1))) = ?len" if "2 + 2 \<le> length (b1 @ bytes us1)"
      unfolding take [OF that] stream medium using medium(4) by simp
    with x medium b0 read_extended_stop [OF g, of b1 2 ?m ?len t vs opcode] short_view assms(3,6)
    show ?thesis by (simp add: read_frame_until_def after_fill_def [of "(_, _, us1 @ t # vs)"] f Let_def)
  next
    case (long x)
    then have x: "b1 ! 1 = x" using second by simp
    have "be_val (take 8 (drop 2 (b1 @ bytes us1))) = ?len" if "2 + 8 \<le> length (b1 @ bytes us1)"
      unfolding take [OF that] stream long using long(4) by simp
    with x long b0 read_extended_stop [OF g, of b1 8 ?m ?len t vs opcode] short_view assms(3,6)
    show ?thesis by (simp add: read_frame_until_def after_fill_def [of "(_, _, us1 @ t # vs)"] f Let_def)
  qed
  then show ?thesis by (simp add: v)
qed

text \<open>C16. What one end sends the other end receives: a binary message within the frame limit, masked or
  not, arrives as exactly its payload however the bytes are cut into reads and whatever is behind it,
  and the bytes after the frame stay in the stream.\<close>

theorem message_received:
  assumes "buf @ bytes us = ws_frame key 2 payload @ rest" and "list_all good_tick us"
    and "length payload \<le> MAX_FRAME_BYTES + 1024"
    and "case key of None \<Rightarrow> True | Some k \<Rightarrow> length k = 4"
  shows "\<exists>buf' us'. receive_loop again pong write_error (us @ vs) buf
        = (Some (Inr (Message payload)), buf', us' @ vs, [])
      \<and> buf' @ bytes us' = rest
    \<and> (\<forall>k. length k = 4 \<longrightarrow> socket_send k payload = ws_frame (Some k) 2 payload)"
proof -
  obtain b us' where r: "read_frame_until (us @ vs) buf = (Some (Inr (Some (2, payload))), b, us' @ vs)"
    and rest: "b @ bytes us' = rest"
    using read_frame_ws [OF assms(1,2) _ assms(3,4)] by (metis numeral_less_iff semiring_norm(76,78))
  have "receive_loop again pong write_error (us @ vs) buf = (Some (Inr (Message payload)), b, us' @ vs, [])"
    by (simp add: receive_loop.simps [of again pong write_error "us @ vs"] r)
  then show ?thesis using rest by (auto simp: socket_send_def send_opcode_ws_frame)
qed

text \<open>An idle poll loses nothing: when only a part of a frame arrived before the deadline or a
  cancellation, the call gives up with the part still buffered, and when the rest arrives the next call
  returns the whole frame.\<close>

lemma idle_poll_keeps_partial_frame:
  assumes "buf @ bytes us @ bytes vs = ws_frame key opcode payload @ rest"
    and "list_all good_tick us" and "list_all good_tick vs" and "tk_cancelled t \<or> tk_expired t"
    and "length (buf @ bytes us) < length (ws_frame key opcode payload)"
    and "opcode < 16" and "length payload \<le> MAX_FRAME_BYTES + 1024"
    and "case key of None \<Rightarrow> True | Some k \<Rightarrow> length k = 4"
  shows "read_frame_until (us @ t # vs) buf = (Some (Inr None), buf @ bytes us, vs)
    \<and> (\<exists>buf' us'. read_frame_until vs (buf @ bytes us) = (Some (Inr (Some (opcode, payload))), buf', us')
         \<and> buf' @ bytes us' = rest)"
proof
  have view: "(buf @ bytes us) @ bytes vs = ws_frame key opcode payload @ rest" using assms(1) by simp
  show "\<exists>buf' us'. read_frame_until vs (buf @ bytes us) = (Some (Inr (Some (opcode, payload))), buf', us')
      \<and> buf' @ bytes us' = rest"
    using read_frame_ws [OF view assms(3,6,7,8), of "[]"] by (metis append_Nil2)
  show "read_frame_until (us @ t # vs) buf = (Some (Inr None), buf @ bytes us, vs)"
    by (rule partial_frame_idle [OF assms(1,2,4-8)])
qed

lemma after_fill_pending:
  assumes "\<And>buf ts. pending (fst (snd (k buf ts))) (snd (snd (k buf ts))) \<le> pending buf ts"
  shows "pending (fst (snd (after_fill (fill_until m ts buf) k))) (snd (snd (after_fill (fill_until m ts buf) k)))
    \<le> pending buf ts"
proof (cases "fill_until m ts buf")
  case (fields r b1 ts1)
  with fill_until_pending [OF this] show ?thesis
    using assms [of b1 ts1]
    by (auto simp: after_fill_def split: option.splits sum.splits bool.splits intro: order_trans)
qed

lemma read_frame_pending:
  assumes "read_frame_until ts buf = (r, buf', ts')" shows "pending buf' ts' \<le> pending buf ts"
proof -
  have payload: "pending (fst (snd (read_payload opcode masked len off ts buf)))
      (snd (snd (read_payload opcode masked len off ts buf))) \<le> pending buf ts" for opcode masked len off ts buf
  proof (cases "MAX_FRAME_BYTES + 1024 < len")
    case False
    then show ?thesis
      by (simp add: read_payload_def case_prod_unfold)
         (intro conjI impI after_fill_pending; simp add: pending_def take_frame_def Let_def)
  qed (simp add: read_payload_def)
  have "pending (fst (snd (read_frame_until ts buf))) (snd (snd (read_frame_until ts buf))) \<le> pending buf ts"
    unfolding read_frame_until_def Let_def
    by (intro after_fill_pending) (auto intro: after_fill_pending payload)
  then show ?thesis using assms by simp
qed

section \<open>The buffer stays bounded\<close>

definition small_reads :: "tick list \<Rightarrow> bool" where
  "small_reads ts = list_all (\<lambda>t. length (tick_bytes t) \<le> READ_CHUNK) ts"

definition buffer_limit :: nat where
  "buffer_limit = MAX_FRAME_BYTES + 1024 + 14 + READ_CHUNK"

abbreviation bounded :: "string \<times> tick list \<Rightarrow> bool" where
  "bounded bt \<equiv> length (fst bt) \<le> buffer_limit \<and> small_reads (snd bt)"

lemma fill_until_bounded:
  assumes "m + READ_CHUNK \<le> buffer_limit" and "bounded (buf, ts)"
  shows "bounded (snd (fill_until m ts buf))"
  using assms
proof (induction m ts buf rule: fill_until.induct)
  case (1 m buf)
  then show ?case by simp
next
  case (2 m t ts buf)
  have ts: "small_reads ts" and t: "length (tick_bytes t) \<le> READ_CHUNK"
    using "2.prems" by (auto simp: small_reads_def)
  show ?case
  proof (cases "m \<le> length buf \<or> tk_cancelled t \<or> tk_expired t \<or> tk_timeout_error t \<noteq> None")
    case True
    then show ?thesis using "2.prems" ts by auto
  next
    case False
    then have "length buf < m" by simp
    with t "2.prems"(1) have "length buf + length (tick_bytes t) \<le> buffer_limit" by linarith
    with False show ?thesis
      using "2.IH" "2.prems" ts by (cases "tk_read t") (auto simp: tick_bytes_def)
  qed
qed

lemma after_fill_bounded:
  assumes "m + READ_CHUNK \<le> buffer_limit" and "bounded (buf, ts)"
    and "\<And>buf ts. bounded (buf, ts) \<Longrightarrow> bounded (snd (k buf ts))"
  shows "bounded (snd (after_fill (fill_until m ts buf) k))"
  using fill_until_bounded [OF assms(1,2)] assms(3)
  by (cases "fill_until m ts buf") (auto simp: after_fill_def split: option.splits sum.splits bool.splits)

lemma read_payload_bounded:
  assumes "bounded (buf, ts)" and "off \<le> 10"
  shows "bounded (snd (read_payload opcode masked len off ts buf))"
proof (cases "MAX_FRAME_BYTES + 1024 < len")
  case True
  then show ?thesis using assms(1) by (simp add: read_payload_def)
next
  case False
  have "bounded (snd (after_fill (fill_until (off + (if masked then 4 else 0) + len) ts buf) (\<lambda>buf ts.
        let (payload, rest) = take_frame off masked len buf
        in (Some (Inr (Some (opcode, payload))), rest, ts))))"
    using False assms
    by (intro after_fill_bounded) (auto simp: buffer_limit_def take_frame_def Let_def)
  then show ?thesis using False by (simp add: read_payload_def)
qed

lemma read_frame_bounded:
  assumes "bounded (buf, ts)" shows "bounded (snd (read_frame_until ts buf))"
  unfolding read_frame_until_def
proof (rule after_fill_bounded [OF _ assms])
  show "2 + READ_CHUNK \<le> buffer_limit" by (simp add: buffer_limit_def)
  have small: "4 + READ_CHUNK \<le> buffer_limit" "10 + READ_CHUNK \<le> buffer_limit"
    by (simp_all add: buffer_limit_def)
  show "bounded (snd (let opcode = byte_val (buf ! 0) AND 15; masked = byte_val (buf ! 1) AND 128 \<noteq> 0;
          len = byte_val (buf ! 1) AND 127
        in if len = 126 then after_fill (fill_until 4 ts buf) (\<lambda>buf ts.
             read_payload opcode masked (be_val (take 2 (drop 2 buf))) 4 ts buf)
           else if len = 127 then after_fill (fill_until 10 ts buf) (\<lambda>buf ts.
             read_payload opcode masked (be_val (take 8 (drop 2 buf))) 10 ts buf)
           else read_payload opcode masked len 2 ts buf))" if "bounded (buf, ts)" for buf ts
    unfolding Let_def
    by (simp only: split: if_split)
       (intro conjI impI after_fill_bounded [OF small(1) that] after_fill_bounded [OF small(2) that]
        read_payload_bounded that; simp)
qed

text \<open>However much a peer sends, also oversized or unfinished frames, the receive loop never buffers
  more than one maximal frame and one read, and it makes up no bytes.\<close>

lemma receive_buffer_bounded:
  assumes "receive_loop again key write_error ts buf = (r, buf', ts', written)"
    and "length buf \<le> buffer_limit" and "small_reads ts"
  shows "length buf' \<le> buffer_limit \<and> length buf' + length (bytes ts') \<le> length buf + length (bytes ts)"
  using assms
proof (induction again key write_error ts buf rule: receive_loop.induct)
  case (1 again key write_error ts buf)
  obtain rr b1 ts1 where f: "read_frame_until ts buf = (rr, b1, ts1)" by (cases "read_frame_until ts buf")
  have b: "bounded (b1, ts1)" using read_frame_bounded [of buf ts] "1.prems"(2,3) f by simp
  have p: "pending b1 ts1 \<le> pending buf ts" by (rule read_frame_pending [OF f])
  show ?case
  proof (cases "\<exists>opcode payload. rr = Some (Inr (Some (opcode, payload))) \<and> opcode \<notin> {1, 2, 8, 9, 10}")
    case True
    then obtain opcode payload where o: "rr = Some (Inr (Some (opcode, payload)))"
      and n: "opcode \<noteq> 1" "opcode \<noteq> 2" "opcode \<noteq> 8" "opcode \<noteq> 9" "opcode \<noteq> 10" by auto
    have "receive_loop again key write_error ts1 b1 = (r, buf', ts', written)"
      using "1.prems"(1) o n f by (simp add: receive_loop.simps [of again key write_error ts buf])
    with "1.IH" [OF f [symmetric], unfolded o] n b
    have "length buf' \<le> buffer_limit \<and> length buf' + length (bytes ts') \<le> length b1 + length (bytes ts1)"
      by simp
    with p show ?thesis by (simp add: pending_def)
  next
    case False
    then have "buf' = b1 \<and> ts' = ts1"
      using "1.prems"(1) f
      by (auto simp: receive_loop.simps [of again key write_error ts buf]
          split: option.splits sum.splits if_splits)
    then show ?thesis using b p by (simp add: pending_def)
  qed
qed

section \<open>The deadline bounds a call\<close>

abbreviation has_deadline :: "tick list \<Rightarrow> bool" where
  "has_deadline ts \<equiv> list_ex tk_expired ts"

definition returns_in_time :: "(string + 'a option) option \<times> string \<times> tick list \<Rightarrow> bool" where
  "returns_in_time res \<longleftrightarrow> fst res \<noteq> None
     \<and> (case fst res of Some (Inr (Some f)) \<Rightarrow> has_deadline (snd (snd res)) | _ \<Rightarrow> True)"

lemma fill_until_returns:
  assumes "has_deadline ts" and "fill_until m ts buf = (r, buf', ts')"
  shows "r \<noteq> None \<and> (r = Some (Inr True) \<longrightarrow> has_deadline ts')"
  using assms
proof (induction m ts buf rule: fill_until.induct)
  case (2 m t ts buf)
  then show ?case
    by (auto split: if_splits option.splits read_result.splits)
qed simp

lemma after_fill_returns:
  assumes "has_deadline ts" and "\<And>buf ts. has_deadline ts \<Longrightarrow> returns_in_time (k buf ts)"
  shows "returns_in_time (after_fill (fill_until m ts buf) k)"
proof (cases "fill_until m ts buf")
  case (fields r b1 ts1)
  show ?thesis
    using fill_until_returns [OF assms(1) fields] assms(2) [of ts1 b1] fields
    by (auto simp: after_fill_def returns_in_time_def split: option.splits sum.splits bool.splits)
qed

lemma read_frame_returns:
  assumes "has_deadline ts" shows "returns_in_time (read_frame_until ts buf)"
proof -
  have payload: "returns_in_time (read_payload opcode masked len off ts buf)"
    if "has_deadline ts" for opcode masked len off ts buf
  proof (cases "MAX_FRAME_BYTES + 1024 < len")
    case False
    have "returns_in_time (after_fill (fill_until (off + (if masked then 4 else 0) + len) ts buf) (\<lambda>buf ts.
        let (payload, rest) = take_frame off masked len buf
        in (Some (Inr (Some (opcode, payload))), rest, ts)))"
      by (rule after_fill_returns [OF that]) (simp add: returns_in_time_def case_prod_unfold Let_def)
    then show ?thesis using False by (simp add: read_payload_def)
  qed (simp add: read_payload_def returns_in_time_def)
  show ?thesis
    unfolding read_frame_until_def Let_def
    by (intro after_fill_returns [OF assms]) (auto intro: after_fill_returns payload)
qed

text \<open>C18. A receive call returns when its deadline passes: on every script in which the clock reaches the
  deadline the call ends with a message, a control or idle report, or an error. A peer that drip-feeds
  fragments or sends frames of unknown kinds cannot hold it.\<close>

theorem receive_returns_by_deadline:
  assumes "list_ex tk_expired ts"
  shows "\<exists>result. fst (receive_loop again key write_error ts buf) = Some result"
  using assms
proof (induction again key write_error ts buf rule: receive_loop.induct)
  case (1 again key write_error ts buf)
  obtain rr b1 ts1 where f: "read_frame_until ts buf = (rr, b1, ts1)" by (cases "read_frame_until ts buf")
  have ok: "returns_in_time (rr, b1, ts1)" using read_frame_returns [OF "1.prems", of buf] f by simp
  show ?case
  proof (cases "\<exists>opcode payload. rr = Some (Inr (Some (opcode, payload))) \<and> opcode \<notin> {1, 2, 8, 9, 10}")
    case True
    then obtain opcode payload where o: "rr = Some (Inr (Some (opcode, payload)))"
      and n: "opcode \<noteq> 1" "opcode \<noteq> 2" "opcode \<noteq> 8" "opcode \<noteq> 9" "opcode \<noteq> 10" by auto
    have "has_deadline ts1" using ok o by (simp add: returns_in_time_def)
    with "1.IH" [OF f [symmetric], unfolded o] n
    have "\<exists>result. fst (receive_loop again key write_error ts1 b1) = Some result" by simp
    then show ?thesis using o n f by (simp add: receive_loop.simps [of again key write_error ts buf])
  next
    case False
    then show ?thesis
      using ok f
      by (auto simp: receive_loop.simps [of again key write_error ts buf] returns_in_time_def
          split: option.splits sum.splits if_splits)
  qed
qed

section \<open>Concrete scripts\<close>

definition read_tick :: "read_result \<Rightarrow> tick" where
  "read_tick r = \<lparr>tk_cancelled = False, tk_expired = False, tk_timeout_error = None, tk_read = r\<rparr>"

definition deadline_tick :: tick where
  "deadline_tick = \<lparr>tk_cancelled = False, tk_expired = True, tk_timeout_error = None, tk_read = ReadWouldBlock\<rparr>"

abbreviation hi_frame :: string where
  "hi_frame \<equiv> ws_frame None 2 ''hi''"

lemma hi_frame_eq: "hi_frame = [CHR 0x82, CHR 0x02, CHR ''h'', CHR ''i'']"
  using or_128 [of 2] by (simp add: ws_frame_def length_field_def)
    (simp only: char_of_def, code_simp)

lemma hi_script:
  "list_all good_tick [read_tick (ReadOk [CHR 0x82]), read_tick ReadWouldBlock, read_tick (ReadOk (drop 1 hi_frame))]"
  "bytes [read_tick (ReadOk [CHR 0x82]), read_tick ReadWouldBlock, read_tick (ReadOk (drop 1 hi_frame))] = hi_frame"
  by (simp_all add: good_tick_def read_tick_def hi_frame_eq tick_bytes_def)

theorem message_received_witness:
  "\<exists>buf' us'. receive_loop False [] None
       ([read_tick (ReadOk [CHR 0x82]), read_tick ReadWouldBlock, read_tick (ReadOk (drop 1 hi_frame))] @ []) []
     = (Some (Inr (Message ''hi'')), buf', us' @ [], []) \<and> buf' @ bytes us' = []"
  using message_received [OF _ hi_script(1), of "[]" None "''hi''" "[]" False "[]" None "[]"] hi_script(2)
  by (auto simp: MAX_FRAME_BYTES_def)

theorem receive_returns_by_deadline_witness:
  "\<exists>result. fst (receive_loop False [] None [read_tick (ReadOk [CHR 0x82]), deadline_tick] []) = Some result"
  by (rule receive_returns_by_deadline) (simp add: read_tick_def deadline_tick_def)

end
