(* ===== verification/Relay_Downlink.thy ===== *)
theory Relay_Downlink
  imports Relay_Crypto
begin

text \<open>
  Model of \<open>crates/unpeel-core/src/relay_downlink.rs\<close>, the Controller end of a relayed connection:
  the client half of the handshake and one tunnelled request at a time. The functions of other
  packages are collected in the record \<open>relay_lib\<close>. The peer is a parameter: \<open>exchange\<close> maps the hello
  that was sent to the reply (or to the error of sending or receiving), and \<open>receives\<close> lists the
  results of the successive calls of \<open>RelaySocket::receive\<close>; when it is used up the call is still
  waiting and its result is \<open>None\<close>. An ephemeral key is its private part; \<open>public\<close> and \<open>agree\<close> are the
  X25519 functions of the \<open>ring\<close> library.
\<close>

record relay_lib =
  lib_hkdf :: "string \<Rightarrow> string \<Rightarrow> string \<Rightarrow> string"
  lib_hmac :: "string \<Rightarrow> string \<Rightarrow> string"
  lib_seal :: "string \<Rightarrow> string \<Rightarrow> string \<Rightarrow> string option"
  lib_open :: "string \<Rightarrow> string \<Rightarrow> string \<Rightarrow> string option"
  lib_to_string :: "json \<Rightarrow> string"
  lib_from_slice :: "string \<Rightarrow> json option"
  lib_b64 :: "string \<Rightarrow> string"
  lib_unb64 :: "string \<Rightarrow> string option"
  lib_public :: "string \<Rightarrow> string"
  lib_agree :: "string \<Rightarrow> string \<Rightarrow> string option"

definition shared_secret :: "relay_lib \<Rightarrow> string \<Rightarrow> string \<Rightarrow> string + string" where
  "shared_secret lib private peer_public = ok_or ''x25519 agreement failed'' (lib_agree lib private peer_public)"

record relay_downlink =
  dl_crypto :: crypto_session
  dl_shared_secret :: string
  dl_client_salt :: string
  dl_host_salt :: string
  dl_next_id :: u64

text \<open>The comparison of the two MACs accumulates the differences of all bytes.\<close>

definition mac_mismatch :: "string \<Rightarrow> string \<Rightarrow> bool" where
  "mac_mismatch expected mac \<longleftrightarrow> length expected \<noteq> length mac
     \<or> fold (\<lambda>(a, b) diff. diff OR (byte_val a XOR byte_val b)) (zip expected mac) 0 \<noteq> 0"

text \<open>\<open>ephemeral\<close> is the outcome of the key generation, \<open>client_salt\<close> the 16 random bytes.\<close>

definition handshake ::
    "relay_lib \<Rightarrow> string + string \<Rightarrow> string \<Rightarrow> (string \<Rightarrow> string + string) \<Rightarrow> string \<Rightarrow> string
       \<Rightarrow> string + relay_downlink" where
  "handshake lib ephemeral client_salt exchange device_id e2e_key =
     rbind ephemeral (\<lambda>private.
       let client_public = lib_public lib private in
       rbind (exchange (encode_client_hello (lib_to_string lib) (lib_b64 lib) device_id client_salt client_public))
         (\<lambda>reply.
       rbind (ok_or ''malformed host hello'' (parse_host_hello (lib_from_slice lib) (lib_unb64 lib) reply))
         (\<lambda>hello.
       let expected = transcript_mac (lib_hkdf lib) (lib_hmac lib) e2e_key device_id client_salt
             (hh_salt hello) client_public (hh_ephemeral_public hello) in
       if mac_mismatch expected (hh_mac hello) then Inl ''host hello MAC mismatch''
       else rbind (shared_secret lib private (hh_ephemeral_public hello)) (\<lambda>shared.
         rbind (session_new (lib_hkdf lib) e2e_key shared client_salt (hh_salt hello) False) (\<lambda>crypto.
           Inr \<lparr>dl_crypto = crypto, dl_shared_secret = shared, dl_client_salt = client_salt,
                dl_host_salt = hh_salt hello, dl_next_id = 0\<rparr>)))))"

text \<open>The bounded wait for the response: at most \<open>tries\<close> frames are read; frames that do not open,
  do not parse or answer another request are skipped.\<close>

fun await_response ::
    "relay_lib \<Rightarrow> u64 \<Rightarrow> nat \<Rightarrow> (string + string) list \<Rightarrow> crypto_session
       \<Rightarrow> (string + u16 \<times> string) option \<times> crypto_session" where
  "await_response lib i 0 receives crypto = (Some (Inl ''no response for tunneled request''), crypto)"
| "await_response lib i (Suc tries) [] crypto = (None, crypto)"
| "await_response lib i (Suc tries) (Inl e # receives) crypto = (Some (Inl e), crypto)"
| "await_response lib i (Suc tries) (Inr frame # receives) crypto =
     (case open_frame (lib_open lib) frame crypto of
        (Inl _, crypto') \<Rightarrow> await_response lib i tries receives crypto'
      | (Inr plaintext, crypto') \<Rightarrow>
          (case parse_tunnel_response (lib_from_slice lib) (lib_unb64 lib) plaintext of
             Inl _ \<Rightarrow> await_response lib i tries receives crypto'
           | Inr response \<Rightarrow>
               if rs_id response = i then (Some (Inr (rs_status response, rs_body response)), crypto')
               else await_response lib i tries receives crypto'))"

text \<open>\<open>next_id += 1\<close> would need \<open>2 ^ 64\<close> requests to overflow.\<close>

definition downlink_request_of :: "u64 \<Rightarrow> string \<Rightarrow> string \<Rightarrow> string option \<Rightarrow> string \<Rightarrow> tunnel_request" where
  "downlink_request_of i method path bearer body =
     \<lparr>rq_id = i, rq_method = method, rq_path = path, rq_query = [],
      rq_auth = map_option (\<lambda>token. ''Bearer '' @ token) bearer,
      rq_content_type = Some ''application/json'', rq_body = body\<rparr>"

text \<open>\<open>request\<close>: the result, the frame that was sent, and the new state.\<close>

definition downlink_request ::
    "relay_lib \<Rightarrow> (string \<Rightarrow> string + unit) \<Rightarrow> (string + string) list \<Rightarrow> string \<Rightarrow> string \<Rightarrow> string option
       \<Rightarrow> string \<Rightarrow> relay_downlink \<Rightarrow> (string + u16 \<times> string) option \<times> relay_downlink" where
  "downlink_request lib send receives method path bearer body d =
     (let i = dl_next_id d + 1;
          request = downlink_request_of i method path bearer body;
          (sealed, crypto) = seal (lib_seal lib) (encode_tunnel_request (lib_to_string lib) (lib_b64 lib) request)
            (dl_crypto d);
          d = d\<lparr>dl_next_id := i, dl_crypto := crypto\<rparr>
      in case sealed of
           Inl e \<Rightarrow> (Some (Inl e), d)
         | Inr frame \<Rightarrow>
             (case send frame of
                Inl e \<Rightarrow> (Some (Inl e), d)
              | Inr _ \<Rightarrow>
                  let (result, crypto') = await_response lib i 64 receives crypto
                  in (result, d\<lparr>dl_crypto := crypto'\<rparr>)))"

record probe_material =
  pm_shared_secret :: string
  pm_client_salt :: string
  pm_host_salt :: string

definition downlink_probe_material :: "relay_downlink \<Rightarrow> probe_material" where
  "downlink_probe_material d =
     \<lparr>pm_shared_secret = dl_shared_secret d, pm_client_salt = dl_client_salt d, pm_host_salt = dl_host_salt d\<rparr>"

end
