(* ===== verification/Ip_Text.thy ===== *)
theory Ip_Text
  imports Direct_Path_Punch
begin

text \<open>
  The textual form of numbers and IP addresses as the Rust standard library prints and reads it:
  \<open>Display\<close> and \<open>FromStr\<close> of the unsigned integers and of \<open>IpAddr\<close>, with the zero compression of
  IPv6 addresses. A parser maps the input to the value and the unread rest. What is printed reads
  back: numbers up to their bound, IPv4 addresses, and IPv6 addresses that do not embed an IPv4 one.
\<close>

section \<open>Numbers\<close>

function show_radix :: "nat \<Rightarrow> nat \<Rightarrow> string" where
  "show_radix r n =
     (if n < r \<or> r < 2 then [hex_char n] else show_radix r (n div r) @ [hex_char (n mod r)])"
  by pat_completeness auto
termination by (relation "measure (\<lambda>(r, n). n)") auto

declare show_radix.simps [simp del]

definition show_nat :: "nat \<Rightarrow> string" where
  "show_nat n = show_radix 10 n"

text \<open>\<open>char::to_digit\<close>.\<close>

definition to_digit :: "nat \<Rightarrow> byte \<Rightarrow> nat option" where
  "to_digit r c = (case hex_digit c of Some d \<Rightarrow> if d < r then Some d else None | None \<Rightarrow> None)"

abbreviation is_digit :: "nat \<Rightarrow> byte \<Rightarrow> bool" where
  "is_digit r c \<equiv> to_digit r c \<noteq> None"

definition num_val :: "nat \<Rightarrow> string \<Rightarrow> nat" where
  "num_val r ds = foldl (\<lambda>v c. v * r + the (to_digit r c)) 0 ds"

text \<open>\<open>read_number\<close>: the longest run of digits, at most \<open>max_digits\<close> of them.\<close>

definition read_number :: "nat \<Rightarrow> nat \<Rightarrow> bool \<Rightarrow> nat \<Rightarrow> string \<Rightarrow> (nat \<times> string) option" where
  "read_number r max_digits allow_zero_prefix bound s =
     (let ds = takeWhile (is_digit r) s in
      if length ds > max_digits \<or> ds = [] then None
      else if \<not> allow_zero_prefix \<and> hd ds = CHR ''0'' \<and> length ds > 1 then None
      else if num_val r ds \<le> bound then Some (num_val r ds, dropWhile (is_digit r) s) else None)"

definition read_given_char :: "byte \<Rightarrow> string \<Rightarrow> string option" where
  "read_given_char c s = (case s of c' # s' \<Rightarrow> if c' = c then Some s' else None | [] \<Rightarrow> None)"

section \<open>Addresses\<close>

definition read_octet :: "string \<Rightarrow> (nat \<times> string) option" where
  "read_octet s = read_number 10 3 False 255 s"

definition read_ipv4 :: "string \<Rightarrow> (nat list \<times> string) option" where
  "read_ipv4 s =
     Option.bind (read_octet s) (\<lambda>(a, s). Option.bind (read_given_char (CHR ''.'') s) (\<lambda>s.
     Option.bind (read_octet s) (\<lambda>(b, s). Option.bind (read_given_char (CHR ''.'') s) (\<lambda>s.
     Option.bind (read_octet s) (\<lambda>(c, s). Option.bind (read_given_char (CHR ''.'') s) (\<lambda>s.
     Option.bind (read_octet s) (\<lambda>(d, s). Some ([a, b, c, d], s))))))))"

text \<open>\<open>read_separator\<close> asks for the colon before every group but the first.\<close>

definition read_sep :: "bool \<Rightarrow> string \<Rightarrow> string option" where
  "read_sep first s = (if first then Some s else read_given_char (CHR '':'') s)"

text \<open>At most \<open>left\<close> groups; an embedded IPv4 address needs two of them and ends the list.\<close>

fun read_groups :: "nat \<Rightarrow> bool \<Rightarrow> string \<Rightarrow> nat list \<times> bool \<times> string" where
  "read_groups 0 first s = ([], False, s)"
| "read_groups (Suc left) first s =
     (case (if left > 0 then Option.bind (read_sep first s) read_ipv4 else None) of
        Some (os, s') \<Rightarrow> ([os ! 0 * 256 + os ! 1, os ! 2 * 256 + os ! 3], True, s')
      | None \<Rightarrow>
          (case Option.bind (read_sep first s) (read_number 16 4 True 65535) of
             None \<Rightarrow> ([], False, s)
           | Some (g, s') \<Rightarrow> (case read_groups left False s' of (gs, v4, s'') \<Rightarrow> (g # gs, v4, s''))))"

definition read_ipv6 :: "string \<Rightarrow> (nat list \<times> string) option" where
  "read_ipv6 s =
     (case read_groups 8 True s of (head, head_ipv4, s1) \<Rightarrow>
        if length head = 8 then Some (head, s1)
        else if head_ipv4 then None
        else Option.bind (read_given_char (CHR '':'') s1) (\<lambda>s2.
          Option.bind (read_given_char (CHR '':'') s2) (\<lambda>s3.
            case read_groups (8 - (length head + 1)) True s3 of (tail, _, s4) \<Rightarrow>
              Some (head @ replicate (8 - length head - length tail) 0 @ tail, s4))))"

definition octets_of_segments :: "nat list \<Rightarrow> string" where
  "octets_of_segments gs = concat (map be16 gs)"

definition parse_ip :: "string \<Rightarrow> ip_addr option" where
  "parse_ip s =
     (case read_ipv4 s of
        Some (os, s') \<Rightarrow> if s' = [] then Some (V4 (map char_of os)) else None
      | None \<Rightarrow>
          (case read_ipv6 s of
             Some (gs, s') \<Rightarrow> if s' = [] then Some (V6 (octets_of_segments gs)) else None
           | None \<Rightarrow> None))"

fun segments :: "string \<Rightarrow> nat list" where
  "segments (a # b # cs) = be_val [a, b] # segments cs"
| "segments _ = []"

text \<open>Start and length of the first of the longest runs of zero segments.\<close>

fun zero_runs :: "nat \<Rightarrow> nat list \<Rightarrow> (nat \<times> nat) list" where
  "zero_runs i [] = []"
| "zero_runs i (g # gs) = (i, length (takeWhile (\<lambda>x. x = 0) (g # gs))) # zero_runs (Suc i) gs"

definition longest_zero_run :: "nat list \<Rightarrow> nat \<times> nat" where
  "longest_zero_run gs = fold (\<lambda>run best. if snd best < snd run then run else best) (zero_runs 0 gs) (0, 0)"

fun show_groups :: "nat list \<Rightarrow> string" where
  "show_groups [] = []"
| "show_groups [g] = show_radix 16 g"
| "show_groups (g # gs) = show_radix 16 g @ CHR '':'' # show_groups gs"

definition show_ipv4 :: "string \<Rightarrow> string" where
  "show_ipv4 os = concat (map (\<lambda>(i, b). (if i = 0 then [] else ''.'') @ show_nat (byte_val b)) (enumerate 0 os))"

fun show_ip :: "ip_addr \<Rightarrow> string" where
  "show_ip (V4 os) = show_ipv4 os"
| "show_ip (V6 os) =
     (if v6_is_ipv4_mapped os then ''::ffff:'' @ show_ipv4 (drop 12 os)
      else
        let gs = segments os; (start, len) = longest_zero_run gs
        in if len > 1 then show_groups (take start gs) @ ''::'' @ show_groups (drop (start + len) gs)
           else show_groups gs)"

section \<open>Printed numbers read back\<close>

lemma to_digit_hex_char: "d < r \<Longrightarrow> r \<le> 16 \<Longrightarrow> to_digit r (hex_char d) = Some d"
  by (auto simp: to_digit_def hex_char_def hex_digit_def Let_def is_ascii_digit_def)

lemma show_radix_digits:
  assumes "2 \<le> r" and "r \<le> 16"
  shows "list_all (is_digit r) (show_radix r n) \<and> num_val r (show_radix r n) = n"
  using assms
proof (induction r n rule: show_radix.induct)
  case (1 r n)
  have d: "to_digit r (hex_char (n mod r)) = Some (n mod r)" using "1.prems" by (simp add: to_digit_hex_char)
  have e: "n div r * r + n mod r = n" by simp
  show ?case
  proof (cases "n < r")
    case True
    then show ?thesis using d by (simp add: show_radix.simps [of r n] num_val_def)
  next
    case False
    then have "list_all (is_digit r) (show_radix r (n div r)) \<and> num_val r (show_radix r (n div r)) = n div r"
      using "1.IH" "1.prems" by simp
    then show ?thesis using False "1.prems"(1) d e
      by (simp add: show_radix.simps [of r n] num_val_def)
  qed
qed

lemma show_radix_length:
  "2 \<le> r \<Longrightarrow> n < r ^ Suc k \<Longrightarrow> length (show_radix r n) \<le> Suc k"
proof (induction k arbitrary: n)
  case 0
  then show ?case by (simp add: show_radix.simps [of r n])
next
  case (Suc k)
  then have "n div r < r ^ Suc k" by (simp add: less_mult_imp_div_less mult.commute)
  with Suc show ?case by (simp add: show_radix.simps [of r n])
qed

lemma show_radix_not_Nil [simp]: "show_radix r n \<noteq> []"
  by (simp add: show_radix.simps [of r n])

lemma hex_char_zero_iff: "d < 16 \<Longrightarrow> hex_char d = CHR ''0'' \<longleftrightarrow> d = 0"
proof
  assume "d < 16" and z: "hex_char d = CHR ''0''"
  then have "hex_digit (hex_char d) = Some d"
    using to_digit_hex_char [of d 16] by (auto simp: to_digit_def split: option.splits if_splits)
  with z show "d = 0" by (simp add: hex_digit_def is_ascii_digit_def byte_val_def Let_def)
qed (simp add: hex_char_def char_of_def bit_simps)

lemma show_radix_no_zero_prefix:
  assumes "2 \<le> r" and "r \<le> 16" and "0 < n"
  shows "hd (show_radix r n) \<noteq> CHR ''0''"
  using assms
proof (induction r n rule: show_radix.induct)
  case (1 r n)
  then show ?case
    by (cases "n < r") (auto simp: show_radix.simps [of r n] hex_char_zero_iff div_greater_zero_iff)
qed

text \<open>A rest that does not go on with a digit.\<close>

definition stops :: "nat \<Rightarrow> string \<Rightarrow> bool" where
  "stops r s \<longleftrightarrow> (case s of [] \<Rightarrow> True | c # _ \<Rightarrow> \<not> is_digit r c)"

lemma takeWhile_digits:
  assumes "list_all (is_digit r) ds" and "stops r s"
  shows "takeWhile (is_digit r) (ds @ s) = ds \<and> dropWhile (is_digit r) (ds @ s) = s"
  using assms by (induction ds) (auto simp: stops_def split: list.splits)

lemma read_number_show:
  assumes "2 \<le> r" "r \<le> 16" and "n < r ^ Suc k" and "n \<le> bound" and "stops r s"
  shows "read_number r (Suc k) allow bound (show_radix r n @ s) = Some (n, s)"
proof -
  have ds: "takeWhile (is_digit r) (show_radix r n @ s) = show_radix r n"
    "dropWhile (is_digit r) (show_radix r n @ s) = s"
    using takeWhile_digits show_radix_digits [OF assms(1,2)] assms(5) by blast+
  have zero: "length (show_radix r n) = 1" if "hd (show_radix r n) = CHR ''0''"
  proof -
    have "n = 0" using that show_radix_no_zero_prefix [OF assms(1,2)] by blast
    then show ?thesis using assms(1) by (simp add: show_radix.simps [of r 0])
  qed
  show ?thesis
    using ds zero show_radix_digits [OF assms(1,2), of n] show_radix_length [OF assms(1,3)] assms(4)
    by (auto simp: read_number_def Let_def)
qed

text \<open>\<open>str::parse\<close> of what \<open>to_string\<close> printed.\<close>

lemma to_digit_ten_iff: "is_digit 10 c \<longleftrightarrow> is_ascii_digit c"
  by (auto simp: to_digit_def hex_digit_def Let_def is_ascii_digit_def split: if_splits)

lemma digits_val_foldl: "list_all is_ascii_digit ds \<Longrightarrow> digits_val a ds = foldl (\<lambda>v c. v * 10 + the (to_digit 10 c)) a ds"
  by (induction ds arbitrary: a)
     (auto simp: to_digit_def hex_digit_def Let_def is_ascii_digit_def)

lemma show_nat_digits: "list_all is_ascii_digit (show_nat n)"
  using show_radix_digits [of 10 n] to_digit_ten_iff by (auto simp: show_nat_def list_all_iff)

lemma parse_show_nat: "n \<le> bound \<Longrightarrow> parse_uint bound (show_nat n) = Some n"
proof -
  assume n: "n \<le> bound"
  obtain c cs where s: "show_nat n = c # cs" by (cases "show_nat n") (auto simp: show_nat_def)
  have d: "list_all is_ascii_digit (c # cs)" using show_nat_digits [of n] s by simp
  then have "c \<noteq> CHR ''+''" by (auto simp: is_ascii_digit_def byte_val_def)
  moreover have "digits_val 0 (c # cs) = n"
    using show_radix_digits [of 10 n] digits_val_foldl [OF d, of 0] s by (simp add: show_nat_def num_val_def)
  ultimately show ?thesis using n d by (simp add: parse_uint_def s Let_def)
qed

lemma show_nat_no_colon: "c \<in> set (show_nat n) \<Longrightarrow> c \<noteq> CHR '':'' \<and> c \<noteq> CHR ''.''"
  using show_nat_digits [of n] by (auto simp: list_all_iff is_ascii_digit_def byte_val_def)

section \<open>Printed addresses read back\<close>

lemma stops_dot [simp]: "stops 10 (CHR ''.'' # s)" "stops r []" "stops 16 (CHR '':'' # s)"
  by (simp_all add: stops_def to_digit_def hex_digit_def is_ascii_digit_def byte_val_def)

lemma read_octet_show:
  assumes "n < 256" and "stops 10 s"
  shows "read_octet (show_nat n @ s) = Some (n, s)"
  using read_number_show [of 10 n 2 255 s False] assms by (simp add: read_octet_def show_nat_def numeral_3_eq_3)

lemma read_show_ipv4:
  assumes "length os = 4" and "stops 10 s"
  shows "read_ipv4 (show_ipv4 os @ s) = Some (map byte_val os, s)"
proof -
  obtain a b c d where os: "os = [a, b, c, d]"
    using assms(1) by (auto simp: numeral_eq_Suc length_Suc_conv)
  have "read_octet (show_nat (byte_val x) @ s') = Some (byte_val x, s')" if "stops 10 s'" for x s'
    using read_octet_show byte_val_less that by blast
  then show ?thesis
    using assms(2) by (simp add: os show_ipv4_def read_ipv4_def read_given_char_def)
qed

lemma map_char_of_byte_val [simp]: "map (char_of \<circ> byte_val) os = os"
  by (induction os) (simp_all add: byte_val_def)

lemma parse_show_v4: "length os = 4 \<Longrightarrow> parse_ip (show_ip (V4 os)) = Some (V4 os)"
  using read_show_ipv4 [of os "[]"] by (simp add: parse_ip_def map_char_of_byte_val)

text \<open>Without a dot there is no IPv4 address.\<close>

lemma read_ipv4_needs_dot: "CHR ''.'' \<notin> set s \<Longrightarrow> read_ipv4 s = None"
proof -
  assume "CHR ''.'' \<notin> set s"
  then have "read_given_char (CHR ''.'') (dropWhile P s) = None" for P
    using set_dropWhileD [of "CHR ''.''" P s] by (auto simp: read_given_char_def split: list.splits)
  then show ?thesis
    by (auto simp: read_ipv4_def read_octet_def read_number_def Let_def)
qed

lemma show_radix_no_dot: "c \<in> set (show_radix 16 g) \<Longrightarrow> c \<noteq> CHR ''.''"
  using show_radix_digits [of 16 g]
  by (fastforce simp: list_all_iff to_digit_def hex_digit_def is_ascii_digit_def byte_val_def)

lemma show_groups_Cons:
  "show_groups (g # gs) = show_radix 16 g @ (if gs = [] then [] else CHR '':'' # show_groups gs)"
  by (cases gs) simp_all

lemma show_groups_no_dot: "CHR ''.'' \<notin> set (show_groups gs)"
  by (induction gs) (auto simp: show_groups_Cons dest: show_radix_no_dot)

text \<open>Where a list of groups ends: at the end of the text or before a double colon.\<close>

definition groups_end :: "string \<Rightarrow> bool" where
  "groups_end s \<longleftrightarrow> s = [] \<or> (\<exists>s'. s = CHR '':'' # CHR '':'' # s') \<and> CHR ''.'' \<notin> set s"

lemma read_group_at_end: "groups_end s \<Longrightarrow> Option.bind (read_sep first s) (read_number 16 4 True 65535) = None"
  by (auto simp: groups_end_def read_sep_def read_given_char_def read_number_def to_digit_def
      hex_digit_def is_ascii_digit_def byte_val_def)

lemma read_no_ipv4: "CHR ''.'' \<notin> set s \<Longrightarrow> Option.bind (read_sep first s) read_ipv4 = None"
  by (auto simp: read_sep_def read_given_char_def read_ipv4_needs_dot split: list.splits)

lemma groups_end_no_dot: "groups_end s \<Longrightarrow> CHR ''.'' \<notin> set s"
  by (auto simp: groups_end_def)

lemma read_show_groups:
  assumes "list_all (\<lambda>g. g < 65536) gs" and "length gs \<le> left" and "groups_end s"
  shows "read_groups left first ((if first \<or> gs = [] then [] else '':'') @ show_groups gs @ s) = (gs, False, s)"
  using assms
proof (induction gs arbitrary: left first)
  case Nil
  then show ?case
    using read_no_ipv4 [OF groups_end_no_dot] read_group_at_end by (cases left) (auto split: option.splits)
next
  case (Cons g gs)
  then obtain l where l: "left = Suc l" by (cases left) auto
  let ?rest = "(if gs = [] then [] else '':'') @ show_groups gs @ s"
  let ?all = "(if first then [] else '':'') @ show_radix 16 g @ ?rest"
  have rest: "stops 16 ?rest" using Cons.prems(3) by (auto simp: groups_end_def)
  have shown: "(if first \<or> g # gs = [] then [] else '':'') @ show_groups (g # gs) @ s = ?all"
    by (simp add: show_groups_Cons)
  have "CHR ''.'' \<notin> set ?all"
    using groups_end_no_dot [OF Cons.prems(3)] show_groups_no_dot [of gs] show_radix_no_dot [of "CHR ''.''" g] by auto
  note v4 = read_no_ipv4 [OF this, of first]
  have "read_number 16 4 True 65535 (show_radix 16 g @ ?rest) = Some (g, ?rest)"
    using read_number_show [OF _ _ _ _ rest, of g 3 65535 True] Cons.prems(1) by simp
  then have "Option.bind (read_sep first ?all) (read_number 16 4 True 65535) = Some (g, ?rest)"
    by (simp add: read_sep_def read_given_char_def)
  moreover have "read_groups l False ?rest = (gs, False, s)"
    using Cons.IH [of l False] Cons.prems l by simp
  ultimately show ?case unfolding shown l read_groups.simps using v4 Cons.prems(2) l by (cases gs) auto
qed

lemma segments_props:
  assumes "length os = 2 * n"
  shows "octets_of_segments (segments os) = os \<and> length (segments os) = n \<and> list_all (\<lambda>g. g < 65536) (segments os)"
  using assms
proof (induction os arbitrary: n rule: segments.induct)
  case (1 a b cs)
  then obtain m where m: "n = Suc m" "length cs = 2 * m" by (cases n) auto
  have "be_val [a, b] < 65536" using be_val_less [of "[a, b]"] by simp
  moreover have "be16 (be_val [a, b]) = [a, b]" using be_bytes_be_val [of "[a, b]"] by (simp add: be16_def numeral_2_eq_2)
  ultimately show ?case using "1.IH" [OF m(2)] m(1) by (simp add: octets_of_segments_def)
qed (auto simp: octets_of_segments_def)

lemma zero_runs_zero:
  "(j, n) \<in> set (zero_runs i gs) \<Longrightarrow> \<exists>k. j = i + k \<and> k + n \<le> length gs \<and> take n (drop k gs) = replicate n 0"
proof (induction gs arbitrary: i)
  case Nil
  then show ?case by simp
next
  case (Cons g gs)
  let ?z = "takeWhile (\<lambda>x. x = (0 :: nat)) (g # gs)"
  have z: "?z = replicate (length ?z) 0" "length ?z \<le> length (g # gs)"
    by (rule replicate_length_same [symmetric], blast dest: set_takeWhileD, rule length_takeWhile_le)
  consider "(j, n) = (i, length ?z)" | "(j, n) \<in> set (zero_runs (Suc i) gs)" using Cons.prems by auto
  then show ?case
  proof cases
    case 1
    have "take (length ?z) (g # gs) = ?z" by (metis takeWhile_eq_take)
    also have "\<dots> = replicate (length ?z) 0" by (rule z(1))
    finally have "take n (drop 0 (g # gs)) = replicate n 0" using 1 by (simp only: drop_0 prod.inject)
    moreover have "j = i + 0" "0 + n \<le> length (g # gs)" using 1 z(2) by (simp_all only: prod.inject add_0 add_0_right)
    ultimately show ?thesis by blast
  next
    case 2
    from Cons.IH [OF this] show ?thesis by (metis add_Suc_right add_Suc_shift drop_Suc_Cons length_Cons Suc_le_mono)
  qed
qed

lemma longest_zero_run_zero:
  assumes "longest_zero_run gs = (start, len)"
  shows "start + len \<le> length gs \<and> take len (drop start gs) = replicate len 0"
proof -
  have "fold (\<lambda>run best. if snd best < snd run then run else best) runs b \<in> insert b (set runs)" for runs and b :: "nat \<times> nat"
  proof (induction runs arbitrary: b)
    case (Cons run runs)
    from Cons.IH [of "if snd b < snd run then run else b"] show ?case by (auto split: if_splits)
  qed simp
  from this [of "zero_runs 0 gs" "(0, 0)"] assms
  have "(start, len) = (0, 0) \<or> (start, len) \<in> set (zero_runs 0 gs)" by (auto simp: longest_zero_run_def)
  then show ?thesis using zero_runs_zero [of start len 0 gs] by auto
qed

lemma parse_show_v6:
  assumes "length os = 16" and "\<not> v6_is_ipv4_mapped os"
  shows "parse_ip (show_ip (V6 os)) = Some (V6 os)"
proof -
  define gs where "gs = segments os"
  have gs: "octets_of_segments gs = os" "length gs = 8" "list_all (\<lambda>g. g < 65536) gs"
    using segments_props [of os 8] assms(1) by (simp_all add: gs_def)
  obtain start len where run: "longest_zero_run gs = (start, len)" by (cases "longest_zero_run gs")
  note zero = longest_zero_run_zero [OF run, unfolded gs(2)]
  define hd_gs tl_gs where "hd_gs = take start gs" and "tl_gs = drop (start + len) gs"
  let ?shown = "show_ip (V6 os)"
  have "read_ipv6 ?shown = Some (gs, [])"
  proof (cases "1 < len")
    case True
    have shown: "?shown = show_groups hd_gs @ ''::'' @ show_groups tl_gs"
      using assms(2) True run by (simp add: gs_def [symmetric] hd_gs_def tl_gs_def)
    have lens: "length hd_gs = start" "length tl_gs = 8 - start - len"
      using zero gs(2) by (auto simp: hd_gs_def tl_gs_def)
    have ok: "list_all (\<lambda>g. g < 65536) hd_gs" "list_all (\<lambda>g. g < 65536) tl_gs"
      using gs(3) by (auto simp: hd_gs_def tl_gs_def list_all_iff dest: in_set_takeD in_set_dropD)
    have "groups_end (''::'' @ show_groups tl_gs)" "groups_end []"
      using show_groups_no_dot [of tl_gs] by (auto simp: groups_end_def)
    moreover have "length hd_gs \<le> 8" "length tl_gs \<le> 8 - (length hd_gs + 1)" using lens zero True by simp_all
    ultimately have rd: "read_groups 8 True ?shown = (hd_gs, False, ''::'' @ show_groups tl_gs)"
      "read_groups (8 - (length hd_gs + 1)) True (show_groups tl_gs) = (tl_gs, False, [])"
      using read_show_groups [OF ok(1), of 8 "''::'' @ show_groups tl_gs" True]
        read_show_groups [OF ok(2), of "8 - (length hd_gs + 1)" "[]" True]
      unfolding shown by simp_all
    have "gs = hd_gs @ replicate len 0 @ tl_gs"
      using zero by (metis append_take_drop_id drop_drop add.commute hd_gs_def tl_gs_def)
    moreover have "8 - length hd_gs - length tl_gs = len" "length hd_gs \<noteq> 8" using lens zero True by simp_all
    ultimately show ?thesis using rd by (simp add: read_ipv6_def read_given_char_def del: show_ip.simps)
  next
    case False
    then have "?shown = show_groups gs @ []" using assms(2) run by (simp add: gs_def [symmetric])
    then show ?thesis using read_show_groups [OF gs(3), of 8 "[]" True] gs(2)
      by (simp add: groups_end_def read_ipv6_def)
  qed
  moreover have "CHR ''.'' \<notin> set ?shown"
    using assms(2) show_groups_no_dot run by (auto simp: gs_def [symmetric])
  ultimately show ?thesis using gs(1) by (simp add: parse_ip_def read_ipv4_needs_dot del: show_ip.simps)
qed

end
