(* ===== verification/Direct_Path_Codec.thy ===== *)
theory Direct_Path_Codec
  imports Ip_Text Relay_Wire
begin

text \<open>
  The message layer of \<open>crates/unpeel-core/src/direct_path.rs\<close>: offers and results of a direct-path
  negotiation, with their strict decoders. The JSON text is a parameter (\<open>from_slice\<close>, \<open>to_string\<close>);
  addresses are printed and read by the functions of \<open>Ip_Text\<close>.
\<close>

section \<open>Messages\<close>

definition DIRECT_PATH_VERSION :: u64 where "DIRECT_PATH_VERSION = 1"

datatype path_role = RoleController | RoleHost

record path_offer =
  po_path_session :: string
  po_role :: path_role
  po_candidates :: "path_candidate list"

datatype failure_reason = NoCandidates | PunchTimeout | ProbeAuthFailed | TransportRejected

datatype path_outcome = OutcomeEstablished path_candidate | OutcomeFailed failure_reason

record path_result =
  pr_path_session :: string
  pr_outcome :: path_outcome

section \<open>Candidates\<close>

text \<open>The first key that is not allowed, in the order of the map.\<close>

definition unknown_key :: "string list \<Rightarrow> json_map \<Rightarrow> string option" where
  "unknown_key allowed object = List.find (\<lambda>k. k \<notin> set allowed) (map fst object)"

definition check_keys :: "string \<Rightarrow> string list \<Rightarrow> json_map \<Rightarrow> string + unit" where
  "check_keys message allowed object =
     (case unknown_key allowed object of Some key \<Rightarrow> Inl (message @ key) | None \<Rightarrow> Inr ())"

definition parse_candidate_kind :: "json_map \<Rightarrow> string + candidate_kind" where
  "parse_candidate_kind object =
     (case Option.bind (map_of object ''kind'') as_str of
        Some s \<Rightarrow>
          if s = ''local'' then Inr Local else if s = ''reflexive'' then Inr Reflexive
          else Inl ''kind must be \"local\" or \"reflexive\"''
      | None \<Rightarrow> Inl ''kind must be \"local\" or \"reflexive\"'')"

definition parse_candidate :: "json \<Rightarrow> string + path_candidate" where
  "parse_candidate value =
     rbind (ok_or ''candidate must be an object'' (as_object value)) (\<lambda>object.
     rbind (check_keys ''unknown candidate field: '' [''kind'', ''address'', ''port''] object) (\<lambda>_.
     rbind (parse_candidate_kind object) (\<lambda>kind.
     rbind (ok_or ''address must be a string'' (Option.bind (map_of object ''address'') as_str)) (\<lambda>written.
     rbind (ok_or ''address must be a numeric IP literal'' (parse_ip written)) (\<lambda>address.
     rbind (guard_err (show_ip address \<noteq> written) ''address must be in canonical form'') (\<lambda>_.
     rbind (validate_candidate_address address) (\<lambda>_.
     rbind (ok_or ''port must be an unsigned integer'' (Option.bind (map_of object ''port'') as_u64)) (\<lambda>port.
     rbind (guard_err (port = 0 \<or> port > 65535) ''port must be 1..=65535'') (\<lambda>_.
       Inr \<lparr>pc_kind = kind, pc_address = address, pc_port = port\<rparr>)))))))))"

fun kind_text :: "candidate_kind \<Rightarrow> string" where
  "kind_text Local = ''local''"
| "kind_text Reflexive = ''reflexive''"

definition candidate_json :: "path_candidate \<Rightarrow> json" where
  "candidate_json c =
     jobj [(''kind'', JStr (kind_text (pc_kind c))), (''address'', JStr (show_ip (pc_address c))),
       (''port'', JNum (PosInt (pc_port c)))]"

section \<open>Offers\<close>

definition require_version :: "json_map \<Rightarrow> string + unit" where
  "require_version object =
     (if Option.bind (map_of object ''v'') as_u64 = Some DIRECT_PATH_VERSION then Inr ()
      else Inl ''unsupported direct-path version'')"

definition require_path_session :: "json_map \<Rightarrow> string + string" where
  "require_path_session object =
     rbind (ok_or ''pathSession must be a string'' (Option.bind (map_of object ''pathSession'') as_str)) (\<lambda>value.
       if length value \<noteq> PATH_SESSION_HEX_LEN
          \<or> \<not> list_all (\<lambda>c. is_ascii_hexdigit c \<and> \<not> is_ascii_upper c) value
       then Inl ''pathSession must be 32 lowercase hex characters'' else Inr value)"

fun role_text :: "path_role \<Rightarrow> string" where
  "role_text RoleController = ''controller''"
| "role_text RoleHost = ''host''"

definition path_offer_json :: "path_offer \<Rightarrow> json" where
  "path_offer_json offer =
     jobj [(''v'', JNum (PosInt DIRECT_PATH_VERSION)), (''pathSession'', JStr (po_path_session offer)),
       (''role'', JStr (role_text (po_role offer))),
       (''candidates'', JArr (map candidate_json (po_candidates offer)))]"

definition encode_path_offer :: "(json \<Rightarrow> string) \<Rightarrow> path_offer \<Rightarrow> string" where
  "encode_path_offer to_string offer = to_string (path_offer_json offer)"

definition parse_role :: "json_map \<Rightarrow> string + path_role" where
  "parse_role object =
     (case Option.bind (map_of object ''role'') as_str of
        Some s \<Rightarrow>
          if s = ''controller'' then Inr RoleController else if s = ''host'' then Inr RoleHost
          else Inl ''role must be \"controller\" or \"host\"''
      | None \<Rightarrow> Inl ''role must be \"controller\" or \"host\"'')"

fun parse_candidates :: "json list \<Rightarrow> path_candidate list \<Rightarrow> string + path_candidate list" where
  "parse_candidates [] candidates = Inr candidates"
| "parse_candidates (value # raw) candidates =
     rbind (parse_candidate value) (\<lambda>candidate.
       if candidate \<in> set candidates then Inl ''duplicate candidate''
       else parse_candidates raw (candidates @ [candidate]))"

definition parse_path_offer_strict :: "(string \<Rightarrow> json option) \<Rightarrow> string \<Rightarrow> string + path_offer" where
  "parse_path_offer_strict from_slice body =
     rbind (ok_or ''offer is not valid JSON'' (from_slice body)) (\<lambda>value.
     rbind (ok_or ''offer must be an object'' (as_object value)) (\<lambda>object.
     rbind (check_keys ''unknown offer field: '' [''v'', ''pathSession'', ''role'', ''candidates''] object) (\<lambda>_.
     rbind (require_version object) (\<lambda>_.
     rbind (require_path_session object) (\<lambda>path_session.
     rbind (parse_role object) (\<lambda>role.
     rbind (ok_or ''candidates must be an array'' (Option.bind (map_of object ''candidates'') as_array)) (\<lambda>raw.
     rbind (guard_err (raw = [] \<or> length raw > MAX_CANDIDATES) ''candidates must be 1..=16'') (\<lambda>_.
     rbind (parse_candidates raw []) (\<lambda>candidates.
       Inr \<lparr>po_path_session = path_session, po_role = role, po_candidates = candidates\<rparr>)))))))))"

section \<open>Results\<close>

fun reason_text :: "failure_reason \<Rightarrow> string" where
  "reason_text NoCandidates = ''no_candidates''"
| "reason_text PunchTimeout = ''punch_timeout''"
| "reason_text ProbeAuthFailed = ''probe_auth_failed''"
| "reason_text TransportRejected = ''transport_rejected''"

fun outcome_fields :: "path_outcome \<Rightarrow> (string \<times> json) list" where
  "outcome_fields (OutcomeEstablished c) = [(''outcome'', JStr ''established''), (''chosen'', candidate_json c)]"
| "outcome_fields (OutcomeFailed r) = [(''outcome'', JStr ''failed''), (''reason'', JStr (reason_text r))]"

definition path_result_json :: "path_result \<Rightarrow> json" where
  "path_result_json r =
     jobj ([(''v'', JNum (PosInt DIRECT_PATH_VERSION)), (''pathSession'', JStr (pr_path_session r))]
       @ outcome_fields (pr_outcome r))"

definition encode_path_result :: "(json \<Rightarrow> string) \<Rightarrow> path_result \<Rightarrow> string" where
  "encode_path_result to_string r = to_string (path_result_json r)"

definition parse_reason :: "json_map \<Rightarrow> string + failure_reason" where
  "parse_reason object =
     (case Option.bind (map_of object ''reason'') as_str of
        Some s \<Rightarrow>
          (if s = ''no_candidates'' then Inr NoCandidates
           else if s = ''punch_timeout'' then Inr PunchTimeout
           else if s = ''probe_auth_failed'' then Inr ProbeAuthFailed
           else if s = ''transport_rejected'' then Inr TransportRejected
           else Inl ''unknown failure reason'')
      | None \<Rightarrow> Inl ''unknown failure reason'')"

definition parse_outcome :: "json_map \<Rightarrow> string + path_outcome" where
  "parse_outcome object =
     (case Option.bind (map_of object ''outcome'') as_str of
        Some s \<Rightarrow>
          (if s = ''established'' then
             rbind (guard_err (map_of object ''reason'' \<noteq> None) ''established result must not carry a reason'') (\<lambda>_.
             rbind (ok_or ''established result needs chosen'' (map_of object ''chosen'')) (\<lambda>chosen.
             rbind (parse_candidate chosen) (\<lambda>c. Inr (OutcomeEstablished c))))
           else if s = ''failed'' then
             rbind (guard_err (map_of object ''chosen'' \<noteq> None) ''failed result must not carry chosen'') (\<lambda>_.
             rbind (parse_reason object) (\<lambda>r. Inr (OutcomeFailed r)))
           else Inl ''outcome must be \"established\" or \"failed\"'')
      | None \<Rightarrow> Inl ''outcome must be \"established\" or \"failed\"'')"

definition parse_path_result_strict :: "(string \<Rightarrow> json option) \<Rightarrow> string \<Rightarrow> string + path_result" where
  "parse_path_result_strict from_slice body =
     rbind (ok_or ''result is not valid JSON'' (from_slice body)) (\<lambda>value.
     rbind (ok_or ''result must be an object'' (as_object value)) (\<lambda>object.
     rbind (check_keys ''unknown result field: ''
              [''v'', ''pathSession'', ''outcome'', ''chosen'', ''reason''] object) (\<lambda>_.
     rbind (require_version object) (\<lambda>_.
     rbind (require_path_session object) (\<lambda>path_session.
     rbind (parse_outcome object) (\<lambda>outcome.
       Inr \<lparr>pr_path_session = path_session, pr_outcome = outcome\<rparr>))))))"

end
