(* ===== verification/Direct_Hub.thy ===== *)
theory Direct_Hub
  imports Direct_Path_Codec
begin

text \<open>
  Model of \<open>crates/unpeel-serve/src/direct_path.rs\<close>, the Host side of direct-path signaling: the
  handshake material of every relayed connection, and the one live path session each connection may
  have. An \<open>Arc<AtomicBool>\<close> is an index into the list \<open>dh_flags\<close>, so that the hub and the punch
  worker share the flag. \<open>negotiate\<close> takes the lock twice and gathers candidates in between; the two
  critical sections are \<open>negotiate_key\<close> and \<open>negotiate_install\<close>, so that other operations can run
  between them. The socket, the interfaces and the STUN query are parameters.
\<close>

section \<open>Connections\<close>

record conn_material =
  cm_shared_secret :: string
  cm_client_salt :: string
  cm_host_salt :: string

record active_path =
  ap_path_session :: string
  ap_cancel :: nat

record conn_entry =
  cn_material :: conn_material
  cn_active :: "active_path option"

record direct_hub =
  dh_connections :: "(u32, conn_entry) hmap"
  dh_skip_stun :: bool
  dh_flags :: "bool list"

definition direct_hub_default :: direct_hub where
  "direct_hub_default = \<lparr>dh_connections = [], dh_skip_stun = False, dh_flags = []\<rparr>"

definition error_json :: "string \<Rightarrow> json" where
  "error_json message = jobj [(''error'', JStr message)]"

text \<open>Raising the flag of the path an entry had.\<close>

definition raise_active :: "conn_entry option \<Rightarrow> bool list \<Rightarrow> bool list" where
  "raise_active entry flags =
     (case Option.bind entry cn_active of None \<Rightarrow> flags | Some active \<Rightarrow> flags[ap_cancel active := True])"

definition register :: "u32 \<Rightarrow> conn_material \<Rightarrow> direct_hub \<Rightarrow> direct_hub" where
  "register conn_id material h =
     h\<lparr>dh_connections := hm_put conn_id \<lparr>cn_material = material, cn_active = None\<rparr> (dh_connections h),
       dh_flags := raise_active (hm_get (dh_connections h) conn_id) (dh_flags h)\<rparr>"

definition remove :: "u32 \<Rightarrow> direct_hub \<Rightarrow> direct_hub" where
  "remove conn_id h =
     h\<lparr>dh_connections := hm_remove conn_id (dh_connections h),
       dh_flags := raise_active (hm_get (dh_connections h) conn_id) (dh_flags h)\<rparr>"

section \<open>Negotiation\<close>

text \<open>What a refusal answers.\<close>

type_synonym path_answer = "u16 \<times> json"

definition parse_controller_offer ::
    "(string \<Rightarrow> json option) \<Rightarrow> string \<Rightarrow> path_answer + path_offer \<times> string" where
  "parse_controller_offer from_slice body =
     (case parse_path_offer_strict from_slice body of
        Inl e \<Rightarrow> Inl (400, error_json e)
      | Inr offer \<Rightarrow>
          if po_role offer \<noteq> RoleController then Inl (400, error_json ''offer role must be controller'')
          else case path_session_bytes (po_path_session offer) of
              None \<Rightarrow> Inl (400, error_json ''pathSession must be 32 hex characters'')
            | Some session_bytes \<Rightarrow> Inr (offer, session_bytes))"

definition not_relayed :: path_answer where
  "not_relayed = (409, error_json ''direct path requires a relayed connection'')"

definition negotiate_key ::
    "(string \<Rightarrow> string \<Rightarrow> string \<Rightarrow> string) \<Rightarrow> u32 \<Rightarrow> path_offer \<Rightarrow> direct_hub \<Rightarrow> path_answer + string" where
  "negotiate_key hkdf conn_id offer h =
     (case hm_get (dh_connections h) conn_id of
        None \<Rightarrow> Inl not_relayed
      | Some entry \<Rightarrow>
          let m = cn_material entry
          in Inr (probe_key hkdf (cm_shared_secret m) (cm_client_salt m) (cm_host_salt m) (po_path_session offer)))"

text \<open>\<open>stun\<close>: the outcome of the query, when it is made at all.\<close>

definition gather_candidates ::
    "ip_addr option list option \<Rightarrow> (string + socket_addr) option \<Rightarrow> u16 \<Rightarrow> path_candidate list" where
  "gather_candidates interfaces stun local_port =
     (let candidates = map (\<lambda>a. \<lparr>pc_kind = Local, pc_address = a, pc_port = local_port\<rparr>)
            (local_candidate_addresses interfaces);
          candidates = (case stun of
             Some (Inr (address, port)) \<Rightarrow>
               let candidate = \<lparr>pc_kind = Reflexive, pc_address = address, pc_port = port\<rparr>
               in if candidate \<in> set candidates then candidates else candidates @ [candidate]
           | _ \<Rightarrow> candidates)
      in take MAX_CANDIDATES candidates)"

text \<open>What the spawned punch worker gets.\<close>

record punch_job =
  pj_key :: string
  pj_session :: string
  pj_peers :: "path_candidate list"
  pj_cancel :: nat

definition negotiate_install ::
    "(json \<Rightarrow> string) \<Rightarrow> (string \<Rightarrow> json option) \<Rightarrow> u32 \<Rightarrow> path_offer \<Rightarrow> string \<Rightarrow> string \<Rightarrow> path_candidate list
       \<Rightarrow> direct_hub \<Rightarrow> path_answer option \<times> direct_hub \<times> punch_job option" where
  "negotiate_install to_string from_slice conn_id offer session_bytes key candidates h =
     (case hm_get (dh_connections h) conn_id of
        None \<Rightarrow> (Some not_relayed, h, None)
      | Some entry \<Rightarrow>
          let cancel = length (dh_flags h);
              active = \<lparr>ap_path_session = po_path_session offer, ap_cancel = cancel\<rparr>;
              h' = h\<lparr>dh_connections := hm_put conn_id (entry\<lparr>cn_active := Some active\<rparr>) (dh_connections h),
                     dh_flags := raise_active (Some entry) (dh_flags h) @ [False]\<rparr>;
              host_offer = \<lparr>po_path_session = po_path_session offer, po_role = RoleHost, po_candidates = candidates\<rparr>;
              job = \<lparr>pj_key = key, pj_session = session_bytes, pj_peers = po_candidates offer, pj_cancel = cancel\<rparr>
          in (map_option (\<lambda>v. (200, v)) (from_slice (encode_path_offer to_string host_offer)), h', Some job))"

text \<open>The whole operation when nothing runs in between; \<open>None\<close> is the panic of an offer that does not
  encode. \<open>bound\<close> is the local port of the punch socket, or the error of binding it.\<close>

definition negotiate ::
    "(string \<Rightarrow> string \<Rightarrow> string \<Rightarrow> string) \<Rightarrow> (json \<Rightarrow> string) \<Rightarrow> (string \<Rightarrow> json option)
       \<Rightarrow> string + u16 \<Rightarrow> ip_addr option list option \<Rightarrow> string + socket_addr \<Rightarrow> u32 \<Rightarrow> string \<Rightarrow> direct_hub
       \<Rightarrow> path_answer option \<times> direct_hub \<times> punch_job option" where
  "negotiate hkdf to_string from_slice bound interfaces stun conn_id body h =
     (case parse_controller_offer from_slice body of
        Inl answer \<Rightarrow> (Some answer, h, None)
      | Inr (offer, session_bytes) \<Rightarrow>
          (case negotiate_key hkdf conn_id offer h of
             Inl answer \<Rightarrow> (Some answer, h, None)
           | Inr key \<Rightarrow>
               (case bound of
                  Inl e \<Rightarrow> (Some (500, error_json (''bind failed: '' @ e)), h, None)
                | Inr local_port \<Rightarrow>
                    let candidates = gather_candidates interfaces (if dh_skip_stun h then None else Some stun) local_port
                    in if candidates = [] then (Some (500, error_json ''no usable host candidates''), h, None)
                       else negotiate_install to_string from_slice conn_id offer session_bytes key candidates h)))"

definition hub_result :: "(string \<Rightarrow> json option) \<Rightarrow> u32 \<Rightarrow> string \<Rightarrow> direct_hub \<Rightarrow> path_answer" where
  "hub_result from_slice conn_id body h =
     (case parse_path_result_strict from_slice body of
        Inl e \<Rightarrow> (400, error_json e)
      | Inr r \<Rightarrow>
          (case hm_get (dh_connections h) conn_id of
             Some entry \<Rightarrow>
               (case cn_active entry of
                  Some active \<Rightarrow>
                    if ap_path_session active = pr_path_session r then (200, jobj [(''ok'', JBool True)])
                    else (409, error_json ''unknown path session'')
                | None \<Rightarrow> (409, error_json ''unknown path session''))
           | None \<Rightarrow> (409, error_json ''unknown path session'')))"

section \<open>Request ids\<close>

text \<open>\<open>rsplit(':').next()\<close> is the part behind the last colon, the whole text without one.\<close>

definition rsplit_first :: "byte \<Rightarrow> string \<Rightarrow> string" where
  "rsplit_first d s = (case rsplit_once d s of Some (_, b) \<Rightarrow> b | None \<Rightarrow> s)"

definition relay_conn_id :: "string option \<Rightarrow> u32 option" where
  "relay_conn_id request_id =
     Option.bind request_id (\<lambda>r.
     Option.bind (if starts_with ''relay:'' r then Some (drop 6 r) else None) (\<lambda>rest.
     Option.bind (rsplit_once (CHR '':'') rest) (\<lambda>(namespaced, _).
       parse_uint (2 ^ 32 - 1) (rsplit_first (CHR '':'') namespaced))))"

section \<open>One live path per connection\<close>

inductive hub_reachable :: "direct_hub \<Rightarrow> bool" where
  start: "dh_connections h = [] \<Longrightarrow> dh_flags h = [] \<Longrightarrow> hub_reachable h"
| step_register: "hub_reachable h \<Longrightarrow> hub_reachable (register c m h)"
| step_remove: "hub_reachable h \<Longrightarrow> hub_reachable (remove c h)"
| step_install: "hub_reachable h
    \<Longrightarrow> hub_reachable (fst (snd (negotiate_install to_string from_slice c offer sb key cs h)))"

text \<open>The flag of the live path of a connection, and the invariant: the flags that are not raised are
  those of the live paths, each of one connection.\<close>

definition live_flag :: "direct_hub \<Rightarrow> u32 \<Rightarrow> nat option" where
  "live_flag h c = map_option ap_cancel (Option.bind (hm_get (dh_connections h) c) cn_active)"

definition hub_inv :: "direct_hub \<Rightarrow> bool" where
  "hub_inv h \<longleftrightarrow> hm_wf (dh_connections h)
     \<and> (\<forall>c i. live_flag h c = Some i \<longrightarrow> i < length (dh_flags h))
     \<and> (\<forall>i < length (dh_flags h). \<not> dh_flags h ! i \<longleftrightarrow> (\<exists>c. live_flag h c = Some i))
     \<and> (\<forall>c c' i. live_flag h c = Some i \<longrightarrow> live_flag h c' = Some i \<longrightarrow> c = c')"

end
