(* ===== verification/Direct_Path_Codec_Props.thy ===== *)
theory Direct_Path_Codec_Props
  imports Direct_Path_Codec Relay_Wire_Props
begin

text \<open>
  The direct-path messages have exactly one spelling: the strict decoders accept the canonical
  encoding of a valid message and nothing else. Together with the JSON text this gives the round
  trip both ways.
\<close>

section \<open>Sorted maps\<close>

text \<open>The objects of \<open>serde_json\<close> are sorted maps; so are the parser's results.\<close>

fun json_sorted :: "json \<Rightarrow> bool" where
  "json_sorted (JArr xs) = list_all json_sorted xs"
| "json_sorted (JObj m) = (jmap_wf m \<and> list_all (\<lambda>kv. json_sorted (snd kv)) m)"
| "json_sorted _ = True"

lemma jmap_wf_ext:
  assumes "jmap_wf m" and "jmap_wf m'" and "map_of m = map_of m'"
  shows "m = m'"
proof -
  have d: "distinct (map fst m)" "distinct (map fst m')"
    using assms(1,2) by (auto simp: jmap_wf_def strict_sorted_iff)
  have "set m = set m'" using d assms(3) by (metis map_of_eqI map_of_inject_set)
  then have "set (map fst m) = set (map fst m')" by simp
  then have k: "map fst m = map fst m'"
    using assms(1,2) by (intro sorted_distinct_set_unique) (auto simp: jmap_wf_def strict_sorted_iff)
  have "map snd m = map (the \<circ> map_of m) (map fst m)" if "distinct (map fst m)" for m :: json_map
    using that by (auto simp: comp_def)
  then have "map snd m = map snd m'" using d k assms(3) by metis
  with k show ?thesis by (metis zip_map_fst_snd)
qed

lemma object_is_jobj:
  assumes "jmap_wf m" and "unknown_key keys m = None" and "distinct (map fst kvs)"
    and "fst ` set kvs \<subseteq> set keys" and "list_all (\<lambda>k. map_of m k = map_of kvs k) keys"
  shows "JObj m = jobj kvs"
proof -
  have "map_of m k = map_of kvs k" for k
  proof (cases "k \<in> set keys")
    case True
    then show ?thesis using assms(5) by (simp add: list_all_iff)
  next
    case False
    then have "map_of m k = None"
      using assms(2) by (force simp: unknown_key_def find_None_iff map_of_eq_None_iff)
    moreover have "map_of kvs k = None" using False assms(4) by (auto simp: map_of_eq_None_iff)
    ultimately show ?thesis by simp
  qed
  then have "m = jmap_of kvs"
    using assms(1,3) by (intro jmap_wf_ext) (auto simp: map_of_jmap_of_distinct)
  then show ?thesis by (simp add: jobj_def)
qed

lemma check_keys_jobj: "fst ` set kvs \<subseteq> set keys \<Longrightarrow> check_keys e keys (jmap_of kvs) = Inr ()"
  using keys_jmap_of [of kvs]
  by (auto simp: check_keys_def unknown_key_def find_None_iff split: option.splits)

lemma as_str_Some: "as_str v = Some s \<longleftrightarrow> v = JStr s"
  by (cases v) auto

lemma check_keys_Inr: "check_keys e keys m = Inr u \<longleftrightarrow> unknown_key keys m = None"
  by (auto simp: check_keys_def split: option.splits)

section \<open>Candidates\<close>

definition candidate_ok :: "path_candidate \<Rightarrow> bool" where
  "candidate_ok c \<longleftrightarrow> ip_wf (pc_address c) \<and> validate_candidate_address (pc_address c) = Inr ()
     \<and> 0 < pc_port c \<and> pc_port c \<le> 65535"

lemma read_groups_length: "length (fst (read_groups left first s)) \<le> left"
  by (induction left first s rule: read_groups.induct)
     (auto split: option.splits prod.splits if_splits)

lemma parse_ip_wf:
  assumes "parse_ip s = Some a"
  shows "ip_wf a"
proof -
  have v4: "length os = 4" if "read_ipv4 s = Some (os, s')" for os s'
    using that by (auto simp: read_ipv4_def bind_eq_Some_conv)
  have v6: "length gs = 8" if r: "read_ipv6 s = Some (gs, s')" for gs s'
  proof -
    obtain hd v s1 where h: "read_groups 8 True s = (hd, v, s1)" by (cases "read_groups 8 True s")
    have "length hd \<le> 8" using read_groups_length [of 8 True s] h by simp
    show ?thesis
    proof (cases "length hd = 8")
      case True
      then show ?thesis using r h by (simp add: read_ipv6_def)
    next
      case False
      then obtain s3 where "gs = hd @ replicate (8 - length hd - length (fst (read_groups (8 - (length hd + 1)) True s3))) 0
          @ fst (read_groups (8 - (length hd + 1)) True s3)"
        using r h by (auto simp: read_ipv6_def bind_eq_Some_conv case_prod_unfold split: if_splits)
      moreover define tl where "tl = fst (read_groups (8 - (length hd + 1)) True s3)"
      ultimately have gs: "gs = hd @ replicate (8 - length hd - length tl) 0 @ tl" by simp
      have "length tl \<le> 8 - (length hd + 1)" unfolding tl_def by (rule read_groups_length)
      then show ?thesis using \<open>length hd \<le> 8\<close> False by (simp add: gs)
    qed
  qed
  have "length (octets_of_segments gs) = 2 * length gs" for gs
    by (induction gs) (simp_all add: octets_of_segments_def)
  with assms v4 v6 show ?thesis by (auto simp: parse_ip_def split: option.splits if_splits)
qed

lemma parse_show_ip: "ip_wf a \<Longrightarrow> validate_candidate_address a = Inr () \<Longrightarrow> parse_ip (show_ip a) = Some a"
proof (cases a)
  case (V6 os)
  assume "ip_wf a" and "validate_candidate_address a = Inr ()"
  then have "length os = 16" "\<not> v6_is_ipv4_mapped os"
    by (auto simp: V6 validate_candidate_address_def split: if_splits)
  then show ?thesis using parse_show_v6 by (simp add: V6)
qed (simp add: parse_show_v4 del: show_ip.simps)

lemma map_of_jobj: "distinct (map fst kvs) \<Longrightarrow> jobj kvs = JObj (jmap_of kvs) \<and> map_of (jmap_of kvs) = map_of kvs"
  by (simp add: jobj_def map_of_jmap_of_distinct)

lemma parse_candidate_json: "candidate_ok c \<Longrightarrow> parse_candidate (candidate_json c) = Inr c"
proof -
  assume c: "candidate_ok c"
  let ?kvs = "[(''kind'', JStr (kind_text (pc_kind c))), (''address'', JStr (show_ip (pc_address c))),
       (''port'', JNum (PosInt (pc_port c)))]"
  have keys: "check_keys e [''kind'', ''address'', ''port''] (jmap_of ?kvs) = Inr ()" for e
    by (rule check_keys_jobj) simp
  have mo: "map_of (jmap_of ?kvs) = map_of ?kvs" by (rule map_of_jmap_of_distinct) simp
  have kind: "parse_candidate_kind (jmap_of ?kvs) = Inr (pc_kind c)"
    unfolding parse_candidate_kind_def mo by (cases "pc_kind c") simp_all
  show ?thesis
    using c parse_show_ip [of "pc_address c"]
    by (simp add: parse_candidate_def candidate_json_def keys kind mo candidate_ok_def)
qed

lemma parse_candidate_exact:
  assumes "json_sorted v" and "parse_candidate v = Inr c"
  shows "v = candidate_json c \<and> candidate_ok c"
proof -
  obtain m kind written port where v: "v = JObj m"
    and keys: "unknown_key [''kind'', ''address'', ''port''] m = None"
    and kind: "parse_candidate_kind m = Inr (pc_kind c)"
    and addr: "map_of m ''address'' = Some (JStr written)" "parse_ip written = Some (pc_address c)"
      "show_ip (pc_address c) = written" "validate_candidate_address (pc_address c) = Inr ()"
    and port: "map_of m ''port'' = Some (JNum (PosInt (pc_port c)))" "0 < pc_port c" "pc_port c \<le> 65535"
    using assms(2)
    by (auto simp: parse_candidate_def rbind_Inr_iff check_keys_Inr bind_eq_Some_conv
        elim!: as_object.elims as_str.elims as_u64.elims)
  have "map_of m ''kind'' = Some (JStr (kind_text (pc_kind c)))"
    using kind by (auto simp: parse_candidate_kind_def bind_eq_Some_conv split: option.splits if_splits elim!: as_str.elims)
  then have "JObj m = candidate_json c"
    unfolding candidate_json_def
    using assms(1) keys addr port by (intro object_is_jobj) (auto simp: v)
  then show ?thesis using v addr port parse_ip_wf by (auto simp: candidate_ok_def)
qed

section \<open>Offers and results\<close>

definition path_session_ok :: "string \<Rightarrow> bool" where
  "path_session_ok s \<longleftrightarrow> length s = PATH_SESSION_HEX_LEN
     \<and> list_all (\<lambda>c. is_ascii_hexdigit c \<and> \<not> is_ascii_upper c) s"

definition offer_ok :: "path_offer \<Rightarrow> bool" where
  "offer_ok p \<longleftrightarrow> path_session_ok (po_path_session p) \<and> po_candidates p \<noteq> []
     \<and> length (po_candidates p) \<le> MAX_CANDIDATES \<and> distinct (po_candidates p)
     \<and> list_all candidate_ok (po_candidates p)"

definition result_ok :: "path_result \<Rightarrow> bool" where
  "result_ok r \<longleftrightarrow> path_session_ok (pr_path_session r)
     \<and> (case pr_outcome r of OutcomeEstablished c \<Rightarrow> candidate_ok c | OutcomeFailed _ \<Rightarrow> True)"

lemma parse_candidates_exact:
  "list_all json_sorted vs \<Longrightarrow> parse_candidates vs acc = Inr cs \<Longrightarrow>
     \<exists>ds. cs = acc @ ds \<and> vs = map candidate_json ds \<and> list_all candidate_ok ds
       \<and> distinct ds \<and> set acc \<inter> set ds = {}"
proof (induction vs arbitrary: acc)
  case (Cons v vs)
  then obtain c where c: "parse_candidate v = Inr c" "c \<notin> set acc"
    and r: "parse_candidates vs (acc @ [c]) = Inr cs"
    by (auto simp: rbind_Inr_iff split: if_splits)
  have v: "v = candidate_json c" "candidate_ok c" using parse_candidate_exact Cons.prems(1) c(1) by auto
  obtain ds where "cs = acc @ c # ds" "vs = map candidate_json ds" "list_all candidate_ok ds"
    "distinct ds" "c \<notin> set ds" "set acc \<inter> set ds = {}"
    using Cons.IH [OF _ r] Cons.prems(1) by auto
  then show ?case using v c(2) by (intro exI [of _ "c # ds"]) auto
qed simp

lemma parse_candidates_json:
  "list_all candidate_ok cs \<Longrightarrow> distinct cs \<Longrightarrow> set acc \<inter> set cs = {} \<Longrightarrow>
     parse_candidates (map candidate_json cs) acc = Inr (acc @ cs)"
  by (induction cs arbitrary: acc) (auto simp: parse_candidate_json)

lemma require_version_Inr:
  "require_version m = Inr u \<longleftrightarrow> map_of m ''v'' = Some (JNum (PosInt DIRECT_PATH_VERSION))"
  by (auto simp: require_version_def bind_eq_Some_conv elim!: as_u64.elims)

lemma require_path_session_Inr:
  "require_path_session m = Inr s \<longleftrightarrow> map_of m ''pathSession'' = Some (JStr s) \<and> path_session_ok s"
  by (auto simp: require_path_session_def rbind_Inr_iff bind_eq_Some_conv path_session_ok_def
      split: if_splits elim!: as_str.elims)

lemma parse_role_Inr: "parse_role m = Inr r \<longleftrightarrow> map_of m ''role'' = Some (JStr (role_text r))"
  by (cases r) (auto simp: parse_role_def bind_eq_Some_conv split: option.splits if_splits elim!: as_str.elims)

text \<open>An offer has one spelling: the strict decoder returns an offer exactly when the text is
  its canonical JSON value and the offer is valid (a path session of 32 lowercase hexadecimal digits,
  one to sixteen distinct candidates, each a permitted address with a port). Every valid offer
  therefore reads back, whichever address family its candidates have.\<close>

lemma offer_decodes_exactly:
  assumes "\<forall>b v. from_slice b = Some v \<longrightarrow> json_sorted v"
  shows "parse_path_offer_strict from_slice body = Inr p
    \<longleftrightarrow> from_slice body = Some (path_offer_json p) \<and> offer_ok p"
proof
  let ?keys = "[''v'', ''pathSession'', ''role'', ''candidates'']"
  assume "parse_path_offer_strict from_slice body = Inr p"
  then obtain m raw where v: "from_slice body = Some (JObj m)" and keys: "unknown_key ?keys m = None"
    and ver: "map_of m ''v'' = Some (JNum (PosInt DIRECT_PATH_VERSION))"
    and ps: "map_of m ''pathSession'' = Some (JStr (po_path_session p))" "path_session_ok (po_path_session p)"
    and role: "map_of m ''role'' = Some (JStr (role_text (po_role p)))"
    and raw: "map_of m ''candidates'' = Some (JArr raw)" "raw \<noteq> []" "length raw \<le> MAX_CANDIDATES"
      "parse_candidates raw [] = Inr (po_candidates p)"
    by (auto simp: parse_path_offer_strict_def rbind_Inr_iff check_keys_Inr bind_eq_Some_conv require_version_Inr
        require_path_session_Inr parse_role_Inr elim!: as_object.elims as_array.elims)
  have "json_sorted (JObj m)" using assms v by blast
  then have m: "jmap_wf m" "list_all json_sorted raw"
    using map_of_SomeD [OF raw(1)] by (fastforce simp: list_all_iff)+
  have cs: "raw = map candidate_json (po_candidates p)" "list_all candidate_ok (po_candidates p)"
    "distinct (po_candidates p)"
    using parse_candidates_exact [OF m(2) raw(4)] by auto
  have "JObj m = path_offer_json p"
    unfolding path_offer_json_def using keys ver ps role raw cs
    by (intro object_is_jobj [OF m(1) keys]) auto
  then show "from_slice body = Some (path_offer_json p) \<and> offer_ok p"
    using v ps raw cs by (auto simp: offer_ok_def)
next
  let ?kvs = "[(''v'', JNum (PosInt DIRECT_PATH_VERSION)), (''pathSession'', JStr (po_path_session p)),
       (''role'', JStr (role_text (po_role p))),
       (''candidates'', JArr (map candidate_json (po_candidates p)))]"
  assume p: "from_slice body = Some (path_offer_json p) \<and> offer_ok p"
  have mo: "map_of (jmap_of ?kvs) = map_of ?kvs" by (rule map_of_jmap_of_distinct) simp
  have keys: "check_keys e [''v'', ''pathSession'', ''role'', ''candidates''] (jmap_of ?kvs) = Inr ()" for e
    by (rule check_keys_jobj) simp
  have "require_version (jmap_of ?kvs) = Inr ()" by (simp add: require_version_Inr mo)
  moreover have "require_path_session (jmap_of ?kvs) = Inr (po_path_session p)"
    using p by (simp add: require_path_session_Inr mo offer_ok_def)
  moreover have "parse_role (jmap_of ?kvs) = Inr (po_role p)" by (simp add: parse_role_Inr mo)
  moreover have "parse_candidates (map candidate_json (po_candidates p)) [] = Inr (po_candidates p)"
    using parse_candidates_json [of "po_candidates p" "[]"] p by (simp add: offer_ok_def)
  ultimately show "parse_path_offer_strict from_slice body = Inr p"
    using p by (simp add: parse_path_offer_strict_def path_offer_json_def keys mo offer_ok_def)
qed

section \<open>Results of a negotiation\<close>

lemma parse_reason_Inr: "parse_reason m = Inr r \<longleftrightarrow> map_of m ''reason'' = Some (JStr (reason_text r))"
proof (cases "Option.bind (map_of m ''reason'') as_str")
  case None
  then show ?thesis by (auto simp: parse_reason_def)
next
  case (Some s)
  then have s: "map_of m ''reason'' = Some (JStr s)" by (auto simp: bind_eq_Some_conv as_str_Some)
  show ?thesis
  proof (cases "s \<in> {''no_candidates'', ''punch_timeout'', ''probe_auth_failed'', ''transport_rejected''}")
    case True
    then show ?thesis by (cases r) (auto simp: parse_reason_def s)
  next
    case False
    then show ?thesis by (cases r) (auto simp: parse_reason_def s)
  qed
qed

lemma parse_outcome_Inr:
  "parse_outcome m = Inr oc \<longleftrightarrow>
     (case oc of
        OutcomeEstablished c \<Rightarrow> map_of m ''outcome'' = Some (JStr ''established'') \<and> map_of m ''reason'' = None
          \<and> (\<exists>v. map_of m ''chosen'' = Some v \<and> parse_candidate v = Inr c)
      | OutcomeFailed r \<Rightarrow> map_of m ''outcome'' = Some (JStr ''failed'') \<and> map_of m ''chosen'' = None
          \<and> map_of m ''reason'' = Some (JStr (reason_text r)))"
proof (cases "Option.bind (map_of m ''outcome'') as_str")
  case None
  then show ?thesis by (auto simp: parse_outcome_def split: path_outcome.splits)
next
  case (Some s)
  then have s: "map_of m ''outcome'' = Some (JStr s)" by (auto simp: bind_eq_Some_conv as_str_Some)
  consider "s = ''established''" | "s = ''failed''" | "s \<noteq> ''established''" "s \<noteq> ''failed''" by blast
  then show ?thesis
    by cases (auto simp: parse_outcome_def s rbind_Inr_iff parse_reason_Inr split: path_outcome.splits)
qed

text \<open>A result, too, has one spelling.\<close>

lemma result_decodes_exactly:
  assumes "\<forall>b v. from_slice b = Some v \<longrightarrow> json_sorted v"
  shows "parse_path_result_strict from_slice body = Inr r
    \<longleftrightarrow> from_slice body = Some (path_result_json r) \<and> result_ok r"
proof
  let ?keys = "[''v'', ''pathSession'', ''outcome'', ''chosen'', ''reason'']"
  assume "parse_path_result_strict from_slice body = Inr r"
  then obtain m where v: "from_slice body = Some (JObj m)" and keys: "unknown_key ?keys m = None"
    and ver: "map_of m ''v'' = Some (JNum (PosInt DIRECT_PATH_VERSION))"
    and ps: "map_of m ''pathSession'' = Some (JStr (pr_path_session r))" "path_session_ok (pr_path_session r)"
    and oc: "parse_outcome m = Inr (pr_outcome r)"
    by (auto simp: parse_path_result_strict_def rbind_Inr_iff check_keys_Inr bind_eq_Some_conv require_version_Inr
        require_path_session_Inr elim!: as_object.elims)
  have "json_sorted (JObj m)" using assms v by blast
  then have m: "jmap_wf m" and s: "json_sorted x" if "map_of m k = Some x" for k x
    using map_of_SomeD [OF that] by (fastforce simp: list_all_iff)+
  have "jmap_wf m" using \<open>json_sorted (JObj m)\<close> by simp
  moreover have "list_all (\<lambda>k. map_of m k = map_of ([(''v'', JNum (PosInt DIRECT_PATH_VERSION)),
      (''pathSession'', JStr (pr_path_session r))] @ outcome_fields (pr_outcome r)) k) ?keys"
    using ver ps oc parse_candidate_exact s by (cases "pr_outcome r") (auto simp: parse_outcome_Inr)
  ultimately have "JObj m = path_result_json r"
    unfolding path_result_json_def using keys by (cases "pr_outcome r") (auto intro!: object_is_jobj)
  then show "from_slice body = Some (path_result_json r) \<and> result_ok r"
    using v ps oc parse_candidate_exact s
    by (cases "pr_outcome r") (auto simp: result_ok_def parse_outcome_Inr)
next
  let ?kvs = "[(''v'', JNum (PosInt DIRECT_PATH_VERSION)), (''pathSession'', JStr (pr_path_session r))]
    @ outcome_fields (pr_outcome r)"
  assume r: "from_slice body = Some (path_result_json r) \<and> result_ok r"
  have mo: "map_of (jmap_of ?kvs) = map_of ?kvs"
    by (rule map_of_jmap_of_distinct) (cases "pr_outcome r"; simp)
  have keys: "check_keys e [''v'', ''pathSession'', ''outcome'', ''chosen'', ''reason''] (jmap_of ?kvs) = Inr ()" for e
    by (rule check_keys_jobj) (cases "pr_outcome r"; simp)
  have "require_version (jmap_of ?kvs) = Inr ()" unfolding require_version_Inr mo by simp
  moreover have "require_path_session (jmap_of ?kvs) = Inr (pr_path_session r)"
    using r unfolding require_path_session_Inr mo by (simp add: result_ok_def)
  moreover have "parse_outcome (jmap_of ?kvs) = Inr (pr_outcome r)"
    using r unfolding parse_outcome_Inr mo
    by (cases "pr_outcome r") (auto simp: result_ok_def parse_candidate_json)
  ultimately show "parse_path_result_strict from_slice body = Inr r"
    using r keys [of "''unknown result field: ''"] by (simp add: parse_path_result_strict_def path_result_json_def)
qed

section \<open>Instances\<close>

definition sorted_parse :: "string \<Rightarrow> json option" where
  "sorted_parse s = (case unary_parse JNull s of
     Some v \<Rightarrow> if json_sorted v then Some v else None | None \<Rightarrow> None)"

lemma sorted_parse_sorted: "\<forall>b v. sorted_parse b = Some v \<longrightarrow> json_sorted v"
  by (auto simp: sorted_parse_def split: option.splits if_splits)

lemma json_wf_sorted: "json_wf v \<Longrightarrow> json_sorted v"
  by (induction v rule: json_sorted.induct) (auto simp: list_all_iff)

lemma sorted_parse_faithful: "json_faithful (unary_print JNull) sorted_parse"
  using unary_faithful [of JNull] json_wf_sorted by (auto simp: json_faithful_def sorted_parse_def)

definition sample_offer :: path_offer where
  "sample_offer = \<lparr>po_path_session = replicate 32 (CHR ''0''), po_role = RoleController,
     po_candidates = [\<lparr>pc_kind = Local, pc_address = V4 [CHR 0xC0, CHR 0x00, CHR 0x02, CHR 0x07], pc_port = 4000\<rparr>,
       \<lparr>pc_kind = Reflexive, pc_address = V6 (CHR '' '' # CHR 0x01 # replicate 13 (CHR 0x00) @ [CHR 0x09]), pc_port = 5000\<rparr>]\<rparr>"

lemma is_digit_ascii: "is_digit r c \<Longrightarrow> byte_val c < 128"
  by (auto simp: to_digit_def hex_digit_def Let_def is_ascii_digit_def split: if_splits option.splits)

lemma show_radix_ascii: "2 \<le> r \<Longrightarrow> r \<le> 16 \<Longrightarrow> list_all (\<lambda>c. byte_val c < 128) (show_radix r n)"
  using show_radix_digits [of r n] by (blast intro: list.pred_mono_strong is_digit_ascii)

lemma punctuation_ascii: "byte_val (CHR '':'') < 128" "byte_val (CHR ''.'') < 128" "byte_val (CHR ''f'') < 128"
  by (simp_all add: byte_val_def)

lemma show_groups_ascii: "list_all (\<lambda>c. byte_val c < 128) (show_groups gs)"
  by (induction gs) (auto simp: show_groups_Cons show_radix_ascii punctuation_ascii)

lemma show_ip_utf8: "utf8_valid (show_ip a)"
proof -
  have v4: "list_all (\<lambda>c. byte_val c < 128) (show_ipv4 os)" for os
    using show_radix_ascii [of 10] by (fastforce simp: show_ipv4_def show_nat_def list_all_iff punctuation_ascii)
  show ?thesis
    by (cases a) (auto intro!: utf8_ascii simp: v4 show_groups_ascii punctuation_ascii Let_def case_prod_unfold)
qed

lemma path_offer_json_wf:
  assumes "offer_ok p"
  shows "json_wf (path_offer_json p)"
proof -
  have "json_wf (candidate_json c)" if "c \<in> set (po_candidates p)" for c
  proof -
    have "pc_port c \<le> u64_max" using assms that by (auto simp: offer_ok_def candidate_ok_def list_all_iff u64_max_def)
    moreover have "utf8_valid (kind_text k)" for k by (cases k) (simp_all add: byte_val_def)
    ultimately show ?thesis
      unfolding candidate_json_def jobj_def
      by (intro json_wf_jobj) (simp add: show_ip_utf8 byte_val_def del: show_ip.simps)
  qed
  moreover have "utf8_valid (role_text k)" for k by (cases k) (simp_all add: byte_val_def)
  moreover have "utf8_valid (po_path_session p)"
    using assms by (fastforce simp: offer_ok_def path_session_ok_def list_all_iff is_ascii_hexdigit_def
        is_ascii_digit_def intro!: utf8_ascii)
  ultimately show ?thesis
    unfolding path_offer_json_def jobj_def
    by (intro json_wf_jobj) (simp add: list_all_iff byte_val_def DIRECT_PATH_VERSION_def u64_max_def)
qed

lemma path_offer_json_nests: "json_nests 4 (path_offer_json p)"
proof -
  have "json_nests (Suc 0) (candidate_json c)" for c
    unfolding candidate_json_def jobj_def by (rule json_nests_jobj) simp
  then have "json_nests (Suc (Suc 0)) (JArr (map candidate_json (po_candidates p)))" by (simp add: list_all_iff)
  then have a: "json_nests 3 (JArr (map candidate_json (po_candidates p)))" by (rule json_nests_mono) simp
  show ?thesis
    unfolding path_offer_json_def jobj_def using a by (intro json_nests_message) (simp del: json_nests.simps(1))
qed

lemma sample_offer_ok: "offer_ok sample_offer"
proof -
  let ?v6 = "CHR '' '' # CHR 0x01 # replicate 13 (CHR 0x00) @ [CHR 0x09]"
  have "validate_candidate_address (V4 [CHR 0xC0, CHR 0x00, CHR 0x02, CHR 0x07]) = Inr ()" by code_simp
  moreover have "\<not> is_loopback (V6 ?v6)" "\<not> is_unspecified (V6 ?v6)" "\<not> is_multicast (V6 ?v6)"
    "\<not> v6_is_ipv4_mapped ?v6" "\<not> v6_is_ipv4 ?v6"
    by code_simp+
  moreover have "segment0 ?v6 = 8193" by (simp add: segment0_def be_val_def byte_val_def)
  ultimately have "list_all candidate_ok (po_candidates sample_offer)"
    by (simp add: sample_offer_def candidate_ok_def validate_candidate_address_def)
  moreover have "distinct (po_candidates sample_offer)" by code_simp
  moreover have "path_session_ok (po_path_session sample_offer)" by code_simp
  ultimately show ?thesis by (simp add: offer_ok_def MAX_CANDIDATES_def) (simp add: sample_offer_def)
qed

end
