(* ===== verification/Direct_Hub_Props.thy ===== *)
theory Direct_Hub_Props
  imports Direct_Hub Direct_Path_Codec_Props
begin

text \<open>
  Properties of the direct-path hub: at most one live punch worker per connection in every
  interleaving, the request ids minted by the relay name their connection, and the offer the Host
  answers with is accepted by the Controller's strict decoder.
\<close>

section \<open>The invariant\<close>

lemma raise_active_flag:
  "raise_active (hm_get (dh_connections h) c) fs = (case live_flag h c of None \<Rightarrow> fs | Some i \<Rightarrow> fs[i := True])"
  by (auto simp: raise_active_def live_flag_def split: option.splits)

text \<open>Replacing the entry of one connection: the flag of its old path is raised, the new path, if
  any, has a fresh flag.\<close>

lemma hub_inv_replace:
  assumes "hub_inv h" and "hm_wf (dh_connections h')"
    and "live_flag h' = (live_flag h)(c := new)"
    and "dh_flags h' = raise_active (hm_get (dh_connections h) c) (dh_flags h) @ fresh"
    and "new = None \<and> fresh = [] \<or> new = Some (length (dh_flags h)) \<and> fresh = [False]"
  shows "hub_inv h'"
proof -
  let ?f = "raise_active (hm_get (dh_connections h) c) (dh_flags h)"
  have inv: "\<And>c i. live_flag h c = Some i \<Longrightarrow> i < length (dh_flags h)"
    "\<And>i. i < length (dh_flags h) \<Longrightarrow> \<not> dh_flags h ! i \<longleftrightarrow> (\<exists>c. live_flag h c = Some i)"
    "\<And>c c' i. live_flag h c = Some i \<Longrightarrow> live_flag h c' = Some i \<Longrightarrow> c = c'"
    using assms(1) by (simp_all add: hub_inv_def)
  have len: "length ?f = length (dh_flags h)" by (simp add: raise_active_flag split: option.splits)
  have f: "\<not> ?f ! i \<longleftrightarrow> (\<exists>c'. c' \<noteq> c \<and> live_flag h c' = Some i)" if "i < length (dh_flags h)" for i
  proof (cases "live_flag h c = Some i")
    case True
    then have "?f ! i" using that by (simp add: raise_active_flag)
    then show ?thesis using inv(3) [OF True] by blast
  next
    case False
    then have "?f ! i = dh_flags h ! i" by (auto simp: raise_active_flag split: option.splits)
    then show ?thesis using inv(2) [OF that] False by metis
  qed
  have "\<not> dh_flags h' ! i \<longleftrightarrow> (\<exists>c'. live_flag h' c' = Some i)" if i: "i < length (dh_flags h')" for i
  proof (cases "i < length (dh_flags h)")
    case True
    then show ?thesis using f [OF True] assms(5) by (auto simp: assms(3,4) nth_append len)
  next
    case False
    then have "i = length (dh_flags h)" "new = Some i" "fresh = [False]" using i assms(4,5) len by auto
    then show ?thesis by (auto simp: assms(3,4) nth_append len)
  qed
  moreover have "i < length (dh_flags h')" if "live_flag h' c' = Some i" for c' i
    using that inv(1) [of c' i] assms(5) by (auto simp: assms(3,4) len split: if_splits)
  moreover have "c1 = c2" if "live_flag h' c1 = Some i" "live_flag h' c2 = Some i" for c1 c2 i
    using that inv(1) [of c1 i] inv(1) [of c2 i] inv(3) [of c1 i c2] assms(5) by (auto simp: assms(3) split: if_splits)
  ultimately show ?thesis using assms(2) by (auto simp: hub_inv_def)
qed

lemma hub_inv_reachable: "hub_reachable h \<Longrightarrow> hub_inv h"
proof (induction rule: hub_reachable.induct)
  case (start h)
  then show ?case by (simp add: hub_inv_def live_flag_def)
next
  case (step_register h c m)
  then have "hm_wf (dh_connections (register c m h))" by (simp add: register_def hub_inv_def hm_wf_put)
  then show ?case
    by (rule hub_inv_replace [OF step_register.IH, of _ c None "[]"]) (auto simp: register_def live_flag_def)
next
  case (step_remove h c)
  then have wf: "hm_wf (dh_connections h)" by (simp add: hub_inv_def)
  then have "hm_wf (dh_connections (remove c h))" by (simp add: remove_def hm.invar_remove)
  then show ?case
    by (rule hub_inv_replace [OF step_remove.IH, of _ c None "[]"])
       (auto simp: remove_def live_flag_def hm.lookup_remove [OF wf])
next
  case (step_install h to_string from_slice c offer sb key cs)
  show ?case
  proof (cases "hm_get (dh_connections h) c")
    case None
    then show ?thesis using step_install.IH by (simp add: negotiate_install_def)
  next
    case (Some e)
    let ?h = "fst (snd (negotiate_install to_string from_slice c offer sb key cs h))"
    have "hm_wf (dh_connections ?h)"
      using step_install.IH by (simp add: negotiate_install_def Some Let_def hub_inv_def hm_wf_put)
    then show ?thesis
      by (rule hub_inv_replace [OF step_install.IH, of _ c "Some (length (dh_flags h))" "[False]"])
         (auto simp: negotiate_install_def Some Let_def live_flag_def)
  qed
qed

text \<open>C32. One live direct path per connection: in every interleaving of handshakes, closings and
  negotiations, a punch worker whose flag is not raised serves the current path of a connection, and
  no two connections share it. So replacing or closing a connection stops the worker it had.\<close>

theorem one_live_path_per_connection:
  assumes "hub_reachable h" and "i < length (dh_flags h)" and "\<not> dh_flags h ! i"
  shows "\<exists>!c. \<exists>e a. hm_get (dh_connections h) c = Some e \<and> cn_active e = Some a \<and> ap_cancel a = i"
proof -
  have "\<exists>!c. live_flag h c = Some i"
    using hub_inv_reachable [OF assms(1)] assms(2,3) unfolding hub_inv_def by (metis (no_types, lifting))
  moreover have "live_flag h c = Some i \<longleftrightarrow>
      (\<exists>e a. hm_get (dh_connections h) c = Some e \<and> cn_active e = Some a \<and> ap_cancel a = i)" for c
    by (auto simp: live_flag_def bind_eq_Some_conv)
  ultimately show ?thesis by simp
qed

section \<open>Request ids\<close>

text \<open>The request id the relay mints for a tunnelled request names its connection, whatever the
  namespace is.\<close>

lemma relay_conn_id_minted:
  assumes "conn_id < 2 ^ 32"
  shows "relay_conn_id (Some (''relay:'' @ namespace @ '':'' @ show_nat conn_id @ '':'' @ show_nat i)) = Some conn_id"
proof -
  have s: "starts_with ''relay:'' (''relay:'' @ r)" for r by (auto simp: starts_with_iff)
  have c: "CHR '':'' \<notin> set (show_nat n)" for n using show_nat_no_colon by blast
  have "rsplit_once (CHR '':'') (namespace @ '':'' @ show_nat conn_id @ '':'' @ show_nat i)
      = Some (namespace @ '':'' @ show_nat conn_id, show_nat i)"
    using rsplit_once_append [of "CHR '':''" "show_nat i" "namespace @ '':'' @ show_nat conn_id"] c by simp
  moreover have "rsplit_first (CHR '':'') (namespace @ '':'' @ show_nat conn_id) = show_nat conn_id"
    using rsplit_once_append [OF c, of namespace conn_id] by (simp add: rsplit_first_def)
  ultimately show ?thesis using s parse_show_nat [of conn_id "2 ^ 32 - 1"] assms by (simp add: relay_conn_id_def)
qed

section \<open>The answer to an offer\<close>

lemma local_addresses_ok:
  assumes "list_all (\<lambda>e. case e of None \<Rightarrow> True | Some a \<Rightarrow> ip_wf a) entries"
  shows "list_all (\<lambda>a. ip_wf a \<and> validate_candidate_address a = Inr ()) (local_candidate_addresses (Some entries))
    \<and> distinct (local_candidate_addresses (Some entries))"
proof -
  let ?f = "\<lambda>entry addresses. case entry of None \<Rightarrow> addresses
     | Some address \<Rightarrow> if validate_candidate_address address = Inr () \<and> address \<notin> set addresses
         then addresses @ [address] else addresses"
  let ?ok = "\<lambda>as. list_all (\<lambda>a. ip_wf a \<and> validate_candidate_address a = Inr ()) as \<and> distinct as"
  have "?ok (fold ?f es acc)"
    if "list_all (\<lambda>e. case e of None \<Rightarrow> True | Some a \<Rightarrow> ip_wf a) es" and "?ok acc" for es acc
    using that
  proof (induction es arbitrary: acc)
    case (Cons e es)
    then show ?case by (auto split: option.splits)
  qed simp
  from this [OF assms, of "[]"] show ?thesis by (simp add: local_candidate_addresses_def)
qed

lemma gather_candidates_ok:
  assumes "interfaces = None \<or> (\<exists>entries. interfaces = Some entries
      \<and> list_all (\<lambda>e. case e of None \<Rightarrow> True | Some a \<Rightarrow> ip_wf a) entries)"
    and "0 < port" and "port \<le> 65535"
    and "\<forall>a p. stun = Some (Inr (a, p)) \<longrightarrow> candidate_ok \<lparr>pc_kind = Reflexive, pc_address = a, pc_port = p\<rparr>"
  shows "list_all candidate_ok (gather_candidates interfaces stun port)
    \<and> distinct (gather_candidates interfaces stun port) \<and> length (gather_candidates interfaces stun port) \<le> MAX_CANDIDATES"
proof -
  let ?as = "local_candidate_addresses interfaces"
  let ?ls = "map (\<lambda>a. \<lparr>pc_kind = Local, pc_address = a, pc_port = port\<rparr>) ?as"
  have as: "list_all (\<lambda>a. ip_wf a \<and> validate_candidate_address a = Inr ()) ?as" "distinct ?as"
    using assms(1) local_addresses_ok by (auto simp: local_candidate_addresses_def [of None])
  then have ls: "list_all candidate_ok ?ls" "distinct ?ls"
    using assms(2,3) by (auto simp: list_all_iff candidate_ok_def distinct_map inj_on_def)
  define cs where "cs = (case stun of
      Some (Inr (a, p)) \<Rightarrow> let c = \<lparr>pc_kind = Reflexive, pc_address = a, pc_port = p\<rparr>
        in if c \<in> set ?ls then ?ls else ?ls @ [c]
    | _ \<Rightarrow> ?ls)"
  have "list_all candidate_ok cs \<and> distinct cs"
    using ls assms(4) by (auto simp: cs_def Let_def split: option.splits sum.splits)
  moreover have "gather_candidates interfaces stun port = take MAX_CANDIDATES cs"
    by (simp add: gather_candidates_def cs_def Let_def)
  ultimately show ?thesis by (auto simp: list_all_iff dest: in_set_takeD)
qed

text \<open>An accepted negotiation is answered with an offer the Controller accepts: when the hub
  starts a punch worker, the body it answers decodes strictly as a Host offer for the same path session
  with the gathered candidates, and the worker probes exactly the Controller's candidates.\<close>

lemma negotiated_offer_accepted:
  assumes "negotiate hkdf to_string from_slice (Inr port) interfaces stun conn_id body h = (Some (200, v), h', Some job)"
    and "json_faithful to_string from_slice" and "\<forall>b v. from_slice b = Some v \<longrightarrow> json_sorted v"
    and "case interfaces of None \<Rightarrow> True
      | Some entries \<Rightarrow> list_all (\<lambda>e. case e of None \<Rightarrow> True | Some a \<Rightarrow> ip_wf a) entries"
    and "0 < port" and "port \<le> 65535"
    and "case stun of Inl _ \<Rightarrow> True
      | Inr (a, p) \<Rightarrow> candidate_ok \<lparr>pc_kind = Reflexive, pc_address = a, pc_port = p\<rparr>"
  shows "\<exists>offer. parse_path_offer_strict from_slice body = Inr offer
    \<and> parse_path_offer_strict from_slice (to_string v)
        = Inr \<lparr>po_path_session = po_path_session offer, po_role = RoleHost,
               po_candidates = gather_candidates interfaces (if dh_skip_stun h then None else Some stun) port\<rparr>
    \<and> pj_peers job = po_candidates offer
    \<and> path_session_bytes (po_path_session offer) = Some (pj_session job)
    \<and> dh_flags h' ! pj_cancel job = False"
proof -
  define cs where "cs = gather_candidates interfaces (if dh_skip_stun h then None else Some stun) port"
  obtain offer sb where po: "parse_controller_offer from_slice body = Inr (offer, sb)"
    using assms(1) by (auto simp: negotiate_def split: sum.splits)
  obtain key where key: "negotiate_key hkdf conn_id offer h = Inr key"
    using assms(1) po by (auto simp: negotiate_def split: sum.splits)
  have cs: "cs \<noteq> []" and ni: "negotiate_install to_string from_slice conn_id offer sb key cs h = (Some (200, v), h', Some job)"
    using assms(1) po key by (auto simp: negotiate_def cs_def Let_def split: if_splits)
  from po have offer: "parse_path_offer_strict from_slice body = Inr offer"
    and sb: "path_session_bytes (po_path_session offer) = Some sb"
    by (auto simp: parse_controller_offer_def split: sum.splits if_splits option.splits)
  have ok: "offer_ok offer" using offer_decodes_exactly [OF assms(3)] offer by blast
  let ?ho = "\<lparr>po_path_session = po_path_session offer, po_role = RoleHost, po_candidates = cs\<rparr>"
  have "list_all candidate_ok cs \<and> distinct cs \<and> length cs \<le> MAX_CANDIDATES"
    unfolding cs_def using assms(4-7)
    by (intro gather_candidates_ok) (auto split: option.splits sum.splits)
  then have ho: "offer_ok ?ho" using ok cs by (simp add: offer_ok_def)
  have wf: "json_wf (path_offer_json ?ho)" by (rule path_offer_json_wf [OF ho])
  have fs: "from_slice (encode_path_offer to_string ?ho) = Some (path_offer_json ?ho)"
    unfolding encode_path_offer_def by (rule json_read_back [OF assms(2) wf path_offer_json_nests])
  obtain e where e: "hm_get (dh_connections h) conn_id = Some e"
    using ni by (auto simp: negotiate_install_def split: option.splits)
  have v: "v = path_offer_json ?ho" and job: "pj_peers job = po_candidates offer" "pj_session job = sb"
    "pj_cancel job = length (dh_flags h)" and h': "dh_flags h' = raise_active (Some e) (dh_flags h) @ [False]"
    using ni fs e by (auto simp: negotiate_install_def Let_def)
  have len: "length (raise_active x fl) = length fl" for x fl by (simp add: raise_active_def split: option.splits)
  have "parse_path_offer_strict from_slice (to_string v) = Inr ?ho"
    using offer_decodes_exactly [OF assms(3), of "to_string v" ?ho] ho fs by (simp add: v encode_path_offer_def)
  then show ?thesis using offer sb job h' by (auto simp: cs_def nth_append len)
qed

section \<open>A negotiation that straddles a new handshake\<close>

text \<open>The two critical sections of a negotiation are not atomic: when the connection is
  registered anew in between (its peer made a second handshake), the hub installs a live path under
  the new connection whose probe key comes from the material of the old one, and does not cancel it.\<close>

lemma straddling_negotiation_keeps_old_key:
  "let old = \<lparr>cm_shared_secret = ''s1'', cm_client_salt = ''c1'', cm_host_salt = ''h1''\<rparr>;
       new = \<lparr>cm_shared_secret = ''s2'', cm_client_salt = ''c2'', cm_host_salt = ''h2''\<rparr>;
       hkdf = (\<lambda>ikm salt info. ikm);
       h0 = register 7 old direct_hub_default;
       key = (case negotiate_key hkdf 7 sample_offer h0 of Inr k \<Rightarrow> k | Inl _ \<Rightarrow> []);
       (_, h2, job) = negotiate_install (\<lambda>v. []) (\<lambda>s. Some JNull) 7 sample_offer [] key
          (po_candidates sample_offer) (register 7 new h0)
   in map_option pj_key job = Some ''s1'' \<and> map_option pj_cancel job = Some 0 \<and> dh_flags h2 = [False]
     \<and> map_option (cm_shared_secret \<circ> cn_material) (hm_get (dh_connections h2) 7) = Some ''s2''"
  by (simp add: register_def direct_hub_default_def negotiate_key_def negotiate_install_def probe_key_def
      raise_active_def Let_def)

section \<open>Instances\<close>

definition sample_material :: conn_material where
  "sample_material = \<lparr>cm_shared_secret = ''s'', cm_client_salt = ''c'', cm_host_salt = ''h''\<rparr>"

definition paired_hub :: direct_hub where
  "paired_hub = fst (snd (negotiate_install (\<lambda>v. []) (\<lambda>s. Some JNull) 7 sample_offer [] ''k''
     (po_candidates sample_offer) (register 7 sample_material direct_hub_default)))"

lemma paired_hub_reachable: "hub_reachable paired_hub"
  unfolding paired_hub_def
  by (intro hub_reachable.intros(2-4) hub_reachable.start) (simp_all add: direct_hub_default_def)

theorem one_live_path_per_connection_witness:
  "\<exists>!c. \<exists>e a. hm_get (dh_connections paired_hub) c = Some e \<and> cn_active e = Some a \<and> ap_cancel a = 0"
  by (rule one_live_path_per_connection [OF paired_hub_reachable])
     (simp_all add: paired_hub_def negotiate_install_def register_def direct_hub_default_def raise_active_def Let_def)

end
