(* ===== verification/Query_Scanner.thy ===== *)
theory Query_Scanner
  imports Ip_Text
begin

text \<open>
  Model of \<open>OutputQueryScanner\<close> of \<open>crates/unpeel-core/src/session_host.rs\<close>: the Host answers terminal
  queries of the hosted program itself and takes them out of the recorded stream, everything else
  passes through. The scanner works byte by byte; a step returns the new scanner, the bytes passed
  on and the queries to answer. \<open>str::parse::<u16>\<close> accepts an optional plus sign.
\<close>

section \<open>Answers\<close>

datatype host_answered_query = Da1 | CursorPosition | KittyFlags | OscColor nat | OscPalette nat
  | ProgramStatus

definition BASE16 :: "(nat \<times> nat \<times> nat) list" where
  "BASE16 = [(0x00, 0x00, 0x00), (0xCD, 0x00, 0x00), (0x00, 0xCD, 0x00), (0xCD, 0xCD, 0x00),
     (0x00, 0x00, 0xEE), (0xCD, 0x00, 0xCD), (0x00, 0xCD, 0xCD), (0xE5, 0xE5, 0xE5),
     (0x7F, 0x7F, 0x7F), (0xFF, 0x00, 0x00), (0x00, 0xFF, 0x00), (0xFF, 0xFF, 0x00),
     (0x5C, 0x5C, 0xFF), (0xFF, 0x00, 0xFF), (0x00, 0xFF, 0xFF), (0xFF, 0xFF, 0xFF)]"

text \<open>\<open>as u8\<close> truncates.\<close>

definition palette_component :: "nat \<Rightarrow> nat" where
  "palette_component v = (if v = 0 then 0 else (v * 40 + 55) mod 256)"

definition xterm_palette_rgb :: "u16 \<Rightarrow> nat \<times> nat \<times> nat" where
  "xterm_palette_rgb index =
     (if index \<le> 15 then BASE16 ! index
      else if index \<le> 231 then
        let value = index - 16
        in (palette_component (value div 36), palette_component (value div 6 mod 6), palette_component (value mod 6))
      else let gray = min (8 + (index - 232) * 10) 238 mod 256 in (gray, gray, gray))"

text \<open>What the Host writes back; \<open>cursor\<close> is the row and column of its own terminal, counted from 0.\<close>

definition hex2 :: "nat \<Rightarrow> string" where
  "hex2 n = [hex_char (n div 16), hex_char (n mod 16)]"

definition query_answer :: "string \<Rightarrow> bool \<Rightarrow> nat \<times> nat \<Rightarrow> host_answered_query \<Rightarrow> string" where
  "query_answer feature_reply dark_mode cursor q =
     (case q of
        Da1 \<Rightarrow> CHR 0x1B # ''[?62;22;52c''
      | CursorPosition \<Rightarrow>
          CHR 0x1B # ''['' @ show_nat (fst cursor + 1) @ '';'' @ show_nat (snd cursor + 1) @ ''R''
      | KittyFlags \<Rightarrow> CHR 0x1B # ''[?0u''
      | ProgramStatus \<Rightarrow> feature_reply
      | OscColor code \<Rightarrow>
          CHR 0x1B # '']'' @ show_nat code @ '';rgb:'' @
            (if code = 10 then if dark_mode then ''f3f3/f5f5/fbfb'' else ''1111/1212/1717''
             else if dark_mode then ''1a1a/1a1a/1f1f'' else ''ffff/ffff/ffff'') @ [CHR 0x07]
      | OscPalette index \<Rightarrow>
          (case xterm_palette_rgb index of (r, g, b) \<Rightarrow>
             CHR 0x1B # '']4;'' @ show_nat index @ '';rgb:'' @ hex2 r @ hex2 r @ ''/'' @ hex2 g @ hex2 g
               @ ''/'' @ hex2 b @ hex2 b @ [CHR 0x07]))"

section \<open>Recognising a query\<close>

definition QUERY_SCAN_MAX_SEQUENCE_BYTES :: nat where "QUERY_SCAN_MAX_SEQUENCE_BYTES = 32"

abbreviation ESC :: byte where "ESC \<equiv> CHR 0x1B"
abbreviation BEL :: byte where "BEL \<equiv> CHR 0x07"
abbreviation BACKSLASH :: byte where "BACKSLASH \<equiv> CHR 0x5C"

text \<open>\<open>seq[2..]\<close>; the scanner calls these with a sequence that starts with two bytes.\<close>

definition is_da1_query :: "string \<Rightarrow> bool" where
  "is_da1_query seq \<longleftrightarrow>
     (let body = drop 2 seq in
      body \<noteq> [] \<and> last body = CHR ''c'' \<and> list_all (\<lambda>b. is_ascii_digit b \<or> b = CHR '';'') (butlast body))"

definition probe_query :: "string \<Rightarrow> host_answered_query option" where
  "probe_query seq =
     (if drop 2 seq = ''6n'' then Some CursorPosition
      else if drop 2 seq = ''?u'' then Some KittyFlags else None)"

definition strip_suffix :: "string \<Rightarrow> string \<Rightarrow> string option" where
  "strip_suffix suffix s = (if ends_with suffix s then Some (take (length s - length suffix) s) else None)"

definition strip_prefix :: "string \<Rightarrow> string \<Rightarrow> string option" where
  "strip_prefix p s = (if starts_with p s then Some (drop (length p) s) else None)"

definition osc_body :: "string \<Rightarrow> string option" where
  "osc_body seq =
     (case strip_suffix [BEL] (drop 2 seq) of
        Some body \<Rightarrow> Some body
      | None \<Rightarrow> strip_suffix [ESC, BACKSLASH] (drop 2 seq))"

definition osc_color_query :: "string \<Rightarrow> host_answered_query option" where
  "osc_color_query seq =
     Option.bind (osc_body seq) (\<lambda>body.
       if body = ''10;?'' then Some (OscColor 10)
       else if body = ''11;?'' then Some (OscColor 11)
       else
         Option.bind (strip_prefix ''4;'' body) (\<lambda>rest.
         Option.bind (strip_suffix '';?'' rest) (\<lambda>index_bytes.
           if index_bytes = [] \<or> length index_bytes > 3 then None
           else if \<not> utf8_valid index_bytes then None
           else Option.bind (parse_uint 65535 index_bytes) (\<lambda>index.
             if index < 256 then Some (OscPalette index) else None))))"

definition osc_query :: "string \<Rightarrow> bool \<Rightarrow> host_answered_query option" where
  "osc_query seq intercept_probes =
     Option.bind (osc_body seq) (\<lambda>body.
       if body = ''7501;?'' then Some ProgramStatus
       else if intercept_probes then osc_color_query seq else None)"

section \<open>The scanner\<close>

datatype query_scan_state = QGround | QEscape | QCsi | QOsc | QOscEscape

record query_scanner =
  qs_state :: query_scan_state
  qs_seq :: string

type_synonym scan_out = "query_scanner \<times> string \<times> host_answered_query list"

definition query_scanner_new :: query_scanner where
  "query_scanner_new = \<lparr>qs_state = QGround, qs_seq = []\<rparr>"

definition hold :: "query_scan_state \<Rightarrow> string \<Rightarrow> scan_out" where
  "hold st seq = (\<lparr>qs_state = st, qs_seq = seq\<rparr>, [], [])"

definition flush_into :: "string \<Rightarrow> scan_out" where
  "flush_into seq = (\<lparr>qs_state = QGround, qs_seq = []\<rparr>, seq, [])"

definition answer_query :: "host_answered_query \<Rightarrow> scan_out" where
  "answer_query q = (\<lparr>qs_state = QGround, qs_seq = []\<rparr>, [], [q])"

text \<open>The arm of the \<open>Escape\<close> state; the sequence is the single ESC.\<close>

definition scan_escape :: "byte \<Rightarrow> scan_out" where
  "scan_escape b =
     (if b = CHR ''Z'' then answer_query Da1
      else if b = CHR ''['' then hold QCsi [ESC, b]
      else if b = CHR '']'' then hold QOsc [ESC, b]
      else if b = ESC then (\<lparr>qs_state = QEscape, qs_seq = [ESC]\<rparr>, [ESC], [])
      else flush_into [ESC, b])"

definition bounded_hold :: "query_scan_state \<Rightarrow> string \<Rightarrow> scan_out" where
  "bounded_hold st seq = (if length seq > QUERY_SCAN_MAX_SEQUENCE_BYTES then flush_into seq else hold st seq)"

definition finish_query :: "host_answered_query option \<Rightarrow> string \<Rightarrow> scan_out" where
  "finish_query query seq = (case query of Some q \<Rightarrow> answer_query q | None \<Rightarrow> flush_into seq)"

definition query_step :: "bool \<Rightarrow> query_scanner \<Rightarrow> byte \<Rightarrow> scan_out" where
  "query_step intercept_probes s b =
     (let seq = qs_seq s @ [b]; n = byte_val b in
      case qs_state s of
        QGround \<Rightarrow> if b = ESC then hold QEscape seq else (s, [b], [])
      | QEscape \<Rightarrow> scan_escape b
      | QCsi \<Rightarrow>
          if 0x20 \<le> n \<and> n \<le> 0x3f then bounded_hold QCsi seq
          else if 0x40 \<le> n \<and> n \<le> 0x7e then
            finish_query (if is_da1_query seq then Some Da1
                          else if intercept_probes then probe_query seq else None) seq
          else if b = ESC then (\<lparr>qs_state = QEscape, qs_seq = [ESC]\<rparr>, qs_seq s, [])
          else flush_into seq
      | QOsc \<Rightarrow>
          if b = BEL then finish_query (osc_query seq intercept_probes) seq
          else if b = ESC then hold QOscEscape seq
          else bounded_hold QOsc seq
      | QOscEscape \<Rightarrow>
          if b = BACKSLASH then finish_query (osc_query seq intercept_probes) seq
          else case scan_escape b of (s', out, queries) \<Rightarrow> (s', butlast (qs_seq s) @ out, queries))"

fun query_scan :: "bool \<Rightarrow> query_scanner \<Rightarrow> string \<Rightarrow> scan_out" where
  "query_scan intercept_probes s [] = (s, [], [])"
| "query_scan intercept_probes s (b # input) =
     (case query_step intercept_probes s b of (s1, out1, q1) \<Rightarrow>
        case query_scan intercept_probes s1 input of (s2, out2, q2) \<Rightarrow> (s2, out1 @ out2, q1 @ q2))"

definition scanner_take_pending :: "query_scanner \<Rightarrow> query_scanner \<times> string" where
  "scanner_take_pending s = (\<lparr>qs_state = QGround, qs_seq = []\<rparr>, qs_seq s)"

text \<open>The calls of \<open>process_pty_bytes\<close>, one per read; probes are intercepted as long as no surface
  answers.\<close>

fun query_scan_chunks :: "query_scanner \<Rightarrow> (bool \<times> string) list \<Rightarrow> scan_out" where
  "query_scan_chunks s [] = (s, [], [])"
| "query_scan_chunks s ((intercept_probes, chunk) # chunks) =
     (case query_scan intercept_probes s chunk of (s1, out1, q1) \<Rightarrow>
        case query_scan_chunks s1 chunks of (s2, out2, q2) \<Rightarrow> (s2, out1 @ out2, q1 @ q2))"

section \<open>Invariant\<close>

text \<open>What is held belongs to the state, and stays short.\<close>

definition scanner_ok :: "query_scanner \<Rightarrow> bool" where
  "scanner_ok s \<longleftrightarrow> length (qs_seq s) \<le> QUERY_SCAN_MAX_SEQUENCE_BYTES + 1 \<and>
     (case qs_state s of
        QGround \<Rightarrow> qs_seq s = []
      | QEscape \<Rightarrow> qs_seq s = [ESC]
      | QCsi \<Rightarrow> (\<exists>r. qs_seq s = ESC # CHR ''['' # r)
      | QOsc \<Rightarrow> (\<exists>r. qs_seq s = ESC # CHR '']'' # r) \<and> length (qs_seq s) \<le> QUERY_SCAN_MAX_SEQUENCE_BYTES
      | QOscEscape \<Rightarrow> (\<exists>r. qs_seq s = ESC # CHR '']'' # r @ [ESC]))"

text \<open>The spellings of the queries the Host answers.\<close>

definition asks :: "bool \<Rightarrow> host_answered_query \<Rightarrow> string \<Rightarrow> bool" where
  "asks probes q seq \<longleftrightarrow>
     (case q of
        Da1 \<Rightarrow> seq = [ESC, CHR ''Z''] \<or>
          (\<exists>ps. seq = [ESC, CHR ''[''] @ ps @ ''c'' \<and> list_all (\<lambda>b. is_ascii_digit b \<or> b = CHR '';'') ps)
      | CursorPosition \<Rightarrow> probes \<and> seq = ESC # ''[6n''
      | KittyFlags \<Rightarrow> probes \<and> seq = ESC # ''[?u''
      | ProgramStatus \<Rightarrow> (\<exists>t \<in> {[BEL], [ESC, BACKSLASH]}. seq = ESC # '']7501;?'' @ t)
      | OscColor n \<Rightarrow> probes \<and> (\<exists>t \<in> {[BEL], [ESC, BACKSLASH]}.
          (n = 10 \<and> seq = ESC # '']10;?'' @ t) \<or> (n = 11 \<and> seq = ESC # '']11;?'' @ t))
      | OscPalette n \<Rightarrow> probes \<and> n < 256 \<and> (\<exists>t \<in> {[BEL], [ESC, BACKSLASH]}. \<exists>i.
          parse_uint 65535 i = Some n \<and> length i \<le> 3 \<and> seq = ESC # '']4;'' @ i @ '';?'' @ t))"

text \<open>The stream as pieces: passed on, or a query that was taken out.\<close>

datatype piece = Passed string | Taken host_answered_query string

fun piece_text :: "piece \<Rightarrow> string" where
  "piece_text (Passed t) = t"
| "piece_text (Taken q t) = t"

fun piece_out :: "piece \<Rightarrow> string" where
  "piece_out (Passed t) = t"
| "piece_out (Taken q t) = []"

fun piece_queries :: "piece \<Rightarrow> host_answered_query list" where
  "piece_queries (Passed t) = []"
| "piece_queries (Taken q t) = [q]"

fun piece_ok :: "bool \<Rightarrow> piece \<Rightarrow> bool" where
  "piece_ok probes (Passed t) = True"
| "piece_ok probes (Taken q t) = asks probes q t"

end
