(* ===== verification/Query_Scanner_Props.thy ===== *)
theory Query_Scanner_Props
  imports Query_Scanner
begin

text \<open>
  The query scanner conserves the stream: what it passes on, the queries it takes out and what it still
  holds are together exactly the bytes it was given, in order, however they were chunked.
\<close>

section \<open>One byte\<close>

definition explains :: "bool \<Rightarrow> string \<Rightarrow> scan_out \<Rightarrow> bool" where
  "explains probes given r \<longleftrightarrow>
     (case r of (s', out, qs) \<Rightarrow> scanner_ok s' \<and>
        (\<exists>ps. given = concat (map piece_text ps) @ qs_seq s' \<and> out = concat (map piece_out ps)
          \<and> qs = concat (map piece_queries ps) \<and> list_all (piece_ok probes) ps))"

lemma explains_hold: "scanner_ok \<lparr>qs_state = st, qs_seq = seq\<rparr> \<Longrightarrow> explains p seq (hold st seq)"
  by (auto simp: explains_def hold_def intro!: exI [of _ "[]"])

lemma explains_flush: "explains p seq (flush_into seq)"
  by (auto simp: explains_def flush_into_def scanner_ok_def intro!: exI [of _ "[Passed seq]"])

lemma explains_answer: "asks p q seq \<Longrightarrow> explains p seq (answer_query q)"
  by (auto simp: explains_def answer_query_def scanner_ok_def intro!: exI [of _ "[Taken q seq]"])

lemma explains_pass: "scanner_ok s' \<Longrightarrow> explains p (out @ qs_seq s') (s', out, [])"
  by (auto simp: explains_def intro!: exI [of _ "[Passed out]"])

lemma explains_finish:
  "(\<And>q. query = Some q \<Longrightarrow> asks p q seq) \<Longrightarrow> explains p seq (finish_query query seq)"
  by (simp add: finish_query_def explains_flush explains_answer split: option.splits)

lemma explains_bounded:
  "(length seq \<le> QUERY_SCAN_MAX_SEQUENCE_BYTES \<Longrightarrow> scanner_ok \<lparr>qs_state = st, qs_seq = seq\<rparr>)
     \<Longrightarrow> explains p seq (bounded_hold st seq)"
  by (simp add: bounded_hold_def explains_flush explains_hold)

lemma explains_escape: "explains p [ESC, b] (scan_escape b)"
proof -
  have "asks p Da1 [ESC, CHR ''Z'']" by (simp add: asks_def)
  then show ?thesis
    using explains_pass [of "\<lparr>qs_state = QEscape, qs_seq = [ESC]\<rparr>" p "[ESC]"]
    by (auto simp: scan_escape_def explains_answer explains_flush scanner_ok_def
        QUERY_SCAN_MAX_SEQUENCE_BYTES_def intro!: explains_hold)
qed

lemma explains_prefix:
  assumes "explains p given (s', out, qs)"
  shows "explains p (held @ given) (s', held @ out, qs)"
proof -
  obtain ps where "scanner_ok s'" "given = concat (map piece_text ps) @ qs_seq s'"
    "out = concat (map piece_out ps)" "qs = concat (map piece_queries ps)" "list_all (piece_ok p) ps"
    using assms by (auto simp: explains_def)
  then show ?thesis by (auto simp: explains_def intro!: exI [of _ "Passed held # ps"])
qed

section \<open>Recognised queries are queries\<close>

lemma csi_asks:
  assumes "seq = ESC # CHR ''['' # r" and "is_da1_query seq"
  shows "asks p Da1 seq"
proof -
  have r: "r \<noteq> []" "last r = CHR ''c''" "list_all (\<lambda>b. is_ascii_digit b \<or> b = CHR '';'') (butlast r)"
    using assms by (auto simp: is_da1_query_def Let_def)
  then have "r = butlast r @ ''c''" by (metis append_butlast_last_id)
  then show ?thesis using r(3) assms(1) by (auto simp: asks_def)
qed

lemma probe_asks:
  assumes "seq = ESC # CHR ''['' # r" and "probe_query seq = Some q" and p
  shows "asks p q seq"
  using assms by (auto simp: probe_query_def asks_def split: if_splits)

lemma strip_suffix_Some: "strip_suffix t s = Some b \<Longrightarrow> s = b @ t"
  by (auto simp: strip_suffix_def ends_with_iff split: if_splits)

lemma strip_prefix_Some: "strip_prefix t s = Some b \<Longrightarrow> s = t @ b"
  by (auto simp: strip_prefix_def starts_with_iff split: if_splits)

lemma osc_body_Some:
  assumes "osc_body (a # b # r) = Some body"
  obtains t where "t \<in> {[BEL], [ESC, BACKSLASH]}" and "r = body @ t"
  using assms by (auto simp: osc_body_def split: option.splits dest: strip_suffix_Some)

lemma osc_asks:
  assumes "seq = ESC # CHR '']'' # r" and "osc_query seq p = Some q"
  shows "asks p q seq"
proof -
  obtain body where body: "osc_body seq = Some body" using assms(2) by (auto simp: osc_query_def bind_eq_Some_conv)
  obtain t where t: "t \<in> {[BEL], [ESC, BACKSLASH]}" "r = body @ t"
    using osc_body_Some body assms(1) by metis
  show ?thesis
  proof (cases "body = ''7501;?''")
    case True
    then have "q = ProgramStatus" using assms(2) body by (simp add: osc_query_def)
    then show ?thesis using t assms(1) True by (auto simp: asks_def)
  next
    case False
    then have p: p and q: "osc_color_query seq = Some q"
      using assms(2) body by (auto simp: osc_query_def split: if_splits)
    consider "body = ''10;?''" "q = OscColor 10" | "body = ''11;?''" "q = OscColor 11"
      | rest i n where "strip_prefix ''4;'' body = Some rest" "strip_suffix '';?'' rest = Some i"
          "length i \<le> 3" "parse_uint 65535 i = Some n" "n < 256" "q = OscPalette n"
      using q body unfolding osc_color_query_def
      by (auto simp: bind_eq_Some_conv split: if_splits)
    then show ?thesis
    proof cases
      case 3
      then have "body = ''4;'' @ i @ '';?''" using strip_prefix_Some strip_suffix_Some by blast
      then show ?thesis using 3 t assms(1) p by (auto simp: asks_def)
    qed (use t assms(1) p in \<open>auto simp: asks_def\<close>)
  qed
qed

section \<open>The whole stream\<close>

lemma query_step_explains:
  assumes "scanner_ok s"
  shows "explains p (qs_seq s @ [b]) (query_step p s b)"
proof (cases "qs_state s")
  case QGround
  then have "qs_seq s = []" using assms by (simp add: scanner_ok_def)
  then show ?thesis
    using QGround explains_pass [OF assms, of p "[b]"]
    by (auto simp: query_step_def scanner_ok_def QUERY_SCAN_MAX_SEQUENCE_BYTES_def intro!: explains_hold)
next
  case QEscape
  then have "qs_seq s = [ESC]" using assms by (simp add: scanner_ok_def)
  then show ?thesis using QEscape explains_escape by (simp add: query_step_def)
next
  case QCsi
  then obtain r where r: "qs_seq s = ESC # CHR ''['' # r" using assms by (auto simp: scanner_ok_def)
  then show ?thesis
    using QCsi csi_asks [of "qs_seq s @ [b]" "r @ [b]"] probe_asks [of "qs_seq s @ [b]" "r @ [b]"]
      explains_pass [of "\<lparr>qs_state = QEscape, qs_seq = [ESC]\<rparr>" p "ESC # CHR ''['' # r"]
    by (auto simp: query_step_def Let_def explains_flush scanner_ok_def QUERY_SCAN_MAX_SEQUENCE_BYTES_def
        intro!: explains_bounded explains_finish split: if_splits)
next
  case QOsc
  then obtain r where r: "qs_seq s = ESC # CHR '']'' # r"
    and l: "length (qs_seq s) \<le> QUERY_SCAN_MAX_SEQUENCE_BYTES" using assms by (auto simp: scanner_ok_def)
  then show ?thesis
    using QOsc osc_asks [of "qs_seq s @ [b]" "r @ [b]"]
    by (auto simp: query_step_def Let_def scanner_ok_def QUERY_SCAN_MAX_SEQUENCE_BYTES_def
        intro!: explains_bounded explains_finish explains_hold)
next
  case QOscEscape
  then obtain r where r: "qs_seq s = ESC # CHR '']'' # r @ [ESC]" using assms by (auto simp: scanner_ok_def)
  obtain s' out qs where e: "scan_escape b = (s', out, qs)" by (cases "scan_escape b")
  have "explains p ((ESC # CHR '']'' # r) @ [ESC, b]) (s', (ESC # CHR '']'' # r) @ out, qs)"
    using explains_prefix explains_escape e by metis
  then show ?thesis
    using QOscEscape r e osc_asks [of "qs_seq s @ [b]" "r @ [ESC, b]"] by (auto simp: query_step_def Let_def butlast_append intro!: explains_finish)
qed

text \<open>Two parts of the stream, one after the other.\<close>

lemma explains_append:
  assumes "explains p given (s1, o1, q1)" and "explains p (qs_seq s1 @ rest) (s2, o2, q2)"
  shows "explains p (given @ rest) (s2, o1 @ o2, q1 @ q2)"
proof -
  obtain ps1 where ps1: "given = concat (map piece_text ps1) @ qs_seq s1"
      "o1 = concat (map piece_out ps1)" "q1 = concat (map piece_queries ps1)" "list_all (piece_ok p) ps1"
    using assms(1) by (auto simp: explains_def)
  obtain ps2 where ps2: "qs_seq s1 @ rest = concat (map piece_text ps2) @ qs_seq s2" "scanner_ok s2"
      "o2 = concat (map piece_out ps2)" "q2 = concat (map piece_queries ps2)" "list_all (piece_ok p) ps2"
    using assms(2) by (auto simp: explains_def)
  have "given @ rest = concat (map piece_text (ps1 @ ps2)) @ qs_seq s2"
    using ps1(1) ps2(1) by simp
  then show ?thesis using ps1 ps2 by (auto simp: explains_def intro!: exI [of _ "ps1 @ ps2"])
qed

lemma explains_ok: "explains p given (s, out, qs) \<Longrightarrow> scanner_ok s"
  by (simp add: explains_def)

lemma explains_start: "scanner_ok s \<Longrightarrow> explains p (qs_seq s) (s, [], [])"
  by (auto simp: explains_def intro!: exI [of _ "[]"])

lemma query_scan_explains: "scanner_ok s \<Longrightarrow> explains p (qs_seq s @ input) (query_scan p s input)"
proof (induction input arbitrary: s)
  case Nil
  then show ?case by (simp add: explains_start)
next
  case (Cons b input)
  obtain s1 o1 q1 where 1: "query_step p s b = (s1, o1, q1)" by (cases "query_step p s b")
  obtain s2 o2 q2 where 2: "query_scan p s1 input = (s2, o2, q2)" by (cases "query_scan p s1 input")
  have e1: "explains p (qs_seq s @ [b]) (s1, o1, q1)" using query_step_explains [OF Cons.prems, of p b] 1 by simp
  from explains_append [OF e1] Cons.IH [OF explains_ok [OF e1]] 2
  show ?case by (simp add: 1 2)
qed

text \<open>Intercepting probes only adds recognised queries.\<close>

lemma explains_mono: "explains p given r \<Longrightarrow> (p \<Longrightarrow> p') \<Longrightarrow> explains p' given r"
proof -
  assume e: "explains p given r" and pp: "p \<Longrightarrow> p'"
  have "piece_ok p' x" if "piece_ok p x" for x
    using that pp by (cases x) (auto simp: asks_def split: host_answered_query.splits)
  then have "list_all (piece_ok p) ps \<Longrightarrow> list_all (piece_ok p') ps" for ps by (auto simp: list_all_iff)
  then show ?thesis using e by (auto simp: explains_def split: prod.splits)
qed

lemma query_scan_chunks_explains:
  "scanner_ok s \<Longrightarrow> explains (list_ex fst chunks) (qs_seq s @ concat (map snd chunks)) (query_scan_chunks s chunks)"
proof (induction chunks arbitrary: s)
  case Nil
  then show ?case by (simp add: explains_start)
next
  case (Cons c chunks)
  obtain p chunk where c: "c = (p, chunk)" by (cases c)
  obtain s1 o1 q1 where 1: "query_scan p s chunk = (s1, o1, q1)" by (cases "query_scan p s chunk")
  obtain s2 o2 q2 where 2: "query_scan_chunks s1 chunks = (s2, o2, q2)" by (cases "query_scan_chunks s1 chunks")
  have e1: "explains p (qs_seq s @ chunk) (s1, o1, q1)" using query_scan_explains [OF Cons.prems] 1 by metis
  have "explains (list_ex fst chunks) (qs_seq s1 @ concat (map snd chunks)) (s2, o2, q2)"
    using Cons.IH [OF explains_ok [OF e1]] 2 by simp
  then have "explains (list_ex fst (c # chunks)) (qs_seq s1 @ concat (map snd chunks)) (s2, o2, q2)"
    by (rule explains_mono) simp
  moreover have "explains (list_ex fst (c # chunks)) (qs_seq s @ chunk) (s1, o1, q1)"
    using e1 by (rule explains_mono) (simp add: c)
  ultimately show ?case using explains_append [of "list_ex fst (c # chunks)"] by (simp add: c 1 2) (metis append.assoc)
qed

text \<open>The query scanner loses and invents nothing: the bytes the program wrote, read in any chunks,
  are in order pieces that were passed on unchanged and pieces that spell a query the Host answers,
  followed by at most 33 bytes still held back, which the exit of the program releases. The answered
  queries are those of the pieces taken out, in their order; without interception only device-attribute
  and program-status queries are taken out.\<close>

lemma query_scanner_conserves_stream:
  "case query_scan_chunks query_scanner_new chunks of (s, out, queries) \<Rightarrow>
     \<exists>ps. concat (map snd chunks) = concat (map piece_text ps) @ snd (scanner_take_pending s)
       \<and> out = concat (map piece_out ps) \<and> queries = concat (map piece_queries ps)
       \<and> list_all (piece_ok (list_ex fst chunks)) ps \<and> length (snd (scanner_take_pending s)) \<le> 33"
proof -
  obtain s out qs where s: "query_scan_chunks query_scanner_new chunks = (s, out, qs)" by (cases "query_scan_chunks query_scanner_new chunks")
  have "scanner_ok query_scanner_new" by (simp add: scanner_ok_def query_scanner_new_def)
  then have e: "explains (list_ex fst chunks) (concat (map snd chunks)) (s, out, qs)"
    using query_scan_chunks_explains [of query_scanner_new chunks] s by (simp add: query_scanner_new_def)
  then have "length (qs_seq s) \<le> 33"
    by (simp add: explains_def scanner_ok_def QUERY_SCAN_MAX_SEQUENCE_BYTES_def)
  then show ?thesis using e s by (simp add: explains_def scanner_take_pending_def)
qed

section \<open>Queries are answered\<close>

lemma query_scan_plain: "ESC \<notin> set t \<Longrightarrow> query_scan p query_scanner_new t = (query_scanner_new, t, [])"
  by (induction t) (auto simp: query_step_def query_scanner_new_def Let_def)

lemma query_scan_append:
  "query_scan p s (a @ b) = (case query_scan p s a of (s1, o1, q1) \<Rightarrow>
     case query_scan p s1 b of (s2, o2, q2) \<Rightarrow> (s2, o1 @ o2, q1 @ q2))"
  by (induction a arbitrary: s) (auto split: prod.splits)

text \<open>Parameters of a CSI, and the body of an OSC, are held.\<close>

lemma scan_csi_params:
  "list_all (\<lambda>b. 0x20 \<le> byte_val b \<and> byte_val b \<le> 0x3f) ps \<Longrightarrow> length held + length ps \<le> QUERY_SCAN_MAX_SEQUENCE_BYTES
     \<Longrightarrow> query_scan p \<lparr>qs_state = QCsi, qs_seq = held\<rparr> ps = (\<lparr>qs_state = QCsi, qs_seq = held @ ps\<rparr>, [], [])"
  by (induction ps arbitrary: held) (auto simp: query_step_def bounded_hold_def hold_def Let_def)

lemma scan_osc_body:
  "ESC \<notin> set body \<Longrightarrow> BEL \<notin> set body \<Longrightarrow> length held + length body \<le> QUERY_SCAN_MAX_SEQUENCE_BYTES
     \<Longrightarrow> query_scan p \<lparr>qs_state = QOsc, qs_seq = held\<rparr> body = (\<lparr>qs_state = QOsc, qs_seq = held @ body\<rparr>, [], [])"
  by (induction body arbitrary: held) (auto simp: query_step_def bounded_hold_def hold_def Let_def)

lemma osc_body_terminated:
  assumes "term \<in> {[BEL], [ESC, BACKSLASH]}"
  shows "osc_body ([ESC, CHR '']''] @ body @ term) = Some body"
proof -
  have "ends_with [BEL] (body @ [BEL])" "ends_with [ESC, BACKSLASH] (body @ [ESC, BACKSLASH])"
    by (auto simp: ends_with_iff)
  moreover have "\<not> ends_with [BEL] (body @ [ESC, BACKSLASH])" by (auto simp: ends_with_iff)
  ultimately show ?thesis using assms by (auto simp: osc_body_def strip_suffix_def)
qed

lemma scan_osc_query:
  assumes "term \<in> {[BEL], [ESC, BACKSLASH]}" and "ESC \<notin> set body" and "BEL \<notin> set body"
    and "length body \<le> 30" and "osc_query ([ESC, CHR '']''] @ body @ term) p = Some q"
  shows "query_scan p query_scanner_new ([ESC, CHR '']''] @ body @ term) = (query_scanner_new, [], [q])"
proof -
  have 1: "query_scan p query_scanner_new [ESC, CHR '']''] = (\<lparr>qs_state = QOsc, qs_seq = [ESC, CHR '']'']\<rparr>, [], [])"
    by (simp add: query_step_def query_scanner_new_def hold_def scan_escape_def Let_def)
  have 2: "query_scan p \<lparr>qs_state = QOsc, qs_seq = [ESC, CHR '']'']\<rparr> body
      = (\<lparr>qs_state = QOsc, qs_seq = [ESC, CHR '']''] @ body\<rparr>, [], [])"
    using assms by (intro scan_osc_body) (auto simp: QUERY_SCAN_MAX_SEQUENCE_BYTES_def)
  have 3: "query_scan p \<lparr>qs_state = QOsc, qs_seq = [ESC, CHR '']''] @ body\<rparr> term = (query_scanner_new, [], [q])"
    using assms(1,5) by (auto simp: query_step_def finish_query_def answer_query_def query_scanner_new_def hold_def Let_def)
  show ?thesis by (simp only: query_scan_append 1 2 3 prod.case append_Nil append_Nil2)
qed

lemma scan_csi_query:
  assumes "list_all (\<lambda>b. 0x20 \<le> byte_val b \<and> byte_val b \<le> 0x3f) ps" and "length ps \<le> 29"
    and "0x40 \<le> byte_val f" and "byte_val f \<le> 0x7e"
    and "(if is_da1_query ([ESC, CHR ''[''] @ ps @ [f]) then Some Da1
          else if p then probe_query ([ESC, CHR ''[''] @ ps @ [f]) else None) = Some q"
  shows "query_scan p query_scanner_new ([ESC, CHR ''[''] @ ps @ [f]) = (query_scanner_new, [], [q])"
proof -
  have 1: "query_scan p query_scanner_new [ESC, CHR ''['']  = (\<lparr>qs_state = QCsi, qs_seq = [ESC, CHR ''['']\<rparr>, [], [])"
    by (simp add: query_step_def query_scanner_new_def hold_def scan_escape_def Let_def)
  have 2: "query_scan p \<lparr>qs_state = QCsi, qs_seq = [ESC, CHR ''['']\<rparr> ps
      = (\<lparr>qs_state = QCsi, qs_seq = [ESC, CHR ''[''] @ ps\<rparr>, [], [])"
    using assms(1,2) by (intro scan_csi_params) (auto simp: QUERY_SCAN_MAX_SEQUENCE_BYTES_def)
  have 3: "query_scan p \<lparr>qs_state = QCsi, qs_seq = [ESC, CHR ''[''] @ ps\<rparr> [f] = (query_scanner_new, [], [q])"
    using assms(3-5)
    by (auto simp: query_step_def finish_query_def answer_query_def query_scanner_new_def Let_def split: if_splits)
  show ?thesis by (simp only: query_scan_append 1 2 3 prod.case append_Nil append_Nil2)
qed

lemma asks_scanned:
  assumes "asks p q seq" and "length seq \<le> 32"
  shows "query_scan p query_scanner_new seq = (query_scanner_new, [], [q])"
proof -
  have dig: "0x20 \<le> byte_val b \<and> byte_val b \<le> 0x3f" if "is_ascii_digit b \<or> b = CHR '';''" for b
    using that by (auto simp: is_ascii_digit_def byte_val_def)
  have osc: "query_scan p query_scanner_new (ESC # CHR '']'' # body @ term) = (query_scanner_new, [], [q])"
    if "term \<in> {[BEL], [ESC, BACKSLASH]}" "ESC \<notin> set body" "BEL \<notin> set body" "length body \<le> 30"
      "osc_query (ESC # CHR '']'' # body @ term) p = Some q" for body "term"
    using scan_osc_query [of "term" body p q] that by simp
  show ?thesis
  proof (cases q)
    case Da1
    then consider "seq = [ESC, CHR ''Z'']"
      | ps where "seq = [ESC, CHR ''[''] @ ps @ ''c''" "list_all (\<lambda>b. is_ascii_digit b \<or> b = CHR '';'') ps"
      using assms(1) by (auto simp: asks_def)
    then show ?thesis
    proof cases
      case 1
      then show ?thesis
        using Da1 by (simp add: query_step_def scan_escape_def hold_def answer_query_def query_scanner_new_def Let_def)
    next
      case 2
      then have "list_all (\<lambda>b. 0x20 \<le> byte_val b \<and> byte_val b \<le> 0x3f) ps" using dig by (auto simp: list_all_iff)
      then show ?thesis
        using scan_csi_query [of ps "CHR ''c''" p q] 2 Da1 assms(2)
        by (simp add: is_da1_query_def byte_val_def)
    qed
  next
    case CursorPosition
    then show ?thesis using assms(1) scan_csi_query [of "''6''" "CHR ''n''" p q]
      by (simp add: asks_def is_da1_query_def probe_query_def byte_val_def)
  next
    case KittyFlags
    then show ?thesis using assms(1) scan_csi_query [of "''?''" "CHR ''u''" p q]
      by (simp add: asks_def is_da1_query_def probe_query_def byte_val_def)
  next
    case ProgramStatus
    then obtain t where t: "t \<in> {[BEL], [ESC, BACKSLASH]}" "seq = ESC # CHR '']'' # ''7501;?'' @ t"
      using assms(1) by (auto simp: asks_def)
    then have "osc_query seq p = Some q"
      using osc_body_terminated [OF t(1), of "''7501;?''"] ProgramStatus by (simp add: osc_query_def)
    then show ?thesis using osc [of t "''7501;?''"] t by simp
  next
    case (OscColor n)
    then obtain t body where t: "t \<in> {[BEL], [ESC, BACKSLASH]}" "seq = ESC # CHR '']'' # body @ t" and p: p
      and b: "body = ''10;?'' \<and> n = 10 \<or> body = ''11;?'' \<and> n = 11"
      using assms(1) by (auto simp: asks_def)
    then have "osc_query seq p = Some q"
      using osc_body_terminated [OF t(1), of body] OscColor by (auto simp: osc_query_def osc_color_query_def)
    then show ?thesis using osc [of t body] t b by auto
  next
    case (OscPalette n)
    then obtain t i where t: "t \<in> {[BEL], [ESC, BACKSLASH]}" "seq = ESC # CHR '']'' # (''4;'' @ i @ '';?'') @ t"
      and p: p and i: "parse_uint 65535 i = Some n" "length i \<le> 3" "n < 256"
      using assms(1) by (auto simp: asks_def)
    have ds: "i \<noteq> []" "list_all (\<lambda>c. is_ascii_digit c \<or> c = CHR ''+'') i"
      using i(1) by (auto simp: parse_uint_def Let_def list_all_iff split: list.splits if_splits)
    have c: "byte_val c < 128 \<and> c \<noteq> ESC \<and> c \<noteq> BEL" if "c \<in> set i" for c
      using that ds(2) by (auto simp: list_all_iff is_ascii_digit_def byte_val_def)
    have utf8: "utf8_valid s" if "list_all (\<lambda>c. byte_val c < 128) s" for s using that by (induction s) simp_all
    have "utf8_valid i" using c by (intro utf8) (auto simp: list_all_iff)
    moreover have "strip_prefix ''4;'' (''4;'' @ i @ '';?'') = Some (i @ '';?'')"
      "strip_suffix '';?'' (i @ '';?'') = Some i"
      by (auto simp: strip_prefix_def strip_suffix_def starts_with_iff ends_with_iff)
    ultimately have "osc_query seq p = Some q"
      using osc_body_terminated [OF t(1), of "''4;'' @ i @ '';?''"] OscPalette t(2) p i ds(1)
      by (simp add: osc_query_def osc_color_query_def)
    then show ?thesis using osc [of t "''4;'' @ i @ '';?''"] t c i(2) by auto
  qed
qed

text \<open>Every query the Host claims to answer is recognised and taken out, in any of its spellings
  of up to 32 bytes, after any escape-free output and however the bytes were split over the reads.\<close>

lemma host_query_answered:
  assumes "asks probes q seq" and "length seq \<le> 32" and "ESC \<notin> set t"
    and "concat chunks = t @ seq"
  shows "query_scan_chunks query_scanner_new (map (Pair probes) chunks) = (query_scanner_new, t, [q])"
proof -
  have "query_scan_chunks s (map (Pair probes) cs) = query_scan probes s (concat cs)" for s cs
    by (induction cs arbitrary: s) (auto simp: query_scan_append split: prod.splits)
  then show ?thesis
    using assms(4) by (simp add: query_scan_append query_scan_plain [OF assms(3)] asks_scanned [OF assms(1,2)])
qed

end
