(* ===== verification/Host_Write.thy ===== *)
theory Host_Write
  imports Session_Input
begin

text \<open>
  The idempotent input write of the session Host: the window of recent write ids of
  \<open>crates/unpeel-core/src/session_host.rs\<close> and the arm of \<open>SessionHostCommand::Write\<close> in
  \<open>session_io.rs\<close> that checks the id, writes to the PTY, feeds the input tracker of
  \<open>Hook_Cancellation\<close> with what was written and records the id. The PTY writer is a script of results,
  one per call, each with the clock read for the tracker; the restart lock and the runtime lock
  make the arm one atomic step. \<open>menu\<close> says whether the screen shows a menu prompt.
\<close>

section \<open>Recent write ids\<close>

definition WRITE_ID_HISTORY :: nat where "WRITE_ID_HISTORY = 256"
definition WRITE_ID_MAX_BYTES :: nat where "WRITE_ID_MAX_BYTES = 128"

definition validate_write_id :: "string option \<Rightarrow> string + string option" where
  "validate_write_id write_id =
     (case write_id of
        None \<Rightarrow> Inr None
      | Some i \<Rightarrow>
          if i = [] then Inr None
          else if length i > WRITE_ID_MAX_BYTES then Inl ''write_id exceeds 128 bytes'' else Inr (Some i))"

record recent_write_ids =
  rw_order :: "string list"
  rw_seen :: "string set"

definition recent_default :: recent_write_ids where
  "recent_default = \<lparr>rw_order = [], rw_seen = {}\<rparr>"

definition recent_contains :: "recent_write_ids \<Rightarrow> string \<Rightarrow> bool" where
  "recent_contains r i \<longleftrightarrow> i \<in> rw_seen r"

fun evict_ids :: "string list \<Rightarrow> string set \<Rightarrow> recent_write_ids" where
  "evict_ids [] seen = \<lparr>rw_order = [], rw_seen = seen\<rparr>"
| "evict_ids (x # xs) seen =
     (if length (x # xs) > WRITE_ID_HISTORY then evict_ids xs (seen - {x})
      else \<lparr>rw_order = x # xs, rw_seen = seen\<rparr>)"

definition record_applied :: "string \<Rightarrow> recent_write_ids \<Rightarrow> recent_write_ids" where
  "record_applied i r =
     (if i \<in> rw_seen r then r else evict_ids (rw_order r @ [i]) (insert i (rw_seen r)))"

section \<open>The write command\<close>

datatype pty_result = PtyWrote nat u64 | PtyInterrupted | PtyFailed string

record write_runtime =
  wt_recent :: recent_write_ids
  wt_tracker :: input_tracker
  wt_pty :: string

datatype write_outcome = Applied | Duplicate | WriteRejected string | WriteFailed string

text \<open>The loop over \<open>remaining\<close>. The result is \<open>None\<close> when the script ends first (the call is still
  blocked) or when the tracker would index out of range.\<close>

fun write_loop :: "u64 \<Rightarrow> bool \<Rightarrow> pty_result list \<Rightarrow> string \<Rightarrow> write_runtime
    \<Rightarrow> (string + unit) option \<times> write_runtime" where
  "write_loop generation menu script [] w = (Some (Inr ()), w)"
| "write_loop generation menu [] remaining w = (None, w)"
| "write_loop generation menu (r # script) remaining w =
     (case r of
        PtyInterrupted \<Rightarrow> write_loop generation menu script remaining w
      | PtyFailed e \<Rightarrow> (Some (Inl (''Write error: '' @ e)), w)
      | PtyWrote n now \<Rightarrow>
          if n = 0 then (Some (Inl ''PTY input write returned zero''), w)
          else
            let w' = w\<lparr>wt_pty := wt_pty w @ take n remaining\<rparr>
            in case feed (wt_tracker w) (take n remaining) generation now menu of
                 None \<Rightarrow> (None, w')
               | Some t \<Rightarrow> write_loop generation menu script (drop n remaining) (w'\<lparr>wt_tracker := t\<rparr>))"

definition menu_active :: "bool \<Rightarrow> string \<Rightarrow> bool" where
  "menu_active menu_on_screen data \<longleftrightarrow> CHR 0x1B \<in> set data \<and> menu_on_screen"

definition write_command :: "u64 \<Rightarrow> bool \<Rightarrow> pty_result list \<Rightarrow> string \<Rightarrow> string option \<Rightarrow> write_runtime
    \<Rightarrow> write_outcome option \<times> write_runtime" where
  "write_command generation menu_on_screen script data write_id w =
     (case validate_write_id write_id of
        Inl e \<Rightarrow> (Some (WriteRejected e), w)
      | Inr i \<Rightarrow>
          if (case i of None \<Rightarrow> False | Some x \<Rightarrow> recent_contains (wt_recent w) x) then (Some Duplicate, w)
          else case write_loop generation (menu_active menu_on_screen data) script data w of
              (None, w') \<Rightarrow> (None, w')
            | (Some (Inl e), w') \<Rightarrow> (Some (WriteFailed e), w')
            | (Some (Inr _), w') \<Rightarrow>
                (Some Applied,
                 case i of None \<Rightarrow> w' | Some x \<Rightarrow> w'\<lparr>wt_recent := record_applied x (wt_recent w')\<rparr>))"

text \<open>Requests one after the other; each comes with its script and with the generation and the menu that it finds.\<close>

record write_request =
  wq_data :: string
  wq_id :: "string option"
  wq_script :: "pty_result list"
  wq_generation :: u64
  wq_menu :: bool

fun write_all :: "write_request list \<Rightarrow> write_runtime \<Rightarrow> write_outcome option list \<times> write_runtime" where
  "write_all [] w = ([], w)"
| "write_all (q # qs) w =
     (case write_command (wq_generation q) (wq_menu q) (wq_script q) (wq_data q) (wq_id q) w of (r, w1) \<Rightarrow>
        case write_all qs w1 of (rs, w2) \<Rightarrow> (r # rs, w2))"

end
