(* ===== verification/Host_Write_Props.thy ===== *)
theory Host_Write_Props
  imports Host_Write
begin

text \<open>
  What the idempotent write promises: a retry of an applied write delivers nothing, an applied write
  delivers exactly its bytes, a failed one a prefix of them.
\<close>

section \<open>The window\<close>

definition recent_inv :: "recent_write_ids \<Rightarrow> bool" where
  "recent_inv r \<longleftrightarrow> rw_seen r = set (rw_order r) \<and> distinct (rw_order r) \<and> length (rw_order r) \<le> WRITE_ID_HISTORY"

lemma evict_ids_suffix:
  assumes "distinct xs" and "seen = set xs"
  shows "evict_ids xs seen = \<lparr>rw_order = drop (length xs - WRITE_ID_HISTORY) xs,
    rw_seen = set (drop (length xs - WRITE_ID_HISTORY) xs)\<rparr>"
  using assms by (induction xs arbitrary: seen) (auto simp: Suc_diff_le)

lemma record_applied_inv: "recent_inv r \<Longrightarrow> recent_inv (record_applied i r)"
  by (auto simp: record_applied_def recent_inv_def evict_ids_suffix WRITE_ID_HISTORY_def dest: in_set_dropD)

lemma record_applied_order:
  assumes "recent_inv r" and "i \<notin> rw_seen r"
  shows "rw_order (record_applied i r)
    = drop (length (rw_order r) + 1 - WRITE_ID_HISTORY) (rw_order r @ [i])"
  using assms by (simp add: record_applied_def recent_inv_def evict_ids_suffix)

text \<open>The ids recorded so far, each once; the window is the end of it.\<close>

fun recorded :: "string list \<Rightarrow> recent_write_ids \<Rightarrow> recent_write_ids" where
  "recorded [] r = r"
| "recorded (i # is) r = recorded is (record_applied i r)"

lemma recorded_inv: "recent_inv r \<Longrightarrow> recent_inv (recorded is r)"
  by (induction "is" arbitrary: r) (auto simp: record_applied_inv)

lemma recorded_contains:
  assumes "recent_inv r" and "rw_order r = as @ i # bs" and "length bs + length is < WRITE_ID_HISTORY"
  shows "i \<in> rw_seen (recorded is r)"
  using assms
proof (induction "is" arbitrary: r as bs)
  case Nil
  then show ?case by (auto simp: recent_inv_def)
next
  case (Cons j js)
  show ?case
  proof (cases "j \<in> rw_seen r")
    case True
    then show ?thesis using Cons.IH [OF Cons.prems(1,2)] Cons.prems(3) by (simp add: record_applied_def)
  next
    case False
    have o: "rw_order (record_applied j r) = drop (length (rw_order r) + 1 - WRITE_ID_HISTORY) (rw_order r @ [j])"
      using record_applied_order [OF Cons.prems(1) False] .
    have "length (rw_order r) + 1 - WRITE_ID_HISTORY \<le> length as"
      using Cons.prems(2,3) by simp
    then have "rw_order (record_applied j r) = drop (length (rw_order r) + 1 - WRITE_ID_HISTORY) as @ i # bs @ [j]"
      by (simp add: o Cons.prems(2))
    from Cons.IH [OF record_applied_inv [OF Cons.prems(1)] this] Cons.prems(3) show ?thesis by simp
  qed
qed

section \<open>What is delivered\<close>

lemma write_loop_PtyWrote:
  assumes "data \<noteq> []" and "n \<noteq> 0"
  shows "write_loop g m (PtyWrote n now # script) data w =
    (case feed (wt_tracker w) (take n data) g now m of
       None \<Rightarrow> (None, w\<lparr>wt_pty := wt_pty w @ take n data\<rparr>)
     | Some t \<Rightarrow> write_loop g m script (drop n data) (w\<lparr>wt_pty := wt_pty w @ take n data, wt_tracker := t\<rparr>))"
  using assms by (cases data) (simp_all add: Let_def cong: option.case_cong)

lemma write_loop_delivers:
  "write_loop g m script data w = (res, w') \<Longrightarrow>
     wt_recent w' = wt_recent w \<and> (\<exists>k. wt_pty w' = wt_pty w @ take k data)
     \<and> (res = Some (Inr ()) \<longrightarrow> wt_pty w' = wt_pty w @ data)"
proof (induction g m script data w rule: write_loop.induct)
  case (1 g m script w)
  then show ?case by auto
next
  case (2 g m b bs w)
  then show ?case by (auto intro: exI [of _ 0])
next
  case (3 g m r script b bs w)
  define data where "data = b # bs"
  show ?case
  proof (cases r)
    case (PtyWrote n now)
    consider "n = 0" | "n \<noteq> 0" "feed (wt_tracker w) (take n data) g now m = None"
      | t where "n \<noteq> 0" "feed (wt_tracker w) (take n data) g now m = Some t" by fastforce
    then show ?thesis
    proof cases
      case 1
      then show ?thesis using "3.prems" PtyWrote by (auto intro: exI [of _ 0])
    next
      case 2
      then show ?thesis using "3.prems" PtyWrote write_loop_PtyWrote [of data n g m now script w]
        by (auto simp: data_def)
    next
      case 3
      let ?w = "w\<lparr>wt_pty := wt_pty w @ take n data, wt_tracker := t\<rparr>"
      have loop: "write_loop g m script (drop n data) ?w = (res, w')"
        using "3.prems" PtyWrote 3 write_loop_PtyWrote [of data n g m now script w] by (simp add: data_def)
      then obtain k where "wt_recent w' = wt_recent w" "wt_pty w' = wt_pty w @ take n data @ take k (drop n data)"
        "res = Some (Inr ()) \<longrightarrow> wt_pty w' = wt_pty w @ take n data @ drop n data"
        using "3.IH"(1) [OF PtyWrote 3(1) refl] 3(2) by (auto simp: data_def)
      moreover have "take n data @ take k (drop n data) = take (n + k) data" by (simp add: take_add)
      ultimately show ?thesis by (auto simp: data_def)
    qed
  next
    case PtyInterrupted
    then show ?thesis using "3.IH"(2) "3.prems" by simp
  next
    case (PtyFailed e)
    then show ?thesis using "3.prems" by (auto intro: exI [of _ 0])
  qed
qed

lemma write_command_cases:
  assumes "write_command g menu script data i w = (r, w')"
  obtains "r \<noteq> Some Applied" and "w' = w"
  | k where "r \<noteq> Some Applied" "r \<noteq> Some Duplicate" "wt_recent w' = wt_recent w" "wt_pty w' = wt_pty w @ take k data"
  | "r = Some Applied" "wt_pty w' = wt_pty w @ data" "i = None \<or> i = Some []" "wt_recent w' = wt_recent w"
  | x where "r = Some Applied" "wt_pty w' = wt_pty w @ data" "i = Some x" "x \<noteq> []" "length x \<le> WRITE_ID_MAX_BYTES"
      "wt_recent w' = record_applied x (wt_recent w)"
proof -
  obtain res w1 where l: "write_loop g (menu_active menu data) script data w = (res, w1)"
    by (cases "write_loop g (menu_active menu data) script data w")
  obtain k where d: "wt_recent w1 = wt_recent w" "wt_pty w1 = wt_pty w @ take k data"
    "res = Some (Inr ()) \<longrightarrow> wt_pty w1 = wt_pty w @ data"
    using write_loop_delivers [OF l] by blast
  show thesis
  proof (cases "validate_write_id i")
    case (Inl e)
    then show thesis using assms that(1) by (auto simp: write_command_def)
  next
    case (Inr v)
    then have v: "v = None \<and> (i = None \<or> i = Some []) \<or> (\<exists>x. v = Some x \<and> i = Some x \<and> x \<noteq> [] \<and> length x \<le> WRITE_ID_MAX_BYTES)"
      by (auto simp: validate_write_id_def split: option.splits if_splits)
    show thesis
    proof (cases "\<exists>x. v = Some x \<and> recent_contains (wt_recent w) x")
      case True
      then show thesis using assms Inr that(1) by (auto simp: write_command_def)
    next
      case False
      then have "(r, w') = (case res of None \<Rightarrow> (None, w1) | Some (Inl e) \<Rightarrow> (Some (WriteFailed e), w1)
          | Some (Inr _) \<Rightarrow> (Some Applied,
              case v of None \<Rightarrow> w1 | Some x \<Rightarrow> w1\<lparr>wt_recent := record_applied x (wt_recent w1)\<rparr>))"
        using assms Inr l by (auto simp: write_command_def split: option.splits sum.splits)
      then show thesis using v d that(2-4) by (auto split: option.splits sum.splits)
    qed
  qed
qed

lemma write_all_recorded:
  "write_all qs w = (rs, w') \<Longrightarrow> \<exists>is. length is \<le> length qs \<and> wt_recent w' = recorded is (wt_recent w)"
proof (induction qs arbitrary: w rs)
  case Nil
  then show ?case by (auto intro: exI [of _ "[]"])
next
  case (Cons q qs)
  obtain r w1 where q: "write_command (wq_generation q) (wq_menu q) (wq_script q) (wq_data q) (wq_id q) w = (r, w1)"
    by (cases "write_command (wq_generation q) (wq_menu q) (wq_script q) (wq_data q) (wq_id q) w")
  obtain rs' where "write_all qs w1 = (rs', w')" using Cons.prems q by (auto split: prod.splits)
  from Cons.IH [OF this] obtain js where js: "length js \<le> length qs" "wt_recent w' = recorded js (wt_recent w1)" by blast
  from q show ?case
  proof (cases rule: write_command_cases)
    case (4 x)
    then show ?thesis using js by (intro exI [of _ "x # js"]) simp
  qed (use js in \<open>auto intro: exI [of _ js] le_SucI\<close>)
qed

text \<open>C31. A write is applied once: after a write with an id was applied, and delivered exactly its
  bytes, a retry with the same id is recognised and changes nothing, as long as fewer than 256 other
  write commands ran in between, whatever those were and however they ended.\<close>

theorem retried_write_applied_once:
  assumes "write_command g menu script data (Some i) w = (Some Applied, w1)" and "i \<noteq> []"
    and "recent_inv (wt_recent w)" and "write_all qs w1 = (rs, w2)" and "length qs < 256"
  shows "wt_pty w1 = wt_pty w @ data
    \<and> write_command g' menu' script' data' (Some i) w2 = (Some Duplicate, w2)"
proof -
  obtain k where new: "wt_pty w1 = wt_pty w @ data" "length i \<le> WRITE_ID_MAX_BYTES"
      "wt_recent w1 = record_applied i (wt_recent w)" and "k = i"
    using assms(1,2) by (cases rule: write_command_cases) auto
  have "i \<notin> rw_seen (wt_recent w)"
  proof
    assume "i \<in> rw_seen (wt_recent w)"
    then have "write_command g menu script data (Some i) w = (Some Duplicate, w)"
      using assms(2) new(2) by (simp add: write_command_def validate_write_id_def recent_contains_def)
    with assms(1) show False by simp
  qed
  then have "rw_order (wt_recent w1) = drop (length (rw_order (wt_recent w)) + 1 - WRITE_ID_HISTORY) (rw_order (wt_recent w)) @ i # []"
    using record_applied_order [OF assms(3)] assms(3) by (simp add: new(3) recent_inv_def WRITE_ID_HISTORY_def)
  moreover have "recent_inv (wt_recent w1)" using record_applied_inv [OF assms(3)] new(3) by simp
  moreover obtain js where "length js \<le> length qs" "wt_recent w2 = recorded js (wt_recent w1)"
    using write_all_recorded [OF assms(4)] by blast
  ultimately have "i \<in> rw_seen (wt_recent w2)"
    using recorded_contains [of "wt_recent w1" _ i "[]" js] assms(5) by (simp add: WRITE_ID_HISTORY_def)
  then show ?thesis
    using new assms(2) by (simp add: write_command_def validate_write_id_def recent_contains_def)
qed

definition fresh_runtime :: write_runtime where
  "fresh_runtime = \<lparr>wt_recent = recent_default, wt_tracker = tracker_default, wt_pty = []\<rparr>"

theorem retried_write_applied_once_witness:
  "\<exists>w1. write_command 0 False [PtyWrote 1 5, PtyInterrupted, PtyWrote 1 6] ''ls'' (Some ''a'') fresh_runtime = (Some Applied, w1)
     \<and> wt_pty w1 = ''ls'' \<and> write_command 0 False [] ''ls'' (Some ''a'') w1 = (Some Duplicate, w1)"
proof -
  obtain w1 where w1: "write_command 0 False [PtyWrote 1 5, PtyInterrupted, PtyWrote 1 6] ''ls'' (Some ''a'') fresh_runtime
      = (Some Applied, w1)"
    by (simp add: write_command_def validate_write_id_def WRITE_ID_MAX_BYTES_def recent_contains_def fresh_runtime_def
        recent_default_def feed_def tracker_default_def menu_active_def Let_def)
  have "recent_inv (wt_recent fresh_runtime)" by (simp add: fresh_runtime_def recent_default_def recent_inv_def)
  from retried_write_applied_once [OF w1 _ this, of "[]"] w1 show ?thesis by (auto simp: fresh_runtime_def)
qed

text \<open>A failed write is not undone: when the PTY takes part of the data and then fails, the id
  is not recorded, so the retry that the caller is meant to make delivers the first part twice.\<close>

lemma partial_write_delivered_twice:
  "let q = (\<lambda>script. \<lparr>wq_data = ''rm -rf x'', wq_id = Some ''a'', wq_script = script, wq_generation = 0, wq_menu = False\<rparr>);
       (rs, w) = write_all [q [PtyWrote 3 5, PtyFailed ''EIO''], q [PtyWrote 8 6]] fresh_runtime
   in rs = [Some (WriteFailed ''Write error: EIO''), Some Applied] \<and> wt_pty w = ''rm rm -rf x''"
  by (simp add: write_command_def validate_write_id_def WRITE_ID_MAX_BYTES_def recent_contains_def fresh_runtime_def
      recent_default_def feed_def tracker_default_def menu_active_def Let_def)

end
