(* ===== verification/Title_Scanner.thy ===== *)
theory Title_Scanner
  imports Rust_Str Prelude
begin

text \<open>
  Model of \<open>OscTitleScanner\<close> of \<open>crates/unpeel-core/src/session_host.rs\<close>, which watches the output of
  the hosted program for terminal titles. The numeric code of an OSC is a \<open>u32\<close> updated by \<open>saturating_mul(10) + digit\<close>: the sum can exceed the type, which panics
  in a build with overflow checks and wraps in one without; the parameter \<open>checks\<close> says which, and
  \<open>None\<close> is the panic.
\<close>

section \<open>Characters\<close>

text \<open>The characters of a valid UTF-8 string, each as its bytes.\<close>

definition char_len :: "byte \<Rightarrow> nat" where
  "char_len c = (let n = byte_val c in if n < 128 then 1 else if n < 224 then 2 else if n < 240 then 3 else 4)"

function utf8_chars :: "string \<Rightarrow> string list" where
  "utf8_chars [] = []"
| "utf8_chars (c # cs) = (c # take (char_len c - 1) cs) # utf8_chars (drop (char_len c - 1) cs)"
  by pat_completeness auto
termination by (relation "measure length") auto

section \<open>Titles\<close>

definition OSC_TITLE_MAX_PAYLOAD_BYTES :: nat where "OSC_TITLE_MAX_PAYLOAD_BYTES = 512"
definition OSC_TITLE_SKIP_BUDGET_BYTES :: nat where "OSC_TITLE_SKIP_BUDGET_BYTES = 64 * 1024"
definition APP_TITLE_CAP_CHARS :: nat where "APP_TITLE_CAP_CHARS = 80"

datatype title_scan_state = TGround | TEscape | TCode | TPayload | TPayloadEscape | TSkip | TSkipEscape

record title_scanner =
  ts_state :: title_scan_state
  ts_code :: u32
  ts_payload :: string
  ts_skipped :: nat
  ts_last_title :: "string option"

definition title_scanner_new :: title_scanner where
  "title_scanner_new = \<lparr>ts_state = TGround, ts_code = 0, ts_payload = [], ts_skipped = 0, ts_last_title = None\<rparr>"

text \<open>The activity marker U+2802 and the ellipsis U+2026.\<close>

definition ACTIVITY_MARK :: string where "ACTIVITY_MARK = [CHR 0xE2, CHR 0xA0, CHR 0x82]"
definition ELLIPSIS :: string where "ELLIPSIS = [CHR 0xE2, CHR 0x80, CHR 0xA6]"

definition clean_title :: "string \<Rightarrow> string" where
  "clean_title payload =
     (let txt = trim (concat (filter (\<lambda>ch. \<not> has_control ch) (utf8_chars payload)));
          rest = drop (length ACTIVITY_MARK) txt
      in if starts_with ACTIVITY_MARK txt \<and> 0 < ws_len (map byte_val rest) then trim_start rest else txt)"

definition cap_title :: "string \<Rightarrow> string" where
  "cap_title txt =
     (if length (utf8_chars txt) > APP_TITLE_CAP_CHARS
      then concat (take (APP_TITLE_CAP_CHARS - 1) (utf8_chars txt)) @ ELLIPSIS else txt)"

definition take_title :: "title_scanner \<Rightarrow> title_scanner \<times> string option" where
  "take_title s =
     (let s' = s\<lparr>ts_payload := []\<rparr> in
      if \<not> utf8_valid (ts_payload s) then (s', None)
      else
        let txt = clean_title (ts_payload s)
        in if txt = [] \<or> ts_last_title s = Some txt then (s', None)
           else (s'\<lparr>ts_last_title := Some txt\<rparr>, Some (cap_title txt)))"

definition code_digit :: "bool \<Rightarrow> u32 \<Rightarrow> nat \<Rightarrow> u32 option" where
  "code_digit checks code digit =
     (let sum = min (code * 10) (2 ^ 32 - 1) + digit
      in if sum < 2 ^ 32 then Some sum else if checks then None else Some (sum mod 2 ^ 32))"

definition finish_title :: "title_scanner \<Rightarrow> string option \<Rightarrow> title_scanner \<times> string option" where
  "finish_title s title =
     (case take_title s of (s', t) \<Rightarrow> (s'\<lparr>ts_state := TGround\<rparr>, case t of Some x \<Rightarrow> Some x | None \<Rightarrow> title))"

text \<open>One byte; \<open>title\<close> is the last new title of the chunk so far.\<close>

definition title_step :: "bool \<Rightarrow> title_scanner \<Rightarrow> string option \<Rightarrow> byte \<Rightarrow> (title_scanner \<times> string option) option" where
  "title_step checks s title b =
     (case ts_state s of
        TGround \<Rightarrow> Some (if b = CHR 0x1B then s\<lparr>ts_state := TEscape\<rparr> else s, title)
      | TEscape \<Rightarrow>
          Some (if b = CHR '']'' then s\<lparr>ts_code := 0, ts_state := TCode\<rparr>
                else if b = CHR 0x1B then s\<lparr>ts_state := TEscape\<rparr> else s\<lparr>ts_state := TGround\<rparr>, title)
      | TCode \<Rightarrow>
          if is_ascii_digit b then
            map_option (\<lambda>c. (s\<lparr>ts_code := c\<rparr>, title)) (code_digit checks (ts_code s) (byte_val b - 48))
          else Some (if b = CHR '';'' then
                       if ts_code s = 0 \<or> ts_code s = 2 then s\<lparr>ts_payload := [], ts_state := TPayload\<rparr>
                       else s\<lparr>ts_skipped := 0, ts_state := TSkip\<rparr>
                     else if b = CHR 0x1B then s\<lparr>ts_state := TEscape\<rparr> else s\<lparr>ts_state := TGround\<rparr>, title)
      | TPayload \<Rightarrow>
          Some (if b = CHR 0x07 then finish_title s title
                else if b = CHR 0x1B then (s\<lparr>ts_state := TPayloadEscape\<rparr>, title)
                else if length (ts_payload s) < OSC_TITLE_MAX_PAYLOAD_BYTES
                then (s\<lparr>ts_payload := ts_payload s @ [b]\<rparr>, title)
                else (s\<lparr>ts_payload := [], ts_skipped := 0, ts_state := TSkip\<rparr>, title))
      | TPayloadEscape \<Rightarrow>
          Some (if b = CHR 0x5C then finish_title s title
                else (let s' = s\<lparr>ts_payload := [], ts_state := TEscape\<rparr> in
                      if b = CHR '']'' then s'\<lparr>ts_code := 0, ts_state := TCode\<rparr>
                      else if b \<noteq> CHR 0x1B then s'\<lparr>ts_state := TGround\<rparr> else s', title))
      | TSkip \<Rightarrow>
          (let s' = s\<lparr>ts_skipped := ts_skipped s + 1\<rparr>
           in Some (if b = CHR 0x07 then s'\<lparr>ts_state := TGround\<rparr>
                    else if b = CHR 0x1B then s'\<lparr>ts_state := TSkipEscape\<rparr>
                    else if ts_skipped s' > OSC_TITLE_SKIP_BUDGET_BYTES then s'\<lparr>ts_state := TGround\<rparr> else s', title))
      | TSkipEscape \<Rightarrow>
          Some (if b = CHR 0x5C then s\<lparr>ts_state := TGround\<rparr>
                else if b = CHR 0x1B then s\<lparr>ts_state := TSkipEscape\<rparr>
                else if b = CHR '']'' then s\<lparr>ts_code := 0, ts_state := TCode\<rparr>
                else s\<lparr>ts_state := TGround\<rparr>, title))"

fun title_scan_from :: "bool \<Rightarrow> title_scanner \<Rightarrow> string option \<Rightarrow> string \<Rightarrow> (title_scanner \<times> string option) option" where
  "title_scan_from checks s title [] = Some (s, title)"
| "title_scan_from checks s title (b # input) =
     Option.bind (title_step checks s title b) (\<lambda>(s', title'). title_scan_from checks s' title' input)"

definition title_scan :: "bool \<Rightarrow> title_scanner \<Rightarrow> string \<Rightarrow> (title_scanner \<times> string option) option" where
  "title_scan checks s input = title_scan_from checks s None input"

end
