(* ===== verification/Title_Scanner_Props.thy ===== *)
theory Title_Scanner_Props
  imports Title_Scanner
begin

text \<open>
  Bounds of the title scanner, and the overflow of its numeric code.
\<close>

section \<open>Characters\<close>

definition full_char :: "string \<Rightarrow> bool" where
  "full_char ch \<longleftrightarrow> (\<exists>c r. ch = c # r \<and> length r = char_len c - 1)"

lemma utf8_chars_full: "list_all full_char cs \<Longrightarrow> utf8_chars (concat cs @ s) = cs @ utf8_chars s"
  by (induction cs) (auto simp: full_char_def)

lemma utf8_chars_butlast: "list_all full_char (butlast (utf8_chars s))"
proof (induction s rule: utf8_chars.induct)
  case (2 c cs)
  show ?case
  proof (cases "drop (char_len c - 1) cs = []")
    case False
    then have "length (take (char_len c - 1) cs) = char_len c - 1" by simp
    then show ?thesis using "2.IH" by (auto simp: full_char_def)
  qed simp
qed simp

lemma utf8_chars_Nil_iff [simp]: "utf8_chars s = [] \<longleftrightarrow> s = []"
  by (cases s) simp_all

lemma cap_title_bound: "length (utf8_chars (cap_title ti)) \<le> APP_TITLE_CAP_CHARS"
proof (cases "length (utf8_chars ti) > APP_TITLE_CAP_CHARS")
  case True
  let ?cs = "take (APP_TITLE_CAP_CHARS - 1) (utf8_chars ti)"
  have "?cs = take (APP_TITLE_CAP_CHARS - 1) (butlast (utf8_chars ti))"
    using True by (simp add: take_butlast)
  then have "list_all full_char ?cs"
    using utf8_chars_butlast [of ti] by (auto simp: list_all_iff dest: in_set_takeD)
  moreover have "utf8_chars ELLIPSIS = [ELLIPSIS]"
    by (simp add: ELLIPSIS_def char_len_def byte_val_def)
  ultimately have "utf8_chars (cap_title ti) = ?cs @ [ELLIPSIS]"
    using True by (simp add: cap_title_def utf8_chars_full)
  then show ?thesis using True by (simp add: APP_TITLE_CAP_CHARS_def)
next
  case False
  then show ?thesis by (simp add: cap_title_def)
qed

lemma cap_title_not_Nil: "ti \<noteq> [] \<Longrightarrow> cap_title ti \<noteq> []"
  by (simp add: cap_title_def ELLIPSIS_def)

section \<open>The scanner is bounded\<close>

definition title_wf :: "title_scanner \<Rightarrow> bool" where
  "title_wf s \<longleftrightarrow> length (ts_payload s) \<le> OSC_TITLE_MAX_PAYLOAD_BYTES \<and> ts_code s < 2 ^ 32"

definition title_ok :: "string option \<Rightarrow> bool" where
  "title_ok t \<longleftrightarrow> (case t of None \<Rightarrow> True
     | Some x \<Rightarrow> x \<noteq> [] \<and> length (utf8_chars x) \<le> APP_TITLE_CAP_CHARS)"

lemma finish_title_ok: "title_wf s \<Longrightarrow> title_ok t \<Longrightarrow> finish_title s t = (s', t') \<Longrightarrow> title_wf s' \<and> title_ok t'"
  by (auto simp: finish_title_def take_title_def title_wf_def title_ok_def cap_title_bound cap_title_not_Nil Let_def
      split: if_splits)

lemma code_digit_range: "code_digit checks c d = Some c' \<Longrightarrow> c' < 2 ^ 32"
  by (auto simp: code_digit_def Let_def split: if_splits)

lemma title_step_ok:
  assumes "title_wf s" and "title_ok t" and "title_step checks s t b = Some (s', t')"
  shows "title_wf s' \<and> title_ok t'"
proof (cases "ts_state s")
  case TCode
  then show ?thesis
    using assms by (auto simp: title_step_def title_wf_def dest: code_digit_range split: if_splits)
next
  case TPayload
  then show ?thesis
    using assms finish_title_ok [OF assms(1,2)]
    by (auto simp: title_step_def split: if_splits) (auto simp: title_wf_def)
next
  case TPayloadEscape
  then show ?thesis
    using assms finish_title_ok [OF assms(1,2)]
    by (auto simp: title_step_def Let_def split: if_splits) (auto simp: title_wf_def)
qed (use assms in \<open>auto simp: title_step_def title_wf_def Let_def split: if_splits\<close>)

lemma title_scan_from_ok:
  "title_wf s \<Longrightarrow> title_ok t \<Longrightarrow> title_scan_from checks s t input = Some (s', t') \<Longrightarrow> title_wf s' \<and> title_ok t'"
proof (induction input arbitrary: s t)
  case (Cons b input)
  from Cons.prems(3) obtain s1 t1 where
    step: "title_step checks s t b = Some (s1, t1)" and rest: "title_scan_from checks s1 t1 input = Some (s', t')"
    by (auto simp: bind_eq_Some_conv)
  from title_step_ok [OF Cons.prems(1,2) step] show ?case using Cons.IH [OF _ _ rest] by blast
qed simp

text \<open>Whatever a hosted program prints, a title the scanner reports is not empty and has at most 80
  characters, and the scanner never holds more than 512 bytes.\<close>

lemma reported_title_bounded:
  assumes "title_scan checks title_scanner_new input = Some (s, title)"
  shows "length (ts_payload s) \<le> 512
    \<and> (case title of None \<Rightarrow> True | Some t \<Rightarrow> t \<noteq> [] \<and> length (utf8_chars t) \<le> 80)"
proof -
  have "title_wf title_scanner_new" "title_ok None"
    by (simp_all add: title_wf_def title_scanner_new_def title_ok_def)
  from title_scan_from_ok [OF this, of checks input s title] assms show ?thesis
    by (auto simp: title_scan_def title_wf_def title_ok_def OSC_TITLE_MAX_PAYLOAD_BYTES_def APP_TITLE_CAP_CHARS_def
        split: option.splits)
qed

text \<open>The numeric code of an OSC overflows on ten digits: a build with overflow checks panics on
  such output, and a build without them takes the code for 0 and reports the text as a title.\<close>

lemma title_code_overflows:
  "title_scan True title_scanner_new (CHR 0x1B # '']4294967296;x'' @ [CHR 0x07]) = None
   \<and> map_option snd (title_scan False title_scanner_new (CHR 0x1B # '']4294967296;x'' @ [CHR 0x07])) = Some (Some ''x'')"
  by (simp add: title_scan_def title_step_def title_scanner_new_def code_digit_def is_ascii_digit_def byte_val_def
      finish_title_def take_title_def clean_title_def cap_title_def trim_eval Let_def char_len_def starts_with_def
      ACTIVITY_MARK_def APP_TITLE_CAP_CHARS_def OSC_TITLE_MAX_PAYLOAD_BYTES_def ascii_control_def)

end
