(* ===== verification/Output_Journal.thy ===== *)
theory Output_Journal
  imports Rust_Str Prelude
begin

text \<open>
  Model of the output journal of \<open>crates/unpeel-core/src/session_host.rs\<close>: the file \<open>output.bin\<close> with the bytes
  a hosted terminal printed, its sidecar \<open>output-retention.json\<close>, the \<open>RetainedOutputWriter\<close> that
  appends to it and gives back old blocks, and the lock-free reader \<open>read_output_chunk\<close>. A file is a
  list of cells, \<open>None\<close> for a byte in a hole (it reads as NUL and takes no space). An operation that
  touches the disk returns, besides its result, the worlds it makes visible one after the other, so that a
  reader can be placed between any two of them; what the operating system answers is an argument.
\<close>

section \<open>The replay scanner\<close>

definition REPLAY_TAIL_ALIGNMENT_LOOKBACK_BYTES :: nat where "REPLAY_TAIL_ALIGNMENT_LOOKBACK_BYTES = 16 * 1024"
definition SESSION_OUTPUT_JOURNAL_CONTROL_SLACK_BYTES :: nat where "SESSION_OUTPUT_JOURNAL_CONTROL_SLACK_BYTES = 64 * 1024"
definition SESSION_OUTPUT_READ_BUFFER_BYTES :: nat where "SESSION_OUTPUT_READ_BUFFER_BYTES = 64 * 1024"
definition DEFAULT_OUTPUT_READ_BYTES :: nat where "DEFAULT_OUTPUT_READ_BYTES = 128 * 1024"
definition DEFAULT_OUTPUT_TAIL_BYTES :: nat where "DEFAULT_OUTPUT_TAIL_BYTES = 256 * 1024"

text \<open>The two top bits are 10.\<close>

definition is_utf8_continuation_byte :: "byte \<Rightarrow> bool" where
  "is_utf8_continuation_byte c \<longleftrightarrow> byte_val c div 64 = 2"

datatype replay_scan_state = RGround | REscape | REscapeIntermediate | RCsi | ROsc | ROscEscape
  | RDcs | RDcsEscape | RSosPmApc | RSosPmApcEscape

text \<open>What a byte does to \<open>last_boundary\<close>: nothing, moved to the byte, moved behind it.\<close>

datatype boundary_mark = Keep | AtByte | AfterByte

definition ESC_BYTE :: byte where "ESC_BYTE = CHR 0x1B"

text \<open>The byte behind an ESC inside a string: a backslash ends the string, anything else goes on with it.\<close>

definition string_step :: "replay_scan_state \<Rightarrow> byte \<Rightarrow> replay_scan_state \<times> boundary_mark" where
  "string_step inside c =
     (if c = CHR 0x5C then (RGround, AfterByte) else (inside, Keep))"

definition control_step :: "replay_scan_state \<Rightarrow> byte \<Rightarrow> replay_scan_state \<times> boundary_mark" where
  "control_step st c = (case st of
     RGround \<Rightarrow> (RGround, Keep)
   | REscape \<Rightarrow>
       if c = CHR ''['' then (RCsi, Keep)
       else if c = CHR '']'' then (ROsc, Keep)
       else if c = CHR ''P'' then (RDcs, Keep)
       else if c = CHR ''X'' \<or> c = CHR 0x5E \<or> c = CHR ''_'' then (RSosPmApc, Keep)
       else if 32 \<le> byte_val c \<and> byte_val c \<le> 47 then (REscapeIntermediate, Keep)
       else (RGround, AfterByte)
   | REscapeIntermediate \<Rightarrow>
       if 48 \<le> byte_val c \<and> byte_val c \<le> 126 then (RGround, AfterByte) else (REscapeIntermediate, Keep)
   | RCsi \<Rightarrow>
       if 64 \<le> byte_val c \<and> byte_val c \<le> 126 then (RGround, AfterByte) else (RCsi, Keep)
   | ROsc \<Rightarrow>
       if c = CHR 0x07 then (RGround, AfterByte) else if c = ESC_BYTE then (ROscEscape, Keep) else (ROsc, Keep)
   | ROscEscape \<Rightarrow> string_step ROsc c
   | RDcs \<Rightarrow> if c = ESC_BYTE then (RDcsEscape, Keep) else (RDcs, Keep)
   | RDcsEscape \<Rightarrow> string_step RDcs c
   | RSosPmApc \<Rightarrow> if c = ESC_BYTE then (RSosPmApcEscape, Keep) else (RSosPmApc, Keep)
   | RSosPmApcEscape \<Rightarrow> string_step RSosPmApc c)"

text \<open>The loop body that the two scans share, up to what they do in the ground state.\<close>

definition replay_step ::
  "(byte \<Rightarrow> replay_scan_state \<times> boundary_mark) \<Rightarrow> replay_scan_state \<Rightarrow> byte \<Rightarrow> replay_scan_state \<times> boundary_mark" where
  "replay_step ground st c =
     (if c = CHR 0x18 \<or> c = CHR 0x1A then (RGround, AfterByte)
      else if c = ESC_BYTE \<and> st \<in> {REscape, REscapeIntermediate, RCsi} then (REscape, AtByte)
      else if st = RGround then ground c
      else control_step st c)"

definition align_ground :: "byte \<Rightarrow> replay_scan_state \<times> boundary_mark" where
  "align_ground c =
     (if c = ESC_BYTE then (REscape, AtByte)
      else if c = CHR 0x0A \<or> c = CHR 0x0D then (RGround, AfterByte)
      else (RGround, Keep))"

definition retention_ground :: "byte \<Rightarrow> replay_scan_state \<times> boundary_mark" where
  "retention_ground c =
     (let at = (if is_utf8_continuation_byte c then Keep else AtByte) in
      if c = ESC_BYTE then (REscape, at)
      else if c = CHR 0x0A \<or> c = CHR 0x0D then (RGround, AfterByte)
      else (RGround, at))"

record replay_scan =
  sc_state :: replay_scan_state
  sc_last_boundary :: u64
  sc_absolute :: u64

definition replay_scan_byte ::
  "(byte \<Rightarrow> replay_scan_state \<times> boundary_mark) \<Rightarrow> replay_scan \<Rightarrow> byte \<Rightarrow> replay_scan" where
  "replay_scan_byte ground sc c =
     (case replay_step ground (sc_state sc) c of (st, m) \<Rightarrow>
       \<lparr>sc_state = st,
        sc_last_boundary = (case m of Keep \<Rightarrow> sc_last_boundary sc | AtByte \<Rightarrow> sc_absolute sc
                            | AfterByte \<Rightarrow> sc_absolute sc + 1),
        sc_absolute = sc_absolute sc + 1\<rparr>)"

section \<open>Files\<close>

type_synonym journal_file = "byte option list"

definition cell_byte :: "byte option \<Rightarrow> byte" where
  "cell_byte c = (case c of None \<Rightarrow> CHR 0x00 | Some b \<Rightarrow> b)"

text \<open>\<open>seek\<close> followed by \<open>read_exact\<close>.\<close>

definition read_exact :: "journal_file \<Rightarrow> u64 \<Rightarrow> nat \<Rightarrow> string option" where
  "read_exact f pos n =
     (if pos + n \<le> length f then Some (map cell_byte (take n (drop pos f))) else None)"

definition punch_output_hole :: "journal_file \<Rightarrow> u64 \<Rightarrow> u64 \<Rightarrow> journal_file" where
  "punch_output_hole f offset n = take offset f @ replicate (min n (length f - offset)) None @ drop (offset + n) f"

text \<open>Bytes of disk space the file takes.\<close>

definition allocated :: "journal_file \<Rightarrow> nat" where
  "allocated f = length (filter (\<lambda>c. c \<noteq> None) f)"

section \<open>Boundaries\<close>

datatype journal_error = SeekFailed | ReadFailed | StatFailed | SaveFailed | LengthMismatch | PunchFailed

definition align_replay_tail_start :: "journal_file \<Rightarrow> u64 \<Rightarrow> u64 \<Rightarrow> journal_error + u64" where
  "align_replay_tail_start f desired_start retained_from =
     (if desired_start \<le> retained_from then Inr retained_from
      else let scan_start = max (desired_start - REPLAY_TAIL_ALIGNMENT_LOOKBACK_BYTES) retained_from;
               scan_len = desired_start - scan_start
      in if scan_len = 0 then Inr desired_start
         else (case read_exact f scan_start scan_len of
             None \<Rightarrow> Inl ReadFailed
           | Some window \<Rightarrow>
               (let initial_index = length (takeWhile is_utf8_continuation_byte window);
                    sc = foldl (replay_scan_byte align_ground)
                           \<lparr>sc_state = RGround, sc_last_boundary = scan_start + initial_index,
                            sc_absolute = scan_start + initial_index\<rparr> (drop initial_index window)
                in Inr (min (sc_last_boundary sc) desired_start))))"

text \<open>The scan of the retention advance, a buffer at a time.\<close>

function retention_scan :: "journal_file \<Rightarrow> nat \<Rightarrow> replay_scan \<Rightarrow> journal_error + replay_scan" where
  "retention_scan f remaining sc =
     (if remaining = 0 then Inr sc
      else let want = min remaining SESSION_OUTPUT_READ_BUFFER_BYTES in
        (case read_exact f (sc_absolute sc) want of
           None \<Rightarrow> Inl ReadFailed
         | Some bs \<Rightarrow> retention_scan f (remaining - want) (foldl (replay_scan_byte retention_ground) sc bs)))"
  by pat_completeness auto
termination by (relation "measure (\<lambda>(_, remaining, _). remaining)") (auto simp: SESSION_OUTPUT_READ_BUFFER_BYTES_def)

declare retention_scan.simps [simp del]

text \<open>The last position of a non-continuation byte at or before \<open>relative\<close>, 0 if there is none.\<close>

fun back_to_start :: "string \<Rightarrow> nat \<Rightarrow> nat" where
  "back_to_start bs 0 = 0"
| "back_to_start bs (Suc n) = (if is_utf8_continuation_byte (bs ! Suc n) then back_to_start bs n else Suc n)"

definition forced_boundary :: "journal_file \<Rightarrow> u64 \<Rightarrow> u64 \<Rightarrow> journal_error + u64" where
  "forced_boundary f safe_start desired_start =
     (let scan_start = max (desired_start - 3) safe_start in
      case read_exact f scan_start (desired_start - scan_start + 1) of
        None \<Rightarrow> Inl ReadFailed
      | Some bs \<Rightarrow>
          (let relative = back_to_start bs (length bs - 1) in
           Inr (if is_utf8_continuation_byte (bs ! relative) then desired_start else scan_start + relative)))"

definition safe_output_retention_boundary :: "journal_file \<Rightarrow> u64 \<Rightarrow> u64 \<Rightarrow> journal_error + u64" where
  "safe_output_retention_boundary f safe_start desired_start =
     (if desired_start \<le> safe_start then Inr safe_start
      else rbind (retention_scan f (desired_start - safe_start)
              \<lparr>sc_state = RGround, sc_last_boundary = safe_start, sc_absolute = safe_start\<rparr>)
        (\<lambda>sc. let last_boundary = min (sc_last_boundary sc) desired_start in
           if desired_start - last_boundary \<le> SESSION_OUTPUT_JOURNAL_CONTROL_SLACK_BYTES then Inr last_boundary
           else forced_boundary f safe_start desired_start))"

section \<open>The sidecar and the writer\<close>

record output_retention_state =
  ors_version :: u32
  ors_retained_from :: u64

definition OUTPUT_RETENTION_VERSION :: u32 where "OUTPUT_RETENTION_VERSION = 1"

definition retention_at :: "u64 \<Rightarrow> output_retention_state" where
  "retention_at retained_from = \<lparr>ors_version = OUTPUT_RETENTION_VERSION, ors_retained_from = retained_from\<rparr>"

text \<open>The two files of a session; the sidecar is \<open>None\<close> when it is missing or does not parse.\<close>

record journal_world =
  jw_file :: journal_file
  jw_sidecar :: "output_retention_state option"

definition read_output_retention_path :: "journal_world \<Rightarrow> u64" where
  "read_output_retention_path w = (case jw_sidecar w of
     Some s \<Rightarrow> if ors_version s = OUTPUT_RETENTION_VERSION then ors_retained_from s else 0
   | None \<Rightarrow> 0)"

text \<open>How a save ends: on disk; renamed into place but the directory could not be synced, which is reported as a failure;
  or failed before the rename, which leaves the old sidecar.\<close>

datatype save_outcome = Saved | SavedUnsynced | NotSaved

definition save_output_retention_path :: "save_outcome \<Rightarrow> u64 \<Rightarrow> journal_world \<Rightarrow> journal_world \<times> bool" where
  "save_output_retention_path outcome retained_from w =
     (case outcome of
        Saved \<Rightarrow> (w\<lparr>jw_sidecar := Some (retention_at retained_from)\<rparr>, True)
      | SavedUnsynced \<Rightarrow> (w\<lparr>jw_sidecar := Some (retention_at retained_from)\<rparr>, False)
      | NotSaved \<Rightarrow> (w, False))"

record retained_output_writer =
  rw_retained_from :: u64
  rw_retain_bytes :: u64
  rw_advance_bytes :: u64
  rw_next_retention_check_at :: u64
  rw_retention_disabled :: bool

text \<open>What the operating system answers during one write: the bytes it accepts, whether the file can be inspected and scanned, its block
  size, how the two saves end and whether the hole can be punched.\<close>

record write_env =
  we_accepts :: nat
  we_stat_ok :: bool
  we_io_ok :: bool
  we_blksize :: nat
  we_save :: save_outcome
  we_punch_ok :: bool
  we_restore :: save_outcome

definition writer_new :: "save_outcome \<Rightarrow> u64 \<Rightarrow> u64 \<Rightarrow> u64 \<Rightarrow> journal_world
    \<Rightarrow> (journal_error + retained_output_writer) \<times> journal_world list" where
  "writer_new outcome initial_offset retain_bytes advance_bytes w =
     (case save_output_retention_path outcome initial_offset w of (w1, ok) \<Rightarrow>
        if \<not> ok then (Inl SaveFailed, [w1])
        else (Inr \<lparr>rw_retained_from = initial_offset,
                   rw_retain_bytes = max retain_bytes 1,
                   rw_advance_bytes = max advance_bytes 1,
                   rw_next_retention_check_at =
                     saturating_add64 (saturating_add64 initial_offset (max retain_bytes 1)) (max advance_bytes 1),
                   rw_retention_disabled = False\<rparr>,
              [w1, w1\<lparr>jw_file := []\<rparr>, w1\<lparr>jw_file := replicate initial_offset None\<rparr>]))"

definition writer_reopen :: "u64 \<Rightarrow> u64 \<Rightarrow> u64 \<Rightarrow> journal_world \<Rightarrow> journal_error + retained_output_writer" where
  "writer_reopen next_offset retain_bytes advance_bytes w =
     (if length (jw_file w) \<noteq> next_offset then Inl LengthMismatch
      else Inr \<lparr>rw_retained_from = min (read_output_retention_path w) next_offset,
                rw_retain_bytes = max retain_bytes 1,
                rw_advance_bytes = max advance_bytes 1,
                rw_next_retention_check_at =
                  saturating_add64 (saturating_add64 next_offset (max retain_bytes 1)) (max advance_bytes 1),
                rw_retention_disabled = False\<rparr>)"

text \<open>The punch and what follows it, once the new floor is published.\<close>

definition punch_published ::
  "write_env \<Rightarrow> retained_output_writer \<Rightarrow> u64 \<Rightarrow> u64 \<Rightarrow> u64 \<Rightarrow> journal_world
     \<Rightarrow> retained_output_writer \<times> journal_world list" where
  "punch_published env wr next_retained_from punch_start punch_end w =
     (if we_punch_ok env
      then (wr\<lparr>rw_retained_from := next_retained_from,
               rw_next_retention_check_at :=
                 saturating_add64 (saturating_add64 next_retained_from (rw_retain_bytes wr)) (rw_advance_bytes wr)\<rparr>,
            [w\<lparr>jw_file := punch_output_hole (jw_file w) punch_start (punch_end - punch_start)\<rparr>])
      else (wr\<lparr>rw_retention_disabled := True\<rparr>,
            [fst (save_output_retention_path (we_restore env) (rw_retained_from wr) w)]))"

definition maybe_advance_retention ::
  "write_env \<Rightarrow> retained_output_writer \<Rightarrow> journal_world
     \<Rightarrow> (journal_error + unit) \<times> retained_output_writer \<times> journal_world list" where
  "maybe_advance_retention env wr w =
     (let logical_end = length (jw_file w) in
      if rw_retention_disabled wr then (Inr (), wr, [])
      else if \<not> we_stat_ok env then (Inl StatFailed, wr, [])
      else if logical_end < rw_next_retention_check_at wr then (Inr (), wr, [])
      else
        let wr1 = wr\<lparr>rw_next_retention_check_at := saturating_add64 logical_end (rw_advance_bytes wr)\<rparr>;
            block_size = max (we_blksize env) 1;
            desired = logical_end - rw_retain_bytes wr
        in if \<not> we_io_ok env then (Inl ReadFailed, wr1, [])
        else (case safe_output_retention_boundary (jw_file w) (rw_retained_from wr) desired of
           Inl e \<Rightarrow> (Inl e, wr1, [])
         | Inr next_retained_from \<Rightarrow>
             if next_retained_from \<le> rw_retained_from wr then (Inr (), wr1, [])
             else let punch_start = rw_retained_from wr - rw_retained_from wr mod block_size;
                      punch_end = next_retained_from - next_retained_from mod block_size
             in if punch_end \<le> punch_start then (Inr (), wr1, [])
             else (case save_output_retention_path (we_save env) next_retained_from w of (w1, ok) \<Rightarrow>
               if \<not> ok then (Inl SaveFailed, wr1, [w1])
               else (case punch_published env wr1 next_retained_from punch_start punch_end w1 of
                 (wr2, ws) \<Rightarrow> (Inr (), wr2, w1 # ws)))))"

text \<open>\<open>Write::write\<close>: the bytes the file accepts are appended, then retention runs; a retention error
  turns retention off.\<close>

definition writer_write ::
  "write_env \<Rightarrow> string \<Rightarrow> retained_output_writer \<Rightarrow> journal_world
     \<Rightarrow> nat \<times> retained_output_writer \<times> journal_world list" where
  "writer_write env bs wr w =
     (let written = min (we_accepts env) (length bs);
          w1 = w\<lparr>jw_file := jw_file w @ map Some (take written bs)\<rparr>
      in if written = 0 then (0, wr, [])
         else (case maybe_advance_retention env wr w1 of
             (Inr _, wr1, ws) \<Rightarrow> (written, wr1, w1 # ws)
           | (Inl _, wr1, ws) \<Rightarrow> (written, wr1\<lparr>rw_retention_disabled := True\<rparr>, w1 # ws)))"

text \<open>A session of writes: the writer and the last world, with every world made visible on the way.\<close>

fun writer_run ::
  "(write_env \<times> string) list \<Rightarrow> retained_output_writer \<Rightarrow> journal_world
     \<Rightarrow> retained_output_writer \<times> journal_world list" where
  "writer_run [] wr w = (wr, [w])"
| "writer_run ((env, bs) # ops) wr w =
     (case writer_write env bs wr w of (_, wr1, ws) \<Rightarrow>
        case writer_run ops wr1 (last (w # ws)) of (wr2, ws') \<Rightarrow> (wr2, (w # ws) @ ws'))"

text \<open>The compaction of the journal of a stopped session, which has no writer; \<open>None\<close> is a path that is not
  a regular file.\<close>

definition compact_output_journal_path ::
  "write_env \<Rightarrow> bool \<Rightarrow> u64 \<Rightarrow> journal_world \<Rightarrow> (journal_error + u64 option) \<times> journal_world list" where
  "compact_output_journal_path env is_file retain_bytes w =
     (let logical_end = length (jw_file w);
          retained_from = min (read_output_retention_path w) logical_end;
          desired = logical_end - retain_bytes;
          block_size = max (we_blksize env) 1
      in if \<not> is_file then (Inr None, [])
      else if \<not> we_stat_ok env then (Inl StatFailed, [])
      else if logical_end - retained_from \<le> retain_bytes then (Inr None, [])
      else if \<not> we_io_ok env then (Inl ReadFailed, [])
      else (case safe_output_retention_boundary (jw_file w) retained_from desired of
          Inl e \<Rightarrow> (Inl e, [])
        | Inr next_retained_from \<Rightarrow>
            if next_retained_from \<le> retained_from then (Inr None, [])
            else let punch_start = retained_from - retained_from mod block_size;
                     punch_end = next_retained_from - next_retained_from mod block_size
            in if punch_end \<le> punch_start then (Inr None, [])
            else (case save_output_retention_path (we_save env) next_retained_from w of (w1, ok) \<Rightarrow>
              if \<not> ok then (Inl SaveFailed, [w1])
              else if we_punch_ok env
              then (Inr (Some (next_retained_from - retained_from)),
                    [w1, w1\<lparr>jw_file := punch_output_hole (jw_file w1) punch_start (punch_end - punch_start)\<rparr>])
              else (Inl PunchFailed, [w1, fst (save_output_retention_path (we_restore env) retained_from w1)]))))"

section \<open>The reader\<close>

record session_output_chunk =
  oc_data :: string
  oc_next_offset :: u64
  oc_exited :: bool
  oc_exists :: bool

text \<open>What the system calls of one attempt see, in the order of the calls: whether the file exists, its
  length, the floor, the bytes for the alignment, the bytes of the sample, the health of the
  manifest (present, and exited or not), the length again, if the call succeeds, and the floor again.\<close>

record read_view =
  rv_exists :: bool
  rv_len :: journal_world
  rv_floor :: journal_world
  rv_align :: journal_world
  rv_data :: journal_world
  rv_health :: "bool option"
  rv_stat2 :: bool
  rv_len2 :: journal_world
  rv_floor2 :: journal_world

definition exited_in :: "bool option \<Rightarrow> bool" where
  "exited_in health = (case health of Some e \<Rightarrow> e | None \<Rightarrow> False)"

text \<open>Where a read starts and how much it may return: at the requested offset when that is still
  retained, and otherwise at a boundary near the tail, with the bytes of the alignment on top of the limit.\<close>

definition read_start :: "u64 option \<Rightarrow> nat \<Rightarrow> nat \<Rightarrow> u64 \<Rightarrow> u64 \<Rightarrow> journal_file \<Rightarrow> journal_error + u64 \<times> u64" where
  "read_start offset read_limit tail file_len retained_from f =
     (let explicit_offset_is_retained =
            (case offset of Some requested \<Rightarrow> retained_from \<le> requested \<and> requested \<le> file_len | None \<Rightarrow> False);
          desired_start = (if file_len > tail then max (file_len - tail) retained_from else retained_from)
      in if explicit_offset_is_retained then Inr (the offset, read_limit)
         else rbind (align_replay_tail_start f desired_start retained_from)
                (\<lambda>start. Inr (start, saturating_add64 read_limit (desired_start - start))))"

datatype read_sample = Sample session_output_chunk | Overtaken u64 bool

definition newest_file_len :: "read_view \<Rightarrow> nat" where
  "newest_file_len v = (if rv_stat2 v then length (jw_file (rv_len2 v)) else length (jw_file (rv_len v)))"

definition read_attempt ::
  "u64 option \<Rightarrow> nat option \<Rightarrow> nat option \<Rightarrow> read_view \<Rightarrow> journal_error + read_sample" where
  "read_attempt offset max_bytes tail_bytes v =
     (if \<not> rv_exists v
      then Inr (Sample \<lparr>oc_data = [], oc_next_offset = (case offset of Some n \<Rightarrow> n | None \<Rightarrow> 0),
                        oc_exited = exited_in (rv_health v), oc_exists = rv_health v \<noteq> None\<rparr>)
      else
        let file_len = length (jw_file (rv_len v));
            retained_from = min (read_output_retention_path (rv_floor v)) file_len;
            read_limit = (case max_bytes of Some n \<Rightarrow> n | None \<Rightarrow> DEFAULT_OUTPUT_READ_BYTES);
            tail = (case tail_bytes of Some n \<Rightarrow> n | None \<Rightarrow> DEFAULT_OUTPUT_TAIL_BYTES)
        in rbind (read_start offset read_limit tail file_len retained_from (jw_file (rv_align v)))
          (\<lambda>(aligned, effective_read_limit).
            let start = min aligned file_len;
                to_read = min effective_read_limit (file_len - start)
            in rbind (ok_or ReadFailed (read_exact (jw_file (rv_data v)) start to_read))
              (\<lambda>data.
                let newest_retained_from = min (read_output_retention_path (rv_floor2 v)) (newest_file_len v)
                in Inr (if start < newest_retained_from
                        then Overtaken newest_retained_from (exited_in (rv_health v))
                        else Sample \<lparr>oc_data = data, oc_next_offset = start + length data,
                                     oc_exited = exited_in (rv_health v), oc_exists = True\<rparr>))))"

text \<open>An overtaken sample is thrown away; after the last retry the answer is empty and rebased to the newest floor. The view
  of an attempt is indexed by the retries it has left.\<close>

fun read_output_chunk_with_retries ::
  "u64 option \<Rightarrow> nat option \<Rightarrow> nat option \<Rightarrow> (nat \<Rightarrow> read_view) \<Rightarrow> nat \<Rightarrow> journal_error + session_output_chunk" where
  "read_output_chunk_with_retries offset max_bytes tail_bytes views retries =
     rbind (read_attempt offset max_bytes tail_bytes (views retries))
       (\<lambda>r. case r of
          Sample chunk \<Rightarrow> Inr chunk
        | Overtaken newest exited \<Rightarrow>
            (case retries of
               Suc k \<Rightarrow> read_output_chunk_with_retries offset max_bytes tail_bytes views k
             | 0 \<Rightarrow> Inr \<lparr>oc_data = [], oc_next_offset = newest, oc_exited = exited, oc_exists = True\<rparr>))"

declare read_output_chunk_with_retries.simps [simp del]

definition read_output_chunk ::
  "u64 option \<Rightarrow> nat option \<Rightarrow> nat option \<Rightarrow> (nat \<Rightarrow> read_view) \<Rightarrow> journal_error + session_output_chunk" where
  "read_output_chunk offset max_bytes tail_bytes views =
     read_output_chunk_with_retries offset max_bytes tail_bytes views 3"

end
