(* ===== verification/Output_Journal_Facts.thy ===== *)
theory Output_Journal_Facts
  imports Output_Journal
begin

text \<open>
  Facts about the output journal: what the two boundary scans return, the invariant of the file, its sidecar and its writer over every
  sequence of writes, and the bound on the space the file takes.
\<close>

section \<open>The scanner\<close>

text \<open>The parser state behind a stretch of output that starts at a ground position.\<close>

definition replay_state :: "string \<Rightarrow> replay_scan_state" where
  "replay_state bs = foldl (\<lambda>st c. fst (replay_step retention_ground st c)) RGround bs"

definition ground_ok :: "(byte \<Rightarrow> replay_scan_state \<times> boundary_mark) \<Rightarrow> bool" where
  "ground_ok g \<longleftrightarrow> (\<forall>c. fst (g c) = fst (retention_ground c) \<and> (snd (g c) = AfterByte \<longrightarrow> fst (g c) = RGround))"

lemma ground_ok_align [simp]: "ground_ok align_ground"
  and ground_ok_retention [simp]: "ground_ok retention_ground"
  by (auto simp: ground_ok_def align_ground_def retention_ground_def Let_def)

lemma replay_step_fst: "ground_ok g \<Longrightarrow> fst (replay_step g st c) = fst (replay_step retention_ground st c)"
  by (auto simp: replay_step_def ground_ok_def)

lemma control_step_after: "control_step st c = (st', AfterByte) \<Longrightarrow> st' = RGround"
  by (auto simp: control_step_def string_step_def split: replay_scan_state.splits if_splits)

lemma control_step_not_at [simp]: "control_step st c \<noteq> (st', AtByte)"
  by (auto simp: control_step_def string_step_def split: replay_scan_state.splits if_splits)

lemma replay_step_after:
  assumes "ground_ok g" and "replay_step g st c = (st', AfterByte)" shows "st' = RGround"
proof -
  have "g c = (st', AfterByte) \<Longrightarrow> st' = RGround"
    using assms(1) by (metis fst_conv ground_ok_def snd_conv)
  then show ?thesis
    using assms(2) control_step_after by (auto simp: replay_step_def split: if_splits)
qed

text \<open>A boundary at a byte restarts the scan there: from the ground state the byte leads to the same state.\<close>

lemma replay_step_at:
  assumes g: "ground_ok g" and s: "replay_step g st c = (st', AtByte)"
  shows "st' = fst (replay_step g RGround c)"
proof -
  have e: "fst (g ESC_BYTE) = REscape"
    using g by (simp add: ground_ok_def retention_ground_def)
  show ?thesis
    using s by (auto simp: replay_step_def ESC_BYTE_def [symmetric] e split: if_splits)
qed

lemma replay_state_snoc: "replay_state (bs @ [c]) = fst (replay_step retention_ground (replay_state bs) c)"
  by (simp add: replay_state_def)

lemma replay_state_Nil [simp]: "replay_state [] = RGround"
  by (simp add: replay_state_def)

definition scan_from :: "u64 \<Rightarrow> replay_scan" where
  "scan_from a = \<lparr>sc_state = RGround, sc_last_boundary = a, sc_absolute = a\<rparr>"

lemma scan_from_sel [simp]:
  "sc_state (scan_from a) = RGround" "sc_last_boundary (scan_from a) = a" "sc_absolute (scan_from a) = a"
  by (simp_all add: scan_from_def)

lemma scan_absolute [simp]: "sc_absolute (foldl (replay_scan_byte g) sc bs) = sc_absolute sc + length bs"
  by (induction bs arbitrary: sc) (auto simp: replay_scan_byte_def split: prod.splits)

text \<open>The invariant of a scan: its state is the parser state, and a replay from its boundary reaches that state too.\<close>

lemma scan_inv:
  assumes "ground_ok g"
  shows "sc_state (foldl (replay_scan_byte g) (scan_from a) bs) = replay_state bs \<and>
         a \<le> sc_last_boundary (foldl (replay_scan_byte g) (scan_from a) bs) \<and>
         sc_last_boundary (foldl (replay_scan_byte g) (scan_from a) bs) \<le> a + length bs \<and>
         replay_state (drop (sc_last_boundary (foldl (replay_scan_byte g) (scan_from a) bs) - a) bs) = replay_state bs"
proof (induction bs rule: rev_induct)
  case (snoc c bs)
  define sc where "sc = foldl (replay_scan_byte g) (scan_from a) bs"
  obtain st m where stm: "replay_step g (replay_state bs) c = (st, m)" by (cases "replay_step g (replay_state bs) c")
  have IH: "sc_state sc = replay_state bs" "a \<le> sc_last_boundary sc" "sc_last_boundary sc \<le> a + length bs"
    "replay_state (drop (sc_last_boundary sc - a) bs) = replay_state bs"
    using snoc by (simp_all add: sc_def)
  have abs: "sc_absolute sc = a + length bs" by (simp add: sc_def)
  have next_state: "replay_state (bs @ [c]) = st"
    using replay_step_fst [OF assms, of "replay_state bs" c] stm by (simp add: replay_state_snoc)
  have sc': "replay_scan_byte g sc c = \<lparr>sc_state = st,
      sc_last_boundary = (case m of Keep \<Rightarrow> sc_last_boundary sc | AtByte \<Rightarrow> a + length bs | AfterByte \<Rightarrow> a + length bs + 1),
      sc_absolute = a + length bs + 1\<rparr>"
    using stm IH(1) abs by (simp add: replay_scan_byte_def split: boundary_mark.split)
  have replay: "replay_state (drop (sc_last_boundary (replay_scan_byte g sc c) - a) (bs @ [c])) = st"
  proof (cases m)
    case Keep
    have "drop (sc_last_boundary sc - a) (bs @ [c]) = drop (sc_last_boundary sc - a) bs @ [c]"
      using IH(2,3) by simp
    then show ?thesis using Keep sc' IH(4) next_state by (simp add: replay_state_snoc)
  next
    case AtByte
    then have "st = fst (replay_step g RGround c)" using replay_step_at [OF assms] stm by simp
    then show ?thesis using AtByte sc' replay_step_fst [OF assms, of RGround c]
      by (simp add: replay_state_def)
  next
    case AfterByte
    then show ?thesis using sc' replay_step_after [OF assms, of "replay_state bs" c st] stm by simp
  qed
  have "a \<le> sc_last_boundary (replay_scan_byte g sc c) \<and> sc_last_boundary (replay_scan_byte g sc c) \<le> a + length (bs @ [c])"
    using IH(2,3) sc' by (cases m) simp_all
  then show ?case using replay next_state sc' by (simp add: sc_def [symmetric])
qed simp

section \<open>Reads\<close>

lemma read_exact_Some:
  "read_exact f pos n = Some bs \<longleftrightarrow> pos + n \<le> length f \<and> bs = map cell_byte (take n (drop pos f))"
  by (auto simp: read_exact_def)

lemma read_exact_length: "read_exact f pos n = Some bs \<Longrightarrow> length bs = n"
  by (auto simp: read_exact_Some)

lemma read_exact_nth: "read_exact f pos n = Some bs \<Longrightarrow> i < n \<Longrightarrow> bs ! i = cell_byte (f ! (pos + i))"
  by (auto simp: read_exact_Some)

lemma read_exact_split:
  "k \<le> n \<Longrightarrow> read_exact f pos n = Some bs \<Longrightarrow>
     read_exact f pos k = Some (take k bs) \<and> read_exact f (pos + k) (n - k) = Some (drop k bs)"
  by (auto simp: read_exact_Some take_map drop_map min_def drop_take add.commute)

text \<open>The buffered scan reads the stretch as a whole.\<close>

lemma retention_scan_fold:
  "read_exact f (sc_absolute sc) remaining = Some bs \<Longrightarrow>
     retention_scan f remaining sc = Inr (foldl (replay_scan_byte retention_ground) sc bs)"
proof (induction f remaining sc arbitrary: bs rule: retention_scan.induct)
  case (1 f remaining sc)
  show ?case
  proof (cases "remaining = 0")
    case True
    then show ?thesis using 1 by (simp add: retention_scan.simps read_exact_Some)
  next
    case False
    define want where "want = min remaining SESSION_OUTPUT_READ_BUFFER_BYTES"
    have reads: "read_exact f (sc_absolute sc) want = Some (take want bs)"
      "read_exact f (sc_absolute sc + want) (remaining - want) = Some (drop want bs)"
      using read_exact_split [OF _ "1.prems", of want] by (simp_all add: want_def)
    have "length (take want bs) = want" using read_exact_length [OF reads(1)] .
    then have "retention_scan f (remaining - want) (foldl (replay_scan_byte retention_ground) sc (take want bs))
        = Inr (foldl (replay_scan_byte retention_ground) sc bs)"
      using "1.IH" [OF False want_def reads(1), of "drop want bs"] reads(2)
      by (simp flip: foldl_append)
    then show ?thesis
      using False reads(1) by (subst retention_scan.simps) (simp add: want_def Let_def)
  qed
qed

lemma retention_scan_short:
  "length f < sc_absolute sc + remaining \<Longrightarrow> retention_scan f remaining sc = Inl ReadFailed \<or> remaining = 0"
proof (induction f remaining sc rule: retention_scan.induct)
  case (1 f remaining sc)
  then show ?case
    by (subst retention_scan.simps) (auto simp: Let_def read_exact_Some split: option.splits)
qed

section \<open>The boundaries\<close>

lemma retention_scan_Inr:
  assumes "retention_scan f n (scan_from a) = Inr sc" and "0 < n"
  obtains bs where "read_exact f a n = Some bs" and "sc = foldl (replay_scan_byte retention_ground) (scan_from a) bs"
proof (cases "read_exact f a n")
  case None
  then have "length f < a + n" by (simp add: read_exact_def split: if_splits)
  then show thesis using retention_scan_short [of f "scan_from a" n] assms by simp
next
  case (Some bs)
  then show thesis using retention_scan_fold [of f "scan_from a" n bs] assms(1) that by simp
qed

lemma back_to_start_le: "back_to_start bs n \<le> n"
  by (induction n) (auto intro: le_SucI)

lemma back_to_start_all:
  "is_utf8_continuation_byte (bs ! back_to_start bs n) \<Longrightarrow> i \<le> n \<Longrightarrow> is_utf8_continuation_byte (bs ! i)"
  by (induction n) (auto simp: le_Suc_eq split: if_splits)

lemma forced_boundary_bounds:
  assumes "forced_boundary f s d = Inr b" and "s < d"
  shows "s \<le> b \<and> b \<le> d \<and> d - b \<le> 3 \<and>
         (is_utf8_continuation_byte (cell_byte (f ! b)) \<longrightarrow>
            b = d \<and> (\<forall>i \<in> {max (d - 3) s..d}. is_utf8_continuation_byte (cell_byte (f ! i))))"
proof -
  define a where "a = max (d - 3) s"
  obtain bs where bs: "read_exact f a (d - a + 1) = Some bs"
    using assms(1) by (auto simp: forced_boundary_def Let_def a_def split: option.splits)
  define r where "r = back_to_start bs (length bs - 1)"
  have len: "length bs = d - a + 1" using read_exact_length [OF bs] .
  have a: "a \<le> d" "s \<le> a" "d - 3 \<le> a" using assms(2) by (auto simp: a_def)
  have r: "r \<le> d - a" using back_to_start_le [of bs "length bs - 1"] len by (simp add: r_def)
  have b: "b = (if is_utf8_continuation_byte (bs ! r) then d else a + r)"
    using assms(1) bs by (auto simp: forced_boundary_def Let_def a_def r_def)
  have nth: "bs ! i = cell_byte (f ! (a + i))" if "i \<le> d - a" for i
    using read_exact_nth [OF bs, of i] that by simp
  have all: "is_utf8_continuation_byte (cell_byte (f ! i))" if "is_utf8_continuation_byte (bs ! r)" "a \<le> i" "i \<le> d" for i
    using back_to_start_all [of bs "length bs - 1" "i - a"] nth [of "i - a"] that len by (simp add: r_def)
  show ?thesis
  proof (cases "is_utf8_continuation_byte (bs ! r)")
    case True
    then show ?thesis using a b all by (simp add: a_def)
  next
    case False
    then show ?thesis using a b r nth [of r] by auto
  qed
qed

text \<open>What the retention boundary is: a position from which a replay agrees with a replay from the old floor, or,
  when the last such position is too far back, the start of a character near the desired floor.\<close>

lemma retention_boundary_cases:
  assumes "safe_output_retention_boundary f s d = Inr b" and "s < d"
  obtains (safe) bs where "read_exact f s (d - s) = Some bs" and
      "b = sc_last_boundary (foldl (replay_scan_byte retention_ground) (scan_from s) bs)" and
      "s \<le> b" and "b \<le> d" and "d - b \<le> SESSION_OUTPUT_JOURNAL_CONTROL_SLACK_BYTES"
      and "replay_state (drop (b - s) bs) = replay_state bs"
    | (forced) "s \<le> b" and "b \<le> d" and "d - b \<le> 3" and "SESSION_OUTPUT_JOURNAL_CONTROL_SLACK_BYTES < d - s" and "d \<le> length f"
      and "is_utf8_continuation_byte (cell_byte (f ! b)) \<longrightarrow>
            b = d \<and> (\<forall>i \<in> {max (d - 3) s..d}. is_utf8_continuation_byte (cell_byte (f ! i)))"
      and "\<And>bs. read_exact f s (d - s) = Some bs \<Longrightarrow>
            SESSION_OUTPUT_JOURNAL_CONTROL_SLACK_BYTES < d - sc_last_boundary (foldl (replay_scan_byte retention_ground) (scan_from s) bs)"
proof -
  obtain sc where sc: "retention_scan f (d - s) (scan_from s) = Inr sc"
      and b: "(if d - min (sc_last_boundary sc) d \<le> SESSION_OUTPUT_JOURNAL_CONTROL_SLACK_BYTES
               then Inr (min (sc_last_boundary sc) d) else forced_boundary f s d) = Inr b"
    using assms by (auto simp: safe_output_retention_boundary_def rbind_Inr_iff scan_from_def [symmetric] Let_def)
  obtain bs where bs: "read_exact f s (d - s) = Some bs" and sc': "sc = foldl (replay_scan_byte retention_ground) (scan_from s) bs"
    using retention_scan_Inr [OF sc] assms(2) by auto
  have len: "length bs = d - s" using read_exact_length [OF bs] .
  have inv: "s \<le> sc_last_boundary sc" "sc_last_boundary sc \<le> d"
      "replay_state (drop (sc_last_boundary sc - s) bs) = replay_state bs"
    using scan_inv [OF ground_ok_retention, of s bs] len assms(2) by (auto simp: sc')
  show thesis
  proof (cases "d - sc_last_boundary sc \<le> SESSION_OUTPUT_JOURNAL_CONTROL_SLACK_BYTES")
    case True
    then have "b = sc_last_boundary sc" using b inv(2) by simp
    then show thesis using safe [OF bs] inv True by (simp add: sc')
  next
    case False
    then have "forced_boundary f s d = Inr b" using b inv(2) by simp
    moreover have "SESSION_OUTPUT_JOURNAL_CONTROL_SLACK_BYTES < d - s" using False inv(1) by linarith
    moreover have "d \<le> length f" using bs assms(2) by (simp add: read_exact_Some)
    moreover have "SESSION_OUTPUT_JOURNAL_CONTROL_SLACK_BYTES < d - sc_last_boundary (foldl (replay_scan_byte retention_ground) (scan_from s) bs')"
      if "read_exact f s (d - s) = Some bs'" for bs'
      using that bs False by (simp add: sc')
    ultimately show thesis using forced forced_boundary_bounds [of f s d b] assms(2) by blast
  qed
qed

lemma retention_boundary_reads:
  assumes "safe_output_retention_boundary f s d = Inr b" and "s < d"
  obtains bs where "read_exact f s (d - s) = Some bs"
  using assms by (cases rule: retention_boundary_cases) (auto simp: read_exact_def)

lemma retention_boundary_bounds:
  assumes "safe_output_retention_boundary f s d = Inr b"
  shows "s \<le> b" and "b \<le> max s d" and "d - b \<le> SESSION_OUTPUT_JOURNAL_CONTROL_SLACK_BYTES"
proof -
  have "s \<le> b \<and> b \<le> max s d \<and> d - b \<le> SESSION_OUTPUT_JOURNAL_CONTROL_SLACK_BYTES"
  proof (cases "s < d")
    case True
    from assms True show ?thesis
      by (cases rule: retention_boundary_cases) (auto simp: SESSION_OUTPUT_JOURNAL_CONTROL_SLACK_BYTES_def)
  next
    case False
    then show ?thesis using assms by (auto simp: safe_output_retention_boundary_def)
  qed
  then show "s \<le> b" and "b \<le> max s d" and "d - b \<le> SESSION_OUTPUT_JOURNAL_CONTROL_SLACK_BYTES" by auto
qed

lemma retention_boundary_short:
  assumes "read_exact f s (d - s) = Some bs" and "s < d" and "d - s \<le> SESSION_OUTPUT_JOURNAL_CONTROL_SLACK_BYTES"
  shows "safe_output_retention_boundary f s d = Inr (sc_last_boundary (foldl (replay_scan_byte retention_ground) (scan_from s) bs))"
proof -
  have "s \<le> sc_last_boundary (foldl (replay_scan_byte retention_ground) (scan_from s) bs)"
      "sc_last_boundary (foldl (replay_scan_byte retention_ground) (scan_from s) bs) \<le> d"
    using scan_inv [OF ground_ok_retention, of s bs] read_exact_length [OF assms(1)] assms(2) by auto
  moreover from this have "d - sc_last_boundary (foldl (replay_scan_byte retention_ground) (scan_from s) bs) \<le> SESSION_OUTPUT_JOURNAL_CONTROL_SLACK_BYTES"
    using assms(3) by linarith
  ultimately show ?thesis
    using retention_scan_fold [of f "scan_from s" "d - s" bs] assms
    by (simp add: safe_output_retention_boundary_def scan_from_def [symmetric] Let_def)
qed

section \<open>Characters at the boundary\<close>

lemma is_utf8_continuation_byte_iff: "is_utf8_continuation_byte c \<longleftrightarrow> utf8_cont c"
  by (auto simp: is_utf8_continuation_byte_def utf8_cont_def)

lemma utf8_second_cont: "utf8_second n c \<Longrightarrow> utf8_cont c"
  by (auto simp: utf8_second_def utf8_cont_def split: if_splits)

text \<open>A non-empty valid string starts with one character: a lead byte and at most three continuation bytes.\<close>

lemma utf8_valid_head:
  assumes "utf8_valid xs" and "xs \<noteq> []"
  obtains a cs t where "xs = a # cs @ t" and "utf8_valid t" and "\<forall>c \<in> set cs. utf8_cont c" and "length cs \<le> 3"
    and "\<not> utf8_cont a" and "cs \<noteq> [] \<longrightarrow> 128 \<le> byte_val a"
proof -
  obtain a s where xs: "xs = a # s" using assms(2) by (cases xs) auto
  have a: "\<not> utf8_cont a"
    using assms(1) by (auto simp: xs utf8_cont_def Let_def split: if_splits)
  have v: "if byte_val a < 128 then utf8_valid s
      else if 194 \<le> byte_val a \<and> byte_val a \<le> 223 then (case s of b # r \<Rightarrow> utf8_cont b \<and> utf8_valid r | _ \<Rightarrow> False)
      else if 224 \<le> byte_val a \<and> byte_val a \<le> 239 then
        (case s of b # c # r \<Rightarrow> utf8_second (byte_val a) b \<and> utf8_cont c \<and> utf8_valid r | _ \<Rightarrow> False)
      else if 240 \<le> byte_val a \<and> byte_val a \<le> 244 then
        (case s of b # c # d # r \<Rightarrow>
           utf8_second (byte_val a) b \<and> utf8_cont c \<and> utf8_cont d \<and> utf8_valid r | _ \<Rightarrow> False)
      else False"
    using assms(1) by (simp only: xs utf8_valid.simps Let_def)
  consider "byte_val a < 128" | "194 \<le> byte_val a" "byte_val a \<le> 223"
    | "224 \<le> byte_val a" "byte_val a \<le> 239" | "240 \<le> byte_val a" "byte_val a \<le> 244"
    using v by (auto simp del: utf8_valid.simps split: if_splits)
  then have "\<exists>cs t. s = cs @ t \<and> utf8_valid t \<and> (\<forall>c \<in> set cs. utf8_cont c) \<and> length cs \<le> 3 \<and> (cs \<noteq> [] \<longrightarrow> 128 \<le> byte_val a)"
  proof cases
    case 1
    then show ?thesis using v by (intro exI [of _ "[]"] exI [of _ s]) simp
  next
    case 2
    then obtain b r where "s = b # r" "utf8_cont b" "utf8_valid r"
      using v by (cases s) (auto simp del: utf8_valid.simps)
    then show ?thesis using 2 by (intro exI [of _ "[b]"] exI [of _ r]) simp
  next
    case 3
    then obtain b c r where "s = b # c # r" "utf8_cont b" "utf8_cont c" "utf8_valid r"
      using v utf8_second_cont by (cases s; cases "tl s") (auto simp del: utf8_valid.simps)
    then show ?thesis using 3 by (intro exI [of _ "[b, c]"] exI [of _ r]) simp
  next
    case 4
    then obtain b c d r where "s = b # c # d # r" "utf8_cont b" "utf8_cont c" "utf8_cont d" "utf8_valid r"
      using v utf8_second_cont by (cases s; cases "tl s"; cases "tl (tl s)") (auto simp del: utf8_valid.simps)
    then show ?thesis using 4 by (intro exI [of _ "[b, c, d]"] exI [of _ r]) simp
  qed
  then show thesis using that a xs by blast
qed

lemma utf8_cont_follows:
  "utf8_valid xs \<Longrightarrow> i < length xs \<Longrightarrow> utf8_cont (xs ! i) \<Longrightarrow> 0 < i \<and> 128 \<le> byte_val (xs ! (i - 1))"
proof (induction xs arbitrary: i rule: length_induct)
  case (1 xs)
  then have "xs \<noteq> []" by auto
  then obtain a cs t where h: "xs = a # cs @ t" "utf8_valid t" "\<forall>c \<in> set cs. utf8_cont c" "\<not> utf8_cont a"
      "cs \<noteq> [] \<longrightarrow> 128 \<le> byte_val a"
    using utf8_valid_head [OF "1.prems"(1)] by metis
  show ?case
  proof (cases "i \<le> length cs")
    case True
    have "0 < i" using h(1,4) "1.prems"(3) by (cases i) auto
    show ?thesis
    proof (cases "i - 1")
      case 0
      then show ?thesis using \<open>0 < i\<close> True h(1,5) by (cases cs) auto
    next
      case (Suc j)
      then have "utf8_cont (cs ! j)" "j < length cs" using h(3) True by simp_all
      then show ?thesis using Suc \<open>0 < i\<close> h(1) by (simp add: nth_append utf8_cont_def)
    qed
  next
    case False
    then obtain j where j: "i = Suc (length cs + j)" using less_imp_Suc_add [of "length cs" i] by auto
    then have "0 < j \<and> 128 \<le> byte_val (t ! (j - 1))"
      using "1.IH" [rule_format, of t j] h(1,2) "1.prems"(2,3) by (simp add: nth_append)
    then show ?thesis using j h(1) by (cases j) (auto simp: nth_append)
  qed
qed

lemma utf8_cont_run:
  "utf8_valid xs \<Longrightarrow> i + 3 < length xs \<Longrightarrow> \<exists>j \<in> {i..i + 3}. \<not> utf8_cont (xs ! j)"
proof (induction xs arbitrary: i rule: length_induct)
  case (1 xs)
  then have "xs \<noteq> []" by auto
  then obtain a cs t where h: "xs = a # cs @ t" "utf8_valid t" "length cs \<le> 3" "\<not> utf8_cont a"
    using utf8_valid_head [OF "1.prems"(1)] by metis
  consider "i = 0" | "0 < i" "i \<le> length cs" | j where "i = Suc (length cs + j)"
    using less_imp_Suc_add [of "length cs" i] by (cases "i = 0"; cases "i \<le> length cs") auto
  then show ?case
  proof cases
    case 1
    then show ?thesis using h by (intro bexI [of _ 0]) auto
  next
    case 2
    then have t: "0 < length t" using "1.prems"(2) h(1,3) by auto
    then have "\<not> utf8_cont (xs ! Suc (length cs))"
      using utf8_cont_follows [OF h(2), of 0] h(1) by (auto simp: nth_append)
    then show ?thesis using 2 h(3) by (intro bexI [of _ "Suc (length cs)"]) auto
  next
    case (3 j)
    then obtain k where k: "k \<in> {j..j + 3}" "\<not> utf8_cont (t ! k)"
      using "1.IH" [rule_format, of t j] h(1,2) "1.prems"(2) by auto
    then show ?thesis using 3 h(1)
      by (intro bexI [of _ "Suc (length cs + k)"]) (auto simp: nth_append)
  qed
qed

lemma replay_state_REscape: "replay_state bs = REscape \<Longrightarrow> bs \<noteq> [] \<and> last bs = ESC_BYTE"
proof (induction bs rule: rev_induct)
  case (snoc c bs)
  then show ?case
    by (auto simp: replay_state_snoc replay_step_def retention_ground_def control_step_def string_step_def Let_def
        split: if_splits replay_scan_state.splits)
qed simp

lemma after_mark_ascii:
  "replay_step retention_ground st c = (st', AfterByte) \<Longrightarrow> byte_val c < 128 \<or> st = REscape"
  by (auto simp: replay_step_def retention_ground_def control_step_def string_step_def Let_def byte_val_def ESC_BYTE_def
      split: if_splits replay_scan_state.splits)

lemma at_mark_start:
  "replay_step retention_ground st c = (st', AtByte) \<Longrightarrow> \<not> is_utf8_continuation_byte c"
  by (auto simp: replay_step_def retention_ground_def Let_def ESC_BYTE_def is_utf8_continuation_byte_def byte_val_def
      split: if_splits)

text \<open>A scanned boundary is the start of the scan, a byte that starts a character, or the position behind an ASCII byte
  or behind the byte that follows an ESC.\<close>

lemma scan_boundary_start:
  fixes a bs
  defines "k \<equiv> sc_last_boundary (foldl (replay_scan_byte retention_ground) (scan_from a) bs) - a"
  shows "k = 0 \<or> (k < length bs \<and> \<not> is_utf8_continuation_byte (bs ! k)) \<or> byte_val (bs ! (k - 1)) < 128
         \<or> (2 \<le> k \<and> bs ! (k - 2) = ESC_BYTE)"
  unfolding k_def
proof (induction bs rule: rev_induct)
  case (snoc c bs)
  define sc where "sc = foldl (replay_scan_byte retention_ground) (scan_from a) bs"
  have inv: "sc_state sc = replay_state bs" "a \<le> sc_last_boundary sc" "sc_last_boundary sc \<le> a + length bs"
      "sc_absolute sc = a + length bs"
    using scan_inv [OF ground_ok_retention, of a bs] by (simp_all add: sc_def)
  obtain st m where stm: "replay_step retention_ground (replay_state bs) c = (st, m)"
    by (cases "replay_step retention_ground (replay_state bs) c")
  have lb: "sc_last_boundary (replay_scan_byte retention_ground sc c) =
      (case m of Keep \<Rightarrow> sc_last_boundary sc | AtByte \<Rightarrow> a + length bs | AfterByte \<Rightarrow> a + length bs + 1)"
    using stm inv by (simp add: replay_scan_byte_def split: boundary_mark.split)
  show ?case
  proof (cases m)
    case Keep
    have "(bs @ [c]) ! (sc_last_boundary sc - a - 1) = bs ! (sc_last_boundary sc - a - 1)
        \<and> (bs @ [c]) ! (sc_last_boundary sc - a - 2) = bs ! (sc_last_boundary sc - a - 2)" if "0 < sc_last_boundary sc - a"
    proof -
      have "sc_last_boundary sc - a - 1 < length bs" "sc_last_boundary sc - a - 2 < length bs" using inv that by linarith+
      then show ?thesis by (simp only: nth_append if_True)
    qed
    then show ?thesis
      using snoc Keep lb inv by (auto simp: sc_def [symmetric] nth_append)
  next
    case AtByte
    then show ?thesis using lb stm at_mark_start [of "replay_state bs" c st] by (simp add: sc_def [symmetric])
  next
    case AfterByte
    then consider "byte_val c < 128" | "bs \<noteq> []" "last bs = ESC_BYTE"
      using after_mark_ascii stm replay_state_REscape by blast
    then show ?thesis using AfterByte lb
      by cases (auto simp: sc_def [symmetric] nth_append last_conv_nth Suc_le_eq)
  qed
qed simp

section \<open>Replays\<close>

text \<open>The bytes of a file between two offsets.\<close>

definition stretch :: "journal_file \<Rightarrow> u64 \<Rightarrow> u64 \<Rightarrow> string" where
  "stretch f a e = map cell_byte (take (e - a) (drop a f))"

lemma stretch_split: "a \<le> d \<Longrightarrow> d \<le> e \<Longrightarrow> stretch f a e = stretch f a d @ stretch f d e"
proof -
  assume "a \<le> d" "d \<le> e"
  then have "take (e - a) (drop a f) = take (d - a) (drop a f) @ take (e - d) (drop (d - a) (drop a f))"
    using take_add [of "d - a" "e - d" "drop a f"] by simp
  then show ?thesis using \<open>a \<le> d\<close> by (simp add: stretch_def)
qed

lemma stretch_length: "e \<le> length f \<Longrightarrow> length (stretch f a e) = e - a"
  by (simp add: stretch_def)

lemma stretch_nth: "a + i < e \<Longrightarrow> e \<le> length f \<Longrightarrow> stretch f a e ! i = cell_byte (f ! (a + i))"
  by (simp add: stretch_def)

lemma read_exact_stretch: "read_exact f a (e - a) = Some bs \<Longrightarrow> a \<le> e \<Longrightarrow> bs = stretch f a e \<and> e \<le> length f"
  by (auto simp: read_exact_Some stretch_def)

lemma drop_stretch: "a \<le> b \<Longrightarrow> drop (b - a) (stretch f a e) = stretch f b e"
  by (simp add: stretch_def drop_map drop_take)

section \<open>The invariant of the journal\<close>

text \<open>A world against the history of the terminal: every byte of the file is the byte that was printed there, or
  lies in a hole below the published floor.\<close>

definition world_ok :: "string \<Rightarrow> journal_world \<Rightarrow> bool" where
  "world_ok H w \<longleftrightarrow> length (jw_file w) \<le> length H \<and> read_output_retention_path w \<le> length (jw_file w) \<and>
     (\<forall>i < length (jw_file w). jw_file w ! i = Some (H ! i) \<or> (jw_file w ! i = None \<and> i < read_output_retention_path w))"

definition journal_ok :: "string \<Rightarrow> retained_output_writer \<Rightarrow> journal_world \<Rightarrow> bool" where
  "journal_ok H wr w \<longleftrightarrow> length H = length (jw_file w) \<and>
     rw_retained_from wr \<le> read_output_retention_path w \<and> read_output_retention_path w \<le> length (jw_file w) \<and>
     (\<forall>i < length (jw_file w). jw_file w ! i = Some (H ! i) \<or> (jw_file w ! i = None \<and> i < rw_retained_from wr))"

text \<open>Between two worlds the file only grows, and a hole stays a hole.\<close>

definition grows :: "journal_world \<Rightarrow> journal_world \<Rightarrow> bool" where
  "grows u v \<longleftrightarrow> length (jw_file u) \<le> length (jw_file v) \<and>
     (\<forall>i < length (jw_file u). jw_file u ! i = None \<longrightarrow> jw_file v ! i = None)"

lemma grows_refl [simp]: "grows w w"
  by (simp add: grows_def)

lemma grows_trans: "grows u v \<Longrightarrow> grows v w \<Longrightarrow> grows u w"
  by (auto simp: grows_def)

lemma grows_same_file: "jw_file u = jw_file v \<Longrightarrow> grows u v"
  by (simp add: grows_def)

lemma journal_ok_world: "journal_ok H wr w \<Longrightarrow> world_ok H w"
  by (fastforce simp: journal_ok_def world_ok_def)

lemma world_ok_extend: "world_ok H w \<Longrightarrow> world_ok (H @ bs) w"
  by (auto simp: world_ok_def nth_append)

lemma journal_ok_append:
  "journal_ok H wr w \<Longrightarrow> journal_ok (H @ bs) wr (w\<lparr>jw_file := jw_file w @ map Some bs\<rparr>)"
  by (auto simp: journal_ok_def nth_append read_output_retention_path_def)

lemma floor_saved [simp]:
  "read_output_retention_path (w\<lparr>jw_sidecar := Some (retention_at n)\<rparr>) = n"
  "read_output_retention_path (w\<lparr>jw_file := f\<rparr>) = read_output_retention_path w"
  by (simp_all add: read_output_retention_path_def retention_at_def)

lemma save_file [simp]: "jw_file (fst (save_output_retention_path oc n w)) = jw_file w"
  by (simp add: save_output_retention_path_def split: save_outcome.split)

lemma save_floor:
  "read_output_retention_path (fst (save_output_retention_path oc n w)) \<in> {n, read_output_retention_path w}"
  by (simp add: save_output_retention_path_def split: save_outcome.split)

lemma save_ok: "snd (save_output_retention_path oc n w) \<Longrightarrow>
    read_output_retention_path (fst (save_output_retention_path oc n w)) = n"
  by (simp add: save_output_retention_path_def split: save_outcome.splits)

lemma punch_length: "a + n \<le> length f \<Longrightarrow> length (punch_output_hole f a n) = length f"
  by (simp add: punch_output_hole_def)

lemma punch_nth: "a + n \<le> length f \<Longrightarrow> i < length f \<Longrightarrow>
    punch_output_hole f a n ! i = (if a \<le> i \<and> i < a + n then None else f ! i)"
  by (auto simp: punch_output_hole_def nth_append)

lemma block_floor_mono: "s \<le> n \<Longrightarrow> s - s mod b \<le> n - n mod (b :: nat)"
  using div_le_mono [of s n b] by (simp add: minus_mod_eq_div_mult)

text \<open>The four ways an advance can go.\<close>

lemma advance_cases:
  assumes "maybe_advance_retention env wr w = (r, wr', ws)"
  obtains (idle) "wr' = wr" "ws = []" "rw_retention_disabled wr \<or> \<not> we_stat_ok env
        \<or> length (jw_file w) < rw_next_retention_check_at wr" "r = Inr () \<or> \<not> we_stat_ok env"
    | (kept) "wr' = wr\<lparr>rw_next_retention_check_at := saturating_add64 (length (jw_file w)) (rw_advance_bytes wr)\<rparr>"
        "ws = [] \<or> (\<exists>n. ws = [fst (save_output_retention_path (we_save env) n w)] \<and> rw_retained_from wr < n \<and> n \<le> length (jw_file w))"
        "(\<exists>e. r = Inl e) \<or>
         ws = [] \<and> (\<exists>b. safe_output_retention_boundary (jw_file w) (rw_retained_from wr) (length (jw_file w) - rw_retain_bytes wr) = Inr b \<and>
            b < rw_retained_from wr + max (we_blksize env) 1)"
    | (advanced) n w1 where
        "safe_output_retention_boundary (jw_file w) (rw_retained_from wr) (length (jw_file w) - rw_retain_bytes wr) = Inr n"
        "rw_retained_from wr < n" "n \<le> length (jw_file w)" "r = Inr ()"
        "jw_file w1 = jw_file w" "read_output_retention_path w1 = n"
        "(wr', ws) = (case punch_published env
           (wr\<lparr>rw_next_retention_check_at := saturating_add64 (length (jw_file w)) (rw_advance_bytes wr)\<rparr>) n
           (rw_retained_from wr - rw_retained_from wr mod max (we_blksize env) 1) (n - n mod max (we_blksize env) 1) w1 of
           (wr2, ws2) \<Rightarrow> (wr2, w1 # ws2))"
proof (cases "rw_retention_disabled wr \<or> \<not> we_stat_ok env \<or> length (jw_file w) < rw_next_retention_check_at wr")
  case True
  then show thesis using assms idle by (auto simp: maybe_advance_retention_def Let_def split: if_splits)
next
  case False
  define wr1 where "wr1 = wr\<lparr>rw_next_retention_check_at := saturating_add64 (length (jw_file w)) (rw_advance_bytes wr)\<rparr>"
  define b where "b = max (we_blksize env) 1"
  define d where "d = length (jw_file w) - rw_retain_bytes wr"
  have b: "0 < b" by (simp add: b_def)
  have conds: "rw_retention_disabled wr = False" "we_stat_ok env = True"
      "(length (jw_file w) < rw_next_retention_check_at wr) = False"
    using False by auto
  have eq: "(if \<not> we_io_ok env then (Inl ReadFailed, wr1, [])
      else (case safe_output_retention_boundary (jw_file w) (rw_retained_from wr) d of
           Inl e \<Rightarrow> (Inl e, wr1, [])
         | Inr n \<Rightarrow>
             if n \<le> rw_retained_from wr then (Inr (), wr1, [])
             else if n - n mod b \<le> rw_retained_from wr - rw_retained_from wr mod b then (Inr (), wr1, [])
             else (case save_output_retention_path (we_save env) n w of (w1, ok) \<Rightarrow>
               if \<not> ok then (Inl SaveFailed, wr1, [w1])
               else (case punch_published env wr1 n (rw_retained_from wr - rw_retained_from wr mod b) (n - n mod b) w1 of
                 (wr2, ws) \<Rightarrow> (Inr (), wr2, w1 # ws))))) = (r, wr', ws)"
    using assms unfolding wr1_def b_def d_def
    by (simp only: maybe_advance_retention_def Let_def conds not_True_eq_False not_False_eq_True if_True if_False)
  show thesis
  proof (cases "\<not> we_io_ok env \<or> (\<exists>e. safe_output_retention_boundary (jw_file w) (rw_retained_from wr) d = Inl e)")
    case True
    then show thesis using eq kept by (auto simp: wr1_def split: if_splits)
  next
    case False
    then obtain n where n: "safe_output_retention_boundary (jw_file w) (rw_retained_from wr) d = Inr n"
      by (cases "safe_output_retention_boundary (jw_file w) (rw_retained_from wr) d") auto
    have n_le: "n \<le> max (rw_retained_from wr) (length (jw_file w))"
      using retention_boundary_bounds(2) [OF n] by (auto simp: d_def)
    show thesis
    proof (cases "n \<le> rw_retained_from wr \<or> n - n mod b \<le> rw_retained_from wr - rw_retained_from wr mod b")
      case True
      have "n < rw_retained_from wr + b"
      proof -
        have "n mod b < b" using b by simp
        then show ?thesis using True b by linarith
      qed
      then show thesis using True eq False n kept by (auto simp: wr1_def d_def b_def split: if_splits)
    next
      case False
      note less = this
      obtain w1 ok where sv: "save_output_retention_path (we_save env) n w = (w1, ok)"
        by (cases "save_output_retention_path (we_save env) n w")
      have nn: "rw_retained_from wr < n" "n \<le> length (jw_file w)" using less n_le by auto
      show thesis
      proof (cases ok)
        case True
        have "jw_file w1 = jw_file w" "read_output_retention_path w1 = n"
          using save_file [of "we_save env" n w] save_ok [of "we_save env" n w] sv True by simp_all
        then show thesis
          using advanced [OF n [unfolded d_def] nn] eq \<open>\<not> (\<not> we_io_ok env \<or> _)\<close> n less sv True
          by (auto simp: wr1_def b_def split: prod.splits)
      next
        case False
        have "\<exists>k. w1 = fst (save_output_retention_path (we_save env) k w) \<and> rw_retained_from wr < k \<and> k \<le> length (jw_file w)"
          using sv nn by (intro exI [of _ n]) simp
        then show thesis using False kept eq \<open>\<not> (\<not> we_io_ok env \<or> _)\<close> n less sv
          by (auto simp: wr1_def)
      qed
    qed
  qed
qed

text \<open>A published floor with its punch keeps the invariant, whether the punch works or not.\<close>

lemma punch_published_ok:
  assumes "journal_ok H wr w" and w1: "jw_file w1 = jw_file w" "read_output_retention_path w1 = n"
    and n: "rw_retained_from wr < n" "n \<le> length (jw_file w)"
    and a: "a \<le> e" "e \<le> n"
    and p: "punch_published env wr n a e w1 = (wr', ws)"
  shows "journal_ok H wr' (last (w1 # ws)) \<and> list_all (world_ok H) ws \<and> sorted_wrt grows (w1 # ws)"
proof (cases "we_punch_ok env")
  case True
  define v where "v = w1\<lparr>jw_file := punch_output_hole (jw_file w1) a (e - a)\<rparr>"
  have ws: "ws = [v]" and wr': "rw_retained_from wr' = n"
    using p True by (auto simp: punch_published_def v_def)
  have bound: "a + (e - a) \<le> length (jw_file w1)" using a n w1 by simp
  have cells: "length (jw_file v) = length (jw_file w)"
    "\<And>i. i < length (jw_file w) \<Longrightarrow> jw_file v ! i = (if a \<le> i \<and> i < e then None else jw_file w ! i)"
    using punch_length [OF bound] punch_nth [OF bound] a w1 by (simp_all add: v_def)
  have floor: "read_output_retention_path v = n" using w1 by (simp add: v_def)
  have "journal_ok H wr' v"
    using assms(1) n a by (fastforce simp: journal_ok_def cells floor wr')
  moreover have "grows w1 v"
    using w1 by (simp add: grows_def cells)
  ultimately show ?thesis using ws journal_ok_world by auto
next
  case False
  define v where "v = fst (save_output_retention_path (we_restore env) (rw_retained_from wr) w1)"
  have ws: "ws = [v]" and wr': "rw_retained_from wr' = rw_retained_from wr"
    using p False by (auto simp: punch_published_def v_def)
  have cells: "jw_file v = jw_file w" using w1 by (simp add: v_def)
  have floor: "rw_retained_from wr \<le> read_output_retention_path v" "read_output_retention_path v \<le> length (jw_file w)"
    using save_floor [of "we_restore env" "rw_retained_from wr" w1] w1 n by (auto simp: v_def)
  have "journal_ok H wr' v"
    using assms(1) floor by (simp add: journal_ok_def cells wr')
  moreover have "grows w1 v" using w1 cells by (simp add: grows_same_file)
  ultimately show ?thesis using ws journal_ok_world by auto
qed

lemma journal_ok_publish:
  assumes "journal_ok H wr w" and "jw_file w1 = jw_file w" and "rw_retained_from wr' = rw_retained_from wr"
    and "rw_retained_from wr \<le> read_output_retention_path w1" and "read_output_retention_path w1 \<le> length (jw_file w)"
  shows "journal_ok H wr' w1"
  using assms by (auto simp: journal_ok_def)

lemma advance_keeps:
  assumes ok: "journal_ok H wr w" and adv: "maybe_advance_retention env wr w = (r, wr', ws)"
  shows "journal_ok H wr' (last (w # ws)) \<and> list_all (world_ok H) ws \<and> sorted_wrt grows (w # ws)"
  using adv
proof (cases rule: advance_cases)
  case idle
  then show ?thesis using ok by simp
next
  case kept
  show ?thesis
  proof (cases "ws = []")
    case True
    then show ?thesis using ok kept(1) by (simp add: journal_ok_def)
  next
    case False
    then obtain n where n: "ws = [fst (save_output_retention_path (we_save env) n w)]" "rw_retained_from wr < n"
        "n \<le> length (jw_file w)"
      using kept(2) by blast
    have "journal_ok H wr' (fst (save_output_retention_path (we_save env) n w))"
      using save_floor [of "we_save env" n w] n ok kept(1) journal_ok_publish [OF ok, of _ wr']
      by (auto simp: journal_ok_def)
    then show ?thesis using n journal_ok_world by (auto simp: grows_same_file)
  qed
next
  case (advanced n w1)
  define wr1 where "wr1 = wr\<lparr>rw_next_retention_check_at := saturating_add64 (length (jw_file w)) (rw_advance_bytes wr)\<rparr>"
  define b where "b = max (we_blksize env) 1"
  have ok1: "journal_ok H wr1 w" using ok by (simp add: journal_ok_def wr1_def)
  have okp: "journal_ok H wr1 w1"
    using advanced journal_ok_publish [OF ok1, of w1 wr1] by (simp add: wr1_def)
  obtain wr2 ws2 where p: "punch_published env wr1 n (rw_retained_from wr - rw_retained_from wr mod b) (n - n mod b) w1 = (wr2, ws2)"
    by (cases "punch_published env wr1 n (rw_retained_from wr - rw_retained_from wr mod b) (n - n mod b) w1")
  then have eqs: "wr' = wr2" "ws = w1 # ws2" using advanced(7) by (simp_all add: wr1_def b_def)
  have le: "rw_retained_from wr - rw_retained_from wr mod b \<le> n - n mod b"
    using advanced(2) by (intro block_floor_mono) simp
  have "journal_ok H wr2 (last (w1 # ws2)) \<and> list_all (world_ok H) ws2 \<and> sorted_wrt grows (w1 # ws2)"
    using punch_published_ok [OF ok1 advanced(5,6) _ advanced(3) le _ p] advanced(2) by (simp add: wr1_def)
  moreover have "grows w w1" using advanced(5) by (simp add: grows_same_file)
  ultimately show ?thesis
    using eqs journal_ok_world [OF okp] by (auto intro: grows_trans)
qed

text \<open>The bytes a sequence of writes put into the file.\<close>

definition accepted :: "(write_env \<times> string) list \<Rightarrow> string" where
  "accepted ops = concat (map (\<lambda>(env, bs). take (we_accepts env) bs) ops)"

lemma accepted_simps [simp]:
  "accepted [] = []" "accepted ((env, bs) # ops) = take (we_accepts env) bs @ accepted ops"
  by (simp_all add: accepted_def)

lemma write_keeps:
  assumes ok: "journal_ok H wr w" and wt: "writer_write env bs wr w = (k, wr', ws)"
  shows "journal_ok (H @ take (we_accepts env) bs) wr' (last (w # ws)) \<and>
         list_all (world_ok (H @ take (we_accepts env) bs)) ws \<and> sorted_wrt grows (w # ws)"
proof (cases "min (we_accepts env) (length bs) = 0")
  case True
  then have "take (we_accepts env) bs = []" by (simp add: min_def split: if_splits)
  then show ?thesis using True wt ok by (auto simp: writer_write_def Let_def)
next
  case False
  define bs' where "bs' = take (we_accepts env) bs"
  have tk: "take (min (we_accepts env) (length bs)) bs = bs'" by (simp add: bs'_def min_def)
  define w1 where "w1 = w\<lparr>jw_file := jw_file w @ map Some bs'\<rparr>"
  have ok1: "journal_ok (H @ bs') wr w1" using journal_ok_append [OF ok] by (simp add: w1_def)
  obtain r wr1 ws1 where adv: "maybe_advance_retention env wr w1 = (r, wr1, ws1)" by (metis prod_cases3)
  have eqs: "ws = w1 # ws1" "rw_retained_from wr' = rw_retained_from wr1"
    using wt False adv by (auto simp: writer_write_def Let_def tk w1_def split: sum.splits)
  have k: "journal_ok (H @ bs') wr1 (last (w1 # ws1))" "list_all (world_ok (H @ bs')) ws1" "sorted_wrt grows (w1 # ws1)"
    using advance_keeps [OF ok1 adv] by simp_all
  have g: "grows w w1" by (simp add: grows_def w1_def nth_append)
  have "journal_ok (H @ bs') wr' (last (w1 # ws1))" using k(1) eqs(2) by (simp add: journal_ok_def)
  then show ?thesis
    using k g eqs(1) journal_ok_world [OF ok1] by (auto simp: bs'_def [symmetric] intro: grows_trans)
qed

lemma sorted_wrt_grows_append:
  "sorted_wrt grows (w # us) \<Longrightarrow> sorted_wrt grows (last (w # us) # vs) \<Longrightarrow> sorted_wrt grows ((w # us) @ vs)"
proof (induction us arbitrary: w)
  case (Cons u us)
  have "sorted_wrt grows ((u # us) @ vs)" using Cons.prems by (intro Cons.IH) simp_all
  moreover have "grows w u" using Cons.prems by simp
  ultimately show ?case by (auto intro: grows_trans)
qed simp

lemma run_keeps:
  "journal_ok H wr w \<Longrightarrow> writer_run ops wr w = (wr', ws) \<Longrightarrow>
     ws \<noteq> [] \<and> journal_ok (H @ accepted ops) wr' (last ws) \<and> list_all (world_ok (H @ accepted ops)) ws
     \<and> hd ws = w \<and> sorted_wrt grows ws"
proof (induction ops arbitrary: H wr w wr' ws)
  case Nil
  then show ?case by (auto simp: journal_ok_world)
next
  case (Cons op ops)
  obtain env bs where op: "op = (env, bs)" by (cases op)
  obtain k wr1 us where wt: "writer_write env bs wr w = (k, wr1, us)" by (metis prod_cases3)
  obtain wr2 vs where run: "writer_run ops wr1 (last (w # us)) = (wr2, vs)" by (cases "writer_run ops wr1 (last (w # us))")
  have eqs: "wr' = wr2" "ws = (w # us) @ vs"
    using Cons.prems(2) run by (auto simp: op wt simp del: last.simps)
  define H1 where "H1 = H @ take (we_accepts env) bs"
  have k: "journal_ok H1 wr1 (last (w # us))" "list_all (world_ok H1) us" "sorted_wrt grows (w # us)"
    using write_keeps [OF Cons.prems(1) wt] by (simp_all add: H1_def)
  have IH: "vs \<noteq> []" "journal_ok (H1 @ accepted ops) wr2 (last vs)" "list_all (world_ok (H1 @ accepted ops)) vs"
      "hd vs = last (w # us)" "sorted_wrt grows vs"
    using Cons.IH [OF k(1) run] by simp_all
  have "world_ok (H1 @ accepted ops) w"
    using world_ok_extend [OF journal_ok_world [OF Cons.prems(1)], of "take (we_accepts env) bs @ accepted ops"] by (simp add: H1_def)
  moreover have "list_all (world_ok (H1 @ accepted ops)) us"
    using k(2) world_ok_extend by (auto simp: list_all_iff)
  moreover have "sorted_wrt grows ((w # us) @ vs)"
    using sorted_wrt_grows_append [OF k(3), of vs] IH(1,4,5) by (cases vs) (auto intro: grows_trans)
  ultimately show ?case using IH by (simp add: eqs op H1_def)
qed

section \<open>The space a journal takes\<close>

text \<open>The most a journal keeps above its floor: the retained bytes, one coarse advance, the slack of an unterminated control string and
  one block.\<close>

definition journal_span :: "nat \<Rightarrow> retained_output_writer \<Rightarrow> nat" where
  "journal_span b wr = rw_retain_bytes wr + rw_advance_bytes wr + SESSION_OUTPUT_JOURNAL_CONTROL_SLACK_BYTES + b"

definition space_ok :: "nat \<Rightarrow> retained_output_writer \<Rightarrow> journal_world \<Rightarrow> bool" where
  "space_ok b wr w \<longleftrightarrow> rw_next_retention_check_at wr \<le> rw_retained_from wr + journal_span b wr
     \<and> length (jw_file w) \<le> rw_retained_from wr + journal_span b wr
     \<and> rw_retained_from wr \<le> length (jw_file w)
     \<and> (\<forall>i < rw_retained_from wr - rw_retained_from wr mod b. jw_file w ! i = None)"

lemma allocated_append [simp]: "allocated (f @ g) = allocated f + allocated g"
  by (simp add: allocated_def)

lemma allocated_le: "allocated f \<le> length f"
  by (simp add: allocated_def)

lemma allocated_Some [simp]: "allocated (map Some bs) = length bs"
  by (simp add: allocated_def)

lemma allocated_hole_prefix:
  assumes "\<forall>i < p. f ! i = None" and "p \<le> length f"
  shows "allocated f \<le> length f - p"
proof -
  have "\<forall>c \<in> set (take p f). c = None" using assms by (auto simp: in_set_conv_nth)
  then have "allocated (take p f) = 0" by (simp add: allocated_def filter_empty_conv)
  then have "allocated f = allocated (drop p f)"
    using allocated_append [of "take p f" "drop p f"] by simp
  then show ?thesis using allocated_le [of "drop p f"] by simp
qed

lemma space_ok_allocated:
  assumes "space_ok b wr w" and "0 < b" shows "allocated (jw_file w) \<le> journal_span b wr + b"
proof -
  define p where "p = rw_retained_from wr - rw_retained_from wr mod b"
  have "rw_retained_from wr mod b < b" using assms(2) by simp
  moreover have "rw_retained_from wr mod b \<le> rw_retained_from wr" by (rule mod_less_eq_dividend)
  ultimately have "rw_retained_from wr < p + b" by (simp add: p_def)
  moreover have "allocated (jw_file w) \<le> length (jw_file w) - p"
    using assms(1) by (intro allocated_hole_prefix) (auto simp: space_ok_def p_def)
  ultimately show ?thesis using assms(1) unfolding space_ok_def by linarith
qed

lemma saturating_add64_le_sum: "saturating_add64 a b \<le> a + b"
  by (simp add: saturating_add64_def)

lemma span_cong:
  "rw_retain_bytes wr' = rw_retain_bytes wr \<Longrightarrow> rw_advance_bytes wr' = rw_advance_bytes wr \<Longrightarrow>
     journal_span b wr' = journal_span b wr"
  by (simp add: journal_span_def)

lemma punched_prefix:
  assumes "\<forall>i < a. f ! i = (None :: byte option)" and "a \<le> e" and "e \<le> length f" and "i < e"
  shows "punch_output_hole f a (e - a) ! i = None"
  using punch_nth [of a "e - a" f i] assms by auto

lemma jw_file_upd: "jw_file (w\<lparr>jw_file := f\<rparr>) = f"
  by simp

lemma advance_space:
  assumes adv: "maybe_advance_retention env wr w = (Inr u, wr', ws)"
    and check: "rw_next_retention_check_at wr \<le> rw_retained_from wr + journal_span b wr"
    and le: "rw_retained_from wr \<le> length (jw_file w)"
    and holes: "\<forall>i < rw_retained_from wr - rw_retained_from wr mod b. jw_file w ! i = None"
    and b: "max (we_blksize env) 1 = b" and stat: "we_stat_ok env"
    and live: "\<not> rw_retention_disabled wr'"
  shows "space_ok b wr' (last (w # ws)) \<and> journal_span b wr' = journal_span b wr"
  using adv
proof (cases rule: advance_cases)
  case idle
  then show ?thesis using check le holes live stat by (auto simp: space_ok_def)
next
  case kept
  then obtain n where n: "safe_output_retention_boundary (jw_file w) (rw_retained_from wr) (length (jw_file w) - rw_retain_bytes wr) = Inr n"
      "n < rw_retained_from wr + b" "ws = []"
    using b by auto
  have "length (jw_file w) - rw_retain_bytes wr \<le> n + SESSION_OUTPUT_JOURNAL_CONTROL_SLACK_BYTES"
    using retention_boundary_bounds(3) [OF n(1)] by simp
  then have "length (jw_file w) + rw_advance_bytes wr \<le> rw_retained_from wr + journal_span b wr"
    using n(2) by (simp add: journal_span_def)
  then show ?thesis
    using kept(1) n(3) le holes saturating_add64_le_sum [of "length (jw_file w)" "rw_advance_bytes wr"]
    by (auto simp: space_ok_def journal_span_def)
next
  case (advanced n w1)
  have punch: "we_punch_ok env"
    using advanced(7) live by (auto simp: punch_published_def split: if_splits)
  have span: "length (jw_file w) \<le> n + rw_retain_bytes wr + SESSION_OUTPUT_JOURNAL_CONTROL_SLACK_BYTES"
    using retention_boundary_bounds(3) [OF advanced(1)] by simp
  have bpos: "0 < b" using b by auto
  have wr': "rw_retained_from wr' = n" "rw_retain_bytes wr' = rw_retain_bytes wr" "rw_advance_bytes wr' = rw_advance_bytes wr"
      "rw_next_retention_check_at wr' = saturating_add64 (saturating_add64 n (rw_retain_bytes wr)) (rw_advance_bytes wr)"
    and last: "last (w # ws) = w1\<lparr>jw_file := punch_output_hole (jw_file w) (rw_retained_from wr - rw_retained_from wr mod b)
       ((n - n mod b) - (rw_retained_from wr - rw_retained_from wr mod b))\<rparr>"
    using advanced(5,7) punch b by (auto simp: punch_published_def)
  have "rw_next_retention_check_at wr' \<le> n + rw_retain_bytes wr + rw_advance_bytes wr"
    unfolding wr'(4) saturating_add64_def by linarith
  moreover have "length (jw_file (last (w # ws))) = length (jw_file w)"
    using advanced(2,3) block_floor_mono [of "rw_retained_from wr" n b] unfolding last
    by (subst jw_file_upd, intro punch_length) linarith
  moreover have "\<forall>i < n - n mod b. jw_file (last (w # ws)) ! i = None"
    unfolding last using punched_prefix [OF holes block_floor_mono, of n] advanced(2,3) by auto
  ultimately show ?thesis
    using span wr'(1-3) advanced(3) by (auto simp: space_ok_def journal_span_def)
qed

lemma write_disabled:
  "writer_write env bs wr w = (k, wr', ws) \<Longrightarrow> rw_retention_disabled wr \<Longrightarrow> rw_retention_disabled wr'"
  by (auto simp: writer_write_def maybe_advance_retention_def Let_def split: if_splits)

lemma run_disabled:
  "writer_run ops wr w = (wr', ws) \<Longrightarrow> rw_retention_disabled wr \<Longrightarrow> rw_retention_disabled wr'"
proof (induction ops arbitrary: wr w wr' ws)
  case (Cons op ops)
  then show ?case by (cases op) (auto split: prod.splits dest: write_disabled)
qed simp

lemma write_space:
  assumes wt: "writer_write env bs wr w = (k, wr', ws)" and sp: "space_ok b wr w"
    and b: "max (we_blksize env) 1 = b" and live: "\<not> rw_retention_disabled wr'"
  shows "space_ok b wr' (last (w # ws)) \<and> journal_span b wr' = journal_span b wr"
proof (cases "min (we_accepts env) (length bs) = 0")
  case True
  then show ?thesis using wt sp by (auto simp: writer_write_def Let_def)
next
  case False
  define w1 where "w1 = w\<lparr>jw_file := jw_file w @ map Some (take (min (we_accepts env) (length bs)) bs)\<rparr>"
  obtain r wr1 ws1 where adv: "maybe_advance_retention env wr w1 = (r, wr1, ws1)" by (metis prod_cases3)
  obtain u where u: "r = Inr u"
    using wt False adv live by (cases r) (auto simp: writer_write_def Let_def w1_def)
  have eqs: "ws = w1 # ws1" "wr' = wr1"
    using wt False adv u by (auto simp: writer_write_def Let_def w1_def)
  have stat: "we_stat_ok env"
    using adv u live eqs(2) by (auto simp: maybe_advance_retention_def Let_def split: if_splits)
  have "space_ok b wr1 (last (w1 # ws1)) \<and> journal_span b wr1 = journal_span b wr"
    using adv sp stat b live eqs(2) unfolding u
    by (intro advance_space [of env wr w1 u]) (auto simp: space_ok_def w1_def nth_append)
  then show ?thesis using eqs by simp
qed

lemma run_space:
  "writer_run ops wr w = (wr', ws) \<Longrightarrow> space_ok b wr w \<Longrightarrow> \<forall>(env, bs) \<in> set ops. max (we_blksize env) 1 = b \<Longrightarrow>
     \<not> rw_retention_disabled wr' \<Longrightarrow> space_ok b wr' (last ws) \<and> journal_span b wr' = journal_span b wr"
proof (induction ops arbitrary: wr w wr' ws)
  case (Cons op ops)
  obtain env bs where op: "op = (env, bs)" by (cases op)
  obtain k wr1 us where wt: "writer_write env bs wr w = (k, wr1, us)" by (metis prod_cases3)
  obtain wr2 vs where run: "writer_run ops wr1 (last (w # us)) = (wr2, vs)" by (cases "writer_run ops wr1 (last (w # us))")
  have eqs: "wr' = wr2" "ws = (w # us) @ vs"
    using Cons.prems(1) run by (auto simp: op wt simp del: last.simps)
  have live: "\<not> rw_retention_disabled wr1" using run_disabled [OF run] Cons.prems(4) eqs(1) by auto
  have "space_ok b wr1 (last (w # us))" "journal_span b wr1 = journal_span b wr"
    using write_space [OF wt Cons.prems(2) _ live] Cons.prems(3) by (auto simp: op)
  moreover have "vs \<noteq> []"
    using run by (cases ops) (auto split: prod.splits)
  ultimately show ?case
    using Cons.IH [OF run] Cons.prems(3,4) eqs by auto
qed simp

section \<open>A fresh journal\<close>

lemma writer_new_ok:
  assumes "writer_new oc init retain adv w0 = (Inr wr, ws)"
  shows "journal_ok (replicate init (CHR 0x00)) wr (last ws)" and "space_ok (max b 1) wr (last ws)"
    and "journal_span b wr = max retain 1 + max adv 1 + SESSION_OUTPUT_JOURNAL_CONTROL_SLACK_BYTES + b"
    and "jw_file (last ws) = replicate init None"
proof -
  define w where "w = (fst (save_output_retention_path oc init w0))\<lparr>jw_file := replicate init None\<rparr>"
  have ok: "snd (save_output_retention_path oc init w0)"
    and wr: "rw_retained_from wr = init" "rw_retain_bytes wr = max retain 1" "rw_advance_bytes wr = max adv 1"
      "rw_next_retention_check_at wr = saturating_add64 (saturating_add64 init (max retain 1)) (max adv 1)"
    and ws: "last ws = w"
    using assms by (auto simp: writer_new_def w_def split: prod.splits if_splits)
  have floor: "read_output_retention_path w = init" using save_ok [OF ok] by (simp add: w_def)
  show "journal_ok (replicate init (CHR 0x00)) wr (last ws)"
    using wr floor by (simp add: journal_ok_def ws) (simp add: w_def)
  have "rw_next_retention_check_at wr \<le> init + max retain 1 + max adv 1"
    unfolding wr(4) saturating_add64_def by linarith
  moreover have "jw_file w ! i = None" if "i < init - init mod max b 1" for i
  proof -
    have "i < init" using that by linarith
    then show ?thesis by (simp add: w_def)
  qed
  ultimately show "space_ok (max b 1) wr (last ws)"
    using wr unfolding ws by (simp add: space_ok_def journal_span_def) (simp add: w_def)
  show "journal_span b wr = max retain 1 + max adv 1 + SESSION_OUTPUT_JOURNAL_CONTROL_SLACK_BYTES + b"
    using wr by (simp add: journal_span_def)
  show "jw_file (last ws) = replicate init None" by (simp add: ws w_def)
qed

end
