(* ===== verification/Terminal_Grammar.thy ===== *)
theory Terminal_Grammar
  imports Output_Journal_Facts
begin

text \<open>
  The grammar of terminal output, after ECMA-48, stated without the scanner of the journal: what a program prints is a sequence of units, each a
  character in UTF-8 or a control sequence with its introducer, its body and its terminator. The lemmas show how the scan of
  \<open>safe_output_retention_boundary\<close> runs over such a sequence: its last boundary is the start of the unit it is in.
\<close>

section \<open>Units\<close>

definition CANCELS :: "byte set" where "CANCELS = {CHR 0x18, CHR 0x1A}"

definition byte_range :: "nat \<Rightarrow> nat \<Rightarrow> byte set" where
  "byte_range lo hi = {c. lo \<le> byte_val c \<and> byte_val c \<le> hi}"

text \<open>The bytes behind an ESC that introduce a string with a terminator of its own: OSC, DCS, SOS, PM and APC.\<close>

definition STRING_OPENERS :: "byte set" where
  "STRING_OPENERS = {CHR '']'', CHR ''P'', CHR ''X'', CHR 0x5E, CHR ''_''}"

text \<open>The bytes that may stand inside a string opened by \<open>c\<close>: a BEL ends an operating system command and is data elsewhere.\<close>

definition string_data :: "byte \<Rightarrow> byte set" where
  "string_data c = - (CANCELS \<union> {ESC_BYTE}) - (if c = CHR '']'' then {CHR 0x07} else {})"

text \<open>The inside of a control sequence. C0 controls within a parameter string are carried out by the terminal and do not end it.\<close>

definition csi_data :: "byte set" where
  "csi_data = - (CANCELS \<union> {ESC_BYTE} \<union> byte_range 64 126)"

text \<open>A control sequence that has not ended yet.\<close>

inductive open_control :: "string \<Rightarrow> bool" where
  escape: "set is \<subseteq> byte_range 32 47 \<Longrightarrow> open_control (ESC_BYTE # is)"
| csi: "set ps \<subseteq> csi_data \<Longrightarrow> open_control (ESC_BYTE # CHR ''['' # ps)"
| string: "c \<in> STRING_OPENERS \<Longrightarrow> set body \<subseteq> string_data c \<Longrightarrow> open_control (ESC_BYTE # c # body)"

inductive terminal_unit :: "string \<Rightarrow> bool" where
  char: "\<not> utf8_cont c \<Longrightarrow> c \<noteq> ESC_BYTE \<Longrightarrow> \<forall>x \<in> set cs. utf8_cont x \<Longrightarrow> cs \<noteq> [] \<longrightarrow> 128 \<le> byte_val c \<Longrightarrow>
    terminal_unit (c # cs)"
| escape: "set is \<subseteq> byte_range 32 47 \<Longrightarrow> z \<in> byte_range 48 126 \<Longrightarrow> is = [] \<longrightarrow> z \<notin> insert (CHR ''['') STRING_OPENERS \<Longrightarrow>
    terminal_unit (ESC_BYTE # is @ [z])"
| csi: "set ps \<subseteq> csi_data \<Longrightarrow> z \<in> byte_range 64 126 \<Longrightarrow> terminal_unit (ESC_BYTE # CHR ''['' # ps @ [z])"
| osc_bel: "set body \<subseteq> string_data (CHR '']'') \<Longrightarrow> terminal_unit (ESC_BYTE # CHR '']'' # body @ [CHR 0x07])"
| string: "c \<in> STRING_OPENERS \<Longrightarrow> set body \<subseteq> string_data c \<Longrightarrow> terminal_unit (ESC_BYTE # c # body @ [ESC_BYTE, CHR 0x5C])"
| cancelled: "open_control u \<Longrightarrow> z \<in> CANCELS \<Longrightarrow> terminal_unit (u @ [z])"

section \<open>The scan of a unit\<close>

text \<open>A stretch that moves no boundary, and the state behind it.\<close>

fun quiet :: "replay_scan_state \<Rightarrow> string \<Rightarrow> bool" where
  "quiet st [] = True"
| "quiet st (c # bs) = (snd (replay_step retention_ground st c) = Keep \<and> quiet (fst (replay_step retention_ground st c)) bs)"

definition behind_state :: "replay_scan_state \<Rightarrow> string \<Rightarrow> replay_scan_state" where
  "behind_state st bs = foldl (\<lambda>st c. fst (replay_step retention_ground st c)) st bs"

lemma behind_state_simps [simp]:
  "behind_state st [] = st"
  "behind_state st (c # bs) = behind_state (fst (replay_step retention_ground st c)) bs"
  "behind_state st (as @ bs) = behind_state (behind_state st as) bs"
  by (simp_all add: behind_state_def)

lemma quiet_append: "quiet st (as @ bs) \<longleftrightarrow> quiet st as \<and> quiet (behind_state st as) bs"
  by (induction as arbitrary: st) auto

lemma quiet_take: "quiet st bs \<Longrightarrow> quiet st (take n bs)"
  using quiet_append [of st "take n bs" "drop n bs"] by simp

lemma quiet_loop:
  assumes "\<And>c. c \<in> set bs \<Longrightarrow> replay_step retention_ground st c = (st, Keep)"
  shows "quiet st bs" and "behind_state st bs = st"
  using assms by (induction bs) auto

abbreviation scan_bytes :: "replay_scan \<Rightarrow> string \<Rightarrow> replay_scan" where
  "scan_bytes \<equiv> foldl (replay_scan_byte retention_ground)"

lemma scan_bytes_state: "sc_state (scan_bytes sc bs) = behind_state (sc_state sc) bs"
  by (induction bs arbitrary: sc) (auto simp: replay_scan_byte_def split: prod.splits)

lemma scan_bytes_quiet: "quiet (sc_state sc) bs \<Longrightarrow> sc_last_boundary (scan_bytes sc bs) = sc_last_boundary sc"
  by (induction bs arbitrary: sc) (auto simp: replay_scan_byte_def split: prod.splits)

lemma scan_byte_mark:
  assumes "replay_step retention_ground (sc_state sc) c = (st, m)"
  shows "sc_state (replay_scan_byte retention_ground sc c) = st"
    and "m = AtByte \<Longrightarrow> sc_last_boundary (replay_scan_byte retention_ground sc c) = sc_absolute sc"
    and "m = AfterByte \<Longrightarrow> sc_last_boundary (replay_scan_byte retention_ground sc c) = sc_absolute sc + 1"
  using assms by (simp_all add: replay_scan_byte_def)

text \<open>What the scanner sees of a unit: a first byte that marks the position, a quiet middle, and, for a control sequence, a last byte that marks
  the position behind it. A single byte can do both.\<close>

definition shaped :: "string \<Rightarrow> bool" where
  "shaped u \<longleftrightarrow>
     (\<exists>c. u = [c] \<and> replay_step retention_ground RGround c = (RGround, AfterByte)) \<or>
     (\<exists>c st mid. u = c # mid \<and> replay_step retention_ground RGround c = (st, AtByte) \<and> quiet st mid \<and> behind_state st mid = RGround) \<or>
     (\<exists>c st mid z. u = c # mid @ [z] \<and> replay_step retention_ground RGround c = (st, AtByte) \<and> quiet st mid \<and>
        replay_step retention_ground (behind_state st mid) z = (RGround, AfterByte))"

lemma ground_char:
  assumes "\<not> utf8_cont c" and "c \<noteq> ESC_BYTE"
  shows "replay_step retention_ground RGround c = (RGround, AtByte) \<or>
    replay_step retention_ground RGround c = (RGround, AfterByte) \<and> byte_val c < 128"
  using assms by (auto simp: replay_step_def retention_ground_def is_utf8_continuation_byte_iff ESC_BYTE_def byte_val_def)

lemma ground_cont: "utf8_cont c \<Longrightarrow> replay_step retention_ground RGround c = (RGround, Keep)"
  by (auto simp: replay_step_def retention_ground_def is_utf8_continuation_byte_iff ESC_BYTE_def utf8_cont_def byte_val_def)

lemma ground_escape: "replay_step retention_ground RGround ESC_BYTE = (REscape, AtByte)"
  by (simp add: replay_step_def retention_ground_def is_utf8_continuation_byte_def ESC_BYTE_def byte_val_def)

lemma cancel_step: "z \<in> CANCELS \<Longrightarrow> replay_step retention_ground st z = (RGround, AfterByte)"
  by (auto simp: replay_step_def CANCELS_def)

lemma range_bytes:
  "c \<in> byte_range lo hi \<Longrightarrow> 28 \<le> lo \<Longrightarrow> c \<noteq> CHR 0x18 \<and> c \<noteq> CHR 0x1A \<and> c \<noteq> ESC_BYTE"
  by (auto simp: byte_range_def ESC_BYTE_def byte_val_def)

text \<open>The scanner's state inside a string, and inside one behind an ESC.\<close>

definition string_state :: "byte \<Rightarrow> replay_scan_state" where
  "string_state c = (if c = CHR '']'' then ROsc else if c = CHR ''P'' then RDcs else RSosPmApc)"

lemma string_open: "c \<in> STRING_OPENERS \<Longrightarrow> replay_step retention_ground REscape c = (string_state c, Keep)"
  by (auto simp: STRING_OPENERS_def replay_step_def control_step_def string_state_def ESC_BYTE_def)

lemma string_body:
  assumes "c \<in> STRING_OPENERS" and "x \<in> string_data c"
  shows "replay_step retention_ground (string_state c) x = (string_state c, Keep)"
  using assms by (auto simp: STRING_OPENERS_def string_data_def CANCELS_def replay_step_def control_step_def string_state_def split: if_splits)

lemma string_end:
  assumes "c \<in> STRING_OPENERS"
  obtains st where "replay_step retention_ground (string_state c) ESC_BYTE = (st, Keep)"
    and "replay_step retention_ground st (CHR 0x5C) = (RGround, AfterByte)"
proof -
  have "snd (replay_step retention_ground (string_state c) ESC_BYTE) = Keep \<and>
      replay_step retention_ground (fst (replay_step retention_ground (string_state c) ESC_BYTE)) (CHR 0x5C) = (RGround, AfterByte)"
    using assms by (auto simp: STRING_OPENERS_def replay_step_def control_step_def string_step_def string_state_def ESC_BYTE_def)
  then show thesis using that by (metis prod.collapse)
qed

lemma csi_open: "replay_step retention_ground REscape (CHR ''['') = (RCsi, Keep)"
  by (simp add: replay_step_def control_step_def ESC_BYTE_def)

lemma csi_body: "x \<in> csi_data \<Longrightarrow> replay_step retention_ground RCsi x = (RCsi, Keep)"
  by (auto simp: csi_data_def byte_range_def CANCELS_def replay_step_def control_step_def)

lemma csi_end: "z \<in> byte_range 64 126 \<Longrightarrow> replay_step retention_ground RCsi z = (RGround, AfterByte)"
  using range_bytes [of z 64 126] by (auto simp: byte_range_def replay_step_def control_step_def)

lemma escape_body:
  assumes "x \<in> byte_range 32 47" and "st \<in> {REscape, REscapeIntermediate}"
  shows "replay_step retention_ground st x = (REscapeIntermediate, Keep)"
proof -
  have "x \<noteq> CHR 0x18 \<and> x \<noteq> CHR 0x1A \<and> x \<noteq> ESC_BYTE" and x: "32 \<le> byte_val x" "byte_val x \<le> 47"
    using assms(1) range_bytes [of x 32 47] by (auto simp: byte_range_def)
  then have "replay_step retention_ground st x = (if st = RGround then retention_ground x else control_step st x)"
    by (simp add: replay_step_def)
  moreover have "x \<notin> insert (CHR ''['') STRING_OPENERS" using x(2) by (auto simp: STRING_OPENERS_def byte_val_def)
  ultimately show ?thesis using assms(2) x by (elim insertE) (simp_all add: control_step_def STRING_OPENERS_def)
qed

lemma escape_quiet:
  assumes "set is \<subseteq> byte_range 32 47"
  shows "quiet REscape is" and "behind_state REscape is = (if is = [] then REscape else REscapeIntermediate)"
proof -
  have loop: "quiet REscapeIntermediate js \<and> behind_state REscapeIntermediate js = REscapeIntermediate"
    if "set js \<subseteq> byte_range 32 47" for js
    using that quiet_loop [of js REscapeIntermediate] escape_body by auto
  show "quiet REscape is" "behind_state REscape is = (if is = [] then REscape else REscapeIntermediate)"
    using assms loop [of "tl is"] escape_body [of "hd is" REscape] by (cases "is"; simp)+
qed

lemma escape_end:
  assumes "z \<in> byte_range 48 126" and "st = REscapeIntermediate \<or> st = REscape \<and> z \<notin> insert (CHR ''['') STRING_OPENERS"
  shows "replay_step retention_ground st z = (RGround, AfterByte)"
proof -
  have "z \<noteq> CHR 0x18 \<and> z \<noteq> CHR 0x1A \<and> z \<noteq> ESC_BYTE" and z: "48 \<le> byte_val z" "byte_val z \<le> 126"
    using assms(1) range_bytes [of z 48 126] by (auto simp: byte_range_def)
  then have "replay_step retention_ground st z = (if st = RGround then retention_ground z else control_step st z)"
    by (simp add: replay_step_def)
  then show ?thesis using assms(2) z by (elim disjE) (simp_all add: control_step_def STRING_OPENERS_def)
qed

lemma open_control_quiet:
  assumes "open_control u"
  obtains mid where "u = ESC_BYTE # mid" and "quiet REscape mid"
  using assms
proof cases
  case (escape "is")
  then show thesis using that escape_quiet by blast
next
  case (csi ps)
  then show thesis using that [of "CHR ''['' # ps"] quiet_loop [of ps RCsi] csi_body by (auto simp: csi_open)
next
  case (string c body)
  then show thesis using that [of "c # body"] quiet_loop [of body "string_state c"] string_body by (auto simp: string_open)
qed

lemma control_shaped:
  assumes "quiet REscape mid" and "replay_step retention_ground (behind_state REscape mid) z = (RGround, AfterByte)"
  shows "shaped (ESC_BYTE # mid @ [z])"
  using assms ground_escape by (auto simp: shaped_def)

lemma unit_shaped: "terminal_unit u \<Longrightarrow> shaped u"
proof (induction rule: terminal_unit.induct)
  case (char c cs)
  have cs: "quiet RGround cs" "behind_state RGround cs = RGround"
    using quiet_loop [of cs RGround] ground_cont char(3) by auto
  show ?case using ground_char [OF char(1,2)] cs char(4) by (auto simp: shaped_def)
next
  case (escape "is" z)
  then show ?case using control_shaped [of "is" z] escape_quiet [OF escape(1)] escape_end [OF escape(2)] by auto
next
  case (csi ps z)
  have "quiet RCsi ps" "behind_state RCsi ps = RCsi" using quiet_loop [of ps RCsi] csi_body csi(1) by auto
  then show ?case using control_shaped [of "CHR ''['' # ps" z] csi_end [OF csi(2)] by (simp add: csi_open)
next
  case (osc_bel body)
  let ?st = "string_state (CHR '']'')"
  have c: "CHR '']'' \<in> STRING_OPENERS" by (simp add: STRING_OPENERS_def)
  have z: "replay_step retention_ground (string_state (CHR '']'')) (CHR 0x07) = (RGround, AfterByte)"
    by (simp add: string_state_def replay_step_def control_step_def ESC_BYTE_def)
  have "quiet ?st body" "behind_state ?st body = ?st" using quiet_loop [of body ?st] string_body [OF c] osc_bel by auto
  then show ?case using control_shaped [of "CHR '']'' # body" "CHR 0x07"] string_open [OF c] z by simp
next
  case (string c body)
  obtain st where st: "replay_step retention_ground (string_state c) ESC_BYTE = (st, Keep)"
    "replay_step retention_ground st (CHR 0x5C) = (RGround, AfterByte)"
    using string_end [OF string(1)] .
  have "quiet (string_state c) body" "behind_state (string_state c) body = string_state c"
    using quiet_loop [of body "string_state c"] string_body [OF string(1)] string(2) by auto
  then show ?case
    using control_shaped [of "c # body @ [ESC_BYTE]" "CHR 0x5C"] string_open [OF string(1)] st by (simp add: quiet_append)
next
  case (cancelled u z)
  then obtain mid where "u = ESC_BYTE # mid" "quiet REscape mid" using open_control_quiet by blast
  then show ?case using control_shaped [of mid z] cancel_step [OF cancelled(2)] by simp
qed

section \<open>The scan of a sequence of units\<close>

lemma shaped_scan:
  assumes "shaped u" and "sc_state sc = RGround"
  shows "sc_state (scan_bytes sc u) = RGround"
    and "0 < n \<Longrightarrow> n \<le> length u \<Longrightarrow>
      sc_last_boundary (scan_bytes sc (take n u)) = sc_absolute sc \<or>
      n = length u \<and> sc_last_boundary (scan_bytes sc (take n u)) = sc_absolute sc + length u"
proof -
  show "sc_state (scan_bytes sc u) = RGround" using assms by (auto simp: shaped_def scan_bytes_state)
  assume n: "0 < n" "n \<le> length u"
  then obtain k where k: "n = Suc k" by (cases n) auto
  consider c where "u = [c]" "replay_step retention_ground RGround c = (RGround, AfterByte)"
    | c st mid where "u = c # mid" "replay_step retention_ground RGround c = (st, AtByte)" "quiet st mid"
    | c st mid z where "u = c # mid @ [z]" "replay_step retention_ground RGround c = (st, AtByte)" "quiet st mid"
        "replay_step retention_ground (behind_state st mid) z = (RGround, AfterByte)"
    using assms(1) by (auto simp: shaped_def)
  then show "sc_last_boundary (scan_bytes sc (take n u)) = sc_absolute sc \<or>
      n = length u \<and> sc_last_boundary (scan_bytes sc (take n u)) = sc_absolute sc + length u"
  proof cases
    case 1
    then show ?thesis using n k scan_byte_mark [of sc c] assms(2) by simp
  next
    case 2
    then show ?thesis using k scan_byte_mark [of sc c] assms(2) quiet_take [OF 2(3), of k] by (simp add: scan_bytes_quiet)
  next
    case 3
    define sc1 where "sc1 = replay_scan_byte retention_ground sc c"
    have sc1: "sc_state sc1 = st" "sc_last_boundary sc1 = sc_absolute sc" "sc_absolute sc1 = sc_absolute sc + 1"
      using scan_byte_mark [of sc c] assms(2) 3(2) scan_absolute [of retention_ground sc "[c]"] by (simp_all add: sc1_def)
    show ?thesis
    proof (cases "k \<le> length mid")
      case True
      then show ?thesis using k 3(1) sc1 quiet_take [OF 3(3), of k] by (simp add: sc1_def [symmetric] scan_bytes_quiet)
    next
      case False
      then have "n = length u" using n k 3(1) by simp
      moreover have "sc_last_boundary (scan_bytes sc u) = sc_absolute (scan_bytes sc1 mid) + 1"
        using 3(1,4) sc1 scan_byte_mark(3) [of "scan_bytes sc1 mid" z] by (simp add: sc1_def [symmetric] scan_bytes_state)
      ultimately show ?thesis using 3(1) sc1 by simp
    qed
  qed
qed

text \<open>Every position in a sequence of units is inside one of them.\<close>

lemma take_concat:
  assumes "0 < n" and "n \<le> length (concat us)"
  obtains k where "k < length us" and "length (concat (take k us)) < n" and "n \<le> length (concat (take k us)) + length (us ! k)"
    and "take n (concat us) = concat (take k us) @ take (n - length (concat (take k us))) (us ! k)"
  using assms
proof (induction us arbitrary: n thesis)
  case (Cons u us)
  show ?case
  proof (cases "n \<le> length u")
    case True
    then show ?thesis using Cons.prems by (intro Cons.prems(1) [of 0]) simp_all
  next
    case False
    obtain k where k: "k < length us" "length (concat (take k us)) < n - length u"
      "n - length u \<le> length (concat (take k us)) + length (us ! k)"
      "take (n - length u) (concat us) = concat (take k us) @ take (n - length u - length (concat (take k us))) (us ! k)"
      by (rule Cons.IH [of "n - length u"]) (use False Cons.prems in auto)
    then show ?thesis using False by (intro Cons.prems(1) [of "Suc k"]) (simp_all add: diff_diff_left)
  qed
qed simp

lemma units_state:
  assumes "\<forall>u \<in> set us. terminal_unit u" and "sc_state sc = RGround"
  shows "sc_state (scan_bytes sc (concat us)) = RGround"
  using assms by (induction us arbitrary: sc) (auto simp: shaped_scan(1) [OF unit_shaped])

text \<open>The boundary of a scan that stops inside a unit, or at its end, is the start of the unit or its end.\<close>

lemma scan_units:
  fixes a :: u64
  assumes "\<forall>u \<in> set us. terminal_unit u" and "k < length us" and "0 < n" and "n \<le> length (us ! k)"
  defines "start \<equiv> a + length (concat (take k us))"
  defines "sc \<equiv> scan_bytes (scan_from a) (concat (take k us) @ take n (us ! k))"
  shows "sc_last_boundary sc = start \<or> n = length (us ! k) \<and> sc_last_boundary sc = start + n"
proof -
  define sc0 where "sc0 = scan_bytes (scan_from a) (concat (take k us))"
  have "sc_state sc0 = RGround" "sc_absolute sc0 = start"
    using units_state [of "take k us" "scan_from a"] assms(1) set_take_subset [of k us] by (auto simp: sc0_def start_def)
  then show ?thesis
    using shaped_scan(2) [OF unit_shaped, of "us ! k" sc0 n] assms(1-4) by (auto simp: sc_def sc0_def)
qed

end
