(* ===== verification/Output_Journal_Props.thy ===== *)
theory Output_Journal_Props
  imports Terminal_Grammar
begin

text \<open>
  What the output journal promises: a reader that races the writer returns only bytes the terminal printed, the file
  takes a bounded amount of space, and the floor of the retained output lies between two units of terminal output. Two
  theorems describe where the code falls short: the floor can split a character behind an ESC, and a
  journal that is handed over puts its next retention check off.
\<close>

section \<open>A small journal\<close>

text \<open>A journal that starts at offset 1 and retains two bytes: one write of five bytes moves the floor behind the line break.\<close>

definition calm_env :: "nat \<Rightarrow> write_env" where
  "calm_env n = \<lparr>we_accepts = n, we_stat_ok = True, we_io_ok = True, we_blksize = 1, we_save = Saved, we_punch_ok = True, we_restore = Saved\<rparr>"

definition quiet_view :: "journal_world \<Rightarrow> read_view" where
  "quiet_view w = \<lparr>rv_exists = True, rv_len = w, rv_floor = w, rv_align = w, rv_data = w, rv_health = Some False, rv_stat2 = True, rv_len2 = w, rv_floor2 = w\<rparr>"

definition blank_world :: journal_world where "blank_world = \<lparr>jw_file = [], jw_sidecar = None\<rparr>"

definition demo_writer :: "u64 \<Rightarrow> u64 \<Rightarrow> retained_output_writer" where
  "demo_writer floor check = \<lparr>rw_retained_from = floor, rw_retain_bytes = 2, rw_advance_bytes = 1,
     rw_next_retention_check_at = check, rw_retention_disabled = False\<rparr>"

definition demo_world :: "journal_file \<Rightarrow> u64 \<Rightarrow> journal_world" where
  "demo_world f n = \<lparr>jw_file = f, jw_sidecar = Some (retention_at n)\<rparr>"

definition DEMO :: string where "DEMO = [CHR ''a'', CHR ''b'', CHR 0x0A, CHR ''c'', CHR ''d'']"

lemma demo_new:
  "writer_new Saved 1 2 1 blank_world =
    (Inr (demo_writer 1 4), [demo_world [] 1, demo_world [] 1, demo_world [None] 1])"
  by (simp add: writer_new_def blank_world_def save_output_retention_path_def demo_writer_def demo_world_def saturating_add64_def u64_max_def)

lemma demo_boundary: "safe_output_retention_boundary (None # map Some DEMO) 1 4 = Inr 4"
proof -
  have "read_exact (None # map Some DEMO) 1 (4 - 1) = Some [CHR ''a'', CHR ''b'', CHR 0x0A]"
    by (simp add: read_exact_def DEMO_def cell_byte_def)
  from retention_boundary_short [OF this]
  have "safe_output_retention_boundary (None # map Some DEMO) 1 4
      = Inr (sc_last_boundary (foldl (replay_scan_byte retention_ground) (scan_from 1) [CHR ''a'', CHR ''b'', CHR 0x0A]))"
    by (simp add: SESSION_OUTPUT_JOURNAL_CONTROL_SLACK_BYTES_def)
  also have "\<dots> = Inr 4" by code_simp
  finally show ?thesis .
qed

lemma DEMO_length: "length DEMO = 5"
  by (simp add: DEMO_def)

lemma demo_punch: "punch_output_hole (None # map Some DEMO) 1 3 = [None, None, None, None, Some (CHR ''c''), Some (CHR ''d'')]"
  by (simp add: punch_output_hole_def DEMO_def numeral_3_eq_3)

lemma demo_advance:
  "maybe_advance_retention (calm_env 5) (demo_writer 1 4) (demo_world (None # map Some DEMO) 1) =
    (Inr (), demo_writer 4 7, [demo_world (None # map Some DEMO) 4,
       demo_world [None, None, None, None, Some (CHR ''c''), Some (CHR ''d'')] 4])"
  by (simp add: maybe_advance_retention_def Let_def calm_env_def demo_writer_def demo_world_def demo_boundary [simplified] DEMO_length
      save_output_retention_path_def punch_published_def demo_punch [simplified] saturating_add64_def u64_max_def)

lemma demo_run:
  "writer_run [(calm_env 5, DEMO)] (demo_writer 1 4) (demo_world [None] 1) =
    (demo_writer 4 7, [demo_world [None] 1, demo_world (None # map Some DEMO) 1, demo_world (None # map Some DEMO) 4,
       demo_world [None, None, None, None, Some (CHR ''c''), Some (CHR ''d'')] 4,
       demo_world [None, None, None, None, Some (CHR ''c''), Some (CHR ''d'')] 4])"
proof -
  have w1: "(demo_world [None] 1)\<lparr>jw_file := jw_file (demo_world [None] 1) @ map Some (take (min (we_accepts (calm_env 5)) (length DEMO)) DEMO)\<rparr>
      = demo_world (None # map Some DEMO) 1"
    by (simp add: demo_world_def calm_env_def DEMO_length)
  have "writer_write (calm_env 5) DEMO (demo_writer 1 4) (demo_world [None] 1) =
     (5, demo_writer 4 7, [demo_world (None # map Some DEMO) 1, demo_world (None # map Some DEMO) 4,
       demo_world [None, None, None, None, Some (CHR ''c''), Some (CHR ''d'')] 4])"
    unfolding writer_write_def Let_def w1 demo_advance by (simp add: calm_env_def DEMO_length)
  then show ?thesis by simp
qed

definition demo_end :: journal_world where
  "demo_end = demo_world [None, None, None, None, Some (CHR ''c''), Some (CHR ''d'')] 4"

lemma demo_read:
  "read_output_chunk (Some 4) (Some 9) None (\<lambda>_. quiet_view demo_end) =
     Inr \<lparr>oc_data = ''cd'', oc_next_offset = 6, oc_exited = False, oc_exists = True\<rparr>"
  by (simp add: read_output_chunk_def read_output_chunk_with_retries.simps [of _ _ _ _ 3] read_attempt_def Let_def newest_file_len_def quiet_view_def demo_end_def demo_world_def
      read_output_retention_path_def retention_at_def read_start_def read_exact_def cell_byte_def exited_in_def)

section \<open>Readers beside the writer\<close>

text \<open>The system calls of an attempt see worlds of the run, in their order.\<close>

definition view_of :: "journal_world list \<Rightarrow> read_view \<Rightarrow> bool" where
  "view_of ws v \<longleftrightarrow> (\<exists>i1 i2 i3 i4 i5 i6. i1 \<le> i2 \<and> i2 \<le> i3 \<and> i3 \<le> i4 \<and> i4 \<le> i5 \<and> i5 \<le> i6 \<and> i6 < length ws \<and>
     rv_len v = ws ! i1 \<and> rv_floor v = ws ! i2 \<and> rv_align v = ws ! i3 \<and> rv_data v = ws ! i4 \<and>
     rv_len2 v = ws ! i5 \<and> rv_floor2 v = ws ! i6)"

lemma sorted_wrt_grows_nth: "sorted_wrt grows ws \<Longrightarrow> i \<le> j \<Longrightarrow> j < length ws \<Longrightarrow> grows (ws ! i) (ws ! j)"
  by (cases "i = j") (auto simp: sorted_wrt_iff_nth_less)

lemma view_of_grows:
  assumes "view_of ws v" and "sorted_wrt grows ws" and "list_all (world_ok H) ws"
  shows "grows (rv_len v) (rv_data v)" "grows (rv_data v) (rv_len2 v)" "grows (rv_data v) (rv_floor2 v)"
    "grows (rv_len2 v) (rv_floor2 v)" "world_ok H (rv_data v)" "world_ok H (rv_floor2 v)"
  using assms sorted_wrt_grows_nth [OF assms(2)]
  unfolding view_of_def list_all_length by (metis le_trans le_less_trans)+

lemma sampled_bytes:
  assumes read: "read_exact (jw_file u) start n = Some data"
    and u: "world_ok H u" and v: "world_ok H v" "grows u v"
    and no_hole: "read_output_retention_path v \<le> start"
  shows "data = take (length data) (drop start H)" and "start + length data \<le> length (jw_file u)"
    and "\<forall>i < length data. jw_file u ! (start + i) \<noteq> None"
proof -
  have len: "length data = n" "start + n \<le> length (jw_file u)"
    using read read_exact_length by (auto simp: read_exact_Some)
  have full: "jw_file u ! (start + i) = Some (H ! (start + i))" if "i < n" for i
  proof -
    have i: "start + i < length (jw_file u)" using that len by simp
    have "jw_file u ! (start + i) \<noteq> None"
    proof
      assume "jw_file u ! (start + i) = None"
      then have "jw_file v ! (start + i) = None" "start + i < length (jw_file v)"
        using v(2) i by (auto simp: grows_def)
      then show False using v(1) no_hole by (auto simp: world_ok_def)
    qed
    then show ?thesis using u i by (auto simp: world_ok_def)
  qed
  show "data = take (length data) (drop start H)"
  proof (rule nth_equalityI)
    show "length data = length (take (length data) (drop start H))"
      using len u by (auto simp: world_ok_def min_def)
    show "data ! i = take (length data) (drop start H) ! i" if "i < length data" for i
      using that len full [of i] read_exact_nth [OF read, of i] u by (simp add: cell_byte_def world_ok_def)
  qed
  show "start + length data \<le> length (jw_file u)" using len by simp
  show "\<forall>i < length data. jw_file u ! (start + i) \<noteq> None" using full len by simp
qed

text \<open>A sample that was not overtaken holds printed bytes.\<close>

lemma sample_sound:
  assumes att: "read_attempt offset mx tb v = Inr (Sample c)"
    and view: "view_of ws v" and ws: "sorted_wrt grows ws" "list_all (world_ok H) ws"
  shows "oc_data c = take (length (oc_data c)) (drop (oc_next_offset c - length (oc_data c)) H) \<and>
         (\<forall>i < length (oc_data c). jw_file (rv_data v) ! (oc_next_offset c - length (oc_data c) + i) \<noteq> None)
         \<and> (oc_data c \<noteq> [] \<longrightarrow> oc_next_offset c \<le> length (jw_file (rv_data v)))"
proof (cases "oc_data c = []")
  case True
  then show ?thesis by simp
next
  case False
  note g = view_of_grows [OF view ws]
  define fl where "fl = length (jw_file (rv_len v))"
  obtain start n data where read: "read_exact (jw_file (rv_data v)) start n = Some data" and n: "n \<le> fl - start"
      and fresh: "min (read_output_retention_path (rv_floor2 v)) (newest_file_len v) \<le> start"
      and c: "oc_data c = data" "oc_next_offset c = start + length data"
  proof -
    have ex: "rv_exists v" using att False by (cases "rv_exists v") (auto simp: read_attempt_def)
    obtain a l data where "read_exact (jw_file (rv_data v)) (min a fl) (min l (fl - min a fl)) = Some data"
      and "(if min a fl < min (read_output_retention_path (rv_floor2 v)) (newest_file_len v)
            then Overtaken (min (read_output_retention_path (rv_floor2 v)) (newest_file_len v)) (exited_in (rv_health v))
            else Sample \<lparr>oc_data = data, oc_next_offset = min a fl + length data,
                          oc_exited = exited_in (rv_health v), oc_exists = True\<rparr>) = Sample c"
      using att ex unfolding fl_def by (auto simp: read_attempt_def Let_def rbind_Inr_iff)
    then show thesis
      using that [of "min a fl" "min l (fl - min a fl)" data]
      by (cases "min a fl < min (read_output_retention_path (rv_floor2 v)) (newest_file_len v)")
        (auto simp del: min_less_iff_conj simp: linorder_not_less simp del: min.bounded_iff)
  qed
  have "0 < n" using False c read_exact_length [OF read] by auto
  then have "start < newest_file_len v"
    using n g(1,2) by (auto simp: grows_def fl_def newest_file_len_def)
  then have "read_output_retention_path (rv_floor2 v) \<le> start" using fresh by simp
  then show ?thesis
    using sampled_bytes [OF read g(5,6,3)] c by simp
qed

text \<open>A chunk with data is the sample of one of the attempts.\<close>

lemma read_retries_sample:
  "read_output_chunk_with_retries offset mx tb views r = Inr c \<Longrightarrow> oc_data c \<noteq> [] \<Longrightarrow>
     \<exists>k \<le> r. read_attempt offset mx tb (views k) = Inr (Sample c)"
proof (induction r)
  case 0
  obtain a where "read_attempt offset mx tb (views 0) = Inr a"
      and "(case a of Sample chunk \<Rightarrow> Inr chunk
             | Overtaken n e \<Rightarrow> Inr \<lparr>oc_data = [], oc_next_offset = n, oc_exited = e, oc_exists = True\<rparr>) = (Inr c :: journal_error + _)"
    using "0.prems"(1) by (subst (asm) read_output_chunk_with_retries.simps) (auto simp: rbind_Inr_iff)
  then show ?case using "0.prems"(2) by (cases a) auto
next
  case (Suc r)
  obtain a where a: "read_attempt offset mx tb (views (Suc r)) = Inr a"
      and c: "(case a of Sample chunk \<Rightarrow> Inr chunk
               | Overtaken _ _ \<Rightarrow> read_output_chunk_with_retries offset mx tb views r) = Inr c"
    using Suc.prems(1) by (subst (asm) read_output_chunk_with_retries.simps) (auto simp: rbind_Inr_iff)
  show ?case
  proof (cases a)
    case (Sample x)
    then show ?thesis using a c by auto
  next
    case Overtaken
    then show ?thesis using Suc.IH c Suc.prems(2) le_SucI by fastforce
  qed
qed

text \<open>What an answer of the reader holds, for the readers that are built on it.\<close>

lemma journal_read_sound:
  assumes new: "writer_new oc init retain adv w0 = (Inr wr, ws0)"
    and run: "writer_run ops wr (last ws0) = (wr', ws)"
    and views: "\<forall>k \<le> 3. view_of ws (views k)"
    and read: "read_output_chunk offset mx tb views = Inr c"
  shows "let start = oc_next_offset c - length (oc_data c) in
         oc_data c = take (length (oc_data c)) (drop (start - init) (accepted ops)) \<and>
         (oc_data c \<noteq> [] \<longrightarrow> init \<le> start \<and> start - init + length (oc_data c) \<le> length (accepted ops))"
proof (cases "oc_data c = []")
  case False
  define H where "H = replicate init (CHR 0x00) @ accepted ops"
  have ok: "list_all (world_ok H) ws" "sorted_wrt grows ws" "hd ws = last ws0" "ws \<noteq> []"
    using run_keeps [OF writer_new_ok(1) [OF new] run] by (simp_all add: H_def)
  obtain k where k: "k \<le> 3" "read_attempt offset mx tb (views k) = Inr (Sample c)"
    using read_retries_sample [OF read [unfolded read_output_chunk_def]] False by blast
  define start where "start = oc_next_offset c - length (oc_data c)"
  have view: "view_of ws (views k)" using views k(1) by simp
  have s: "oc_data c = take (length (oc_data c)) (drop start H)"
      "\<forall>i < length (oc_data c). jw_file (rv_data (views k)) ! (start + i) \<noteq> None"
    using sample_sound [OF k(2) view ok(2,1)] by (simp_all add: start_def)
  have gap: "jw_file (rv_data (views k)) ! i = None" if "i < init" for i
  proof -
    obtain j where "rv_data (views k) = ws ! j" "j < length ws" using view by (auto simp: view_of_def)
    then have "grows (last ws0) (rv_data (views k))"
      using sorted_wrt_grows_nth [OF ok(2), of 0 j] ok(3,4) by (simp add: hd_conv_nth)
    then show ?thesis using that writer_new_ok(4) [OF new] by (simp add: grows_def)
  qed
  have "init \<le> start"
    using s(2) [rule_format, of 0] gap [of start] False by (auto simp: not_less [symmetric])
  then have "drop start H = drop (start - init) (accepted ops)" by (simp add: H_def)
  then have "oc_data c = take (length (oc_data c)) (drop (start - init) (accepted ops))" using s(1) by simp
  moreover from this have "length (oc_data c) \<le> length (accepted ops) - (start - init)"
    by (metis length_drop length_take min.cobounded1 min.cobounded2)
  moreover have "0 < length (oc_data c)" using False by simp
  ultimately have "start - init + length (oc_data c) \<le> length (accepted ops)"
      "oc_data c = take (length (oc_data c)) (drop (start - init) (accepted ops))"
    by linarith+
  then show ?thesis
    using \<open>init \<le> start\<close> by (simp only: Let_def start_def [symmetric]) simp
qed simp

text \<open>C27. A reader of the output journal takes no lock, and while it reads, the writer of the session appends,
  publishes a higher floor and punches holes below it, with every outcome of its system calls. Whatever the
  interleaving, the bytes of an answer are exactly bytes the terminal printed, at the offsets the answer
  names; none is a NUL read from a hole, of the retention or of the gap a fresh journal starts behind.\<close>

theorem reader_returns_printed_bytes:
  assumes new: "writer_new oc init retain adv w0 = (Inr wr, ws0)"
    and run: "writer_run ops wr (last ws0) = (wr', ws)"
    and views: "\<forall>k \<le> 3. view_of ws (views k)"
    and read: "read_output_chunk offset mx tb views = Inr c"
  shows "let start = oc_next_offset c - length (oc_data c) in
         oc_data c = take (length (oc_data c)) (drop (start - init) (accepted ops)) \<and>
         (oc_data c \<noteq> [] \<longrightarrow> init \<le> start \<and> start - init + length (oc_data c) \<le> length (accepted ops))"
  by (rule journal_read_sound [OF assms])

theorem reader_returns_printed_bytes_witness:
  "writer_new Saved 1 2 1 blank_world = (Inr (demo_writer 1 4), [demo_world [] 1, demo_world [] 1, demo_world [None] 1]) \<and>
   read_output_chunk (Some 4) (Some 9) None (\<lambda>_. quiet_view demo_end) =
     Inr \<lparr>oc_data = ''cd'', oc_next_offset = 6, oc_exited = False, oc_exists = True\<rparr> \<and>
   ''cd'' = take 2 (drop 3 (accepted [(calm_env 5, DEMO)]))"
proof -
  have "view_of [demo_world [None] 1, demo_world (None # map Some DEMO) 1, demo_world (None # map Some DEMO) 4, demo_end, demo_end] (quiet_view demo_end)"
    unfolding view_of_def by (intro exI [of _ 3]) (simp add: quiet_view_def numeral_3_eq_3)
  then have views: "\<forall>k \<le> 3 :: nat. view_of [demo_world [None] 1, demo_world (None # map Some DEMO) 1,
      demo_world (None # map Some DEMO) 4, demo_end, demo_end] (quiet_view demo_end)"
    by blast
  have run: "writer_run [(calm_env 5, DEMO)] (demo_writer 1 4) (last [demo_world [] 1, demo_world [] 1, demo_world [None] 1]) =
    (demo_writer 4 7, [demo_world [None] 1, demo_world (None # map Some DEMO) 1, demo_world (None # map Some DEMO) 4, demo_end, demo_end])"
    unfolding demo_end_def demo_run [symmetric] by (simp only: last.simps) simp
  show ?thesis
    using reader_returns_printed_bytes [OF demo_new run views demo_read] demo_new demo_read by (simp add: numeral_2_eq_2)
qed

text \<open>C29. Over any sequence of writes to a fresh journal, with any answers of the operating system, the file takes at most the retained
  bytes, one advance, the slack for an unterminated control string and two blocks of disk space, as long
  as retention has not been turned off by an error.\<close>

theorem journal_space_bounded:
  assumes "writer_new oc init retain adv w0 = (Inr wr, ws0)"
    and "writer_run ops wr (last ws0) = (wr', ws)"
    and "\<forall>(env, bs) \<in> set ops. max (we_blksize env) 1 = b"
    and "\<not> rw_retention_disabled wr'"
  shows "allocated (jw_file (last ws)) \<le> max retain 1 + max adv 1 + SESSION_OUTPUT_JOURNAL_CONTROL_SLACK_BYTES + 2 * max b 1"
proof -
  have blocks: "\<forall>(env, bs) \<in> set ops. max (we_blksize env) 1 = max b 1" using assms(3) by fastforce
  have "space_ok (max b 1) wr' (last ws)" "journal_span (max b 1) wr' = journal_span (max b 1) wr"
    using run_space [OF assms(2) writer_new_ok(2) [OF assms(1)] blocks assms(4)] by simp_all
  then show ?thesis
    using space_ok_allocated [of "max b 1" wr' "last ws"] writer_new_ok(3) [OF assms(1), of "max b 1"] by linarith
qed

theorem journal_space_bounded_witness:
  "writer_run [(calm_env 5, DEMO)] (demo_writer 1 4) (demo_world [None] 1) =
    (demo_writer 4 7, [demo_world [None] 1, demo_world (None # map Some DEMO) 1, demo_world (None # map Some DEMO) 4, demo_end, demo_end]) \<and>
   allocated (jw_file demo_end) \<le> 2 + 1 + SESSION_OUTPUT_JOURNAL_CONTROL_SLACK_BYTES + 2"
  using journal_space_bounded [OF demo_new, of "[(calm_env 5, DEMO)]" "demo_writer 4 7" _ 1] demo_run
  by (simp add: demo_end_def [symmetric] demo_writer_def calm_env_def)

section \<open>The retained floor\<close>

text \<open>C30. Retention never cuts a unit of terminal output, a character or a control sequence, in two, so that a replay from the new
  floor reads whole units as the terminal did. If the output retained from the old floor on is a sequence of units, the last of which may still be
  unfinished, then the new floor is the start of the unit that holds the byte before the desired floor, or the end of that unit. Only when
  this unit reaches back further than the slack is the floor forced into it, within three bytes of the desired one. In every
  case the new floor lies between the old and the desired one, and at most the slack below the latter.\<close>

theorem floor_between_units:
  assumes "safe_output_retention_boundary f s d = Inr b" and "s < d"
    and "stretch f s (length f) @ unprinted = concat us" and "\<forall>u \<in> set us. terminal_unit u"
  shows "s \<le> b \<and> b \<le> d \<and> d - b \<le> SESSION_OUTPUT_JOURNAL_CONTROL_SLACK_BYTES \<and>
    (\<exists>k < length us. \<exists>start. start = s + length (concat (take k us)) \<and> start < d \<and> d \<le> start + length (us ! k) \<and>
      (b = start \<or> b = start + length (us ! k) \<or> SESSION_OUTPUT_JOURNAL_CONTROL_SLACK_BYTES < d - start \<and> d - b \<le> 3))"
proof -
  obtain bs where bs: "read_exact f s (d - s) = Some bs" using retention_boundary_reads [OF assms(1,2)] .
  have d: "bs = stretch f s d" "d \<le> length f" using read_exact_stretch [OF bs] assms(2) by simp_all
  have "concat us = bs @ stretch f d (length f) @ unprinted"
    using stretch_split [of s d "length f" f] assms(2) d by (simp add: assms(3) [symmetric])
  moreover have "length bs = d - s" using stretch_length [OF d(2)] by (simp add: d(1))
  ultimately have units: "bs = take (d - s) (concat us)" "d - s \<le> length (concat us)" by simp_all
  obtain k where k: "k < length us" "length (concat (take k us)) < d - s" "d - s \<le> length (concat (take k us)) + length (us ! k)"
      "bs = concat (take k us) @ take (d - s - length (concat (take k us))) (us ! k)"
    using take_concat [of "d - s" us] assms(2) units by auto
  define start where "start = s + length (concat (take k us))"
  have start: "start < d" "d \<le> start + length (us ! k)" "d - s - length (concat (take k us)) = d - start"
    using k(2,3) by (auto simp: start_def)
  define last where "last = sc_last_boundary (scan_bytes (scan_from s) bs)"
  have last: "last = start \<or> last = d \<and> d = start + length (us ! k)"
  proof -
    have "d - start \<le> length (us ! k)" using start(2) by simp
    from scan_units [OF assms(4) k(1) _ this, of s] show ?thesis
      using start(1,2) k(4) by (auto simp: last_def start(3) start_def [symmetric])
  qed
  have "b = start \<or> b = start + length (us ! k) \<or> SESSION_OUTPUT_JOURNAL_CONTROL_SLACK_BYTES < d - start \<and> d - b \<le> 3"
    using assms(1,2)
  proof (cases rule: retention_boundary_cases)
    case (safe bs')
    then show ?thesis using bs last by (auto simp: last_def)
  next
    case forced
    then show ?thesis using forced(7) [OF bs] last by (auto simp: last_def)
  qed
  then show ?thesis using k(1) start retention_boundary_bounds [OF assms(1)] assms(2) by (auto simp: start_def)
qed

text \<open>A line, then a window title whose terminator is not retained yet: the floor stays in front of the title.\<close>

definition TITLE :: string where "TITLE = ESC_BYTE # CHR '']'' # ''0;t'' @ [CHR 0x07]"

lemma title_units: "\<forall>u \<in> set [''a'', [CHR 0x0A], TITLE]. terminal_unit u"
proof -
  have "terminal_unit TITLE" unfolding TITLE_def
    by (rule terminal_unit.osc_bel) (auto simp: string_data_def CANCELS_def ESC_BYTE_def)
  moreover have "terminal_unit ''a''" "terminal_unit [CHR 0x0A]"
    using terminal_unit.char [of "CHR ''a''" "[]"] terminal_unit.char [of "CHR 0x0A" "[]"]
    by (simp_all add: utf8_cont_def byte_val_def ESC_BYTE_def)
  ultimately show ?thesis by simp
qed

lemma title_boundary: "safe_output_retention_boundary (map Some (''a'' @ CHR 0x0A # butlast TITLE)) 0 5 = Inr 2"
proof -
  have r: "read_exact (map Some (''a'' @ CHR 0x0A # butlast TITLE)) 0 (5 - 0) = Some (''a'' @ CHR 0x0A # ESC_BYTE # CHR '']'' # ''0'')"
    by (simp add: read_exact_def TITLE_def cell_byte_def)
  show ?thesis
    using retention_boundary_short [OF r] by (simp add: SESSION_OUTPUT_JOURNAL_CONTROL_SLACK_BYTES_def scan_from_def replay_scan_byte_def replay_step_def
        retention_ground_def control_step_def is_utf8_continuation_byte_def ESC_BYTE_def byte_val_def)
qed

theorem floor_between_units_witness:
  "safe_output_retention_boundary (map Some (''a'' @ CHR 0x0A # butlast TITLE)) 0 5 = Inr 2 \<and>
   (\<exists>k < 3. 2 = length (concat (take k [''a'', [CHR 0x0A], TITLE])))"
proof -
  have "stretch (map Some (''a'' @ CHR 0x0A # butlast TITLE)) 0 (length (map Some (''a'' @ CHR 0x0A # butlast TITLE))) @ [CHR 0x07]
      = concat [''a'', [CHR 0x0A], TITLE]"
    by (simp add: stretch_def cell_byte_def TITLE_def)
  from floor_between_units [OF title_boundary _ this title_units]
  show ?thesis using title_boundary
    by (auto simp: TITLE_def SESSION_OUTPUT_JOURNAL_CONTROL_SLACK_BYTES_def numeral_3_eq_3)
qed

text \<open>When the retained output is valid UTF-8 and no ESC stands directly before a byte outside ASCII, the new
  floor is never inside a character.\<close>

lemma floor_starts_character:
  assumes bd: "safe_output_retention_boundary f s d = Inr b" and "s < d" and "b < length f"
    and valid: "utf8_valid (stretch f s (length f))"
    and esc: "\<forall>i. Suc i < length f \<longrightarrow> cell_byte (f ! i) = ESC_BYTE \<longrightarrow> byte_val (cell_byte (f ! Suc i)) < 128"
  shows "\<not> is_utf8_continuation_byte (cell_byte (f ! b))"
proof
  assume cont: "is_utf8_continuation_byte (cell_byte (f ! b))"
  have nth: "stretch f s (length f) ! (i - s) = cell_byte (f ! i)" if "s \<le> i" "i < length f" for i
    using stretch_nth [of s "i - s" "length f" f] that by simp
  have follows: "s < i \<and> 128 \<le> byte_val (cell_byte (f ! (i - 1)))"
    if "is_utf8_continuation_byte (cell_byte (f ! i))" "s \<le> i" "i < length f" for i
  proof -
    have "0 < i - s \<and> 128 \<le> byte_val (stretch f s (length f) ! (i - s - 1))"
      using utf8_cont_follows [OF valid, of "i - s"] that nth [of i]
      by (simp add: stretch_length is_utf8_continuation_byte_iff)
    then show ?thesis using nth [of "i - 1"] that by (cases i) auto
  qed
  from bd \<open>s < d\<close> show False
  proof (cases rule: retention_boundary_cases)
    case (safe bs)
    have bs: "bs ! i = cell_byte (f ! (s + i))" if "i < d - s" for i
      using read_exact_nth [OF safe(1) that] .
    have len: "length bs = d - s" using read_exact_length [OF safe(1)] .
    have prev: "s < b" "128 \<le> byte_val (cell_byte (f ! (b - 1)))"
      using follows [OF cont safe(3) \<open>b < length f\<close>] by simp_all
    have "b - s = 0 \<or> (b - s < length bs \<and> \<not> is_utf8_continuation_byte (bs ! (b - s)))
        \<or> byte_val (bs ! (b - s - 1)) < 128 \<or> (2 \<le> b - s \<and> bs ! (b - s - 2) = ESC_BYTE)"
      using scan_boundary_start [of s bs] safe(2) by simp
    moreover have "bs ! (b - s - 1) = cell_byte (f ! (b - 1))"
      using bs [of "b - s - 1"] prev(1) safe(4) by simp
    moreover have "b - s < length bs \<Longrightarrow> bs ! (b - s) = cell_byte (f ! b)"
      using bs [of "b - s"] prev(1) len by simp
    moreover have "2 \<le> b - s \<Longrightarrow> bs ! (b - s - 2) = ESC_BYTE \<Longrightarrow> byte_val (cell_byte (f ! (b - 1))) < 128"
      using bs [of "b - s - 2"] safe(4) esc [rule_format, of "b - 2"] \<open>b < length f\<close> by (simp add: numeral_2_eq_2 Suc_diff_Suc)
    ultimately show False using prev cont by auto
  next
    case forced
    then have all: "b = d" "\<forall>i \<in> {max (d - 3) s..d}. is_utf8_continuation_byte (cell_byte (f ! i))" using cont by auto
    have "max (d - 3) s \<noteq> s" using follows [of s] all forced(5) \<open>s < d\<close> \<open>b < length f\<close> by auto
    then have j: "s \<le> d - 3" "3 \<le> d" by auto
    then obtain k where "k \<in> {d - 3 - s..d - 3 - s + 3}" "\<not> utf8_cont (stretch f s (length f) ! k)"
      using utf8_cont_run [OF valid, of "d - 3 - s"] \<open>b < length f\<close> all(1) by (force simp: stretch_length)
    then have "\<not> is_utf8_continuation_byte (cell_byte (f ! (s + k)))" "d - 3 \<le> s + k" "s + k \<le> d"
      using nth [of "s + k"] j all(1) \<open>b < length f\<close> by (auto simp: is_utf8_continuation_byte_iff)
    then show False using all(2) j by auto
  qed
qed

text \<open>The floor can split a character: a byte behind an ESC ends the escape sequence whatever it is, so for the valid UTF-8
  output ESC, then a three-byte character, the floor is the second byte of the character.\<close>

lemma floor_splits_character:
  "let bs = [ESC_BYTE, CHR 0xE2, CHR 0x82, CHR 0xAC, CHR ''x''] in
   utf8_valid bs \<and> safe_output_retention_boundary (map Some bs) 0 4 = Inr 2 \<and> is_utf8_continuation_byte (bs ! 2)"
proof -
  define bs where "bs = [ESC_BYTE, CHR 0xE2, CHR 0x82, CHR 0xAC, CHR ''x'']"
  have "read_exact (map Some bs) 0 (4 - 0) = Some [ESC_BYTE, CHR 0xE2, CHR 0x82, CHR 0xAC]"
    by (simp add: read_exact_def bs_def cell_byte_def)
  from retention_boundary_short [OF this]
  have "safe_output_retention_boundary (map Some bs) 0 4
      = Inr (sc_last_boundary (foldl (replay_scan_byte retention_ground) (scan_from 0) [ESC_BYTE, CHR 0xE2, CHR 0x82, CHR 0xAC]))"
    by (simp add: SESSION_OUTPUT_JOURNAL_CONTROL_SLACK_BYTES_def)
  also have "\<dots> = Inr 2"
    by (simp add: scan_from_def replay_scan_byte_def replay_step_def retention_ground_def control_step_def ESC_BYTE_def
        is_utf8_continuation_byte_def byte_val_def)
  finally have "safe_output_retention_boundary (map Some bs) 0 4 = Inr 2" .
  moreover have "utf8_valid bs \<and> is_utf8_continuation_byte (bs ! 2)"
    by (simp add: bs_def ESC_BYTE_def is_utf8_continuation_byte_def byte_val_def utf8_second_def utf8_cont_def)
  ultimately show ?thesis unfolding Let_def bs_def [symmetric] by blast
qed

section \<open>Hand-over\<close>

text \<open>A journal that is handed from core to core: every owner reopens it and writes for a while.\<close>

fun handoff_run :: "u64 \<Rightarrow> u64 \<Rightarrow> (write_env \<times> string) list list \<Rightarrow> journal_world \<Rightarrow> journal_world" where
  "handoff_run retain adv [] w = w"
| "handoff_run retain adv (ops # rest) w =
     (case writer_reopen (length (jw_file w)) retain adv w of
        Inl _ \<Rightarrow> w
      | Inr wr \<Rightarrow> handoff_run retain adv rest (last (snd (writer_run ops wr w))))"

lemma write_below_check:
  assumes "length (jw_file w) + length bs < rw_next_retention_check_at wr" and "we_stat_ok env"
  shows "\<exists>k ws. writer_write env bs wr w = (k, wr, ws) \<and>
           last (w # ws) = w\<lparr>jw_file := jw_file w @ map Some (take (we_accepts env) bs)\<rparr>"
proof (cases "min (we_accepts env) (length bs) = 0")
  case True
  then have "take (we_accepts env) bs = []" by (simp add: min_def split: if_splits)
  then show ?thesis using True by (simp only: writer_write_def Let_def) simp
next
  case False
  define w1 where "w1 = w\<lparr>jw_file := jw_file w @ map Some (take (we_accepts env) bs)\<rparr>"
  have tk: "take (min (we_accepts env) (length bs)) bs = take (we_accepts env) bs" by (simp add: min_def)
  have "length (jw_file w1) \<le> length (jw_file w) + length bs" by (simp add: w1_def)
  then have "length (jw_file w1) < rw_next_retention_check_at wr" using assms(1) by simp
  then have "maybe_advance_retention env wr w1 = (Inr (), wr, [])"
    using assms(2) by (simp only: maybe_advance_retention_def Let_def) simp
  then have "writer_write env bs wr w = (min (we_accepts env) (length bs), wr, [w1])"
    using False by (simp only: writer_write_def Let_def tk w1_def [symmetric]) simp
  then show ?thesis by (simp add: w1_def)
qed

lemma run_below_check:
  "length (jw_file w) + length (concat (map snd ops)) < rw_next_retention_check_at wr \<Longrightarrow> \<forall>(env, bs) \<in> set ops. we_stat_ok env \<Longrightarrow>
     last (snd (writer_run ops wr w)) = w\<lparr>jw_file := jw_file w @ map Some (accepted ops)\<rparr>"
proof (induction ops arbitrary: w)
  case (Cons op ops)
  obtain env bs where op: "op = (env, bs)" by (cases op)
  obtain k us where wt: "writer_write env bs wr w = (k, wr, us)"
      and l: "last (w # us) = w\<lparr>jw_file := jw_file w @ map Some (take (we_accepts env) bs)\<rparr>"
    using write_below_check [of w bs wr env] Cons.prems by (auto simp: op)
  obtain wr2 vs where run: "writer_run ops wr (last (w # us)) = (wr2, vs)" by (cases "writer_run ops wr (last (w # us))")
  have ne: "vs \<noteq> []" using run by (cases ops) (auto split: prod.splits)
  have "last (snd (writer_run ops wr (last (w # us)))) = w\<lparr>jw_file := jw_file w @ map Some (accepted (op # ops))\<rparr>"
    using Cons.IH [of "last (w # us)"] Cons.prems by (simp add: l op del: last.simps)
  moreover have "snd (writer_run (op # ops) wr w) = (w # us) @ vs"
    using run by (simp add: op wt del: last.simps)
  ultimately show ?case using ne run by simp
qed simp

text \<open>A journal that is handed over is checked against its retention only after it has grown by another full window
  from where it was handed over, not from its floor: a chain of owners that each write less than the window never gives a
  byte back, so the file outgrows every bound.\<close>

lemma handoffs_outgrow_bound:
  assumes "\<forall>ops \<in> set opss. length (concat (map snd ops)) < max retain 1 + max adv 1 \<and> (\<forall>(env, bs) \<in> set ops. we_stat_ok env)"
    and "length (jw_file w) + length opss * (max retain 1 + max adv 1) \<le> u64_max"
  shows "allocated (jw_file (handoff_run retain adv opss w)) = allocated (jw_file w) + length (concat (map accepted opss))"
  using assms
proof (induction opss arbitrary: w)
  case (Cons ops opss)
  define m where "m = max retain 1 + max adv 1"
  obtain wr where wr: "writer_reopen (length (jw_file w)) retain adv w = Inr wr"
      "rw_next_retention_check_at wr = saturating_add64 (saturating_add64 (length (jw_file w)) (max retain 1)) (max adv 1)"
    by (simp add: writer_reopen_def)
  have fits: "length (jw_file w) + m + length opss * m \<le> u64_max" using Cons.prems(2) by (simp add: m_def)
  have check: "rw_next_retention_check_at wr = length (jw_file w) + m"
    unfolding wr(2) using fits by (simp add: saturating_add64_def m_def)
  have ops: "length (concat (map snd ops)) < m" "\<forall>(env, bs) \<in> set ops. we_stat_ok env"
    using Cons.prems(1) by (simp_all add: m_def)
  define w1 where "w1 = w\<lparr>jw_file := jw_file w @ map Some (accepted ops)\<rparr>"
  have last: "last (snd (writer_run ops wr w)) = w1"
    unfolding w1_def by (rule run_below_check) (use ops check in simp_all)
  have "length (accepted os) \<le> length (concat (map snd os))" for os
    by (induction os) (auto simp: accepted_def intro: add_mono)
  from this [of ops] have "length (accepted ops) \<le> m" using ops(1) by simp
  then have "length (jw_file w1) + length opss * m \<le> u64_max" using fits by (simp add: w1_def)
  then have "allocated (jw_file (handoff_run retain adv opss w1)) = allocated (jw_file w1) + length (concat (map accepted opss))"
    using Cons.IH [of w1] Cons.prems(1) by (simp add: m_def)
  then show ?case by (simp add: wr(1) last w1_def)
qed simp

end
