(* ===== verification/Output_Stream.thy ===== *)
theory Output_Stream
  imports Output_Journal Bytes
begin

text \<open>
  Model of the live output stream of a session: the \<open>OutputBroadcaster\<close> and the frame format of
  \<open>crates/unpeel-core/src/session_host.rs\<close>, and the streaming clients of \<open>SessionIo\<close> in \<open>crates/unpeel-core/src/session_io.rs\<close>
  (\<open>pump_stream_client\<close>, \<open>flush_client_outbuf\<close>, the hand-over to another core). The channel between
  the broadcaster and a client is kept under the subscriber's number; the answers of a socket are an argument.
\<close>

definition SESSION_OUTPUT_STREAM_RECENT_BYTES :: nat where "SESSION_OUTPUT_STREAM_RECENT_BYTES = 128 * 1024"
definition SESSION_OUTPUT_STREAM_SUBSCRIBER_MAX_BUFFERED_BYTES :: nat where
  "SESSION_OUTPUT_STREAM_SUBSCRIBER_MAX_BUFFERED_BYTES = 8 * 1024 * 1024"
definition SESSION_OUTPUT_STREAM_BATCH_MAX_BYTES :: nat where "SESSION_OUTPUT_STREAM_BATCH_MAX_BYTES = 64 * 1024"
definition SESSION_OUTPUT_STREAM_MAX_FRAME_BYTES :: nat where "SESSION_OUTPUT_STREAM_MAX_FRAME_BYTES = 8 * 1024 * 1024"
definition SESSION_OUTPUT_STREAM_FRAME_HEADER_BYTES :: nat where "SESSION_OUTPUT_STREAM_FRAME_HEADER_BYTES = 13"
definition IDLE_RELEASE_AFTER :: millis where "IDLE_RELEASE_AFTER = 1000"
definition SESSION_OUTPUT_STREAM_WRITE_TIMEOUT_MS :: millis where "SESSION_OUTPUT_STREAM_WRITE_TIMEOUT_MS = 60000"

section \<open>Frames\<close>

definition frame_flags :: "session_output_chunk \<Rightarrow> nat" where
  "frame_flags c = (if oc_exited c then 1 else 0) + (if oc_exists c then 2 else 0)"

definition session_output_frame_bytes :: "session_output_chunk \<Rightarrow> string" where
  "session_output_frame_bytes c =
     be32 (length (oc_data c) mod 2 ^ 32) @ be64 (oc_next_offset c) @ [char_of (frame_flags c)] @ oc_data c"

text \<open>What one read of a frame gives: the chunk with the rest of the stream, the end of the stream in the
  header, the end in the payload, or a frame that is too large.\<close>

datatype output_stream_read = FrameChunk session_output_chunk string | FrameClosed | PayloadFailed | FrameTooLarge nat

definition read_output_stream_frame :: "string \<Rightarrow> output_stream_read" where
  "read_output_stream_frame s =
     (if length s < SESSION_OUTPUT_STREAM_FRAME_HEADER_BYTES then FrameClosed
      else let n = be_val (take 4 s);
               next_offset = be_val (take 8 (drop 4 s));
               flags = byte_val (s ! 12);
               rest = drop 13 s
      in if n > SESSION_OUTPUT_STREAM_MAX_FRAME_BYTES then FrameTooLarge n
         else if length rest < n then PayloadFailed
         else FrameChunk \<lparr>oc_data = take n rest, oc_next_offset = next_offset,
                          oc_exited = odd flags, oc_exists = odd (flags div 2)\<rparr> (drop n rest))"

section \<open>The broadcaster\<close>

text \<open>A channel: the chunks in it, the bytes counted against the subscriber, and whether each end is still there.\<close>

record channel =
  ch_queue :: "session_output_chunk list"
  ch_buffered :: nat
  ch_sender :: bool
  ch_receiver :: bool

definition new_channel :: channel where
  "new_channel = \<lparr>ch_queue = [], ch_buffered = 0, ch_sender = True, ch_receiver = True\<rparr>"

record output_stream_subscriber =
  sb_id :: u64
  sb_answers_queries :: bool

record recent_output_chunk =
  rc_start_offset :: u64
  rc_data :: string

record output_broadcaster =
  ob_next_subscriber_id :: u64
  ob_next_offset :: u64
  ob_exited :: bool
  ob_recent_bytes :: nat
  ob_recent :: "recent_output_chunk list"
  ob_subscribers :: "output_stream_subscriber list"

type_synonym channels = "u64 \<Rightarrow> channel"

definition at_offset :: "u64 \<Rightarrow> output_broadcaster" where
  "at_offset n = \<lparr>ob_next_subscriber_id = 0, ob_next_offset = n, ob_exited = False, ob_recent_bytes = 0,
                  ob_recent = [], ob_subscribers = []\<rparr>"

definition enqueue_output_chunk :: "session_output_chunk \<Rightarrow> channel \<Rightarrow> bool \<times> channel" where
  "enqueue_output_chunk c ch =
     (if ch_buffered ch > SESSION_OUTPUT_STREAM_SUBSCRIBER_MAX_BUFFERED_BYTES then (False, ch)
      else if \<not> ch_receiver ch then (False, ch)
      else (True, ch\<lparr>ch_queue := ch_queue ch @ [c], ch_buffered := ch_buffered ch + length (oc_data c)\<rparr>))"

text \<open>\<open>retain\<close>: the senders of the subscribers that are dropped go with them.\<close>

fun retain_enqueued ::
  "session_output_chunk \<Rightarrow> output_stream_subscriber list \<Rightarrow> channels \<Rightarrow> output_stream_subscriber list \<times> channels" where
  "retain_enqueued c [] chs = ([], chs)"
| "retain_enqueued c (s # ss) chs =
     (case enqueue_output_chunk c (chs (sb_id s)) of (keep, ch) \<Rightarrow>
        case retain_enqueued c ss (chs(sb_id s := if keep then ch else ch\<lparr>ch_sender := False\<rparr>)) of (kept, chs') \<Rightarrow>
          (if keep then s # kept else kept, chs'))"

definition live_chunk :: "string \<Rightarrow> u64 \<Rightarrow> session_output_chunk" where
  "live_chunk data n = \<lparr>oc_data = data, oc_next_offset = n, oc_exited = False, oc_exists = True\<rparr>"

definition exit_chunk :: "u64 \<Rightarrow> session_output_chunk" where
  "exit_chunk n = \<lparr>oc_data = [], oc_next_offset = n, oc_exited = True, oc_exists = True\<rparr>"

fun pop_recent :: "nat \<Rightarrow> recent_output_chunk list \<Rightarrow> nat \<times> recent_output_chunk list" where
  "pop_recent bytes [] = (bytes, [])"
| "pop_recent bytes (r # rs) =
     (if bytes > SESSION_OUTPUT_STREAM_RECENT_BYTES then pop_recent (bytes - length (rc_data r)) rs else (bytes, r # rs))"

definition broadcast_chunk :: "string \<Rightarrow> output_broadcaster \<Rightarrow> channels \<Rightarrow> output_broadcaster \<times> channels" where
  "broadcast_chunk data b chs =
     (if data = [] then (b, chs)
      else let next_offset = ob_next_offset b + length data in
        case pop_recent (ob_recent_bytes b + length data)
               (ob_recent b @ [\<lparr>rc_start_offset = ob_next_offset b, rc_data = data\<rparr>]) of (bytes, recent) \<Rightarrow>
        case retain_enqueued (live_chunk data next_offset) (ob_subscribers b) chs of (subs, chs') \<Rightarrow>
          (b\<lparr>ob_next_offset := next_offset, ob_recent_bytes := bytes, ob_recent := recent, ob_subscribers := subs\<rparr>, chs'))"

definition mark_exited :: "output_broadcaster \<Rightarrow> channels \<Rightarrow> output_broadcaster \<times> channels" where
  "mark_exited b chs =
     (case retain_enqueued (exit_chunk (ob_next_offset b)) (ob_subscribers b) chs of (subs, chs') \<Rightarrow>
        (b\<lparr>ob_exited := True, ob_subscribers := []\<rparr>,
         \<lambda>i. if i \<in> sb_id ` set subs then (chs' i)\<lparr>ch_sender := False\<rparr> else chs' i))"

text \<open>The part of a recent chunk behind the offset.\<close>

definition recent_tail :: "u64 \<Rightarrow> recent_output_chunk \<Rightarrow> session_output_chunk list" where
  "recent_tail offset r =
     (let chunk_end = rc_start_offset r + length (rc_data r);
          data = drop (offset - rc_start_offset r) (rc_data r)
      in if chunk_end \<le> offset \<or> data = [] then [] else [live_chunk data chunk_end])"

definition enqueue_all :: "session_output_chunk list \<Rightarrow> channel \<Rightarrow> channel" where
  "enqueue_all cs ch = foldl (\<lambda>ch c. snd (enqueue_output_chunk c ch)) ch cs"

definition subscribe ::
  "u64 \<Rightarrow> bool \<Rightarrow> output_broadcaster \<Rightarrow> channels \<Rightarrow> (output_broadcaster \<times> channels \<times> u64) option" where
  "subscribe offset answers_queries b chs =
     (let oldest_available = (case ob_recent b of r # _ \<Rightarrow> rc_start_offset r | [] \<Rightarrow> ob_next_offset b) in
      if offset < oldest_available \<or> offset > ob_next_offset b then None
      else let sid = saturating_add64 (ob_next_subscriber_id b) 1;
               ch = enqueue_all (concat (map (recent_tail offset) (ob_recent b))) new_channel;
               b1 = b\<lparr>ob_next_subscriber_id := sid\<rparr>
      in Some (if ob_exited b
               then (b1, chs(sid := (enqueue_all [exit_chunk (ob_next_offset b)] ch)\<lparr>ch_sender := False\<rparr>), sid)
               else (b1\<lparr>ob_subscribers := ob_subscribers b @ [\<lparr>sb_id = sid, sb_answers_queries = answers_queries\<rparr>]\<rparr>,
                     chs(sid := ch), sid)))"

definition has_answering_subscriber :: "output_broadcaster \<Rightarrow> bool" where
  "has_answering_subscriber b = list_ex sb_answers_queries (ob_subscribers b)"

definition subscriber_answers_queries :: "u64 \<Rightarrow> output_broadcaster \<Rightarrow> bool" where
  "subscriber_answers_queries i b = list_ex (\<lambda>s. sb_id s = i \<and> sb_answers_queries s) (ob_subscribers b)"

definition remove_subscriber :: "u64 \<Rightarrow> output_broadcaster \<Rightarrow> channels \<Rightarrow> output_broadcaster \<times> channels" where
  "remove_subscriber i b chs =
     (b\<lparr>ob_subscribers := filter (\<lambda>s. sb_id s \<noteq> i) (ob_subscribers b)\<rparr>,
      if i \<in> sb_id ` set (ob_subscribers b) then chs(i := (chs i)\<lparr>ch_sender := False\<rparr>) else chs)"

definition has_subscribers :: "output_broadcaster \<Rightarrow> bool" where
  "has_subscribers b \<longleftrightarrow> ob_subscribers b \<noteq> []"

definition release_recent :: "output_broadcaster \<Rightarrow> output_broadcaster" where
  "release_recent b = b\<lparr>ob_recent := [], ob_recent_bytes := 0\<rparr>"

section \<open>Streaming clients\<close>

text \<open>\<open>cl_socket\<close> is what the socket has accepted so far.\<close>

record stream_client =
  cl_subscriber_id :: u64
  cl_pending :: "session_output_chunk option"
  cl_closing :: bool
  cl_outbuf :: string
  cl_out_pos :: nat
  cl_write_interest :: bool
  cl_last_progress :: millis
  cl_socket :: string

text \<open>One answer of \<open>write\<close> on the socket; a socket with no answer left is full.\<close>

datatype sock_result = SockWrote nat | SockFull | SockInterrupted | SockFailed

text \<open>The write loop: whether the client is still there, the answers that are left, and the client.\<close>

fun write_outbuf ::
  "millis \<Rightarrow> sock_result list \<Rightarrow> stream_client \<Rightarrow> bool \<times> sock_result list \<times> stream_client" where
  "write_outbuf now [] cl = (True, [], cl)"
| "write_outbuf now (w # ws) cl =
     (if length (cl_outbuf cl) \<le> cl_out_pos cl then (True, w # ws, cl)
      else (case w of
          SockWrote n \<Rightarrow>
            (let k = min n (length (cl_outbuf cl) - cl_out_pos cl) in
             if k = 0 then (False, ws, cl)
             else write_outbuf now ws (cl\<lparr>cl_out_pos := cl_out_pos cl + k, cl_last_progress := now,
                    cl_socket := cl_socket cl @ take k (drop (cl_out_pos cl) (cl_outbuf cl))\<rparr>))
        | SockFull \<Rightarrow> (True, ws, cl)
        | SockInterrupted \<Rightarrow> write_outbuf now ws cl
        | SockFailed \<Rightarrow> (False, ws, cl)))"

text \<open>The written prefix of the buffer goes once it is half of it.\<close>

definition compact_outbuf :: "stream_client \<Rightarrow> stream_client" where
  "compact_outbuf cl =
     (if cl_out_pos cl \<ge> length (cl_outbuf cl) then cl\<lparr>cl_outbuf := [], cl_out_pos := 0\<rparr>
      else if cl_out_pos cl > 0 \<and> cl_out_pos cl \<ge> length (cl_outbuf cl) div 2
      then cl\<lparr>cl_outbuf := drop (cl_out_pos cl) (cl_outbuf cl), cl_out_pos := 0\<rparr>
      else cl)"

definition stalled :: "millis \<Rightarrow> stream_client \<Rightarrow> bool" where
  "stalled now cl \<longleftrightarrow> cl_outbuf cl \<noteq> [] \<and> now - cl_last_progress cl > SESSION_OUTPUT_STREAM_WRITE_TIMEOUT_MS"

definition flush_client_outbuf ::
  "millis \<Rightarrow> sock_result list \<Rightarrow> stream_client \<Rightarrow> bool \<times> sock_result list \<times> stream_client" where
  "flush_client_outbuf now ws cl =
     (case write_outbuf now ws cl of (ok, ws', cl1) \<Rightarrow>
        if \<not> ok then (False, ws', cl1)
        else let cl2 = compact_outbuf cl1 in
          if stalled now cl2 then (False, ws', cl2)
          else (True, ws', cl2\<lparr>cl_write_interest := cl_outbuf cl2 \<noteq> []\<rparr>))"

definition can_merge_output_stream_chunk :: "session_output_chunk \<Rightarrow> session_output_chunk \<Rightarrow> nat \<Rightarrow> bool" where
  "can_merge_output_stream_chunk p c max_batch_bytes \<longleftrightarrow>
     \<not> (oc_exited p \<or> oc_exited c \<or> oc_exists p \<noteq> oc_exists c) \<and>
     oc_next_offset p = oc_next_offset c - length (oc_data c) \<and>
     length (oc_data p) + length (oc_data c) \<le> max_batch_bytes"

definition pending_frame :: "session_output_chunk option \<Rightarrow> string" where
  "pending_frame p = (case p of None \<Rightarrow> [] | Some c \<Rightarrow> session_output_frame_bytes c)"

text \<open>The inner loop: chunks are taken from the channel into batched frames, until the channel is empty, the session has
  exited or the buffer holds enough for now.\<close>

record pull_state =
  pl_outbuf :: string
  pl_pending :: "session_output_chunk option"
  pl_buffered :: nat
  pl_queue :: "session_output_chunk list"
  pl_closing :: bool
  pl_drained :: bool

definition pull_fresh :: "string \<Rightarrow> session_output_chunk \<Rightarrow> string \<times> session_output_chunk option \<times> bool" where
  "pull_fresh outbuf c =
     (if length (oc_data c) \<ge> SESSION_OUTPUT_STREAM_BATCH_MAX_BYTES
      then (outbuf @ session_output_frame_bytes c, None,
            length (outbuf @ session_output_frame_bytes c) \<ge> SESSION_OUTPUT_STREAM_BATCH_MAX_BYTES * 4)
      else (outbuf, Some c, length outbuf \<ge> SESSION_OUTPUT_STREAM_BATCH_MAX_BYTES * 4))"

text \<open>One chunk of live output: merged into the pending batch, or the batch goes out first. The last component says that the buffer holds enough.\<close>

definition pull_one :: "string \<Rightarrow> session_output_chunk option \<Rightarrow> session_output_chunk \<Rightarrow> string \<times> session_output_chunk option \<times> bool" where
  "pull_one outbuf pending c =
     (case pending of
        Some p \<Rightarrow>
          if can_merge_output_stream_chunk p c SESSION_OUTPUT_STREAM_BATCH_MAX_BYTES then
            (let q = p\<lparr>oc_data := oc_data p @ oc_data c, oc_next_offset := oc_next_offset c\<rparr> in
             if length (oc_data q) \<ge> SESSION_OUTPUT_STREAM_BATCH_MAX_BYTES
             then (outbuf @ session_output_frame_bytes q, None, False)
             else (outbuf, Some q, False))
          else pull_fresh (outbuf @ session_output_frame_bytes p) c
      | None \<Rightarrow> pull_fresh outbuf c)"

fun pull_chunks :: "string \<Rightarrow> session_output_chunk option \<Rightarrow> nat \<Rightarrow> session_output_chunk list \<Rightarrow> pull_state" where
  "pull_chunks outbuf pending buffered [] =
     \<lparr>pl_outbuf = outbuf, pl_pending = pending, pl_buffered = buffered, pl_queue = [], pl_closing = False, pl_drained = True\<rparr>"
| "pull_chunks outbuf pending buffered (c # cs) =
     (let buffered' = buffered - length (oc_data c) in
      if oc_exited c then
        \<lparr>pl_outbuf = outbuf @ pending_frame pending @ session_output_frame_bytes c, pl_pending = None,
         pl_buffered = buffered', pl_queue = cs, pl_closing = True, pl_drained = False\<rparr>
      else case pull_one outbuf pending c of (outbuf', pending', enough) \<Rightarrow>
        if enough then
          \<lparr>pl_outbuf = outbuf', pl_pending = pending', pl_buffered = buffered', pl_queue = cs, pl_closing = False, pl_drained = False\<rparr>
        else pull_chunks outbuf' pending' buffered' cs)"

lemma pull_chunks_queue: "length (pl_queue (pull_chunks outbuf pending buffered cs)) \<le> length cs"
  by (induction cs arbitrary: outbuf pending buffered)
    (auto simp: Let_def intro: le_SucI split: prod.splits)

lemma pull_chunks_progress:
  "pl_outbuf (pull_chunks [] pending buffered cs) @ pending_frame (pl_pending (pull_chunks [] pending buffered cs)) \<noteq> [] \<Longrightarrow>
     length (pl_queue (pull_chunks [] pending buffered cs)) < length cs \<or> (cs = [] \<and> pending \<noteq> None)"
proof (cases cs)
  case Nil
  assume "pl_outbuf (pull_chunks [] pending buffered cs) @ pending_frame (pl_pending (pull_chunks [] pending buffered cs)) \<noteq> []"
  then show ?thesis using Nil by (cases pending) (auto simp: pending_frame_def)
next
  case (Cons c ds)
  then show ?thesis
    using pull_chunks_queue [of _ _ _ ds] by (auto simp: Let_def less_Suc_eq_le split: prod.splits)
qed

text \<open>The write loop leaves the batch of the client alone.\<close>

lemma write_outbuf_frame:
  "write_outbuf now ws cl = (ok, ws', cl') \<Longrightarrow> cl_pending cl' = cl_pending cl \<and> cl_closing cl' = cl_closing cl
     \<and> cl_subscriber_id cl' = cl_subscriber_id cl"
proof (induction ws arbitrary: cl)
  case (Cons w ws)
  then show ?case
    by (cases w) (auto simp: Let_def split: if_splits dest!: Cons.IH)
qed simp

lemma flush_frame:
  "flush_client_outbuf now ws cl = (ok, ws', cl') \<Longrightarrow> cl_pending cl' = cl_pending cl \<and> cl_closing cl' = cl_closing cl
     \<and> cl_subscriber_id cl' = cl_subscriber_id cl"
  by (auto simp: flush_client_outbuf_def compact_outbuf_def Let_def dest: write_outbuf_frame split: prod.splits if_splits)

lemma flush_empty:
  "flush_client_outbuf now ws cl = (True, ws', cl') \<Longrightarrow> length (cl_outbuf cl') \<le> cl_out_pos cl' \<Longrightarrow>
     cl_outbuf cl' = [] \<and> cl_out_pos cl' = 0"
  by (auto simp: flush_client_outbuf_def compact_outbuf_def Let_def split: prod.splits if_splits)

function pump_stream_client ::
  "millis \<Rightarrow> sock_result list \<Rightarrow> stream_client \<Rightarrow> channel \<Rightarrow> bool \<times> sock_result list \<times> stream_client \<times> channel" where
  "pump_stream_client now ws cl ch =
     (case flush_client_outbuf now ws cl of (ok, ws1, cl1) \<Rightarrow>
        if \<not> ok then (False, ws1, cl1, ch)
        else if cl_out_pos cl1 < length (cl_outbuf cl1) then (True, ws1, cl1, ch)
        else if cl_closing cl1 then (False, ws1, cl1, ch)
        else let pl = pull_chunks (cl_outbuf cl1) (cl_pending cl1) (ch_buffered ch) (ch_queue ch);
                 cl2 = cl1\<lparr>cl_outbuf := pl_outbuf pl @ pending_frame (pl_pending pl), cl_pending := None,
                           cl_closing := pl_closing pl\<rparr>;
                 ch2 = ch\<lparr>ch_queue := pl_queue pl, ch_buffered := pl_buffered pl\<rparr>;
                 disconnected = (pl_drained pl \<and> \<not> ch_sender ch)
        in if cl_out_pos cl2 = length (cl_outbuf cl2) then (\<not> (disconnected \<or> pl_closing pl), ws1, cl2, ch2)
           else if disconnected then
             (case flush_client_outbuf now ws1 cl2 of (_, ws2, cl3) \<Rightarrow> (False, ws2, cl3, ch2))
           else pump_stream_client now ws1 cl2 ch2)"
  by pat_completeness auto
termination
proof (relation "measure (\<lambda>(_, _, cl, ch). if cl_closing cl then 0
      else Suc (length (ch_queue ch) + (case cl_pending cl of None \<Rightarrow> 0 | Some _ \<Rightarrow> 1)))", goal_cases)
  case 1
  show ?case by simp
next
  case (2 now ws cl ch ok q ws1 cl1 pl cl2 ch2 disconnected)
  have flush: "flush_client_outbuf now ws cl = (True, ws1, cl1)" using 2 by auto
  have empty: "cl_outbuf cl1 = []" "cl_out_pos cl1 = 0" using flush_empty [OF flush] 2 by simp_all
  have same: "cl_pending cl1 = cl_pending cl" "\<not> cl_closing cl" using flush_frame [OF flush] 2 by auto
  have ne: "pl_outbuf pl @ pending_frame (pl_pending pl) \<noteq> []" using 2 empty by auto
  have "length (pl_queue pl) < length (ch_queue ch) \<or> (ch_queue ch = [] \<and> cl_pending cl1 \<noteq> None)"
    using pull_chunks_progress [of "cl_pending cl1" "ch_buffered ch" "ch_queue ch"] ne 2 empty by simp
  moreover have "length (pl_queue pl) \<le> length (ch_queue ch)"
    using pull_chunks_queue 2 by simp
  ultimately show ?case using 2 same by (auto split: option.splits)
qed

declare pump_stream_client.simps [simp del]

section \<open>The streams of a session\<close>

text \<open>The broadcaster, its channels and the streaming clients by their token. \<open>ss_closed\<close> logs the clients that are
  gone, with what their sockets accepted.\<close>

record stream_session =
  ss_broadcaster :: output_broadcaster
  ss_channels :: channels
  ss_clients :: "(u64, stream_client) hmap"
  ss_closed :: "(u64 \<times> stream_client) list"

definition session_at :: "u64 \<Rightarrow> stream_session" where
  "session_at n = \<lparr>ss_broadcaster = at_offset n, ss_channels = (\<lambda>_. new_channel), ss_clients = [], ss_closed = []\<rparr>"

text \<open>A client is taken out of the map while it is served. A closed client leaves the broadcaster, and its end of the channel goes.\<close>

definition close_client :: "u64 \<Rightarrow> stream_client \<Rightarrow> stream_session \<Rightarrow> stream_session" where
  "close_client token cl ss =
     (case remove_subscriber (cl_subscriber_id cl) (ss_broadcaster ss) (ss_channels ss) of (b, chs) \<Rightarrow>
        ss\<lparr>ss_broadcaster := b,
           ss_channels := chs(cl_subscriber_id cl := (chs (cl_subscriber_id cl))\<lparr>ch_receiver := False\<rparr>),
           ss_closed := ss_closed ss @ [(token, cl)]\<rparr>)"

text \<open>One turn of a client, which is put back when it is kept.\<close>

definition pump_client :: "millis \<Rightarrow> sock_result list \<Rightarrow> u64 \<Rightarrow> stream_client \<Rightarrow> stream_session \<Rightarrow> stream_session" where
  "pump_client now ws token cl ss =
     (case pump_stream_client now ws cl (ss_channels ss (cl_subscriber_id cl)) of (keep, _, cl', ch) \<Rightarrow>
        let ss1 = ss\<lparr>ss_channels := (ss_channels ss)(cl_subscriber_id cl := ch)\<rparr> in
        if keep then ss1\<lparr>ss_clients := hm_put token cl' (ss_clients ss)\<rparr> else close_client token cl' ss1)"

definition without_client :: "u64 \<Rightarrow> stream_session \<Rightarrow> stream_session" where
  "without_client token ss = ss\<lparr>ss_clients := hm_remove token (ss_clients ss)\<rparr>"

definition client_writable :: "millis \<Rightarrow> sock_result list \<Rightarrow> u64 \<Rightarrow> stream_session \<Rightarrow> stream_session" where
  "client_writable now ws token ss =
     (case hm_get (ss_clients ss) token of
        None \<Rightarrow> ss
      | Some cl \<Rightarrow> pump_client now ws token cl (without_client token ss))"

text \<open>Every streaming client in some order, with the answers of its socket.\<close>

fun flush_stream_clients :: "millis \<Rightarrow> (u64 \<times> sock_result list) list \<Rightarrow> stream_session \<Rightarrow> stream_session" where
  "flush_stream_clients now [] ss = ss"
| "flush_stream_clients now ((token, ws) # rest) ss = flush_stream_clients now rest (client_writable now ws token ss)"

text \<open>The \<open>StreamOutput\<close> arm of the handshake; a refused subscription closes the connection without a frame.\<close>

definition attach_stream :: "millis \<Rightarrow> sock_result list \<Rightarrow> u64 \<Rightarrow> u64 \<Rightarrow> bool \<Rightarrow> stream_session \<Rightarrow> stream_session" where
  "attach_stream now ws token offset answers_queries ss =
     (case subscribe offset answers_queries (ss_broadcaster ss) (ss_channels ss) of
        None \<Rightarrow> ss
      | Some (b, chs, sid) \<Rightarrow>
          pump_client now ws token
            \<lparr>cl_subscriber_id = sid, cl_pending = None, cl_closing = False, cl_outbuf = [], cl_out_pos = 0,
             cl_write_interest = False, cl_last_progress = now, cl_socket = []\<rparr>
            (ss\<lparr>ss_broadcaster := b, ss_channels := chs\<rparr>))"

definition detach_client :: "u64 \<Rightarrow> stream_session \<Rightarrow> stream_session" where
  "detach_client token ss =
     (case hm_get (ss_clients ss) token of
        None \<Rightarrow> ss
      | Some cl \<Rightarrow> close_client token cl (without_client token ss))"

text \<open>A streaming client never sends after the handshake: its end of the stream or an error closes it.\<close>

datatype sock_read = ReadBytes string | ReadEof | ReadFull | ReadInterrupted | ReadFailed

definition stream_client_readable :: "sock_read \<Rightarrow> u64 \<Rightarrow> stream_session \<Rightarrow> stream_session" where
  "stream_client_readable r token ss =
     (case r of
        ReadBytes bytes \<Rightarrow> if bytes = [] then detach_client token ss else ss
      | ReadEof \<Rightarrow> detach_client token ss
      | ReadFull \<Rightarrow> ss
      | ReadInterrupted \<Rightarrow> ss
      | ReadFailed \<Rightarrow> detach_client token ss)"

definition sweep_stalled_clients :: "millis \<Rightarrow> stream_session \<Rightarrow> stream_session" where
  "sweep_stalled_clients now ss =
     fold detach_client (map fst (filter (\<lambda>(_, cl). stalled now cl) (ss_clients ss))) ss"

definition publish_stream :: "string \<Rightarrow> stream_session \<Rightarrow> stream_session" where
  "publish_stream data ss =
     (case broadcast_chunk data (ss_broadcaster ss) (ss_channels ss) of (b, chs) \<Rightarrow>
        ss\<lparr>ss_broadcaster := b, ss_channels := chs\<rparr>)"

definition exit_stream :: "stream_session \<Rightarrow> stream_session" where
  "exit_stream ss =
     (case mark_exited (ss_broadcaster ss) (ss_channels ss) of (b, chs) \<Rightarrow>
        ss\<lparr>ss_broadcaster := b, ss_channels := chs\<rparr>)"

text \<open>The idle tick, which also gives the capacity of empty buffers back to the allocator.\<close>

definition release_idle_buffers :: "bool \<Rightarrow> millis \<Rightarrow> millis \<Rightarrow> stream_session \<Rightarrow> stream_session" where
  "release_idle_buffers ended now last_output_at ss =
     (if ended \<or> now - last_output_at < IDLE_RELEASE_AFTER then ss
      else if has_subscribers (ss_broadcaster ss) then ss
      else ss\<lparr>ss_broadcaster := release_recent (ss_broadcaster ss)\<rparr>)"

text \<open>What can happen to the streams, in any order. The poller gives every connection a token of its own.\<close>

datatype client_event = Publish string | ProgramExited | AttachClient millis "sock_result list" u64 u64 bool
  | Writable millis "sock_result list" u64 | FlushAll millis "(u64 \<times> sock_result list) list"
  | Readable sock_read u64 | Sweep millis | IdleRelease bool millis millis

fun stream_apply :: "client_event \<Rightarrow> stream_session \<Rightarrow> stream_session" where
  "stream_apply (Publish data) ss = publish_stream data ss"
| "stream_apply ProgramExited ss = exit_stream ss"
| "stream_apply (AttachClient now ws token offset answers) ss =
     (if hm_get (ss_clients ss) token \<noteq> None then ss else attach_stream now ws token offset answers ss)"
| "stream_apply (Writable now ws token) ss = client_writable now ws token ss"
| "stream_apply (FlushAll now wss) ss = flush_stream_clients now wss ss"
| "stream_apply (Readable r token) ss = stream_client_readable r token ss"
| "stream_apply (Sweep now) ss = sweep_stalled_clients now ss"
| "stream_apply (IdleRelease ended now last_output_at) ss = release_idle_buffers ended now last_output_at ss"

section \<open>Hand-over of streaming clients\<close>

record client_handoff =
  ho_answers_queries :: bool
  ho_offset :: u64
  ho_outbuf :: string

definition export_client :: "u64 \<Rightarrow> output_broadcaster \<Rightarrow> stream_client \<Rightarrow> (stream_client \<times> client_handoff) option" where
  "export_client journal_next_offset b cl =
     (if cl_closing cl then None
      else let cl1 = cl\<lparr>cl_outbuf := cl_outbuf cl @ pending_frame (cl_pending cl), cl_pending := None\<rparr>
      in Some (cl1, \<lparr>ho_answers_queries = subscriber_answers_queries (cl_subscriber_id cl) b,
                     ho_offset = journal_next_offset, ho_outbuf = drop (cl_out_pos cl1) (cl_outbuf cl1)\<rparr>))"

text \<open>The client in the new core; its socket is the one of the old core.\<close>

definition adopt_client :: "millis \<Rightarrow> u64 \<Rightarrow> string \<Rightarrow> client_handoff \<Rightarrow> stream_session \<Rightarrow> stream_session" where
  "adopt_client now token socket ho ss =
     (case subscribe (ho_offset ho) (ho_answers_queries ho) (ss_broadcaster ss) (ss_channels ss) of
        None \<Rightarrow> ss
      | Some (b, chs, sid) \<Rightarrow>
          ss\<lparr>ss_broadcaster := b, ss_channels := chs,
             ss_clients := hm_put token
               \<lparr>cl_subscriber_id = sid, cl_pending = None, cl_closing = False, cl_outbuf = ho_outbuf ho, cl_out_pos = 0,
                cl_write_interest = ho_outbuf ho \<noteq> [], cl_last_progress = now, cl_socket = socket\<rparr> (ss_clients ss)\<rparr>)"

end
