(* ===== verification/Session_Io.thy ===== *)
theory Session_Io
  imports Output_Stream Query_Scanner Host_Write
begin

text \<open>
  Model of the input and output of one session, \<open>SessionIo\<close> in \<open>crates/unpeel-core/src/session_io.rs\<close>: the bytes the program writes
  pass the query scanner (\<open>Query_Scanner\<close>) and are published to the streams (\<open>Output_Stream\<close>); the bytes the input clients send are
  taken from frames, queued and written to the PTY; and the hand-over of a session to a new core. What the PTY, the sockets and the
  clock answer is an argument. The title scanner and the program-status scanner, which read the same chunks, have theories of their
  own; the journal writer is in \<open>Core_Reactor\<close>.
\<close>

definition SESSION_INPUT_STREAM_FRAME_HEADER_BYTES :: nat where "SESSION_INPUT_STREAM_FRAME_HEADER_BYTES = 4"
definition SESSION_INPUT_STREAM_MAX_FRAME_BYTES :: nat where "SESSION_INPUT_STREAM_MAX_FRAME_BYTES = 256 * 1024"
definition PENDING_PTY_INPUT_MAX_BYTES :: nat where "PENDING_PTY_INPUT_MAX_BYTES = 1024 * 1024"

text \<open>\<open>io_pty\<close> is what the PTY has accepted.\<close>

record session_io =
  io_query_scanner :: query_scanner
  io_streams :: stream_session
  io_dark_mode :: bool
  io_pending_input :: string
  io_pty_write_interest :: bool
  io_has_been_written_to :: bool
  io_hook_input :: input_tracker
  io_pty :: string

definition session_io_new :: "bool \<Rightarrow> u64 \<Rightarrow> input_tracker \<Rightarrow> session_io" where
  "session_io_new dark_mode next_offset hook_input =
     \<lparr>io_query_scanner = query_scanner_new, io_streams = session_at next_offset, io_dark_mode = dark_mode,
      io_pending_input = [], io_pty_write_interest = False, io_has_been_written_to = False, io_hook_input = hook_input, io_pty = []\<rparr>"

section \<open>Output of the program\<close>

text \<open>The answers are written before the chunk is published, past the input that is queued. The code ignores an error of such a write; here the PTY
  takes every answer.\<close>

definition process_pty_bytes :: "string \<Rightarrow> nat \<times> nat \<Rightarrow> string \<Rightarrow> session_io \<Rightarrow> session_io" where
  "process_pty_bytes feature_reply cursor bytes io =
     (let intercept_probes = (\<not> has_answering_subscriber (ss_broadcaster (io_streams io))) in
      case query_scan intercept_probes (io_query_scanner io) bytes of (scanner, chunk, queries) \<Rightarrow>
        io\<lparr>io_query_scanner := scanner,
           io_pty := io_pty io @ concat (map (query_answer feature_reply (io_dark_mode io) cursor) queries),
           io_streams := publish_stream chunk (io_streams io)\<rparr>)"

text \<open>The end of the session: what the scanner held is published, the clients get the exit frame and one last turn, and are closed.\<close>

definition finish :: "millis \<Rightarrow> (u64 \<times> sock_result list) list \<Rightarrow> session_io \<Rightarrow> session_io" where
  "finish now wss io =
     (case scanner_take_pending (io_query_scanner io) of (scanner, pending) \<Rightarrow>
        let flushed = flush_stream_clients now wss (exit_stream (publish_stream pending (io_streams io)))
        in io\<lparr>io_query_scanner := scanner, io_streams := fold detach_client (map fst (ss_clients flushed)) flushed\<rparr>)"

section \<open>Input to the program\<close>

text \<open>One attempt to write the head of the queue, with the clock. The head is the first of the two slices of the ring buffer:
  its length, less one, is part of the attempt.\<close>

datatype pty_try = TryWrote nat millis | TryFull | TryInterrupted | TryFailed string

definition drained_bytes :: "string \<Rightarrow> nat \<Rightarrow> nat \<Rightarrow> nat" where
  "drained_bytes pending h n = min n (length (take (Suc h) pending))"

text \<open>The write loop gives \<open>None\<close> when the tracker would panic, otherwise whether the PTY blocked (or the error), and whether
  anything was written.\<close>

fun drain_loop ::
  "u64 \<Rightarrow> bool \<Rightarrow> (nat \<times> pty_try) list \<Rightarrow> bool \<Rightarrow> session_io \<Rightarrow> (string + bool) option \<times> bool \<times> session_io" where
  "drain_loop generation menu [] wrote io = (Some (Inr (io_pending_input io \<noteq> [])), wrote, io)"
| "drain_loop generation menu ((h, r) # script) wrote io =
     (if io_pending_input io = [] then (Some (Inr False), wrote, io)
      else let head = take (Suc h) (io_pending_input io);
               menu_active = (CHR 0x1B \<in> set head \<and> menu)
      in (case r of
            TryWrote n now \<Rightarrow>
              (let k = drained_bytes (io_pending_input io) h n in
               if k = 0 then (Some (Inr True), wrote, io)
               else case feed (io_hook_input io) (take k (io_pending_input io)) generation now menu_active of
                   None \<Rightarrow> (None, wrote, io\<lparr>io_pty := io_pty io @ take k (io_pending_input io)\<rparr>)
                 | Some t \<Rightarrow> drain_loop generation menu script True
                     (io\<lparr>io_pty := io_pty io @ take k (io_pending_input io), io_hook_input := t,
                        io_pending_input := drop k (io_pending_input io)\<rparr>))
          | TryFull \<Rightarrow> (Some (Inr True), wrote, io)
          | TryInterrupted \<Rightarrow> drain_loop generation menu script wrote io
          | TryFailed e \<Rightarrow> (Some (Inl (''Write error: '' @ e)), wrote, io)))"

definition drain_pending_input ::
  "u64 \<Rightarrow> bool \<Rightarrow> (nat \<times> pty_try) list \<Rightarrow> session_io \<Rightarrow> (string + unit) option \<times> session_io" where
  "drain_pending_input generation menu script io =
     (if io_pending_input io = [] then (Some (Inr ()), io)
      else case drain_loop generation menu script False io of (r, wrote, io1) \<Rightarrow>
        case r of
          None \<Rightarrow> (None, io1)
        | Some (Inl e) \<Rightarrow> (Some (Inl e), io1)
        | Some (Inr blocked) \<Rightarrow>
            let io2 = (if wrote then io1\<lparr>io_has_been_written_to := True\<rparr> else io1) in
            if blocked \<and> length (io_pending_input io2) > PENDING_PTY_INPUT_MAX_BYTES
            then (Some (Inl ''PTY input queue stalled; dropping buffered input''), io2\<lparr>io_pending_input := []\<rparr>)
            else (Some (Inr ()), io2\<lparr>io_pty_write_interest := blocked\<rparr>))"

definition write_pty_input ::
  "u64 \<Rightarrow> bool \<Rightarrow> (nat \<times> pty_try) list \<Rightarrow> string \<Rightarrow> session_io \<Rightarrow> (string + unit) option \<times> session_io" where
  "write_pty_input generation menu script data io =
     drain_pending_input generation menu script (io\<lparr>io_pending_input := io_pending_input io @ data\<rparr>)"

text \<open>Reading from an input client.\<close>

fun input_read_loop :: "sock_read list \<Rightarrow> string \<Rightarrow> string \<times> bool" where
  "input_read_loop [] buf = (buf, False)"
| "input_read_loop (r # rs) buf =
     (case r of
        ReadBytes bytes \<Rightarrow>
          if bytes = [] then (buf, True)
          else if length (buf @ bytes) > SESSION_INPUT_STREAM_MAX_FRAME_BYTES * 2 then (buf @ bytes, False)
          else input_read_loop rs (buf @ bytes)
      | ReadEof \<Rightarrow> (buf, True)
      | ReadFull \<Rightarrow> (buf, False)
      | ReadInterrupted \<Rightarrow> input_read_loop rs buf
      | ReadFailed \<Rightarrow> (buf, True))"

text \<open>The complete frames and the rest; \<open>None\<close> when a frame is too large.\<close>

function input_frames :: "string \<Rightarrow> (string list \<times> string) option" where
  "input_frames buf =
     (if length buf < SESSION_INPUT_STREAM_FRAME_HEADER_BYTES then Some ([], buf)
      else let n = be_val (take 4 buf) in
        if n > SESSION_INPUT_STREAM_MAX_FRAME_BYTES then None
        else if length buf < SESSION_INPUT_STREAM_FRAME_HEADER_BYTES + n then Some ([], buf)
        else case input_frames (drop (4 + n) buf) of
            None \<Rightarrow> None
          | Some (frames, rest) \<Rightarrow> Some (if n = 0 then frames else take n (drop 4 buf) # frames, rest))"
  by pat_completeness auto
termination
  by (relation "measure length") (auto simp: SESSION_INPUT_STREAM_FRAME_HEADER_BYTES_def)

declare input_frames.simps [simp del]

text \<open>The frames are written in order, each with its own attempts, until one fails.\<close>

fun write_frames ::
  "u64 \<Rightarrow> bool \<Rightarrow> (string \<times> (nat \<times> pty_try) list) list \<Rightarrow> session_io \<Rightarrow> bool \<times> session_io" where
  "write_frames generation menu [] io = (True, io)"
| "write_frames generation menu ((data, script) # rest) io =
     (case write_pty_input generation menu script data io of
        (Some (Inr _), io1) \<Rightarrow> write_frames generation menu rest io1
      | (_, io1) \<Rightarrow> (False, io1))"

text \<open>One turn of an input client: whether it is kept, its buffer, and the session. \<open>scripts\<close> has the attempts of each frame.\<close>

definition client_input ::
  "u64 \<Rightarrow> bool \<Rightarrow> sock_read list \<Rightarrow> (nat \<times> pty_try) list list \<Rightarrow> string \<Rightarrow> session_io \<Rightarrow> bool \<times> string \<times> session_io" where
  "client_input generation menu reads scripts buf io =
     (case input_read_loop reads buf of (buf1, eof) \<Rightarrow>
        case input_frames buf1 of
          None \<Rightarrow> (False, buf1, io)
        | Some (frames, rest) \<Rightarrow>
            (case write_frames generation menu
                (zip frames (scripts @ replicate (length frames) [])) io of (ok, io1) \<Rightarrow> (ok \<and> \<not> eof, rest, io1)))"

section \<open>Hand-over to a new core\<close>

text \<open>The clients in the order of their tokens. The new core starts its broadcaster at the offset and makes a new \<open>SessionIo\<close>: the
  scanner starts afresh, the queued input and the tracker come along. The tokens of the new core are the old ones here.\<close>

definition export_clients :: "stream_session \<Rightarrow> (u64 \<times> string \<times> client_handoff) list" where
  "export_clients ss =
     concat (map (\<lambda>t. case hm_get (ss_clients ss) t of None \<Rightarrow> []
         | Some cl \<Rightarrow> (case export_client (ob_next_offset (ss_broadcaster ss)) (ss_broadcaster ss) cl of
               None \<Rightarrow> [] | Some (cl1, ho) \<Rightarrow> [(t, cl_socket cl1, ho)]))
       (sort (map fst (ss_clients ss))))"

fun adopt_clients :: "millis \<Rightarrow> (u64 \<times> string \<times> client_handoff) list \<Rightarrow> stream_session \<Rightarrow> stream_session" where
  "adopt_clients now [] ss = ss"
| "adopt_clients now ((t, socket, ho) # rest) ss = adopt_clients now rest (adopt_client now t socket ho ss)"

text \<open>\<open>export_handoff\<close> of a running session, with the last turn of the streaming clients, and \<open>rebuild_from_handoff\<close>. The
  screen of the terminal is at the same offset as the broadcaster.\<close>

definition hand_over :: "millis \<Rightarrow> (u64 \<times> sock_result list) list \<Rightarrow> session_io \<Rightarrow> session_io" where
  "hand_over now wss io =
     (let ss = flush_stream_clients now wss (io_streams io);
          new = session_io_new (io_dark_mode io) (ob_next_offset (ss_broadcaster ss)) (io_hook_input io)
      in new\<lparr>io_pending_input := io_pending_input io, io_has_been_written_to := io_has_been_written_to io, io_pty := io_pty io,
             io_streams := adopt_clients now (export_clients ss) (io_streams new)\<rparr>)"

text \<open>The runtime of the new core: the tracker comes along, the window of write ids starts empty.\<close>

definition handed_over_runtime :: "write_runtime \<Rightarrow> write_runtime" where
  "handed_over_runtime w = w\<lparr>wt_recent := recent_default\<rparr>"

end
