(* ===== verification/Output_Stream_Facts.thy ===== *)
theory Output_Stream_Facts
  imports Output_Stream
begin

text \<open>
  Facts about the live output stream: chunks that follow each other without a gap, frames that decode to the chunks they
  were made from, the batching of a client, and the invariant of the streams of a session under every event.
\<close>

section \<open>Chunks without gaps\<close>

text \<open>A chunk that carries the printed bytes at an offset; the journal starts at \<open>base\<close> and \<open>H\<close> has been
  printed since.\<close>

definition chunk_at :: "u64 \<Rightarrow> string \<Rightarrow> u64 \<Rightarrow> session_output_chunk \<Rightarrow> bool" where
  "chunk_at base H pos c \<longleftrightarrow> base \<le> pos \<and> oc_next_offset c = pos + length (oc_data c) \<and>
     oc_next_offset c \<le> base + length H \<and> oc_data c = take (length (oc_data c)) (drop (pos - base) H)"

fun covers :: "u64 \<Rightarrow> string \<Rightarrow> u64 \<Rightarrow> session_output_chunk list \<Rightarrow> u64 \<Rightarrow> bool" where
  "covers base H pos [] n \<longleftrightarrow> n = pos \<and> base \<le> pos \<and> pos \<le> base + length H"
| "covers base H pos (c # cs) n \<longleftrightarrow> chunk_at base H pos c \<and> covers base H (oc_next_offset c) cs n"

lemma chunk_atD:
  assumes "chunk_at base H pos c"
  shows "base \<le> pos" "oc_next_offset c = pos + length (oc_data c)" "oc_next_offset c \<le> base + length H"
  using assms by (simp_all add: chunk_at_def)

lemma covers_bounds: "covers base H pos cs n \<Longrightarrow> base \<le> pos \<and> pos \<le> n \<and> n \<le> base + length H"
proof (induction cs arbitrary: pos)
  case (Cons c cs)
  then have c: "chunk_at base H pos c" and r: "covers base H (oc_next_offset c) cs n" by auto
  show ?case using Cons.IH [OF r] chunk_atD [OF c] by simp
qed simp

lemma covers_append: "covers base H pos (xs @ ys) n \<longleftrightarrow> (\<exists>k. covers base H pos xs k \<and> covers base H k ys n)"
proof (induction xs arbitrary: pos)
  case Nil
  then show ?case using covers_bounds by fastforce
qed auto

lemma covers_single: "covers base H pos [c] n \<longleftrightarrow> chunk_at base H pos c \<and> n = oc_next_offset c"
  by (auto simp: chunk_at_def)

lemma chunk_at_extend: "chunk_at base H pos c \<Longrightarrow> chunk_at base (H @ x) pos c"
  by (auto simp: chunk_at_def)

lemma covers_extend: "covers base H pos cs n \<Longrightarrow> covers base (H @ x) pos cs n"
  by (induction cs arbitrary: pos) (auto simp: chunk_at_extend)

lemma covers_data: "covers base H pos cs n \<Longrightarrow> concat (map oc_data cs) = take (n - pos) (drop (pos - base) H)"
proof (induction cs arbitrary: pos)
  case (Cons c cs)
  then have c: "chunk_at base H pos c" and r: "covers base H (oc_next_offset c) cs n" by auto
  define m where "m = length (oc_data c)"
  have pos: "oc_next_offset c = pos + m" "base \<le> pos" "oc_data c = take m (drop (pos - base) H)"
    using c by (simp_all add: chunk_at_def m_def)
  have n: "pos + m \<le> n" using covers_bounds [OF r] pos(1) by simp
  have "concat (map oc_data cs) = take (n - (pos + m)) (drop (pos + m - base) H)"
    using Cons.IH [OF r] pos(1) by simp
  also have "drop (pos + m - base) H = drop m (drop (pos - base) H)" using pos(2) by (simp add: add.commute)
  finally have "concat (map oc_data (c # cs)) = take m (drop (pos - base) H) @ take (n - (pos + m)) (drop m (drop (pos - base) H))"
    using pos(3) by simp
  also have "\<dots> = take (m + (n - (pos + m))) (drop (pos - base) H)" by (simp add: take_add)
  also have "m + (n - (pos + m)) = n - pos" using n by simp
  finally show ?case .
qed simp

lemma chunk_at_live:
  assumes "base \<le> pos" and "pos + length data \<le> base + length H" and "data = take (length data) (drop (pos - base) H)"
  shows "chunk_at base H pos (live_chunk data (pos + length data))"
  using assms by (simp add: chunk_at_def live_chunk_def)

lemma chunk_at_exit: "base \<le> n \<Longrightarrow> n \<le> base + length H \<Longrightarrow> chunk_at base H n (exit_chunk n)"
  by (simp add: chunk_at_def exit_chunk_def)

text \<open>Two chunks that follow each other merge into one.\<close>

definition merge_chunks :: "session_output_chunk \<Rightarrow> session_output_chunk \<Rightarrow> session_output_chunk" where
  "merge_chunks p c = p\<lparr>oc_data := oc_data p @ oc_data c, oc_next_offset := oc_next_offset c\<rparr>"

lemma chunk_at_merge:
  assumes "chunk_at base H pos p" and "chunk_at base H (oc_next_offset p) c"
  shows "chunk_at base H pos (merge_chunks p c)"
proof -
  have "covers base H pos [p, c] (oc_next_offset c)" using assms by (auto simp: chunk_at_def)
  from covers_data [OF this]
  have "oc_data p @ oc_data c = take (length (oc_data p) + length (oc_data c)) (drop (pos - base) H)"
    using assms by (simp add: chunk_at_def)
  moreover have "length (oc_data p) + length (oc_data c) \<le> length (drop (pos - base) H)"
    using chunk_atD [OF assms(1)] chunk_atD [OF assms(2)] by simp
  ultimately show ?thesis using chunk_atD [OF assms(1)] chunk_atD [OF assms(2)]
    by (simp add: chunk_at_def merge_chunks_def)
qed

section \<open>Frames\<close>

definition sendable :: "session_output_chunk \<Rightarrow> bool" where
  "sendable c \<longleftrightarrow> length (oc_data c) \<le> SESSION_OUTPUT_STREAM_MAX_FRAME_BYTES \<and> oc_next_offset c \<le> u64_max \<and>
     (oc_exited c \<longrightarrow> oc_data c = [])"

lemma frame_length [simp]: "length (session_output_frame_bytes c) = 13 + length (oc_data c)"
  by (simp add: session_output_frame_bytes_def)

lemma frame_flags_bits: "frame_flags c mod 256 = frame_flags c" "odd (frame_flags c) = oc_exited c"
    "odd (frame_flags c div 2) = oc_exists c"
  by (auto simp: frame_flags_def)

lemma frame_fields:
  fixes c rest defines "s \<equiv> session_output_frame_bytes c @ rest"
  shows "take 4 s = be32 (length (oc_data c) mod 2 ^ 32)" and "take 8 (drop 4 s) = be64 (oc_next_offset c)"
    and "s ! 12 = char_of (frame_flags c)" and "drop 13 s = oc_data c @ rest"
  by (simp_all add: s_def session_output_frame_bytes_def nth_append)

text \<open>A frame decodes to its chunk, with the bytes behind it left over.\<close>

lemma frame_round_trip:
  assumes "sendable c"
  shows "read_output_stream_frame (session_output_frame_bytes c @ rest) = FrameChunk c rest"
proof -
  define s where "s = session_output_frame_bytes c @ rest"
  have len: "\<not> length s < SESSION_OUTPUT_STREAM_FRAME_HEADER_BYTES"
    by (simp add: s_def SESSION_OUTPUT_STREAM_FRAME_HEADER_BYTES_def)
  have small: "length (oc_data c) < 2 ^ 32"
    using assms by (simp add: sendable_def SESSION_OUTPUT_STREAM_MAX_FRAME_BYTES_def)
  have fields: "be_val (take 4 s) = length (oc_data c)" "be_val (take 8 (drop 4 s)) = oc_next_offset c"
      "byte_val (s ! 12) = frame_flags c" "drop 13 s = oc_data c @ rest"
    using frame_fields [of c rest] small assms by (simp_all add: s_def sendable_def frame_flags_bits(1))
  show ?thesis
    using len assms unfolding read_output_stream_frame_def s_def [symmetric] Let_def fields
    by (simp add: sendable_def frame_flags_bits(2,3))
qed

text \<open>A cut frame gives no chunk.\<close>

lemma frame_cut:
  assumes "sendable c" and "k < length (session_output_frame_bytes c)"
  shows "read_output_stream_frame (take k (session_output_frame_bytes c)) \<in> {FrameClosed, PayloadFailed}"
proof (cases "k < 13")
  case True
  then show ?thesis
    by (simp add: read_output_stream_frame_def SESSION_OUTPUT_STREAM_FRAME_HEADER_BYTES_def)
next
  case False
  define s where "s = take k (session_output_frame_bytes c)"
  have small: "length (oc_data c) < 2 ^ 32"
    using assms by (simp add: sendable_def SESSION_OUTPUT_STREAM_MAX_FRAME_BYTES_def)
  have "take 4 s = take 4 (session_output_frame_bytes c)" using False by (simp add: s_def min_def)
  then have n: "be_val (take 4 s) = length (oc_data c)"
    using frame_fields(1) [of c "[]"] small by simp
  have len: "length s = k" using assms by (simp add: s_def)
  have "length (drop 13 s) < length (oc_data c)" using len assms(2) False by simp
  then show ?thesis
    using len False assms(1) unfolding s_def [symmetric]
    by (simp add: read_output_stream_frame_def SESSION_OUTPUT_STREAM_FRAME_HEADER_BYTES_def Let_def n sendable_def)
qed

text \<open>The reader of a stream: the chunks of its complete frames.\<close>

function read_frames :: "string \<Rightarrow> session_output_chunk list" where
  "read_frames s = (case read_output_stream_frame s of FrameChunk c rest \<Rightarrow> c # read_frames rest | _ \<Rightarrow> [])"
  by pat_completeness auto
termination
  by (relation "measure length")
    (auto simp: read_output_stream_frame_def SESSION_OUTPUT_STREAM_FRAME_HEADER_BYTES_def Let_def split: if_splits)

declare read_frames.simps [simp del]

definition frames :: "session_output_chunk list \<Rightarrow> string" where
  "frames cs = concat (map session_output_frame_bytes cs)"

lemma frames_simps [simp]: "frames [] = []" "frames (c # cs) = session_output_frame_bytes c @ frames cs"
    "frames (xs @ ys) = frames xs @ frames ys"
  by (simp_all add: frames_def)

lemma read_frames_prefix:
  "list_all sendable cs \<Longrightarrow> \<exists>j. read_frames (take k (frames cs)) = take j cs \<and> (length (frames cs) \<le> k \<longrightarrow> length cs \<le> j)"
proof (induction cs arbitrary: k)
  case Nil
  have "read_frames [] = []"
    by (subst read_frames.simps) (simp add: read_output_stream_frame_def SESSION_OUTPUT_STREAM_FRAME_HEADER_BYTES_def)
  then show ?case by simp
next
  case (Cons c cs)
  show ?case
  proof (cases "k < length (session_output_frame_bytes c)")
    case True
    then have "take k (frames (c # cs)) = take k (session_output_frame_bytes c)" by simp
    then have "read_frames (take k (frames (c # cs))) = []"
      using frame_cut [of c k] Cons.prems True by (subst read_frames.simps) auto
    then show ?thesis using True by (intro exI [of _ 0]) simp
  next
    case False
    define m where "m = k - length (session_output_frame_bytes c)"
    obtain j where j: "read_frames (take m (frames cs)) = take j cs" "length (frames cs) \<le> m \<longrightarrow> length cs \<le> j"
      using Cons.IH [of m] Cons.prems by auto
    have "take k (frames (c # cs)) = session_output_frame_bytes c @ take m (frames cs)" using False by (simp add: m_def)
    then have "read_frames (take k (frames (c # cs))) = c # take j cs"
      using frame_round_trip [of c "take m (frames cs)"] Cons.prems j(1) by (subst read_frames.simps) simp
    then show ?thesis using j(2) False by (intro exI [of _ "Suc j"]) (auto simp: m_def)
  qed
qed

section \<open>Batching\<close>

abbreviation opt_list :: "'a option \<Rightarrow> 'a list" where
  "opt_list p \<equiv> (case p of None \<Rightarrow> [] | Some c \<Rightarrow> [c])"

definition queued_bytes :: "session_output_chunk list \<Rightarrow> nat" where
  "queued_bytes cs = sum_list (map (\<lambda>c. length (oc_data c)) cs)"

lemma queued_bytes_simps [simp]: "queued_bytes [] = 0" "queued_bytes (c # cs) = length (oc_data c) + queued_bytes cs"
    "queued_bytes (xs @ ys) = queued_bytes xs + queued_bytes ys"
  by (simp_all add: queued_bytes_def)

lemma covers_sendable:
  "covers base H pos cs n \<Longrightarrow> queued_bytes cs \<le> SESSION_OUTPUT_STREAM_MAX_FRAME_BYTES \<Longrightarrow>
     base + length H \<le> u64_max \<Longrightarrow> list_all (\<lambda>c. \<not> oc_exited c) cs \<Longrightarrow> list_all sendable cs"
proof (induction cs arbitrary: pos)
  case (Cons c cs)
  then have c: "chunk_at base H pos c" by simp
  have "sendable c" using Cons.prems(2-4) chunk_atD(3) [OF c] by (simp add: sendable_def)
  moreover have "list_all sendable cs" using Cons.IH [of "oc_next_offset c"] Cons.prems by simp
  ultimately show ?case by simp
qed simp

lemma pending_frame_frames: "pending_frame p = frames (opt_list p)"
  by (simp add: pending_frame_def split: option.split)

lemma pull_fresh_spec:
  "pull_fresh outbuf c = (outbuf', pending', e) \<Longrightarrow>
     \<exists>fs. outbuf' = outbuf @ frames fs \<and> fs @ opt_list pending' = [c]"
  by (auto simp: pull_fresh_def split: if_splits)

text \<open>One step of the batching: the frames it writes and the pending batch carry the pending batch and the chunk.\<close>

lemma pull_one_spec:
  assumes step: "pull_one outbuf pending c = (outbuf', pending', e)"
    and cov: "covers base H pos (opt_list pending @ [c]) n" and send: "list_all sendable (opt_list pending @ [c])"
  shows "\<exists>fs. outbuf' = outbuf @ frames fs \<and> covers base H pos (fs @ opt_list pending') n \<and> list_all sendable (fs @ opt_list pending')"
proof (cases pending)
  case None
  then have "pull_fresh outbuf c = (outbuf', pending', e)" using step by (simp add: pull_one_def)
  then obtain fs where "outbuf' = outbuf @ frames fs" "fs @ opt_list pending' = [c]" using pull_fresh_spec by blast
  then show ?thesis using None cov send by (intro exI [of _ fs]) simp
next
  case (Some p)
  show ?thesis
  proof (cases "can_merge_output_stream_chunk p c SESSION_OUTPUT_STREAM_BATCH_MAX_BYTES")
    case True
    define q where "q = merge_chunks p c"
    have pc: "chunk_at base H pos p" "chunk_at base H (oc_next_offset p) c" "n = oc_next_offset c"
      using cov Some by (auto simp: covers_append covers_single)
    have q: "covers base H pos [q] n" 
      using chunk_at_merge [OF pc(1,2)] pc(3) by (simp only: covers_single q_def) (simp add: merge_chunks_def)
    have sq: "sendable q"
      using True send Some
      by (simp add: q_def merge_chunks_def sendable_def can_merge_output_stream_chunk_def
          SESSION_OUTPUT_STREAM_BATCH_MAX_BYTES_def SESSION_OUTPUT_STREAM_MAX_FRAME_BYTES_def)
    have "(outbuf', pending') = (if length (oc_data q) \<ge> SESSION_OUTPUT_STREAM_BATCH_MAX_BYTES
        then (outbuf @ session_output_frame_bytes q, None) else (outbuf, Some q))"
      using step Some True by (simp add: pull_one_def Let_def q_def merge_chunks_def split: if_splits)
    then consider "outbuf' = outbuf @ session_output_frame_bytes q" "pending' = None" | "outbuf' = outbuf" "pending' = Some q"
      by (auto split: if_splits)
    then show ?thesis
    proof cases
      case 1
      then show ?thesis using q sq by (intro exI [of _ "[q]"]) simp
    next
      case 2
      then show ?thesis using q sq by (intro exI [of _ "[]"]) simp
    qed
  next
    case False
    then have "pull_fresh (outbuf @ session_output_frame_bytes p) c = (outbuf', pending', e)"
      using step Some by (simp add: pull_one_def)
    then obtain fs where "outbuf' = (outbuf @ session_output_frame_bytes p) @ frames fs" "fs @ opt_list pending' = [c]"
      using pull_fresh_spec by blast
    then show ?thesis using Some cov send by (intro exI [of _ "p # fs"]) simp
  qed
qed

lemma pull_chunks_spec:
  "covers base H pos (opt_list pending @ queue) n \<Longrightarrow> list_all sendable (opt_list pending @ queue) \<Longrightarrow> buffered = queued_bytes queue \<Longrightarrow>
     pl = pull_chunks outbuf pending buffered queue \<Longrightarrow>
     \<exists>fs. pl_outbuf pl = outbuf @ frames fs \<and> covers base H pos (fs @ opt_list (pl_pending pl) @ pl_queue pl) n
        \<and> list_all sendable (fs @ opt_list (pl_pending pl) @ pl_queue pl) \<and> pl_buffered pl = queued_bytes (pl_queue pl)
        \<and> queued_bytes (pl_queue pl) \<le> queued_bytes queue"
proof (induction queue arbitrary: outbuf pending buffered pos pl)
  case Nil
  then show ?case by (intro exI [of _ "[]"]) simp
next
  case (Cons c cs)
  have b: "buffered - length (oc_data c) = queued_bytes cs" using Cons.prems(3) by simp
  show ?case
  proof (cases "oc_exited c")
    case True
    then show ?thesis using Cons.prems b
      by (intro exI [of _ "opt_list pending @ [c]"]) (simp add: Let_def pending_frame_frames)
  next
    case False
    obtain outbuf' pending' e where step: "pull_one outbuf pending c = (outbuf', pending', e)" by (metis prod_cases3)
    have "covers base H pos ((opt_list pending @ [c]) @ cs) n" using Cons.prems(1) by simp
    then obtain k where k: "covers base H pos (opt_list pending @ [c]) k" "covers base H k cs n"
      unfolding covers_append [of base H pos "opt_list pending @ [c]" cs n] by blast
    obtain fs where fs: "outbuf' = outbuf @ frames fs" "covers base H pos (fs @ opt_list pending') k" "list_all sendable (fs @ opt_list pending')"
      using pull_one_spec [OF step k(1)] Cons.prems(2) by auto
    show ?thesis
    proof (cases e)
      case True
      have "covers base H pos ((fs @ opt_list pending') @ cs) n"
        unfolding covers_append [of base H pos "fs @ opt_list pending'" cs n] using fs(2) k(2) by blast
      then show ?thesis
        using Cons.prems(2,4) False step True fs b by (intro exI [of _ fs]) (simp add: Let_def)
    next
      case ne: False
      obtain m where m: "covers base H pos fs m" "covers base H m (opt_list pending') k"
        using fs(2) by (auto simp: covers_append)
      have "covers base H m (opt_list pending' @ cs) n" using m(2) k(2) by (auto simp: covers_append)
      moreover have "pl = pull_chunks outbuf' pending' (buffered - length (oc_data c)) cs"
        using Cons.prems(4) False step ne by (simp add: Let_def)
      moreover have "list_all sendable (opt_list pending' @ cs)" using fs(3) Cons.prems(2) by simp
      ultimately obtain gs where gs: "pl_outbuf pl = outbuf' @ frames gs" "covers base H m (gs @ opt_list (pl_pending pl) @ pl_queue pl) n"
          "list_all sendable (gs @ opt_list (pl_pending pl) @ pl_queue pl)" "pl_buffered pl = queued_bytes (pl_queue pl)"
          "queued_bytes (pl_queue pl) \<le> queued_bytes cs"
        using Cons.IH [of m pending' "buffered - length (oc_data c)" pl outbuf'] b by auto
      have "covers base H pos (fs @ (gs @ opt_list (pl_pending pl) @ pl_queue pl)) n"
        unfolding covers_append [of base H pos fs] using m(1) gs(2) by blast
      then show ?thesis using gs fs(1,3) by (intro exI [of _ "fs @ gs"]) simp
    qed
  qed
qed

text \<open>How far the buffer of a client grows in one turn, with chunks of at most one frame.\<close>

definition OUTBUF_BOUND :: nat where
  "OUTBUF_BOUND = 6 * SESSION_OUTPUT_STREAM_BATCH_MAX_BYTES + 26 + SESSION_OUTPUT_STREAM_MAX_FRAME_BYTES"

definition pull_ok :: "string \<Rightarrow> session_output_chunk option \<Rightarrow> bool" where
  "pull_ok outbuf pending \<longleftrightarrow>
     (case pending of
        None \<Rightarrow> length outbuf < 5 * SESSION_OUTPUT_STREAM_BATCH_MAX_BYTES + 13
      | Some p \<Rightarrow> length outbuf < 4 * SESSION_OUTPUT_STREAM_BATCH_MAX_BYTES
                  \<and> length (oc_data p) < SESSION_OUTPUT_STREAM_BATCH_MAX_BYTES)"

lemma pull_fresh_bound:
  assumes "length outbuf < 5 * SESSION_OUTPUT_STREAM_BATCH_MAX_BYTES + 13" and "sendable c"
    and "pull_fresh outbuf c = (outbuf', pending', e)"
  shows "length (outbuf' @ pending_frame pending') \<le> OUTBUF_BOUND \<and> (\<not> e \<longrightarrow> pull_ok outbuf' pending')"
  using assms by (auto simp: pull_fresh_def pull_ok_def sendable_def OUTBUF_BOUND_def pending_frame_def split: if_splits)

lemma pull_one_bound:
  assumes "pull_ok outbuf pending" and "sendable c" and step: "pull_one outbuf pending c = (outbuf', pending', e)"
  shows "length (outbuf' @ pending_frame pending') \<le> OUTBUF_BOUND \<and> (\<not> e \<longrightarrow> pull_ok outbuf' pending')"
proof (cases pending)
  case None
  then show ?thesis using pull_fresh_bound [OF _ assms(2)] assms(1) step by (simp add: pull_one_def pull_ok_def)
next
  case (Some p)
  show ?thesis
  proof (cases "can_merge_output_stream_chunk p c SESSION_OUTPUT_STREAM_BATCH_MAX_BYTES")
    case True
    then show ?thesis using assms Some
      by (auto simp: pull_one_def pull_ok_def can_merge_output_stream_chunk_def OUTBUF_BOUND_def pending_frame_def Let_def split: if_splits)
  next
    case False
    have "length (outbuf @ session_output_frame_bytes p) < 5 * SESSION_OUTPUT_STREAM_BATCH_MAX_BYTES + 13"
      using assms(1) Some by (simp add: pull_ok_def)
    from pull_fresh_bound [OF this assms(2)] show ?thesis using False Some step by (simp add: pull_one_def)
  qed
qed

lemma pull_ok_bound: "pull_ok outbuf pending \<Longrightarrow> length (outbuf @ pending_frame pending) + 13 \<le> OUTBUF_BOUND"
  by (auto simp: pull_ok_def OUTBUF_BOUND_def pending_frame_def split: option.splits)

lemma pull_chunks_bound:
  "pull_ok outbuf pending \<Longrightarrow> list_all sendable queue \<Longrightarrow>
     pl = pull_chunks outbuf pending buffered queue \<Longrightarrow> length (pl_outbuf pl @ pending_frame (pl_pending pl)) \<le> OUTBUF_BOUND"
proof (induction queue arbitrary: outbuf pending buffered pl)
  case Nil
  then show ?case using pull_ok_bound by fastforce
next
  case (Cons c cs)
  obtain outbuf' pending' e where step: "pull_one outbuf pending c = (outbuf', pending', e)" by (metis prod_cases3)
  show ?case
  proof (cases "oc_exited c")
    case True
    then show ?thesis using Cons.prems pull_ok_bound [OF Cons.prems(1)] by (simp add: Let_def pending_frame_def sendable_def)
  next
    case False
    then show ?thesis
      using Cons.prems pull_one_bound [OF Cons.prems(1) _ step] Cons.IH [of outbuf' pending']
      by (cases e) (auto simp: Let_def step)
  qed
qed

text \<open>A turn that leaves nothing to write has emptied the channel.\<close>

lemma pull_chunks_idle:
  "pl = pull_chunks outbuf pending buffered queue \<Longrightarrow> pl_outbuf pl @ pending_frame (pl_pending pl) = [] \<Longrightarrow>
     pl_queue pl = [] \<and> pl_drained pl \<and> \<not> pl_closing pl"
proof (induction queue arbitrary: outbuf pending buffered pl)
  case (Cons c cs)
  obtain outbuf' pending' e where step: "pull_one outbuf pending c = (outbuf', pending', e)" by (metis prod_cases3)
  have fr: "session_output_frame_bytes d \<noteq> []" for d using frame_length [of d] by (metis add_is_0 list.size(3) zero_neq_numeral)
  have "e \<Longrightarrow> outbuf' \<noteq> []"
    using step fr by (auto simp: pull_one_def pull_fresh_def Let_def SESSION_OUTPUT_STREAM_BATCH_MAX_BYTES_def split: option.splits if_splits)
  then show ?case
    using Cons.prems Cons.IH [OF refl, of outbuf' pending' "buffered - length (oc_data c)"] fr
    by (cases "oc_exited c"; cases e) (simp_all add: Let_def step)
qed simp

section \<open>Writing to the socket\<close>

lemma write_outbuf_keeps: "write_outbuf now ws cl = (ok, ws', cl') \<Longrightarrow> cl_outbuf cl' = cl_outbuf cl"
proof (induction ws arbitrary: cl)
  case (Cons w ws)
  then show ?case by (cases w) (auto simp: Let_def split: if_splits)
qed simp

lemma flush_shrinks: "flush_client_outbuf now ws cl = (ok, ws', cl') \<Longrightarrow> length (cl_outbuf cl') \<le> length (cl_outbuf cl)"
  by (auto simp: flush_client_outbuf_def compact_outbuf_def Let_def dest: write_outbuf_keeps split: prod.splits if_splits)

text \<open>What the client has been given: the bytes its socket accepted and the rest of the buffer.\<close>

definition wire :: "stream_client \<Rightarrow> string" where
  "wire cl = cl_socket cl @ drop (cl_out_pos cl) (cl_outbuf cl)"

lemma write_outbuf_wire:
  "write_outbuf now ws cl = (ok, ws', cl') \<Longrightarrow> cl_out_pos cl \<le> length (cl_outbuf cl) \<Longrightarrow>
     wire cl' = wire cl \<and> cl_out_pos cl' \<le> length (cl_outbuf cl')"
proof (induction ws arbitrary: cl)
  case (Cons w ws)
  show ?case
  proof (cases "length (cl_outbuf cl) \<le> cl_out_pos cl")
    case True
    then show ?thesis using Cons.prems by simp
  next
    case False
    show ?thesis
    proof (cases w)
      case (SockWrote n)
      define k where "k = min n (length (cl_outbuf cl) - cl_out_pos cl)"
      define cl1 where "cl1 = cl\<lparr>cl_out_pos := cl_out_pos cl + k, cl_last_progress := now,
          cl_socket := cl_socket cl @ take k (drop (cl_out_pos cl) (cl_outbuf cl))\<rparr>"
      have "wire cl1 = wire cl"
        using append_take_drop_id [of k "drop (cl_out_pos cl) (cl_outbuf cl)"] by (simp add: wire_def cl1_def add.commute)
      moreover have "cl_out_pos cl1 \<le> length (cl_outbuf cl1)" using False by (simp add: cl1_def k_def)
      moreover have "(if k = 0 then (False, ws, cl) else write_outbuf now ws cl1) = (ok, ws', cl')"
        using Cons.prems(1) False by (simp only: write_outbuf.simps SockWrote sock_result.case if_False Let_def k_def cl1_def)
      ultimately show ?thesis using Cons.IH [of cl1] Cons.prems(2) by (auto split: if_splits)
    qed (use Cons False in auto)
  qed
qed simp

lemma flush_wire:
  assumes "flush_client_outbuf now ws cl = (ok, ws', cl')" and "cl_out_pos cl \<le> length (cl_outbuf cl)"
  shows "wire cl' = wire cl \<and> cl_out_pos cl' \<le> length (cl_outbuf cl')"
proof -
  obtain ok1 ws1 cl1 where w: "write_outbuf now ws cl = (ok1, ws1, cl1)" by (metis prod_cases3)
  have cl1: "wire cl1 = wire cl" "cl_out_pos cl1 \<le> length (cl_outbuf cl1)" using write_outbuf_wire [OF w assms(2)] by auto
  have cl2: "wire (compact_outbuf cl1) = wire cl1" "cl_out_pos (compact_outbuf cl1) \<le> length (cl_outbuf (compact_outbuf cl1))"
    using cl1(2) by (auto simp: compact_outbuf_def wire_def)
  have "cl' = cl1 \<or> cl' = compact_outbuf cl1 \<or> cl' = (compact_outbuf cl1)\<lparr>cl_write_interest := cl_outbuf (compact_outbuf cl1) \<noteq> []\<rparr>"
    using assms(1) w by (auto simp: flush_client_outbuf_def Let_def split: if_splits)
  then show ?thesis using cl1 cl2 by (auto simp: wire_def)
qed

section \<open>A client\<close>

text \<open>The invariant of a client attached at \<open>pos\<close>: the frames it was given, its batch and its channel together carry
  the printed bytes from \<open>pos\<close> to \<open>n\<close>.\<close>

definition client_ok :: "u64 \<Rightarrow> string \<Rightarrow> u64 \<Rightarrow> u64 \<Rightarrow> stream_client \<Rightarrow> channel \<Rightarrow> bool" where
  "client_ok base H pos n cl ch \<longleftrightarrow> cl_out_pos cl \<le> length (cl_outbuf cl) \<and>
     length (cl_outbuf cl) \<le> OUTBUF_BOUND \<and> cl_pending cl = None \<and> ch_buffered ch = queued_bytes (ch_queue ch) \<and>
     (\<exists>fs. wire cl = frames fs \<and> covers base H pos (fs @ opt_list (cl_pending cl) @ ch_queue ch) n \<and>
        list_all sendable (fs @ opt_list (cl_pending cl) @ ch_queue ch))"

lemma flush_client_ok:
  "client_ok base H pos n cl ch \<Longrightarrow> flush_client_outbuf now ws cl = (ok, ws', cl') \<Longrightarrow> client_ok base H pos n cl' ch"
proof -
  assume ok: "client_ok base H pos n cl ch" and fl: "flush_client_outbuf now ws cl = (ok, ws', cl')"
  then have "wire cl' = wire cl" "cl_out_pos cl' \<le> length (cl_outbuf cl')" "cl_pending cl' = cl_pending cl"
      "length (cl_outbuf cl') \<le> length (cl_outbuf cl)"
    using flush_wire [OF fl] flush_frame [OF fl] flush_shrinks [OF fl] by (auto simp: client_ok_def)
  then show ?thesis using ok by (auto simp: client_ok_def)
qed

lemma pull_client_ok:
  assumes ok: "client_ok base H pos n cl ch" and empty: "cl_outbuf cl = []" "cl_out_pos cl = 0"
    and pl: "pl = pull_chunks [] (cl_pending cl) (ch_buffered ch) (ch_queue ch)"
  shows "client_ok base H pos n
      (cl\<lparr>cl_outbuf := pl_outbuf pl @ pending_frame (pl_pending pl), cl_pending := None, cl_closing := x\<rparr>)
      (ch\<lparr>ch_queue := pl_queue pl, ch_buffered := pl_buffered pl\<rparr>)
    \<and> queued_bytes (pl_queue pl) \<le> queued_bytes (ch_queue ch)"
proof -
  obtain fs where fs: "wire cl = frames fs" "covers base H pos (fs @ opt_list (cl_pending cl) @ ch_queue ch) n"
      "list_all sendable (fs @ opt_list (cl_pending cl) @ ch_queue ch)"
    using ok by (auto simp: client_ok_def)
  obtain m where m: "covers base H pos fs m" "covers base H m (opt_list (cl_pending cl) @ ch_queue ch) n"
    using fs(2) unfolding covers_append [of base H pos fs] by blast
  obtain gs where gs: "pl_outbuf pl = [] @ frames gs" "covers base H m (gs @ opt_list (pl_pending pl) @ pl_queue pl) n"
      "list_all sendable (gs @ opt_list (pl_pending pl) @ pl_queue pl)" "pl_buffered pl = queued_bytes (pl_queue pl)"
      "queued_bytes (pl_queue pl) \<le> queued_bytes (ch_queue ch)"
    using pull_chunks_spec [OF m(2) _ _ pl] fs(3) ok by (auto simp: client_ok_def)
  have "covers base H pos (fs @ (gs @ opt_list (pl_pending pl) @ pl_queue pl)) n"
    unfolding covers_append [of base H pos fs] using m(1) gs(2) by blast
  moreover have "cl_socket cl = frames fs" using fs(1) empty by (simp add: wire_def)
  moreover have "length (pl_outbuf pl @ pending_frame (pl_pending pl)) \<le> OUTBUF_BOUND"
    using pull_chunks_bound [OF _ _ pl] ok fs(3) by (simp add: client_ok_def pull_ok_def)
  ultimately show ?thesis
    using gs fs(3) empty unfolding client_ok_def
    by (intro conjI exI [of _ "fs @ gs @ opt_list (pl_pending pl)"]) (simp_all add: wire_def pending_frame_frames)
qed

lemma pump_client_ok:
  "client_ok base H pos n cl ch \<Longrightarrow> pump_stream_client now ws cl ch = (keep, ws', cl', ch') \<Longrightarrow>
     client_ok base H pos n cl' ch' \<and> ch_sender ch' = ch_sender ch \<and> ch_receiver ch' = ch_receiver ch
     \<and> cl_subscriber_id cl' = cl_subscriber_id cl \<and> queued_bytes (ch_queue ch') \<le> queued_bytes (ch_queue ch)"
proof (induction now ws cl ch arbitrary: keep ws' cl' ch' rule: pump_stream_client.induct)
  case (1 now ws cl ch)
  obtain ok ws1 cl1 where fl: "flush_client_outbuf now ws cl = (ok, ws1, cl1)" by (metis prod_cases3)
  have ok1: "client_ok base H pos n cl1 ch" using flush_client_ok [OF "1.prems"(1) fl] .
  have id1: "cl_subscriber_id cl1 = cl_subscriber_id cl" using flush_frame [OF fl] by simp
  define pl where "pl = pull_chunks (cl_outbuf cl1) (cl_pending cl1) (ch_buffered ch) (ch_queue ch)"
  define cl2 where "cl2 = cl1\<lparr>cl_outbuf := pl_outbuf pl @ pending_frame (pl_pending pl), cl_pending := None, cl_closing := pl_closing pl\<rparr>"
  define ch2 where "ch2 = ch\<lparr>ch_queue := pl_queue pl, ch_buffered := pl_buffered pl\<rparr>"
  define disc where "disc = (pl_drained pl \<and> \<not> ch_sender ch)"
  have eq: "(if \<not> ok then (False, ws1, cl1, ch)
        else if cl_out_pos cl1 < length (cl_outbuf cl1) then (True, ws1, cl1, ch)
        else if cl_closing cl1 then (False, ws1, cl1, ch)
        else if cl_out_pos cl2 = length (cl_outbuf cl2) then (\<not> (disc \<or> pl_closing pl), ws1, cl2, ch2)
        else if disc then (case flush_client_outbuf now ws1 cl2 of (_, ws2, cl3) \<Rightarrow> (False, ws2, cl3, ch2))
        else pump_stream_client now ws1 cl2 ch2) = (keep, ws', cl', ch')"
    using "1.prems"(2)
    by (simp only: pump_stream_client.simps [of now ws cl ch] fl prod.case Let_def pl_def cl2_def ch2_def disc_def)
  show ?case
  proof (cases "\<not> ok \<or> cl_out_pos cl1 < length (cl_outbuf cl1) \<or> cl_closing cl1")
    case True
    then have "cl' = cl1 \<and> ch' = ch" using eq by (auto split: if_splits)
    then show ?thesis using ok1 id1 by simp
  next
    case False
    have empty: "cl_outbuf cl1 = []" "cl_out_pos cl1 = 0" using flush_empty [of now ws cl ws1 cl1] fl False by auto
    have ok2: "client_ok base H pos n cl2 ch2" "queued_bytes (ch_queue ch2) \<le> queued_bytes (ch_queue ch)"
      using pull_client_ok [OF ok1 empty, of pl "pl_closing pl"] empty by (simp_all add: pl_def cl2_def ch2_def)
    have same: "ch_sender ch2 = ch_sender ch" "ch_receiver ch2 = ch_receiver ch" "cl_subscriber_id cl2 = cl_subscriber_id cl"
      using id1 by (simp_all add: ch2_def cl2_def)
    consider "cl' = cl2" "ch' = ch2" | ok3 ws3 where "flush_client_outbuf now ws1 cl2 = (ok3, ws3, cl')" "ch' = ch2"
      | "cl_out_pos cl2 \<noteq> length (cl_outbuf cl2)" "\<not> disc" "pump_stream_client now ws1 cl2 ch2 = (keep, ws', cl', ch')"
      using eq False by (auto split: if_splits prod.splits)
    then show ?thesis
    proof cases
      case 1
      then show ?thesis using ok2 same by simp
    next
      case 2
      then show ?thesis using flush_client_ok [OF ok2(1) 2(1)] flush_frame [OF 2(1)] ok2 same by simp
    next
      case 3
      have "client_ok base H pos n cl' ch' \<and> ch_sender ch' = ch_sender ch2 \<and> ch_receiver ch' = ch_receiver ch2
          \<and> cl_subscriber_id cl' = cl_subscriber_id cl2 \<and> queued_bytes (ch_queue ch') \<le> queued_bytes (ch_queue ch2)"
        using "1.IH" [OF fl [symmetric] refl _ _ _ pl_def cl2_def ch2_def disc_def 3(1,2) ok2(1) 3(3)] False by simp
      then show ?thesis using same ok2(2) by simp
    qed
  qed
qed

section \<open>The broadcaster\<close>

lemma retain_enqueued_spec:
  "distinct (map sb_id ss) \<Longrightarrow> retain_enqueued c ss chs = (kept, chs') \<Longrightarrow>
     kept = filter (\<lambda>s. fst (enqueue_output_chunk c (chs (sb_id s)))) ss \<and>
     (\<forall>i. i \<notin> sb_id ` set ss \<longrightarrow> chs' i = chs i) \<and>
     (\<forall>s \<in> set ss. chs' (sb_id s) = (if fst (enqueue_output_chunk c (chs (sb_id s)))
        then snd (enqueue_output_chunk c (chs (sb_id s))) else (chs (sb_id s))\<lparr>ch_sender := False\<rparr>))"
proof (induction ss arbitrary: chs kept chs')
  case (Cons s ss)
  obtain keep ch where e: "enqueue_output_chunk c (chs (sb_id s)) = (keep, ch)"
    by (cases "enqueue_output_chunk c (chs (sb_id s))")
  define chs1 where "chs1 = chs(sb_id s := if keep then ch else ch\<lparr>ch_sender := False\<rparr>)"
  obtain kept2 chs2 where r: "retain_enqueued c ss chs1 = (kept2, chs2)" by (cases "retain_enqueued c ss chs1")
  have eqs: "kept = (if keep then s # kept2 else kept2)" "chs' = chs2"
    using Cons.prems(2) r by (simp_all add: e chs1_def)
  have fresh: "sb_id s \<notin> sb_id ` set ss" using Cons.prems(1) by simp
  have IH: "kept2 = filter (\<lambda>s. fst (enqueue_output_chunk c (chs1 (sb_id s)))) ss"
      "\<forall>i. i \<notin> sb_id ` set ss \<longrightarrow> chs2 i = chs1 i"
      "\<forall>s \<in> set ss. chs2 (sb_id s) = (if fst (enqueue_output_chunk c (chs1 (sb_id s)))
        then snd (enqueue_output_chunk c (chs1 (sb_id s))) else (chs1 (sb_id s))\<lparr>ch_sender := False\<rparr>)"
    using Cons.IH [OF _ r] Cons.prems(1) by simp_all
  have other: "chs1 (sb_id s') = chs (sb_id s')" if "s' \<in> set ss" for s'
  proof -
    have "sb_id s' \<noteq> sb_id s" using that fresh by (metis imageI)
    then show ?thesis by (simp add: chs1_def)
  qed
  have keep_ch: "\<not> keep \<longrightarrow> ch = chs (sb_id s)" using e by (auto simp: enqueue_output_chunk_def split: if_splits)
  have "kept2 = filter (\<lambda>s. fst (enqueue_output_chunk c (chs (sb_id s)))) ss"
    using IH(1) other by (simp cong: filter_cong)
  then show ?case
    using eqs IH(2,3) other fresh e keep_ch by (auto simp: chs1_def)
qed simp

lemma enqueue_fields:
  assumes "enqueue_output_chunk c ch = (keep, ch')"
  shows "keep \<Longrightarrow> ch_queue ch' = ch_queue ch @ [c] \<and> ch_buffered ch' = ch_buffered ch + length (oc_data c)
      \<and> ch_buffered ch \<le> SESSION_OUTPUT_STREAM_SUBSCRIBER_MAX_BUFFERED_BYTES"
    and "ch_sender ch' = ch_sender ch" and "ch_receiver ch' = ch_receiver ch" and "\<not> keep \<Longrightarrow> ch' = ch"
  using assms by (auto simp: enqueue_output_chunk_def split: if_splits)

lemma enqueue_all_ok:
  "ch_receiver ch \<Longrightarrow> ch_buffered ch + queued_bytes cs \<le> SESSION_OUTPUT_STREAM_SUBSCRIBER_MAX_BUFFERED_BYTES \<Longrightarrow>
     enqueue_all cs ch = ch\<lparr>ch_queue := ch_queue ch @ cs, ch_buffered := ch_buffered ch + queued_bytes cs\<rparr>"
proof (induction cs arbitrary: ch)
  case (Cons c cs)
  define ch1 where "ch1 = ch\<lparr>ch_queue := ch_queue ch @ [c], ch_buffered := ch_buffered ch + length (oc_data c)\<rparr>"
  have "enqueue_output_chunk c ch = (True, ch1)"
    using Cons.prems by (simp add: enqueue_output_chunk_def ch1_def)
  then have "enqueue_all (c # cs) ch = enqueue_all cs ch1" by (simp add: enqueue_all_def)
  also have "\<dots> = ch1\<lparr>ch_queue := ch_queue ch1 @ cs, ch_buffered := ch_buffered ch1 + queued_bytes cs\<rparr>"
    using Cons.prems by (intro Cons.IH) (simp_all add: ch1_def)
  finally show ?case by (simp add: ch1_def add.assoc)
qed (simp add: enqueue_all_def)

section \<open>The recent chunks\<close>

definition recent_chunk :: "recent_output_chunk \<Rightarrow> session_output_chunk" where
  "recent_chunk r = live_chunk (rc_data r) (rc_start_offset r + length (rc_data r))"

definition start_of :: "recent_output_chunk list \<Rightarrow> u64 \<Rightarrow> u64" where
  "start_of rs n = (case rs of r # _ \<Rightarrow> rc_start_offset r | [] \<Rightarrow> n)"

definition recent_ok :: "u64 \<Rightarrow> string \<Rightarrow> output_broadcaster \<Rightarrow> bool" where
  "recent_ok base H b \<longleftrightarrow> ob_next_offset b = base + length H \<and>
     ob_recent_bytes b = queued_bytes (map recent_chunk (ob_recent b)) \<and>
     ob_recent_bytes b \<le> SESSION_OUTPUT_STREAM_RECENT_BYTES \<and>
     covers base H (start_of (ob_recent b) (ob_next_offset b)) (map recent_chunk (ob_recent b)) (ob_next_offset b)"

lemma recent_chunk_sel [simp]:
  "oc_data (recent_chunk r) = rc_data r" "oc_next_offset (recent_chunk r) = rc_start_offset r + length (rc_data r)"
  by (simp_all add: recent_chunk_def live_chunk_def)

lemma recent_chunk_at: "chunk_at base H pos (recent_chunk r) \<Longrightarrow> rc_start_offset r = pos"
  by (auto dest: chunk_atD simp: recent_chunk_def live_chunk_def)

lemma covers_start: "covers base H pos (map recent_chunk rs) n \<Longrightarrow> start_of rs n = pos"
  by (cases rs) (auto simp: start_of_def dest: recent_chunk_at)

lemma covers_suffix:
  "covers base H pos (map recent_chunk (pre @ rs)) n \<Longrightarrow> covers base H (start_of rs n) (map recent_chunk rs) n"
  using covers_start by (fastforce simp: covers_append)

lemma pop_recent_spec:
  "pop_recent bytes rs = (bytes', rs') \<Longrightarrow> bytes = queued_bytes (map recent_chunk rs) \<Longrightarrow>
     bytes' = queued_bytes (map recent_chunk rs') \<and> bytes' \<le> SESSION_OUTPUT_STREAM_RECENT_BYTES \<and> (\<exists>pre. rs = pre @ rs')"
proof (induction bytes rs rule: pop_recent.induct)
  case (2 bytes r rs)
  show ?case
  proof (cases "bytes > SESSION_OUTPUT_STREAM_RECENT_BYTES")
    case True
    have "bytes - length (rc_data r) = queued_bytes (map recent_chunk rs)"
      using "2.prems"(2) by simp
    then show ?thesis using "2.IH" True "2.prems"(1) by (auto intro: exI [of _ "r # _"])
  next
    case False
    then show ?thesis using "2.prems" by auto
  qed
qed auto

lemma recent_ok_release: "recent_ok base H b \<Longrightarrow> recent_ok base H (release_recent b)"
  by (simp add: recent_ok_def release_recent_def start_of_def)

text \<open>What a new subscriber is given of the recent chunks.\<close>

lemma recent_tail_whole:
  assumes "chunk_at base H pos (recent_chunk r)" and "offset \<le> pos"
  shows "recent_tail offset r = (if rc_data r = [] then [] else [recent_chunk r])"
proof -
  have "rc_start_offset r = pos" using recent_chunk_at [OF assms(1)] .
  note start = this
  show ?thesis
  proof (cases "rc_data r = []")
    case False
    then have "0 < length (rc_data r)" by simp
    then have "\<not> pos + length (rc_data r) \<le> offset" using assms(2) by linarith
    then show ?thesis using start assms(2) False by (simp add: recent_tail_def recent_chunk_def Let_def)
  qed (simp add: recent_tail_def)
qed

lemma recent_tails_behind:
  "covers base H pos (map recent_chunk rs) n \<Longrightarrow> offset \<le> pos \<Longrightarrow>
     covers base H pos (concat (map (recent_tail offset) rs)) n \<and>
     queued_bytes (concat (map (recent_tail offset) rs)) \<le> queued_bytes (map recent_chunk rs)"
proof (induction rs arbitrary: pos)
  case (Cons r rs)
  have c: "chunk_at base H pos (recent_chunk r)" and rest: "covers base H (oc_next_offset (recent_chunk r)) (map recent_chunk rs) n"
    using Cons.prems(1) by simp_all
  have nx: "oc_next_offset (recent_chunk r) = pos + length (rc_data r)"
    using chunk_atD(2) [OF c] by (simp add: recent_chunk_def live_chunk_def)
  have "covers base H (oc_next_offset (recent_chunk r)) (concat (map (recent_tail offset) rs)) n \<and>
     queued_bytes (concat (map (recent_tail offset) rs)) \<le> queued_bytes (map recent_chunk rs)"
    using Cons.IH [OF rest] Cons.prems(2) nx by simp
  then show ?case
    using recent_tail_whole [OF c Cons.prems(2)] c nx by (cases "rc_data r = []") auto
qed simp

lemma recent_tails:
  "covers base H pos (map recent_chunk rs) n \<Longrightarrow> pos \<le> offset \<Longrightarrow> offset \<le> n \<Longrightarrow>
     covers base H offset (concat (map (recent_tail offset) rs)) n \<and>
     queued_bytes (concat (map (recent_tail offset) rs)) \<le> queued_bytes (map recent_chunk rs)"
proof (induction rs arbitrary: pos)
  case (Cons r rs)
  have c: "chunk_at base H pos (recent_chunk r)" and rest: "covers base H (oc_next_offset (recent_chunk r)) (map recent_chunk rs) n"
    using Cons.prems(1) by simp_all
  define m where "m = length (rc_data r)"
  have start: "rc_start_offset r = pos" using recent_chunk_at [OF c] .
  have nx: "oc_next_offset (recent_chunk r) = pos + m" "oc_data (recent_chunk r) = rc_data r"
    using start by (simp_all add: recent_chunk_def live_chunk_def m_def)
  show ?case
  proof (cases "pos + m \<le> offset")
    case True
    then have "recent_tail offset r = []" by (simp add: recent_tail_def start m_def Let_def)
    then show ?thesis using Cons.IH [OF rest] Cons.prems(3) True nx by simp
  next
    case False
    define data where "data = drop (offset - pos) (rc_data r)"
    have len: "offset + length data = pos + m" "data \<noteq> []"
      using False Cons.prems(2) by (auto simp: data_def m_def)
    have tail: "recent_tail offset r = [live_chunk data (pos + m)]"
      using False len by (simp add: recent_tail_def start m_def Let_def data_def)
    have "rc_data r = take m (drop (pos - base) H)" "base \<le> pos" "pos + m \<le> base + length H"
      using c nx by (auto simp: chunk_at_def m_def)
    then have "data = take (m - (offset - pos)) (drop (offset - pos + (pos - base)) H)"
      by (simp add: data_def drop_take)
    moreover have "m - (offset - pos) = length data" "offset - pos + (pos - base) = offset - base"
      using len Cons.prems(2) \<open>base \<le> pos\<close> by (simp_all add: data_def m_def)
    ultimately have "chunk_at base H offset (live_chunk data (offset + length data))"
      using \<open>base \<le> pos\<close> \<open>pos + m \<le> base + length H\<close> Cons.prems(2) len(1) by (intro chunk_at_live) simp_all
    moreover have "covers base H (pos + m) (concat (map (recent_tail offset) rs)) n \<and>
        queued_bytes (concat (map (recent_tail offset) rs)) \<le> queued_bytes (map recent_chunk rs)"
      using recent_tails_behind [OF rest, of offset] False nx by simp
    moreover have "length data \<le> m" by (simp add: data_def m_def)
    ultimately show ?thesis using tail len nx m_def by (simp add: live_chunk_def)
  qed
qed simp

section \<open>The invariant of the streams\<close>

text \<open>A socket that accepted a prefix of frames without a gap.\<close>

definition wire_inv :: "u64 \<Rightarrow> string \<Rightarrow> (u64 \<times> u64) set \<Rightarrow> u64 \<Rightarrow> stream_client \<Rightarrow> bool" where
  "wire_inv base H conns t cl \<longleftrightarrow> (\<exists>pos fs m k. (t, pos) \<in> conns \<and> cl_socket cl = take k (frames fs) \<and>
     covers base H pos fs m \<and> list_all sendable fs)"

definition client_inv :: "u64 \<Rightarrow> string \<Rightarrow> (u64 \<times> u64) set \<Rightarrow> output_broadcaster \<Rightarrow> u64 \<Rightarrow> stream_client \<Rightarrow> channel \<Rightarrow> bool" where
  "client_inv base H conns b t cl ch \<longleftrightarrow> cl_subscriber_id cl \<le> ob_next_subscriber_id b \<and>
     queued_bytes (ch_queue ch) \<le> SESSION_OUTPUT_STREAM_SUBSCRIBER_MAX_BUFFERED_BYTES + SESSION_OUTPUT_STREAM_MAX_FRAME_BYTES \<and>
     ch_sender ch = (cl_subscriber_id cl \<in> sb_id ` set (ob_subscribers b)) \<and>
     (\<exists>pos n. (t, pos) \<in> conns \<and> client_ok base H pos n cl ch \<and> (ch_sender ch \<longrightarrow> n = ob_next_offset b))"

definition stream_inv :: "u64 \<Rightarrow> string \<Rightarrow> (u64 \<times> u64) set \<Rightarrow> nat \<Rightarrow> stream_session \<Rightarrow> bool" where
  "stream_inv base H conns k ss \<longleftrightarrow>
     recent_ok base H (ss_broadcaster ss) \<and> ob_next_subscriber_id (ss_broadcaster ss) \<le> k \<and>
     distinct (map sb_id (ob_subscribers (ss_broadcaster ss))) \<and>
     (\<forall>s \<in> set (ob_subscribers (ss_broadcaster ss)). sb_id s \<le> ob_next_subscriber_id (ss_broadcaster ss)) \<and>
     hm_wf (ss_clients ss) \<and> distinct (map (cl_subscriber_id \<circ> snd) (ss_clients ss)) \<and>
     (\<forall>(t, cl) \<in> set (ss_clients ss). client_inv base H conns (ss_broadcaster ss) t cl (ss_channels ss (cl_subscriber_id cl))) \<and>
     (\<forall>(t, cl) \<in> set (ss_closed ss). wire_inv base H conns t cl)"

lemma client_ok_wire: "client_ok base H pos n cl ch \<Longrightarrow> (t, pos) \<in> conns \<Longrightarrow> wire_inv base H conns t cl"
proof -
  assume ok: "client_ok base H pos n cl ch" and conn: "(t, pos) \<in> conns"
  obtain fs where fs: "wire cl = frames fs" "covers base H pos (fs @ opt_list (cl_pending cl) @ ch_queue ch) n"
      "list_all sendable (fs @ opt_list (cl_pending cl) @ ch_queue ch)"
    using ok by (auto simp: client_ok_def)
  obtain m where "covers base H pos fs m" using fs(2) by (auto simp: covers_append)
  moreover have "cl_socket cl = take (length (cl_socket cl)) (frames fs)"
    using fs(1) [symmetric] by (simp add: wire_def)
  ultimately show ?thesis using conn fs(3) unfolding wire_inv_def by (auto simp del: take_append)
qed

lemma wire_inv_mono:
  "wire_inv base H conns t cl \<Longrightarrow> conns \<subseteq> conns' \<Longrightarrow> wire_inv base (H @ x) conns' t cl"
  using covers_extend unfolding wire_inv_def by blast

lemma client_ok_extend: "client_ok base H pos n cl ch \<Longrightarrow> client_ok base (H @ x) pos n cl ch"
  using covers_extend unfolding client_ok_def by blast

lemma client_inv_conns: "client_inv base H conns b t cl ch \<Longrightarrow> conns \<subseteq> conns' \<Longrightarrow> client_inv base H conns' b t cl ch"
  unfolding client_inv_def by blast

lemma stream_inv_conns:
  assumes "stream_inv base H conns k ss" and "conns \<subseteq> conns'" and "k \<le> k'" shows "stream_inv base H conns' k' ss"
  using assms client_inv_conns [OF _ assms(2)] wire_inv_mono [OF _ assms(2), of base H _ _ "[]"]
  unfolding stream_inv_def by (auto split: prod.splits)

lemma recent_ok_cong:
  "ob_next_offset b' = ob_next_offset b \<Longrightarrow> ob_recent_bytes b' = ob_recent_bytes b \<Longrightarrow> ob_recent b' = ob_recent b \<Longrightarrow>
     recent_ok base H b' = recent_ok base H b"
  by (simp add: recent_ok_def)

lemma stream_inv_channels:
  assumes "stream_inv base H conns k ss"
    and "\<And>t cl. (t, cl) \<in> set (ss_clients ss) \<Longrightarrow> client_inv base H conns (ss_broadcaster ss) t cl (chs (cl_subscriber_id cl))"
  shows "stream_inv base H conns k (ss\<lparr>ss_channels := chs\<rparr>)"
  using assms by (auto simp: stream_inv_def)

subsection \<open>Serving one client\<close>

lemma close_client_inv:
  assumes inv: "stream_inv base H conns k ss" and wire: "wire_inv base H conns t cl"
    and other: "cl_subscriber_id cl \<notin> cl_subscriber_id ` snd ` set (ss_clients ss)"
  shows "stream_inv base H conns k (close_client t cl ss)"
proof -
  define i where "i = cl_subscriber_id cl"
  define b where "b = ss_broadcaster ss"
  define b' where "b' = b\<lparr>ob_subscribers := filter (\<lambda>s. sb_id s \<noteq> i) (ob_subscribers b)\<rparr>"
  define chs' where "chs' = ss_channels (close_client t cl ss)"
  have b': "ss_broadcaster (close_client t cl ss) = b'" and cls: "ss_clients (close_client t cl ss) = ss_clients ss"
    and closed: "ss_closed (close_client t cl ss) = ss_closed ss @ [(t, cl)]"
    by (simp_all add: close_client_def remove_subscriber_def b'_def b_def i_def)
  have same: "chs' j = ss_channels ss j" if "j \<noteq> i" for j
    using that by (simp add: chs'_def close_client_def remove_subscriber_def i_def)
  have client: "client_inv base H conns b' t' cl' (chs' (cl_subscriber_id cl'))" if "(t', cl') \<in> set (ss_clients ss)" for t' cl'
  proof -
    have "cl_subscriber_id cl' \<noteq> i" using that other by (force simp: i_def)
    moreover have "client_inv base H conns b t' cl' (ss_channels ss (cl_subscriber_id cl'))"
      using inv that by (auto simp: stream_inv_def b_def)
    ultimately show ?thesis using same by (auto simp: client_inv_def b'_def)
  qed
  have "recent_ok base H b'" using inv recent_ok_cong [of b' b base H] by (simp add: stream_inv_def b'_def b_def)
  moreover have "distinct (map sb_id (ob_subscribers b'))" using inv by (simp add: stream_inv_def b'_def b_def distinct_map_filter)
  ultimately show ?thesis
    using inv wire client unfolding stream_inv_def b' cls closed chs'_def [symmetric]
    by (auto simp: b'_def b_def)
qed

lemma pump_client_inv:
  assumes inv: "stream_inv base H conns k ss" and new: "t \<notin> fst ` set (ss_clients ss)"
    and cl: "client_inv base H conns (ss_broadcaster ss) t cl (ss_channels ss (cl_subscriber_id cl))"
    and other: "cl_subscriber_id cl \<notin> cl_subscriber_id ` snd ` set (ss_clients ss)"
  shows "stream_inv base H conns k (pump_client now ws t cl ss)"
proof -
  define i where "i = cl_subscriber_id cl"
  obtain keep ws' cl' ch where p: "pump_stream_client now ws cl (ss_channels ss i) = (keep, ws', cl', ch)" by (metis prod_cases4)
  obtain pos n where pos: "(t, pos) \<in> conns" "client_ok base H pos n cl (ss_channels ss i)"
      "ch_sender (ss_channels ss i) \<longrightarrow> n = ob_next_offset (ss_broadcaster ss)"
    using cl by (auto simp: client_inv_def i_def)
  have ok: "client_ok base H pos n cl' ch" "ch_sender ch = ch_sender (ss_channels ss i)" "cl_subscriber_id cl' = i"
      "queued_bytes (ch_queue ch) \<le> queued_bytes (ch_queue (ss_channels ss i))"
    using pump_client_ok [OF pos(2) p] by (simp_all add: i_def)
  define ss1 where "ss1 = ss\<lparr>ss_channels := (ss_channels ss)(i := ch)\<rparr>"
  have client: "client_inv base H conns (ss_broadcaster ss) t' c' (((ss_channels ss)(i := ch)) (cl_subscriber_id c'))"
    if "(t', c') \<in> set (ss_clients ss)" for t' c'
  proof -
    have "cl_subscriber_id c' \<noteq> i" using that other by (force simp: i_def)
    then show ?thesis using inv that by (auto simp: stream_inv_def)
  qed
  have inv1: "stream_inv base H conns k ss1"
    unfolding ss1_def by (rule stream_inv_channels [OF inv client])
  show ?thesis
  proof (cases keep)
    case True
    have ours: "client_inv base H conns (ss_broadcaster ss) t cl' ch"
      using cl ok pos by (auto simp: client_inv_def i_def)
    have put: "hm_put t cl' (ss_clients ss) = ss_clients ss @ [(t, cl')]"
      using new by (simp add: hm_put_new map_of_eq_None_iff)
    have "pump_client now ws t cl ss = ss1\<lparr>ss_clients := ss_clients ss @ [(t, cl')]\<rparr>"
      using p True by (simp add: pump_client_def i_def [symmetric] ss1_def put)
    moreover have "hm_wf (ss_clients ss @ [(t, cl')])" using inv new by (auto simp: stream_inv_def hm_wf_def)
    moreover have "distinct (map (cl_subscriber_id \<circ> snd) (ss_clients ss @ [(t, cl')]))"
      using inv other ok(3) by (auto simp: stream_inv_def i_def image_comp)
    ultimately show ?thesis
      using inv1 ours ok(3) unfolding stream_inv_def by (auto simp: ss1_def)
  next
    case False
    have "pump_client now ws t cl ss = close_client t cl' ss1"
      using p False by (simp add: pump_client_def i_def [symmetric] ss1_def)
    then show ?thesis
      using close_client_inv [OF inv1 client_ok_wire [OF ok(1) pos(1)]] other ok(3) by (simp add: i_def ss1_def)
  qed
qed

lemma take_client_inv:
  assumes inv: "stream_inv base H conns k ss" and get: "hm_get (ss_clients ss) t = Some cl"
  shows "stream_inv base H conns k (without_client t ss)"
    and "client_inv base H conns (ss_broadcaster ss) t cl (ss_channels ss (cl_subscriber_id cl))"
    and "t \<notin> fst ` set (ss_clients (without_client t ss))"
    and "cl_subscriber_id cl \<notin> cl_subscriber_id ` snd ` set (ss_clients (without_client t ss))"
proof -
  have wf: "hm_wf (ss_clients ss)" and dis: "distinct (map (cl_subscriber_id \<circ> snd) (ss_clients ss))"
    using inv by (simp_all add: stream_inv_def)
  have mem: "(t, cl) \<in> set (ss_clients ss)" using hm_get_in_set [OF get] .
  have rest: "set (ss_clients (without_client t ss)) = {(t', c) \<in> set (ss_clients ss). t' \<noteq> t}"
    by (auto simp: without_client_def hm_remove_def)
  show "client_inv base H conns (ss_broadcaster ss) t cl (ss_channels ss (cl_subscriber_id cl))"
    using inv mem by (auto simp: stream_inv_def)
  show "t \<notin> fst ` set (ss_clients (without_client t ss))" using rest by auto
  show "cl_subscriber_id cl \<notin> cl_subscriber_id ` snd ` set (ss_clients (without_client t ss))"
  proof
    assume "cl_subscriber_id cl \<in> cl_subscriber_id ` snd ` set (ss_clients (without_client t ss))"
    then obtain t' c where c: "(t', c) \<in> set (ss_clients ss)" "t' \<noteq> t" "cl_subscriber_id c = cl_subscriber_id cl"
      using rest by force
    have "inj_on (cl_subscriber_id \<circ> snd) (set (ss_clients ss))" using dis by (simp add: distinct_map)
    then have "(t', c) = (t, cl)" using c mem by (auto dest!: inj_onD [of _ _ "(t', c)" "(t, cl)"])
    then show False using c(2) by simp
  qed
  show "stream_inv base H conns k (without_client t ss)"
    using inv wf dis unfolding stream_inv_def
    by (auto simp: without_client_def hm_remove_def hm_wf_filter distinct_map_filter)
qed

lemma client_writable_inv:
  assumes "stream_inv base H conns k ss" shows "stream_inv base H conns k (client_writable now ws t ss)"
proof (cases "hm_get (ss_clients ss) t")
  case (Some cl)
  note t = take_client_inv [OF assms Some]
  have "client_inv base H conns (ss_broadcaster (without_client t ss)) t cl (ss_channels (without_client t ss) (cl_subscriber_id cl))"
    using t(2) by (simp add: without_client_def)
  then show ?thesis using pump_client_inv [OF t(1,3) _ t(4)] Some by (simp add: client_writable_def)
qed (use assms in \<open>simp add: client_writable_def\<close>)

lemma detach_client_inv:
  assumes "stream_inv base H conns k ss" shows "stream_inv base H conns k (detach_client t ss)"
proof (cases "hm_get (ss_clients ss) t")
  case (Some cl)
  note t = take_client_inv [OF assms Some]
  have "wire_inv base H conns t cl" using t(2) client_ok_wire by (auto simp: client_inv_def)
  then show ?thesis using close_client_inv [OF t(1) _ t(4)] Some by (simp add: detach_client_def)
qed (use assms in \<open>simp add: detach_client_def\<close>)

lemma flush_stream_clients_inv:
  "stream_inv base H conns k ss \<Longrightarrow> stream_inv base H conns k (flush_stream_clients now wss ss)"
  by (induction now wss ss rule: flush_stream_clients.induct) (auto intro: client_writable_inv)

lemma fold_detach_inv: "stream_inv base H conns k ss \<Longrightarrow> stream_inv base H conns k (fold detach_client ts ss)"
  by (induction ts arbitrary: ss) (auto intro: detach_client_inv)

subsection \<open>Output and subscriptions\<close>

lemma client_ok_append:
  assumes ok: "client_ok base H pos n cl ch" and at: "chunk_at base H n c" and send: "sendable c"
    and ch': "ch_queue ch' = ch_queue ch @ [c]" "ch_buffered ch' = ch_buffered ch + length (oc_data c)"
  shows "client_ok base H pos (oc_next_offset c) cl ch'"
proof -
  obtain fs where fs: "wire cl = frames fs" "covers base H pos (fs @ opt_list (cl_pending cl) @ ch_queue ch) n"
      "list_all sendable (fs @ opt_list (cl_pending cl) @ ch_queue ch)" "cl_out_pos cl \<le> length (cl_outbuf cl)"
      "ch_buffered ch = queued_bytes (ch_queue ch)" "length (cl_outbuf cl) \<le> OUTBUF_BOUND" "cl_pending cl = None"
    using ok by (auto simp: client_ok_def)
  have "covers base H n [c] (oc_next_offset c)" using at unfolding covers_single by simp
  then have "covers base H pos ((fs @ opt_list (cl_pending cl) @ ch_queue ch) @ [c]) (oc_next_offset c)"
    using fs(2) unfolding covers_append [of base H pos "fs @ opt_list (cl_pending cl) @ ch_queue ch"] by blast
  then show ?thesis
    unfolding client_ok_def using fs send ch' by (intro conjI exI [of _ fs]) simp_all
qed

text \<open>A chunk that continues the stream is enqueued for every subscriber that is kept; the others lose their sender.\<close>

lemma client_inv_retain:
  assumes ret: "retain_enqueued c (ob_subscribers b) chs = (kept, chs')" and dis: "distinct (map sb_id (ob_subscribers b))"
    and cl: "client_inv base H conns b t cl (chs i)" and i: "i = cl_subscriber_id cl"
    and at: "chunk_at base (H @ x) (ob_next_offset b) c" and send: "sendable c"
    and b': "ob_next_subscriber_id b' = ob_next_subscriber_id b" "ob_next_offset b' = oc_next_offset c"
      "ob_subscribers b' = kept"
  shows "client_inv base (H @ x) conns b' t cl (chs' i)"
proof -
  note spec = retain_enqueued_spec [OF dis ret]
  obtain pos n where pos: "(t, pos) \<in> conns" "client_ok base H pos n cl (chs i)"
      "ch_sender (chs i) \<longrightarrow> n = ob_next_offset b" "ch_sender (chs i) = (i \<in> sb_id ` set (ob_subscribers b))"
      "queued_bytes (ch_queue (chs i)) \<le> SESSION_OUTPUT_STREAM_SUBSCRIBER_MAX_BUFFERED_BYTES + SESSION_OUTPUT_STREAM_MAX_FRAME_BYTES"
      "i \<le> ob_next_subscriber_id b"
    using cl i by (auto simp: client_inv_def)
  have ext: "client_ok base (H @ x) pos n cl (chs i)" using client_ok_extend [OF pos(2)] .
  obtain keep ch where e: "enqueue_output_chunk c (chs i) = (keep, ch)" by (cases "enqueue_output_chunk c (chs i)")
  consider (gone) "\<not> ch_sender (chs i)" "i \<notin> sb_id ` set (ob_subscribers b)" "chs' i = chs i" "i \<notin> sb_id ` set kept"
    | (dropped) "i \<in> sb_id ` set (ob_subscribers b)" "\<not> keep" "chs' i = (chs i)\<lparr>ch_sender := False\<rparr>" "i \<notin> sb_id ` set kept"
    | (kept) "i \<in> sb_id ` set (ob_subscribers b)" "keep" "chs' i = ch" "i \<in> sb_id ` set kept"
  proof -
    have kept: "i \<in> sb_id ` set kept \<longleftrightarrow> i \<in> sb_id ` set (ob_subscribers b) \<and> keep"
      using spec e by force
    have "chs' i = (if i \<in> sb_id ` set (ob_subscribers b) then if keep then ch else (chs i)\<lparr>ch_sender := False\<rparr> else chs i)"
      using spec e by force
    then show thesis using that kept pos(4) by (cases "i \<in> sb_id ` set (ob_subscribers b)"; cases keep) auto
  qed
  then show ?thesis
  proof cases
    case gone
    then show ?thesis using pos ext b' i by (auto simp: client_inv_def)
  next
    case dropped
    then have "client_ok base (H @ x) pos n cl (chs' i)" using ext by (auto simp: client_ok_def)
    then show ?thesis using dropped pos b' i by (auto simp: client_inv_def)
  next
    case kept
    note en = enqueue_fields [OF e]
    have q: "ch_queue ch = ch_queue (chs i) @ [c]" "ch_buffered ch = ch_buffered (chs i) + length (oc_data c)"
        "ch_buffered (chs i) \<le> SESSION_OUTPUT_STREAM_SUBSCRIBER_MAX_BUFFERED_BYTES"
      using en(1) kept(2) by auto
    have buf: "ch_buffered (chs i) = queued_bytes (ch_queue (chs i))" using pos(2) by (simp add: client_ok_def)
    have size: "queued_bytes (ch_queue ch) \<le> SESSION_OUTPUT_STREAM_SUBSCRIBER_MAX_BUFFERED_BYTES + SESSION_OUTPUT_STREAM_MAX_FRAME_BYTES"
      using q buf send by (simp add: sendable_def)
    have n: "n = ob_next_offset b" using pos(3,4) kept(1) by simp
    have "client_ok base (H @ x) pos (oc_next_offset c) cl ch"
      using client_ok_append [OF ext _ send q(1,2)] at n by simp
    then show ?thesis using pos kept b' i size en(2) by (auto simp: client_inv_def)
  qed
qed


text \<open>A broadcaster whose subscribers change while its numbers stay.\<close>

lemma stream_inv_retain:
  assumes inv: "stream_inv base H conns k ss" and b: "b = ss_broadcaster ss"
    and ret: "retain_enqueued c (ob_subscribers b) (ss_channels ss) = (kept, chs')"
    and at: "chunk_at base (H @ x) (ob_next_offset b) c" and send: "sendable c"
    and b': "ob_next_subscriber_id b' = ob_next_subscriber_id b" "ob_next_offset b' = oc_next_offset c" "ob_subscribers b' = kept"
    and recent: "recent_ok base (H @ x) b'"
  shows "stream_inv base (H @ x) conns k (ss\<lparr>ss_broadcaster := b', ss_channels := chs'\<rparr>)"
proof -
  have dis: "distinct (map sb_id (ob_subscribers b))" using inv b by (simp add: stream_inv_def)
  have kept: "kept = filter (\<lambda>s. fst (enqueue_output_chunk c (ss_channels ss (sb_id s)))) (ob_subscribers b)"
    using retain_enqueued_spec [OF dis ret] by simp
  have clients: "client_inv base (H @ x) conns b' t cl (chs' (cl_subscriber_id cl))" if "(t, cl) \<in> set (ss_clients ss)" for t cl
  proof -
    have "client_inv base H conns b t cl (ss_channels ss (cl_subscriber_id cl))" using inv that b by (auto simp: stream_inv_def)
    from client_inv_retain [OF ret dis this refl at send b'] show ?thesis .
  qed
  have closed: "wire_inv base (H @ x) conns t cl" if "(t, cl) \<in> set (ss_closed ss)" for t cl
    using inv that wire_inv_mono [of base H conns t cl conns x] by (auto simp: stream_inv_def)
  have "distinct (map sb_id kept)" using dis kept by (simp add: distinct_map_filter)
  then show ?thesis
    using inv recent clients closed kept b b' unfolding stream_inv_def by auto
qed

lemma publish_stream_inv:
  assumes inv: "stream_inv base H conns k ss" and frame: "length data \<le> SESSION_OUTPUT_STREAM_MAX_FRAME_BYTES"
    and max: "base + length (H @ data) \<le> u64_max"
  shows "stream_inv base (H @ data) conns k (publish_stream data ss)"
proof (cases "data = []")
  case True
  then show ?thesis using inv by (simp add: publish_stream_def broadcast_chunk_def)
next
  case False
  define b where "b = ss_broadcaster ss"
  define n where "n = ob_next_offset b + length data"
  define rs where "rs = ob_recent b @ [\<lparr>rc_start_offset = ob_next_offset b, rc_data = data\<rparr>]"
  obtain bytes recent where pop: "pop_recent (ob_recent_bytes b + length data) rs = (bytes, recent)" by (metis prod.exhaust)
  obtain kept chs' where ret: "retain_enqueued (live_chunk data n) (ob_subscribers b) (ss_channels ss) = (kept, chs')"
    by (metis prod.exhaust)
  define b' where "b' = b\<lparr>ob_next_offset := n, ob_recent_bytes := bytes, ob_recent := recent, ob_subscribers := kept\<rparr>"
  have eq: "publish_stream data ss = ss\<lparr>ss_broadcaster := b', ss_channels := chs'\<rparr>"
    using False pop ret
    by (simp add: publish_stream_def broadcast_chunk_def Let_def b_def [symmetric] n_def [symmetric] rs_def [symmetric] b'_def)
  have rec: "recent_ok base H b" using inv by (simp add: stream_inv_def b_def)
  have next_offset: "ob_next_offset b = base + length H" using rec by (simp add: recent_ok_def)
  have at: "chunk_at base (H @ data) (ob_next_offset b) (live_chunk data n)"
    unfolding n_def using next_offset by (intro chunk_at_live) simp_all
  have send: "sendable (live_chunk data n)"
    using frame max next_offset by (simp add: sendable_def live_chunk_def n_def)
  have bytes: "ob_recent_bytes b + length data = queued_bytes (map recent_chunk rs)"
    using rec by (simp add: recent_ok_def rs_def)
  note pops = pop_recent_spec [OF pop bytes]
  obtain pre where pre: "rs = pre @ recent" using pops by auto
  have "covers base (H @ data) (start_of (ob_recent b) (ob_next_offset b)) (map recent_chunk (ob_recent b)) (ob_next_offset b)"
    using rec unfolding recent_ok_def by (intro covers_extend) blast
  moreover have "covers base (H @ data) (ob_next_offset b) [recent_chunk \<lparr>rc_start_offset = ob_next_offset b, rc_data = data\<rparr>] n"
    using at unfolding covers_single recent_chunk_def n_def by (simp add: live_chunk_def)
  ultimately have "covers base (H @ data) (start_of (ob_recent b) (ob_next_offset b)) (map recent_chunk (pre @ recent)) n"
    unfolding pre [symmetric] rs_def by (auto simp: covers_append)
  from covers_suffix [OF this] have "recent_ok base (H @ data) b'"
    using pops next_offset by (simp add: recent_ok_def b'_def n_def)
  then show ?thesis
    unfolding eq using stream_inv_retain [OF inv b_def ret at send] by (simp add: b'_def live_chunk_def)
qed

lemma exit_stream_inv:
  assumes inv: "stream_inv base H conns k ss" and max: "base + length H \<le> u64_max"
  shows "stream_inv base H conns k (exit_stream ss)"
proof -
  define b where "b = ss_broadcaster ss"
  define n where "n = ob_next_offset b"
  obtain kept chs1 where ret: "retain_enqueued (exit_chunk n) (ob_subscribers b) (ss_channels ss) = (kept, chs1)"
    by (metis prod.exhaust)
  define b1 where "b1 = b\<lparr>ob_exited := True, ob_subscribers := kept\<rparr>"
  define b' where "b' = b\<lparr>ob_exited := True, ob_subscribers := []\<rparr>"
  define chs' where "chs' = (\<lambda>i. if i \<in> sb_id ` set kept then (chs1 i)\<lparr>ch_sender := False\<rparr> else chs1 i)"
  have eq: "exit_stream ss = ss\<lparr>ss_broadcaster := b', ss_channels := chs'\<rparr>"
    using ret by (simp add: exit_stream_def mark_exited_def b_def [symmetric] n_def [symmetric] b'_def chs'_def)
  have rec: "recent_ok base H b" using inv by (simp add: stream_inv_def b_def)
  have n: "n = base + length H" using rec by (simp add: recent_ok_def n_def)
  have at: "chunk_at base (H @ []) (ob_next_offset b) (exit_chunk n)" using n by (simp add: chunk_at_exit n_def)
  have send: "sendable (exit_chunk n)" using n max by (simp add: sendable_def exit_chunk_def)
  have inv1: "stream_inv base (H @ []) conns k (ss\<lparr>ss_broadcaster := b1, ss_channels := chs1\<rparr>)"
    using rec recent_ok_cong [of b1 b base H]
    by (intro stream_inv_retain [OF inv b_def ret at send]) (simp_all add: b1_def exit_chunk_def n_def)
  have clients: "client_inv base H conns b' t cl (chs' (cl_subscriber_id cl))" if "(t, cl) \<in> set (ss_clients ss)" for t cl
  proof -
    have "client_inv base H conns b1 t cl (chs1 (cl_subscriber_id cl))" using inv1 that by (auto simp: stream_inv_def)
    then show ?thesis unfolding client_inv_def client_ok_def by (auto simp: b1_def b'_def chs'_def)
  qed
  have "recent_ok base H b'" using rec recent_ok_cong [of b' b base H] by (simp add: b'_def)
  then show ?thesis
    unfolding eq using inv clients unfolding stream_inv_def by (auto simp: b'_def b_def)
qed

lemma subscribe_spec:
  assumes rec: "recent_ok base H b" and max: "base + length H \<le> u64_max" and room: "ob_next_subscriber_id b < u64_max"
    and sub: "subscribe offset answers b chs = Some (b', chs', sid)"
  shows "sid = Suc (ob_next_subscriber_id b)" and "recent_ok base H b'" and "ob_next_subscriber_id b' = sid"
    and "\<forall>i. i \<noteq> sid \<longrightarrow> chs' i = chs i"
    and "ob_subscribers b' = ob_subscribers b @ (if ob_exited b then [] else [\<lparr>sb_id = sid, sb_answers_queries = answers\<rparr>])"
    and "ob_next_offset b' = ob_next_offset b"
    and "ch_sender (chs' sid) = (\<not> ob_exited b)"
    and "ch_buffered (chs' sid) = queued_bytes (ch_queue (chs' sid))"
    and "covers base H offset (ch_queue (chs' sid)) (ob_next_offset b) \<and> list_all sendable (ch_queue (chs' sid))"
    and "queued_bytes (ch_queue (chs' sid)) \<le> SESSION_OUTPUT_STREAM_RECENT_BYTES"
proof -
  define tails where "tails = concat (map (recent_tail offset) (ob_recent b))"
  define ch where "ch = new_channel\<lparr>ch_queue := tails, ch_buffered := queued_bytes tails\<rparr>"
  define n where "n = ob_next_offset b"
  have n: "n = base + length H" using rec by (simp add: recent_ok_def n_def)
  have in_range: "start_of (ob_recent b) n \<le> offset" "offset \<le> n"
    using sub by (auto simp: subscribe_def start_of_def n_def Let_def split: if_splits list.splits)
  have "covers base H (start_of (ob_recent b) n) (map recent_chunk (ob_recent b)) n"
    using rec unfolding recent_ok_def n_def by blast
  note tails = recent_tails [OF this in_range, folded tails_def]
  have bytes: "queued_bytes tails \<le> SESSION_OUTPUT_STREAM_RECENT_BYTES" using tails rec by (simp add: recent_ok_def)
  have small: "queued_bytes tails \<le> SESSION_OUTPUT_STREAM_SUBSCRIBER_MAX_BUFFERED_BYTES"
    using bytes by (simp add: SESSION_OUTPUT_STREAM_RECENT_BYTES_def SESSION_OUTPUT_STREAM_SUBSCRIBER_MAX_BUFFERED_BYTES_def)
  have ch: "enqueue_all tails new_channel = ch"
    using enqueue_all_ok [of new_channel tails] small by (simp add: ch_def new_channel_def)
  have live: "list_all (\<lambda>c. \<not> oc_exited c) tails"
    by (auto simp: list_all_iff tails_def recent_tail_def live_chunk_def Let_def)
  have send: "list_all sendable tails"
    using covers_sendable [of base H offset tails n] tails bytes max n live
    by (simp add: SESSION_OUTPUT_STREAM_RECENT_BYTES_def SESSION_OUTPUT_STREAM_MAX_FRAME_BYTES_def)
  define che where "che = ch\<lparr>ch_queue := tails @ [exit_chunk n], ch_sender := False\<rparr>"
  have che: "(enqueue_all [exit_chunk n] ch)\<lparr>ch_sender := False\<rparr> = che"
    using enqueue_all_ok [of ch "[exit_chunk n]"] small by (simp add: ch_def new_channel_def exit_chunk_def che_def)
  have ex: "covers base H n [exit_chunk n] n" "sendable (exit_chunk n)"
    unfolding covers_single using n max chunk_at_exit [of base n H] by (simp_all add: sendable_def exit_chunk_def)
  have cove: "covers base H offset (tails @ [exit_chunk n]) n" using tails ex(1) unfolding covers_append by blast
  have sid: "saturating_add64 (ob_next_subscriber_id b) 1 = Suc (ob_next_subscriber_id b)" using room by (simp add: saturating_add64_def)
  note eq = sub [unfolded subscribe_def Let_def, folded n_def tails_def, unfolded ch che sid]
  have s: "sid = Suc (ob_next_subscriber_id b)" using eq by (auto split: if_splits)
  have b': "b' = b\<lparr>ob_next_subscriber_id := sid,
      ob_subscribers := ob_subscribers b @ (if ob_exited b then [] else [\<lparr>sb_id = sid, sb_answers_queries = answers\<rparr>])\<rparr>"
    using eq by (auto split: if_splits)
  have chs': "chs' = chs(sid := if ob_exited b then che else ch)" using eq by (auto split: if_splits)
  show "sid = Suc (ob_next_subscriber_id b)" by (rule s)
  show "recent_ok base H b'" using rec recent_ok_cong [of b' b base H] by (simp add: b')
  show "ob_next_subscriber_id b' = sid" "ob_next_offset b' = ob_next_offset b"
    "ob_subscribers b' = ob_subscribers b @ (if ob_exited b then [] else [\<lparr>sb_id = sid, sb_answers_queries = answers\<rparr>])"
    by (simp_all add: b')
  show "\<forall>i. i \<noteq> sid \<longrightarrow> chs' i = chs i" by (simp add: chs')
  show "ch_sender (chs' sid) = (\<not> ob_exited b)" by (simp add: chs' che_def ch_def new_channel_def)
  show "ch_buffered (chs' sid) = queued_bytes (ch_queue (chs' sid))" by (simp add: chs' che_def ch_def new_channel_def exit_chunk_def)
  show "covers base H offset (ch_queue (chs' sid)) (ob_next_offset b) \<and> list_all sendable (ch_queue (chs' sid))"
    using tails cove send ex(2) by (simp add: chs' che_def ch_def new_channel_def n_def)
  show "queued_bytes (ch_queue (chs' sid)) \<le> SESSION_OUTPUT_STREAM_RECENT_BYTES"
    using bytes by (simp add: chs' che_def ch_def new_channel_def exit_chunk_def)
qed

lemma attach_stream_inv:
  assumes inv: "stream_inv base H conns k ss" and max: "base + length H \<le> u64_max" and room: "k < u64_max"
    and new: "hm_get (ss_clients ss) t = None"
  shows "stream_inv base H (insert (t, offset) conns) (Suc k) (attach_stream now ws t offset answers ss)"
proof (cases "subscribe offset answers (ss_broadcaster ss) (ss_channels ss)")
  case None
  then show ?thesis using stream_inv_conns [OF inv, of "insert (t, offset) conns" "Suc k"] by (simp add: attach_stream_def subset_insertI)
next
  case (Some r)
  define b where "b = ss_broadcaster ss"
  obtain b' chs' sid where r: "r = (b', chs', sid)" by (cases r)
  have rec: "recent_ok base H b" and k: "ob_next_subscriber_id b \<le> k" using inv by (simp_all add: stream_inv_def b_def)
  have sub: "subscribe offset answers b (ss_channels ss) = Some (b', chs', sid)" using Some r by (simp add: b_def)
  have room': "ob_next_subscriber_id b < u64_max" using k room by simp
  note sp = subscribe_spec [OF rec max room' sub]
  define cl where "cl = \<lparr>cl_subscriber_id = sid, cl_pending = None, cl_closing = False, cl_outbuf = [], cl_out_pos = 0,
             cl_write_interest = False, cl_last_progress = now, cl_socket = []\<rparr>"
  define ss1 where "ss1 = ss\<lparr>ss_broadcaster := b', ss_channels := chs'\<rparr>"
  define conns' where "conns' = insert (t, offset) conns"
  have eq: "attach_stream now ws t offset answers ss = pump_client now ws t cl ss1"
    using Some by (simp add: attach_stream_def r cl_def ss1_def)
  have clients: "client_inv base H conns' b' t' c (chs' (cl_subscriber_id c)) \<and> cl_subscriber_id c \<noteq> sid"
    if "(t', c) \<in> set (ss_clients ss)" for t' c
  proof -
    have old: "client_inv base H conns b t' c (ss_channels ss (cl_subscriber_id c))" using inv that by (auto simp: stream_inv_def b_def)
    then have ne: "cl_subscriber_id c \<noteq> sid" using sp(1) by (auto simp: client_inv_def)
    then have "chs' (cl_subscriber_id c) = ss_channels ss (cl_subscriber_id c)" using sp(4) by simp
    then show ?thesis using old ne sp(1,3,5,6) unfolding client_inv_def conns'_def by auto
  qed
  have closed: "wire_inv base H conns' t' c" if "(t', c) \<in> set (ss_closed ss)" for t' c
  proof -
    have "wire_inv base H conns t' c" using inv that by (auto simp: stream_inv_def)
    from wire_inv_mono [OF this, of conns' "[]"] show ?thesis by (simp add: conns'_def subset_insertI)
  qed
  have subs: "\<forall>s \<in> set (ob_subscribers b). sb_id s \<le> ob_next_subscriber_id b" "distinct (map sb_id (ob_subscribers b))"
    using inv by (simp_all add: stream_inv_def b_def)
  have "sid \<notin> sb_id ` set (ob_subscribers b)" using subs(1) sp(1) by auto
  then have subs': "distinct (map sb_id (ob_subscribers b'))" "\<forall>s \<in> set (ob_subscribers b'). sb_id s \<le> ob_next_subscriber_id b'"
      "sid \<in> sb_id ` set (ob_subscribers b') \<longleftrightarrow> \<not> ob_exited b"
    using subs sp(1,3,5) by (auto intro: le_SucI)
  have inv1: "stream_inv base H conns' (Suc k) ss1"
    using inv clients closed sp(1,2,3) k subs' unfolding stream_inv_def ss1_def by auto
  have ok: "client_ok base H offset (ob_next_offset b) cl (chs' sid)"
    unfolding client_ok_def using sp(8,9) by (intro conjI exI [of _ "[]"]) (simp_all add: cl_def wire_def)
  have ours: "client_inv base H conns' b' t cl (chs' sid)"
    unfolding client_inv_def
    using ok sp(3,6,7,10) subs'(3)
    by (auto simp: cl_def conns'_def SESSION_OUTPUT_STREAM_RECENT_BYTES_def
        SESSION_OUTPUT_STREAM_SUBSCRIBER_MAX_BUFFERED_BYTES_def)
  have "t \<notin> fst ` set (ss_clients ss1)" using new by (simp add: ss1_def map_of_eq_None_iff)
  moreover have "cl_subscriber_id cl \<notin> cl_subscriber_id ` snd ` set (ss_clients ss1)"
    using clients by (fastforce simp: ss1_def cl_def)
  ultimately have "stream_inv base H conns' (Suc k) (pump_client now ws t cl ss1)"
    using pump_client_inv [OF inv1] ours by (simp add: ss1_def cl_def)
  then show ?thesis by (simp add: eq conns'_def)
qed

lemma stream_client_readable_inv:
  "stream_inv base H conns k ss \<Longrightarrow> stream_inv base H conns k (stream_client_readable r t ss)"
  by (auto simp: stream_client_readable_def intro: detach_client_inv split: sock_read.splits)

lemma release_idle_buffers_inv:
  assumes "stream_inv base H conns k ss" shows "stream_inv base H conns k (release_idle_buffers ended now last_output_at ss)"
  using assms recent_ok_release [of base H "ss_broadcaster ss"]
  by (auto simp: stream_inv_def release_idle_buffers_def client_inv_def release_recent_def)

section \<open>Any sequence of events\<close>

definition stream_run :: "client_event list \<Rightarrow> stream_session \<Rightarrow> stream_session" where
  "stream_run evs ss = fold stream_apply evs ss"

fun published :: "client_event \<Rightarrow> string" where
  "published (Publish data) = data"
| "published _ = []"

definition stream_printed :: "client_event list \<Rightarrow> string" where
  "stream_printed evs = concat (map published evs)"

fun attached_at :: "client_event \<Rightarrow> (u64 \<times> u64) set" where
  "attached_at (AttachClient now ws t offset answers) = {(t, offset)}"
| "attached_at _ = {}"

definition connections :: "client_event list \<Rightarrow> (u64 \<times> u64) set" where
  "connections evs = (\<Union>e \<in> set evs. attached_at e)"

lemma stream_step_inv:
  assumes inv: "stream_inv base H conns k ss" and frame: "length (published e) \<le> SESSION_OUTPUT_STREAM_MAX_FRAME_BYTES"
    and max: "base + length (H @ published e) \<le> u64_max" and room: "k < u64_max"
  shows "stream_inv base (H @ published e) (conns \<union> attached_at e) (Suc k) (stream_apply e ss)"
proof -
  have k: "stream_inv base H conns (Suc k) ss'" if "stream_inv base H conns k ss'" for ss'
    using stream_inv_conns [OF that, of conns "Suc k"] by simp
  show ?thesis
  proof (cases e)
    case (Publish data)
    then show ?thesis using stream_inv_conns [OF publish_stream_inv [OF inv], of data conns "Suc k"] frame max by simp
  next
    case (AttachClient now ws t offset answers)
    then show ?thesis
      using attach_stream_inv [OF inv _ room, of t offset now ws answers] max
        stream_inv_conns [OF inv, of "insert (t, offset) conns" "Suc k"] by (auto simp: subset_insertI)
  next
    case ProgramExited
    then show ?thesis using k [OF exit_stream_inv [OF inv]] max by simp
  qed (use k client_writable_inv [OF inv] flush_stream_clients_inv [OF inv] stream_client_readable_inv [OF inv]
      fold_detach_inv [OF inv] release_idle_buffers_inv [OF inv] in \<open>simp_all add: sweep_stalled_clients_def\<close>)
qed

lemma stream_run_inv:
  "(\<forall>e \<in> set evs. length (published e) \<le> SESSION_OUTPUT_STREAM_MAX_FRAME_BYTES) \<Longrightarrow>
     base + length (stream_printed evs) \<le> u64_max \<Longrightarrow> length evs \<le> u64_max \<Longrightarrow>
     stream_inv base (stream_printed evs) (connections evs) (length evs) (stream_run evs (session_at base))"
proof (induction evs rule: rev_induct)
  case Nil
  then show ?case
    by (simp add: stream_run_def stream_printed_def connections_def session_at_def stream_inv_def at_offset_def
        recent_ok_def start_of_def hm_wf_def)
next
  case (snoc e evs)
  have IH: "stream_inv base (stream_printed evs) (connections evs) (length evs) (stream_run evs (session_at base))"
    using snoc by (simp add: stream_printed_def)
  have eqs: "stream_printed (evs @ [e]) = stream_printed evs @ published e" "connections (evs @ [e]) = connections evs \<union> attached_at e"
      "stream_run (evs @ [e]) ss = stream_apply e (stream_run evs ss)" for ss
    by (auto simp: stream_printed_def connections_def stream_run_def)
  show ?case
    unfolding eqs using stream_step_inv [OF IH] snoc.prems by (simp add: eqs(1))
qed

end
