(* ===== verification/Output_Stream_Props.thy ===== *)
theory Output_Stream_Props
  imports Output_Stream_Facts
begin

text \<open>
  What a streaming client receives: the printed bytes from the offset it attached at, without a gap, whatever happens
  to the session, the other clients and the sockets; and the memory the streams take.
\<close>

section \<open>Reading a socket\<close>

lemma covers_take: "covers base H pos cs n \<Longrightarrow> \<exists>m. covers base H pos (take j cs) m"
  using covers_append [of base H pos "take j cs" "drop j cs" n] by auto

lemma wire_inv_read:
  assumes "wire_inv base H conns t cl"
  shows "\<exists>pos n. (t, pos) \<in> conns \<and> covers base H pos (read_frames (cl_socket cl)) n"
proof -
  obtain pos fs m k where fs: "(t, pos) \<in> conns" "cl_socket cl = take k (frames fs)" "covers base H pos fs m" "list_all sendable fs"
    using assms by (auto simp: wire_inv_def)
  obtain j where "read_frames (cl_socket cl) = take j fs" using read_frames_prefix [OF fs(4), of k] fs(2) by auto
  then show ?thesis using covers_take [OF fs(3), of j] fs(1) by auto
qed

lemma stream_inv_wire:
  assumes "stream_inv base H conns k ss" and "(t, cl) \<in> set (ss_clients ss) \<union> set (ss_closed ss)"
  shows "wire_inv base H conns t cl"
  using assms client_ok_wire by (fastforce simp: stream_inv_def client_inv_def)

text \<open>C20. A streaming client sees the printed bytes from the offset it attached at, in order, without a gap and without a byte
  twice, and every frame names the offset it ends at: whatever was published, attached, detached, swept and released in between,
  however its socket accepted the bytes, and also when it has been closed. A frame that is cut off by the end of the
  connection is not read.\<close>

theorem attached_client_sees_stream:
  assumes "\<forall>e \<in> set evs. length (published e) \<le> SESSION_OUTPUT_STREAM_MAX_FRAME_BYTES"
    and "base + length (stream_printed evs) \<le> u64_max" and "length evs \<le> u64_max"
    and "ss = stream_run evs (session_at base)" and "(t, cl) \<in> set (ss_clients ss) \<union> set (ss_closed ss)"
  shows "\<exists>pos n. (t, pos) \<in> connections evs \<and> covers base (stream_printed evs) pos (read_frames (cl_socket cl)) n
    \<and> concat (map oc_data (read_frames (cl_socket cl))) = take (n - pos) (drop (pos - base) (stream_printed evs))"
proof -
  have "wire_inv base (stream_printed evs) (connections evs) t cl"
    using stream_inv_wire [OF _ assms(5)] stream_run_inv [OF assms(1-3)] assms(4) by simp
  from wire_inv_read [OF this] show ?thesis using covers_data by blast
qed

lemmas stream_eval = stream_run_def publish_stream_def broadcast_chunk_def session_at_def at_offset_def new_channel_def
  attach_stream_def subscribe_def enqueue_all_def recent_tail_def enqueue_output_chunk_def live_chunk_def exit_chunk_def
  saturating_add64_def pump_client_def pump_stream_client.simps flush_client_outbuf_def compact_outbuf_def stalled_def
  pull_one_def pull_fresh_def pending_frame_def can_merge_output_stream_chunk_def session_output_frame_bytes_def frame_flags_def
  client_writable_def without_client_def hm_remove_def stream_client_readable_def detach_client_def close_client_def remove_subscriber_def
  SESSION_OUTPUT_STREAM_RECENT_BYTES_def SESSION_OUTPUT_STREAM_SUBSCRIBER_MAX_BUFFERED_BYTES_def
  SESSION_OUTPUT_STREAM_BATCH_MAX_BYTES_def SESSION_OUTPUT_STREAM_WRITE_TIMEOUT_MS_def Let_def
  be32_def be64_def

theorem attached_client_sees_stream_witness:
  "let evs = [Publish ''ab'', AttachClient 0 [SockWrote 100] 7 1 False, Publish ''c'', Writable 0 [SockWrote 5] 7, Readable ReadEof 7];
       ss = stream_run evs (session_at 0)
   in ss_closed ss \<noteq> [] \<and> (\<forall>(t, cl) \<in> set (ss_closed ss). \<exists>pos n. (t, pos) \<in> connections evs \<and>
        covers 0 (stream_printed evs) pos (read_frames (cl_socket cl)) n
        \<and> concat (map oc_data (read_frames (cl_socket cl))) = take (n - pos) (drop (pos - 0) (stream_printed evs)))"
proof -
  define evs where "evs = [Publish ''ab'', AttachClient 0 [SockWrote 100] 7 1 False, Publish ''c'', Writable 0 [SockWrote 5] 7, Readable ReadEof 7]"
  have "ss_closed (stream_run evs (session_at 0)) \<noteq> []" by (simp add: evs_def stream_eval)
  moreover have "\<forall>e \<in> set evs. length (published e) \<le> SESSION_OUTPUT_STREAM_MAX_FRAME_BYTES"
    by (simp add: evs_def SESSION_OUTPUT_STREAM_MAX_FRAME_BYTES_def)
  moreover have "0 + length (stream_printed evs) \<le> u64_max" "length evs \<le> u64_max"
    by (simp_all add: evs_def stream_printed_def u64_max_def)
  ultimately show ?thesis
    unfolding Let_def evs_def [symmetric] using attached_client_sees_stream [of evs 0] by auto
qed

section \<open>Nothing is left behind\<close>

lemma flush_interest:
  "flush_client_outbuf now ws cl = (True, ws', cl') \<Longrightarrow> cl_write_interest cl' = (cl_outbuf cl' \<noteq> [])"
  by (auto simp: flush_client_outbuf_def Let_def split: prod.splits if_splits)

text \<open>A client that is kept and does not wait for its socket has emptied its channel, and is still subscribed.\<close>

lemma pump_idle:
  "pump_stream_client now ws cl ch = (True, ws', cl', ch') \<Longrightarrow> \<not> cl_write_interest cl' \<Longrightarrow>
     cl_outbuf cl' = [] \<and> cl_pending cl' = None \<and> ch_queue ch' = [] \<and> ch_sender ch'"
proof (induction now ws cl ch arbitrary: ws' cl' ch' rule: pump_stream_client.induct)
  case (1 now ws cl ch)
  obtain ok ws1 cl1 where fl: "flush_client_outbuf now ws cl = (ok, ws1, cl1)" by (metis prod_cases3)
  define pl where "pl = pull_chunks (cl_outbuf cl1) (cl_pending cl1) (ch_buffered ch) (ch_queue ch)"
  define cl2 where "cl2 = cl1\<lparr>cl_outbuf := pl_outbuf pl @ pending_frame (pl_pending pl), cl_pending := None, cl_closing := pl_closing pl\<rparr>"
  define ch2 where "ch2 = ch\<lparr>ch_queue := pl_queue pl, ch_buffered := pl_buffered pl\<rparr>"
  define disc where "disc = (pl_drained pl \<and> \<not> ch_sender ch)"
  have eq: "(if \<not> ok then (False, ws1, cl1, ch)
        else if cl_out_pos cl1 < length (cl_outbuf cl1) then (True, ws1, cl1, ch)
        else if cl_closing cl1 then (False, ws1, cl1, ch)
        else if cl_out_pos cl2 = length (cl_outbuf cl2) then (\<not> (disc \<or> pl_closing pl), ws1, cl2, ch2)
        else if disc then (case flush_client_outbuf now ws1 cl2 of (_, ws2, cl3) \<Rightarrow> (False, ws2, cl3, ch2))
        else pump_stream_client now ws1 cl2 ch2) = (True, ws', cl', ch')"
    using "1.prems"(1)
    by (simp only: pump_stream_client.simps [of now ws cl ch] fl prod.case Let_def pl_def cl2_def ch2_def disc_def)
  have ok: "ok" using eq by (auto split: if_splits)
  have wi: "cl_write_interest cl1 = (cl_outbuf cl1 \<noteq> [])" using flush_interest [of now ws cl ws1 cl1] fl ok by simp
  have full: "\<not> cl_out_pos cl1 < length (cl_outbuf cl1)"
  proof
    assume "cl_out_pos cl1 < length (cl_outbuf cl1)"
    then have "cl' = cl1" "cl_outbuf cl1 \<noteq> []" using eq ok by auto
    then show False using wi "1.prems"(2) by simp
  qed
  have nc: "\<not> cl_closing cl1" using eq ok full by (auto split: if_splits)
  have empty: "cl_outbuf cl1 = []" "cl_out_pos cl1 = 0" using flush_empty [of now ws cl ws1 cl1] fl ok full by auto
  show ?case
  proof (cases "cl_out_pos cl2 = length (cl_outbuf cl2)")
    case True
    then have r: "\<not> disc" "\<not> pl_closing pl" "cl' = cl2" "ch' = ch2" using eq ok full nc by auto
    have nil: "pl_outbuf pl @ pending_frame (pl_pending pl) = []" using True empty by (simp add: cl2_def)
    from pull_chunks_idle [OF pl_def this] have "pl_queue pl = []" "pl_drained pl" by simp_all
    then show ?thesis using r nil by (simp add: cl2_def ch2_def disc_def)
  next
    case False
    have r: "\<not> disc" "pump_stream_client now ws1 cl2 ch2 = (True, ws', cl', ch')"
      using eq ok full nc False by (auto split: if_splits prod.splits)
    then show ?thesis
      using "1.IH" [OF fl [symmetric] refl _ full nc pl_def cl2_def ch2_def disc_def False r(1,2) "1.prems"(2)] ok by simp
  qed
qed

lemma client_ok_drained:
  assumes "client_ok base H pos n cl ch" and "cl_outbuf cl = []" and "cl_pending cl = None" and "ch_queue ch = []"
  shows "covers base H pos (read_frames (cl_socket cl)) n"
proof -
  obtain fs where fs: "wire cl = frames fs" "covers base H pos fs n" "list_all sendable fs"
    using assms by (auto simp: client_ok_def)
  have "cl_socket cl = take (length (frames fs)) (frames fs)" using fs(1) assms(2) by (simp add: wire_def)
  then have "read_frames (cl_socket cl) = fs" using read_frames_prefix [OF fs(3), of "length (frames fs)"] by auto
  then show ?thesis using fs(2) by simp
qed

lemma writable_client:
  assumes get: "hm_get (ss_clients (client_writable now ws t ss)) t = Some cl"
  shows "\<exists>cl0 ws' ch. hm_get (ss_clients ss) t = Some cl0 \<and>
    pump_stream_client now ws cl0 (ss_channels ss (cl_subscriber_id cl0)) = (True, ws', cl, ch)"
proof -
  obtain cl0 where cl0: "hm_get (ss_clients ss) t = Some cl0" using get by (cases "hm_get (ss_clients ss) t") (auto simp: client_writable_def)
  obtain keep ws' cl' ch where p: "pump_stream_client now ws cl0 (ss_channels ss (cl_subscriber_id cl0)) = (keep, ws', cl', ch)"
    by (metis prod_cases4)
  have none: "hm_get (hm_remove t m) t = None" for m :: "(u64, stream_client) hmap"
    by (auto simp: hm_remove_def map_of_eq_None_iff)
  have "keep \<and> cl' = cl"
    using get none by (auto simp: client_writable_def cl0 pump_client_def without_client_def p close_client_def
        Let_def split: if_splits prod.splits)
  then show ?thesis using cl0 p by auto
qed

lemma served_client_inv:
  assumes inv: "stream_inv base H conns k ss" and get: "hm_get (ss_clients (client_writable now ws t ss)) t = Some cl"
    and idle: "\<not> cl_write_interest cl"
  shows "\<exists>pos. (t, pos) \<in> conns \<and> base \<le> pos \<and> concat (map oc_data (read_frames (cl_socket cl))) = drop (pos - base) H"
proof -
  obtain cl0 ws' ch where p: "hm_get (ss_clients ss) t = Some cl0"
      "pump_stream_client now ws cl0 (ss_channels ss (cl_subscriber_id cl0)) = (True, ws', cl, ch)"
    using writable_client [OF get] by blast
  have "client_inv base H conns (ss_broadcaster ss) t cl0 (ss_channels ss (cl_subscriber_id cl0))"
    using take_client_inv(2) [OF inv p(1)] .
  then obtain pos n where pos: "(t, pos) \<in> conns" "client_ok base H pos n cl0 (ss_channels ss (cl_subscriber_id cl0))"
      "ch_sender (ss_channels ss (cl_subscriber_id cl0)) \<longrightarrow> n = ob_next_offset (ss_broadcaster ss)"
    by (auto simp: client_inv_def)
  note ok = pump_client_ok [OF pos(2) p(2)]
  from pump_idle [OF p(2) idle] have e: "cl_outbuf cl = []" "cl_pending cl = None" "ch_queue ch = []" "ch_sender ch" by simp_all
  have n: "n = base + length H" using pos(3) ok e(4) inv by (simp add: stream_inv_def recent_ok_def)
  have cov: "covers base H pos (read_frames (cl_socket cl)) n" using client_ok_drained [OF _ e(1-3)] ok by blast
  have "base \<le> pos" using covers_bounds [OF cov] by simp
  moreover have "concat (map oc_data (read_frames (cl_socket cl))) = drop (pos - base) H"
    using covers_data [OF cov] n \<open>base \<le> pos\<close> by simp
  ultimately show ?thesis using pos(1) by blast
qed

text \<open>No output is left behind in the Host: when a client has had its turn and is still connected, either it waits for its
  socket to become writable, or it has received every byte that has been printed since the offset it attached at. A client that
  the broadcaster dropped is not kept waiting: it is closed.\<close>

lemma served_client_up_to_date:
  assumes "\<forall>e \<in> set evs. length (published e) \<le> SESSION_OUTPUT_STREAM_MAX_FRAME_BYTES"
    and "base + length (stream_printed evs) \<le> u64_max" and "length evs \<le> u64_max"
    and "ss = stream_run evs (session_at base)" and "hm_get (ss_clients (client_writable now ws t ss)) t = Some cl"
  shows "cl_write_interest cl \<or> (\<exists>pos. (t, pos) \<in> connections evs \<and>
    concat (map oc_data (read_frames (cl_socket cl))) = drop (pos - base) (stream_printed evs))"
  using served_client_inv [OF stream_run_inv [OF assms(1-3), folded assms(4)] assms(5)] by blast

section \<open>Memory\<close>

lemma queued_bytes_concat: "length (concat (map oc_data cs)) = queued_bytes cs"
  by (induction cs) auto

text \<open>C22. The memory of the streams is bounded, however slowly the clients read and however much is printed: the recent chunks
  kept for late subscribers hold at most 128 KiB, the channel of every client at most 16 MiB, and its write buffer at
  most 8 MiB and six batches.\<close>

theorem stream_memory_bounded:
  assumes "\<forall>e \<in> set evs. length (published e) \<le> SESSION_OUTPUT_STREAM_MAX_FRAME_BYTES"
    and "base + length (stream_printed evs) \<le> u64_max" and "length evs \<le> u64_max"
    and "ss = stream_run evs (session_at base)"
  shows "length (concat (map rc_data (ob_recent (ss_broadcaster ss)))) \<le> 128 * 1024 \<and>
    (\<forall>(t, cl) \<in> set (ss_clients ss). length (cl_outbuf cl) \<le> 8 * 1024 * 1024 + 6 * (64 * 1024) + 26 \<and>
      length (concat (map oc_data (ch_queue (ss_channels ss (cl_subscriber_id cl))))) \<le> 16 * 1024 * 1024)"
proof
  note inv = stream_run_inv [OF assms(1-3), folded assms(4)]
  note q = queued_bytes_concat
  have "map oc_data (map recent_chunk rs) = map rc_data rs" for rs by simp
  then show "length (concat (map rc_data (ob_recent (ss_broadcaster ss)))) \<le> 128 * 1024"
    using inv q [of "map recent_chunk (ob_recent (ss_broadcaster ss))"]
    by (simp add: stream_inv_def recent_ok_def SESSION_OUTPUT_STREAM_RECENT_BYTES_def del: map_map)
  show "\<forall>(t, cl) \<in> set (ss_clients ss). length (cl_outbuf cl) \<le> 8 * 1024 * 1024 + 6 * (64 * 1024) + 26 \<and>
      length (concat (map oc_data (ch_queue (ss_channels ss (cl_subscriber_id cl))))) \<le> 16 * 1024 * 1024"
    using inv unfolding stream_inv_def client_inv_def client_ok_def q
    by (fastforce simp: OUTBUF_BOUND_def SESSION_OUTPUT_STREAM_BATCH_MAX_BYTES_def
        SESSION_OUTPUT_STREAM_MAX_FRAME_BYTES_def SESSION_OUTPUT_STREAM_SUBSCRIBER_MAX_BUFFERED_BYTES_def)
qed

theorem stream_memory_bounded_witness:
  "let evs = [AttachClient 0 [] 7 0 False, Publish ''ab'', Writable 0 [] 7, Publish ''c'']; ss = stream_run evs (session_at 0)
   in ss_clients ss \<noteq> [] \<and> length (concat (map rc_data (ob_recent (ss_broadcaster ss)))) \<le> 128 * 1024 \<and>
      (\<forall>(t, cl) \<in> set (ss_clients ss). length (cl_outbuf cl) \<le> 8 * 1024 * 1024 + 6 * (64 * 1024) + 26 \<and>
      length (concat (map oc_data (ch_queue (ss_channels ss (cl_subscriber_id cl))))) \<le> 16 * 1024 * 1024)"
proof -
  define evs where "evs = [AttachClient 0 [] 7 0 False, Publish ''ab'', Writable 0 [] 7, Publish ''c'']"
  have evs: "\<forall>e \<in> set evs. length (published e) \<le> SESSION_OUTPUT_STREAM_MAX_FRAME_BYTES"
      "0 + length (stream_printed evs) \<le> u64_max" "length evs \<le> u64_max"
    by (auto simp: evs_def stream_printed_def u64_max_def SESSION_OUTPUT_STREAM_MAX_FRAME_BYTES_def)
  have "ss_clients (stream_run evs (session_at 0)) \<noteq> []" by (simp add: evs_def stream_eval)
  then show ?thesis unfolding Let_def evs_def [symmetric]
    using stream_memory_bounded [OF evs refl] by simp
qed

end
