(* ===== verification/Session_Io_Props.thy ===== *)
theory Session_Io_Props
  imports Session_Io Output_Stream_Props Query_Scanner_Props
begin

text \<open>
  What the session guarantees end to end: what the program writes reaches the streaming clients, what the input clients type
  reaches the program in order, and what a hand-over to a new core loses.
\<close>

section \<open>From the program to the clients\<close>

text \<open>Reads of the PTY and events of the clients, in any order.\<close>

datatype io_event = PtyOutput "nat \<times> nat" string | ClientEvent client_event

fun io_apply :: "string \<Rightarrow> io_event \<Rightarrow> session_io \<Rightarrow> session_io" where
  "io_apply reply (PtyOutput cursor bytes) io = process_pty_bytes reply cursor bytes io"
| "io_apply reply (ClientEvent e) io = io\<lparr>io_streams := stream_apply e (io_streams io)\<rparr>"

definition io_run :: "string \<Rightarrow> io_event list \<Rightarrow> session_io \<Rightarrow> session_io" where
  "io_run reply evs io = fold (io_apply reply) evs io"

fun io_bytes :: "io_event \<Rightarrow> string" where
  "io_bytes (PtyOutput cursor bytes) = bytes"
| "io_bytes (ClientEvent e) = []"

fun io_connections :: "io_event list \<Rightarrow> (u64 \<times> u64) set" where
  "io_connections [] = {}"
| "io_connections (PtyOutput cursor bytes # evs) = io_connections evs"
| "io_connections (ClientEvent e # evs) = attached_at e \<union> io_connections evs"

text \<open>Only the program prints.\<close>

fun client_only :: "io_event \<Rightarrow> bool" where
  "client_only (ClientEvent e) \<longleftrightarrow> published e = []"
| "client_only _ \<longleftrightarrow> True"

lemma explains_length: "explains p given (s, out, qs) \<Longrightarrow> length out \<le> length given"
proof -
  assume "explains p given (s, out, qs)"
  then obtain ps where ps: "given = concat (map piece_text ps) @ qs_seq s" "out = concat (map piece_out ps)"
    by (auto simp: explains_def)
  have "length (concat (map piece_out ps)) \<le> length (concat (map piece_text ps))" for ps
  proof (induction ps)
    case (Cons a ps)
    then show ?case by (cases a) auto
  qed simp
  then show ?thesis using ps by (simp add: trans_le_add1)
qed

lemma stream_printed_Cons: "stream_printed (e # evs) = published e @ stream_printed evs"
  by (simp add: stream_printed_def)

text \<open>A run of the session is a run of its streams, in which the scanner publishes.\<close>

lemma io_run_streams:
  assumes "scanner_ok (io_query_scanner io)" and "\<forall>e \<in> set evs. client_only e"
    and "\<forall>e \<in> set evs. length (io_bytes e) \<le> SESSION_OUTPUT_READ_BUFFER_BYTES"
  shows "\<exists>sevs. io_streams (io_run reply evs io) = stream_run sevs (io_streams io) \<and> length sevs = length evs \<and>
    connections sevs = io_connections evs \<and>
    (\<forall>e \<in> set sevs. length (published e) \<le> SESSION_OUTPUT_STREAM_MAX_FRAME_BYTES) \<and>
    (\<exists>qs. explains True (qs_seq (io_query_scanner io) @ concat (map io_bytes evs))
       (io_query_scanner (io_run reply evs io), stream_printed sevs, qs))"
  using assms
proof (induction evs arbitrary: io)
  case Nil
  then show ?case
    by (intro exI [of _ "[]"])
      (auto simp: io_run_def stream_run_def connections_def stream_printed_def intro: explains_start)
next
  case (Cons e evs)
  define io1 where "io1 = io_apply reply e io"
  have run: "io_run reply (e # evs) io = io_run reply evs io1" by (simp add: io_run_def io1_def)
  obtain ev qs1 where ev: "io_streams io1 = stream_apply ev (io_streams io)" "connections [ev] = io_connections [e]"
      "length (published ev) \<le> SESSION_OUTPUT_STREAM_MAX_FRAME_BYTES"
      "explains True (qs_seq (io_query_scanner io) @ io_bytes e) (io_query_scanner io1, published ev, qs1)"
  proof (cases e)
    case (PtyOutput cursor bytes)
    define p where "p = (\<not> has_answering_subscriber (ss_broadcaster (io_streams io)))"
    obtain s chunk qs where s: "query_scan p (io_query_scanner io) bytes = (s, chunk, qs)" by (metis prod_cases3)
    have ex: "explains p (qs_seq (io_query_scanner io) @ bytes) (s, chunk, qs)"
      using query_scan_explains [OF Cons.prems(1), of p bytes] s by simp
    have "length (qs_seq (io_query_scanner io)) \<le> 33" "length bytes \<le> 64 * 1024"
      using Cons.prems(1,3) PtyOutput
      by (simp_all add: scanner_ok_def QUERY_SCAN_MAX_SEQUENCE_BYTES_def SESSION_OUTPUT_READ_BUFFER_BYTES_def)
    then have small: "length chunk \<le> SESSION_OUTPUT_STREAM_MAX_FRAME_BYTES"
      using explains_length [OF ex] by (simp add: SESSION_OUTPUT_STREAM_MAX_FRAME_BYTES_def)
    have "explains True (qs_seq (io_query_scanner io) @ bytes) (s, chunk, qs)" using explains_mono [OF ex] by simp
    then show ?thesis
      using that [of "Publish chunk" qs] small
      by (simp add: io1_def PtyOutput process_pty_bytes_def p_def [symmetric] s connections_def)
  next
    case (ClientEvent ev)
    then show ?thesis
      using that [of ev "[]"] Cons.prems explains_start [of "io_query_scanner io" True]
      by (simp add: io1_def connections_def)
  qed
  have ok1: "scanner_ok (io_query_scanner io1)" using explains_ok [OF ev(4)] .
  obtain sevs qs2 where IH: "io_streams (io_run reply evs io1) = stream_run sevs (io_streams io1)" "length sevs = length evs"
      "connections sevs = io_connections evs" "\<forall>e \<in> set sevs. length (published e) \<le> SESSION_OUTPUT_STREAM_MAX_FRAME_BYTES"
      "explains True (qs_seq (io_query_scanner io1) @ concat (map io_bytes evs)) (io_query_scanner (io_run reply evs io1), stream_printed sevs, qs2)"
    using Cons.IH [OF ok1] Cons.prems(2,3) by auto
  have "explains True ((qs_seq (io_query_scanner io) @ io_bytes e) @ concat (map io_bytes evs))
      (io_query_scanner (io_run reply evs io1), published ev @ stream_printed sevs, qs1 @ qs2)"
    using explains_append [OF ev(4) IH(5)] .
  moreover have "connections (ev # sevs) = io_connections (e # evs)"
    using ev(2) IH(3) by (cases e) (auto simp: connections_def)
  ultimately show ?case
    using ev(1,3) IH(1,2,4) unfolding run
    by (intro exI [of _ "ev # sevs"]) (auto simp: stream_run_def stream_printed_Cons)
qed

text \<open>C19. What the program writes reaches the clients: whatever chunks the PTY is read in and whatever the clients do in between,
  a client that has had its turn and does not wait for its socket has received, from the offset it attached at,
  exactly the output of the program less the queries the Host answers itself. Only a sequence that is still
  incomplete is held back.\<close>

theorem program_output_reaches_clients:
  assumes "\<forall>e \<in> set evs. client_only e" and "\<forall>e \<in> set evs. length (io_bytes e) \<le> SESSION_OUTPUT_READ_BUFFER_BYTES"
    and "base + length (concat (map io_bytes evs)) \<le> u64_max" and "length evs \<le> u64_max"
    and "io = io_run reply evs (session_io_new dark base tracker)"
    and "hm_get (ss_clients (client_writable now ws t (io_streams io))) t = Some cl" and "\<not> cl_write_interest cl"
  shows "\<exists>ps pos. concat (map io_bytes evs) = concat (map piece_text ps) @ qs_seq (io_query_scanner io) \<and>
    list_all (piece_ok True) ps \<and> length (qs_seq (io_query_scanner io)) \<le> 33 \<and> (t, pos) \<in> io_connections evs \<and>
    concat (map oc_data (read_frames (cl_socket cl))) = drop (pos - base) (concat (map piece_out ps))"
proof -
  define io0 where "io0 = session_io_new dark base tracker"
  have io0: "scanner_ok (io_query_scanner io0)" "io_streams io0 = session_at base" "qs_seq (io_query_scanner io0) = []"
    by (simp_all add: io0_def session_io_new_def scanner_ok_def query_scanner_new_def)
  obtain sevs qs where s: "io_streams io = stream_run sevs (session_at base)" "length sevs = length evs"
      "connections sevs = io_connections evs" "\<forall>e \<in> set sevs. length (published e) \<le> SESSION_OUTPUT_STREAM_MAX_FRAME_BYTES"
      "explains True (concat (map io_bytes evs)) (io_query_scanner io, stream_printed sevs, qs)"
    using io_run_streams [OF io0(1) assms(1,2), of reply] io0(2,3) assms(5) by (auto simp: io0_def)
  have "base + length (stream_printed sevs) \<le> u64_max" using explains_length [OF s(5)] assms(3) by simp
  then have inv: "stream_inv base (stream_printed sevs) (connections sevs) (length sevs) (io_streams io)"
    using stream_run_inv [OF s(4)] s(1,2) assms(4) by simp
  obtain pos where pos: "(t, pos) \<in> io_connections evs"
      "concat (map oc_data (read_frames (cl_socket cl))) = drop (pos - base) (stream_printed sevs)"
    using served_client_inv [OF inv assms(6,7)] s(3) by auto
  obtain ps where ps: "concat (map io_bytes evs) = concat (map piece_text ps) @ qs_seq (io_query_scanner io)"
      "stream_printed sevs = concat (map piece_out ps)" "list_all (piece_ok True) ps" "scanner_ok (io_query_scanner io)"
    using s(5) by (auto simp: explains_def)
  show ?thesis
    using ps pos by (intro exI [of _ ps] exI [of _ pos]) (simp add: scanner_ok_def QUERY_SCAN_MAX_SEQUENCE_BYTES_def)
qed

lemmas io_eval = io_run_def process_pty_bytes_def session_io_new_def query_step_def query_scanner_new_def hold_def flush_into_def
  scan_escape_def finish_query_def bounded_hold_def has_answering_subscriber_def stream_eval

theorem program_output_reaches_clients_witness:
  "let evs = [ClientEvent (AttachClient 0 [] 7 0 True), PtyOutput (0, 0) (''a'' @ [CHR 0x1B]), PtyOutput (0, 0) ''Zb''];
       io = io_run [] evs (session_io_new False 0 tracker_default)
   in \<exists>cl ps pos. hm_get (ss_clients (client_writable 0 [SockWrote 100] 7 (io_streams io))) 7 = Some cl \<and>
     concat (map io_bytes evs) = concat (map piece_text ps) @ qs_seq (io_query_scanner io) \<and>
     concat (map oc_data (read_frames (cl_socket cl))) = drop pos (concat (map piece_out ps))"
proof -
  define evs where "evs = [ClientEvent (AttachClient 0 [] 7 0 True), PtyOutput (0, 0) (''a'' @ [CHR 0x1B]), PtyOutput (0, 0) ''Zb'']"
  define io where "io = io_run [] evs (session_io_new False 0 tracker_default)"
  obtain cl where cl: "hm_get (ss_clients (client_writable 0 [SockWrote 100] 7 (io_streams io))) 7 = Some cl" "\<not> cl_write_interest cl"
    by (simp add: io_def evs_def io_eval answer_query_def)
  have evs: "\<forall>e \<in> set evs. client_only e" "\<forall>e \<in> set evs. length (io_bytes e) \<le> SESSION_OUTPUT_READ_BUFFER_BYTES"
      "0 + length (concat (map io_bytes evs)) \<le> u64_max" "length evs \<le> u64_max"
    by (simp_all add: evs_def SESSION_OUTPUT_READ_BUFFER_BYTES_def u64_max_def)
  from program_output_reaches_clients [OF evs io_def cl] cl(1)
  show ?thesis unfolding Let_def evs_def [symmetric] io_def [symmetric] by auto
qed

section \<open>From the input clients to the program\<close>

definition input_frame :: "string \<Rightarrow> string" where
  "input_frame data = be32 (length data) @ data"

lemma drain_loop_conserves:
  "drain_loop generation menu script wrote io = (r, wrote', io') \<Longrightarrow> r \<noteq> None \<Longrightarrow>
     io_pty io' @ io_pending_input io' = io_pty io @ io_pending_input io"
proof (induction generation menu script wrote io rule: drain_loop.induct)
  case (2 generation menu h res script wrote io)
  show ?case
  proof (cases "io_pending_input io = []")
    case True
    then show ?thesis using "2.prems" by auto
  next
    case False
    show ?thesis
    proof (cases res)
      case (TryWrote n now)
      define k where "k = drained_bytes (io_pending_input io) h n"
      have "io_pty io @ take k (io_pending_input io) @ drop k (io_pending_input io) = io_pty io @ io_pending_input io" by simp
      then show ?thesis
        using "2.prems" "2.IH"(1) [OF False refl refl TryWrote k_def] False TryWrote
        by (auto simp: Let_def k_def [symmetric] split: if_splits option.splits)
    qed (use "2.prems" "2.IH"(2) False in \<open>auto simp: Let_def\<close>)
  qed
qed auto

lemma drain_loop_blocked:
  "drain_loop generation menu script wrote io = (Some (Inr blocked), wrote', io') \<Longrightarrow> blocked = (io_pending_input io' \<noteq> [])"
  by (induction generation menu script wrote io rule: drain_loop.induct)
    (auto simp: Let_def split: if_splits option.splits pty_try.splits)

text \<open>Accepted input is queued or written, in order; what stays queued waits for the PTY.\<close>

lemma drain_conserves:
  assumes "drain_pending_input generation menu script io = (Some (Inr u), io')"
  shows "io_pty io' @ io_pending_input io' = io_pty io @ io_pending_input io"
    and "io_pending_input io \<noteq> [] \<Longrightarrow> io_pty_write_interest io' = (io_pending_input io' \<noteq> [])"
  using assms drain_loop_conserves [of generation menu script False io] drain_loop_blocked [of generation menu script False io]
  by (auto simp: drain_pending_input_def Let_def split: if_splits option.splits sum.splits prod.splits)

lemma write_frames_conserves:
  "write_frames generation menu fs io = (True, io') \<Longrightarrow>
     io_pty io' @ io_pending_input io' = io_pty io @ io_pending_input io @ concat (map fst fs)"
proof (induction generation menu fs io rule: write_frames.induct)
  case (2 generation menu data script rest io)
  obtain u io1 where w: "write_pty_input generation menu script data io = (Some (Inr u), io1)"
    using "2.prems" by (auto split: prod.splits option.splits sum.splits)
  have "io_pty io1 @ io_pending_input io1 = io_pty io @ io_pending_input io @ data"
    using drain_conserves(1) [OF w [unfolded write_pty_input_def]] by simp
  moreover have "write_frames generation menu rest io1 = (True, io')" using "2.prems" w by simp
  ultimately show ?case using "2.IH" w by auto
qed simp

subsection \<open>Frames in any pieces\<close>

lemma input_frames_append:
  "input_frames a = Some (fs, r) \<Longrightarrow>
     input_frames (a @ b) = (case input_frames (r @ b) of None \<Rightarrow> None | Some (gs, r') \<Rightarrow> Some (fs @ gs, r'))"
proof (induction a arbitrary: fs r rule: input_frames.induct)
  case (1 a)
  define n where "n = be_val (take 4 a)"
  show ?case
  proof (cases "length a < 4 \<or> length a < 4 + n")
    case True
    have "fs = []" "r = a"
      using "1.prems" True
      by (simp_all add: input_frames.simps [of a] SESSION_INPUT_STREAM_FRAME_HEADER_BYTES_def n_def Let_def split: if_splits)
    then show ?thesis by (simp split: option.splits)
  next
    case False
    have small: "\<not> n > SESSION_INPUT_STREAM_MAX_FRAME_BYTES"
      using "1.prems" False
      by (auto simp: input_frames.simps [of a] SESSION_INPUT_STREAM_FRAME_HEADER_BYTES_def n_def Let_def split: if_splits)
    have unf: "input_frames x = (case input_frames (drop (4 + n) x) of None \<Rightarrow> None
        | Some (gs, rest) \<Rightarrow> Some (if n = 0 then gs else take n (drop 4 x) # gs, rest))"
      if "be_val (take 4 x) = n" "4 + n \<le> length x" for x
      using that small by (subst input_frames.simps) (simp add: SESSION_INPUT_STREAM_FRAME_HEADER_BYTES_def Let_def)
    obtain gs where gs: "input_frames (drop (4 + n) a) = Some (gs, r)" "fs = (if n = 0 then gs else take n (drop 4 a) # gs)"
      using "1.prems" unf [of a] False by (auto simp: n_def split: option.splits prod.splits)
    have IH: "input_frames (drop (4 + n) a @ b) = (case input_frames (r @ b) of None \<Rightarrow> None | Some (hs, r') \<Rightarrow> Some (gs @ hs, r'))"
      using "1.IH" [of n] gs(1) False small by (simp add: SESSION_INPUT_STREAM_FRAME_HEADER_BYTES_def n_def)
    have same: "take n (drop 4 (a @ b)) = take n (drop 4 a)" "take 4 (a @ b) = take 4 a" "drop (4 + n) (a @ b) = drop (4 + n) a @ b"
      using False by simp_all
    have "input_frames (a @ b) = (case input_frames (drop (4 + n) a @ b) of None \<Rightarrow> None
        | Some (gs, rest) \<Rightarrow> Some (if n = 0 then gs else take n (drop 4 a) # gs, rest))"
      using unf [of "a @ b", unfolded same] False by (simp add: n_def)
    then show ?thesis using IH gs(2) by (auto split: option.splits)
  qed
qed

lemma input_frames_encoded:
  "list_all (\<lambda>d. length d \<le> SESSION_INPUT_STREAM_MAX_FRAME_BYTES) ds \<Longrightarrow>
     input_frames (concat (map input_frame ds)) = Some (filter (\<lambda>d. d \<noteq> []) ds, [])"
proof (induction ds)
  case Nil
  show ?case by (subst input_frames.simps) (simp add: SESSION_INPUT_STREAM_FRAME_HEADER_BYTES_def)
next
  case (Cons d ds)
  define x where "x = input_frame d @ concat (map input_frame ds)"
  have d: "length d \<le> SESSION_INPUT_STREAM_MAX_FRAME_BYTES" using Cons.prems by simp
  have fields: "be_val (take 4 x) = length d" "take (length d) (drop 4 x) = d" "drop (4 + length d) x = concat (map input_frame ds)"
      "4 + length d \<le> length x"
    using d by (simp_all add: x_def input_frame_def SESSION_INPUT_STREAM_MAX_FRAME_BYTES_def)
  have "input_frames x = Some (if length d = 0 then filter (\<lambda>d. d \<noteq> []) ds else d # filter (\<lambda>d. d \<noteq> []) ds, [])"
    using d fields Cons by (subst input_frames.simps) (simp add: SESSION_INPUT_STREAM_FRAME_HEADER_BYTES_def Let_def)
  then show ?case by (simp add: x_def)
qed

subsection \<open>Turns of a client\<close>

text \<open>Turns of an input client, and the PTY that becomes writable, in any order, as long as the client is kept and the PTY does
  not fail.\<close>

datatype input_event = InputTurn "sock_read list" "(nat \<times> pty_try) list list" | PtyWritable "(nat \<times> pty_try) list"

fun input_run :: "u64 \<Rightarrow> bool \<Rightarrow> input_event list \<Rightarrow> string \<Rightarrow> session_io \<Rightarrow> (string \<times> session_io) option" where
  "input_run generation menu [] buf io = Some (buf, io)"
| "input_run generation menu (InputTurn reads scripts # evs) buf io =
     (case client_input generation menu reads scripts buf io of
        (keep, buf', io') \<Rightarrow> if keep then input_run generation menu evs buf' io' else None)"
| "input_run generation menu (PtyWritable script # evs) buf io =
     (case drain_pending_input generation menu script io of
        (Some (Inr _), io') \<Rightarrow> input_run generation menu evs buf io'
      | _ \<Rightarrow> None)"

text \<open>The bytes the turns take from the socket.\<close>

fun received :: "u64 \<Rightarrow> bool \<Rightarrow> input_event list \<Rightarrow> string \<Rightarrow> session_io \<Rightarrow> string" where
  "received generation menu [] buf io = []"
| "received generation menu (InputTurn reads scripts # evs) buf io =
     (case client_input generation menu reads scripts buf io of
        (keep, buf', io') \<Rightarrow> drop (length buf) (fst (input_read_loop reads buf)) @ received generation menu evs buf' io')"
| "received generation menu (PtyWritable script # evs) buf io =
     received generation menu evs buf (snd (drain_pending_input generation menu script io))"

lemma input_read_loop_appends: "\<exists>x. fst (input_read_loop reads buf) = buf @ x"
proof (induction reads buf rule: input_read_loop.induct)
  case (2 r rs buf)
  then show ?case by (cases r) (auto split: if_splits)
qed simp

lemma input_frames_rest: "input_frames a = Some (fs, r) \<Longrightarrow> input_frames r = Some ([], r)"
proof (induction a arbitrary: fs r rule: input_frames.induct)
  case (1 a)
  define n where "n = be_val (take 4 a)"
  show ?case
  proof (cases "length a < 4 \<or> length a < 4 + n")
    case True
    then have "fs = []" "r = a"
      using "1.prems"
      by (simp_all add: input_frames.simps [of a] SESSION_INPUT_STREAM_FRAME_HEADER_BYTES_def n_def Let_def split: if_splits)
    then show ?thesis using "1.prems" by simp
  next
    case False
    then show ?thesis
      using "1.prems" "1.IH" [of n]
      by (auto simp: input_frames.simps [of a] SESSION_INPUT_STREAM_FRAME_HEADER_BYTES_def n_def Let_def
          split: if_splits option.splits prod.splits)
  qed
qed

lemma map_fst_zip_padded: "map fst (zip fs (xs @ replicate (length fs) y)) = fs"
  by (simp add: map_fst_zip_take)

lemma client_input_conserves:
  assumes "client_input generation menu reads scripts buf io = (True, buf', io')"
  shows "\<exists>fs. input_frames (fst (input_read_loop reads buf)) = Some (fs, buf') \<and>
    io_pty io' @ io_pending_input io' = io_pty io @ io_pending_input io @ concat fs"
  using assms write_frames_conserves
  by (auto simp: client_input_def map_fst_zip_padded split: prod.splits option.splits dest!: write_frames_conserves)

lemma input_run_frames:
  "input_run generation menu evs buf io = Some (buf', io') \<Longrightarrow> input_frames buf = Some ([], buf) \<Longrightarrow>
     \<exists>fs. input_frames (buf @ received generation menu evs buf io) = Some (fs, buf') \<and>
       io_pty io' @ io_pending_input io' = io_pty io @ io_pending_input io @ concat fs"
proof (induction generation menu evs buf io rule: input_run.induct)
  case (1 generation menu buf io)
  then show ?case by simp
next
  case (2 generation menu reads scripts evs buf io)
  obtain buf1 io1 where c: "client_input generation menu reads scripts buf io = (True, buf1, io1)"
    and run: "input_run generation menu evs buf1 io1 = Some (buf', io')"
    using "2.prems"(1) by (auto split: prod.splits if_splits)
  obtain fs where fs: "input_frames (fst (input_read_loop reads buf)) = Some (fs, buf1)"
      "io_pty io1 @ io_pending_input io1 = io_pty io @ io_pending_input io @ concat fs"
    using client_input_conserves [OF c] by blast
  obtain x where x: "fst (input_read_loop reads buf) = buf @ x" using input_read_loop_appends by blast
  obtain gs where gs: "input_frames (buf1 @ received generation menu evs buf1 io1) = Some (gs, buf')"
      "io_pty io' @ io_pending_input io' = io_pty io1 @ io_pending_input io1 @ concat gs"
    using "2.IH" [OF c [symmetric] refl _ run input_frames_rest [OF fs(1)]] by auto
  have "received generation menu (InputTurn reads scripts # evs) buf io = x @ received generation menu evs buf1 io1"
    by (simp add: c x)
  moreover have "input_frames ((buf @ x) @ received generation menu evs buf1 io1) = Some (fs @ gs, buf')"
    using input_frames_append [OF fs(1)] gs(1) x by simp
  ultimately show ?case using fs(2) gs(2) by (intro exI [of _ "fs @ gs"]) (simp del: received.simps)
next
  case (3 generation menu script evs buf io)
  obtain u io1 where d: "drain_pending_input generation menu script io = (Some (Inr u), io1)"
    and run: "input_run generation menu evs buf io1 = Some (buf', io')"
    using "3.prems"(1) by (auto split: prod.splits option.splits sum.splits)
  show ?case
    using "3.IH" [OF d [symmetric] refl refl run "3.prems"(2)] drain_conserves(1) [OF d] d by auto
qed

text \<open>C21. What is typed reaches the program exactly once and in order: the payloads an input client sends in frames, read in
  any pieces over any number of turns, are what the PTY accepts followed by what is queued for it, however the PTY took the bytes in
  between, as long as the client is kept. Nothing of a frame is left in the client's buffer.\<close>

theorem typed_input_in_order:
  assumes "input_run generation menu evs [] io = Some (buf', io')"
    and "received generation menu evs [] io = concat (map input_frame payloads)"
    and "list_all (\<lambda>d. length d \<le> SESSION_INPUT_STREAM_MAX_FRAME_BYTES) payloads"
  shows "io_pty io' @ io_pending_input io' = io_pty io @ io_pending_input io @ concat payloads \<and> buf' = []"
proof -
  have "input_frames [] = Some ([], [])" by (subst input_frames.simps) (simp add: SESSION_INPUT_STREAM_FRAME_HEADER_BYTES_def)
  from input_run_frames [OF assms(1) this]
  obtain fs where fs: "input_frames (concat (map input_frame payloads)) = Some (fs, buf')"
      "io_pty io' @ io_pending_input io' = io_pty io @ io_pending_input io @ concat fs"
    using assms(2) by auto
  have "concat (filter (\<lambda>d. d \<noteq> []) payloads) = concat payloads" by (induction payloads) auto
  then show ?thesis using fs input_frames_encoded [OF assms(3)] by simp
qed

lemmas input_eval = client_input_def input_frames.simps write_pty_input_def drain_pending_input_def drained_bytes_def
  session_io_new_def feed_def tracker_default_def SESSION_INPUT_STREAM_FRAME_HEADER_BYTES_def
  SESSION_INPUT_STREAM_MAX_FRAME_BYTES_def PENDING_PTY_INPUT_MAX_BYTES_def be_val_def byte_val_def Let_def

theorem typed_input_in_order_witness:
  "let io = session_io_new False 0 tracker_default;
       evs = [InputTurn [ReadBytes [CHR 0x00, CHR 0x00, CHR 0x00, CHR 0x02, CHR ''l''], ReadFull] [],
              InputTurn [ReadInterrupted, ReadBytes ''s'', ReadFull] [[(1, TryWrote 1 5), (0, TryFull)]],
              PtyWritable [(0, TryWrote 1 6)]]
   in \<exists>buf' io'. input_run 0 False evs [] io = Some (buf', io') \<and>
        io_pty io' @ io_pending_input io' = io_pty io @ io_pending_input io @ concat [''ls''] \<and> buf' = []"
proof -
  define io where "io = session_io_new False 0 tracker_default"
  define evs where "evs = [InputTurn [ReadBytes [CHR 0x00, CHR 0x00, CHR 0x00, CHR 0x02, CHR ''l''], ReadFull] [],
      InputTurn [ReadInterrupted, ReadBytes ''s'', ReadFull] [[(1, TryWrote 1 5), (0, TryFull)]], PtyWritable [(0, TryWrote 1 6)]]"
  obtain buf' io' where run: "input_run 0 False evs [] io = Some (buf', io')"
    by (simp add: io_def evs_def input_eval)
  have be: "be32 (Suc (Suc 0)) = [CHR 0x00, CHR 0x00, CHR 0x00, CHR 0x02]" by code_simp
  have rec: "received 0 False evs [] io = concat (map input_frame [''ls''])"
    using be by (simp add: io_def evs_def input_eval input_frame_def)
  show ?thesis unfolding Let_def io_def [symmetric] evs_def [symmetric]
    using typed_input_in_order [OF run rec] run by (simp add: SESSION_INPUT_STREAM_MAX_FRAME_BYTES_def)
qed

section \<open>What a hand-over loses\<close>

lemma read_frames_all: "list_all sendable cs \<Longrightarrow> read_frames (frames cs) = cs"
  using read_frames_prefix [of cs "length (frames cs)"] by auto

lemma frame_not_empty [simp]: "session_output_frame_bytes c \<noteq> []"
  using frame_length [of c] by (metis add_is_0 list.size(3) zero_neq_numeral)

lemmas hand_over_eval = hand_over_def export_clients_def export_client_def subscriber_answers_queries_def adopt_client_def

lemmas io_run_eval = io_run_def process_pty_bytes_def session_io_new_def query_step_def query_scanner_new_def hold_def flush_into_def
  scan_escape_def finish_query_def bounded_hold_def has_answering_subscriber_def
  publish_stream_def broadcast_chunk_def session_at_def at_offset_def new_channel_def
  attach_stream_def subscribe_def enqueue_all_def recent_tail_def enqueue_output_chunk_def live_chunk_def
  saturating_add64_def pump_client_def pump_stream_client.simps flush_client_outbuf_def compact_outbuf_def stalled_def
  pull_one_def pull_fresh_def pending_frame_def can_merge_output_stream_chunk_def client_writable_def without_client_def hm_remove_def
  SESSION_OUTPUT_STREAM_RECENT_BYTES_def SESSION_OUTPUT_STREAM_SUBSCRIBER_MAX_BUFFERED_BYTES_def
  SESSION_OUTPUT_STREAM_BATCH_MAX_BYTES_def SESSION_OUTPUT_STREAM_WRITE_TIMEOUT_MS_def Let_def

lemma process_scanned:
  assumes "\<And>p. query_scan p (io_query_scanner io) bytes = (s, chunk, [])"
  shows "process_pty_bytes reply cursor bytes io = io\<lparr>io_query_scanner := s, io_streams := publish_stream chunk (io_streams io)\<rparr>"
  using assms by (simp add: process_pty_bytes_def Let_def)

text \<open>A hand-over also cuts an escape sequence that is split over two reads: the part the scanner of the old core held back is
  neither published nor handed over, and the new core starts with an empty scanner. The program printed a red \<open>X\<close>; the client
  reads the tail of the sequence as text. Without the hand-over it reads the whole sequence.\<close>

lemma handoff_cuts_escape:
  "let io = io_run [] [ClientEvent (AttachClient 0 [] 7 0 True), PtyOutput (0, 0) (CHR 0x1B # ''[3'')]
              (session_io_new False 0 tracker_default);
       read = (\<lambda>io. map_option (\<lambda>cl. concat (map oc_data (read_frames (cl_socket cl))))
                (hm_get (ss_clients (client_writable 0 [SockWrote 100] 7 (io_streams io))) 7))
   in read (io_run [] [PtyOutput (0, 0) ''1mX''] io) = Some (CHR 0x1B # ''[31mX'') \<and>
      read (io_run [] [PtyOutput (0, 0) ''1mX''] (hand_over 0 [(7, [])] io)) = Some ''1mX''"
proof -
  have fr: "read_frames (session_output_frame_bytes c) = [c]" if "sendable c" for c
    using read_frames_all [of "[c]"] that by simp
  have one: "read_frames (session_output_frame_bytes \<lparr>oc_data = d, oc_next_offset = n, oc_exited = False, oc_exists = True\<rparr>)
      = [\<lparr>oc_data = d, oc_next_offset = n, oc_exited = False, oc_exists = True\<rparr>]" if "length d \<le> 100" "n \<le> 100" for d n
    using that by (intro fr) (simp add: sendable_def SESSION_OUTPUT_STREAM_MAX_FRAME_BYTES_def u64_max_def)
  define held where "held = \<lparr>qs_state = QCsi, qs_seq = CHR 0x1B # ''[3''\<rparr>"
  have scan1: "query_scan p query_scanner_new (CHR 0x1B # ''[3'') = (held, [], [])" for p
    by (simp add: query_step_def query_scanner_new_def hold_def scan_escape_def bounded_hold_def held_def byte_val_def
        QUERY_SCAN_MAX_SEQUENCE_BYTES_def Let_def)
  have scan2: "query_scan p held ''1mX'' = (query_scanner_new, CHR 0x1B # ''[31mX'', [])" for p
    by (cases p) (simp_all add: query_step_def query_scanner_new_def hold_def finish_query_def flush_into_def bounded_hold_def held_def
        byte_val_def is_da1_query_def probe_query_def QUERY_SCAN_MAX_SEQUENCE_BYTES_def Let_def)
  have scan3: "query_scan p query_scanner_new ''1mX'' = (query_scanner_new, ''1mX'', [])" for p
    by (rule query_scan_plain) simp
  define io where "io = io_run [] [ClientEvent (AttachClient 0 [] 7 0 True), PtyOutput (0, 0) (CHR 0x1B # ''[3'')]
              (session_io_new False 0 tracker_default)"
  have io: "io = (session_io_new False 0 tracker_default)\<lparr>io_query_scanner := held,
      io_streams := stream_run [AttachClient 0 [] 7 0 True] (session_at 0)\<rparr>"
    unfolding io_def io_run_def using scan1
    by (simp add: process_scanned [where s = held and chunk = "[]"] session_io_new_def publish_stream_def broadcast_chunk_def stream_run_def
        del: query_scan.simps)
  have plain: "io_streams (io_run [] [PtyOutput (0, 0) ''1mX''] io) = publish_stream (CHR 0x1B # ''[31mX'') (io_streams io)"
    using process_scanned [of io "''1mX''" query_scanner_new "CHR 0x1B # ''[31mX''"] scan2 by (simp add: io_run_def io del: query_scan.simps)
  have moved: "io_streams (io_run [] [PtyOutput (0, 0) ''1mX''] (hand_over 0 [(7, [])] io)) =
      publish_stream ''1mX'' (io_streams (hand_over 0 [(7, [])] io))"
    using process_scanned [of "hand_over 0 [(7, [])] io" "''1mX''" query_scanner_new "''1mX''"] scan3
    by (simp add: io_run_def hand_over_def session_io_new_def Let_def del: query_scan.simps)
  show ?thesis
    unfolding Let_def io_def [symmetric] plain moved
    by (simp add: io hand_over_eval session_io_new_def stream_run_def publish_stream_def broadcast_chunk_def session_at_def at_offset_def
        new_channel_def attach_stream_def subscribe_def enqueue_all_def recent_tail_def enqueue_output_chunk_def live_chunk_def
        saturating_add64_def pump_client_def pump_stream_client.simps flush_client_outbuf_def compact_outbuf_def stalled_def
        pull_one_def pull_fresh_def pending_frame_def client_writable_def without_client_def hm_remove_def
        SESSION_OUTPUT_STREAM_RECENT_BYTES_def SESSION_OUTPUT_STREAM_SUBSCRIBER_MAX_BUFFERED_BYTES_def
        SESSION_OUTPUT_STREAM_BATCH_MAX_BYTES_def SESSION_OUTPUT_STREAM_WRITE_TIMEOUT_MS_def Let_def one)
qed

text \<open>Input that is queued when a session is handed over is stranded: while a core has queued input it waits for the PTY to
  become writable, but the new core takes the queue over without waiting for anything, so the rest of what was typed
  reaches the program only after somebody types again.\<close>

lemma handoff_strands_queued_input:
  assumes "write_pty_input generation menu script data io = (Some (Inr u), io')" and "io_pending_input io' \<noteq> []"
  shows "io_pty_write_interest io' \<and> io_pending_input (hand_over now wss io') = io_pending_input io'
    \<and> \<not> io_pty_write_interest (hand_over now wss io')"
proof -
  note w = assms(1) [unfolded write_pty_input_def]
  have "io_pending_input io @ data \<noteq> []"
    using w assms(2) by (auto simp: drain_pending_input_def)
  then show ?thesis
    using drain_conserves(2) [OF w] assms(2) by (simp add: hand_over_def session_io_new_def Let_def)
qed

text \<open>The window of write ids is not handed over: a write that is retried with its id after the hand-over is written twice.\<close>

lemma handoff_forgets_write_ids:
  "let w = \<lparr>wt_recent = recent_default, wt_tracker = tracker_default, wt_pty = []\<rparr>;
       w1 = snd (write_command 0 False [PtyWrote 2 5] ''ls'' (Some ''id'') w)
   in fst (write_command 0 False [PtyWrote 2 6] ''ls'' (Some ''id'') w1) = Some Duplicate \<and>
      wt_pty (snd (write_command 0 False [PtyWrote 2 6] ''ls'' (Some ''id'') (handed_over_runtime w1))) = ''lsls''"
  by (simp add: write_command_def validate_write_id_def recent_contains_def recent_default_def handed_over_runtime_def
      record_applied_def feed_def tracker_default_def WRITE_ID_MAX_BYTES_def WRITE_ID_HISTORY_def Let_def)

text \<open>The answers of the Host go past the queued input, so that an answer can land inside a sequence that is typed.\<close>

lemma answer_splits_queued_input:
  "let io1 = snd (write_pty_input 0 False [(0, TryWrote 1 5), (0, TryFull)] (CHR 0x1B # ''[A'') (session_io_new False 0 tracker_default));
       io2 = process_pty_bytes [] (0, 0) [CHR 0x1B, CHR ''Z''] io1
   in io_pty io2 @ io_pending_input io2 = CHR 0x1B # (CHR 0x1B # ''[?62;22;52c'') @ ''[A''"
  by (simp add: write_pty_input_def drain_pending_input_def drained_bytes_def PENDING_PTY_INPUT_MAX_BYTES_def
      feed_def tracker_default_def process_pty_bytes_def session_io_new_def query_step_def query_scanner_new_def hold_def scan_escape_def
      answer_query_def query_answer_def has_answering_subscriber_def session_at_def at_offset_def Let_def)

end
