(* ===== verification/Handoff_Props.thy ===== *)
theory Handoff_Props
  imports Session_Io_Props
begin

text \<open>
  What a streaming client keeps of a hand-over to a new core (\<open>export_handoff\<close> and \<open>rebuild_from_handoff\<close> of
  \<open>crates/unpeel-core/src/session_io.rs\<close>): the frames in its write buffer come along, the chunks in its channel do not, and the
  new core subscribes it at the end of the journal.
\<close>

section \<open>Adopting the clients\<close>

text \<open>The streams of a new core that has adopted \<open>k\<close> clients at offset \<open>n\<close>: every channel is empty.\<close>

definition adopting :: "u64 \<Rightarrow> nat \<Rightarrow> stream_session \<Rightarrow> bool" where
  "adopting n k ss \<longleftrightarrow> ob_next_subscriber_id (ss_broadcaster ss) = k \<and> ob_next_offset (ss_broadcaster ss) = n \<and>
     \<not> ob_exited (ss_broadcaster ss) \<and> ob_recent (ss_broadcaster ss) = [] \<and> ob_recent_bytes (ss_broadcaster ss) = 0 \<and>
     map sb_id (ob_subscribers (ss_broadcaster ss)) = [1..<Suc k] \<and> ss_channels ss = (\<lambda>_. new_channel)"

lemma adopting_start: "adopting n 0 (session_at n)"
  by (simp add: adopting_def session_at_def at_offset_def)

definition adopted :: "millis \<Rightarrow> u64 \<Rightarrow> string \<Rightarrow> client_handoff \<Rightarrow> stream_client" where
  "adopted now sid socket ho =
     \<lparr>cl_subscriber_id = sid, cl_pending = None, cl_closing = False, cl_outbuf = ho_outbuf ho, cl_out_pos = 0,
      cl_write_interest = ho_outbuf ho \<noteq> [], cl_last_progress = now, cl_socket = socket\<rparr>"

lemma adopt_client_step:
  assumes "adopting n k ss" and "k < u64_max" and "ho_offset ho = n"
  shows "adopting n (Suc k) (adopt_client now t socket ho ss)"
    and "ss_clients (adopt_client now t socket ho ss) = hm_put t (adopted now (Suc k) socket ho) (ss_clients ss)"
  using assms by (auto simp: adopting_def adopt_client_def subscribe_def saturating_add64_def enqueue_all_def adopted_def Let_def)

lemma adopt_clients_spec:
  assumes "adopting n k ss" and "k + length L \<le> u64_max" and "\<forall>(t, s, ho) \<in> set L. ho_offset ho = n" and "distinct (map fst L)"
  shows "adopting n (k + length L) (adopt_clients now L ss) \<and>
    (\<forall>(t, s, ho) \<in> set L. \<exists>sid \<in> {1..k + length L}. hm_get (ss_clients (adopt_clients now L ss)) t = Some (adopted now sid s ho)) \<and>
    (\<forall>t. t \<notin> fst ` set L \<longrightarrow> hm_get (ss_clients (adopt_clients now L ss)) t = hm_get (ss_clients ss) t)"
  using assms
proof (induction L arbitrary: k ss)
  case (Cons x L)
  obtain t s ho where x: "x = (t, s, ho)" by (cases x)
  define ss1 where "ss1 = adopt_client now t s ho ss"
  have step: "adopting n (Suc k) ss1" "ss_clients ss1 = hm_put t (adopted now (Suc k) s ho) (ss_clients ss)"
    using adopt_client_step [of n k ss ho now t s] Cons.prems by (simp_all add: ss1_def x)
  have IH: "adopting n (Suc k + length L) (adopt_clients now L ss1)"
    "\<forall>(t, s, ho) \<in> set L. \<exists>sid \<in> {1..Suc k + length L}. hm_get (ss_clients (adopt_clients now L ss1)) t = Some (adopted now sid s ho)"
    "\<forall>t. t \<notin> fst ` set L \<longrightarrow> hm_get (ss_clients (adopt_clients now L ss1)) t = hm_get (ss_clients ss1) t"
    using Cons.IH [OF step(1)] Cons.prems by auto
  have "hm_get (ss_clients (adopt_clients now L ss1)) t = Some (adopted now (Suc k) s ho)"
    using IH(3) step(2) Cons.prems(4) by (simp add: x)
  then show ?case using IH step(2) by (auto simp: x ss1_def [symmetric])
qed simp

lemma export_clients_in:
  assumes "hm_get (ss_clients ss) t = Some cl" and "\<not> cl_closing cl" and "cl_pending cl = None"
  shows "(t, cl_socket cl, \<lparr>ho_answers_queries = subscriber_answers_queries (cl_subscriber_id cl) (ss_broadcaster ss),
      ho_offset = ob_next_offset (ss_broadcaster ss), ho_outbuf = drop (cl_out_pos cl) (cl_outbuf cl)\<rparr>) \<in> set (export_clients ss)"
proof -
  have "t \<in> set (sort (map fst (ss_clients ss)))" using hm_get_in_set [OF assms(1)] by force
  then show ?thesis using assms by (force simp: export_clients_def export_client_def pending_frame_def Let_def)
qed

lemma export_clients_shape:
  assumes "hm_wf (ss_clients ss)"
  shows "\<forall>(t, s, ho) \<in> set (export_clients ss). ho_offset ho = ob_next_offset (ss_broadcaster ss)"
    and "distinct (map fst (export_clients ss))" and "length (export_clients ss) \<le> length (ss_clients ss)"
proof -
  define e where "e t = (case hm_get (ss_clients ss) t of None \<Rightarrow> []
         | Some cl \<Rightarrow> (case export_client (ob_next_offset (ss_broadcaster ss)) (ss_broadcaster ss) cl of
               None \<Rightarrow> [] | Some (cl1, ho) \<Rightarrow> [(t, cl_socket cl1, ho)]))" for t
  have e: "e t = [] \<or> (\<exists>s ho. e t = [(t, s, ho)] \<and> ho_offset ho = ob_next_offset (ss_broadcaster ss))" for t
    by (auto simp: e_def export_client_def Let_def split: option.splits)
  have "map fst (concat (map e ts)) = filter (\<lambda>t. e t \<noteq> []) ts \<and> length (concat (map e ts)) \<le> length ts" for ts
  proof (induction ts)
    case (Cons t ts)
    then show ?case using e [of t] by auto
  qed simp
  moreover have L: "export_clients ss = concat (map e (sort (map fst (ss_clients ss))))" by (simp only: export_clients_def e_def [abs_def])
  ultimately show "distinct (map fst (export_clients ss))" "length (export_clients ss) \<le> length (ss_clients ss)"
    using assms by (simp_all add: hm_wf_def) (metis length_sort length_map)
  show "\<forall>(t, s, ho) \<in> set (export_clients ss). ho_offset ho = ob_next_offset (ss_broadcaster ss)"
  proof clarify
    fix t s ho assume "(t, s, ho) \<in> set (export_clients ss)"
    then obtain t' where "(t, s, ho) \<in> set (e t')" by (auto simp: L)
    then show "ho_offset ho = ob_next_offset (ss_broadcaster ss)" using e [of t'] by auto
  qed
qed

section \<open>The next output\<close>

text \<open>Fresh output reaches the empty channel of an adopted client.\<close>

lemma publish_adopted:
  assumes "adopting n k ss" and "sid \<in> {1..k}" and "data \<noteq> []"
  shows "ss_clients (publish_stream data ss) = ss_clients ss" and
    "ss_channels (publish_stream data ss) sid =
       new_channel\<lparr>ch_queue := [live_chunk data (n + length data)], ch_buffered := length data\<rparr>"
proof -
  let ?b = "ss_broadcaster ss" and ?c = "live_chunk data (n + length data)"
  obtain subs chs where r: "retain_enqueued ?c (ob_subscribers ?b) (ss_channels ss) = (subs, chs)"
    by (cases "retain_enqueued ?c (ob_subscribers ?b) (ss_channels ss)")
  have ids: "map sb_id (ob_subscribers ?b) = [1..<Suc k]" using assms(1) by (simp add: adopting_def)
  then have dist: "distinct (map sb_id (ob_subscribers ?b))" by simp
  have "sid \<in> set (map sb_id (ob_subscribers ?b))" using assms(2) unfolding ids by auto
  then obtain s where s: "s \<in> set (ob_subscribers ?b)" "sb_id s = sid" by auto
  have "enqueue_output_chunk ?c (ss_channels ss sid) =
      (True, new_channel\<lparr>ch_queue := [?c], ch_buffered := length data\<rparr>)"
    using assms(1) by (simp add: adopting_def enqueue_output_chunk_def new_channel_def live_chunk_def)
  then have "chs sid = new_channel\<lparr>ch_queue := [?c], ch_buffered := length data\<rparr>"
    using retain_enqueued_spec [OF dist r] s by auto
  then show "ss_clients (publish_stream data ss) = ss_clients ss"
    "ss_channels (publish_stream data ss) sid = new_channel\<lparr>ch_queue := [?c], ch_buffered := length data\<rparr>"
    using assms(1,3) r by (simp_all add: publish_stream_def broadcast_chunk_def adopting_def Let_def split: prod.splits)
qed

lemma flush_all:
  assumes "cl_out_pos cl = 0" and "cl_outbuf cl \<noteq> []" and "length (cl_outbuf cl) \<le> N"
  shows "flush_client_outbuf now (SockWrote N # ws) cl =
    (True, ws, cl\<lparr>cl_outbuf := [], cl_last_progress := now, cl_write_interest := False, cl_socket := cl_socket cl @ cl_outbuf cl\<rparr>)"
proof -
  define cl1 where "cl1 = cl\<lparr>cl_out_pos := length (cl_outbuf cl), cl_last_progress := now, cl_socket := cl_socket cl @ cl_outbuf cl\<rparr>"
  have "write_outbuf now ws cl1 = (True, ws, cl1)" by (cases ws) (simp_all add: cl1_def)
  then have "write_outbuf now (SockWrote N # ws) cl = (True, ws, cl1)"
    using assms by (simp add: Let_def cl1_def min_def)
  then show ?thesis using assms(1)
    by (simp add: flush_client_outbuf_def compact_outbuf_def stalled_def cl1_def)
qed

lemma flush_nothing:
  assumes "cl_out_pos cl = 0" and "cl_outbuf cl = []"
  shows "flush_client_outbuf now ws cl = (True, ws, cl\<lparr>cl_write_interest := False\<rparr>)"
  using assms by (cases ws) (simp_all add: flush_client_outbuf_def compact_outbuf_def stalled_def)

lemma pull_single:
  assumes "\<not> oc_exited c"
  shows "pl_outbuf (pull_chunks [] None b [c]) @ pending_frame (pl_pending (pull_chunks [] None b [c])) = session_output_frame_bytes c"
    and "pl_queue (pull_chunks [] None b [c]) = []" and "\<not> pl_closing (pull_chunks [] None b [c])"
  using assms by (auto simp: pull_one_def pull_fresh_def pending_frame_def Let_def)

text \<open>A client whose buffer is empty and whose socket takes the next frame ends up with nothing to send.\<close>

lemma pump_single:
  assumes cl: "cl_out_pos cl = 0" "cl_outbuf cl = []" "cl_pending cl = None" "\<not> cl_closing cl"
    and ch: "ch_queue ch = [c]" "ch_sender ch" "\<not> oc_exited c" and N: "length (session_output_frame_bytes c) \<le> N"
  shows "\<exists>ws' cl' ch'. pump_stream_client now (SockWrote N # ws) cl ch = (True, ws', cl', ch') \<and> \<not> cl_write_interest cl' \<and>
    cl_socket cl' = cl_socket cl @ session_output_frame_bytes c"
proof -
  define pl where "pl = pull_chunks [] None (ch_buffered ch) [c]"
  note pull = pull_single [OF ch(3), of "ch_buffered ch", folded pl_def]
  define cl2 where "cl2 = cl\<lparr>cl_write_interest := False, cl_outbuf := session_output_frame_bytes c, cl_pending := None, cl_closing := False\<rparr>"
  define ch2 where "ch2 = ch\<lparr>ch_queue := [], ch_buffered := pl_buffered pl\<rparr>"
  have ne: "\<not> (pl_outbuf pl = [] \<and> pending_frame (pl_pending pl) = [])" using pull(1) frame_not_empty [of c] by (metis append_Nil)
  have first: "pump_stream_client now (SockWrote N # ws) cl ch = pump_stream_client now (SockWrote N # ws) cl2 ch2"
    using cl ch pull ne
    by (subst pump_stream_client.simps) (auto simp: flush_nothing pl_def [symmetric] cl2_def ch2_def Let_def simp del: pull_chunks.simps)
  have cl2: "cl_out_pos cl2 = 0" "cl_outbuf cl2 \<noteq> []" "length (cl_outbuf cl2) \<le> N" using cl(1) N by (simp_all add: cl2_def)
  have fields: "cl_pending cl2 = None" "\<not> cl_closing cl2" "cl_socket cl2 = cl_socket cl" "cl_outbuf cl2 = session_output_frame_bytes c"
      "ch_queue ch2 = []" "ch_sender ch2"
    using ch(2) by (simp_all add: cl2_def ch2_def)
  have "\<exists>cl' ch'. pump_stream_client now (SockWrote N # ws) cl2 ch2 = (True, ws, cl', ch') \<and> \<not> cl_write_interest cl' \<and>
      cl_socket cl' = cl_socket cl @ session_output_frame_bytes c"
    by (subst pump_stream_client.simps) (simp add: flush_all [OF cl2] fields cl2(1) pending_frame_def Let_def)
  then show ?thesis using first by auto
qed

lemma pump_adopted:
  assumes ch: "ch_queue ch = [c]" "ch_sender ch" "\<not> oc_exited c" and N: "length (session_output_frame_bytes c) \<le> N" "length (ho_outbuf ho) \<le> N"
  shows "\<exists>ws' cl' ch'. pump_stream_client now' [SockWrote N, SockWrote N] (adopted now sid socket ho) ch = (True, ws', cl', ch') \<and>
    \<not> cl_write_interest cl' \<and> cl_socket cl' = (socket @ ho_outbuf ho) @ session_output_frame_bytes c"
proof (cases "ho_outbuf ho = []")
  case True
  then show ?thesis using pump_single [of "adopted now sid socket ho" ch c N now' "[SockWrote N]"] ch N(1) by (simp add: adopted_def)
next
  case False
  let ?cl = "adopted now sid socket ho"
  define cl1 where "cl1 = ?cl\<lparr>cl_outbuf := [], cl_last_progress := now', cl_write_interest := False, cl_socket := socket @ ho_outbuf ho\<rparr>"
  have fl: "flush_client_outbuf now' [SockWrote N, SockWrote N] ?cl = (True, [SockWrote N], cl1)"
    using flush_all [of ?cl N now' "[SockWrote N]"] False N(2) by (simp add: adopted_def cl1_def)
  have fl1: "flush_client_outbuf now' [SockWrote N] cl1 = (True, [SockWrote N], cl1)"
    using flush_nothing [of cl1 now' "[SockWrote N]"] by (simp add: cl1_def adopted_def)
  have "pump_stream_client now' [SockWrote N, SockWrote N] ?cl ch = pump_stream_client now' [SockWrote N] cl1 ch"
    by (simp only: pump_stream_client.simps [of now' "[SockWrote N, SockWrote N]" ?cl] pump_stream_client.simps [of now' "[SockWrote N]" cl1]
        fl fl1 prod.case)
  then show ?thesis using pump_single [of cl1 ch c N now' "[]"] ch N(1) by (simp add: cl1_def adopted_def)
qed

section \<open>What a hand-over loses\<close>

lemma covers_ends: "covers base H pos cs n \<Longrightarrow> \<forall>c \<in> set cs. oc_next_offset c \<le> n"
proof (induction cs arbitrary: pos)
  case (Cons c cs)
  then show ?case using covers_bounds [of base H "oc_next_offset c" cs n] by auto
qed simp

text \<open>C36. A hand-over to a new core loses output of a slow client. Take any session and any client that is still subscribed when the session is exported,
  after its last turn: some of the output waits in its channel because its socket is full. The new core adopts the client with the frames \<open>fs\<close> it
  was given before, which end at offset \<open>m\<close>; but when the program prints again and the socket takes everything, the client reads \<open>fs\<close> and then
  a frame that starts where the old core stopped. The bytes that waited in the channel, all that was printed from \<open>m\<close> on, are
  never sent, and the client stays connected.\<close>

theorem handoff_drops_queued_output:
  assumes "\<forall>e \<in> set evs. length (published e) \<le> SESSION_OUTPUT_STREAM_MAX_FRAME_BYTES" and "length evs \<le> u64_max"
    and "io_streams io = stream_run evs (session_at base)" and "ss = flush_stream_clients now wss (io_streams io)"
    and "hm_get (ss_clients ss) t = Some cl" and "\<not> cl_closing cl" and "ch_sender (ss_channels ss (cl_subscriber_id cl))"
    and "queue = ch_queue (ss_channels ss (cl_subscriber_id cl))" and "concat (map oc_data queue) \<noteq> []"
    and "length (ss_clients ss) \<le> u64_max"
    and "data \<noteq> []" and "length data \<le> SESSION_OUTPUT_STREAM_MAX_FRAME_BYTES"
    and "base + length (stream_printed evs) + length data \<le> u64_max"
    and "length (cl_outbuf cl) \<le> N" and "13 + length data \<le> N"
  shows "\<exists>pos m fs cl'. (t, pos) \<in> connections evs \<and> covers base (stream_printed evs) pos fs m \<and>
    m < base + length (stream_printed evs) \<and> drop (m - base) (stream_printed evs) = concat (map oc_data queue) \<and>
    hm_get (ss_clients (client_writable now' [SockWrote N, SockWrote N] t (publish_stream data (io_streams (hand_over now wss io))))) t = Some cl' \<and>
    \<not> cl_write_interest cl' \<and>
    read_frames (cl_socket cl') = fs @ [live_chunk data (base + length (stream_printed evs) + length data)]"
proof -
  let ?H = "stream_printed evs"
  have inv: "stream_inv base ?H (connections evs) (length evs) ss"
    unfolding assms(4) by (rule flush_stream_clients_inv) (use stream_run_inv [of evs base] assms(1-3,13) in simp)
  have off: "ob_next_offset (ss_broadcaster ss) = base + length ?H" using inv by (simp add: stream_inv_def recent_ok_def)
  obtain pos where pos: "(t, pos) \<in> connections evs" "client_ok base ?H pos (base + length ?H) cl (ss_channels ss (cl_subscriber_id cl))"
    using take_client_inv(2) [OF inv assms(5)] assms(7) off by (auto simp: client_inv_def)
  then obtain fs where fs: "cl_pending cl = None" "wire cl = frames fs" "covers base ?H pos (fs @ queue) (base + length ?H)" "list_all sendable fs"
    by (auto simp: client_ok_def assms(8))
  obtain m where m: "covers base ?H pos fs m" "covers base ?H m queue (base + length ?H)" using fs(3) by (auto simp: covers_append)
  have lost: "drop (m - base) ?H = concat (map oc_data queue)"
    using covers_data [OF m(2)] covers_bounds [OF m(2)] by simp
  then have less: "m < base + length ?H" using assms(9) covers_bounds [OF m(2)] by (cases "m = base + length ?H") auto
  define ho where "ho = \<lparr>ho_answers_queries = subscriber_answers_queries (cl_subscriber_id cl) (ss_broadcaster ss),
      ho_offset = ob_next_offset (ss_broadcaster ss), ho_outbuf = drop (cl_out_pos cl) (cl_outbuf cl)\<rparr>"
  define L where "L = export_clients ss"
  have wf: "hm_wf (ss_clients ss)" using inv by (simp add: stream_inv_def)
  note shape = export_clients_shape [OF wf, folded L_def]
  define new where "new = io_streams (hand_over now wss io)"
  have new: "new = adopt_clients now L (session_at (base + length ?H))"
    by (simp add: new_def hand_over_def assms(4) [symmetric] off session_io_new_def L_def Let_def)
  have adopt: "adopting (base + length ?H) (length L) new"
    "\<forall>(t, s, ho) \<in> set L. \<exists>sid \<in> {1..length L}. hm_get (ss_clients new) t = Some (adopted now sid s ho)"
    using adopt_clients_spec [OF adopting_start, of L "base + length ?H" now] shape assms(10) off by (auto simp: new)
  obtain sid where sid: "sid \<in> {1..length L}" "hm_get (ss_clients new) t = Some (adopted now sid (cl_socket cl) ho)"
    using adopt(2) export_clients_in [OF assms(5,6) fs(1)] unfolding L_def ho_def by fastforce
  let ?c = "live_chunk data (base + length ?H + length data)"
  define pub where "pub = publish_stream data new"
  note pub = publish_adopted [OF adopt(1) sid(1) assms(11), folded pub_def]
  have c: "\<not> oc_exited ?c" "length (session_output_frame_bytes ?c) \<le> N" "sendable ?c"
    using assms(12,13,15) by (simp_all add: live_chunk_def sendable_def)
  obtain ws' cl' ch' where p: "pump_stream_client now' [SockWrote N, SockWrote N] (adopted now sid (cl_socket cl) ho) (ss_channels pub sid) = (True, ws', cl', ch')"
      "\<not> cl_write_interest cl'" "cl_socket cl' = (cl_socket cl @ ho_outbuf ho) @ session_output_frame_bytes ?c"
  proof -
    have "ch_queue (ss_channels pub sid) = [?c]" "ch_sender (ss_channels pub sid)" "length (ho_outbuf ho) \<le> N"
      using pub(2) assms(14) by (simp_all add: new_channel_def ho_def)
    from pump_adopted [OF this(1,2) c(1,2) this(3), of now' now sid "cl_socket cl"] show thesis using that by blast
  qed
  have "cl_socket cl' = frames (fs @ [?c])" using p(3) fs(2) by (simp add: wire_def ho_def)
  then have "read_frames (cl_socket cl') = fs @ [?c]" using read_frames_all [of "fs @ [?c]"] fs(4) c(3) by simp
  moreover have "hm_get (ss_clients (client_writable now' [SockWrote N, SockWrote N] t pub)) t = Some cl'"
    using p(1) sid(2) pub(1) by (simp add: client_writable_def pump_client_def without_client_def adopted_def)
  ultimately show ?thesis using pos(1) m(1) less lost p(2) unfolding pub_def new_def by blast
qed

text \<open>The program printed \<open>ab\<close>; the client has \<open>a\<close> in its buffer and \<open>b\<close> in its channel. After the hand-over the program prints \<open>c\<close>.\<close>

definition SLOW_EVENTS :: "client_event list" where
  "SLOW_EVENTS = [AttachClient 0 [] 7 0 False, Publish ''a'', Writable 0 [] 7, Publish ''b'']"

definition SLOW_SESSION :: session_io where
  "SLOW_SESSION = (session_io_new False 0 tracker_default)\<lparr>io_streams := stream_run SLOW_EVENTS (session_at 0)\<rparr>"

theorem handoff_drops_queued_output_witness:
  "\<exists>fs cl'. hm_get (ss_clients (client_writable 0 [SockWrote 100, SockWrote 100] 7
       (publish_stream ''c'' (io_streams (hand_over 0 [(7, [])] SLOW_SESSION))))) 7 = Some cl' \<and>
     \<not> cl_write_interest cl' \<and> read_frames (cl_socket cl') = fs @ [live_chunk ''c'' 3] \<and> (\<forall>c \<in> set fs. oc_next_offset c \<le> 1)"
proof -
  let ?ss = "flush_stream_clients 0 [(7, [])] (io_streams SLOW_SESSION)"
  have run: "io_streams SLOW_SESSION = stream_run SLOW_EVENTS (session_at 0)" by (simp add: SLOW_SESSION_def)
  have "\<exists>cl. hm_get (ss_clients ?ss) 7 = Some cl \<and> \<not> cl_closing cl \<and> ch_sender (ss_channels ?ss (cl_subscriber_id cl)) \<and>
      ch_queue (ss_channels ?ss (cl_subscriber_id cl)) = [live_chunk ''b'' 2] \<and> length (cl_outbuf cl) \<le> 100 \<and> length (ss_clients ?ss) \<le> u64_max"
    by (simp add: run SLOW_EVENTS_def stream_run_def io_run_eval u64_max_def)
  then obtain cl where cl: "hm_get (ss_clients ?ss) 7 = Some cl" "\<not> cl_closing cl" "ch_sender (ss_channels ?ss (cl_subscriber_id cl))"
      "ch_queue (ss_channels ?ss (cl_subscriber_id cl)) = [live_chunk ''b'' 2]" "length (cl_outbuf cl) \<le> 100" "length (ss_clients ?ss) \<le> u64_max"
    by blast
  have data: "stream_printed SLOW_EVENTS = ''ab''" by (simp add: SLOW_EVENTS_def stream_printed_def)
  have "\<exists>pos m fs cl'. (7, pos) \<in> connections SLOW_EVENTS \<and> covers 0 (stream_printed SLOW_EVENTS) pos fs m \<and>
    m < 0 + length (stream_printed SLOW_EVENTS) \<and> drop (m - 0) (stream_printed SLOW_EVENTS) = concat (map oc_data [live_chunk ''b'' 2]) \<and>
    hm_get (ss_clients (client_writable 0 [SockWrote 100, SockWrote 100] 7 (publish_stream ''c'' (io_streams (hand_over 0 [(7, [])] SLOW_SESSION))))) 7 = Some cl' \<and>
    \<not> cl_write_interest cl' \<and>
    read_frames (cl_socket cl') = fs @ [live_chunk ''c'' (0 + length (stream_printed SLOW_EVENTS) + length ''c'')]"
    by (rule handoff_drops_queued_output [OF _ _ run refl cl(1,2,3) cl(4) [symmetric] _ cl(6)])
      (simp_all add: data, simp_all add: SLOW_EVENTS_def SESSION_OUTPUT_STREAM_MAX_FRAME_BYTES_def u64_max_def live_chunk_def cl(5))
  then obtain pos m fs cl' where r: "covers 0 ''ab'' pos fs m" "m < 2"
    "hm_get (ss_clients (client_writable 0 [SockWrote 100, SockWrote 100] 7
       (publish_stream ''c'' (io_streams (hand_over 0 [(7, [])] SLOW_SESSION))))) 7 = Some cl'"
    "\<not> cl_write_interest cl'" "read_frames (cl_socket cl') = fs @ [live_chunk ''c'' 3]"
    by (auto simp: data numeral_2_eq_2 numeral_3_eq_3)
  have "\<forall>c \<in> set fs. oc_next_offset c \<le> m" using r(1) by (rule covers_ends)
  then show ?thesis using r by fastforce
qed

end
