(* ===== verification/Journal_Pressure.thy ===== *)
theory Journal_Pressure
  imports Prelude
begin

text \<open>
  The backpressure between a session and the journal writer, two threads that share the atomic counters of \<open>JournalBackpressure\<close>:
  the reactor of \<open>crates/unpeel-core/src/session_io.rs\<close> (\<open>publish_chunk\<close>, \<open>apply_journal_backpressure\<close>, \<open>journal_drained\<close>) pauses the reads
  of a PTY while too many bytes are on their way, and the writer thread of \<open>crates/unpeel-core/src/core_reactor.rs\<close> wakes it when the backlog is
  low again. The model is a step relation in which the atomic accesses of the two threads interleave one by one; the chunks are
  kept by their lengths. \<open>pressure_step\<close> has the steps of a running session: the poller reports its PTY readable only while the
  session is interested. \<open>session_step\<close> adds what goes round that interest: a stopped session is drained by \<open>drain_after_stop\<close> and a PTY
  that hung up is reported whatever the interest is, so \<open>pty_readable\<close> reads although the reads are paused; and a hand-over to a new
  core drops the interest and, refused, sets it again.
\<close>

definition JOURNAL_BACKLOG_HIGH_BYTES :: nat where "JOURNAL_BACKLOG_HIGH_BYTES = 4 * 1024 * 1024"
definition JOURNAL_BACKLOG_LOW_BYTES :: nat where "JOURNAL_BACKLOG_LOW_BYTES = 1024 * 1024"

text \<open>Where the reactor is: between events; a chunk of some length is counted but not sent; the chunk is sent and the backlog not checked yet;
  the backlog was found too high and the session is about to be paused; the journal was flushed for a hand-over that is not decided yet.\<close>

datatype reactor_at = RIdle | RCounted nat | RSent | RHigh | RHandoff

text \<open>Where the writer is: waiting; it took a chunk and remembers what remained; it saw the session paused and the rest low; it has
  cleared the flag and is about to send the wake-up.\<close>

datatype writer_at = WIdle | WTook nat | WLow | WCleared

record journal_pressure =
  jp_backlog :: nat
  jp_paused :: bool
  jp_read_interest :: bool
  jp_channel :: "nat list"
  jp_drained :: nat
  jp_reactor :: reactor_at
  jp_writer :: writer_at

definition pressure_default :: journal_pressure where
  "pressure_default = \<lparr>jp_backlog = 0, jp_paused = False, jp_read_interest = True, jp_channel = [], jp_drained = 0,
                       jp_reactor = RIdle, jp_writer = WIdle\<rparr>"

text \<open>The reactor reads a chunk of at most \<open>limit\<close> bytes while it is interested in the PTY; \<open>publish_chunk\<close> counts it first.\<close>

definition publish_count :: "nat \<Rightarrow> journal_pressure \<Rightarrow> journal_pressure" where
  "publish_count n p = p\<lparr>jp_backlog := jp_backlog p + n, jp_reactor := RCounted n\<rparr>"

definition publish_send :: "nat \<Rightarrow> journal_pressure \<Rightarrow> journal_pressure" where
  "publish_send n p = p\<lparr>jp_channel := jp_channel p @ [n], jp_reactor := RSent\<rparr>"

definition check_backlog :: "journal_pressure \<Rightarrow> journal_pressure" where
  "check_backlog p =
     p\<lparr>jp_reactor := if jp_backlog p > JOURNAL_BACKLOG_HIGH_BYTES \<and> jp_read_interest p then RHigh else RIdle\<rparr>"

definition pause_reads :: "journal_pressure \<Rightarrow> journal_pressure" where
  "pause_reads p = p\<lparr>jp_paused := True, jp_read_interest := False, jp_reactor := RIdle\<rparr>"

text \<open>A \<open>JournalDrained\<close> message is handled.\<close>

definition journal_drained :: "journal_pressure \<Rightarrow> journal_pressure" where
  "journal_drained p = p\<lparr>jp_drained := jp_drained p - 1, jp_read_interest := True\<rparr>"

definition writer_take :: "nat \<Rightarrow> nat list \<Rightarrow> journal_pressure \<Rightarrow> journal_pressure" where
  "writer_take n rest p =
     p\<lparr>jp_channel := rest, jp_backlog := jp_backlog p - n, jp_writer := WTook (jp_backlog p - n)\<rparr>"

definition writer_look :: "nat \<Rightarrow> journal_pressure \<Rightarrow> journal_pressure" where
  "writer_look remaining p =
     p\<lparr>jp_writer := if jp_paused p \<and> remaining < JOURNAL_BACKLOG_LOW_BYTES then WLow else WIdle\<rparr>"

definition writer_clear :: "journal_pressure \<Rightarrow> journal_pressure" where
  "writer_clear p = p\<lparr>jp_paused := False, jp_writer := WCleared\<rparr>"

definition writer_wake :: "journal_pressure \<Rightarrow> journal_pressure" where
  "writer_wake p = p\<lparr>jp_drained := jp_drained p + 1, jp_writer := WIdle\<rparr>"

text \<open>The steps of both threads while the session runs, its PTY has not hung up and no hand-over is attempted. With \<open>calm\<close> the writer
  takes no chunk between the check of the backlog and the pause.\<close>

inductive pressure_step :: "bool \<Rightarrow> nat \<Rightarrow> journal_pressure \<Rightarrow> journal_pressure \<Rightarrow> bool" for calm limit where
  count: "jp_reactor p = RIdle \<Longrightarrow> jp_read_interest p \<Longrightarrow> 0 < n \<Longrightarrow> n \<le> limit \<Longrightarrow> pressure_step calm limit p (publish_count n p)"
| send: "jp_reactor p = RCounted n \<Longrightarrow> pressure_step calm limit p (publish_send n p)"
| check: "jp_reactor p = RSent \<Longrightarrow> pressure_step calm limit p (check_backlog p)"
| pause: "jp_reactor p = RHigh \<Longrightarrow> pressure_step calm limit p (pause_reads p)"
| resume: "jp_reactor p = RIdle \<Longrightarrow> 0 < jp_drained p \<Longrightarrow> pressure_step calm limit p (journal_drained p)"
| take: "jp_writer p = WIdle \<Longrightarrow> jp_channel p = n # rest \<Longrightarrow> \<not> (calm \<and> jp_reactor p = RHigh) \<Longrightarrow>
    pressure_step calm limit p (writer_take n rest p)"
| look: "jp_writer p = WTook remaining \<Longrightarrow> pressure_step calm limit p (writer_look remaining p)"
| clear: "jp_writer p = WLow \<Longrightarrow> pressure_step calm limit p (writer_clear p)"
| wake: "jp_writer p = WCleared \<Longrightarrow> pressure_step calm limit p (writer_wake p)"

inductive_cases pressure_stepE: "pressure_step calm limit p p'"

inductive pressure_reachable :: "bool \<Rightarrow> nat \<Rightarrow> journal_pressure \<Rightarrow> bool" for calm limit where
  start: "pressure_reachable calm limit pressure_default"
| step: "pressure_reachable calm limit p \<Longrightarrow> pressure_step calm limit p p' \<Longrightarrow> pressure_reachable calm limit p'"

text \<open>The whole life of a session: whether it runs, whether its PTY hung up, whether a hand-over was ever attempted, and the bytes read
  since it was stopped or its PTY hung up.\<close>

record session_pressure =
  sp_pressure :: journal_pressure
  sp_running :: bool
  sp_hup :: bool
  sp_offered :: bool
  sp_late :: nat

definition session_default :: session_pressure where
  "session_default = \<lparr>sp_pressure = pressure_default, sp_running = True, sp_hup = False, sp_offered = False, sp_late = 0\<rparr>"

definition reads_paced :: "session_pressure \<Rightarrow> bool" where
  "reads_paced s \<longleftrightarrow> sp_running s \<and> \<not> sp_hup s"

text \<open>A read of \<open>pty_readable\<close> that asks for no read interest: one of \<open>drain_after_stop\<close>, or one for a hang-up event.\<close>

definition late_read :: "nat \<Rightarrow> session_pressure \<Rightarrow> session_pressure" where
  "late_read n s = s\<lparr>sp_pressure := publish_count n (sp_pressure s), sp_late := sp_late s + n\<rparr>"

text \<open>The hand-over waits until the writer has acknowledged the flush, so nothing of the session is on its way. \<open>export_handoff\<close> drops
  the read interest of a running session. When the hand-over is refused, \<open>resume_after_handoff\<close> sets the interest of every flushed session,
  exported or not, and the loop of \<open>drain_control\<close> that runs the hand-over goes on with the wake-ups that arrived before the flush was
  acknowledged, before the PTY is polled again.\<close>

definition handoff_flushed :: "journal_pressure \<Rightarrow> journal_pressure" where
  "handoff_flushed p = p\<lparr>jp_reactor := RHandoff\<rparr>"

definition export_interest :: "journal_pressure \<Rightarrow> journal_pressure" where
  "export_interest p = p\<lparr>jp_read_interest := False\<rparr>"

definition resume_after_refusal :: "journal_pressure \<Rightarrow> journal_pressure" where
  "resume_after_refusal p = p\<lparr>jp_read_interest := True, jp_drained := 0, jp_reactor := RIdle\<rparr>"

inductive session_step :: "nat \<Rightarrow> session_pressure \<Rightarrow> session_pressure \<Rightarrow> bool" for limit where
  pressure: "pressure_step False limit (sp_pressure s) p' \<Longrightarrow>
    session_step limit s
      (s\<lparr>sp_pressure := p', sp_late := sp_late s + (if reads_paced s then 0 else jp_backlog p' - jp_backlog (sp_pressure s))\<rparr>)"
| late: "jp_reactor (sp_pressure s) = RIdle \<Longrightarrow> \<not> reads_paced s \<Longrightarrow> 0 < n \<Longrightarrow> n \<le> limit \<Longrightarrow> session_step limit s (late_read n s)"
| stop: "session_step limit s (s\<lparr>sp_running := False\<rparr>)"
| hang_up: "session_step limit s (s\<lparr>sp_hup := True\<rparr>)"
| flushed: "jp_reactor (sp_pressure s) = RIdle \<Longrightarrow> jp_writer (sp_pressure s) = WIdle \<Longrightarrow> jp_channel (sp_pressure s) = [] \<Longrightarrow>
    session_step limit s (s\<lparr>sp_pressure := handoff_flushed (sp_pressure s), sp_offered := True\<rparr>)"
| export: "jp_reactor (sp_pressure s) = RHandoff \<Longrightarrow> sp_running s \<Longrightarrow>
    session_step limit s (s\<lparr>sp_pressure := export_interest (sp_pressure s)\<rparr>)"
| refused: "jp_reactor (sp_pressure s) = RHandoff \<Longrightarrow>
    session_step limit s (s\<lparr>sp_pressure := resume_after_refusal (sp_pressure s)\<rparr>)"

inductive session_reachable :: "nat \<Rightarrow> session_pressure \<Rightarrow> bool" for limit where
  start: "session_reachable limit session_default"
| step: "session_reachable limit s \<Longrightarrow> session_step limit s s' \<Longrightarrow> session_reachable limit s'"

lemmas pressure_defs = publish_count_def publish_send_def check_backlog_def pause_reads_def journal_drained_def
  writer_take_def writer_look_def writer_clear_def writer_wake_def

section \<open>The invariant\<close>

fun counted :: "reactor_at \<Rightarrow> nat" where
  "counted (RCounted n) = n"
| "counted _ = 0"

text \<open>The writer is about to wake the session because of a low backlog it saw, possibly a while ago.\<close>

definition waking :: "journal_pressure \<Rightarrow> bool" where
  "waking p \<longleftrightarrow> (case jp_writer p of WTook r \<Rightarrow> r < JOURNAL_BACKLOG_LOW_BYTES | WLow \<Rightarrow> True | _ \<Rightarrow> False)"

text \<open>The session is reading, paused, about to be woken, or has a wake-up waiting.\<close>

datatype pressure_mode = Reading | Paused | Clearing | Resuming

definition mode_ok :: "journal_pressure \<Rightarrow> pressure_mode \<Rightarrow> bool" where
  "mode_ok p m \<longleftrightarrow>
     (case m of
        Reading \<Rightarrow> jp_read_interest p \<and> \<not> jp_paused p \<and> jp_drained p = 0 \<and> jp_writer p \<noteq> WLow \<and> jp_writer p \<noteq> WCleared
      | Paused \<Rightarrow> \<not> jp_read_interest p \<and> jp_paused p \<and> jp_drained p = 0 \<and> jp_writer p \<noteq> WCleared \<and> jp_reactor p = RIdle
      | Clearing \<Rightarrow> \<not> jp_read_interest p \<and> \<not> jp_paused p \<and> jp_drained p = 0 \<and> jp_writer p = WCleared \<and> jp_reactor p = RIdle
      | Resuming \<Rightarrow> \<not> jp_read_interest p \<and> \<not> jp_paused p \<and> jp_drained p = 1 \<and> jp_writer p \<noteq> WLow \<and> jp_writer p \<noteq> WCleared
          \<and> jp_reactor p = RIdle)"

text \<open>The backlog in each mode: at most one chunk above the mark when reads resume, at most two in all.\<close>

definition backlog_ok :: "nat \<Rightarrow> journal_pressure \<Rightarrow> pressure_mode \<Rightarrow> bool" where
  "backlog_ok limit p m \<longleftrightarrow>
     (case m of
        Reading \<Rightarrow>
          if jp_reactor p = RIdle
          then jp_backlog p \<le> JOURNAL_BACKLOG_HIGH_BYTES + limit \<and> (waking p \<longrightarrow> jp_backlog p \<le> JOURNAL_BACKLOG_HIGH_BYTES)
          else jp_backlog p \<le> JOURNAL_BACKLOG_HIGH_BYTES + 2 * limit \<and>
            (waking p \<longrightarrow> jp_backlog p \<le> JOURNAL_BACKLOG_HIGH_BYTES + limit)
      | Paused \<Rightarrow> jp_backlog p \<le> JOURNAL_BACKLOG_HIGH_BYTES + 2 * limit \<and>
            (waking p \<longrightarrow> jp_backlog p \<le> JOURNAL_BACKLOG_HIGH_BYTES + limit)
      | _ \<Rightarrow> jp_backlog p \<le> JOURNAL_BACKLOG_HIGH_BYTES + limit \<and> (waking p \<longrightarrow> jp_backlog p \<le> JOURNAL_BACKLOG_HIGH_BYTES))"

definition pressure_inv :: "bool \<Rightarrow> nat \<Rightarrow> journal_pressure \<Rightarrow> pressure_mode \<Rightarrow> bool" where
  "pressure_inv calm limit p m \<longleftrightarrow> mode_ok p m \<and> backlog_ok limit p m \<and>
     jp_backlog p = sum_list (jp_channel p) + counted (jp_reactor p) \<and>
     (calm \<longrightarrow> (jp_reactor p = RHigh \<longrightarrow> jp_backlog p > JOURNAL_BACKLOG_HIGH_BYTES) \<and>
       (m = Paused \<longrightarrow> jp_channel p \<noteq> [] \<or> waking p))"

lemmas inv_defs = pressure_inv_def mode_ok_def backlog_ok_def waking_def pressure_defs

lemma low_below_high: "r < JOURNAL_BACKLOG_LOW_BYTES \<Longrightarrow> r \<le> JOURNAL_BACKLOG_HIGH_BYTES"
  by (simp add: JOURNAL_BACKLOG_LOW_BYTES_def JOURNAL_BACKLOG_HIGH_BYTES_def)

lemma step_mode:
  assumes inv: "pressure_inv calm limit p m" and step: "pressure_step calm limit p p'"
  shows "\<exists>m'. pressure_inv calm limit p' m'"
  using step
proof cases
  case (count n)
  then have "m = Reading" using inv by (cases m) (auto simp: inv_defs)
  then show ?thesis using inv count by (intro exI [of _ Reading]) (auto simp: inv_defs split: if_splits)
next
  case (send n)
  then have "m = Reading" using inv by (cases m) (auto simp: inv_defs)
  then show ?thesis using inv send by (intro exI [of _ Reading]) (auto simp: inv_defs split: if_splits)
next
  case check
  then have "m = Reading" using inv by (cases m) (auto simp: inv_defs)
  then show ?thesis using inv check by (intro exI [of _ Reading]) (auto simp: inv_defs split: if_splits)
next
  case pause
  then have "m = Reading" using inv by (cases m) (auto simp: inv_defs)
  then show ?thesis using inv pause by (intro exI [of _ Paused]) (auto simp: inv_defs split: if_splits writer_at.splits)
next
  case resume
  then have "m = Resuming" using inv by (cases m) (auto simp: inv_defs)
  then show ?thesis using inv resume by (intro exI [of _ Reading]) (auto simp: inv_defs)
next
  case (take n rest)
  have sum: "jp_backlog p - n = sum_list rest + counted (jp_reactor p)"
    using inv take by (simp add: pressure_inv_def)
  have less: "jp_backlog p - n \<le> jp_backlog p" by simp
  show ?thesis
  proof (intro exI [of _ m])
    have "counted (jp_reactor p) = 0" if "m = Paused" using inv that by (auto simp: inv_defs)
    then show "pressure_inv calm limit p' m"
      using inv take sum less low_below_high [of "jp_backlog p - n"]
      by (cases m) (auto simp: inv_defs JOURNAL_BACKLOG_LOW_BYTES_def split: if_splits)
  qed
next
  case (look remaining)
  then show ?thesis using inv by (intro exI [of _ m]) (cases m; auto simp: inv_defs split: if_splits)
next
  case clear
  then have "m = Paused" using inv by (cases m) (auto simp: inv_defs)
  then show ?thesis using inv clear by (intro exI [of _ Clearing]) (auto simp: inv_defs)
next
  case wake
  then have "m = Clearing" using inv by (cases m) (auto simp: inv_defs)
  then show ?thesis using inv wake by (intro exI [of _ Resuming]) (auto simp: inv_defs)
qed

lemma reachable_pressure_inv: "pressure_reachable calm limit p \<Longrightarrow> \<exists>m. pressure_inv calm limit p m"
proof (induction rule: pressure_reachable.induct)
  case start
  show ?case by (intro exI [of _ Reading]) (simp add: inv_defs pressure_default_def)
next
  case (step p p')
  then show ?case using step_mode by blast
qed

section \<open>The invariant of a session with hand-overs\<close>

text \<open>The wake-ups that are sent or about to be sent, and the resumptions that can follow before the writer finds the backlog low again.\<close>

definition wakes :: "journal_pressure \<Rightarrow> nat" where
  "wakes p = jp_drained p + (if jp_writer p = WCleared then 1 else 0)"

definition credits :: "journal_pressure \<Rightarrow> nat" where
  "credits p = wakes p + (if waking p then 1 else 0)"

text \<open>A refused hand-over can leave a session that reads while it is still marked paused, so a wake-up can find it reading or paused again: each
  outstanding resumption accounts for one read above the mark.\<close>

definition wakes_ok :: "journal_pressure \<Rightarrow> bool" where
  "wakes_ok p \<longleftrightarrow> wakes p \<le> (if jp_read_interest p then 0 else 1) + (if jp_paused p then 0 else 1) \<and>
     (jp_writer p = WLow \<longrightarrow> jp_paused p)"

definition credit_ok :: "nat \<Rightarrow> journal_pressure \<Rightarrow> bool" where
  "credit_ok limit p \<longleftrightarrow>
     jp_backlog p + (credits p + (if jp_read_interest p \<and> jp_reactor p = RIdle then 1 else 0)) * limit
       \<le> JOURNAL_BACKLOG_HIGH_BYTES + 3 * limit"

definition paced_inv :: "nat \<Rightarrow> journal_pressure \<Rightarrow> bool" where
  "paced_inv limit p \<longleftrightarrow> wakes_ok p \<and> credit_ok limit p \<and> (jp_reactor p = RHandoff \<longrightarrow> jp_writer p = WIdle \<and> jp_channel p = []) \<and>
     (jp_reactor p = RHigh \<longrightarrow> jp_read_interest p)"

definition backlog_counts :: "journal_pressure \<Rightarrow> bool" where
  "backlog_counts p \<longleftrightarrow> jp_backlog p = sum_list (jp_channel p) + counted (jp_reactor p)"

lemmas paced_defs = paced_inv_def wakes_ok_def credit_ok_def credits_def wakes_def waking_def pressure_defs
  handoff_flushed_def export_interest_def resume_after_refusal_def

lemma pressure_step_counts: "pressure_step calm limit p p' \<Longrightarrow> backlog_counts p \<Longrightarrow> backlog_counts p'"
  by (induction rule: pressure_step.induct) (auto simp: backlog_counts_def pressure_defs)

lemma credit_headroom:
  "n \<le> JOURNAL_BACKLOG_HIGH_BYTES \<Longrightarrow> c \<le> 3 \<Longrightarrow> n + c * limit \<le> JOURNAL_BACKLOG_HIGH_BYTES + 3 * limit"
  by (intro add_mono mult_right_mono) simp_all

lemma wakes_cases:
  "wakes_ok p \<Longrightarrow> jp_read_interest p \<Longrightarrow> wakes p \<le> 1"
  "wakes_ok p \<Longrightarrow> wakes p \<le> 2"
  by (auto simp: wakes_ok_def split: if_splits)

lemma pressure_step_paced:
  assumes inv: "paced_inv limit p" and step: "pressure_step False limit p p'"
  shows "paced_inv limit p'"
  using step
proof cases
  case (count n)
  then show ?thesis using inv by (auto simp: paced_defs algebra_simps)
next
  case (send n)
  then show ?thesis using inv by (auto simp: paced_defs)
next
  case check
  have "credits p + 1 \<le> 3" if "jp_read_interest p"
    using wakes_cases(1) [OF _ that] inv by (auto simp: paced_inv_def credits_def)
  then have "jp_backlog p + (credits p + 1) * limit \<le> JOURNAL_BACKLOG_HIGH_BYTES + 3 * limit"
    if "jp_read_interest p" "\<not> jp_backlog p > JOURNAL_BACKLOG_HIGH_BYTES"
    using that by (intro credit_headroom) simp_all
  then show ?thesis using inv check by (auto simp: paced_defs)
next
  case pause
  then show ?thesis using inv by (auto simp: paced_defs split: if_splits)
next
  case resume
  then show ?thesis using inv by (cases "jp_drained p") (auto simp: paced_defs algebra_simps split: if_splits)
next
  case (take n rest)
  have idle: "jp_reactor p \<noteq> RHandoff" using inv take by (auto simp: paced_inv_def)
  have wakes: "wakes p' = wakes p" using take by (simp add: wakes_def writer_take_def)
  then have ok: "wakes_ok p'" using inv take by (simp add: paced_inv_def wakes_ok_def writer_take_def)
  have "credit_ok limit p'"
  proof (cases "waking p'")
    case True
    then have "jp_backlog p' \<le> JOURNAL_BACKLOG_HIGH_BYTES"
      using take low_below_high by (auto simp: waking_def writer_take_def)
    moreover have "credits p' + (if jp_read_interest p' \<and> jp_reactor p' = RIdle then 1 else 0) \<le> 3"
      using wakes_cases [OF ok] by (auto simp: credits_def)
    ultimately show ?thesis unfolding credit_ok_def by (rule credit_headroom)
  next
    case False
    moreover have "\<not> waking p" using take by (simp add: waking_def)
    ultimately show ?thesis using inv wakes take by (auto simp: paced_inv_def credit_ok_def credits_def writer_take_def)
  qed
  then show ?thesis using inv ok idle take by (simp add: paced_inv_def writer_take_def)
next
  case (look remaining)
  then show ?thesis using inv by (auto simp: paced_defs algebra_simps split: if_splits)
next
  case clear
  then show ?thesis using inv by (auto simp: paced_defs split: if_splits)
next
  case wake
  then show ?thesis using inv by (auto simp: paced_defs algebra_simps split: if_splits)
qed

lemma handoff_paced:
  assumes "paced_inv limit p"
  shows "jp_writer p = WIdle \<Longrightarrow> jp_channel p = [] \<Longrightarrow> paced_inv limit (handoff_flushed p)"
    and "jp_reactor p = RHandoff \<Longrightarrow> paced_inv limit (export_interest p)"
  using assms by (auto simp: paced_defs split: if_splits)

lemma refusal_paced:
  assumes "paced_inv limit p" and "backlog_counts p" and "jp_reactor p = RHandoff"
  shows "paced_inv limit (resume_after_refusal p)"
proof -
  have "jp_backlog p = 0" "jp_writer p = WIdle" using assms by (auto simp: paced_inv_def backlog_counts_def)
  then show ?thesis by (simp add: paced_defs)
qed

lemma paced_bound:
  assumes "paced_inv limit p"
  shows "jp_backlog p \<le> JOURNAL_BACKLOG_HIGH_BYTES + 3 * limit"
  using assms by (simp add: paced_inv_def credit_ok_def)

text \<open>What holds of every session in every run.\<close>

definition session_inv :: "nat \<Rightarrow> session_pressure \<Rightarrow> bool" where
  "session_inv limit s \<longleftrightarrow> backlog_counts (sp_pressure s) \<and>
     jp_backlog (sp_pressure s) \<le> JOURNAL_BACKLOG_HIGH_BYTES + 3 * limit + sp_late s \<and>
     (reads_paced s \<longrightarrow> sp_late s = 0 \<and> paced_inv limit (sp_pressure s) \<and>
       (\<not> sp_offered s \<longrightarrow> pressure_reachable False limit (sp_pressure s)))"

text \<open>Only a hand-over brings the reactor to the point where one is undecided.\<close>

lemma pressure_no_handoff: "pressure_reachable calm limit p \<Longrightarrow> jp_reactor p \<noteq> RHandoff"
  by (induction rule: pressure_reachable.induct) (auto simp: pressure_default_def pressure_defs elim!: pressure_stepE split: if_splits)

lemma offered_handoff:
  "session_inv limit s \<Longrightarrow> jp_reactor (sp_pressure s) = RHandoff \<Longrightarrow> sp_offered s \<or> \<not> reads_paced s"
  using pressure_no_handoff by (auto simp: session_inv_def)

lemma session_pressure_inv:
  assumes inv: "session_inv limit s" and step: "pressure_step False limit (sp_pressure s) p'"
  shows "session_inv limit
    (s\<lparr>sp_pressure := p', sp_late := sp_late s + (if reads_paced s then 0 else jp_backlog p' - jp_backlog (sp_pressure s))\<rparr>)"
    (is "session_inv limit ?s")
proof -
  have counts: "backlog_counts p'" using inv step pressure_step_counts by (auto simp: session_inv_def)
  have same: "reads_paced ?s = reads_paced s" by (simp add: reads_paced_def)
  show ?thesis
  proof (cases "reads_paced s")
    case True
    then have "paced_inv limit p'" "\<not> sp_offered s \<longrightarrow> pressure_reachable False limit p'"
      using inv step pressure_step_paced pressure_reachable.step by (auto simp: session_inv_def)
    then show ?thesis using True same inv counts paced_bound [of limit p'] by (auto simp: session_inv_def)
  next
    case False
    then show ?thesis using same inv counts by (auto simp: session_inv_def)
  qed
qed

lemma session_step_inv: "session_step limit s s' \<Longrightarrow> session_inv limit s \<Longrightarrow> session_inv limit s'"
proof (induction rule: session_step.induct)
  case (pressure s p')
  then show ?case using session_pressure_inv by blast
next
  case (late s n)
  then show ?case by (auto simp: session_inv_def late_read_def publish_count_def backlog_counts_def reads_paced_def)
next
  case (flushed s)
  then show ?case using handoff_paced(1) [of limit "sp_pressure s"]
    by (auto simp: session_inv_def backlog_counts_def handoff_flushed_def reads_paced_def)
next
  case (export s)
  then have "sp_offered s \<or> \<not> reads_paced s" using offered_handoff by blast
  then show ?case using export handoff_paced(2) [of limit "sp_pressure s"]
    by (auto simp: session_inv_def backlog_counts_def export_interest_def reads_paced_def)
next
  case (refused s)
  then have "sp_offered s \<or> \<not> reads_paced s" using offered_handoff by blast
  then show ?case using refused refusal_paced [of limit "sp_pressure s"]
    by (auto simp: session_inv_def backlog_counts_def resume_after_refusal_def reads_paced_def)
qed (auto simp: session_inv_def reads_paced_def)

lemma reachable_session_inv: "session_reachable limit s \<Longrightarrow> session_inv limit s"
proof (induction rule: session_reachable.induct)
  case start
  show ?case using pressure_reachable.start
    by (simp add: session_inv_def session_default_def backlog_counts_def paced_defs pressure_default_def)
next
  case (step s s')
  then show ?case using session_step_inv by blast
qed

end
