(* ===== verification/Journal_Pressure_Props.thy ===== *)
theory Journal_Pressure_Props
  imports Journal_Pressure
begin



text \<open>How many steps are left before the reads resume.\<close>

definition wake_distance :: "journal_pressure \<Rightarrow> nat" where
  "wake_distance p = 8 * length (jp_channel p) + 2 * jp_drained p +
     (case jp_writer p of WIdle \<Rightarrow> 0 | WTook r \<Rightarrow> 6 | WLow \<Rightarrow> 5 | WCleared \<Rightarrow> 4)"

lemma paused_step:
  assumes inv: "pressure_inv True limit p m" and paused: "\<not> jp_read_interest p"
  shows "\<exists>p'. pressure_step True limit p p'"
proof -
  have idle: "jp_reactor p = RIdle" using inv paused by (cases m) (auto simp: inv_defs)
  consider "0 < jp_drained p" | "jp_writer p = WCleared" | "jp_writer p = WLow" | r where "jp_writer p = WTook r"
    | n rest where "jp_writer p = WIdle" "jp_channel p = n # rest"
  proof (cases "jp_writer p")
    case WIdle
    then have "0 < jp_drained p \<or> jp_channel p \<noteq> []" using inv paused by (cases m) (auto simp: inv_defs)
    then show thesis using that WIdle by (cases "jp_channel p") auto
  qed (use that in auto)
  then show ?thesis
  proof cases
    case 1
    show ?thesis using pressure_step.resume [OF idle 1] by blast
  next
    case 2
    show ?thesis using pressure_step.wake [OF 2] by blast
  next
    case 3
    show ?thesis using pressure_step.clear [OF 3] by blast
  next
    case 4
    show ?thesis using pressure_step.look [OF 4] by blast
  next
    case 5
    show ?thesis using pressure_step.take [OF 5, of True limit] idle by auto
  qed
qed

lemma paused_step_decreases:
  assumes inv: "pressure_inv calm limit p m" and paused: "\<not> jp_read_interest p" and step: "pressure_step calm limit p p'"
  shows "jp_read_interest p' \<or> wake_distance p' < wake_distance p"
proof -
  have idle: "jp_reactor p = RIdle" using inv paused by (cases m) (auto simp: inv_defs)
  show ?thesis using step by cases (use idle paused in \<open>auto simp: pressure_defs wake_distance_def\<close>)
qed

lemma paused_run_resumes:
  assumes "pressure_inv calm limit (f 0) m" and "\<And>i. pressure_step calm limit (f i) (f (Suc i))"
  shows "\<exists>i. jp_read_interest (f i)"
proof (rule ccontr)
  assume none: "\<not> (\<exists>i. jp_read_interest (f i))"
  have inv: "\<exists>m. pressure_inv calm limit (f i) m" for i
    by (induction i) (use assms step_mode in blast)+
  have dec: "wake_distance (f (Suc i)) < wake_distance (f i)" for i
    using inv [of i] paused_step_decreases assms(2) none by blast
  have "wake_distance (f i) + i \<le> wake_distance (f 0)" for i
  proof (induction i)
    case (Suc i)
    then show ?case using dec [of i] by simp
  qed simp
  from this [of "Suc (wake_distance (f 0))"] show False by simp
qed

text \<open>C25. Paused reads resume: while the reads of a running session are paused some thread can always go on, and every infinite run comes to a point where
  the session reads again, as long as the writer takes no chunk between the check of the backlog and the pause.\<close>

theorem paused_reads_resume:
  assumes "pressure_reachable True limit p" and "\<not> jp_read_interest p"
  shows "(\<exists>p'. pressure_step True limit p p') \<and>
    (\<forall>f. f 0 = p \<and> (\<forall>i. pressure_step True limit (f i) (f (Suc i))) \<longrightarrow> (\<exists>i. jp_read_interest (f i)))"
proof -
  obtain m where m: "pressure_inv True limit p m" using reachable_pressure_inv [OF assms(1)] by blast
  then show ?thesis using paused_step [OF m assms(2)] paused_run_resumes by blast
qed

section \<open>A run\<close>

text \<open>A session that has \<open>k\<close> chunks of 64 KiB on their way; the writer has not run yet.\<close>

definition filled :: "nat \<Rightarrow> journal_pressure" where
  "filled k = pressure_default\<lparr>jp_backlog := k * 65536, jp_channel := replicate k 65536\<rparr>"

lemma filled_reachable: "k \<le> 64 \<Longrightarrow> pressure_reachable calm 65536 (filled k)"
proof (induction k)
  case 0
  then show ?case using pressure_reachable.start [of calm 65536] by (simp add: filled_def pressure_default_def)
next
  case (Suc k)
  define p where "p = filled k"
  have p: "pressure_reachable calm 65536 p" "jp_reactor p = RIdle" "jp_read_interest p"
    using Suc by (simp_all add: p_def filled_def pressure_default_def)
  have 1: "pressure_reachable calm 65536 (publish_count 65536 p)"
    using p pressure_step.count [of p 65536 65536 calm] by (auto intro: pressure_reachable.step)
  have 2: "pressure_reachable calm 65536 (publish_send 65536 (publish_count 65536 p))"
    using 1 by (rule pressure_reachable.step) (rule pressure_step.send, simp add: publish_count_def)
  have 3: "pressure_reachable calm 65536 (check_backlog (publish_send 65536 (publish_count 65536 p)))"
    using 2 by (rule pressure_reachable.step) (rule pressure_step.check, simp add: publish_send_def)
  have "check_backlog (publish_send 65536 (publish_count 65536 p)) = filled (Suc k)"
    using Suc.prems by (simp add: p_def filled_def pressure_default_def pressure_defs JOURNAL_BACKLOG_HIGH_BYTES_def
        replicate_append_same [symmetric])
  then show ?case using 3 by simp
qed

definition over :: "nat \<Rightarrow> journal_pressure" where
  "over k = (filled k)\<lparr>jp_reactor := RHigh\<rparr>"

lemma over_reachable: "pressure_reachable calm 65536 (over 65)"
proof -
  define p where "p = filled 64"
  have p: "pressure_reachable calm 65536 p" "jp_reactor p = RIdle" "jp_read_interest p"
    using filled_reachable [of 64] by (simp_all add: p_def filled_def pressure_default_def)
  have 1: "pressure_reachable calm 65536 (publish_count 65536 p)"
    using p pressure_step.count [of p 65536 65536 calm] by (auto intro: pressure_reachable.step)
  have 2: "pressure_reachable calm 65536 (publish_send 65536 (publish_count 65536 p))"
    using 1 by (rule pressure_reachable.step) (rule pressure_step.send, simp add: publish_count_def)
  have 3: "pressure_reachable calm 65536 (check_backlog (publish_send 65536 (publish_count 65536 p)))"
    using 2 by (rule pressure_reachable.step) (rule pressure_step.check, simp add: publish_send_def)
  have "replicate 65 (65536::nat) = replicate 64 65536 @ [65536]"
    using replicate_append_same [of 64 "65536::nat"] by (metis Suc_numeral replicate_Suc semiring_norm(5) semiring_norm(2))
  then have "check_backlog (publish_send 65536 (publish_count 65536 p)) = over 65"
    by (simp add: p_def over_def filled_def pressure_default_def pressure_defs JOURNAL_BACKLOG_HIGH_BYTES_def)
  then show ?thesis using 3 by simp
qed



section \<open>Witnesses\<close>





theorem paused_reads_resume_witness:
  "\<exists>p. pressure_reachable True 65536 p \<and> \<not> jp_read_interest p \<and> (\<exists>p'. pressure_step True 65536 p p')"
proof -
  define p where "p = pause_reads (over 65)"
  have "pressure_reachable True 65536 p"
    unfolding p_def using over_reachable [of True] by (rule pressure_reachable.step) (rule pressure_step.pause, simp add: over_def)
  moreover have "\<not> jp_read_interest p" by (simp add: p_def pause_reads_def)
  ultimately show ?thesis using paused_reads_resume by blast
qed

end
