(* ===== verification/Core_Reactor.thy ===== *)
theory Core_Reactor
  imports Prelude Rust_Str
begin

text \<open>
  Model of the threads of the PTY core, \<open>crates/unpeel-core/src/core_reactor.rs\<close>: the slots of the reactor, the journal writer that batches the output of every
  session, the timer thread with the periodic jobs of every session, and the teardown threads of \<open>session_io.rs\<close> that outlive
  a session. The threads talk over queues; an event says which thread takes a step. A session is kept by its identity and the id
  of its journal, the periodic jobs by the session they belong to; the backpressure between reactor and writer is in
  \<open>Journal_Pressure\<close>.
\<close>

definition JOURNAL_BATCH_MAX_BYTES :: nat where "JOURNAL_BATCH_MAX_BYTES = 128 * 1024"
definition JOURNAL_FLUSH_INTERVAL :: millis where "JOURNAL_FLUSH_INTERVAL = 32"

record hosted_session =
  hs_id :: u64
  hs_journal_id :: u64

datatype control = Register hosted_session | Wake nat | JournalDrained nat | JournalFailed nat string

datatype journal_msg = JournalOpen u64 | JournalChunk u64 string | JournalClose u64 | JournalFlush u64

datatype timer_msg = TimerAdd nat "u64 list" | TimerRemove nat

section \<open>The journal writer\<close>

text \<open>\<open>js_file\<close> is what the journal file has taken.\<close>

record journal_session =
  js_pending :: string
  js_first_pending_at :: "millis option"
  js_error :: "string option"
  js_file :: string

definition journal_open :: journal_session where
  "journal_open = \<lparr>js_pending = [], js_first_pending_at = None, js_error = None, js_file = []\<rparr>"

text \<open>The outcome of \<open>write_all\<close>: all bytes, or a failure after some of them.\<close>

datatype disk_write = DiskWrote | DiskFailed nat string

definition journal_flush :: "disk_write \<Rightarrow> journal_session \<Rightarrow> journal_session" where
  "journal_flush d js =
     (if js_pending js = [] \<or> js_error js \<noteq> None then js\<lparr>js_pending := [], js_first_pending_at := None\<rparr>
      else let js1 = (case d of
               DiskWrote \<Rightarrow> js\<lparr>js_file := js_file js @ js_pending js\<rparr>
             | DiskFailed k e \<Rightarrow> js\<lparr>js_file := js_file js @ take k (js_pending js),
                                    js_error := Some (''Failed to write output log: '' @ e)\<rparr>)
      in js1\<lparr>js_pending := [], js_first_pending_at := None\<rparr>)"

definition journal_chunk :: "millis \<Rightarrow> disk_write \<Rightarrow> string \<Rightarrow> journal_session \<Rightarrow> journal_session" where
  "journal_chunk now d data js =
     (if js_error js \<noteq> None then js
      else let js1 = js\<lparr>js_first_pending_at := (if js_pending js = [] then Some now else js_first_pending_at js),
                       js_pending := js_pending js @ data\<rparr>
      in if length (js_pending js1) \<ge> JOURNAL_BATCH_MAX_BYTES then journal_flush d js1 else js1)"

definition journal_result :: "journal_session \<Rightarrow> string + unit" where
  "journal_result js = (case js_error js of Some e \<Rightarrow> Inl e | None \<Rightarrow> Inr ())"

record journal_writer =
  jw_sessions :: "(u64, journal_session) hmap"
  jw_acks :: "(u64 \<times> (string + unit)) list"
  jw_failed :: "(u64 \<times> string) list"
  jw_closed :: "(u64 \<times> journal_session) list"

text \<open>One message. Failures that are to be reported are kept with the journal, and \<open>jw_closed\<close> logs the journals that are closed;
  \<open>disk\<close> has the outcome of a write of each journal.\<close>

fun journal_message :: "millis \<Rightarrow> (u64 \<Rightarrow> disk_write) \<Rightarrow> journal_msg \<Rightarrow> journal_writer \<Rightarrow> journal_writer" where
  "journal_message now disk (JournalOpen i) w = w\<lparr>jw_sessions := hm_put i journal_open (jw_sessions w)\<rparr>"
| "journal_message now disk (JournalChunk i data) w =
     (case hm_get (jw_sessions w) i of
        None \<Rightarrow> w
      | Some js \<Rightarrow>
          let js' = journal_chunk now (disk i) data js in
          w\<lparr>jw_sessions := hm_put i js' (jw_sessions w),
            jw_failed := jw_failed w @ (case (js_error js, js_error js') of (None, Some e) \<Rightarrow> [(i, e)] | _ \<Rightarrow> [])\<rparr>)"
| "journal_message now disk (JournalFlush i) w =
     (case hm_get (jw_sessions w) i of
        None \<Rightarrow> w\<lparr>jw_acks := jw_acks w @ [(i, Inr ())]\<rparr>
      | Some js \<Rightarrow>
          let js' = journal_flush (disk i) js in
          w\<lparr>jw_sessions := hm_put i js' (jw_sessions w), jw_acks := jw_acks w @ [(i, journal_result js')]\<rparr>)"
| "journal_message now disk (JournalClose i) w =
     (case hm_get (jw_sessions w) i of
        None \<Rightarrow> w\<lparr>jw_acks := jw_acks w @ [(i, Inr ())]\<rparr>
      | Some js \<Rightarrow>
          let js' = journal_flush (disk i) js in
          w\<lparr>jw_sessions := hm_remove i (jw_sessions w), jw_acks := jw_acks w @ [(i, journal_result js')],
            jw_closed := jw_closed w @ [(i, js')]\<rparr>)"

text \<open>After every message, and when the wait for one times out, the batches that are due are written; a chunk of an unknown journal is
  passed over.\<close>

definition journal_due :: "millis \<Rightarrow> journal_session \<Rightarrow> bool" where
  "journal_due now js = (case js_first_pending_at js of None \<Rightarrow> False | Some at \<Rightarrow> now - at \<ge> JOURNAL_FLUSH_INTERVAL)"

definition journal_sweep :: "millis \<Rightarrow> (u64 \<Rightarrow> disk_write) \<Rightarrow> journal_writer \<Rightarrow> journal_writer" where
  "journal_sweep now disk w =
     w\<lparr>jw_sessions := map (\<lambda>(i, js). (i, if journal_due now js then journal_flush (disk i) js else js)) (jw_sessions w),
       jw_failed := jw_failed w @ concat (map (\<lambda>(i, js).
          if journal_due now js then (case js_error (journal_flush (disk i) js) of Some e \<Rightarrow> [(i, e)] | None \<Rightarrow> []) else []) (jw_sessions w))\<rparr>"

fun unknown_journal :: "journal_msg \<Rightarrow> journal_writer \<Rightarrow> bool" where
  "unknown_journal (JournalChunk i data) w \<longleftrightarrow> hm_get (jw_sessions w) i = None"
| "unknown_journal _ w \<longleftrightarrow> False"

definition journal_turn :: "millis \<Rightarrow> (u64 \<Rightarrow> disk_write) \<Rightarrow> journal_msg option \<Rightarrow> journal_writer \<Rightarrow> journal_writer" where
  "journal_turn now disk msg w =
     (case msg of
        None \<Rightarrow> journal_sweep now disk w
      | Some m \<Rightarrow> if unknown_journal m w then w else journal_sweep now disk (journal_message now disk m w))"

section \<open>The timer\<close>

fun timer_message :: "timer_msg \<Rightarrow> (nat, u64 list) hmap \<Rightarrow> (nat, u64 list) hmap" where
  "timer_message (TimerAdd slot new) jobs =
     hm_put slot ((case hm_get jobs slot of None \<Rightarrow> [] | Some js \<Rightarrow> js) @ new) jobs"
| "timer_message (TimerRemove slot) jobs = hm_remove slot jobs"

section \<open>The reactor\<close>

datatype teardown_phase = TeardownClose | TeardownTimers | TeardownDone

record session_teardown =
  td_session :: hosted_session
  td_slot :: nat
  td_phase :: teardown_phase

record core =
  cr_sessions :: "hosted_session option list"
  cr_free_slots :: "nat list"
  cr_control :: "control list"
  cr_slot_of :: "(u64, nat) hmap"
  cr_journal_rx :: "journal_msg list"
  cr_writer :: journal_writer
  cr_timer_rx :: "timer_msg list"
  cr_timer_jobs :: "(nat, u64 list) hmap"
  cr_teardowns :: "session_teardown list"
  cr_ended :: "(u64 \<times> (string + unit)) list"

definition core_new :: core where
  "core_new = \<lparr>cr_sessions = [], cr_free_slots = [], cr_control = [], cr_slot_of = [], cr_journal_rx = [],
     cr_writer = \<lparr>jw_sessions = [], jw_acks = [], jw_failed = [], jw_closed = []\<rparr>, cr_timer_rx = [], cr_timer_jobs = [], cr_teardowns = [], cr_ended = []\<rparr>"

text \<open>A slot is taken from the end of the free list, or a new one is made.\<close>

definition next_slot :: "core \<Rightarrow> nat" where
  "next_slot c = (if cr_free_slots c = [] then length (cr_sessions c) else last (cr_free_slots c))"

definition take_slot :: "core \<Rightarrow> core" where
  "take_slot c =
     (if cr_free_slots c = [] then c\<lparr>cr_sessions := cr_sessions c @ [None]\<rparr> else c\<lparr>cr_free_slots := butlast (cr_free_slots c)\<rparr>)"

text \<open>Registration stores the slot where the journal writer looks it up, then adds the descriptors to the poller, which may fail.\<close>

definition core_register :: "bool \<Rightarrow> hosted_session \<Rightarrow> core \<Rightarrow> core" where
  "core_register ok s c =
     (let slot = next_slot c; c1 = (take_slot c)\<lparr>cr_slot_of := hm_put (hs_journal_id s) slot (cr_slot_of c)\<rparr> in
      if \<not> ok then c1\<lparr>cr_free_slots := cr_free_slots c1 @ [slot]\<rparr>
      else c1\<lparr>cr_timer_rx := cr_timer_rx c1 @ [TimerAdd slot [hs_id s]], cr_sessions := (cr_sessions c1)[slot := Some s]\<rparr>)"

text \<open>\<open>adopt\<close> watches the child under the slot it expects.\<close>

definition core_adopt :: "bool \<Rightarrow> hosted_session \<Rightarrow> core \<Rightarrow> nat \<times> core" where
  "core_adopt ok s c = (next_slot c, core_register ok s c)"

definition session_in :: "core \<Rightarrow> nat \<Rightarrow> hosted_session option" where
  "session_in c slot = (if slot < length (cr_sessions c) then cr_sessions c ! slot else None)"

text \<open>A session that ends leaves its slot at once; the rest is up to its teardown thread. (Failing to start the thread, or a panic in \<open>finish\<close>, is
  left out.)\<close>

definition end_session :: "nat \<Rightarrow> string + unit \<Rightarrow> core \<Rightarrow> core" where
  "end_session slot outcome c =
     (case session_in c slot of
        None \<Rightarrow> c
      | Some s \<Rightarrow>
          c\<lparr>cr_sessions := (cr_sessions c)[slot := None], cr_free_slots := cr_free_slots c @ [slot],
            cr_teardowns := cr_teardowns c @ [\<lparr>td_session = s, td_slot = slot, td_phase = TeardownClose\<rparr>],
            cr_ended := cr_ended c @ [(hs_id s, outcome)]\<rparr>)"

text \<open>One control message; \<open>ok\<close> is the outcome of a registration, \<open>stopped\<close> says that the session that is woken has been stopped and
  drained.\<close>

definition drain_control :: "bool \<Rightarrow> bool \<Rightarrow> core \<Rightarrow> core" where
  "drain_control ok stopped c =
     (case cr_control c of
        [] \<Rightarrow> c
      | msg # rest \<Rightarrow>
          let c1 = c\<lparr>cr_control := rest\<rparr> in
          (case msg of
             Register s \<Rightarrow> core_register ok s c1
           | Wake slot \<Rightarrow> if stopped then end_session slot (Inr ()) c1 else c1
           | JournalDrained slot \<Rightarrow> c1
           | JournalFailed slot e \<Rightarrow> end_session slot (Inl e) c1))"

section \<open>The threads together\<close>

text \<open>Another thread opens the journal and asks the reactor to host the session.\<close>

definition host_session :: "hosted_session \<Rightarrow> core \<Rightarrow> core" where
  "host_session s c = c\<lparr>cr_journal_rx := cr_journal_rx c @ [JournalOpen (hs_journal_id s)], cr_control := cr_control c @ [Register s]\<rparr>"

definition publish_output :: "nat \<Rightarrow> string \<Rightarrow> core \<Rightarrow> core" where
  "publish_output slot data c =
     (case session_in c slot of None \<Rightarrow> c
      | Some s \<Rightarrow> c\<lparr>cr_journal_rx := cr_journal_rx c @ [JournalChunk (hs_journal_id s) data]\<rparr>)"

text \<open>A turn of the writer thread: the failures it reports name the slot of the journal, which is 0 until it is registered.\<close>

definition writer_turn :: "millis \<Rightarrow> (u64 \<Rightarrow> disk_write) \<Rightarrow> core \<Rightarrow> core" where
  "writer_turn now disk c =
     (let w = journal_turn now disk (case cr_journal_rx c of [] \<Rightarrow> None | m # _ \<Rightarrow> Some m) (cr_writer c) in
      c\<lparr>cr_journal_rx := tl (cr_journal_rx c), cr_writer := w\<lparr>jw_failed := []\<rparr>,
        cr_control := cr_control c @ concat (map (\<lambda>(i, e).
          [JournalFailed (case hm_get (cr_slot_of c) i of None \<Rightarrow> 0 | Some slot \<Rightarrow> slot) e]) (jw_failed w))\<rparr>)"

definition timer_turn :: "core \<Rightarrow> core" where
  "timer_turn c =
     (case cr_timer_rx c of [] \<Rightarrow> c
      | m # rest \<Rightarrow> c\<lparr>cr_timer_rx := rest, cr_timer_jobs := timer_message m (cr_timer_jobs c)\<rparr>)"

text \<open>A teardown thread closes the journal and waits for it, for at most 30 seconds, then retires the timer jobs of its slot.\<close>

definition teardown_turn :: "nat \<Rightarrow> core \<Rightarrow> core" where
  "teardown_turn k c =
     (if k < length (cr_teardowns c) then
        let td = cr_teardowns c ! k in
        (case td_phase td of
           TeardownClose \<Rightarrow>
             c\<lparr>cr_journal_rx := cr_journal_rx c @ [JournalClose (hs_journal_id (td_session td))],
               cr_teardowns := (cr_teardowns c)[k := td\<lparr>td_phase := TeardownTimers\<rparr>]\<rparr>
         | TeardownTimers \<Rightarrow>
             c\<lparr>cr_timer_rx := cr_timer_rx c @ [TimerRemove (td_slot td)],
               cr_teardowns := (cr_teardowns c)[k := td\<lparr>td_phase := TeardownDone\<rparr>]\<rparr>
         | TeardownDone \<Rightarrow> c)
      else c)"

text \<open>The hand-over: journals are flushed and timer jobs retired, slot by slot, until one of them fails.\<close>

definition occupied_slots :: "core \<Rightarrow> nat list" where
  "occupied_slots c = filter (\<lambda>slot. session_in c slot \<noteq> None) [0..<length (cr_sessions c)]"

fun quiesce :: "(nat \<Rightarrow> bool) \<Rightarrow> (nat \<Rightarrow> bool) \<Rightarrow> nat list \<Rightarrow> core \<Rightarrow> nat list \<times> bool \<times> core" where
  "quiesce flushed retired [] c = ([], True, c)"
| "quiesce flushed retired (slot # slots) c =
     (case session_in c slot of
        None \<Rightarrow> quiesce flushed retired slots c
      | Some s \<Rightarrow>
          let c1 = c\<lparr>cr_journal_rx := cr_journal_rx c @ [JournalFlush (hs_journal_id s)]\<rparr> in
          if \<not> flushed slot then ([], False, c1)
          else let c2 = c1\<lparr>cr_timer_rx := cr_timer_rx c1 @ [TimerRemove slot]\<rparr> in
            if \<not> retired slot then ([], False, c2)
            else case quiesce flushed retired slots c2 of (paused, ok, c3) \<Rightarrow> (slot # paused, ok, c3))"

definition leave_slot :: "nat \<Rightarrow> core \<Rightarrow> core" where
  "leave_slot slot c =
     (if session_in c slot = None then c
      else c\<lparr>cr_sessions := (cr_sessions c)[slot := None], cr_free_slots := cr_free_slots c @ [slot]\<rparr>)"

definition resume_slot :: "nat \<Rightarrow> core \<Rightarrow> core" where
  "resume_slot slot c =
     (case session_in c slot of None \<Rightarrow> c | Some s \<Rightarrow> c\<lparr>cr_timer_rx := cr_timer_rx c @ [TimerAdd slot [hs_id s]]\<rparr>)"

definition core_handoff :: "(nat \<Rightarrow> bool) \<Rightarrow> (nat \<Rightarrow> bool) \<Rightarrow> bool \<Rightarrow> core \<Rightarrow> core" where
  "core_handoff flushed retired committed c =
     (case quiesce flushed retired (occupied_slots c) c of (paused, ok, c1) \<Rightarrow>
        if ok \<and> committed then fold leave_slot paused c1 else fold resume_slot paused c1)"

datatype core_event = HostSession hosted_session | DrainControl bool bool | SessionOutput nat string | SessionEof nat
  | WriterTurn millis "u64 \<Rightarrow> disk_write" | TimerTurn | TeardownTurn nat | CoreHandoff "nat \<Rightarrow> bool" "nat \<Rightarrow> bool" bool
  | AdoptSession bool hosted_session

fun core_apply :: "core_event \<Rightarrow> core \<Rightarrow> core" where
  "core_apply (HostSession s) c = host_session s c"
| "core_apply (DrainControl ok stopped) c = drain_control ok stopped c"
| "core_apply (SessionOutput slot data) c = publish_output slot data c"
| "core_apply (SessionEof slot) c = end_session slot (Inr ()) c"
| "core_apply (WriterTurn now disk) c = writer_turn now disk c"
| "core_apply TimerTurn c = timer_turn c"
| "core_apply (TeardownTurn k) c = teardown_turn k c"
| "core_apply (CoreHandoff flushed retired committed) c = core_handoff flushed retired committed c"
| "core_apply (AdoptSession ok s) c = snd (core_adopt ok s c)"

definition core_run :: "core_event list \<Rightarrow> core \<Rightarrow> core" where
  "core_run evs c = fold core_apply evs c"

end
