(* ===== verification/Core_Reactor_Props.thy ===== *)
theory Core_Reactor_Props
  imports Core_Reactor
begin

text \<open>
  What the threads of the core guarantee together: the slots stay consistent, and a journal that is flushed or closed without an error
  has taken every byte in order. Two messages that name a slot can arrive when the slot has a new owner.
\<close>

section \<open>Slots\<close>

text \<open>The free list has every vacant slot once.\<close>

definition slots_ok :: "core \<Rightarrow> bool" where
  "slots_ok c \<longleftrightarrow> distinct (cr_free_slots c) \<and>
     set (cr_free_slots c) = {slot. slot < length (cr_sessions c) \<and> cr_sessions c ! slot = None}"

lemma slots_ok_cong:
  "cr_sessions c' = cr_sessions c \<Longrightarrow> cr_free_slots c' = cr_free_slots c \<Longrightarrow> slots_ok c' = slots_ok c"
  by (simp add: slots_ok_def)

lemma next_slot_vacant:
  assumes "slots_ok c"
  shows "next_slot c < length (cr_sessions (take_slot c))" and "cr_sessions (take_slot c) ! next_slot c = None"
    and "next_slot c \<notin> set (cr_free_slots (take_slot c))" and "session_in c (next_slot c) = None"
    and "slot \<noteq> next_slot c \<Longrightarrow> session_in (take_slot c) slot = session_in c slot"
proof -
  have last: "last (cr_free_slots c) \<in> set (cr_free_slots c)" if "cr_free_slots c \<noteq> []" using that by simp
  have "last (cr_free_slots c) \<notin> set (butlast (cr_free_slots c))" if "cr_free_slots c \<noteq> []"
    using that assms by (metis append_butlast_last_id distinct_append in_set_conv_decomp not_distinct_conv_prefix slots_ok_def)
  then show "next_slot c < length (cr_sessions (take_slot c))" "cr_sessions (take_slot c) ! next_slot c = None"
      "next_slot c \<notin> set (cr_free_slots (take_slot c))" "session_in c (next_slot c) = None"
      "slot \<noteq> next_slot c \<Longrightarrow> session_in (take_slot c) slot = session_in c slot"
    using assms last by (auto simp: next_slot_def take_slot_def slots_ok_def session_in_def nth_append)
qed

lemma take_slot_free:
  assumes "slots_ok c"
  shows "distinct (cr_free_slots (take_slot c))"
    and "set (cr_free_slots (take_slot c)) = {slot. slot < length (cr_sessions (take_slot c)) \<and> cr_sessions (take_slot c) ! slot = None} - {next_slot c}"
proof -
  show "distinct (cr_free_slots (take_slot c))" using assms by (simp add: take_slot_def slots_ok_def distinct_butlast)
  show "set (cr_free_slots (take_slot c)) = {slot. slot < length (cr_sessions (take_slot c)) \<and> cr_sessions (take_slot c) ! slot = None} - {next_slot c}"
  proof (cases "cr_free_slots c = []")
    case True
    then show ?thesis
      using assms by (auto simp: take_slot_def slots_ok_def next_slot_def nth_append less_Suc_eq split: if_splits)
  next
    case False
    have "set (cr_free_slots c) = insert (last (cr_free_slots c)) (set (butlast (cr_free_slots c)))"
      using False by (metis append_butlast_last_id list.simps(15) rotate1.simps(2) set_rotate1)
    then show ?thesis
      using False assms next_slot_vacant(3) [OF assms] by (auto simp: take_slot_def slots_ok_def next_slot_def)
  qed
qed

lemma register_slots_ok: "slots_ok c \<Longrightarrow> slots_ok (core_register ok s c)"
  using next_slot_vacant(1-3) [of c] take_slot_free [of c]
  by (auto simp: core_register_def Let_def slots_ok_def nth_list_update)

lemma vacate_slots_ok:
  assumes "slots_ok c" and "session_in c slot \<noteq> None"
    and "cr_sessions c' = (cr_sessions c)[slot := None]" and "cr_free_slots c' = cr_free_slots c @ [slot]"
  shows "slots_ok c'"
  using assms by (auto simp: slots_ok_def session_in_def nth_list_update split: if_splits)

lemma end_session_slots_ok: "slots_ok c \<Longrightarrow> slots_ok (end_session slot outcome c)"
  by (cases "session_in c slot") (auto simp: end_session_def intro: vacate_slots_ok [of c slot])

lemma leave_slot_ok: "slots_ok c \<Longrightarrow> slots_ok (leave_slot slot c)"
  by (cases "session_in c slot") (auto simp: leave_slot_def intro: vacate_slots_ok [of c slot])

lemma fold_leave_ok: "slots_ok c \<Longrightarrow> slots_ok (fold leave_slot slots c)"
  by (induction slots arbitrary: c) (auto intro: leave_slot_ok)

lemma resume_slot_ok: "slots_ok c \<Longrightarrow> slots_ok (resume_slot slot c)"
  by (cases "session_in c slot") (auto simp: resume_slot_def slots_ok_def)

lemma fold_resume_ok: "slots_ok c \<Longrightarrow> slots_ok (fold resume_slot slots c)"
  by (induction slots arbitrary: c) (auto intro: resume_slot_ok)

lemma quiesce_ok: "quiesce flushed retired slots c = (paused, ok, c') \<Longrightarrow> slots_ok c' = slots_ok c"
proof (induction flushed retired slots c arbitrary: paused ok c' rule: quiesce.induct)
  case (2 flushed retired slot slots c)
  show ?case
  proof (cases "session_in c slot")
    case None
    then show ?thesis using "2.IH"(1) "2.prems" by simp
  next
    case (Some s)
    define c1 where "c1 = c\<lparr>cr_journal_rx := cr_journal_rx c @ [JournalFlush (hs_journal_id s)]\<rparr>"
    define c2 where "c2 = c1\<lparr>cr_timer_rx := cr_timer_rx c1 @ [TimerRemove slot]\<rparr>"
    have same: "slots_ok c1 = slots_ok c" "slots_ok c2 = slots_ok c" by (simp_all add: c1_def c2_def slots_ok_def)
    have eq: "(if \<not> flushed slot then ([], False, c1) else if \<not> retired slot then ([], False, c2)
        else case quiesce flushed retired slots c2 of (paused, ok, c3) \<Rightarrow> (slot # paused, ok, c3)) = (paused, ok, c')"
      using "2.prems" by (simp only: quiesce.simps Some option.case c1_def c2_def Let_def)
    show ?thesis
    proof (cases "flushed slot \<and> retired slot")
      case True
      then obtain p o' where "quiesce flushed retired slots c2 = (p, o', c')"
        using eq by (auto split: prod.splits)
      then show ?thesis using "2.IH"(2) [OF Some c1_def _ c2_def] True same by auto
    qed (use eq same in \<open>auto split: if_splits\<close>)
  qed
qed simp

lemma core_apply_slots_ok: "slots_ok c \<Longrightarrow> slots_ok (core_apply e c)"
proof (cases e)
  case (DrainControl ok stopped)
  assume inv: "slots_ok c"
  show ?thesis
  proof (cases "cr_control c")
    case (Cons msg rest)
    have "slots_ok (c\<lparr>cr_control := rest\<rparr>)" using inv by (simp add: slots_ok_def)
    then show ?thesis
      using DrainControl Cons
      by (cases msg) (auto simp: drain_control_def Let_def intro: register_slots_ok end_session_slots_ok)
  qed (use DrainControl inv in \<open>simp add: drain_control_def\<close>)
next
  case (CoreHandoff flushed retired committed)
  assume inv: "slots_ok c"
  obtain paused ok c1 where q: "quiesce flushed retired (occupied_slots c) c = (paused, ok, c1)" by (metis prod_cases3)
  show ?thesis
    using quiesce_ok [OF q] inv CoreHandoff q by (auto simp: core_handoff_def intro: fold_leave_ok fold_resume_ok)
qed (auto simp: host_session_def publish_output_def writer_turn_def timer_turn_def teardown_turn_def core_adopt_def Let_def
    intro: slots_ok_cong [THEN iffD1, rotated 2] register_slots_ok end_session_slots_ok
    split: option.splits list.splits teardown_phase.splits)

lemma core_run_slots_ok: "slots_ok (core_run evs core_new)"
proof -
  have "slots_ok c \<Longrightarrow> slots_ok (fold core_apply evs c)" for c
    by (induction evs arbitrary: c) (auto intro: core_apply_slots_ok)
  then show ?thesis by (simp add: core_run_def slots_ok_def core_new_def)
qed

text \<open>C24. The slots of the reactor stay consistent in every interleaving of the threads: the free list has exactly the vacant slots, each once, so that a
  new session, also an adopted one, is put into a slot no other session has, under the slot that \<open>adopt\<close> expects, and every other session keeps its slot.\<close>

theorem new_session_gets_vacant_slot:
  "let c = core_run evs core_new; slot = fst (core_adopt True s c); c' = snd (core_adopt True s c) in
     distinct (cr_free_slots c) \<and> (\<forall>i. i \<in> set (cr_free_slots c) \<longleftrightarrow> i < length (cr_sessions c) \<and> session_in c i = None) \<and>
     session_in c slot = None \<and> (\<forall>i. session_in c' i = (if i = slot then Some s else session_in c i))"
proof -
  define c where "c = core_run evs core_new"
  have ok: "slots_ok c" using core_run_slots_ok by (simp add: c_def)
  note v = next_slot_vacant [OF ok]
  have "session_in (core_register True s c) i = (if i = next_slot c then Some s else session_in c i)" for i
    using v(1) v(5) [of i] by (auto simp: core_register_def Let_def session_in_def)
  then show ?thesis
    unfolding Let_def c_def [symmetric] using ok v(4) by (auto simp: core_adopt_def slots_ok_def session_in_def)
qed

section \<open>Journals\<close>

text \<open>A journal that was sent \<open>H\<close> has taken a prefix of it; without an error the rest is pending.\<close>

definition journal_ok :: "string \<Rightarrow> journal_session \<Rightarrow> bool" where
  "journal_ok H js \<longleftrightarrow> (\<exists>rest. H = js_file js @ rest) \<and> (js_error js = None \<longrightarrow> H = js_file js @ js_pending js)"

lemma journal_flush_ok:
  assumes "journal_ok H js"
  shows "journal_ok H (journal_flush d js)" and "js_error (journal_flush d js) = None \<Longrightarrow> js_file (journal_flush d js) = H"
proof -
  have "\<exists>rest. js_pending js = take k (js_pending js) @ rest" for k using append_take_drop_id by metis
  then show "journal_ok H (journal_flush d js)"
    using assms by (cases d) (fastforce simp: journal_ok_def journal_flush_def Let_def)+
  show "js_error (journal_flush d js) = None \<Longrightarrow> js_file (journal_flush d js) = H"
    using assms by (cases d) (auto simp: journal_ok_def journal_flush_def Let_def split: if_splits)
qed

lemma journal_chunk_ok:
  assumes "journal_ok H js" shows "journal_ok (H @ data) (journal_chunk now d data js)"
proof (cases "js_error js")
  case None
  define js1 where "js1 = js\<lparr>js_first_pending_at := (if js_pending js = [] then Some now else js_first_pending_at js),
      js_pending := js_pending js @ data\<rparr>"
  have "journal_ok (H @ data) js1" using assms None by (simp add: journal_ok_def js1_def)
  moreover have "journal_chunk now d data js = (if length (js_pending js1) \<ge> JOURNAL_BATCH_MAX_BYTES then journal_flush d js1 else js1)"
    using None by (simp only: journal_chunk_def js1_def Let_def simp_thms if_False)
  ultimately show ?thesis using journal_flush_ok(1) by simp
next
  case (Some e)
  then show ?thesis using assms by (auto simp: journal_ok_def journal_chunk_def)
qed

text \<open>Turns of the writer, of all journals together.\<close>

type_synonym writer_input = "(millis \<times> (u64 \<Rightarrow> disk_write) \<times> journal_msg option) list"

definition journal_turns :: "writer_input \<Rightarrow> journal_writer \<Rightarrow> journal_writer" where
  "journal_turns turns w = fold (\<lambda>(now, disk, msg). journal_turn now disk msg) turns w"

fun sent_to :: "u64 \<Rightarrow> journal_msg option \<Rightarrow> string" where
  "sent_to i (Some (JournalChunk j data)) = (if j = i then data else [])"
| "sent_to i _ = []"

definition journal_sent :: "u64 \<Rightarrow> writer_input \<Rightarrow> string" where
  "journal_sent i turns = concat (map (\<lambda>(now, disk, msg). sent_to i msg) turns)"

text \<open>Ids are never used twice: nobody else opens the journal, and it is not closed yet.\<close>

definition stays_open :: "u64 \<Rightarrow> writer_input \<Rightarrow> bool" where
  "stays_open i turns \<longleftrightarrow> list_all (\<lambda>(now, disk, msg). msg \<noteq> Some (JournalOpen i) \<and> msg \<noteq> Some (JournalClose i)) turns"

lemma journal_message_ok:
  assumes "hm_get (jw_sessions w) i = Some js" and "journal_ok H js" and "msg \<noteq> JournalOpen i" and "msg \<noteq> JournalClose i"
  shows "\<exists>js'. hm_get (jw_sessions (journal_message now disk msg w)) i = Some js' \<and> journal_ok (H @ sent_to i (Some msg)) js'"
proof (cases msg)
  case (JournalChunk j data)
  then show ?thesis using assms journal_chunk_ok [OF assms(2)]
    by (cases "j = i") (auto simp: Let_def split: option.splits)
next
  case (JournalFlush j)
  then show ?thesis using assms journal_flush_ok(1) [OF assms(2)]
    by (cases "j = i") (auto simp: Let_def split: option.splits)
next
  case (JournalClose j)
  then have "hm_get (hm_remove j m) i = hm_get m i" for m :: "(u64, journal_session) hmap"
    using assms(4) by (induction m) (auto simp: hm_remove_def)
  then show ?thesis using assms JournalClose by (auto simp: Let_def split: option.splits)
qed (use assms in auto)

lemma journal_sweep_get:
  "hm_get (jw_sessions (journal_sweep now disk w)) i =
     map_option (\<lambda>js. if journal_due now js then journal_flush (disk i) js else js) (hm_get (jw_sessions w) i)"
proof -
  have "map_of (map (\<lambda>(i, js). (i, f i js)) m) i = map_option (f i) (map_of m i)"
    for f :: "u64 \<Rightarrow> journal_session \<Rightarrow> journal_session" and m
    by (induction m) auto
  then show ?thesis by (simp add: journal_sweep_def)
qed

lemma journal_turn_ok:
  assumes "hm_get (jw_sessions w) i = Some js" and "journal_ok H js"
    and "msg \<noteq> Some (JournalOpen i)" and "msg \<noteq> Some (JournalClose i)"
  shows "\<exists>js'. hm_get (jw_sessions (journal_turn now disk msg w)) i = Some js' \<and> journal_ok (H @ sent_to i msg) js'"
proof -
  have sweep: "\<exists>js'. hm_get (jw_sessions (journal_sweep now disk w1)) i = Some js' \<and> journal_ok H' js'"
    if "hm_get (jw_sessions w1) i = Some js1" "journal_ok H' js1" for w1 js1 H'
    using that journal_flush_ok(1) by (auto simp: journal_sweep_get)
  show ?thesis
  proof (cases msg)
    case None
    then show ?thesis using sweep [OF assms(1,2)] by (simp add: journal_turn_def)
  next
    case (Some m)
    show ?thesis
    proof (cases "unknown_journal m w")
      case True
      then show ?thesis using assms(1,2) Some by (cases m) (auto simp: journal_turn_def)
    next
      case False
      obtain js1 where "hm_get (jw_sessions (journal_message now disk m w)) i = Some js1" "journal_ok (H @ sent_to i (Some m)) js1"
        using journal_message_ok [OF assms(1,2), of m now disk] assms(3,4) Some by auto
      from sweep [OF this] show ?thesis using False Some by (simp add: journal_turn_def)
    qed
  qed
qed

lemma journal_turns_ok:
  "stays_open i turns \<Longrightarrow> hm_get (jw_sessions w) i = Some js \<Longrightarrow> journal_ok H js \<Longrightarrow>
     \<exists>js'. hm_get (jw_sessions (journal_turns turns w)) i = Some js' \<and> journal_ok (H @ journal_sent i turns) js'"
proof (induction turns arbitrary: w js H)
  case Nil
  then show ?case by (simp add: journal_turns_def journal_sent_def)
next
  case (Cons t turns)
  obtain now disk msg where t: "t = (now, disk, msg)" by (metis prod_cases3)
  obtain js1 where "hm_get (jw_sessions (journal_turn now disk msg w)) i = Some js1" "journal_ok (H @ sent_to i msg) js1"
    using journal_turn_ok [OF Cons.prems(2,3), of msg now disk] Cons.prems(1) t by (auto simp: stays_open_def)
  then show ?case
    using Cons.IH [of "journal_turn now disk msg w" js1 "H @ sent_to i msg"] Cons.prems(1) t
    by (simp add: journal_turns_def journal_sent_def stays_open_def)
qed

text \<open>C23. The journal of a session takes its output in order and completely: after any turns of the writer, with the messages of other sessions in
  between and any outcome of the writes, it has taken a prefix of what was sent; and when a close (which a session waits for before its exit is
  published) is answered without an error, the file has every byte that was sent before.\<close>

theorem closed_journal_complete:
  assumes "stays_open i turns" and "w' = journal_turns turns (journal_message t0 d0 (JournalOpen i) w)"
  shows "(\<exists>js rest. hm_get (jw_sessions w') i = Some js \<and> journal_sent i turns = js_file js @ rest) \<and>
    (\<exists>js result. jw_closed (journal_message now disk (JournalClose i) w') = jw_closed w' @ [(i, js)] \<and>
      jw_acks (journal_message now disk (JournalClose i) w') = jw_acks w' @ [(i, result)] \<and>
      (result = Inr () \<longrightarrow> js_file js = journal_sent i turns))"
proof -
  have "journal_ok [] journal_open" by (simp add: journal_ok_def journal_open_def)
  then obtain js where js: "hm_get (jw_sessions w') i = Some js" "journal_ok (journal_sent i turns) js"
    using journal_turns_ok [OF assms(1), of "journal_message t0 d0 (JournalOpen i) w" journal_open "[]"] assms(2) by auto
  have "journal_result (journal_flush (disk i) js) = Inr () \<Longrightarrow> js_file (journal_flush (disk i) js) = journal_sent i turns"
    using journal_flush_ok(2) [OF js(2)] by (auto simp: journal_result_def split: option.splits)
  then show ?thesis using js by (auto simp: journal_ok_def Let_def)
qed

theorem closed_journal_complete_witness:
  "let turns = [(0, \<lambda>_. DiskWrote, Some (JournalChunk 1 ''ab'')), (5, \<lambda>_. DiskWrote, Some (JournalChunk 2 ''x'')), (40, \<lambda>_. DiskWrote, None),
        (41, \<lambda>_. DiskWrote, Some (JournalChunk 1 ''c''))];
       w' = journal_turns turns (journal_message 0 (\<lambda>_. DiskWrote) (JournalOpen 1) (cr_writer core_new))
   in \<exists>js. jw_closed (journal_message 50 (\<lambda>_. DiskWrote) (JournalClose 1) w') = [(1, js)] \<and> js_file js = ''abc''"
proof -
  define turns :: writer_input where "turns = [(0, \<lambda>_. DiskWrote, Some (JournalChunk 1 ''ab'')), (5, \<lambda>_. DiskWrote, Some (JournalChunk 2 ''x'')),
      (40, \<lambda>_. DiskWrote, None), (41, \<lambda>_. DiskWrote, Some (JournalChunk 1 ''c''))]"
  define w' where "w' = journal_turns turns (journal_message 0 (\<lambda>_. DiskWrote) (JournalOpen 1) (cr_writer core_new))"
  have open': "stays_open 1 turns" by (simp add: stays_open_def turns_def)
  have acks: "jw_acks (journal_message 50 (\<lambda>_. DiskWrote) (JournalClose 1) w') = [(1, Inr ())]" "jw_acks w' = []" "jw_closed w' = []"
    by (simp_all add: w'_def turns_def journal_turns_def journal_turn_def journal_sweep_def journal_chunk_def journal_open_def
        journal_flush_def journal_due_def journal_result_def core_new_def JOURNAL_BATCH_MAX_BYTES_def JOURNAL_FLUSH_INTERVAL_def Let_def)
  have "journal_sent 1 turns = ''abc''" by (simp add: journal_sent_def turns_def)
  then show ?thesis
    using closed_journal_complete [OF open' w'_def, of 50 "\<lambda>_. DiskWrote"] acks
    unfolding Let_def turns_def [symmetric] w'_def [symmetric] by auto
qed

section \<open>Messages to a slot with a new owner\<close>

lemmas core_eval = core_run_def core_new_def host_session_def drain_control_def core_register_def next_slot_def take_slot_def
  publish_output_def end_session_def session_in_def writer_turn_def journal_turn_def journal_sweep_def journal_chunk_def journal_open_def
  journal_flush_def journal_due_def timer_turn_def teardown_turn_def hm_remove_def JOURNAL_BATCH_MAX_BYTES_def
  JOURNAL_FLUSH_INTERVAL_def Let_def

definition SESSION_A :: hosted_session where "SESSION_A = \<lparr>hs_id = 1, hs_journal_id = 1\<rparr>"
definition SESSION_B :: hosted_session where "SESSION_B = \<lparr>hs_id = 2, hs_journal_id = 2\<rparr>"

text \<open>The jobs once the timer thread has handled the messages that are on their way.\<close>

definition coming_jobs :: "core \<Rightarrow> (nat, u64 list) hmap" where
  "coming_jobs c = fold timer_message (cr_timer_rx c) (cr_timer_jobs c)"

text \<open>The teardown thread \<open>k\<close> retires the jobs of \<open>slot\<close>: once it has asked for it, none are left or on their way.\<close>

definition retiring :: "nat \<Rightarrow> nat \<Rightarrow> core \<Rightarrow> bool" where
  "retiring k slot c \<longleftrightarrow> k < length (cr_teardowns c) \<and> td_slot (cr_teardowns c ! k) = slot \<and>
     (td_phase (cr_teardowns c ! k) = TeardownDone \<longrightarrow> hm_get (coming_jobs c) slot = None)"

lemma hm_get_remove: "hm_get (hm_remove j m) i = (if i = j then None else hm_get m i)"
  by (induction m) (auto simp: hm_remove_def)

lemma retiring_cong:
  assumes "retiring k slot c" and "cr_timer_rx c' = cr_timer_rx c" and "cr_timer_jobs c' = cr_timer_jobs c"
    and "cr_teardowns c' = cr_teardowns c @ tds"
  shows "retiring k slot c'"
  using assms by (auto simp: retiring_def coming_jobs_def nth_append)

lemma timer_turn_retiring:
  assumes "retiring k slot c" shows "retiring k slot (timer_turn c)"
proof -
  have "coming_jobs (timer_turn c) = coming_jobs c" "cr_teardowns (timer_turn c) = cr_teardowns c"
    by (simp_all add: coming_jobs_def timer_turn_def split: list.splits)
  then show ?thesis using assms by (simp add: retiring_def)
qed

lemma teardown_turn_retiring:
  assumes "retiring k slot c" shows "retiring k slot (teardown_turn j c)"
proof (cases "j < length (cr_teardowns c)")
  case True
  show ?thesis
  proof (cases "td_phase (cr_teardowns c ! j)")
    case TeardownClose
    then show ?thesis using assms True by (cases "j = k") (simp_all add: teardown_turn_def retiring_def coming_jobs_def Let_def)
  next
    case TeardownTimers
    then show ?thesis using assms True
      by (cases "j = k") (simp_all add: teardown_turn_def retiring_def coming_jobs_def hm_get_remove Let_def)
  next
    case TeardownDone
    then show ?thesis using assms by (simp add: teardown_turn_def)
  qed
qed (use assms in \<open>simp add: teardown_turn_def\<close>)

lemma register_retiring:
  assumes "slots_ok c" and "retiring k slot c" and "session_in c slot \<noteq> None"
  shows "retiring k slot (core_register ok s c)"
proof -
  have "next_slot c \<noteq> slot" using next_slot_vacant(4) [OF assms(1)] assms(3) by auto
  moreover have "cr_timer_jobs (take_slot c) = cr_timer_jobs c" "cr_timer_rx (take_slot c) = cr_timer_rx c"
    "cr_teardowns (take_slot c) = cr_teardowns c"
    by (simp_all add: take_slot_def)
  ultimately show ?thesis using assms(2) by (auto simp: core_register_def retiring_def coming_jobs_def Let_def)
qed

lemma end_session_retiring:
  assumes "retiring k slot c" shows "retiring k slot (end_session i outcome c)"
proof (cases "session_in c i")
  case (Some s)
  then show ?thesis
    by (intro retiring_cong [OF assms, of _ "[\<lparr>td_session = s, td_slot = i, td_phase = TeardownClose\<rparr>]"]) (simp_all add: end_session_def)
qed (use assms in \<open>simp add: end_session_def\<close>)

lemma core_apply_retiring:
  assumes ok: "slots_ok c" and inv: "retiring k slot c" and stays: "session_in c slot \<noteq> None"
    and "\<And>flushed retired committed. e \<noteq> CoreHandoff flushed retired committed"
  shows "retiring k slot (core_apply e c)"
proof (cases e)
  case (DrainControl reg stopped)
  show ?thesis
  proof (cases "cr_control c")
    case (Cons msg rest)
    define c1 where "c1 = c\<lparr>cr_control := rest\<rparr>"
    have c1: "slots_ok c1" "retiring k slot c1" "session_in c1 slot \<noteq> None"
      using ok inv stays slots_ok_cong [of c1 c] retiring_cong [OF inv, of c1 "[]"]
      by (simp_all add: c1_def session_in_def split: if_splits)
    show ?thesis using DrainControl Cons register_retiring [OF c1] end_session_retiring [OF c1(2)] c1(2)
      by (cases msg) (simp_all add: drain_control_def c1_def [symmetric] Let_def)
  qed (use DrainControl inv in \<open>simp add: drain_control_def\<close>)
next
  case (AdoptSession reg s)
  then show ?thesis using register_retiring [OF ok inv stays] by (simp add: core_adopt_def)
next
  case (WriterTurn now disk)
  then show ?thesis using retiring_cong [OF inv, of "writer_turn now disk c" "[]"] by (simp add: writer_turn_def Let_def)
qed (use assms timer_turn_retiring teardown_turn_retiring end_session_retiring retiring_cong [OF inv, of _ "[]"] in
    \<open>auto simp: host_session_def publish_output_def split: option.splits\<close>)

text \<open>C38. The teardown of a session takes the timer jobs of its successor: the slot is free as soon as the session ends, while its teardown thread still
  has to retire the jobs of that slot. Take any state of the core in which a session is hosted in a slot whose last owner's teardown thread has not
  finished, and any interleaving of the threads in which that session stays in its slot and no hand-over is attempted: once the
  teardown thread has finished and the timer thread has handled its messages, the session that is running there has no jobs (heartbeat,
  cancellation marker, observation of the program) any more.\<close>

theorem teardown_removes_new_jobs:
  assumes "c = core_run evs core_new" and "session_in c slot = Some s"
    and "k < length (cr_teardowns c)" and "td_slot (cr_teardowns c ! k) = slot" and "td_phase (cr_teardowns c ! k) \<noteq> TeardownDone"
    and "\<forall>n \<le> length later. session_in (core_run (take n later) c) slot = Some s"
    and "\<forall>flushed retired committed. CoreHandoff flushed retired committed \<notin> set later"
    and "c' = core_run later c" and "td_phase (cr_teardowns c' ! k) = TeardownDone" and "cr_timer_rx c' = []"
  shows "session_in c' slot = Some s \<and> hm_get (cr_timer_jobs c') slot = None"
proof -
  have run: "core_run (xs @ [e]) c = core_apply e (core_run xs c)" for xs e by (simp add: core_run_def)
  have "slots_ok (core_run (take n later) c) \<and> retiring k slot (core_run (take n later) c)" if "n \<le> length later" for n
    using that
  proof (induction n)
    case 0
    then show ?case using assms(1,3-5) core_run_slots_ok by (simp add: core_run_def retiring_def)
  next
    case (Suc n)
    then have n: "n < length later" by simp
    have "later ! n \<noteq> CoreHandoff flushed retired committed" for flushed retired committed
      using assms(7) nth_mem [OF n] by metis
    moreover have "session_in (core_run (take n later) c) slot \<noteq> None" using assms(6) n by simp
    ultimately show ?case
      using core_apply_retiring core_apply_slots_ok Suc n by (simp add: take_Suc_conv_app_nth run)
  qed
  from this [of "length later"] have "retiring k slot c'" by (simp add: assms(8))
  then have "hm_get (coming_jobs c') slot = None" using assms(9) by (simp add: retiring_def)
  moreover have "session_in c' slot = Some s" using assms(6) by (auto simp: assms(8))
  ultimately show ?thesis using assms(10) by (simp add: coming_jobs_def)
qed

theorem teardown_removes_new_jobs_witness:
  "let c = core_run [HostSession SESSION_A, DrainControl True False, TimerTurn, SessionEof 0, HostSession SESSION_B, DrainControl True False] core_new;
       c' = core_run [TimerTurn, TeardownTurn 0, TeardownTurn 0, TimerTurn] c
   in session_in c' 0 = Some SESSION_B \<and> hm_get (cr_timer_jobs c') 0 = None \<and> cr_ended c' = [(hs_id SESSION_A, Inr ())]"
proof -
  define evs where "evs = [HostSession SESSION_A, DrainControl True False, TimerTurn, SessionEof 0, HostSession SESSION_B, DrainControl True False]"
  define later where "later = [TimerTurn, TeardownTurn 0, TeardownTurn 0, TimerTurn]"
  define c where "c = core_run evs core_new"
  define c' where "c' = core_run later c"
  note eval = c_def evs_def core_eval SESSION_A_def SESSION_B_def
  have facts: "session_in c 0 = Some SESSION_B" "0 < length (cr_teardowns c)" "td_slot (cr_teardowns c ! 0) = 0"
    "td_phase (cr_teardowns c ! 0) \<noteq> TeardownDone"
    by (simp_all add: eval)
  have "\<forall>n \<in> {0, 1, 2, 3, 4}. session_in (core_run (take n later) c) 0 = Some SESSION_B"
    by (simp add: later_def eval)
  moreover have "n \<le> length later \<Longrightarrow> n \<in> {0, 1, 2, 3, 4}" for n by (auto simp: later_def)
  ultimately have stays: "\<forall>n \<le> length later. session_in (core_run (take n later) c) 0 = Some SESSION_B" by blast
  have fin: "td_phase (cr_teardowns c' ! 0) = TeardownDone" "cr_timer_rx c' = []" "cr_ended c' = [(hs_id SESSION_A, Inr ())]"
    by (simp_all add: c'_def later_def eval)
  have "\<forall>flushed retired committed. CoreHandoff flushed retired committed \<notin> set later" by (simp add: later_def)
  from teardown_removes_new_jobs [OF c_def facts stays this c'_def fin(1,2)] fin(3)
  show ?thesis by (simp add: Let_def c'_def later_def c_def evs_def)
qed

text \<open>A failed journal can end the wrong session: the failure names a slot, and when the session of that journal has ended and the slot has
  a new owner before the message is handled, the new session is ended, although its own journal has no error.\<close>

lemma journal_failure_ends_new_session:
  "let disk = (\<lambda>i. if i = hs_journal_id SESSION_A then DiskFailed 0 ''disk full'' else DiskWrote);
       c = core_run [HostSession SESSION_A, DrainControl True False, SessionOutput 0 ''x'', SessionEof 0, HostSession SESSION_B,
        WriterTurn 0 disk, WriterTurn 0 disk, WriterTurn 40 disk, DrainControl True False, DrainControl True False] core_new
   in cr_ended c = [(hs_id SESSION_A, Inr ()), (hs_id SESSION_B, Inl (''Failed to write output log: '' @ ''disk full''))] \<and>
      map_option js_error (hm_get (jw_sessions (cr_writer c)) (hs_journal_id SESSION_B)) = Some None"
  by (simp add: core_eval SESSION_A_def SESSION_B_def)

text \<open>A hand-over that is abandoned because the timer thread did not answer in time leaves the session without its jobs: the request to
  retire them is still served, and only the slots that had been retired before get their jobs back.\<close>

lemma abandoned_handoff_loses_jobs:
  "let c = core_run [HostSession SESSION_A, DrainControl True False, TimerTurn, CoreHandoff (\<lambda>_. True) (\<lambda>_. False) False, TimerTurn] core_new
   in session_in c 0 = Some SESSION_A \<and> hm_get (cr_timer_jobs c) 0 = None \<and> cr_timer_rx c = []"
  by (simp add: core_eval core_handoff_def occupied_slots_def SESSION_A_def)

end
