(* ===== verification/Sha256.thy ===== *)
theory Sha256
  imports Bytes "HOL-Library.Word"
begin

text \<open>
  The SHA-256 of \<open>crates/unpeel-serve/src/mobile.rs\<close>, which hashes bearer tokens before they are
  compared with the paired devices. Words are \<open>32 word\<close>, so that \<open>wrapping_add\<close> is \<open>+\<close>. The local array
  \<open>w\<close> is filled from the left, so it is a list that grows. The length of a token in bits is taken to
  fit \<open>u64\<close>.
\<close>

section \<open>Padding\<close>

text \<open>The loop that pushes zeros until 56 bytes of the last block are used.\<close>

function pad_zeros :: "string \<Rightarrow> string" where
  "pad_zeros message = (if length message mod 64 \<noteq> 56 then pad_zeros (message @ [CHR 0x00]) else message)"
  by pat_completeness auto
termination
proof (relation "measure (\<lambda>m. (120 - length m mod 64) mod 64)", goal_cases)
  case (2 m)
  define r where "r = length m mod 64"
  have "length (m @ [CHR 0x00]) mod 64 = (r + 1) mod 64" by (simp add: r_def mod_Suc_eq)
  moreover have "r < 64" "r \<noteq> 56" using 2 by (simp_all add: r_def)
  moreover from this have "(120 - (r + 1) mod 64) mod 64 < (120 - r) mod 64"
    by (cases "r < 56"; cases "r = 63") (auto simp: mod_if)
  ultimately show ?case by (simp add: r_def)
qed simp

declare pad_zeros.simps [simp del]

definition pad_message :: "string \<Rightarrow> string" where
  "pad_message bytes = pad_zeros (bytes @ [CHR 0x80]) @ be64 (length bytes * 8)"

section \<open>Compression\<close>

text \<open>The round constants and the initial hash value of the source, in decimal.\<close>

definition sha_K :: "32 word list" where
  "sha_K = [1116352408, 1899447441, 3049323471, 3921009573, 961987163, 1508970993, 2453635748,
   2870763221, 3624381080, 310598401, 607225278, 1426881987, 1925078388, 2162078206,
   2614888103, 3248222580, 3835390401, 4022224774, 264347078, 604807628, 770255983,
   1249150122, 1555081692, 1996064986, 2554220882, 2821834349, 2952996808, 3210313671,
   3336571891, 3584528711, 113926993, 338241895, 666307205, 773529912, 1294757372,
   1396182291, 1695183700, 1986661051, 2177026350, 2456956037, 2730485921, 2820302411,
   3259730800, 3345764771, 3516065817, 3600352804, 4094571909, 275423344, 430227734,
   506948616, 659060556, 883997877, 958139571, 1322822218, 1537002063, 1747873779,
   1955562222, 2024104815, 2227730452, 2361852424, 2428436474, 2756734187, 3204031479,
   3329325298]"

definition sha_H :: "32 word list" where
  "sha_H = [1779033703, 3144134277, 1013904242, 2773480762, 1359893119, 2600822924, 528734635, 1541459225]"

text \<open>\<open>chunks(n)\<close> of a slice, for \<open>n > 0\<close>.\<close>

function chunks :: "nat \<Rightarrow> 'a list \<Rightarrow> 'a list list" where
  "chunks n xs = (if n = 0 \<or> xs = [] then [] else take n xs # chunks n (drop n xs))"
  by pat_completeness auto
termination by (relation "measure (\<lambda>(_, xs). length xs)") auto

declare chunks.simps [simp del]

text \<open>\<open>u32::from_be_bytes\<close>\<close>

definition be_word :: "string \<Rightarrow> 32 word" where
  "be_word chunk = foldl (\<lambda>a c. push_bit 8 a OR word_of_nat (byte_val c)) 0 chunk"

definition block_words :: "string \<Rightarrow> 32 word list" where
  "block_words block = map be_word (chunks 4 block)"

definition schedule_word :: "32 word list \<Rightarrow> nat \<Rightarrow> 32 word" where
  "schedule_word w i =
     (let s0 = word_rotr 7 (w ! (i - 15)) XOR word_rotr 18 (w ! (i - 15)) XOR drop_bit 3 (w ! (i - 15));
          s1 = word_rotr 17 (w ! (i - 2)) XOR word_rotr 19 (w ! (i - 2)) XOR drop_bit 10 (w ! (i - 2))
      in w ! (i - 16) + s0 + w ! (i - 7) + s1)"

definition schedule :: "string \<Rightarrow> 32 word list" where
  "schedule block = fold (\<lambda>i w. w @ [schedule_word w i]) [16..<64] (block_words block)"

type_synonym sha_state = "32 word \<times> 32 word \<times> 32 word \<times> 32 word \<times> 32 word \<times> 32 word \<times> 32 word \<times> 32 word"

definition sha_round :: "32 word \<Rightarrow> 32 word \<Rightarrow> sha_state \<Rightarrow> sha_state" where
  "sha_round k w s =
     (case s of (a, b, c, d, e, f, g, hh) \<Rightarrow>
        let s1 = word_rotr 6 e XOR word_rotr 11 e XOR word_rotr 25 e;
            ch = (e AND f) XOR (NOT e AND g);
            t1 = hh + s1 + ch + k + w;
            s0 = word_rotr 2 a XOR word_rotr 13 a XOR word_rotr 22 a;
            maj = (a AND b) XOR (a AND c) XOR (b AND c);
            t2 = s0 + maj
        in (t1 + t2, a, b, c, d + t1, e, f, g))"

fun state_words :: "sha_state \<Rightarrow> 32 word list" where
  "state_words (a, b, c, d, e, f, g, hh) = [a, b, c, d, e, f, g, hh]"

definition words_state :: "32 word list \<Rightarrow> sha_state" where
  "words_state h = (h ! 0, h ! 1, h ! 2, h ! 3, h ! 4, h ! 5, h ! 6, h ! 7)"

definition sha_block :: "string \<Rightarrow> 32 word list \<Rightarrow> 32 word list" where
  "sha_block block h =
     map2 (+) h (state_words (fold (\<lambda>(k, w). sha_round k w) (zip sha_K (schedule block)) (words_state h)))"

section \<open>The digest\<close>

definition lower_hex :: "nat \<Rightarrow> byte" where
  "lower_hex n = (if n < 10 then char_of (48 + n) else char_of (87 + n))"

text \<open>\<open>{v:08x}\<close>\<close>

definition hex8 :: "32 word \<Rightarrow> string" where
  "hex8 v = map (\<lambda>i. lower_hex (unat (drop_bit (4 * i) v AND 15))) [7, 6, 5, 4, 3, 2, 1, 0]"

definition sha256_words :: "string \<Rightarrow> 32 word list" where
  "sha256_words token = fold sha_block (chunks 64 (pad_message token)) sha_H"

definition sha256_hex :: "string \<Rightarrow> string" where
  "sha256_hex token = concat (map hex8 (sha256_words token))"

end
