(* ===== verification/Mobile_Auth.thy ===== *)
theory Mobile_Auth
  imports Sha256 Relay_Wire
begin

text \<open>
  Bearer authentication of \<open>crates/unpeel-serve/src/mobile.rs\<close>, shared by the LAN listener and the
  Relay: the token of an \<open>Authorization\<close> header, the paired device it belongs to, the plaintext gate,
  and the headers that the Relay builds for a tunnelled request (\<open>relay.rs\<close>). The parsed
  \<open>devices.json\<close> and the outcome of reading the Host id are parameters; \<open>None\<close> stands for a file that
  cannot be read or parsed. Strings are UTF-8, so a prefix of six ASCII bytes ends at a character.
\<close>

section \<open>Requests\<close>

record http_request =
  hr_request_id :: "string option"
  hr_method :: string
  hr_path :: string
  hr_query :: "(string, string) hmap"
  hr_headers :: "(string, string) hmap"
  hr_body :: string
  hr_keep_alive :: bool

definition eq_ignore_ascii_case :: "string \<Rightarrow> string \<Rightarrow> bool" where
  "eq_ignore_ascii_case a b \<longleftrightarrow> map to_ascii_lower a = map to_ascii_lower b"

definition leading_ws :: "string \<Rightarrow> bool" where
  "leading_ws s \<longleftrightarrow> 0 < ws_len (map byte_val s)"

definition has_bearer_scheme :: "string \<Rightarrow> bool" where
  "has_bearer_scheme auth \<longleftrightarrow> 6 \<le> length auth \<and> eq_ignore_ascii_case (take 6 auth) ''bearer''
     \<and> leading_ws (drop 6 auth)"

definition auth_header :: "string \<Rightarrow> string" where
  "auth_header auth = (let a = trim auth in if has_bearer_scheme a then a else ''Bearer '' @ a)"

definition request_headers :: "tunnel_request \<Rightarrow> (string, string) hmap" where
  "request_headers tunneled =
     (let headers = (case rq_auth tunneled of None \<Rightarrow> [] | Some auth \<Rightarrow> hm_put ''authorization'' (auth_header auth) [])
      in case rq_content_type tunneled of
           None \<Rightarrow> headers
         | Some c \<Rightarrow> if trim c = [] then headers else hm_put ''content-type'' (trim c) headers)"

section \<open>Paired devices\<close>

definition bearer_token :: "string \<Rightarrow> string option" where
  "bearer_token header =
     Option.bind (split_once (CHR '' '') (trim header)) (\<lambda>(scheme, token).
       if \<not> eq_ignore_ascii_case scheme ''bearer'' then None
       else if trim token = [] then None else Some (trim token))"

datatype controller_principal =
    PairedDevice string string "string option"
  | OwnerTransport string "string option" "string option"

definition host_owner_principal_id :: "string \<Rightarrow> string" where
  "host_owner_principal_id host_id = ''host-owner:'' @ host_id"

text \<open>\<open>Iterator::find_map\<close>\<close>

fun find_map :: "('a \<Rightarrow> 'b option) \<Rightarrow> 'a list \<Rightarrow> 'b option" where
  "find_map f [] = None"
| "find_map f (x # xs) = (case f x of Some y \<Rightarrow> Some y | None \<Rightarrow> find_map f xs)"

definition devices_of :: "json option \<Rightarrow> json list option" where
  "devices_of store = Option.bind store (\<lambda>v. Option.bind (jget ''devices'' v) as_array)"

definition device_principal :: "string \<Rightarrow> string \<Rightarrow> json \<Rightarrow> controller_principal option" where
  "device_principal hash owner device =
     (if jget_str ''tokenHash'' device \<noteq> Some hash then None
      else Option.bind (jget_str ''id'' device) (\<lambda>device_id.
        Some (PairedDevice device_id
          (case jget_str ''name'' device of Some n \<Rightarrow> n | None \<Rightarrow> ''device'')
          (Some (case jget_str ''principalID'' device of
                   Some p \<Rightarrow> if trim p \<noteq> [] then p else owner
                 | None \<Rightarrow> owner)))))"

text \<open>The stamp of the last use that \<open>touch_device_last_seen\<close> writes is best effort and throttled; it
  is not part of the result.\<close>

definition principal_for_bearer ::
    "string + string \<Rightarrow> json option \<Rightarrow> (string, string) hmap \<Rightarrow> controller_principal option" where
  "principal_for_bearer host_id store headers =
     Option.bind (hm_get headers ''authorization'') (\<lambda>header.
     Option.bind (bearer_token header) (\<lambda>token.
       let hash = sha256_hex token in
       case host_id of
         Inl _ \<Rightarrow> None
       | Inr h \<Rightarrow> Option.bind (devices_of store)
           (find_map (device_principal hash (host_owner_principal_id h)))))"

section \<open>The plaintext gate\<close>

datatype transport = Tls | Plaintext

definition transport_for_first_byte :: "byte \<Rightarrow> transport" where
  "transport_for_first_byte first = (if first = CHR 0x16 then Tls else Plaintext)"

definition upgrade_required_json :: json where
  "upgrade_required_json = jobj [(''error'', JStr ''use https''),
     (''detail'', JStr (''the direct /mobile endpoint serves TLS with the Host certificate; ''
        @ ''a bearer token is never accepted over plaintext''))]"

definition plaintext_credential_rejection ::
    "(json \<Rightarrow> string) \<Rightarrow> transport \<Rightarrow> http_request \<Rightarrow> (u16 \<times> string) option" where
  "plaintext_credential_rejection to_string transport request =
     (if transport = Tls \<or> hm_get (hr_headers request) ''authorization'' = None then None
      else Some (426, to_string upgrade_required_json))"

end
