(* ===== verification/Mobile_Server.thy ===== *)
theory Mobile_Server
  imports Mobile_Auth Direct_Path
begin

text \<open>
  The listener of \<open>crates/unpeel-serve/src/mobile.rs\<close>: the ledger of admitted connections with its
  caps and its deadline for authentication, and the request loop of one connection. Instants are
  milliseconds. The authenticated flag that a worker shares with the ledger is a field of the slot.
  Reading a request, the pairing exchange and the authenticated handler are parameters of the loop; the
  state \<open>'w\<close> is what they change.
\<close>

section \<open>The connection ledger\<close>

definition PRE_AUTH_DEADLINE :: nat where "PRE_AUTH_DEADLINE = 5000"
definition MAX_CONNECTIONS :: nat where "MAX_CONNECTIONS = 64"
definition MAX_CONNECTIONS_PER_PEER :: nat where "MAX_CONNECTIONS_PER_PEER = 16"
definition LEDGER_SWEEP_INTERVAL :: nat where "LEDGER_SWEEP_INTERVAL = 100"

record connection_slot =
  sl_peer :: ip_addr
  sl_accepted_at :: nat
  sl_authenticated :: bool
  sl_expired :: bool

record connection_ledger =
  cl_max_total :: nat
  cl_max_per_peer :: nat
  cl_pre_auth_deadline :: nat
  cl_slots :: "(u64, connection_slot) hmap"
  cl_per_peer :: "(ip_addr, nat) hmap"
  cl_last_sweep :: nat

definition ledger_new :: "nat \<Rightarrow> nat \<Rightarrow> nat \<Rightarrow> nat \<Rightarrow> connection_ledger" where
  "ledger_new max_total max_per_peer deadline now =
     \<lparr>cl_max_total = max_total, cl_max_per_peer = max_per_peer, cl_pre_auth_deadline = deadline,
      cl_slots = [], cl_per_peer = [], cl_last_sweep = now\<rparr>"

definition ledger_with_defaults :: "nat \<Rightarrow> connection_ledger" where
  "ledger_with_defaults now = ledger_new MAX_CONNECTIONS MAX_CONNECTIONS_PER_PEER PRE_AUTH_DEADLINE now"

definition peer_count :: "connection_ledger \<Rightarrow> ip_addr \<Rightarrow> nat" where
  "peer_count l peer = (case hm_get (cl_per_peer l) peer of Some n \<Rightarrow> n | None \<Rightarrow> 0)"

text \<open>The result says whether the connection is admitted.\<close>

definition admit :: "u64 \<Rightarrow> ip_addr \<Rightarrow> nat \<Rightarrow> connection_ledger \<Rightarrow> bool \<times> connection_ledger" where
  "admit i peer now l =
     (if length (cl_slots l) \<ge> cl_max_total l \<or> peer_count l peer \<ge> cl_max_per_peer l then (False, l)
      else (True,
        l\<lparr>cl_slots := hm_put i \<lparr>sl_peer = peer, sl_accepted_at = now, sl_authenticated = False, sl_expired = False\<rparr>
            (cl_slots l),
          cl_per_peer := hm_put peer (peer_count l peer + 1) (cl_per_peer l)\<rparr>))"

definition release :: "u64 \<Rightarrow> connection_ledger \<Rightarrow> connection_ledger" where
  "release i l =
     (case hm_get (cl_slots l) i of
        None \<Rightarrow> l
      | Some slot \<Rightarrow>
          l\<lparr>cl_slots := hm_remove i (cl_slots l),
            cl_per_peer := (case hm_get (cl_per_peer l) (sl_peer slot) of
               None \<Rightarrow> cl_per_peer l
             | Some n \<Rightarrow> if n - 1 = 0 then hm_remove (sl_peer slot) (cl_per_peer l)
                         else hm_put (sl_peer slot) (n - 1) (cl_per_peer l))\<rparr>)"

definition slot_due :: "nat \<Rightarrow> nat \<Rightarrow> connection_slot \<Rightarrow> bool" where
  "slot_due deadline now slot \<longleftrightarrow> \<not> sl_expired slot \<and> \<not> sl_authenticated slot \<and> now - sl_accepted_at slot \<ge> deadline"

definition expired :: "nat \<Rightarrow> connection_ledger \<Rightarrow> u64 list \<times> connection_ledger" where
  "expired now l =
     (if now - cl_last_sweep l < LEDGER_SWEEP_INTERVAL then ([], l)
      else
        (map fst (filter (\<lambda>(_, slot). slot_due (cl_pre_auth_deadline l) now slot) (cl_slots l)),
         l\<lparr>cl_last_sweep := now,
           cl_slots := hm_map_values
             (\<lambda>slot. if slot_due (cl_pre_auth_deadline l) now slot then slot\<lparr>sl_expired := True\<rparr> else slot)
             (cl_slots l)\<rparr>))"

text \<open>The worker of connection \<open>i\<close> stores its flag.\<close>

definition mark_authenticated :: "u64 \<Rightarrow> connection_ledger \<Rightarrow> connection_ledger" where
  "mark_authenticated i l =
     (case hm_get (cl_slots l) i of
        None \<Rightarrow> l
      | Some slot \<Rightarrow> l\<lparr>cl_slots := hm_put i (slot\<lparr>sl_authenticated := True\<rparr>) (cl_slots l)\<rparr>)"

section \<open>One connection\<close>

definition error_body :: "(json \<Rightarrow> string) \<Rightarrow> string \<Rightarrow> string" where
  "error_body to_string message = to_string (jobj [(''error'', JStr message)])"

text \<open>A response as it is written: status, extra headers, body, keep-alive.\<close>

record http_response =
  ht_status :: u16
  ht_extra :: string
  ht_body :: string
  ht_keep_alive :: bool

definition respond :: "u16 \<Rightarrow> string \<Rightarrow> bool \<Rightarrow> http_response" where
  "respond status body keep = \<lparr>ht_status = status, ht_extra = [], ht_body = body, ht_keep_alive = keep\<rparr>"

definition CRLF :: string where "CRLF = [CHR 0x0D, CHR 0x0A]"

definition respond_upgrade_required :: "string \<Rightarrow> http_response" where
  "respond_upgrade_required body =
     \<lparr>ht_status = 426, ht_extra = ''Upgrade: TLS/1.3, HTTP/1.1'' @ CRLF, ht_body = body, ht_keep_alive = False\<rparr>"

text \<open>What one iteration observes: the shutdown flag, the outcome of reading a request, the Host id
  and the paired devices as read for the authentication, and whether the response was written.\<close>

record iteration =
  it_shutdown :: bool
  it_request :: "http_request option"
  it_host_id :: "string + string"
  it_devices :: "json option"
  it_sent :: bool

record 'w server =
  sv_to_string :: "json \<Rightarrow> string"
  sv_pair :: "string \<Rightarrow> 'w \<Rightarrow> (u16 \<times> string) \<times> 'w"
  sv_finish :: "bool \<Rightarrow> 'w \<Rightarrow> 'w"
  sv_handle :: "http_request \<Rightarrow> controller_principal \<Rightarrow> 'w \<Rightarrow> (u16 \<times> string) \<times> 'w"

text \<open>The worker's state: whether it has stored the authenticated flag, the responses written so far,
  and the shared state.\<close>

record 'w worker =
  wk_authenticated :: bool
  wk_responses :: "http_response list"
  wk_world :: 'w

definition reply :: "http_response \<Rightarrow> 'w worker \<Rightarrow> 'w worker" where
  "reply r w = w\<lparr>wk_responses := wk_responses w @ [r]\<rparr>"

definition serve_pair :: "'w server \<Rightarrow> bool \<Rightarrow> http_request \<Rightarrow> 'w worker \<Rightarrow> 'w worker" where
  "serve_pair sv sent request w =
     (if hr_method request \<noteq> ''POST'' then
        reply (respond 405 (error_body (sv_to_string sv) ''method not allowed'') False) w
      else
        let ((status, body), world) = sv_pair sv (hr_body request) (wk_world w);
            world = (if status = 200 then sv_finish sv sent world else world)
        in reply (respond status body False) (w\<lparr>wk_world := world\<rparr>))"

definition serve_authenticated ::
    "'w server \<Rightarrow> iteration \<Rightarrow> http_request \<Rightarrow> 'w worker \<Rightarrow> 'w worker" where
  "serve_authenticated sv it request w =
     (case principal_for_bearer (it_host_id it) (it_devices it) (hr_headers request) of
        None \<Rightarrow> reply (respond 401 (error_body (sv_to_string sv) ''unauthorized'') (hr_keep_alive request)) w
      | Some p \<Rightarrow>
          let ((status, body), world) = sv_handle sv request p (wk_world w)
          in reply (respond status body (hr_keep_alive request)) (w\<lparr>wk_authenticated := True, wk_world := world\<rparr>))"

text \<open>One request: the new state, and whether the loop goes on.\<close>

definition serve_request ::
    "'w server \<Rightarrow> transport \<Rightarrow> iteration \<Rightarrow> http_request \<Rightarrow> 'w worker \<Rightarrow> bool \<times> 'w worker" where
  "serve_request sv transport it request w =
     (let keep = hr_keep_alive request; err = error_body (sv_to_string sv) in
      case plaintext_credential_rejection (sv_to_string sv) transport request of
        Some (_, body) \<Rightarrow> (False, reply (respond_upgrade_required body) w)
      | None \<Rightarrow>
          if \<not> starts_with ''/mobile/'' (hr_path request) then (keep, reply (respond 404 (err ''not found'') keep) w)
          else if hr_path request = ''/mobile/pair'' then (False, serve_pair sv (it_sent it) request w)
          else if hr_method request \<noteq> ''GET'' \<and> hr_method request \<noteq> ''POST'' then
            (keep, reply (respond 405 (err ''method not allowed'') keep) w)
          else (keep, serve_authenticated sv it request w))"

text \<open>The loop runs at most 1000 times; a script that ends is a read that has not returned yet.\<close>

fun connection_loop :: "nat \<Rightarrow> 'w server \<Rightarrow> transport \<Rightarrow> iteration list \<Rightarrow> 'w worker \<Rightarrow> 'w worker" where
  "connection_loop 0 sv transport its w = w"
| "connection_loop (Suc n) sv transport [] w = w"
| "connection_loop (Suc n) sv transport (it # its) w =
     (if it_shutdown it then w
      else case it_request it of
        None \<Rightarrow> w
      | Some request \<Rightarrow>
          let (go_on, w') = serve_request sv transport it request w
          in if go_on then connection_loop n sv transport its w' else w')"

text \<open>\<open>first\<close> is the byte that decides the transport, absent when the connection
  closed before it or no TLS session could be set up.\<close>

definition handle_connection :: "'w server \<Rightarrow> byte option \<Rightarrow> iteration list \<Rightarrow> 'w \<Rightarrow> 'w worker" where
  "handle_connection sv first its world =
     (let w = \<lparr>wk_authenticated = False, wk_responses = [], wk_world = world\<rparr>
      in case first of
           None \<Rightarrow> w
         | Some b \<Rightarrow> connection_loop 1000 sv (transport_for_first_byte b) its w)"

end
