(* ===== verification/Mobile_Server_Props.thy ===== *)
theory Mobile_Server_Props
  imports Mobile_Server
begin

text \<open>
  The caps of the connection ledger hold in every reachable state, slow connections are cut once, and
  a plaintext connection never reaches the authenticated handler.
\<close>

section \<open>Counting\<close>

definition from_peer :: "ip_addr \<Rightarrow> (u64, connection_slot) hmap \<Rightarrow> nat" where
  "from_peer p slots = length (filter (\<lambda>(_, s). sl_peer s = p) slots)"

definition ledger_inv :: "connection_ledger \<Rightarrow> bool" where
  "ledger_inv l \<longleftrightarrow> hm_wf (cl_slots l) \<and> hm_wf (cl_per_peer l)
     \<and> (\<forall>p. hm_get (cl_per_peer l) p = (let n = from_peer p (cl_slots l) in if n = 0 then None else Some n))
     \<and> (\<forall>p. from_peer p (cl_slots l) \<le> cl_max_per_peer l) \<and> length (cl_slots l) \<le> cl_max_total l"

text \<open>Connection ids come from a counter, so an admitted id is new.\<close>

inductive ledger_reachable :: "connection_ledger \<Rightarrow> bool" where
  start: "ledger_reachable (ledger_new max_total max_per_peer deadline now)"
| step_admit: "ledger_reachable l \<Longrightarrow> hm_get (cl_slots l) i = None \<Longrightarrow> ledger_reachable (snd (admit i peer now l))"
| step_release: "ledger_reachable l \<Longrightarrow> ledger_reachable (release i l)"
| step_expired: "ledger_reachable l \<Longrightarrow> ledger_reachable (snd (expired now l))"
| step_authenticated: "ledger_reachable l \<Longrightarrow> ledger_reachable (mark_authenticated i l)"

lemma length_hm_put_old: "hm_get m k = Some v' \<Longrightarrow> length (hm_put k v m) = length m"
  by (induction m) (auto split: if_splits)

lemma from_peer_put_same:
  "hm_wf m \<Longrightarrow> hm_get m i = Some s \<Longrightarrow> sl_peer s' = sl_peer s \<Longrightarrow> from_peer p (hm_put i s' m) = from_peer p m"
  by (induction m) (auto simp: from_peer_def hm_wf_def)

lemma from_peer_remove:
  "hm_wf m \<Longrightarrow> hm_get m i = Some s
    \<Longrightarrow> from_peer p (hm_remove i m) = from_peer p m - (if p = sl_peer s then 1 else 0)
      \<and> (p = sl_peer s \<longrightarrow> 0 < from_peer p m)"
proof (induction m)
  case (Cons kv m)
  obtain k v where [simp]: "kv = (k, v)" by (cases kv)
  have id: "hm_remove i m = m" if "i \<notin> fst ` set m"
    using that by (force simp: hm_remove_def intro!: filter_True)
  show ?case
    using Cons by (cases "k = i") (auto simp: from_peer_def hm_remove_def hm_wf_def id [unfolded hm_remove_def])
qed simp

lemma from_peer_map_values: "(\<And>s. sl_peer (f s) = sl_peer s) \<Longrightarrow> from_peer p (hm_map_values f m) = from_peer p m"
  by (induction m) (auto simp: from_peer_def hm_map_values_def)

lemma admit_inv:
  assumes "ledger_inv l" and "hm_get (cl_slots l) i = None"
  shows "ledger_inv (snd (admit i peer now l))"
proof (cases "length (cl_slots l) \<ge> cl_max_total l \<or> peer_count l peer \<ge> cl_max_per_peer l")
  case False
  have "peer_count l peer = from_peer peer (cl_slots l)"
    using assms(1) by (simp add: ledger_inv_def peer_count_def Let_def)
  with False assms show ?thesis
    by (auto simp: ledger_inv_def admit_def hm_put_new from_peer_def hm_wf_put hm_wf_def Let_def
        map_of_eq_None_iff distinct_update split: if_splits)
qed (use assms in \<open>auto simp: admit_def\<close>)

lemma release_inv:
  assumes "ledger_inv l"
  shows "ledger_inv (release i l)"
proof (cases "hm_get (cl_slots l) i")
  case (Some s)
  let ?p = "sl_peer s"
  from assms have wf: "hm_wf (cl_slots l)" "hm_wf (cl_per_peer l)"
    and get: "\<And>p. hm_get (cl_per_peer l) p = (let n = from_peer p (cl_slots l) in if n = 0 then None else Some n)"
    and caps: "\<And>p. from_peer p (cl_slots l) \<le> cl_max_per_peer l" "length (cl_slots l) \<le> cl_max_total l"
    by (simp_all add: ledger_inv_def)
  note rm = from_peer_remove [OF wf(1) Some]
  have pos: "hm_get (cl_per_peer l) ?p = Some (from_peer ?p (cl_slots l))" using get [of ?p] rm [of ?p] by simp
  have slots: "cl_slots (release i l) = hm_remove i (cl_slots l)" by (simp add: release_def Some)
  have "hm_get (cl_per_peer (release i l)) p =
      (let n = from_peer p (hm_remove i (cl_slots l)) in if n = 0 then None else Some n)" for p
    using get [of p] rm [of p] pos by (auto simp: release_def Some hm.lookup_remove [OF wf(2)] Let_def)
  moreover have "hm_wf (cl_per_peer (release i l))"
    by (simp add: release_def Some pos hm.invar_remove [OF wf(2)] hm_wf_put [OF wf(2)])
  moreover have "from_peer p (hm_remove i (cl_slots l)) \<le> cl_max_per_peer l" for p
    using caps(1) [of p] rm [of p] by simp
  moreover have "length (hm_remove i (cl_slots l)) \<le> cl_max_total l"
    using caps(2) by (metis hm_remove_def length_filter_le order_trans)
  ultimately show ?thesis
    by (simp add: ledger_inv_def slots hm.invar_remove [OF wf(1)]) (simp add: release_def Some)
qed (use assms in \<open>simp add: release_def\<close>)

lemma ledger_reachable_inv: "ledger_reachable l \<Longrightarrow> ledger_inv l"
proof (induction rule: ledger_reachable.induct)
  case (step_expired l now)
  then show ?case
    by (auto simp: ledger_inv_def expired_def from_peer_map_values) (simp add: hm_map_values_def)
next
  case (step_authenticated l i)
  show ?case
  proof (cases "hm_get (cl_slots l) i")
    case (Some s)
    then have "length (hm_put i (s\<lparr>sl_authenticated := True\<rparr>) (cl_slots l)) = length (cl_slots l)"
      by (rule length_hm_put_old)
    then show ?thesis
      using step_authenticated.IH Some
      by (simp add: ledger_inv_def mark_authenticated_def from_peer_put_same hm_wf_put)
  qed (use step_authenticated.IH in \<open>simp add: mark_authenticated_def\<close>)
next
  case (start max_total max_per_peer deadline now)
  show ?case by (simp add: ledger_inv_def ledger_new_def from_peer_def)
qed (simp_all only: admit_inv release_inv)

text \<open>C14. In every state the ledger can reach, the count it keeps for a peer is exactly the number of
  connections of that peer, no peer has more than its share, and the total stays within the cap; so a
  connection is admitted exactly when both caps leave room.\<close>

theorem ledger_caps_hold:
  assumes "ledger_reachable l"
  shows "peer_count l p = length (filter (\<lambda>(_, s). sl_peer s = p) (cl_slots l))
    \<and> peer_count l p \<le> cl_max_per_peer l \<and> length (cl_slots l) \<le> cl_max_total l
    \<and> fst (admit i p now l) = (length (cl_slots l) < cl_max_total l
        \<and> length (filter (\<lambda>(_, s). sl_peer s = p) (cl_slots l)) < cl_max_per_peer l)"
  using ledger_reachable_inv [OF assms]
  by (auto simp: ledger_inv_def peer_count_def from_peer_def admit_def Let_def split: if_splits)

theorem ledger_caps_hold_witness:
  "peer_count (snd (admit 7 (V4 ''abcd'') 10 (ledger_with_defaults 0))) (V4 ''abcd'') \<le> 16"
proof -
  have "ledger_reachable (snd (admit 7 (V4 ''abcd'') 10 (ledger_with_defaults 0)))"
    unfolding ledger_with_defaults_def by (intro step_admit start) (simp add: ledger_new_def)
  from ledger_caps_hold [OF this, of "V4 ''abcd''"] show ?thesis
    by (simp add: admit_def ledger_with_defaults_def ledger_new_def MAX_CONNECTIONS_PER_PEER_def split: if_splits)
qed

section \<open>Slow connections\<close>

text \<open>A sweep that is due reports exactly the connections that are past the deadline without a
  valid token, and none of them a second time, however often it runs before they are released.\<close>

lemma slow_connection_cut_once:
  assumes "ledger_reachable l" and "LEDGER_SWEEP_INTERVAL \<le> now - cl_last_sweep l"
    and "expired now l = (ids, l1)" and "expired now' l1 = (ids', l2)"
  shows "set ids = {i. \<exists>s. hm_get (cl_slots l) i = Some s \<and> slot_due (cl_pre_auth_deadline l) now s}
    \<and> set ids \<inter> set ids' = {}"
proof -
  have wf: "hm_wf (cl_slots l)" using ledger_reachable_inv [OF assms(1)] by (simp add: ledger_inv_def)
  let ?due = "slot_due (cl_pre_auth_deadline l) now"
  have ids: "set ids = fst ` {(i, s) \<in> set (cl_slots l). ?due s}"
    and slots: "cl_slots l1 = hm_map_values (\<lambda>s. if ?due s then s\<lparr>sl_expired := True\<rparr> else s) (cl_slots l)"
    using assms(2,3) unfolding expired_def by (auto simp: image_def)
  have "set ids' \<subseteq> {i. \<exists>s. hm_get (cl_slots l1) i = Some s \<and> \<not> sl_expired s}"
  proof
    fix i assume "i \<in> set ids'"
    then obtain s where "(i, s) \<in> set (cl_slots l1)" "\<not> sl_expired s"
      using assms(4) by (auto simp: expired_def slot_due_def split: if_splits)
    moreover have "hm_wf (cl_slots l1)" using wf by (simp add: slots)
    ultimately show "i \<in> {i. \<exists>s. hm_get (cl_slots l1) i = Some s \<and> \<not> sl_expired s}"
      using hm_in_set_get by fast
  qed
  moreover have due: "set ids = {i. \<exists>s. hm_get (cl_slots l) i = Some s \<and> ?due s}"
  proof -
    have "hm_get (cl_slots l) i = Some s \<longleftrightarrow> (i, s) \<in> set (cl_slots l)" for i s
      using hm_in_set_get [OF wf, of i s] hm_get_in_set [of "cl_slots l" i s] by (rule iffI [rotated])
    then show ?thesis unfolding ids image_def by (simp add: split_beta)
  qed
  moreover have "sl_expired s" if "i \<in> set ids" and "hm_get (cl_slots l1) i = Some s" for i s
    using that by (auto simp: due slots)
  ultimately show ?thesis by blast
qed

section \<open>The plaintext gate\<close>

lemma serve_request_plaintext:
  "serve_request (sv\<lparr>sv_handle := h\<rparr>) Plaintext it request w = serve_request sv Plaintext it request w
   \<and> wk_authenticated (snd (serve_request sv Plaintext it request w)) = wk_authenticated w"
proof (cases "hm_get (hr_headers request) ''authorization''")
  case None
  then have "principal_for_bearer i d (hr_headers request) = None" for i d
    by (simp add: principal_for_bearer_def)
  then show ?thesis
    by (simp add: serve_request_def serve_authenticated_def serve_pair_def reply_def Let_def split_beta
        plaintext_credential_rejection_def None)
next
  case (Some a)
  then show ?thesis
    by (simp add: serve_request_def plaintext_credential_rejection_def reply_def Let_def)
qed

lemma connection_loop_plaintext:
  "connection_loop n (sv\<lparr>sv_handle := h\<rparr>) Plaintext its w = connection_loop n sv Plaintext its w
   \<and> wk_authenticated (connection_loop n sv Plaintext its w) = wk_authenticated w"
proof (induction n sv Plaintext its w rule: connection_loop.induct)
  case (3 n sv it its w)
  show ?case
  proof (cases "it_request it")
    case (Some request)
    obtain go w' where sr: "serve_request sv Plaintext it request w = (go, w')" by fastforce
    with serve_request_plaintext [of h sv it request w]
    have "serve_request (sv\<lparr>sv_handle := h\<rparr>) Plaintext it request w = (go, w')"
        "wk_authenticated w' = wk_authenticated w" by simp_all
    with "3" [OF _ Some sr [symmetric] refl] sr show ?thesis by (simp add: Some)
  qed simp
qed simp_all

text \<open>C13. A connection that does not start a TLS handshake never authenticates: its flag stays down,
  and the authenticated handler has no influence on what is answered or changed.\<close>

theorem plaintext_never_authenticates:
  assumes "first \<noteq> Some (CHR 0x16)"
  shows "\<not> wk_authenticated (handle_connection sv first its world)
    \<and> handle_connection (sv\<lparr>sv_handle := h\<rparr>) first its world = handle_connection sv first its world"
  using assms connection_loop_plaintext [of 1000 h sv its]
  by (auto simp: handle_connection_def transport_for_first_byte_def Let_def split: option.split)

theorem plaintext_never_authenticates_witness:
  "\<not> wk_authenticated (handle_connection
     \<lparr>sv_to_string = (\<lambda>_. []), sv_pair = (\<lambda>b w. ((400, []), w)), sv_finish = (\<lambda>_ w. w), sv_handle = (\<lambda>r p w. ((200, []), w))\<rparr>
     (Some (CHR ''G''))
     [\<lparr>it_shutdown = False, it_request = Some \<lparr>hr_request_id = None, hr_method = ''GET'', hr_path = ''/mobile/x'',
        hr_query = [], hr_headers = [], hr_body = [], hr_keep_alive = True\<rparr>, it_host_id = Inr ''h'',
        it_devices = None, it_sent = True\<rparr>] ())"
  by (rule plaintext_never_authenticates [THEN conjunct1]) simp

end
