(* ===== verification/Mobile_Request.thy ===== *)
theory Mobile_Request
  imports Mobile_Server Session_Input
begin

text \<open>
  How the mobile listener of \<open>crates/unpeel-serve/src/mobile.rs\<close> takes requests off a connection: the
  reader with its buffer of bytes that belong to the next request, the decoding of query values, the
  worker that serves one connection, and the accept loop that counts the connections. Strings are
  their UTF-8 bytes. The lower-casing of a string (\<open>str::to_lowercase\<close>, a table of the Unicode
  standard) is a parameter, \<open>lower\<close>. A value \<open>None\<close> of a decoder is a panic of the thread.
\<close>

section \<open>Strings of the standard library\<close>

text \<open>The length of the code point at the head, or else of the ill-formed bytes that one
  replacement character stands for, and which of the two it is.\<close>

definition utf8_head :: "string \<Rightarrow> bool \<times> nat" where
  "utf8_head s =
     (let n = byte_val (s ! 0);
          ok2 = (1 < length s \<and> utf8_second n (s ! 1));
          ok3 = (2 < length s \<and> utf8_cont (s ! 2));
          ok4 = (3 < length s \<and> utf8_cont (s ! 3))
      in if n < 128 then (True, 1)
         else if 194 \<le> n \<and> n \<le> 223 then (if ok2 then (True, 2) else (False, 1))
         else if 224 \<le> n \<and> n \<le> 239 then (if \<not> ok2 then (False, 1) else if ok3 then (True, 3) else (False, 2))
         else if 240 \<le> n \<and> n \<le> 244 then
           (if \<not> ok2 then (False, 1) else if \<not> ok3 then (False, 2) else if ok4 then (True, 4) else (False, 3))
         else (False, 1))"

definition REPLACEMENT :: string where "REPLACEMENT = [CHR 0xEF, CHR 0xBF, CHR 0xBD]"

lemma utf8_head_pos [simp]: "0 < snd (utf8_head s)"
  by (simp add: utf8_head_def Let_def)

lemma utf8_head_nz: "snd (utf8_head s) \<noteq> 0"
  using utf8_head_pos [of s] by simp

text \<open>\<open>String::from_utf8_lossy\<close>\<close>

function from_utf8_lossy :: "string \<Rightarrow> string" where
  "from_utf8_lossy s =
     (if s = [] then []
      else (if fst (utf8_head s) then take (snd (utf8_head s)) s else REPLACEMENT)
             @ from_utf8_lossy (drop (snd (utf8_head s)) s))"
  by pat_completeness auto
termination
  by (relation "measure length") (auto simp: neq_Nil_conv intro: diff_less)

declare from_utf8_lossy.simps [simp del]

text \<open>\<open>str::lines\<close>: a line ends at a line feed, less one carriage return before it; an empty rest is no line.\<close>

definition strip_cr :: "string \<Rightarrow> string" where
  "strip_cr s = (if s \<noteq> [] \<and> last s = CHR 0x0D then butlast s else s)"

fun str_lines :: "string \<Rightarrow> string \<Rightarrow> string list" where
  "str_lines acc [] = (if acc = [] then [] else [rev acc])"
| "str_lines acc (c # s) = (if c = CHR 0x0A then strip_cr (rev acc) # str_lines [] s else str_lines (c # acc) s)"

text \<open>\<open>str::contains\<close>\<close>

fun str_contains :: "string \<Rightarrow> string \<Rightarrow> bool" where
  "str_contains p [] = (p = [])"
| "str_contains p (c # s) = (starts_with p (c # s) \<or> str_contains p s)"

text \<open>\<open>u8::from_str_radix(_, 16)\<close> on two bytes: a plus sign in front of one digit is accepted.\<close>

definition hex_digit :: "byte \<Rightarrow> nat option" where
  "hex_digit c =
     (let n = byte_val c in
      if is_ascii_digit c then Some (n - 48)
      else if 65 \<le> n \<and> n \<le> 70 then Some (n - 55)
      else if 97 \<le> n \<and> n \<le> 102 then Some (n - 87)
      else None)"

definition hex_pair :: "byte \<Rightarrow> byte \<Rightarrow> byte option" where
  "hex_pair a b =
     (if a = CHR ''+'' then map_option char_of (hex_digit b)
      else case (hex_digit a, hex_digit b) of
             (Some x, Some y) \<Rightarrow> Some (char_of (16 * x + y))
           | _ \<Rightarrow> None)"

section \<open>Query values\<close>

text \<open>The slice behind a percent sign takes two bytes; where it does not end at a character the
  indexing of the string panics.\<close>

definition at_char_boundary :: "string \<Rightarrow> bool" where
  "at_char_boundary s \<longleftrightarrow> (case s of [] \<Rightarrow> True | c # _ \<Rightarrow> \<not> utf8_cont c)"

fun urldecode_bytes :: "string \<Rightarrow> string option" where
  "urldecode_bytes [] = Some []"
| "urldecode_bytes (c # s) =
     (if c = CHR ''%'' \<and> 2 \<le> length s then
        (case s of
           a # b # r \<Rightarrow>
             if \<not> at_char_boundary r then None
             else (case hex_pair a b of
                 Some v \<Rightarrow> map_option (Cons v) (urldecode_bytes r)
               | None \<Rightarrow> map_option (Cons c) (urldecode_bytes s))
         | _ \<Rightarrow> None)
      else map_option (Cons (if c = CHR ''+'' then CHR '' '' else c)) (urldecode_bytes s))"

definition urldecode :: "string \<Rightarrow> string option" where
  "urldecode s = map_option from_utf8_lossy (urldecode_bytes s)"

fun query_pairs :: "string list \<Rightarrow> (string, string) hmap \<Rightarrow> (string, string) hmap option" where
  "query_pairs [] q = Some q"
| "query_pairs (pair # ps) q =
     (let (k, v) = (case split_once (CHR ''='') pair of Some kv \<Rightarrow> kv | None \<Rightarrow> (pair, []))
      in Option.bind (urldecode v) (\<lambda>d. query_pairs ps (hm_put k d q)))"

definition parse_query :: "string \<Rightarrow> (string, string) hmap option" where
  "parse_query query_string = query_pairs (filter (\<lambda>s. s \<noteq> []) (split_on (CHR ''&'') query_string)) []"

section \<open>Reading a request\<close>

definition MAX_BODY :: nat where "MAX_BODY = 4 * 1024 * 1024"
definition MAX_HEAD :: nat where "MAX_HEAD = 8 * 1024 * 1024"
definition HEAD_END :: string where "HEAD_END = [CHR 0x0D, CHR 0x0A, CHR 0x0D, CHR 0x0A]"

text \<open>Where the first empty line ends, and what the socket delivers, one string for each \<open>read\<close>: an empty
  string is the end of the stream or an error, and so is the end of the list (a read that times out).\<close>

fun header_end_at :: "string \<Rightarrow> nat option" where
  "header_end_at [] = None"
| "header_end_at (c # s) = (if starts_with HEAD_END (c # s) then Some 4 else map_option Suc (header_end_at s))"

fun await_head :: "string list \<Rightarrow> string \<Rightarrow> (nat option) \<times> string list \<times> string" where
  "await_head reads pending =
     (case header_end_at pending of
        Some n \<Rightarrow> (Some n, reads, pending)
      | None \<Rightarrow>
          if length pending > MAX_HEAD then (None, reads, pending)
          else (case reads of
              [] \<Rightarrow> (None, [], pending)
            | r # rs \<Rightarrow> if r = [] then (None, rs, pending) else await_head rs (pending @ r)))"

fun await_body :: "nat \<Rightarrow> string list \<Rightarrow> string \<Rightarrow> bool \<times> string list \<times> string" where
  "await_body need reads pending =
     (if need \<le> length pending then (True, reads, pending)
      else (case reads of
          [] \<Rightarrow> (False, [], pending)
        | r # rs \<Rightarrow> if r = [] then (False, rs, pending) else await_body need rs (pending @ r)))"

declare await_head.simps [simp del] await_body.simps [simp del]

definition put_header :: "(string \<Rightarrow> string) \<Rightarrow> string \<Rightarrow> (string, string) hmap \<Rightarrow> (string, string) hmap" where
  "put_header lower line h =
     (case split_once (CHR '':'') line of
        None \<Rightarrow> h
      | Some (name, value) \<Rightarrow> hm_put (lower (trim name)) (trim value) h)"

text \<open>The head of a request: method, target, version and headers.\<close>

record request_head =
  rh_method :: string
  rh_target :: string
  rh_version :: string
  rh_headers :: "(string, string) hmap"

definition parse_head :: "(string \<Rightarrow> string) \<Rightarrow> string \<Rightarrow> request_head option" where
  "parse_head lower bytes =
     (case str_lines [] (from_utf8_lossy bytes) of
        [] \<Rightarrow> None
      | request_line # ls \<Rightarrow>
          (case split_whitespace_acc [] request_line of
             meth # target # rest \<Rightarrow>
               Some \<lparr>rh_method = meth, rh_target = target,
                     rh_version = (case rest of v # _ \<Rightarrow> v | [] \<Rightarrow> ''HTTP/1.1''),
                     rh_headers = fold (put_header lower) ls []\<rparr>
           | _ \<Rightarrow> None))"

definition content_length :: "request_head \<Rightarrow> nat" where
  "content_length h =
     (case Option.bind (hm_get (rh_headers h) ''content-length'') (parse_uint u64_max) of Some n \<Rightarrow> n | None \<Rightarrow> 0)"

definition keep_alive_of :: "(string \<Rightarrow> string) \<Rightarrow> request_head \<Rightarrow> bool" where
  "keep_alive_of lower h =
     (case map_option lower (hm_get (rh_headers h) ''connection'') of
        Some v \<Rightarrow> if v = ''close'' then False
                  else if str_contains ''keep-alive'' v then True
                  else rh_version h = ''HTTP/1.1''
      | None \<Rightarrow> rh_version h = ''HTTP/1.1'')"

definition make_request :: "(string \<Rightarrow> string) \<Rightarrow> request_head \<Rightarrow> string \<Rightarrow> http_request option" where
  "make_request lower h body =
     (let (path, query_string) = (case split_once (CHR ''?'') (rh_target h) of Some pq \<Rightarrow> pq | None \<Rightarrow> (rh_target h, []))
      in map_option (\<lambda>query.
           \<lparr>hr_request_id = (case hm_get (rh_headers h) ''x-unpeel-request-id'' of
                Some v \<Rightarrow> if v \<noteq> [] \<and> length v \<le> 128 then Some v else None | None \<Rightarrow> None),
            hr_method = rh_method h, hr_path = path, hr_query = query, hr_headers = rh_headers h,
            hr_body = body, hr_keep_alive = keep_alive_of lower h\<rparr>) (parse_query query_string))"

datatype read_outcome = ReadPanicked | ReadNothing | ReadRequest http_request

definition read_request ::
    "(string \<Rightarrow> string) \<Rightarrow> string list \<Rightarrow> string \<Rightarrow> read_outcome \<times> string list \<times> string" where
  "read_request lower reads pending =
     (case await_head reads pending of
        (None, reads, pending) \<Rightarrow> (ReadNothing, reads, pending)
      | (Some header_end, reads, pending) \<Rightarrow>
          (case parse_head lower (take header_end pending) of
             None \<Rightarrow> (ReadNothing, reads, pending)
           | Some h \<Rightarrow>
               if content_length h > MAX_BODY then (ReadNothing, reads, pending)
               else (case await_body (header_end + content_length h) reads pending of
                   (False, reads, pending) \<Rightarrow> (ReadNothing, reads, pending)
                 | (True, reads, pending) \<Rightarrow>
                     (case make_request lower h (take (content_length h) (drop header_end pending)) of
                        None \<Rightarrow> (ReadPanicked, reads, drop (header_end + content_length h) pending)
                      | Some request \<Rightarrow>
                          (ReadRequest request, reads, drop (header_end + content_length h) pending)))))"

section \<open>The worker of a connection\<close>

text \<open>The request loop on the bytes of the connection; the result says whether the worker panicked.
  The requests of the iterations are ignored: they are read from the stream.\<close>

fun worker_loop ::
    "nat \<Rightarrow> (string \<Rightarrow> string) \<Rightarrow> 'w server \<Rightarrow> transport \<Rightarrow> iteration list \<Rightarrow> string list \<Rightarrow> string \<Rightarrow> 'w worker \<Rightarrow> bool \<times> 'w worker" where
  "worker_loop 0 lower sv transport its reads pending w = (False, w)"
| "worker_loop (Suc n) lower sv transport [] reads pending w = (False, w)"
| "worker_loop (Suc n) lower sv transport (it # its) reads pending w =
     (if it_shutdown it then (False, w)
      else case read_request lower reads pending of
        (ReadPanicked, _, _) \<Rightarrow> (True, w)
      | (ReadNothing, _, _) \<Rightarrow> (False, w)
      | (ReadRequest request, reads, pending) \<Rightarrow>
          let (go_on, w') = serve_request sv transport it request w
          in if go_on then worker_loop n lower sv transport its reads pending w' else (False, w'))"

definition worker_connection ::
    "(string \<Rightarrow> string) \<Rightarrow> 'w server \<Rightarrow> byte option \<Rightarrow> iteration list \<Rightarrow> string list \<Rightarrow> 'w \<Rightarrow> bool \<times> 'w worker" where
  "worker_connection lower sv first its reads world =
     (let w = \<lparr>wk_authenticated = False, wk_responses = [], wk_world = world\<rparr>
      in case first of
           None \<Rightarrow> (False, w)
         | Some b \<Rightarrow> worker_loop 1000 lower sv (transport_for_first_byte b) its reads [] w)"

section \<open>The accept loop\<close>

text \<open>The ledger, the next connection id (a counter of the process, 1 for its first listener) and the connections
  whose worker runs. A worker that ends releases its place; one that panics does not reach the release.\<close>

record listener =
  li_ledger :: connection_ledger
  li_next_id :: u64
  li_running :: "u64 list"

definition listener_start :: "nat \<Rightarrow> listener" where
  "listener_start now = \<lparr>li_ledger = ledger_with_defaults now, li_next_id = 1, li_running = []\<rparr>"

definition accept_peer :: "ip_addr \<Rightarrow> nat \<Rightarrow> listener \<Rightarrow> listener" where
  "accept_peer peer now li =
     (let i = li_next_id li; (admitted, l) = admit i peer now (li_ledger li)
      in li\<lparr>li_ledger := l, li_next_id := (i + 1) mod 2 ^ 64,
            li_running := (if admitted then i # li_running li else li_running li)\<rparr>)"

definition worker_ends :: "u64 \<Rightarrow> bool \<Rightarrow> listener \<Rightarrow> listener" where
  "worker_ends i panicked li =
     (if i \<notin> set (li_running li) then li
      else li\<lparr>li_running := remove1 i (li_running li),
              li_ledger := (if panicked then li_ledger li else release i (li_ledger li))\<rparr>)"

datatype 'w listener_event =
    Accept ip_addr nat
  | WorkerRuns u64 "byte option" "iteration list" "string list" 'w
  | WorkerAuthenticates u64
  | CutExpired nat

fun listener_step :: "(string \<Rightarrow> string) \<Rightarrow> 'w server \<Rightarrow> 'w listener_event \<Rightarrow> listener \<Rightarrow> listener" where
  "listener_step lower sv (Accept peer now) li = accept_peer peer now li"
| "listener_step lower sv (WorkerRuns i first its reads world) li =
     worker_ends i (fst (worker_connection lower sv first its reads world)) li"
| "listener_step lower sv (WorkerAuthenticates i) li =
     (if i \<in> set (li_running li) then li\<lparr>li_ledger := mark_authenticated i (li_ledger li)\<rparr> else li)"
| "listener_step lower sv (CutExpired now) li = li\<lparr>li_ledger := snd (expired now (li_ledger li))\<rparr>"

definition listener_run :: "(string \<Rightarrow> string) \<Rightarrow> 'w server \<Rightarrow> 'w listener_event list \<Rightarrow> listener \<Rightarrow> listener" where
  "listener_run lower sv es li = fold (listener_step lower sv) es li"

end
