(* ===== verification/Mobile_Request_Props.thy ===== *)
theory Mobile_Request_Props
  imports Mobile_Request Mobile_Server_Props
begin

text \<open>
  What the mobile listener promises of its connections. Requests are read back exactly as they were
  written, one after the other, however the network cuts the bytes. A worker on the bytes of a connection
  behaves as the request loop of \<open>Mobile_Server\<close>. The last section shows a fault: a query value that
  panics the decoder costs the listener a place for good.
\<close>

section \<open>Finding the end of a head\<close>

lemma header_end_at_bounds: "header_end_at s = Some n \<Longrightarrow> 4 \<le> n \<and> n \<le> length s"
proof (induction s arbitrary: n)
  case (Cons c s)
  then show ?case
    by (auto simp: starts_with_iff HEAD_END_def split: if_splits)
qed simp

lemma starts_with_append: "length p \<le> length s \<Longrightarrow> starts_with p (s @ t) = starts_with p s"
  by (simp add: starts_with_def)

lemma header_end_at_append: "header_end_at s = Some n \<Longrightarrow> header_end_at (s @ t) = Some n"
proof (induction s arbitrary: n)
  case (Cons c s)
  have "length HEAD_END \<le> length (c # s)"
    using header_end_at_bounds [OF Cons.prems] by (simp add: HEAD_END_def)
  from starts_with_append [OF this, of t] Cons show ?case by (auto split: if_splits)
qed simp

lemma header_end_at_prefix: "header_end_at (s @ t) = Some n \<Longrightarrow> n \<le> length s \<Longrightarrow> header_end_at s = Some n"
proof (induction s arbitrary: n)
  case Nil
  then show ?case using header_end_at_bounds by fastforce
next
  case (Cons c s)
  show ?case
  proof (cases "starts_with HEAD_END (c # s @ t)")
    case True
    with Cons.prems have "n = 4" by simp
    with Cons.prems(2) True have "starts_with HEAD_END (c # s)"
      by (simp add: starts_with_def HEAD_END_def numeral_eq_Suc)
    with \<open>n = 4\<close> show ?thesis by simp
  next
    case False
    then have "\<not> starts_with HEAD_END (c # s)" by (metis append.assoc append_Cons starts_with_iff)
    with False Cons show ?thesis by auto
  qed
qed

text \<open>The two waiting loops return as soon as the bytes are there and lose none.\<close>

lemma await_head_finds:
  "header_end_at (pending @ concat reads) = Some n \<Longrightarrow> n \<le> MAX_HEAD \<Longrightarrow> [] \<notin> set reads
    \<Longrightarrow> \<exists>reads' pending'. await_head reads pending = (Some n, reads', pending')
      \<and> pending' @ concat reads' = pending @ concat reads \<and> n \<le> length pending' \<and> [] \<notin> set reads'"
proof (induction reads arbitrary: pending)
  case Nil
  then show ?case using header_end_at_bounds by (subst await_head.simps) auto
next
  case (Cons r rs)
  show ?case
  proof (cases "header_end_at pending")
    case None
    then have "length pending < n" using header_end_at_prefix [OF Cons.prems(1)] by (cases "n \<le> length pending") auto
    with None Cons.IH [of "pending @ r"] Cons.prems show ?thesis
      by (subst await_head.simps) auto
  next
    case (Some m)
    with Cons.prems(1) header_end_at_append [OF Some] have "m = n" by simp
    with Some Cons.prems(3) header_end_at_bounds [OF Some] show ?thesis
      by (subst await_head.simps) simp
  qed
qed

lemma await_body_finds:
  "need \<le> length (pending @ concat reads) \<Longrightarrow> [] \<notin> set reads
    \<Longrightarrow> \<exists>reads' pending'. await_body need reads pending = (True, reads', pending')
      \<and> pending' @ concat reads' = pending @ concat reads \<and> need \<le> length pending' \<and> [] \<notin> set reads'"
proof (induction reads arbitrary: pending)
  case Nil
  then show ?case by (subst await_body.simps) simp
next
  case (Cons r rs)
  then show ?case
    using Cons.IH [of "pending @ r"] by (subst await_body.simps) auto
qed

text \<open>A request whose bytes are all under way is read, and the reader keeps exactly what follows it.\<close>

lemma request_framed:
  assumes wire: "pending @ concat reads = head @ body @ rest"
    and nonempty: "[] \<notin> set reads"
    and head: "header_end_at head = Some (length head)" "length head \<le> MAX_HEAD" "parse_head lower head = Some h"
    and body: "content_length h = length body" "length body \<le> MAX_BODY"
  shows "\<exists>reads' pending'. read_request lower reads pending =
      (case make_request lower h body of None \<Rightarrow> ReadPanicked | Some r \<Rightarrow> ReadRequest r, reads', pending')
    \<and> pending' @ concat reads' = rest \<and> [] \<notin> set reads'"
proof -
  let ?n = "length head"
  have "header_end_at (pending @ concat reads) = Some ?n"
    unfolding wire using head(1) by (rule header_end_at_append)
  then obtain reads1 p1 where 1: "await_head reads pending = (Some ?n, reads1, p1)"
      "p1 @ concat reads1 = head @ body @ rest" "?n \<le> length p1" "[] \<notin> set reads1"
    using await_head_finds [OF _ head(2) nonempty, of pending] wire by auto
  have "?n + length body \<le> length (p1 @ concat reads1)" by (simp add: 1(2))
  then obtain reads2 p2 where 2: "await_body (?n + length body) reads1 p1 = (True, reads2, p2)"
      "p2 @ concat reads2 = head @ body @ rest" "?n + length body \<le> length p2" "[] \<notin> set reads2"
    using await_body_finds [OF _ 1(4), of "?n + length body" p1] 1(2) by auto
  have prefix: "take k p @ drop k p @ concat rs = head @ body @ rest" if "p @ concat rs = head @ body @ rest" for k p rs
    using that by (simp add: append_assoc [symmetric] del: append_assoc)
  have "take ?n p1 = head" using prefix [OF 1(2), of ?n] 1(3) by (simp add: append_eq_append_conv)
  moreover obtain q where q: "p2 = head @ body @ q"
  proof -
    have "take (?n + length body) (p2 @ concat reads2) = head @ body" by (simp add: 2(2))
    then have "take (?n + length body) p2 = head @ body" using 2(3) by simp
    then have "p2 = head @ body @ drop (?n + length body) p2" by (metis append.assoc append_take_drop_id)
    then show thesis by (rule that)
  qed
  moreover have "q @ concat reads2 = rest" using 2(2) q by simp
  ultimately show ?thesis
    using 2(1,4) head(3) body by (auto simp: read_request_def 1(1) split: option.split)
qed

section \<open>Requests as they are written\<close>

definition visible :: "byte \<Rightarrow> bool" where
  "visible c \<longleftrightarrow> 33 \<le> byte_val c \<and> byte_val c \<le> 126"

definition printable :: "byte \<Rightarrow> bool" where
  "printable c \<longleftrightarrow> 32 \<le> byte_val c \<and> byte_val c \<le> 126"

definition line_text :: "string \<Rightarrow> string" where "line_text l = l @ CRLF"

definition head_text :: "string list \<Rightarrow> string" where
  "head_text ls = concat (map line_text ls) @ CRLF"

definition header_line :: "string \<times> string \<Rightarrow> string" where
  "header_line kv = fst kv @ '': '' @ snd kv"

record client_request =
  cr_method :: string
  cr_target :: string
  cr_headers :: "(string \<times> string) list"
  cr_body :: string

definition request_text :: "client_request \<Rightarrow> string" where
  "request_text r = head_text ((cr_method r @ '' '' @ cr_target r @ '' HTTP/1.1'') # map header_line (cr_headers r)) @ cr_body r"

text \<open>The head that the Host is to see.\<close>

definition head_of :: "(string \<Rightarrow> string) \<Rightarrow> client_request \<Rightarrow> request_head" where
  "head_of lower r = \<lparr>rh_method = cr_method r, rh_target = cr_target r, rh_version = ''HTTP/1.1'',
     rh_headers = fold (\<lambda>(k, v). hm_put (lower k) v) (cr_headers r) []\<rparr>"

definition header_ok :: "string \<times> string \<Rightarrow> bool" where
  "header_ok kv \<longleftrightarrow> list_all visible (fst kv) \<and> CHR '':'' \<notin> set (fst kv)
     \<and> list_all printable (snd kv) \<and> trim (snd kv) = snd kv"

definition request_ok :: "(string \<Rightarrow> string) \<Rightarrow> client_request \<Rightarrow> bool" where
  "request_ok lower r \<longleftrightarrow> cr_method r \<noteq> [] \<and> list_all visible (cr_method r) \<and> cr_target r \<noteq> [] \<and> list_all visible (cr_target r)
     \<and> list_all header_ok (cr_headers r) \<and> content_length (head_of lower r) = length (cr_body r)
     \<and> length (cr_body r) \<le> MAX_BODY \<and> length (request_text r) - length (cr_body r) \<le> MAX_HEAD"

lemma from_utf8_lossy_ascii: "list_all (\<lambda>c. byte_val c < 128) s \<Longrightarrow> from_utf8_lossy s = s"
proof (induction s)
  case Nil
  show ?case by (simp add: from_utf8_lossy.simps)
next
  case (Cons c s)
  then have "utf8_head (c # s) = (True, 1)" by (simp add: utf8_head_def Let_def)
  with Cons show ?case by (subst from_utf8_lossy.simps) simp
qed

lemma header_end_at_skip: "CHR 0x0D \<notin> set l \<Longrightarrow> header_end_at (l @ s) = map_option (\<lambda>n. length l + n) (header_end_at s)"
proof (induction l)
  case Nil
  then show ?case by (simp add: option.map_ident)
next
  case (Cons c l)
  then have "\<not> starts_with HEAD_END (c # l @ s)" by (auto simp: starts_with_def HEAD_END_def)
  with Cons show ?case by (simp add: option.map_comp comp_def)
qed

lemma header_end_at_line:
  "CHR 0x0D \<notin> set l \<Longrightarrow> s \<noteq> [] \<Longrightarrow> hd s \<noteq> CHR 0x0D \<Longrightarrow>
    header_end_at (line_text l @ s) = map_option (\<lambda>n. length (line_text l) + n) (header_end_at s)"
  by (cases s) (simp_all add: line_text_def header_end_at_skip CRLF_def option.map_comp comp_def starts_with_def HEAD_END_def)

lemma header_end_at_head_text:
  "ls \<noteq> [] \<Longrightarrow> list_all (\<lambda>l. l \<noteq> [] \<and> CHR 0x0D \<notin> set l) ls \<Longrightarrow> header_end_at (head_text ls) = Some (length (head_text ls))"
proof (induction ls)
  case (Cons l ls)
  show ?case
  proof (cases ls)
    case Nil
    then show ?thesis
      using Cons.prems by (simp add: head_text_def line_text_def header_end_at_skip CRLF_def starts_with_def HEAD_END_def)
  next
    case (Cons l' ls')
    have h: "head_text (l # ls) = line_text l @ head_text ls" by (simp add: head_text_def)
    have "head_text ls \<noteq> []" "hd (head_text ls) \<noteq> CHR 0x0D"
      using Cons.prems Cons by (auto simp: head_text_def line_text_def hd_append neq_Nil_conv)
    with Cons.prems Cons.IH Cons show ?thesis
      unfolding h by (subst header_end_at_line) auto
  qed
qed simp

lemma str_lines_line: "CHR 0x0A \<notin> set l \<Longrightarrow> str_lines acc (l @ CHR 0x0A # s) = strip_cr (rev acc @ l) # str_lines [] s"
  by (induction l arbitrary: acc) auto

lemma str_lines_head_text:
  "list_all (\<lambda>l. CHR 0x0A \<notin> set l) ls \<Longrightarrow> str_lines [] (head_text ls) = ls @ [[]]"
proof (induction ls)
  case Nil
  show ?case by (simp add: head_text_def CRLF_def strip_cr_def)
next
  case (Cons l ls)
  have "head_text (l # ls) = (l @ [CHR 0x0D]) @ CHR 0x0A # head_text ls"
    by (simp add: head_text_def line_text_def CRLF_def)
  moreover have "CHR 0x0A \<notin> set (l @ [CHR 0x0D])" using Cons.prems by simp
  moreover have "strip_cr (l @ [CHR 0x0D]) = l" by (simp add: strip_cr_def)
  ultimately show ?case
    using Cons str_lines_line [of "l @ [CHR 0x0D]" "[]" "head_text ls"] by simp
qed

lemma ws_len_visible: "visible c \<Longrightarrow> ws_len (map byte_val (c # s)) = 0"
  by (auto simp: visible_def ws_len_def split: list.splits)

lemma split_whitespace_word:
  "list_all visible w \<Longrightarrow> split_whitespace_acc acc (w @ s) = split_whitespace_acc (rev w @ acc) s"
proof (induction w arbitrary: acc)
  case (Cons c w)
  then show ?case
    using ws_len_visible [of c "w @ s"] by (subst split_whitespace_acc.simps) (simp add: Let_def)
qed simp

lemma split_whitespace_space:
  "w \<noteq> [] \<Longrightarrow> split_whitespace_acc (rev w) (CHR '' '' # s) = w # split_whitespace_acc [] s"
  by (subst split_whitespace_acc.simps) (simp add: ws_len_def byte_val_def)

lemma split_request_line:
  assumes "m \<noteq> []" "list_all visible m" "t \<noteq> []" "list_all visible t"
  shows "split_whitespace_acc [] (m @ '' '' @ t @ '' HTTP/1.1'') = [m, t, ''HTTP/1.1'']"
proof -
  have v: "list_all visible ''HTTP/1.1''" by (simp add: visible_def byte_val_def)
  have "split_whitespace_acc [] ''HTTP/1.1'' = [''HTTP/1.1'']"
    using split_whitespace_word [OF v, of "[]" "[]"] by (simp add: split_whitespace_acc.simps [of _ "[]"])
  then show ?thesis
    using assms by (simp add: split_whitespace_word split_whitespace_space)
qed

lemma trim_space: "trim (CHR '' '' # s) = trim s"
  by (simp add: trim_def trim_start.simps [of "CHR '' '' # s"] ws_len_def byte_val_def)

lemma ws_len_all_visible: "list_all visible s \<Longrightarrow> ws_len (map byte_val s) = 0"
  using ws_len_visible by (cases s) auto

lemma trim_visible:
  assumes "list_all visible s"
  shows "trim s = s"
proof (rule trim_id)
  show "ws_len (map byte_val s) = 0" using assms by (rule ws_len_all_visible)
  have "list_all visible (rev (take k (rev s)))" for k
    using assms by (auto simp: list_all_iff dest: in_set_takeD)
  then have "ws_len (rev (take k (map byte_val (rev s)))) = 0" for k
    by (metis rev_map take_map ws_len_all_visible)
  then show "ws_len_rev (map byte_val (rev s)) = 0" by (simp add: ws_len_rev_def)
qed

lemma put_header_line: "header_ok kv \<Longrightarrow> put_header lower (header_line kv) h = hm_put (lower (fst kv)) (snd kv) h"
  by (simp add: put_header_def header_line_def header_ok_def split_once_append trim_space trim_visible)

lemma fold_put_header:
  "list_all header_ok hs \<Longrightarrow> fold (put_header lower) (map header_line hs) h = fold (\<lambda>(k, v). hm_put (lower k) v) hs h"
  by (induction hs arbitrary: h) (auto simp: put_header_line)

definition head_lines :: "client_request \<Rightarrow> string list" where
  "head_lines r = (cr_method r @ '' '' @ cr_target r @ '' HTTP/1.1'') # map header_line (cr_headers r)"

lemma printable_facts: "visible c \<Longrightarrow> printable c" "\<not> printable (CHR 0x0D)" "\<not> printable (CHR 0x0A)" "printable c \<Longrightarrow> byte_val c < 128"
  by (auto simp: visible_def printable_def byte_val_def)

lemma visible_printable: "list_all visible s \<Longrightarrow> list_all printable s"
  by (auto simp: list_all_iff printable_facts)

lemma header_line_printable: "header_ok kv \<Longrightarrow> header_line kv \<noteq> [] \<and> list_all printable (header_line kv)"
  using visible_printable [of "fst kv"] by (simp add: header_ok_def header_line_def printable_def byte_val_def)

lemma head_lines_printable:
  assumes "request_ok lower r"
  shows "list_all (\<lambda>l. l \<noteq> [] \<and> list_all printable l) (head_lines r)"
proof -
  have "list_all (\<lambda>l. l \<noteq> [] \<and> list_all printable l) (map header_line (cr_headers r))"
    using assms header_line_printable by (auto simp: request_ok_def list_all_iff)
  moreover have "list_all printable ''HTTP/1.1''" "printable (CHR '' '')" by (simp_all add: printable_def byte_val_def)
  ultimately show ?thesis
    using assms visible_printable by (simp add: head_lines_def request_ok_def)
qed

lemma head_parsed:
  assumes ok: "request_ok lower r"
  shows "header_end_at (head_text (head_lines r)) = Some (length (head_text (head_lines r)))"
    and "parse_head lower (head_text (head_lines r)) = Some (head_of lower r)"
proof -
  note p = head_lines_printable [OF ok]
  have cr: "list_all (\<lambda>l. l \<noteq> [] \<and> CHR 0x0D \<notin> set l) (head_lines r)" and lf: "list_all (\<lambda>l. CHR 0x0A \<notin> set l) (head_lines r)"
    using p printable_facts by (force simp: list_all_iff)+
  show "header_end_at (head_text (head_lines r)) = Some (length (head_text (head_lines r)))"
    by (rule header_end_at_head_text [OF _ cr]) (simp add: head_lines_def)
  have "list_all (\<lambda>c. byte_val c < 128) (head_text (head_lines r))"
    using p by (auto simp: head_text_def line_text_def CRLF_def byte_val_def [of "CHR 0x0D"] byte_val_def [of "CHR 0x0A"] list_all_iff printable_facts(4))
  then have "str_lines [] (from_utf8_lossy (head_text (head_lines r))) = head_lines r @ [[]]"
    by (simp add: from_utf8_lossy_ascii str_lines_head_text [OF lf])
  moreover have "put_header lower [] h = h" for h by (simp add: put_header_def)
  ultimately show "parse_head lower (head_text (head_lines r)) = Some (head_of lower r)"
    using ok split_request_line [of "cr_method r" "cr_target r"]
    by (simp add: parse_head_def head_lines_def head_of_def request_ok_def fold_put_header)
qed

lemma written_request_read:
  assumes ok: "request_ok lower r" and wire: "pending @ concat reads = request_text r @ rest" and "[] \<notin> set reads"
    and req: "make_request lower (head_of lower r) (cr_body r) = Some q"
  shows "\<exists>reads' pending'. read_request lower reads pending = (ReadRequest q, reads', pending')
    \<and> pending' @ concat reads' = rest \<and> [] \<notin> set reads'"
proof -
  have t: "request_text r = head_text (head_lines r) @ cr_body r" by (simp add: request_text_def head_lines_def)
  then have w: "pending @ concat reads = head_text (head_lines r) @ cr_body r @ rest" using wire by simp
  have "length (head_text (head_lines r)) \<le> MAX_HEAD" using ok by (simp add: request_ok_def t)
  from request_framed [OF w assms(3) head_parsed(1) [OF ok] this head_parsed(2) [OF ok]] show ?thesis
    using ok req by (simp add: request_ok_def)
qed

section \<open>The worker serves what was written\<close>

lemma serve_request_iteration:
  "serve_request sv transport (it\<lparr>it_request := x\<rparr>) q w = serve_request sv transport it q w"
proof -
  have "serve_authenticated sv (it\<lparr>it_request := x\<rparr>) q w = serve_authenticated sv it q w"
    by (simp add: serve_authenticated_def)
  moreover have "it_sent (it\<lparr>it_request := x\<rparr>) = it_sent it" by simp
  ultimately show ?thesis by (simp only: serve_request_def)
qed

lemma worker_loop_serves:
  "length its = length rs \<Longrightarrow> list_all (request_ok lower) rs
    \<Longrightarrow> map (\<lambda>r. make_request lower (head_of lower r) (cr_body r)) rs = map Some qs
    \<Longrightarrow> pending @ concat reads = concat (map request_text rs) @ rest \<Longrightarrow> [] \<notin> set reads
    \<Longrightarrow> worker_loop n lower sv transport its reads pending w =
      (False, connection_loop n sv transport (map2 (\<lambda>it q. it\<lparr>it_request := Some q\<rparr>) its qs) w)"
proof (induction n arbitrary: its rs qs reads pending w)
  case (Suc n)
  show ?case
  proof (cases its)
    case its: (Cons it its')
    obtain r rs' where rs: "rs = r # rs'" using Suc.prems(1) its by (cases rs) auto
    obtain q qs' where qs: "qs = q # qs'" and q: "make_request lower (head_of lower r) (cr_body r) = Some q"
      using Suc.prems(3) rs by (cases qs) auto
    have wire: "pending @ concat reads = request_text r @ concat (map request_text rs') @ rest"
      using Suc.prems(4) by (simp add: rs)
    obtain reads' pending' where rd: "read_request lower reads pending = (ReadRequest q, reads', pending')"
        "pending' @ concat reads' = concat (map request_text rs') @ rest" "[] \<notin> set reads'"
      using written_request_read [OF _ wire Suc.prems(5) q] Suc.prems(2) by (auto simp: rs)
    obtain go w' where sr: "serve_request sv transport it q w = (go, w')" by fastforce
    have it: "serve_request sv transport (it\<lparr>it_request := Some q\<rparr>) q w = (go, w')"
      using sr by (simp only: serve_request_iteration)
    show ?thesis
    proof (cases "it_shutdown it")
      case False
      have "worker_loop n lower sv transport its' reads' pending' w' =
          (False, connection_loop n sv transport (map2 (\<lambda>it q. it\<lparr>it_request := Some q\<rparr>) its' qs') w')"
        using Suc.prems rd(2,3) by (intro Suc.IH [where rs = rs']) (simp_all add: rs qs its)
      then show ?thesis using False by (simp add: rd(1) sr it qs its)
    qed (simp add: qs its)
  qed simp
qed simp

text \<open>C15. Requests that a client writes one behind the other are served by the worker exactly as they were
  written and in that order, each with its own body, however the network cuts their bytes into
  reads: the worker on the bytes is the request loop on the requests, and it does not panic on them.\<close>

theorem worker_serves_written_requests:
  assumes "concat reads = concat (map request_text rs) @ rest" and "[] \<notin> set reads"
    and "list_all (request_ok lower) rs" and "length its = length rs"
    and "map (\<lambda>r. make_request lower (head_of lower r) (cr_body r)) rs = map Some qs"
  shows "worker_connection lower sv first its reads world =
    (False, handle_connection sv first (map2 (\<lambda>it q. it\<lparr>it_request := Some q\<rparr>) its qs) world)"
  using worker_loop_serves [OF assms(4,3,5), of "[]" reads rest] assms(1,2)
  by (auto simp: worker_connection_def handle_connection_def Let_def split: option.split)

text \<open>Two requests behind each other in three reads, the second with a body.\<close>

definition get_request :: client_request where
  "get_request = \<lparr>cr_method = ''GET'', cr_target = ''/mobile/x?a=%41'', cr_headers = [], cr_body = []\<rparr>"

definition post_request :: client_request where
  "post_request = \<lparr>cr_method = ''POST'', cr_target = ''/mobile/y'', cr_headers = [(''Content-Length'', ''2'')], cr_body = ''hi''\<rparr>"

definition get_received :: http_request where
  "get_received = \<lparr>hr_request_id = None, hr_method = ''GET'', hr_path = ''/mobile/x'', hr_query = [(''a'', ''A'')], hr_headers = [],
     hr_body = [], hr_keep_alive = True\<rparr>"

definition post_received :: http_request where
  "post_received = \<lparr>hr_request_id = None, hr_method = ''POST'', hr_path = ''/mobile/y'', hr_query = [],
     hr_headers = [(''content-length'', ''2'')], hr_body = ''hi'', hr_keep_alive = True\<rparr>"

definition demo_iteration :: iteration where
  "demo_iteration = \<lparr>it_shutdown = False, it_request = None, it_host_id = Inr ''h'', it_devices = None, it_sent = True\<rparr>"

definition demo_server :: "unit server" where
  "demo_server = \<lparr>sv_to_string = (\<lambda>_. []), sv_pair = (\<lambda>b w. ((400, []), w)), sv_finish = (\<lambda>_ w. w), sv_handle = (\<lambda>r p w. ((200, []), w))\<rparr>"

abbreviation ascii_lower :: "string \<Rightarrow> string" where "ascii_lower \<equiv> map to_ascii_lower"

lemma demo_heads:
  "head_of ascii_lower get_request = \<lparr>rh_method = ''GET'', rh_target = ''/mobile/x?a=%41'', rh_version = ''HTTP/1.1'', rh_headers = []\<rparr>"
  "head_of ascii_lower post_request = \<lparr>rh_method = ''POST'', rh_target = ''/mobile/y'', rh_version = ''HTTP/1.1'',
     rh_headers = [(''content-length'', ''2'')]\<rparr>"
  by code_simp+

lemma demo_made:
  "make_request ascii_lower (head_of ascii_lower get_request) (cr_body get_request) = Some get_received"
  "make_request ascii_lower (head_of ascii_lower post_request) (cr_body post_request) = Some post_received"
  by code_simp+

lemma demo_headers_ok: "list_all header_ok (cr_headers get_request)" "list_all header_ok (cr_headers post_request)"
  by code_simp+

lemma demo_ok: "request_ok ascii_lower get_request" "request_ok ascii_lower post_request"
  using demo_headers_ok
  by (simp_all add: request_ok_def demo_heads content_length_def parse_uint_def u64_max_def MAX_BODY_def MAX_HEAD_def
      request_text_def head_text_def line_text_def header_line_def CRLF_def)
    (simp_all add: get_request_def post_request_def visible_def byte_val_def is_ascii_digit_def line_text_def header_line_def CRLF_def)

theorem worker_serves_written_requests_witness:
  "let wire = request_text get_request @ request_text post_request
   in worker_connection ascii_lower demo_server (Some (CHR 0x16)) [demo_iteration, demo_iteration]
        [take 7 wire, take 30 (drop 7 wire), drop 37 wire] () =
      (False, handle_connection demo_server (Some (CHR 0x16))
        [demo_iteration\<lparr>it_request := Some get_received\<rparr>, demo_iteration\<lparr>it_request := Some post_received\<rparr>] ())"
proof -
  let ?wire = "request_text get_request @ request_text post_request"
  have len: "37 < length ?wire" by code_simp
  have reads: "concat [take 7 ?wire, take 30 (drop 7 ?wire), drop 37 ?wire] = concat (map request_text [get_request, post_request]) @ []"
    using append_take_drop_id [of 7 ?wire] append_take_drop_id [of 30 "drop 7 ?wire"] by (simp only: drop_drop) simp
  have "[] \<notin> set [take 7 ?wire, take 30 (drop 7 ?wire), drop 37 ?wire]" using len by auto
  from worker_serves_written_requests [OF reads this, of ascii_lower "[demo_iteration, demo_iteration]" "[get_received, post_received]"]
  show ?thesis by (simp add: demo_ok demo_made Let_def)
qed

section \<open>A request that costs a place\<close>

text \<open>The percent sign is followed by a letter and a character of three bytes.\<close>

definition BAD_REQUEST :: string where
  "BAD_REQUEST = ''GET /mobile/x?a=%a'' @ [CHR 0xE2, CHR 0x82, CHR 0xAC] @ '' HTTP/1.1'' @ CRLF @ CRLF"

lemma bad_request_panics: "read_request lower [BAD_REQUEST] [] = (ReadPanicked, [], [])"
proof -
  have h: "await_head [BAD_REQUEST] [] = (Some (length BAD_REQUEST), [], BAD_REQUEST)"
  proof -
    have "header_end_at BAD_REQUEST = Some (length BAD_REQUEST)" by code_simp
    moreover have "BAD_REQUEST \<noteq> []" by (simp add: BAD_REQUEST_def)
    ultimately show ?thesis
      by (simp add: await_head.simps [of "[BAD_REQUEST]"] await_head.simps [of "[]"])
  qed
  have "str_lines [] (from_utf8_lossy BAD_REQUEST) = [''GET /mobile/x?a=%a'' @ [CHR 0xE2, CHR 0x82, CHR 0xAC] @ '' HTTP/1.1'', []]"
    by code_simp
  moreover have "split_whitespace_acc [] (''GET /mobile/x?a=%a'' @ [CHR 0xE2, CHR 0x82, CHR 0xAC] @ '' HTTP/1.1'') =
      [''GET'', ''/mobile/x?a=%a'' @ [CHR 0xE2, CHR 0x82, CHR 0xAC], ''HTTP/1.1'']"
    by code_simp
  ultimately have p: "parse_head lower BAD_REQUEST = Some \<lparr>rh_method = ''GET'',
      rh_target = ''/mobile/x?a=%a'' @ [CHR 0xE2, CHR 0x82, CHR 0xAC], rh_version = ''HTTP/1.1'', rh_headers = []\<rparr>"
    by (simp add: parse_head_def put_header_def)
  have "split_once (CHR ''?'') (''/mobile/x?a=%a'' @ [CHR 0xE2, CHR 0x82, CHR 0xAC]) = Some (''/mobile/x'', ''a=%a'' @ [CHR 0xE2, CHR 0x82, CHR 0xAC])"
      "parse_query (''a=%a'' @ [CHR 0xE2, CHR 0x82, CHR 0xAC]) = None"
    by code_simp+
  then show ?thesis
    by (simp add: read_request_def h p content_length_def MAX_BODY_def await_body.simps make_request_def)
qed

lemma bad_worker_panics: "\<not> it_shutdown it \<Longrightarrow> fst (worker_connection lower sv (Some b) (it # its) [BAD_REQUEST] world)"
proof -
  have "1000 = Suc 999" by simp
  moreover assume "\<not> it_shutdown it"
  ultimately show ?thesis
    by (simp only: worker_connection_def Let_def option.case worker_loop.simps bad_request_panics) simp
qed

text \<open>Places that are never given back: their connections are known, not running, and from peer \<open>p\<close>.\<close>

definition slot_peer :: "connection_ledger \<Rightarrow> u64 \<Rightarrow> ip_addr option" where
  "slot_peer l i = map_option sl_peer (hm_get (cl_slots l) i)"

definition places_lost :: "ip_addr \<Rightarrow> u64 set \<Rightarrow> listener \<Rightarrow> bool" where
  "places_lost p lost li \<longleftrightarrow> ledger_reachable (li_ledger li) \<and> cl_max_per_peer (li_ledger li) = 16
     \<and> (\<forall>i. slot_peer (li_ledger li) i \<noteq> None \<longrightarrow> i < li_next_id li)
     \<and> (\<forall>i \<in> lost. i \<notin> set (li_running li) \<and> slot_peer (li_ledger li) i = Some p)"

lemma ledger_caps_kept:
  "cl_max_per_peer (snd (admit i p now l)) = cl_max_per_peer l" "cl_max_per_peer (release i l) = cl_max_per_peer l"
  "cl_max_per_peer (mark_authenticated i l) = cl_max_per_peer l" "cl_max_per_peer (snd (expired now l)) = cl_max_per_peer l"
  by (auto simp: admit_def release_def mark_authenticated_def expired_def split: option.splits)

lemma slot_peer_admit: "slot_peer (snd (admit j p now l)) i = (if i = j \<and> fst (admit j p now l) then Some p else slot_peer l i)"
  by (simp add: admit_def slot_peer_def)

lemma slot_peer_release: "ledger_reachable l \<Longrightarrow> slot_peer (release j l) i = (if i = j then None else slot_peer l i)"
  using ledger_reachable_inv [of l] hm.lookup_remove [of "cl_slots l"]
  by (auto simp: release_def slot_peer_def ledger_inv_def split: option.split)

lemma slot_peer_mark: "slot_peer (mark_authenticated j l) i = slot_peer l i"
  by (simp add: mark_authenticated_def slot_peer_def split: option.split)

lemma slot_peer_expired: "slot_peer (snd (expired now l)) i = slot_peer l i"
  by (cases "hm_get (cl_slots l) i") (simp_all add: expired_def slot_peer_def)

lemmas slot_peer_simps = slot_peer_admit slot_peer_release slot_peer_mark slot_peer_expired

lemma places_lost_step:
  assumes lost: "places_lost p lost li" and id: "li_next_id li + 1 < 2 ^ 64"
  shows "places_lost p lost (listener_step lower sv e li) \<and> li_next_id (listener_step lower sv e li) \<le> li_next_id li + 1"
proof -
  let ?l = "li_ledger li"
  have r: "ledger_reachable ?l" using lost by (simp add: places_lost_def)
  show ?thesis
  proof (cases e)
    case (Accept peer now)
    have new: "slot_peer ?l (li_next_id li) = None" using lost by (cases "slot_peer ?l (li_next_id li)") (auto simp: places_lost_def)
    then have "ledger_reachable (snd (admit (li_next_id li) peer now ?l))"
      by (intro step_admit [OF r]) (simp add: slot_peer_def)
    moreover have "i \<noteq> li_next_id li" if "i \<in> lost" for i using that new lost by (auto simp: places_lost_def)
    ultimately show ?thesis
      using lost id by (auto simp: Accept accept_peer_def Let_def split_beta places_lost_def ledger_caps_kept slot_peer_admit less_Suc_eq)
  next
    case (WorkerRuns i first its reads world)
    then show ?thesis
      using lost by (auto simp: worker_ends_def places_lost_def ledger_caps_kept slot_peer_release [OF r]
          dest: notin_set_remove1 intro: step_release split: if_splits)
  next
    case (WorkerAuthenticates i)
    then show ?thesis
      using lost by (auto simp: places_lost_def ledger_caps_kept slot_peer_mark intro: step_authenticated)
  next
    case (CutExpired now)
    then show ?thesis
      using lost by (auto simp: places_lost_def ledger_caps_kept slot_peer_expired intro: step_expired)
  qed
qed

lemma places_lost_run:
  "places_lost p lost li \<Longrightarrow> li_next_id li + length es < 2 ^ 64 \<Longrightarrow> places_lost p lost (listener_run lower sv es li)"
proof (induction es arbitrary: li)
  case (Cons e es)
  then have id: "li_next_id li + 1 < 2 ^ 64" by simp
  show ?case
    using places_lost_step [OF Cons.prems(1) id, of lower sv e] Cons by (simp add: listener_run_def)
qed (simp add: listener_run_def)

lemma places_lost_refused:
  assumes "places_lost p lost li" and "card lost = 16"
  shows "\<not> fst (admit j p now (li_ledger li))"
proof -
  let ?l = "li_ledger li"
  let ?mine = "filter (\<lambda>(_, s). sl_peer s = p) (cl_slots ?l)"
  have inv: "ledger_inv ?l" using assms(1) by (simp add: places_lost_def ledger_reachable_inv)
  have "i \<in> fst ` set ?mine" if "i \<in> lost" for i
    using that assms(1) by (force simp: places_lost_def slot_peer_def dest: hm_get_in_set)
  then have "card lost \<le> card (fst ` set ?mine)" by (intro card_mono) auto
  also have "\<dots> \<le> length ?mine" by (metis card_image_le card_length le_trans List.finite_set)
  finally have "16 \<le> from_peer p (cl_slots ?l)" using assms(2) by (simp add: from_peer_def)
  then have "cl_max_per_peer ?l \<le> peer_count ?l p"
    using inv assms(1) by (simp add: ledger_inv_def peer_count_def places_lost_def Let_def)
  then show ?thesis by (simp add: admit_def)
qed

text \<open>A connection that sends the request and nothing else.\<close>

definition bad_connection :: "iteration \<Rightarrow> 'w \<Rightarrow> ip_addr \<Rightarrow> (u64 \<Rightarrow> nat) \<Rightarrow> u64 \<Rightarrow> 'w listener_event list" where
  "bad_connection it world p now i = [Accept p (now i), WorkerRuns i (Some (CHR ''G'')) [it] [BAD_REQUEST] world]"

lemma bad_connections_lose_places:
  assumes "\<not> it_shutdown it" and "n \<le> 16"
  shows "let li = listener_run lower sv (concat (map (bad_connection it world p now) [1..<n + 1])) (listener_start t0) in
    places_lost p {1..n} li \<and> li_next_id li = n + 1 \<and> li_running li = [] \<and> length (cl_slots (li_ledger li)) = n
    \<and> peer_count (li_ledger li) p = n \<and> cl_max_total (li_ledger li) = 64"
  using assms(2)
proof (induction n)
  case 0
  have "ledger_reachable (ledger_with_defaults t0)" unfolding ledger_with_defaults_def by (rule start)
  then show ?case
    by (simp add: listener_run_def listener_start_def places_lost_def slot_peer_def peer_count_def ledger_with_defaults_def
        ledger_new_def MAX_CONNECTIONS_def MAX_CONNECTIONS_PER_PEER_def)
next
  case (Suc n)
  define li where "li = listener_run lower sv (concat (map (bad_connection it world p now) [1..<n + 1])) (listener_start t0)"
  have li: "places_lost p {1..n} li" "li_next_id li = n + 1" "li_running li = []" "length (cl_slots (li_ledger li)) = n"
      "peer_count (li_ledger li) p = n" "cl_max_total (li_ledger li) = 64"
    using Suc by (simp_all add: li_def Let_def)
  have cap: "cl_max_per_peer (li_ledger li) = 16" using li(1) by (simp add: places_lost_def)
  have new: "hm_get (cl_slots (li_ledger li)) (n + 1) = None"
    using li(1,2) by (cases "hm_get (cl_slots (li_ledger li)) (n + 1)") (auto simp: places_lost_def slot_peer_def)
  let ?li = "accept_peer p (now (n + 1)) li"
  have adm: "fst (admit (n + 1) p (now (n + 1)) (li_ledger li))" using li cap Suc.prems by (simp add: admit_def)
  have acc: "places_lost p {1..n} ?li" "li_next_id ?li = n + 2" "li_running ?li = [n + 1]"
      "slot_peer (li_ledger ?li) (n + 1) = Some p" "length (cl_slots (li_ledger ?li)) = n + 1"
      "peer_count (li_ledger ?li) p = n + 1" "cl_max_total (li_ledger ?li) = 64"
    using places_lost_step [OF li(1), of lower sv "Accept p (now (n + 1))"] li adm cap Suc.prems new hm_put_new [OF new]
    by (simp_all add: accept_peer_def Let_def split_beta slot_peer_admit) (simp_all add: admit_def peer_count_def)
  have "listener_run lower sv (concat (map (bad_connection it world p now) [1..<Suc n + 1])) (listener_start t0)
      = worker_ends (n + 1) True ?li"
    using bad_worker_panics [OF assms(1), of lower sv "CHR ''G''" "[]" world] li_def
    by (simp add: listener_run_def bad_connection_def)
  moreover have "places_lost p {1..Suc n} (worker_ends (n + 1) True ?li)"
    using acc(1,3,4) by (auto simp: places_lost_def worker_ends_def le_Suc_eq)
  ultimately show ?case
    using acc by (simp add: Let_def worker_ends_def)
qed

text \<open>C34. Anyone who reaches the port, without a credential and without TLS, can lock a peer address out:
  sixteen connections that each send one request whose query holds a percent sign, a letter and a character of more than
  one byte. The decoder slices the string inside the character and the worker panics before it
  releases its place, so from then on the listener refuses every connection of that address, whatever
  happens in between, sweeps of the ledger included. The bound on the events keeps the 64-bit counter
  of connections from wrapping.\<close>

theorem malformed_query_locks_peer_out:
  assumes "\<not> it_shutdown it" and "length es < 2 ^ 63"
  shows "\<not> fst (admit j p t (li_ledger (listener_run lower sv
           (concat (map (bad_connection it world p now) [1..<17]) @ es) (listener_start t0))))"
proof -
  let ?li = "listener_run lower sv (concat (map (bad_connection it world p now) [1..<16 + 1])) (listener_start t0)"
  have "places_lost p {1..16} ?li" "li_next_id ?li = 17"
    using bad_connections_lose_places [OF assms(1), of 16 lower sv world p now t0] by (simp_all add: Let_def)
  then have "places_lost p {1..16} (listener_run lower sv es ?li)"
    using assms(2) by (rule_tac places_lost_run) simp_all
  then have "\<not> fst (admit j p t (li_ledger (listener_run lower sv es ?li)))"
    by (rule places_lost_refused) simp
  then show ?thesis by (simp add: listener_run_def)
qed

theorem malformed_query_locks_peer_out_witness:
  "\<not> fst (admit 99 (V4 ''abcd'') 9000000 (li_ledger (listener_run (\<lambda>s. s) demo_server
     (concat (map (bad_connection demo_iteration () (V4 ''abcd'') (\<lambda>i. i)) [1..<17]) @ [CutExpired 6000]) (listener_start 0))))"
  by (rule malformed_query_locks_peer_out) (simp_all add: demo_iteration_def)

end
