(* ===== verification/Mobile_Output.thy ===== *)
theory Mobile_Output
  imports Mobile_Server Output_Journal
begin

text \<open>
  The output route of \<open>crates/unpeel-serve/src/mobile.rs\<close>, by which a phone that has no live stream
  polls the output of a session: the cut of an answer at the end of the last complete character
  or escape sequence, the base64 encoder, the check of the session id, and the handler. The journal of
  the session is read by \<open>read_output_chunk\<close> of \<open>Output_Journal\<close>; what its system calls see is the parameter
  \<open>views\<close>, given the number of naps the handler took before. The text of a read error and the clock are parameters.
\<close>

section \<open>The cut\<close>

datatype cut_state = CGround | CEsc | CCsi | COsc | COscEsc

text \<open>The number of bytes of the character that a byte starts in the ground state.\<close>

definition lead_len :: "byte \<Rightarrow> nat" where
  "lead_len c =
     (let n = byte_val c in if n < 128 then 1 else if n \<ge> 240 then 4 else if n \<ge> 224 then 3 else 2)"

lemma lead_len_pos [simp]: "0 < lead_len c"
  by (simp add: lead_len_def Let_def)

text \<open>One turn of the loop at the byte at the head of the data: the next state, whether the boundary moves behind the bytes of the
  turn, and their number; \<open>None\<close> where the loop ends at a character that is not complete.\<close>

definition cut_step :: "cut_state \<Rightarrow> string \<Rightarrow> (cut_state \<times> bool \<times> nat) option" where
  "cut_step st s =
     (let c = hd s in
      case st of
        CGround \<Rightarrow>
          if c = ESC_BYTE then Some (CEsc, False, 1)
          else if is_utf8_continuation_byte c then Some (CGround, False, 1)
          else if lead_len c \<le> length s then Some (CGround, True, lead_len c)
          else None
      | CEsc \<Rightarrow>
          if c = CHR ''['' then Some (CCsi, False, 1)
          else if c = CHR '']'' \<or> c = CHR ''P'' \<or> c = CHR ''X'' \<or> c = CHR ''^'' \<or> c = CHR ''_'' then Some (COsc, False, 1)
          else Some (CGround, True, 1)
      | CCsi \<Rightarrow> if 64 \<le> byte_val c \<and> byte_val c \<le> 126 then Some (CGround, True, 1) else Some (CCsi, False, 1)
      | COsc \<Rightarrow>
          if c = CHR 0x07 then Some (CGround, True, 1)
          else if c = ESC_BYTE then Some (COscEsc, False, 1)
          else Some (COsc, False, 1)
      | COscEsc \<Rightarrow> if c = CHR 0x5C then Some (CGround, True, 1) else Some (COsc, False, 1))"

lemma cut_step_pos: "cut_step st s = Some (st', m, k) \<Longrightarrow> 0 < k"
  by (auto simp: cut_step_def Let_def split: cut_state.splits if_splits)

text \<open>\<open>i\<close> is the index of the next byte and \<open>b\<close> the boundary so far.\<close>

function cut_scan :: "nat \<Rightarrow> nat \<Rightarrow> cut_state \<Rightarrow> string \<Rightarrow> nat" where
  "cut_scan i b st s =
     (if s = [] then b
      else case cut_step st s of
        None \<Rightarrow> b
      | Some (st', moved, k) \<Rightarrow> cut_scan (i + k) (if moved then i + k else b) st' (drop k s))"
  by pat_completeness auto
termination
  by (relation "measure (\<lambda>(i, b, st, s). length s)") (auto dest: cut_step_pos)

declare cut_scan.simps [simp del]

definition last_safe_boundary :: "string \<Rightarrow> nat" where
  "last_safe_boundary data = cut_scan 0 0 CGround data"

section \<open>Base64\<close>

definition B64 :: string where
  "B64 = ''ABCDEFGHIJKLMNOPQRSTUVWXYZabcdefghijklmnopqrstuvwxyz0123456789+/''"

text \<open>Three bytes as a number of 24 bits, and one of its four digits.\<close>

definition b64_group :: "byte \<Rightarrow> byte \<Rightarrow> byte \<Rightarrow> nat" where
  "b64_group a b c = byte_val a * 2 ^ 16 + byte_val b * 2 ^ 8 + byte_val c"

definition b64_digit :: "nat \<Rightarrow> nat \<Rightarrow> byte" where
  "b64_digit n k = B64 ! (n div 2 ^ (6 * k) mod 64)"

fun base64 :: "string \<Rightarrow> string" where
  "base64 [] = []"
| "base64 [a] = (let n = b64_group a (CHR 0x00) (CHR 0x00) in [b64_digit n 3, b64_digit n 2, CHR ''='', CHR ''=''])"
| "base64 [a, b] = (let n = b64_group a b (CHR 0x00) in [b64_digit n 3, b64_digit n 2, b64_digit n 1, CHR ''=''])"
| "base64 (a # b # c # s) =
     (let n = b64_group a b c in [b64_digit n 3, b64_digit n 2, b64_digit n 1, b64_digit n 0] @ base64 s)"

section \<open>The handler\<close>

text \<open>Two dots one behind the other.\<close>

fun has_dots :: "string \<Rightarrow> bool" where
  "has_dots (a # b # s) = ((a = CHR ''.'' \<and> b = CHR ''.'') \<or> has_dots (b # s))"
| "has_dots _ = False"

definition safe_session_id :: "string \<Rightarrow> bool" where
  "safe_session_id i \<longleftrightarrow> i \<noteq> [] \<and> CHR ''/'' \<notin> set i \<and> CHR 0x5C \<notin> set i \<and> \<not> has_dots i"

definition query_u64 :: "string \<Rightarrow> http_request \<Rightarrow> u64 option" where
  "query_u64 key request = Option.bind (hm_get (hr_query request) key) (parse_uint u64_max)"

definition output_session :: "http_request \<Rightarrow> string option" where
  "output_session request =
     (case (case hm_get (hr_query request) ''session_id'' of
              Some s \<Rightarrow> Some s | None \<Rightarrow> hm_get (hr_query request) ''sessionID'') of
        Some s \<Rightarrow> if safe_session_id s then Some s else None
      | None \<Rightarrow> None)"

definition output_limit :: "http_request \<Rightarrow> nat" where
  "output_limit request =
     max 1 (min (8 * 1024 * 1024) (case query_u64 ''limit'' request of Some n \<Rightarrow> n | None \<Rightarrow> 512 * 1024))"

definition output_wait_ms :: "http_request \<Rightarrow> nat" where
  "output_wait_ms request = min 25000 (case query_u64 ''wait_ms'' request of Some n \<Rightarrow> n | None \<Rightarrow> 0)"

text \<open>The naps of a poll that waits for output: each observation is the clock at the head of the loop and the size
  of the file after the nap. The result is the number of naps.\<close>

fun output_naps :: "nat \<Rightarrow> u64 \<Rightarrow> (nat \<times> u64) list \<Rightarrow> nat" where
  "output_naps deadline offset [] = 0"
| "output_naps deadline offset ((now, len) # obs) =
     (if now < deadline then (if len > offset then 1 else Suc (output_naps deadline offset obs)) else 0)"

record output_env =
  oe_size :: u64
  oe_start :: nat
  oe_obs :: "(nat \<times> u64) list"
  oe_views :: "nat \<Rightarrow> nat \<Rightarrow> read_view"
  oe_now_ms :: u64

definition output_waited :: "http_request \<Rightarrow> output_env \<Rightarrow> nat" where
  "output_waited request env =
     (case query_u64 ''offset'' request of
        Some offset \<Rightarrow>
          if output_wait_ms request > 0 \<and> offset = oe_size env
          then output_naps (oe_start env + output_wait_ms request) offset (oe_obs env) else 0
      | None \<Rightarrow> 0)"

definition output_answer :: "string \<Rightarrow> u64 option \<Rightarrow> u64 \<Rightarrow> session_output_chunk \<Rightarrow> json" where
  "output_answer session_id offset now_ms chunk =
     (let start = oc_next_offset chunk - length (oc_data chunk);
          truncated = (case offset of None \<Rightarrow> start > 0 | Some requested \<Rightarrow> requested \<noteq> start);
          data = (if truncated then oc_data chunk else take (last_safe_boundary (oc_data chunk)) (oc_data chunk))
      in jobj [(''sessionID'', JStr session_id), (''offset'', JNum (PosInt start)),
               (''nextOffset'', JNum (PosInt (start + length data))), (''dataBase64'', JStr (base64 data)),
               (''truncated'', JBool truncated), (''capturedAtUnixMs'', JNum (PosInt now_ms))])"

definition handle_output ::
    "(json \<Rightarrow> string) \<Rightarrow> (journal_error \<Rightarrow> string) \<Rightarrow> output_env \<Rightarrow> http_request \<Rightarrow> u16 \<times> string" where
  "handle_output to_string describe env request =
     (case output_session request of
        None \<Rightarrow> (400, error_body to_string ''invalid session id'')
      | Some session_id \<Rightarrow>
          let limit = output_limit request; offset = query_u64 ''offset'' request
          in (case read_output_chunk offset (Some limit) (Some limit) (oe_views env (output_waited request env)) of
                Inl e \<Rightarrow> (500, error_body to_string (describe e))
              | Inr chunk \<Rightarrow> (200, to_string (output_answer session_id offset (oe_now_ms env) chunk))))"

end
