(* ===== verification/Mobile_Output_Props.thy ===== *)
theory Mobile_Output_Props
  imports Mobile_Output Output_Journal_Props Relay_Wire_Props
begin

text \<open>
  What a phone that polls the output route holds: always one run of the bytes the terminal printed, which ends at
  the offset it asks from next, whatever the writer of the journal does meanwhile. The base64 encoder is
  inverted by the standard decoder, the cut of an answer does not depend on how the output is
  divided over polls, and a control string longer than the limit keeps a phone waiting for good.
\<close>

section \<open>Base64\<close>

text \<open>The decoder of the standard alphabet with padding.\<close>

definition b64_value :: "byte \<Rightarrow> nat option" where
  "b64_value c = map_of (zip B64 [0..<64]) c"

definition b64_join :: "nat \<Rightarrow> nat \<Rightarrow> nat \<Rightarrow> nat \<Rightarrow> nat" where
  "b64_join w x y z = w * 2 ^ 18 + x * 2 ^ 12 + y * 2 ^ 6 + z"

definition group_bytes :: "nat \<Rightarrow> string" where
  "group_bytes n = [char_of (n div 2 ^ 16), char_of (n div 2 ^ 8), char_of n]"

fun unbase64 :: "string \<Rightarrow> string option" where
  "unbase64 [] = Some []"
| "unbase64 [a, b, c, d] =
     (case (b64_value a, b64_value b, b64_value c, b64_value d) of
        (Some w, Some x, Some y, Some z) \<Rightarrow> Some (group_bytes (b64_join w x y z))
      | (Some w, Some x, Some y, None) \<Rightarrow> if d = CHR ''='' then Some (take 2 (group_bytes (b64_join w x y 0))) else None
      | (Some w, Some x, None, None) \<Rightarrow> if c = CHR ''='' \<and> d = CHR ''='' then Some (take 1 (group_bytes (b64_join w x 0 0))) else None
      | _ \<Rightarrow> None)"
| "unbase64 (a # b # c # d # s) =
     (case (b64_value a, b64_value b, b64_value c, b64_value d) of
        (Some w, Some x, Some y, Some z) \<Rightarrow> map_option (append (group_bytes (b64_join w x y z))) (unbase64 s)
      | _ \<Rightarrow> None)"
| "unbase64 _ = None"

lemma b64_value_digit [simp]: "b64_value (b64_digit n k) = Some (n div 2 ^ (6 * k) mod 64)"
proof -
  have "list_all (\<lambda>m. b64_value (B64 ! m) = Some m) [0..<64]" by code_simp
  then have "b64_value (B64 ! m) = Some m" if "m < 64" for m using that by (simp add: list_all_iff)
  then show ?thesis by (simp add: b64_digit_def)
qed

lemma b64_value_pad [simp]: "b64_value (CHR ''='') = None"
  by code_simp

lemma b64_digit_ascii: "byte_val (b64_digit n k) < 128"
proof -
  have "list_all (\<lambda>m. byte_val (B64 ! m) < 128) [0..<64]" by code_simp
  then have "byte_val (B64 ! m) < 128" if "m < 64" for m using that by (simp add: list_all_iff)
  then show ?thesis by (simp add: b64_digit_def)
qed

lemma b64_join_digits:
  assumes "n < 2 ^ 24"
  shows "b64_join (n div 2 ^ 18 mod 64) (n div 2 ^ 12 mod 64) (n div 2 ^ 6 mod 64) (n mod 64) = n"
proof -
  define q r s where "q = n div 2 ^ 6" and "r = q div 2 ^ 6" and "s = r div 2 ^ 6"
  have d: "n div 2 ^ 12 = r" "n div 2 ^ 18 = s" by (simp_all add: q_def r_def s_def div_mult2_eq [symmetric])
  have "n div 2 ^ 18 < 64" using assms by (simp add: less_mult_imp_div_less)
  then have "s mod 64 = s" unfolding d by (rule mod_less)
  moreover have "n = q * 64 + n mod 64" "q = r * 64 + q mod 64" "r = s * 64 + r mod 64"
    by (simp_all add: q_def r_def s_def)
  ultimately show ?thesis unfolding b64_join_def d q_def [symmetric] by simp
qed

lemma b64_group_less: "b64_group a b c < 2 ^ 24"
  using byte_val_less [of a] byte_val_less [of b] byte_val_less [of c] by (simp add: b64_group_def)

lemma group_bytes_group: "group_bytes (b64_group a b c) = [a, b, c]"
proof -
  have ab: "b64_group a b c div 2 ^ 16 = byte_val a" "b64_group a b c div 2 ^ 8 = byte_val a * 2 ^ 8 + byte_val b"
    using byte_val_less [of b] byte_val_less [of c] by (simp_all add: b64_group_def)
  have w: "char_of (x * 256 + byte_val d) = d" for x d
  proof -
    have "(x * 256 + byte_val d) mod 256 = byte_val d" using byte_val_less [of d] by simp
    then show ?thesis by (metis byte_val_def char_of_char char_of_mod_256)
  qed
  show ?thesis
    using w [of 0 a] w [of "byte_val a" b] w [of "byte_val a * 2 ^ 8 + byte_val b" c]
    unfolding group_bytes_def ab by (simp add: b64_group_def algebra_simps)
qed

lemma unbase64_groups:
  assumes "n < 2 ^ 24"
  shows "unbase64 ([b64_digit n 3, b64_digit n 2, b64_digit n 1, b64_digit n 0] @ s) = map_option (append (group_bytes n)) (unbase64 s)"
  using b64_join_digits [OF assms] by (cases s) simp_all

lemma base64_inverted: "unbase64 (base64 s) = Some s"
proof (induction s rule: base64.induct)
  case (2 a)
  have "b64_group a (CHR 0x00) (CHR 0x00) div 2 ^ 6 mod 64 = 0" "b64_group a (CHR 0x00) (CHR 0x00) mod 64 = 0"
    by (simp_all add: b64_group_def byte_val_def mod_eq_0_iff_dvd)
  with b64_join_digits [OF b64_group_less, of a "CHR 0x00" "CHR 0x00"] group_bytes_group [of a "CHR 0x00" "CHR 0x00"]
  show ?case by (simp add: Let_def)
next
  case (3 a b)
  have "b64_group a b (CHR 0x00) mod 64 = 0"
    by (simp add: b64_group_def byte_val_def mod_eq_0_iff_dvd)
  with b64_join_digits [OF b64_group_less, of a b "CHR 0x00"] group_bytes_group [of a b "CHR 0x00"]
  show ?case by (simp add: Let_def)
next
  case (4 a b c s)
  have "base64 (a # b # c # s) = [b64_digit (b64_group a b c) 3, b64_digit (b64_group a b c) 2,
      b64_digit (b64_group a b c) 1, b64_digit (b64_group a b c) 0] @ base64 s"
    by (simp add: Let_def)
  with unbase64_groups [OF b64_group_less] show ?case by (simp only: "4" group_bytes_group) simp
qed simp

lemma base64_is_faithful: "base64_faithful base64 unbase64"
proof -
  have "list_all (\<lambda>c. byte_val c < 128) (base64 s)" for s
    by (induction s rule: base64.induct) (simp_all add: Let_def b64_digit_ascii, simp_all add: byte_val_def)
  then show ?thesis by (simp add: base64_faithful_def base64_inverted utf8_ascii)
qed

section \<open>The cut\<close>

lemma cut_step_len: "cut_step st s = Some (st', m, k) \<Longrightarrow> s \<noteq> [] \<Longrightarrow> k \<le> length s"
  by (cases s) (auto simp: cut_step_def Let_def split: cut_state.splits if_splits)

lemma cut_step_append: "cut_step st s = Some x \<Longrightarrow> s \<noteq> [] \<Longrightarrow> cut_step st (s @ t) = Some x"
  unfolding cut_step_def Let_def hd_append2 by (cases st) (simp_all split: if_splits)

lemma cut_step_moved: "cut_step st s = Some (st', True, k) \<Longrightarrow> st' = CGround"
  by (auto simp: cut_step_def Let_def split: cut_state.splits if_splits)

lemma cut_scan_shift: "cut_scan (n + i) (n + b) st s = n + cut_scan i b st s"
proof (induction i b st s rule: cut_scan.induct)
  case (1 i b st s)
  show ?case
  proof (cases "s = [] \<or> cut_step st s = None")
    case False
    then obtain st' m k where "s \<noteq> []" "cut_step st s = Some (st', m, k)" by (auto split: prod.splits)
    with "1" [of "(st', m, k)" st' "(m, k)" m k] show ?thesis
      by (cases m) (simp_all add: cut_scan.simps [of _ _ st s] add.assoc)
  qed (auto simp: cut_scan.simps [of _ _ st s])
qed

lemma cut_scan_bounds: "b \<le> i \<Longrightarrow> cut_scan i b st s = b \<or> (i < cut_scan i b st s \<and> cut_scan i b st s \<le> i + length s)"
proof (induction i b st s rule: cut_scan.induct)
  case (1 i b st s)
  show ?case
  proof (cases "s = [] \<or> cut_step st s = None")
    case False
    then obtain st' m k where s: "s \<noteq> []" "cut_step st s = Some (st', m, k)" by (auto split: prod.splits)
    with "1.IH" [of "(st', m, k)" st' "(m, k)" m k] "1.prems" cut_step_pos [OF s(2)] cut_step_len [OF s(2,1)] show ?thesis
      by (cases m) (auto simp: cut_scan.simps [of _ _ st s])
  qed (auto simp: cut_scan.simps [of _ _ st s])
qed

text \<open>A scan of more bytes goes on from the boundary as from the start of the data.\<close>

lemma cut_scan_resumes:
  "b \<le> i \<Longrightarrow> r = cut_scan i b st s \<Longrightarrow> r \<noteq> b \<Longrightarrow> cut_scan i b st (s @ t) = cut_scan r r CGround (drop (r - i) (s @ t))"
proof (induction i b st s rule: cut_scan.induct)
  case (1 i b st s)
  have "cut_scan i b st s = b" if "s = [] \<or> cut_step st s = None"
    using that by (subst cut_scan.simps) auto
  then have "s \<noteq> []" "cut_step st s \<noteq> None" using "1.prems"(2,3) by blast+
  then obtain st' m k where s: "s \<noteq> []" "cut_step st s = Some (st', m, k)" by (cases "cut_step st s") auto
  let ?b = "if m then i + k else b"
  have k: "0 < k" "k \<le> length s" using cut_step_pos [OF s(2)] cut_step_len [OF s(2,1)] .
  have r: "r = cut_scan (i + k) ?b st' (drop k s)" using "1.prems"(2) s by (simp add: cut_scan.simps [of _ _ st s])
  have more: "cut_scan i b st (s @ t) = cut_scan (i + k) ?b st' (drop k s @ t)"
    using cut_step_append [OF s(2,1), of t] s(1) k by (simp add: cut_scan.simps [of _ _ st "s @ t"])
  have le: "?b \<le> i + k" using "1.prems"(1) by simp
  have ge: "i + k \<le> r" using cut_scan_bounds [OF le, of st' "drop k s"] "1.prems"(3) r by (cases m) auto
  then have d: "drop (r - (i + k)) (drop k s @ t) = drop (r - i) (s @ t)" using k(2) by (simp flip: drop_drop) (simp add: diff_diff_eq)
  show ?case
  proof (cases "r = ?b")
    case True
    then have "m" "r = i + k" using "1.prems"(3) by (auto split: if_splits)
    then show ?thesis using more cut_step_moved [of st s st' k] s(2) d by simp
  next
    case False
    then show ?thesis using "1.IH" [OF s(1,2) refl refl le r False] more d by simp
  qed
qed

text \<open>So what is cut off one answer is the start of the next, and the division of the output over
  answers does not change where it is cut.\<close>

lemma cut_independent_of_polls:
  "last_safe_boundary (s @ t) = last_safe_boundary s + last_safe_boundary (drop (last_safe_boundary s) s @ t)"
proof (cases "last_safe_boundary s = 0")
  case False
  let ?r = "cut_scan 0 0 CGround s"
  have "?r \<le> length s" using cut_scan_bounds [of 0 0 CGround s] by auto
  then show ?thesis
    using cut_scan_resumes [OF _ refl, of 0 0 CGround s t] cut_scan_shift [of ?r 0 0] False by (simp add: last_safe_boundary_def)
qed simp

lemma cut_le: "last_safe_boundary s \<le> length s"
  using cut_scan_bounds [of 0 0 CGround s] by (auto simp: last_safe_boundary_def)

text \<open>A control string that has not ended has no boundary.\<close>

lemma open_string_scan: "CHR 0x07 \<notin> set s \<Longrightarrow> ESC_BYTE \<notin> set s \<Longrightarrow> cut_scan i b COsc s = b"
proof (induction s arbitrary: i)
  case (Cons c s)
  then have "cut_step COsc (c # s) = Some (COsc, False, 1)" by (auto simp: cut_step_def)
  with Cons show ?case by (subst cut_scan.simps) simp
qed (simp add: cut_scan.simps)

lemma open_string_uncut:
  assumes "CHR 0x07 \<notin> set payload" and "ESC_BYTE \<notin> set payload"
  shows "last_safe_boundary (take n (ESC_BYTE # CHR '']'' # payload)) = 0"
proof -
  have "cut_scan (Suc (Suc 0)) 0 COsc (take k payload) = 0" for k
    using assms by (intro open_string_scan) (auto dest: in_set_takeD)
  then show ?thesis
    by (cases n; cases "n - 1") (simp_all add: last_safe_boundary_def cut_scan.simps [of 0] cut_scan.simps [of 1] cut_scan.simps [of "Suc 0"] cut_step_def)
qed

section \<open>What a phone shows\<close>

text \<open>A run of the printed bytes that ends at an offset.\<close>

definition printed_run :: "u64 \<Rightarrow> string \<Rightarrow> u64 \<Rightarrow> string \<Rightarrow> bool" where
  "printed_run init printed offset s \<longleftrightarrow> length s \<le> offset \<and> (s \<noteq> [] \<longrightarrow>
     init + length s \<le> offset \<and> offset \<le> init + length printed
     \<and> s = take (length s) (drop (offset - length s - init) printed))"

lemma printed_run_take:
  assumes "printed_run init printed (start + length s) s" and "m \<le> length s"
  shows "printed_run init printed (start + m) (take m s)"
proof (cases "m = 0")
  case False
  then have "s \<noteq> []" using assms(2) by auto
  then have "init \<le> start" "start + length s \<le> init + length printed" "s = take (length s) (drop (start - init) printed)"
    using assms(1) by (auto simp: printed_run_def)
  moreover from this(3) have "take m s = take m (drop (start - init) printed)"
    using assms(2) by (metis min.absorb1 take_take)
  ultimately show ?thesis using assms(2) by (simp add: printed_run_def)
qed (simp add: printed_run_def)

lemma printed_run_append:
  assumes s: "printed_run init printed offset s" and d: "printed_run init printed (offset + length d) d"
  shows "printed_run init printed (offset + length d) (s @ d)"
proof (cases "s = [] \<or> d = []")
  case False
  then have "init + length s \<le> offset" "s = take (length s) (drop (offset - length s - init) printed)"
      "offset + length d \<le> init + length printed" "d = take (length d) (drop (offset - init) printed)"
    using s d by (simp_all add: printed_run_def)
  moreover from this(1) have "drop (offset - init) printed = drop (length s) (drop (offset - length s - init) printed)" by simp
  ultimately have "s @ d = take (length s + length d) (drop (offset - length s - init) printed)"
    by (simp only: take_add)
  then show ?thesis
    using False \<open>init + length s \<le> offset\<close> \<open>offset + length d \<le> init + length printed\<close> by (simp add: printed_run_def)
qed (use assms in auto)

text \<open>The phone keeps what it shows and where it asks from; an answer that is truncated starts the screen anew.\<close>

record phone =
  ph_shown :: string
  ph_offset :: "u64 option"

definition phone_new :: phone where "phone_new = \<lparr>ph_shown = [], ph_offset = None\<rparr>"

definition phone_update :: "(string \<Rightarrow> json option) \<Rightarrow> u16 \<times> string \<Rightarrow> phone \<Rightarrow> phone" where
  "phone_update from_slice answer ph =
     (case (if fst answer = 200 then from_slice (snd answer) else None) of
        None \<Rightarrow> ph
      | Some v \<Rightarrow>
          (case (jget_u64 ''nextOffset'' v, Option.bind (jget_str ''dataBase64'' v) unbase64, Option.bind (jget ''truncated'' v) as_bool) of
             (Some n, Some d, Some tr) \<Rightarrow> \<lparr>ph_shown = (if tr then d else ph_shown ph @ d), ph_offset = Some n\<rparr>
           | _ \<Rightarrow> ph))"

text \<open>The states of a phone that polls with any limits and waits, while the writer of the session takes
  the journal through the worlds \<open>ws\<close>.\<close>

inductive phone_polls :: "journal_world list \<Rightarrow> (json \<Rightarrow> string) \<Rightarrow> (string \<Rightarrow> json option) \<Rightarrow> (journal_error \<Rightarrow> string) \<Rightarrow> phone \<Rightarrow> bool"
  for ws to_string from_slice describe where
  polls_start: "phone_polls ws to_string from_slice describe phone_new"
| polls_step: "phone_polls ws to_string from_slice describe ph
    \<Longrightarrow> query_u64 ''offset'' request = ph_offset ph
    \<Longrightarrow> list_all (\<lambda>(k, v). utf8_valid v) (hr_query request) \<Longrightarrow> oe_now_ms env \<le> u64_max
    \<Longrightarrow> (\<And>n k. k \<le> 3 \<Longrightarrow> view_of ws (oe_views env n k))
    \<Longrightarrow> phone_polls ws to_string from_slice describe
          (phone_update from_slice (handle_output to_string describe env request) ph)"

lemma attempt_bounds:
  assumes "read_attempt offset mx tb v = Inr a" and "length (jw_file (rv_len v)) \<le> m" "newest_file_len v \<le> m"
    and "\<And>n. offset = Some n \<Longrightarrow> n \<le> m"
  shows "case a of Sample c \<Rightarrow> length (oc_data c) \<le> oc_next_offset c \<and> oc_next_offset c \<le> m | Overtaken n e \<Rightarrow> n \<le> m"
proof (cases "rv_exists v")
  case True
  let ?len = "length (jw_file (rv_len v))"
  obtain start effective data where a: "read_exact (jw_file (rv_data v)) (min start ?len) (min effective (?len - min start ?len)) = Some data"
      "a = (if min start ?len < min (read_output_retention_path (rv_floor2 v)) (newest_file_len v)
            then Overtaken (min (read_output_retention_path (rv_floor2 v)) (newest_file_len v)) (exited_in (rv_health v))
            else Sample \<lparr>oc_data = data, oc_next_offset = min start ?len + length data, oc_exited = exited_in (rv_health v), oc_exists = True\<rparr>)"
    using assms(1) True by (auto simp: read_attempt_def Let_def rbind_Inr_iff split: prod.splits option.splits)
  have "length data = min effective (?len - min start ?len)" using a(1) by (rule read_exact_length)
  then have "min start ?len + length data \<le> m" using assms(2) by linarith
  moreover have "min (read_output_retention_path (rv_floor2 v)) (newest_file_len v) \<le> m"
    using assms(3) by (rule min.coboundedI2)
  ultimately show ?thesis unfolding a(2) by simp
qed (use assms in \<open>auto simp: read_attempt_def split: option.splits\<close>)

lemma chunk_bounds:
  assumes "\<And>k. k \<le> r \<Longrightarrow> length (jw_file (rv_len (views k))) \<le> m \<and> newest_file_len (views k) \<le> m"
    and "\<And>n. offset = Some n \<Longrightarrow> n \<le> m"
  shows "read_output_chunk_with_retries offset mx tb views r = Inr c \<Longrightarrow> length (oc_data c) \<le> oc_next_offset c \<and> oc_next_offset c \<le> m"
  using assms(1)
proof (induction r)
  case 0
  then obtain a where "read_attempt offset mx tb (views 0) = Inr a"
      "(case a of Sample chunk \<Rightarrow> Inr chunk
        | Overtaken n e \<Rightarrow> Inr \<lparr>oc_data = [], oc_next_offset = n, oc_exited = e, oc_exists = True\<rparr>) = (Inr c :: journal_error + _)"
    by (subst (asm) read_output_chunk_with_retries.simps) (auto simp: rbind_Inr_iff)
  with attempt_bounds [OF this(1), of m] assms(2) "0.prems"(2) show ?case by (cases a) auto
next
  case (Suc r)
  obtain a where a: "read_attempt offset mx tb (views (Suc r)) = Inr a"
      "(case a of Sample chunk \<Rightarrow> Inr chunk | Overtaken _ _ \<Rightarrow> read_output_chunk_with_retries offset mx tb views r) = Inr c"
    using Suc.prems(1) by (subst (asm) read_output_chunk_with_retries.simps) (auto simp: rbind_Inr_iff)
  show ?case
  proof (cases a)
    case (Sample x)
    then show ?thesis using attempt_bounds [OF a(1), of m] assms(2) Suc.prems(2) a(2) by auto
  next
    case Overtaken
    then show ?thesis using Suc.IH Suc.prems(2) a(2) by auto
  qed
qed

lemma query_u64_le: "query_u64 k request = Some n \<Longrightarrow> n \<le> u64_max"
  by (auto simp: query_u64_def bind_eq_Some_conv dest: parse_uint_le)

lemma output_session_utf8:
  "output_session request = Some i \<Longrightarrow> list_all (\<lambda>(k, v). utf8_valid v) (hr_query request) \<Longrightarrow> utf8_valid i"
  by (auto simp: output_session_def list_all_iff split: option.splits if_splits dest!: hm_get_in_set)

lemma view_of_worlds: "view_of ws v \<Longrightarrow> rv_len v \<in> set ws \<and> rv_len2 v \<in> set ws"
  unfolding view_of_def by (metis le_less_trans nth_mem)

lemma phone_ignores_errors: "phone_update from_slice (400, b) ph = ph" "phone_update from_slice (500, b) ph = ph"
  by (simp_all add: phone_update_def)

text \<open>How the phone takes an answer.\<close>

lemma phone_takes_answer:
  fixes offset :: "u64 option"
  assumes json: "json_faithful to_string from_slice" and "utf8_valid i" "now \<le> u64_max"
    and c: "length (oc_data c) \<le> oc_next_offset c" "oc_next_offset c \<le> u64_max"
  defines "start \<equiv> oc_next_offset c - length (oc_data c)"
  defines "tr \<equiv> (case offset of None \<Rightarrow> start > 0 | Some requested \<Rightarrow> requested \<noteq> start)"
  defines "d \<equiv> (if tr then oc_data c else take (last_safe_boundary (oc_data c)) (oc_data c))"
  shows "phone_update from_slice (200, to_string (output_answer i offset now c)) ph
    = \<lparr>ph_shown = (if tr then d else ph_shown ph @ d), ph_offset = Some (start + length d)\<rparr>"
proof -
  let ?v = "output_answer i offset now c"
  let ?kvs = "[(''sessionID'', JStr i), (''offset'', JNum (PosInt start)),
               (''nextOffset'', JNum (PosInt (start + length d))), (''dataBase64'', JStr (base64 d)),
               (''truncated'', JBool tr), (''capturedAtUnixMs'', JNum (PosInt now))]"
  have v: "?v = JObj (jmap_of ?kvs)" by (simp only: output_answer_def Let_def jobj_def d_def tr_def start_def)
  have "length d \<le> length (oc_data c)" by (simp add: d_def)
  then have "start + length d \<le> u64_max" using c by (simp add: start_def)
  moreover have "utf8_valid (base64 d)" using base64_is_faithful by (simp add: base64_faithful_def)
  ultimately have "json_wf ?v"
    unfolding v using assms(2,3) by (intro json_wf_jobj) (simp add: byte_val_def)
  moreover have "json_nests 4 ?v"
    unfolding v by (rule json_nests_message) simp
  ultimately have "from_slice (to_string ?v) = Some ?v" by (rule json_read_back [OF json])
  moreover have "map_of (jmap_of ?kvs) = map_of ?kvs" by (rule map_of_jmap_of_distinct) simp
  ultimately show ?thesis
    by (simp add: phone_update_def v jget_u64_def jget_str_def base64_inverted)
qed

text \<open>C28. A phone that polls the output route, first without an offset and then always from where the last answer ended, shows at every
  moment one gapless run of the bytes the terminal printed that ends at its offset. That holds with any limits and waits, through read errors
  and truncated answers, and while the writer appends to the journal, moves its floor and punches holes.\<close>

theorem phone_shows_printed_bytes:
  assumes new: "writer_new oc init retain adv w0 = (Inr wr, ws0)"
    and run: "writer_run ops wr (last ws0) = (wr', ws)"
    and fits: "init + length (accepted ops) \<le> u64_max"
    and json: "json_faithful to_string from_slice"
    and polls: "phone_polls ws to_string from_slice describe ph"
  shows "case ph_offset ph of None \<Rightarrow> ph_shown ph = [] | Some n \<Rightarrow> printed_run init (accepted ops) n (ph_shown ph)"
  using polls
proof (induction rule: phone_polls.induct)
  case (polls_step ph request env)
  let ?H = "replicate init (CHR 0x00) @ accepted ops"
  let ?views = "oe_views env (output_waited request env)"
  have worlds: "list_all (world_ok ?H) ws"
    using run_keeps [OF writer_new_ok(1) [OF new] run] by simp
  have small: "length (jw_file (rv_len (?views k))) \<le> u64_max \<and> newest_file_len (?views k) \<le> u64_max" if "k \<le> 3" for k
  proof -
    have "length (jw_file w) \<le> u64_max" if "w \<in> set ws" for w
      using that worlds fits by (auto simp: list_all_iff world_ok_def)
    then show ?thesis using view_of_worlds [OF polls_step.hyps(5) [OF that]] by (simp add: newest_file_len_def)
  qed
  show ?case
  proof (cases "output_session request")
    case (Some i)
    let ?read = "read_output_chunk (query_u64 ''offset'' request) (Some (output_limit request)) (Some (output_limit request)) ?views"
    show ?thesis
    proof (cases ?read)
      case (Inr c)
      let ?start = "oc_next_offset c - length (oc_data c)"
      have b: "length (oc_data c) \<le> oc_next_offset c" "oc_next_offset c \<le> u64_max"
        using chunk_bounds [OF small query_u64_le] Inr by (auto simp: read_output_chunk_def)
      have "\<forall>k \<le> 3. view_of ws (?views k)" using polls_step.hyps(5) by simp
      from journal_read_sound [OF new run this Inr]
      have D: "printed_run init (accepted ops) (?start + length (oc_data c)) (oc_data c)"
        using b(1) by (auto simp: Let_def printed_run_def)
      have ans: "handle_output to_string describe env request
          = (200, to_string (output_answer i (query_u64 ''offset'' request) (oe_now_ms env) c))"
        using Some Inr by (simp add: handle_output_def Let_def)
      let ?cut = "take (last_safe_boundary (oc_data c)) (oc_data c)"
      have cut: "printed_run init (accepted ops) (?start + length ?cut) ?cut"
        using printed_run_take [OF D cut_le] cut_le [of "oc_data c"] by (simp add: min_absorb2)
      show ?thesis
        using phone_takes_answer [OF json output_session_utf8 [OF Some polls_step.hyps(3)] polls_step.hyps(4) b, of "query_u64 ''offset'' request" ph]
          polls_step.IH polls_step.hyps(2) D cut printed_run_append [OF _ cut, of "ph_shown ph"]
        unfolding ans by (auto split: option.splits)
    next
      case (Inl e)
      then have "handle_output to_string describe env request = (500, error_body to_string (describe e))"
        using Some by (simp add: handle_output_def Let_def)
      then show ?thesis using polls_step.IH by (simp only: phone_ignores_errors)
    qed
  next
    case None
    then have "handle_output to_string describe env request = (400, error_body to_string ''invalid session id'')"
      by (simp add: handle_output_def)
    then show ?thesis using polls_step.IH by (simp only: phone_ignores_errors)
  qed
qed (simp add: phone_new_def)

text \<open>The journal of \<open>Output_Journal_Props\<close>, polled once without an offset: the answer starts at the floor.\<close>

definition demo_poll :: http_request where
  "demo_poll = \<lparr>hr_request_id = None, hr_method = ''GET'', hr_path = ''/mobile/output'', hr_query = [(''session_id'', ''s'')],
     hr_headers = [], hr_body = [], hr_keep_alive = True\<rparr>"

definition demo_output_env :: output_env where
  "demo_output_env = \<lparr>oe_size = 6, oe_start = 0, oe_obs = [], oe_views = (\<lambda>_ _. quiet_view demo_end), oe_now_ms = 9\<rparr>"

lemma demo_poll_query: "query_u64 k demo_poll = None" if "k \<noteq> ''session_id''" for k
  using that by (simp add: query_u64_def demo_poll_def)

lemma demo_poll_read:
  "read_output_chunk None (Some (512 * 1024)) (Some (512 * 1024)) (\<lambda>_. quiet_view demo_end) =
     Inr \<lparr>oc_data = ''cd'', oc_next_offset = 6, oc_exited = False, oc_exists = True\<rparr>"
  by (simp add: read_output_chunk_def read_output_chunk_with_retries.simps [of _ _ _ _ 3] read_attempt_def Let_def newest_file_len_def quiet_view_def demo_end_def demo_world_def
      read_output_retention_path_def retention_at_def read_start_def align_replay_tail_start_def read_exact_def cell_byte_def exited_in_def
      saturating_add64_def u64_max_def OUTPUT_RETENTION_VERSION_def)

lemma demo_poll_answer:
  "handle_output to_string describe demo_output_env demo_poll =
     (200, to_string (output_answer ''s'' None 9 \<lparr>oc_data = ''cd'', oc_next_offset = 6, oc_exited = False, oc_exists = True\<rparr>))"
proof -
  have "output_session demo_poll = Some ''s''" by (simp add: output_session_def demo_poll_def safe_session_id_def)
  moreover have "output_limit demo_poll = 512 * 1024" by (simp add: output_limit_def demo_poll_query)
  ultimately show ?thesis
    using demo_poll_read by (simp add: handle_output_def Let_def demo_poll_query demo_output_env_def)
qed

theorem phone_shows_printed_bytes_witness:
  "printed_run 1 (accepted [(calm_env 5, DEMO)]) 6 ''cd''
   \<and> phone_polls [demo_world [None] 1, demo_world (None # map Some DEMO) 1, demo_world (None # map Some DEMO) 4, demo_end, demo_end]
       (unary_print JNull) (unary_parse JNull) (\<lambda>_. []) \<lparr>ph_shown = ''cd'', ph_offset = Some 6\<rparr>"
proof -
  let ?ws = "[demo_world [None] 1, demo_world (None # map Some DEMO) 1, demo_world (None # map Some DEMO) 4, demo_end, demo_end]"
  let ?ph = "\<lparr>ph_shown = ''cd'', ph_offset = Some 6\<rparr>"
  have "phone_update (unary_parse JNull) (handle_output (unary_print JNull) (\<lambda>_. []) demo_output_env demo_poll) phone_new = ?ph"
    unfolding demo_poll_answer
    using phone_takes_answer [OF unary_faithful [of JNull], of "''s''" 9 "\<lparr>oc_data = ''cd'', oc_next_offset = 6, oc_exited = False, oc_exists = True\<rparr>" None phone_new]
    by (simp add: byte_val_def u64_max_def)
  moreover have "view_of ?ws (quiet_view demo_end)"
    unfolding view_of_def by (intro exI [of _ 3]) (simp add: quiet_view_def numeral_3_eq_3)
  then have "phone_polls ?ws (unary_print JNull) (unary_parse JNull) (\<lambda>_. [])
      (phone_update (unary_parse JNull) (handle_output (unary_print JNull) (\<lambda>_. []) demo_output_env demo_poll) phone_new)"
    by (intro polls_step polls_start)
       (simp_all add: demo_poll_query phone_new_def demo_output_env_def u64_max_def, simp add: demo_poll_def byte_val_def)
  ultimately have polls: "phone_polls ?ws (unary_print JNull) (unary_parse JNull) (\<lambda>_. []) ?ph" by simp
  have run: "writer_run [(calm_env 5, DEMO)] (demo_writer 1 4) (last [demo_world [] 1, demo_world [] 1, demo_world [None] 1]) = (demo_writer 4 7, ?ws)"
    unfolding demo_end_def demo_run [symmetric] by (simp only: last.simps) simp
  have "1 + length (accepted [(calm_env 5, DEMO)]) \<le> u64_max"
    by (simp add: accepted_def calm_env_def DEMO_def u64_max_def)
  from phone_shows_printed_bytes [OF demo_new run this unary_faithful polls] polls show ?thesis by simp
qed

section \<open>A long control string\<close>

text \<open>C35. An answer that starts where it was asked to is cut behind the last complete character or escape sequence. Where an operating system
  command (an OSC string, which carries a picture or the clipboard) begins at the offset of a phone and is longer than the limit of its polls, there is no such place, and every poll
  gets an empty answer that names the same offset again: the phone shows nothing of the session until
  the journal drops the string.\<close>

theorem long_control_string_stalls_phone:
  assumes i: "output_session request = Some i" and offset: "query_u64 ''offset'' request = Some n"
    and view: "v = oe_views env (output_waited request env) 3" "rv_exists v"
    and floor: "read_output_retention_path (rv_floor v) \<le> n" "read_output_retention_path (rv_floor2 v) \<le> n"
    and long: "n + output_limit request \<le> length (jw_file (rv_len v))"
    and data: "read_exact (jw_file (rv_data v)) n (output_limit request) = Some (take (output_limit request) (ESC_BYTE # CHR '']'' # payload))"
    and unended: "CHR 0x07 \<notin> set payload" "ESC_BYTE \<notin> set payload"
  shows "handle_output to_string describe env request = (200, to_string (jobj
    [(''sessionID'', JStr i), (''offset'', JNum (PosInt n)), (''nextOffset'', JNum (PosInt n)), (''dataBase64'', JStr []),
     (''truncated'', JBool False), (''capturedAtUnixMs'', JNum (PosInt (oe_now_ms env)))]))"
proof -
  let ?limit = "output_limit request"
  define D where "D = take ?limit (ESC_BYTE # CHR '']'' # payload)"
  have len: "length D = ?limit" using data unfolding D_def by (rule read_exact_length)
  have "read_attempt (Some n) (Some ?limit) (Some ?limit) v =
      Inr (Sample \<lparr>oc_data = D, oc_next_offset = n + ?limit, oc_exited = exited_in (rv_health v), oc_exists = True\<rparr>)"
  proof -
    have "min (read_output_retention_path (rv_floor v)) (length (jw_file (rv_len v))) \<le> n" "n \<le> length (jw_file (rv_len v))"
        "min n (length (jw_file (rv_len v))) = n" "min ?limit (length (jw_file (rv_len v)) - n) = ?limit"
        "\<not> n < min (read_output_retention_path (rv_floor2 v)) (newest_file_len v)"
      using floor long by simp_all
    then show ?thesis
      using view(2) data len by (simp only: read_attempt_def Let_def read_start_def) (simp add: D_def [symmetric])
  qed
  then have "read_output_chunk (Some n) (Some ?limit) (Some ?limit) (oe_views env (output_waited request env)) =
      Inr \<lparr>oc_data = D, oc_next_offset = n + ?limit, oc_exited = exited_in (rv_health v), oc_exists = True\<rparr>"
    using view(1) by (simp add: read_output_chunk_def read_output_chunk_with_retries.simps [of _ _ _ _ 3])
  then show ?thesis
    using i offset len open_string_uncut [OF unended, of ?limit, folded D_def] by (simp add: handle_output_def Let_def output_answer_def)
qed

definition stall_poll :: http_request where
  "stall_poll = demo_poll\<lparr>hr_query := [(''session_id'', ''s''), (''offset'', ''0''), (''limit'', ''4'')]\<rparr>"

definition stall_world :: journal_world where
  "stall_world = demo_world (map Some (ESC_BYTE # '']1337;'')) 0"

theorem long_control_string_stalls_phone_witness:
  "handle_output (unary_print JNull) (\<lambda>_. []) (demo_output_env\<lparr>oe_views := \<lambda>_ _. quiet_view stall_world\<rparr>) stall_poll =
    (200, unary_print JNull (jobj
      [(''sessionID'', JStr ''s''), (''offset'', JNum (PosInt 0)), (''nextOffset'', JNum (PosInt 0)), (''dataBase64'', JStr []),
       (''truncated'', JBool False), (''capturedAtUnixMs'', JNum (PosInt 9))]))"
proof -
  have q: "query_u64 ''offset'' stall_poll = Some 0" "query_u64 ''limit'' stall_poll = Some 4"
    by (simp_all add: query_u64_def stall_poll_def demo_poll_def parse_uint_def is_ascii_digit_def byte_val_def u64_max_def)
  have limit: "output_limit stall_poll = 4" by (simp add: output_limit_def q)
  have "handle_output (unary_print JNull) (\<lambda>_. []) (demo_output_env\<lparr>oe_views := \<lambda>_ _. quiet_view stall_world\<rparr>) stall_poll =
    (200, unary_print JNull (jobj
      [(''sessionID'', JStr ''s''), (''offset'', JNum (PosInt 0)), (''nextOffset'', JNum (PosInt 0)), (''dataBase64'', JStr []),
       (''truncated'', JBool False), (''capturedAtUnixMs'', JNum (PosInt (oe_now_ms (demo_output_env\<lparr>oe_views := \<lambda>_ _. quiet_view stall_world\<rparr>))))]))"
    by (rule long_control_string_stalls_phone [where v = "quiet_view stall_world" and payload = "''1337;''"])
       (simp_all add: limit q quiet_view_def stall_world_def demo_world_def read_output_retention_path_def retention_at_def
          OUTPUT_RETENTION_VERSION_def read_exact_def cell_byte_def ESC_BYTE_def,
        simp_all add: output_session_def stall_poll_def demo_poll_def safe_session_id_def)
  then show ?thesis by (simp add: demo_output_env_def)
qed

end
