(* ===== verification/Relay_Host.thy ===== *)
theory Relay_Host
  imports Relay_Downlink Direct_Hub Mobile_Auth Relay_Socket
begin

text \<open>
  Model of \<open>crates/unpeel-serve/src/relay.rs\<close>, the Host end of relayed connections: the uplink owner
  that holds one crypto session per connection, and the pool of workers that answer requests. Files
  are read at every boundary, so each operation takes the parsed contents it reads (\<open>store\<close> for
  \<open>devices.json\<close>). \<open>up_sent\<close> is what was written to the socket; \<open>write n\<close> is the error of the \<open>n\<close>-th
  write, if any. An operation returns the fault that ends the uplink, if any, and the next state.
  Tracing and the queue depth that is only traced are left out.
\<close>

section \<open>Paired devices\<close>

definition jget_bool :: "string \<Rightarrow> json \<Rightarrow> bool option" where
  "jget_bool k v = Option.bind (jget k v) as_bool"

definition registration :: "json \<Rightarrow> (string \<times> string) option" where
  "registration device =
     (if jget_bool ''relayAllowed'' device = Some False then None
      else Option.bind (jget_str ''id'' device) (\<lambda>i.
        Option.bind (jget_str ''relayTokenHash'' device) (\<lambda>hash.
          if length hash = 64 then Some (i, hash) else None)))"

definition registrations :: "json option \<Rightarrow> (string \<times> string) list" where
  "registrations store =
     (case devices_of store of None \<Rightarrow> [] | Some devices \<Rightarrow> List.map_filter registration devices)"

definition has_registrations :: "json option \<Rightarrow> bool" where
  "has_registrations store \<longleftrightarrow> registrations store \<noteq> []"

definition token_rotation_only :: "(string \<times> string) list \<Rightarrow> (string \<times> string) list \<Rightarrow> bool" where
  "token_rotation_only announced current \<longleftrightarrow> length announced = length current
     \<and> list_all (\<lambda>((a, _), (c, _)). a = c) (zip announced current)"

definition relay_token_hash_in_store :: "json \<Rightarrow> string \<Rightarrow> string option" where
  "relay_token_hash_in_store store device_id =
     Option.bind (devices_of (Some store)) (\<lambda>devices.
     Option.bind (List.find (\<lambda>device. jget_str ''id'' device = Some device_id) devices) (\<lambda>device.
       if jget_bool ''relayAllowed'' device = Some False then None
       else Option.bind (jget_str ''relayTokenHash'' device) (\<lambda>hash. if length hash = 64 then Some hash else None)))"

definition relay_token_hash :: "json option \<Rightarrow> string \<Rightarrow> string option" where
  "relay_token_hash store device_id = Option.bind store (\<lambda>s. relay_token_hash_in_store s device_id)"

text \<open>\<open>keys\<close> is the parsed \<open>e2e-keys.json\<close>.\<close>

definition e2e_key :: "(string \<Rightarrow> string option) \<Rightarrow> json option \<Rightarrow> string \<Rightarrow> string \<Rightarrow> string option" where
  "e2e_key unb64 keys mac_id device_id =
     Option.bind keys (\<lambda>k. Option.bind (jget_str (mac_id @ ''.'' @ device_id) k) (\<lambda>encoded.
       Option.bind (unb64 encoded) (\<lambda>key. if length key = 32 then Some key else None)))"

section \<open>Dispatch pool\<close>

definition DISPATCH_WORKERS :: nat where "DISPATCH_WORKERS = 8"
definition DISPATCH_QUEUE_CAPACITY :: nat where "DISPATCH_QUEUE_CAPACITY = 32"
definition COMPLETION_QUEUE_CAPACITY :: nat where "COMPLETION_QUEUE_CAPACITY = 32"
definition COMPLETIONS_PER_TICK :: nat where "COMPLETIONS_PER_TICK = 32"

record session_ticket =
  tkt_generation :: u64
  tkt_conn_id :: u32
  tkt_incarnation :: u64

record dispatch_job =
  job_ticket :: session_ticket
  job_namespace :: string
  job_request :: tunnel_request

record dispatch_completion =
  cmp_ticket :: session_ticket
  cmp_request_id :: u64
  cmp_status :: u16
  cmp_body :: string

text \<open>A busy worker runs the handler of its job, or waits for room in the completion queue.\<close>

datatype worker_slot = Working dispatch_job | Sending dispatch_completion

record dispatch_pool =
  dp_jobs :: "dispatch_job list"
  dp_workers :: "worker_slot list"
  dp_completions :: "dispatch_completion list"
  dp_active_generation :: u64
  dp_stopped :: bool

definition activate :: "u64 \<Rightarrow> dispatch_pool \<Rightarrow> dispatch_pool" where
  "activate generation p = p\<lparr>dp_active_generation := generation\<rparr>"

definition deactivate :: "u64 \<Rightarrow> dispatch_pool \<Rightarrow> dispatch_pool" where
  "deactivate generation p = (if dp_active_generation p = generation then p\<lparr>dp_active_generation := 0\<rparr> else p)"

datatype submit_error = Full dispatch_job | Stopped

definition submit :: "dispatch_job \<Rightarrow> dispatch_pool \<Rightarrow> (submit_error + unit) \<times> dispatch_pool" where
  "submit job p =
     (if dp_stopped p then (Inl Stopped, p)
      else if length (dp_jobs p) \<ge> DISPATCH_QUEUE_CAPACITY then (Inl (Full job), p)
      else (Inr (), p\<lparr>dp_jobs := dp_jobs p @ [job]\<rparr>))"

datatype try_recv = Received dispatch_completion | RecvEmpty | RecvDisconnected

definition try_completion :: "dispatch_pool \<Rightarrow> try_recv \<times> dispatch_pool" where
  "try_completion p =
     (case dp_completions p of
        c # cs \<Rightarrow> (Received c, p\<lparr>dp_completions := cs\<rparr>)
      | [] \<Rightarrow> (if dp_stopped p then RecvDisconnected else RecvEmpty, p))"

text \<open>A worker takes the next job; \<open>owns\<close> is the check of the configured endpoint.\<close>

definition worker_take :: "bool \<Rightarrow> dispatch_pool \<Rightarrow> dispatch_pool" where
  "worker_take owns p =
     (case dp_jobs p of
        [] \<Rightarrow> p
      | job # jobs \<Rightarrow>
          if length (dp_workers p) \<ge> DISPATCH_WORKERS then p
          else if dp_active_generation p \<noteq> tkt_generation (job_ticket job) \<or> \<not> owns then p\<lparr>dp_jobs := jobs\<rparr>
          else p\<lparr>dp_jobs := jobs, dp_workers := dp_workers p @ [Working job]\<rparr>)"

text \<open>\<open>HANDLER_FAILED\<close> replaces the answer of a handler that panicked.\<close>

definition HANDLER_FAILED :: "u16 \<times> string" where
  "HANDLER_FAILED = (500, ''{\"error\":\"request handler failed\"}'')"

definition completion_of :: "dispatch_job \<Rightarrow> (u16 \<times> string) option \<Rightarrow> dispatch_completion" where
  "completion_of job dispatched =
     (let (status, body) = (case dispatched of Some r \<Rightarrow> r | None \<Rightarrow> HANDLER_FAILED)
      in \<lparr>cmp_ticket = job_ticket job, cmp_request_id = rq_id (job_request job), cmp_status = status, cmp_body = body\<rparr>)"

definition remove_nth :: "nat \<Rightarrow> 'a list \<Rightarrow> 'a list" where
  "remove_nth i xs = take i xs @ drop (Suc i) xs"

definition worker_done :: "nat \<Rightarrow> (u16 \<times> string) option \<Rightarrow> dispatch_pool \<Rightarrow> dispatch_pool" where
  "worker_done i dispatched p =
     (if i < length (dp_workers p) then
        case dp_workers p ! i of
          Working job \<Rightarrow>
            if dp_active_generation p \<noteq> tkt_generation (job_ticket job)
            then p\<lparr>dp_workers := remove_nth i (dp_workers p)\<rparr>
            else p\<lparr>dp_workers := (dp_workers p)[i := Sending (completion_of job dispatched)]\<rparr>
        | Sending _ \<Rightarrow> p
      else p)"

definition worker_send :: "nat \<Rightarrow> dispatch_pool \<Rightarrow> dispatch_pool" where
  "worker_send i p =
     (if i < length (dp_workers p) then
        case dp_workers p ! i of
          Sending c \<Rightarrow>
            if length (dp_completions p) \<ge> COMPLETION_QUEUE_CAPACITY then p
            else p\<lparr>dp_workers := remove_nth i (dp_workers p), dp_completions := dp_completions p @ [c]\<rparr>
        | Working _ \<Rightarrow> p
      else p)"

section \<open>The uplink owner\<close>

record active_session =
  ses_ticket :: session_ticket
  ses_device_id :: string
  ses_token_hash :: string
  ses_crypto :: crypto_session

datatype wire = WireMessage string | WirePing

record uplink =
  up_generation :: u64
  up_mac_id :: string
  up_devices :: "(string \<times> string) list"
  up_sessions :: "(u32, active_session) hmap"
  up_namespace :: string
  up_next_incarnation :: u64
  up_since_ping :: nat
  up_since_activity :: nat
  up_heartbeat_ack :: "nat option"
  up_last_hello :: nat
  up_sent :: "wire list"

record relay_state =
  re_uplink :: uplink
  re_pool :: dispatch_pool
  re_hub :: direct_hub

datatype relay_fault = Fault string | Panic

type_synonym writes = "nat \<Rightarrow> string option"

definition send_wire :: "writes \<Rightarrow> wire \<Rightarrow> uplink \<Rightarrow> relay_fault option \<times> uplink" where
  "send_wire write m u =
     (case write (length (up_sent u)) of
        Some e \<Rightarrow> (Some (Fault e), u)
      | None \<Rightarrow> (None, u\<lparr>up_sent := up_sent u @ [m]\<rparr>))"

definition drop_session :: "u32 \<Rightarrow> uplink \<Rightarrow> uplink" where
  "drop_session conn_id u = u\<lparr>up_sessions := hm_remove conn_id (up_sessions u)\<rparr>"

definition put_crypto :: "u32 \<Rightarrow> active_session \<Rightarrow> crypto_session \<Rightarrow> uplink \<Rightarrow> uplink" where
  "put_crypto conn_id active crypto u =
     u\<lparr>up_sessions := hm_put conn_id (active\<lparr>ses_crypto := crypto\<rparr>) (up_sessions u)\<rparr>"

definition send_tunnel_response ::
    "relay_lib \<Rightarrow> writes \<Rightarrow> json option \<Rightarrow> session_ticket \<Rightarrow> u64 \<Rightarrow> u16 \<Rightarrow> string \<Rightarrow> uplink
       \<Rightarrow> relay_fault option \<times> uplink" where
  "send_tunnel_response lib write store ticket request_id status body u =
     (case encode_bounded_tunnel_response (lib_to_string lib) (lib_b64 lib) request_id status body of
        None \<Rightarrow> (Some Panic, u)
      | Some response \<Rightarrow>
          let conn_id = tkt_conn_id ticket in
          (case hm_get (up_sessions u) conn_id of
             None \<Rightarrow> (None, u)
           | Some active \<Rightarrow>
               if relay_token_hash store (ses_device_id active) \<noteq> Some (ses_token_hash active)
               then (None, drop_session conn_id u)
               else if ses_ticket active \<noteq> ticket then (None, u)
               else case seal (lib_seal lib) response (ses_crypto active) of
                   (Inl _, crypto) \<Rightarrow> (None, drop_session conn_id (put_crypto conn_id active crypto u))
                 | (Inr sealed, crypto) \<Rightarrow>
                     send_wire write (WireMessage (encode_data conn_id sealed)) (put_crypto conn_id active crypto u)))"

text \<open>\<open>stores n\<close> is \<open>devices.json\<close> as read for the answer with \<open>n\<close> answers left.\<close>

fun drain_completions ::
    "relay_lib \<Rightarrow> writes \<Rightarrow> (nat \<Rightarrow> json option) \<Rightarrow> nat \<Rightarrow> dispatch_pool \<Rightarrow> uplink
       \<Rightarrow> relay_fault option \<times> dispatch_pool \<times> uplink" where
  "drain_completions lib write stores 0 p u = (None, p, u)"
| "drain_completions lib write stores (Suc n) p u =
     (case try_completion p of
        (RecvEmpty, p') \<Rightarrow> (None, p', u)
      | (RecvDisconnected, p') \<Rightarrow> (Some (Fault ''relay dispatch workers stopped''), p', u)
      | (Received c, p') \<Rightarrow>
          (case send_tunnel_response lib write (stores n) (cmp_ticket c) (cmp_request_id c) (cmp_status c) (cmp_body c) u of
             (Some f, u') \<Rightarrow> (Some f, p', u')
           | (None, u') \<Rightarrow> drain_completions lib write stores n p' u'))"

section \<open>Frames from the Relay\<close>

text \<open>What the owner reads while it handles one frame: \<open>devices.json\<close> for the check of the session or
  of the hello, and again for a busy answer; \<open>e2e-keys.json\<close>; the outcome of key generation; the salt.\<close>

record host_view =
  hv_store :: "json option"
  hv_busy_store :: "json option"
  hv_keys :: "json option"
  hv_ephemeral :: "string + string"
  hv_salt :: string

definition BUSY_BODY :: string where "BUSY_BODY = ''{\"error\":\"relay host busy\"}''"

text \<open>\<open>wrapping_add(1)\<close> that skips 0.\<close>

definition bump_nonzero :: "u64 \<Rightarrow> u64" where
  "bump_nonzero n = (let m = (n + 1) mod 2 ^ 64 in if m = 0 then 1 else m)"

definition session_data ::
    "relay_lib \<Rightarrow> writes \<Rightarrow> host_view \<Rightarrow> u32 \<Rightarrow> active_session \<Rightarrow> string \<Rightarrow> relay_state
       \<Rightarrow> relay_fault option \<times> relay_state" where
  "session_data lib write view conn_id active payload s =
     (let u = re_uplink s in
      case open_frame (lib_open lib) payload (ses_crypto active) of
        (Inl _, _) \<Rightarrow> (None, s\<lparr>re_uplink := drop_session conn_id u\<rparr>)
      | (Inr plaintext, crypto) \<Rightarrow>
          let u = put_crypto conn_id active crypto u; s = s\<lparr>re_uplink := u\<rparr> in
          (case parse_tunnel_request (lib_from_slice lib) (lib_unb64 lib) plaintext of
             None \<Rightarrow> (None, s)
           | Some request \<Rightarrow>
               (case submit \<lparr>job_ticket = ses_ticket active, job_namespace = up_namespace u, job_request = request\<rparr>
                   (re_pool s) of
                  (Inr _, p) \<Rightarrow> (None, s\<lparr>re_pool := p\<rparr>)
                | (Inl (Full job), p) \<Rightarrow>
                    let (f, u') = send_tunnel_response lib write (hv_busy_store view) (job_ticket job)
                          (rq_id (job_request job)) 503 BUSY_BODY u
                    in (f, s\<lparr>re_uplink := u'\<rparr>)
                | (Inl Stopped, p) \<Rightarrow> (Some (Fault ''relay dispatch workers stopped''), s))))"

text \<open>The hello of a connection without a session. Everything that fails before the session is set up
  leaves the state as it is and says nothing.\<close>

definition accept_hello ::
    "relay_lib \<Rightarrow> host_view \<Rightarrow> string \<Rightarrow> string \<Rightarrow> client_hello \<Rightarrow> (string \<times> string \<times> string \<times> string \<times> crypto_session) option" where
  "accept_hello lib view mac_id device_id hello =
     (if ch_device_id hello \<noteq> device_id then None
      else Option.bind (relay_token_hash (hv_store view) (ch_device_id hello)) (\<lambda>token_hash.
        Option.bind (e2e_key (lib_unb64 lib) (hv_keys view) mac_id (ch_device_id hello)) (\<lambda>key.
          case hv_ephemeral view of
            Inl _ \<Rightarrow> None
          | Inr private \<Rightarrow>
              (case shared_secret lib private (ch_ephemeral_public hello) of
                 Inl _ \<Rightarrow> None
               | Inr shared \<Rightarrow>
                   let host_public = lib_public lib private;
                       mac = transcript_mac (lib_hkdf lib) (lib_hmac lib) key (ch_device_id hello) (ch_salt hello)
                         (hv_salt view) (ch_ephemeral_public hello) host_public
                   in case session_new (lib_hkdf lib) key shared (ch_salt hello) (hv_salt view) True of
                        Inl _ \<Rightarrow> None
                      | Inr session \<Rightarrow> Some (token_hash, shared, host_public, mac, session)))))"

definition client_hello_frame ::
    "relay_lib \<Rightarrow> writes \<Rightarrow> host_view \<Rightarrow> u32 \<Rightarrow> string \<Rightarrow> client_hello \<Rightarrow> relay_state
       \<Rightarrow> relay_fault option \<times> relay_state" where
  "client_hello_frame lib write view conn_id device_id hello s =
     (let u = re_uplink s in
      case accept_hello lib view (up_mac_id u) device_id hello of
        None \<Rightarrow> (None, s)
      | Some (token_hash, shared, host_public, mac, session) \<Rightarrow>
          let hub = register conn_id \<lparr>cm_shared_secret = shared, cm_client_salt = ch_salt hello,
                cm_host_salt = hv_salt view\<rparr> (re_hub s);
              incarnation = bump_nonzero (up_next_incarnation u);
              active = \<lparr>ses_ticket = \<lparr>tkt_generation = up_generation u, tkt_conn_id = conn_id,
                    tkt_incarnation = incarnation\<rparr>,
                ses_device_id = ch_device_id hello, ses_token_hash = token_hash, ses_crypto = session\<rparr>;
              u = u\<lparr>up_next_incarnation := incarnation, up_sessions := hm_put conn_id active (up_sessions u)\<rparr>;
              hello_back = encode_host_hello (lib_to_string lib) (lib_b64 lib) (hv_salt view) host_public mac;
              (f, u') = send_wire write (WireMessage (encode_data conn_id hello_back)) u
          in (f, s\<lparr>re_uplink := u', re_hub := hub\<rparr>))"

definition client_data ::
    "relay_lib \<Rightarrow> writes \<Rightarrow> host_view \<Rightarrow> u32 \<Rightarrow> string \<Rightarrow> string \<Rightarrow> relay_state \<Rightarrow> relay_fault option \<times> relay_state" where
  "client_data lib write view conn_id device_id payload s =
     (let u = re_uplink s in
      case hm_get (up_sessions u) conn_id of
        Some active \<Rightarrow>
          if ses_device_id active \<noteq> device_id
             \<or> relay_token_hash (hv_store view) (ses_device_id active) \<noteq> Some (ses_token_hash active)
          then (None, s\<lparr>re_uplink := drop_session conn_id u\<rparr>)
          else session_data lib write view conn_id active payload s
      | None \<Rightarrow>
          (case parse_client_hello (lib_from_slice lib) (lib_unb64 lib) payload of
             None \<Rightarrow> (None, s)
           | Some hello \<Rightarrow> client_hello_frame lib write view conn_id device_id hello s))"

definition handle_incoming ::
    "relay_lib \<Rightarrow> writes \<Rightarrow> host_view \<Rightarrow> nat \<Rightarrow> incoming \<Rightarrow> relay_state \<Rightarrow> relay_fault option \<times> relay_state" where
  "handle_incoming lib write view now incoming s =
     (case incoming of
        ClientClosed conn_id \<Rightarrow>
          (None, s\<lparr>re_uplink := drop_session conn_id (re_uplink s), re_hub := remove conn_id (re_hub s)\<rparr>)
      | HeartbeatAck _ \<Rightarrow> (None, s\<lparr>re_uplink := (re_uplink s)\<lparr>up_heartbeat_ack := Some now\<rparr>\<rparr>)
      | ClientData conn_id device_id payload \<Rightarrow> client_data lib write view conn_id device_id payload s)"

section \<open>The loop of one uplink\<close>

definition SOCKET_LIVENESS_TIMEOUT :: nat where "SOCKET_LIVENESS_TIMEOUT = 75000"
definition REHELLO_MIN_INTERVAL :: nat where "REHELLO_MIN_INTERVAL = 1000"
definition PING_INTERVAL :: nat where "PING_INTERVAL = 25000"

datatype tick_result = Continue | Finished | Failed relay_fault

text \<open>Everything one iteration observes, in the order of the code; times are milliseconds.\<close>

record observation =
  ob_cancelled :: bool
  ob_registered :: "json option"
  ob_hello_now :: nat
  ob_stores :: "nat \<Rightarrow> json option"
  ob_ping_now :: nat
  ob_nonce :: string
  ob_ack_now :: nat
  ob_received :: "string + receive_outcome"
  ob_received_now :: nat
  ob_cancelled_after :: bool
  ob_view :: host_view

definition announce ::
    "relay_lib \<Rightarrow> writes \<Rightarrow> observation \<Rightarrow> uplink \<Rightarrow> tick_result \<times> uplink" where
  "announce lib write ob u =
     (let current = registrations (ob_registered ob) in
      if current = up_devices u then (Continue, u)
      else if \<not> token_rotation_only (up_devices u) current then (Finished, u)
      else if ob_hello_now ob - up_last_hello u \<ge> REHELLO_MIN_INTERVAL then
        (case send_wire write (WireMessage (encode_hello (lib_to_string lib) current)) u of
           (Some f, u') \<Rightarrow> (Failed f, u')
         | (None, u') \<Rightarrow> (Continue, u'\<lparr>up_devices := current, up_last_hello := ob_hello_now ob\<rparr>))
      else (Continue, u))"

definition ping_due :: "writes \<Rightarrow> observation \<Rightarrow> uplink \<Rightarrow> relay_fault option \<times> uplink" where
  "ping_due write ob u =
     (if ob_ping_now ob - up_since_ping u > PING_INTERVAL then
        (case send_wire write WirePing u of
           (Some f, u1) \<Rightarrow> (Some f, u1)
         | (None, u1) \<Rightarrow>
             (case send_wire write (WireMessage (encode_host_heartbeat (ob_nonce ob))) u1 of
                (Some f, u2) \<Rightarrow> (Some f, u2)
              | (None, u2) \<Rightarrow> (None, u2\<lparr>up_since_ping := ob_ping_now ob\<rparr>)))
      else (None, u))"

definition received_frame ::
    "relay_lib \<Rightarrow> writes \<Rightarrow> observation \<Rightarrow> relay_state \<Rightarrow> tick_result \<times> relay_state" where
  "received_frame lib write ob s =
     (let u = re_uplink s; active = s\<lparr>re_uplink := u\<lparr>up_since_activity := ob_received_now ob\<rparr>\<rparr> in
      case ob_received ob of
        Inl e \<Rightarrow> (Failed (Fault e), s)
      | Inr Control \<Rightarrow> (Continue, active)
      | Inr Idle \<Rightarrow>
          if ob_received_now ob - up_since_activity u \<ge> SOCKET_LIVENESS_TIMEOUT
          then (Failed (Fault ''relay socket stopped answering pings''), s) else (Continue, s)
      | Inr (Message frame) \<Rightarrow>
          if ob_cancelled_after ob then (Finished, active)
          else case decode_incoming frame of
              None \<Rightarrow> (Continue, active)
            | Some incoming \<Rightarrow>
                (case handle_incoming lib write (ob_view ob) (ob_received_now ob) incoming active of
                   (Some f, s') \<Rightarrow> (Failed f, s')
                 | (None, s') \<Rightarrow> (Continue, s')))"

definition relay_tick ::
    "relay_lib \<Rightarrow> writes \<Rightarrow> observation \<Rightarrow> relay_state \<Rightarrow> tick_result \<times> relay_state" where
  "relay_tick lib write ob s =
     (if ob_cancelled ob then (Finished, s)
      else case announce lib write ob (re_uplink s) of
        (Failed f, u) \<Rightarrow> (Failed f, s\<lparr>re_uplink := u\<rparr>)
      | (Finished, u) \<Rightarrow> (Finished, s\<lparr>re_uplink := u\<rparr>)
      | (Continue, u) \<Rightarrow>
          (case drain_completions lib write (ob_stores ob) COMPLETIONS_PER_TICK (re_pool s) u of
             (Some f, p, u) \<Rightarrow> (Failed f, s\<lparr>re_uplink := u, re_pool := p\<rparr>)
           | (None, p, u) \<Rightarrow>
               (case ping_due write ob u of
                  (Some f, u) \<Rightarrow> (Failed f, s\<lparr>re_uplink := u, re_pool := p\<rparr>)
                | (None, u) \<Rightarrow>
                    let s = s\<lparr>re_uplink := u, re_pool := p\<rparr> in
                    (case up_heartbeat_ack u of
                       Some acked \<Rightarrow>
                         if ob_ack_now ob - acked \<ge> SOCKET_LIVENESS_TIMEOUT
                         then (Failed (Fault ''relay DO path stopped answering heartbeats''), s)
                         else received_frame lib write ob s
                     | None \<Rightarrow> received_frame lib write ob s))))"

section \<open>Starting an uplink\<close>

datatype run_error = AuthorizationRejected string | OtherError string

text \<open>The part of \<open>run_once\<close> before its loop. \<open>entitlement\<close> and \<open>connect\<close> are the outcomes of reading the
  cached entitlement and of dialling; a refusal carries whether it was HTTP 401 or 403. \<open>None\<close> on the
  right is the return without an error when the authority was lost meanwhile.\<close>

definition open_uplink ::
    "relay_lib \<Rightarrow> writes \<Rightarrow> string + (string \<times> string) option \<Rightarrow> json option \<Rightarrow> (bool \<times> string) + unit \<Rightarrow> bool \<Rightarrow> nat
       \<Rightarrow> string \<Rightarrow> u64 \<Rightarrow> run_error + uplink option" where
  "open_uplink lib write entitlement store connect cancelled now namespace generation =
     (case entitlement of
        Inl e \<Rightarrow> Inl (OtherError e)
      | Inr None \<Rightarrow> Inl (OtherError ''no allowed relay entitlement on disk'')
      | Inr (Some (_, mac_id)) \<Rightarrow>
          let devices = registrations store in
          if devices = [] then Inl (OtherError ''no paired devices with relay tokens'')
          else case connect of
              Inl (True, e) \<Rightarrow> Inl (AuthorizationRejected e)
            | Inl (False, e) \<Rightarrow> Inl (OtherError e)
            | Inr _ \<Rightarrow>
                if cancelled then Inr None
                else
                  let u = \<lparr>up_generation = generation, up_mac_id = mac_id, up_devices = devices, up_sessions = [],
                        up_namespace = namespace, up_next_incarnation = 0, up_since_ping = now, up_since_activity = now,
                        up_heartbeat_ack = None, up_last_hello = now, up_sent = []\<rparr>
                  in case send_wire write (WireMessage (encode_hello (lib_to_string lib) devices)) u of
                       (Some (Fault e), _) \<Rightarrow> Inl (OtherError e)
                     | (Some Panic, _) \<Rightarrow> Inl (OtherError [])
                     | (None, u') \<Rightarrow> Inr (Some u'))"

text \<open>The outer loop around \<open>run_once\<close>: the generation of the next attempt, and the pause after it.
  \<open>announced\<close>: the uplink was up, which resets the pause; \<open>ok\<close>: it ended without an error.\<close>

record reconnect =
  rc_generation :: u64
  rc_backoff :: nat
  rc_rejected :: bool

definition reconnect_start :: reconnect where
  "reconnect_start = \<lparr>rc_generation = 0, rc_backoff = 3000, rc_rejected = False\<rparr>"

definition begin_run :: "reconnect \<Rightarrow> dispatch_pool \<Rightarrow> reconnect \<times> dispatch_pool" where
  "begin_run r p = (let g = bump_nonzero (rc_generation r) in (r\<lparr>rc_generation := g\<rparr>, activate g p))"

definition end_run :: "bool \<Rightarrow> run_error + unit \<Rightarrow> reconnect \<Rightarrow> dispatch_pool \<Rightarrow> reconnect \<times> dispatch_pool" where
  "end_run announced outcome r p =
     (let b = (if announced then 3000 else rc_backoff r);
          b = (case outcome of Inr _ \<Rightarrow> 3000 | Inl _ \<Rightarrow> b);
          rejected = (case outcome of Inl (AuthorizationRejected _) \<Rightarrow> True | _ \<Rightarrow> rc_rejected r)
      in (r\<lparr>rc_backoff := min (b * 2) 60000, rc_rejected := rejected\<rparr>, deactivate (rc_generation r) p))"

end
