(* ===== verification/Relay_Host_Facts.thy ===== *)
theory Relay_Host_Facts
  imports Relay_Host
begin

text \<open>
  The relay Host as a transition system: iterations of the owner, steps of the workers, and the
  replacement of the uplink, in any order. \<open>relay_inv\<close> holds along all of them, and a ticket names the
  same crypto session for as long as it is in use.
\<close>

section \<open>Transitions\<close>

text \<open>The counters of handshakes and of uplinks do not wrap within \<open>2 ^ 64\<close> of them; the steps require
  it. Workers may also change the hub of direct paths.\<close>

inductive relay_step :: "relay_lib \<Rightarrow> relay_state \<Rightarrow> relay_state \<Rightarrow> bool" for lib where
  owner: "up_next_incarnation (re_uplink s) < u64_max \<Longrightarrow> relay_step lib s (snd (relay_tick lib write ob s))"
| take_job: "relay_step lib s (s\<lparr>re_pool := worker_take owns (re_pool s)\<rparr>)"
| finish_job: "relay_step lib s (s\<lparr>re_pool := worker_done i dispatched (re_pool s)\<rparr>)"
| send_completion: "relay_step lib s (s\<lparr>re_pool := worker_send i (re_pool s)\<rparr>)"
| use_hub: "relay_step lib s (s\<lparr>re_hub := h\<rparr>)"
| deactivated: "relay_step lib s (s\<lparr>re_pool := deactivate g (re_pool s)\<rparr>)"
| reconnected: "open_uplink lib write entitlement store connect cancelled now namespace generation = Inr (Some u)
    \<Longrightarrow> up_generation (re_uplink s) < generation
    \<Longrightarrow> relay_step lib s (s\<lparr>re_uplink := u, re_pool := activate generation (re_pool s)\<rparr>)"

definition slot_ticket :: "worker_slot \<Rightarrow> session_ticket" where
  "slot_ticket w = (case w of Working job \<Rightarrow> job_ticket job | Sending c \<Rightarrow> cmp_ticket c)"

definition pool_tickets :: "dispatch_pool \<Rightarrow> session_ticket set" where
  "pool_tickets p = job_ticket ` set (dp_jobs p) \<union> slot_ticket ` set (dp_workers p) \<union> cmp_ticket ` set (dp_completions p)"

text \<open>A ticket of an earlier uplink, or of an earlier or present handshake of this one.\<close>

definition issued_by :: "uplink \<Rightarrow> session_ticket \<Rightarrow> bool" where
  "issued_by u t \<longleftrightarrow> tkt_generation t < up_generation u
     \<or> tkt_generation t = up_generation u \<and> tkt_incarnation t \<le> up_next_incarnation u"

definition sessions_inv :: "uplink \<Rightarrow> bool" where
  "sessions_inv u \<longleftrightarrow> hm_wf (up_sessions u)
     \<and> (\<forall>c active. hm_get (up_sessions u) c = Some active \<longrightarrow>
          tkt_generation (ses_ticket active) = up_generation u \<and> tkt_conn_id (ses_ticket active) = c
          \<and> tkt_incarnation (ses_ticket active) \<le> up_next_incarnation u)"

definition relay_inv :: "relay_state \<Rightarrow> bool" where
  "relay_inv s \<longleftrightarrow> sessions_inv (re_uplink s) \<and> (\<forall>t \<in> pool_tickets (re_pool s). issued_by (re_uplink s) t)"

text \<open>Two stages of one crypto session.\<close>

definition same_session :: "active_session \<Rightarrow> active_session \<Rightarrow> bool" where
  "same_session a b \<longleftrightarrow> ses_ticket b = ses_ticket a \<and> ses_device_id b = ses_device_id a
     \<and> ses_token_hash b = ses_token_hash a
     \<and> cs_send_key (ses_crypto b) = cs_send_key (ses_crypto a) \<and> cs_send_tag (ses_crypto b) = cs_send_tag (ses_crypto a)
     \<and> cs_receive_key (ses_crypto b) = cs_receive_key (ses_crypto a)
     \<and> cs_receive_tag (ses_crypto b) = cs_receive_tag (ses_crypto a)
     \<and> cs_send_counter (ses_crypto a) \<le> cs_send_counter (ses_crypto b)
     \<and> cs_last_received (ses_crypto a) \<le> cs_last_received (ses_crypto b)"

text \<open>How an operation may change the sessions: every session afterwards is a later stage of one that was
  there, or has a ticket that was not issued before.\<close>

definition evolves :: "uplink \<Rightarrow> uplink \<Rightarrow> bool" where
  "evolves u u' \<longleftrightarrow> (\<forall>t. issued_by u t \<longrightarrow> issued_by u' t)
     \<and> (\<forall>c b. hm_get (up_sessions u') c = Some b \<longrightarrow>
          (\<exists>a. hm_get (up_sessions u) c = Some a \<and> same_session a b) \<or> \<not> issued_by u (ses_ticket b))"

lemma same_session_refl [simp]: "same_session a a"
  by (simp add: same_session_def)

lemma same_session_trans: "same_session a b \<Longrightarrow> same_session b c \<Longrightarrow> same_session a c"
  by (auto simp: same_session_def)

lemma evolves_refl [simp]: "evolves u u"
  by (auto simp: evolves_def)

lemma evolves_trans:
  assumes "evolves u v" and "evolves v w"
  shows "evolves u w"
proof -
  have "(\<exists>a. hm_get (up_sessions u) c = Some a \<and> same_session a d) \<or> \<not> issued_by u (ses_ticket d)"
    if d: "hm_get (up_sessions w) c = Some d" for c d
  proof (cases "issued_by v (ses_ticket d)")
    case True
    then obtain b where b: "hm_get (up_sessions v) c = Some b" "same_session b d"
      using assms(2) d unfolding evolves_def by blast
    then have "ses_ticket b = ses_ticket d" by (simp add: same_session_def)
    moreover have "(\<exists>a. hm_get (up_sessions u) c = Some a \<and> same_session a b) \<or> \<not> issued_by u (ses_ticket b)"
      using assms(1) b(1) unfolding evolves_def by blast
    ultimately show ?thesis using same_session_trans [OF _ b(2)] by auto
  qed (use assms(1) in \<open>auto simp: evolves_def\<close>)
  then show ?thesis using assms by (auto simp: evolves_def)
qed

text \<open>The fields that matter.\<close>

definition same_sessions :: "uplink \<Rightarrow> uplink \<Rightarrow> bool" where
  "same_sessions u u' \<longleftrightarrow> up_sessions u' = up_sessions u \<and> up_generation u' = up_generation u
     \<and> up_next_incarnation u' = up_next_incarnation u"

definition good_step :: "uplink \<Rightarrow> uplink \<Rightarrow> bool" where
  "good_step u u' \<longleftrightarrow> (sessions_inv u \<longrightarrow> sessions_inv u' \<and> evolves u u')"

lemma good_step_trans: "good_step u v \<Longrightarrow> good_step v w \<Longrightarrow> good_step u w"
  by (auto simp: good_step_def intro: evolves_trans)

lemma good_step_same: "same_sessions u u' \<Longrightarrow> good_step u u'"
  by (auto simp: same_sessions_def good_step_def sessions_inv_def evolves_def issued_by_def)

lemma good_step_refl [simp]: "good_step u u"
  by (simp add: good_step_def)

section \<open>Sessions\<close>

definition crypto_advances :: "crypto_session \<Rightarrow> crypto_session \<Rightarrow> bool" where
  "crypto_advances c d \<longleftrightarrow> cs_send_key d = cs_send_key c \<and> cs_send_tag d = cs_send_tag c
     \<and> cs_receive_key d = cs_receive_key c \<and> cs_receive_tag d = cs_receive_tag c
     \<and> cs_send_counter c \<le> cs_send_counter d \<and> cs_last_received c \<le> cs_last_received d"

lemma seal_advances: "crypto_advances c (snd (seal f p c))"
  by (auto simp: crypto_advances_def seal_def Let_def checked_add64_Some split: option.split)

lemma open_advances: "crypto_advances c (snd (open_frame f p c))"
  by (auto simp: crypto_advances_def open_frame_def Let_def split: option.split)

lemma good_step_drop: "good_step u (drop_session c u)"
proof (unfold good_step_def, intro impI)
  assume inv: "sessions_inv u"
  then have wf: "hm_wf (up_sessions u)" by (simp add: sessions_inv_def)
  show "sessions_inv (drop_session c u) \<and> evolves u (drop_session c u)"
    using inv wf
    by (auto simp: sessions_inv_def evolves_def drop_session_def issued_by_def hm.lookup_remove [OF wf]
        hm.invar_remove [OF wf])
qed

lemma good_step_put:
  assumes "hm_get (up_sessions u) c = Some active" and "crypto_advances (ses_crypto active) crypto"
  shows "good_step u (put_crypto c active crypto u)"
  using assms
  by (auto simp: good_step_def sessions_inv_def evolves_def put_crypto_def issued_by_def hm_wf_put same_session_def
      crypto_advances_def)

lemma send_wire_same: "same_sessions u (snd (send_wire write m u))"
  by (simp add: send_wire_def same_sessions_def split: option.split)

lemmas send_wire_good = good_step_same [OF send_wire_same]

lemma hm_get_put_crypto: "hm_get (up_sessions (put_crypto c a k u)) c = Some (a\<lparr>ses_crypto := k\<rparr>)"
  by (simp add: put_crypto_def)

lemma send_tunnel_response_good: "good_step u (snd (send_tunnel_response lib write store ticket i status body u))"
proof (cases "hm_get (up_sessions u) (tkt_conn_id ticket)")
  case (Some active)
  have put: "good_step u (put_crypto (tkt_conn_id ticket) active crypto u)"
    if "seal (lib_seal lib) response (ses_crypto active) = (r, crypto)" for response r crypto
    using good_step_put [OF Some] seal_advances [of "ses_crypto active" "lib_seal lib" response] that by simp
  show ?thesis
    using Some good_step_drop good_step_trans [OF put good_step_drop] good_step_trans [OF put send_wire_good]
    by (auto simp: send_tunnel_response_def Let_def split: option.split sum.split prod.split)
qed (simp add: send_tunnel_response_def split: option.split)

lemma try_completion_tickets: "try_completion p = (r, p') \<Longrightarrow> pool_tickets p' \<subseteq> pool_tickets p"
  by (auto simp: try_completion_def pool_tickets_def split: list.splits)

lemma drain_good:
  "drain_completions lib write stores n p u = (f, p', u') \<Longrightarrow> good_step u u' \<and> pool_tickets p' \<subseteq> pool_tickets p"
proof (induction n arbitrary: p u)
  case (Suc n)
  obtain r p1 where tc: "try_completion p = (r, p1)" by (cases "try_completion p")
  note sub = try_completion_tickets [OF tc]
  show ?case
  proof (cases r)
    case (Received c)
    obtain g u1 where st: "send_tunnel_response lib write (stores n) (cmp_ticket c) (cmp_request_id c) (cmp_status c)
        (cmp_body c) u = (g, u1)" by fastforce
    then have "good_step u u1" using send_tunnel_response_good by (metis snd_conv)
    with Suc tc st Received sub show ?thesis by (auto split: option.splits intro: good_step_trans)
  qed (use Suc.prems tc sub in auto)
qed simp

lemma send_tunnel_response_incarnation:
  "up_next_incarnation (snd (send_tunnel_response lib write store ticket i status body u)) = up_next_incarnation u"
  by (auto simp: send_tunnel_response_def Let_def drop_session_def put_crypto_def send_wire_def
      split: option.split sum.split prod.split)

lemma drain_incarnation:
  "drain_completions lib write stores n p u = (f, p', u') \<Longrightarrow> up_next_incarnation u' = up_next_incarnation u"
proof (induction n arbitrary: p u)
  case (Suc n)
  then show ?case
    using send_tunnel_response_incarnation by (auto split: prod.splits try_recv.splits option.splits) (metis snd_conv)+
qed simp

lemma announce_same: "same_sessions u (snd (announce lib write ob u))"
  by (auto simp: announce_def same_sessions_def Let_def send_wire_def split: option.split)

lemma ping_due_same: "same_sessions u (snd (ping_due write ob u))"
  by (auto simp: ping_due_def same_sessions_def send_wire_def split: option.split)

section \<open>Frames\<close>

text \<open>What an operation of the owner does: the sessions evolve, and the only tickets that enter the pool
  are those of sessions.\<close>

definition owner_ok :: "relay_state \<Rightarrow> relay_state \<Rightarrow> bool" where
  "owner_ok s s' \<longleftrightarrow> good_step (re_uplink s) (re_uplink s')
     \<and> (\<forall>t \<in> pool_tickets (re_pool s'). t \<in> pool_tickets (re_pool s)
          \<or> (\<exists>c a. hm_get (up_sessions (re_uplink s)) c = Some a \<and> t = ses_ticket a))"

lemma owner_ok_refl [simp]: "owner_ok s s"
  by (simp add: owner_ok_def)

lemma submit_tickets: "submit j p = (r, p') \<Longrightarrow> pool_tickets p' \<subseteq> insert (job_ticket j) (pool_tickets p)"
  by (auto simp: submit_def pool_tickets_def split: if_splits)

lemma session_data_ok:
  assumes "hm_get (up_sessions (re_uplink s)) conn_id = Some active"
  shows "owner_ok s (snd (session_data lib write view conn_id active payload s))"
proof -
  obtain r crypto where o: "open_frame (lib_open lib) payload (ses_crypto active) = (r, crypto)" by fastforce
  let ?u = "put_crypto conn_id active crypto (re_uplink s)"
  have put: "good_step (re_uplink s) ?u"
    using good_step_put [OF assms] open_advances [of "ses_crypto active" "lib_open lib" payload] o by simp
  show ?thesis
  proof (cases r)
    case (Inl e)
    with o show ?thesis by (simp add: session_data_def owner_ok_def good_step_drop)
  next
    case (Inr plaintext)
    show ?thesis
    proof (cases "parse_tunnel_request (lib_from_slice lib) (lib_unb64 lib) plaintext")
      case None
      with o Inr put show ?thesis by (simp add: session_data_def owner_ok_def)
    next
      case (Some request)
      let ?j = "\<lparr>job_ticket = ses_ticket active, job_namespace = up_namespace ?u, job_request = request\<rparr>"
      obtain x p where x: "submit ?j (re_pool s) = (x, p)" by fastforce
      have "\<forall>t \<in> pool_tickets p. t \<in> pool_tickets (re_pool s)
          \<or> (\<exists>c a. hm_get (up_sessions (re_uplink s)) c = Some a \<and> t = ses_ticket a)"
        using submit_tickets [OF x] assms by fastforce
      with o Inr Some x put good_step_trans [OF put send_tunnel_response_good] show ?thesis
        by (auto simp: session_data_def owner_ok_def Let_def split: sum.splits submit_error.splits prod.split)
           (metis snd_conv)+
    qed
  qed
qed

lemma bump_nonzero_less: "n < u64_max \<Longrightarrow> bump_nonzero n = n + 1"
  by (simp add: bump_nonzero_def u64_max_def Let_def)

lemma good_step_install:
  assumes "up_next_incarnation u < u64_max" and "tkt_generation (ses_ticket active) = up_generation u"
    and "tkt_conn_id (ses_ticket active) = c" and "tkt_incarnation (ses_ticket active) = bump_nonzero (up_next_incarnation u)"
  shows "good_step u (u\<lparr>up_next_incarnation := bump_nonzero (up_next_incarnation u),
    up_sessions := hm_put c active (up_sessions u)\<rparr>)"
  using assms
  by (auto simp: good_step_def sessions_inv_def evolves_def issued_by_def hm_wf_put bump_nonzero_less intro: le_SucI)

lemma client_hello_ok:
  assumes "up_next_incarnation (re_uplink s) < u64_max"
  shows "owner_ok s (snd (client_hello_frame lib write view conn_id device_id hello s))"
proof (cases "accept_hello lib view (up_mac_id (re_uplink s)) device_id hello")
  case (Some x)
  obtain token_hash shared host_public mac session where [simp]: "x = (token_hash, shared, host_public, mac, session)"
    by (cases x) auto
  show ?thesis
    by (simp add: client_hello_frame_def owner_ok_def Let_def Some split_beta
        good_step_trans [OF good_step_install [OF assms] send_wire_good])
qed (simp add: client_hello_frame_def)

lemma handle_incoming_ok:
  assumes "up_next_incarnation (re_uplink s) < u64_max"
  shows "owner_ok s (snd (handle_incoming lib write view now incoming s))"
proof (cases incoming)
  case (ClientClosed c)
  then show ?thesis by (simp add: handle_incoming_def owner_ok_def good_step_drop)
next
  case (ClientData c d p)
  have "owner_ok s (snd (client_data lib write view c d p s))"
    using session_data_ok [of s c] client_hello_ok [OF assms]
    by (auto simp: client_data_def Let_def owner_ok_def good_step_drop split: option.split)
  with ClientData show ?thesis by (simp add: handle_incoming_def)
next
  case (HeartbeatAck n)
  then show ?thesis by (simp add: handle_incoming_def owner_ok_def good_step_same same_sessions_def)
qed

lemma owner_ok_via:
  assumes "good_step (re_uplink s) u" and "pool_tickets p \<subseteq> pool_tickets (re_pool s)"
    and "sessions_inv (re_uplink s)" and "owner_ok (s\<lparr>re_uplink := u, re_pool := p\<rparr>) s'"
    and "evolves (re_uplink s) u"
  shows "relay_inv s \<longrightarrow> relay_inv s' \<and> evolves (re_uplink s) (re_uplink s')"
proof
  assume inv: "relay_inv s"
  have g: "good_step u (re_uplink s')" using assms(4) by (simp add: owner_ok_def)
  have su: "sessions_inv u" using assms(1,3) by (simp add: good_step_def)
  with g have s': "sessions_inv (re_uplink s')" and e': "evolves u (re_uplink s')" by (auto simp: good_step_def)
  have "issued_by (re_uplink s') t" if "t \<in> pool_tickets (re_pool s')" for t
  proof -
    from that assms(4) have "t \<in> pool_tickets p \<or> (\<exists>c a. hm_get (up_sessions u) c = Some a \<and> t = ses_ticket a)"
      by (auto simp: owner_ok_def)
    then have "issued_by u t"
    proof
      assume "t \<in> pool_tickets p"
      with assms(2,5) inv show ?thesis by (auto simp: relay_inv_def evolves_def)
    next
      assume "\<exists>c a. hm_get (up_sessions u) c = Some a \<and> t = ses_ticket a"
      with su show ?thesis by (auto simp: sessions_inv_def issued_by_def)
    qed
    with e' show ?thesis by (simp add: evolves_def)
  qed
  with s' e' assms(5) show "relay_inv s' \<and> evolves (re_uplink s) (re_uplink s')"
    by (auto simp: relay_inv_def intro: evolves_trans)
qed

lemma received_frame_ok:
  assumes "up_next_incarnation (re_uplink s) < u64_max"
  shows "owner_ok s (snd (received_frame lib write ob s))"
proof -
  let ?s = "s\<lparr>re_uplink := (re_uplink s)\<lparr>up_since_activity := ob_received_now ob\<rparr>\<rparr>"
  have same: "good_step (re_uplink s) (re_uplink ?s)" by (rule good_step_same) (simp add: same_sessions_def)
  have "owner_ok ?s (snd (handle_incoming lib write (ob_view ob) (ob_received_now ob) incoming ?s))" for incoming
    using assms by (intro handle_incoming_ok) simp
  then have "owner_ok s (snd (handle_incoming lib write (ob_view ob) (ob_received_now ob) incoming ?s))" for incoming
    using good_step_trans [OF same] by (auto simp: owner_ok_def)
  then show ?thesis
    using same by (auto simp: received_frame_def Let_def owner_ok_def split: sum.split receive_outcome.split option.split
        prod.split) (metis snd_conv)+
qed

lemma relay_tick_step:
  assumes "up_next_incarnation (re_uplink s) < u64_max" and "relay_inv s"
  shows "relay_inv (snd (relay_tick lib write ob s))
    \<and> evolves (re_uplink s) (re_uplink (snd (relay_tick lib write ob s)))"
proof -
  have inv: "sessions_inv (re_uplink s)" using assms(2) by (simp add: relay_inv_def)
  obtain r1 u1 where a: "announce lib write ob (re_uplink s) = (r1, u1)" by fastforce
  obtain f2 p2 u2 where d: "drain_completions lib write (ob_stores ob) COMPLETIONS_PER_TICK (re_pool s) u1 = (f2, p2, u2)"
    by (cases "drain_completions lib write (ob_stores ob) COMPLETIONS_PER_TICK (re_pool s) u1")
  obtain f3 u3 where p: "ping_due write ob u2 = (f3, u3)" by fastforce
  have s1: "same_sessions (re_uplink s) u1" using announce_same [of "re_uplink s" lib "write" ob] a by simp
  have s3: "same_sessions u2 u3" using ping_due_same [of u2 "write" ob] p by simp
  note g1 = good_step_same [OF s1] and g2 = conjunct1 [OF drain_good [OF d]] and g3 = good_step_same [OF s3]
  note sub = conjunct2 [OF drain_good [OF d]]
  have fin: "relay_inv s' \<and> evolves (re_uplink s) (re_uplink s')"
    if "good_step (re_uplink s) u" "pool_tickets q \<subseteq> pool_tickets (re_pool s)"
      "owner_ok (s\<lparr>re_uplink := u, re_pool := q\<rparr>) s'" for u q s'
    using owner_ok_via [OF that(1,2) inv that(3)] that(1) inv assms(2) by (simp add: good_step_def)
  note g12 = good_step_trans [OF g1 g2] and g123 = good_step_trans [OF good_step_trans [OF g1 g2] g3]
  have "up_next_incarnation u3 < u64_max"
    using s1 s3 drain_incarnation [OF d] assms(1) by (simp add: same_sessions_def)
  then have received: "owner_ok (s\<lparr>re_uplink := u3, re_pool := p2\<rparr>)
      (snd (received_frame lib write ob (s\<lparr>re_uplink := u3, re_pool := p2\<rparr>)))"
    by (intro received_frame_ok) simp
  show ?thesis
  proof (cases "ob_cancelled ob")
    case True
    with assms(2) show ?thesis by (simp add: relay_tick_def)
  next
    case False
    have early: "relay_inv (s\<lparr>re_uplink := u1\<rparr>) \<and> evolves (re_uplink s) u1"
      using fin [OF g1 subset_refl owner_ok_refl] by simp
    have mid: "relay_inv (s\<lparr>re_uplink := u2, re_pool := p2\<rparr>) \<and> evolves (re_uplink s) u2"
      using fin [OF g12 sub owner_ok_refl] by simp
    have late: "relay_inv (s\<lparr>re_uplink := u3, re_pool := p2\<rparr>) \<and> evolves (re_uplink s) u3"
      using fin [OF g123 sub owner_ok_refl] by simp
    show ?thesis
      using False early mid late fin [OF g123 sub received]
      by (simp add: relay_tick_def a d p Let_def split: tick_result.split option.split)
  qed
qed

lemma slot_ticket_simps [simp]: "slot_ticket (Working j) = job_ticket j" "slot_ticket (Sending c) = cmp_ticket c"
  by (simp_all add: slot_ticket_def)

lemma completion_of_ticket [simp]: "cmp_ticket (completion_of j r) = job_ticket j"
  by (simp add: completion_of_def split_beta)

lemma worker_tickets:
  "pool_tickets (worker_take owns p) \<subseteq> pool_tickets p" "pool_tickets (worker_done i r p) \<subseteq> pool_tickets p"
  "pool_tickets (worker_send i p) \<subseteq> pool_tickets p" "pool_tickets (deactivate g p) = pool_tickets p"
  "pool_tickets (activate g p) = pool_tickets p"
proof -
  show "pool_tickets (worker_take owns p) \<subseteq> pool_tickets p"
    by (auto simp: worker_take_def pool_tickets_def slot_ticket_def split: list.split)
  have nth: "slot_ticket (dp_workers p ! i) \<in> slot_ticket ` set (dp_workers p)" if "i < length (dp_workers p)"
    using that by simp
  have rm: "slot_ticket ` set (remove_nth i (dp_workers p)) \<subseteq> slot_ticket ` set (dp_workers p)"
    by (auto simp: remove_nth_def dest: in_set_takeD in_set_dropD)
  have up: "slot_ticket ` set ((dp_workers p)[i := w]) \<subseteq> insert (slot_ticket w) (slot_ticket ` set (dp_workers p))" for w
    using set_update_subset_insert [of "dp_workers p" i w] by auto
  show "pool_tickets (worker_done i r p) \<subseteq> pool_tickets p"
  proof (cases "i < length (dp_workers p)")
    case True
    then show ?thesis
    proof (cases "dp_workers p ! i")
      case (Working j)
      with nth [OF True] have "job_ticket j \<in> slot_ticket ` set (dp_workers p)" by simp
      with up [of "Sending (completion_of j r)"]
      have "slot_ticket ` set ((dp_workers p)[i := Sending (completion_of j r)]) \<subseteq> slot_ticket ` set (dp_workers p)"
        by (simp add: insert_absorb)
      with True Working rm show ?thesis
        by (simp add: worker_done_def pool_tickets_def le_supI1 le_supI2)
    qed (simp add: worker_done_def)
  qed (simp add: worker_done_def)
  show "pool_tickets (worker_send i p) \<subseteq> pool_tickets p"
  proof (cases "i < length (dp_workers p)")
    case True
    then show ?thesis
    proof (cases "dp_workers p ! i")
      case (Sending c)
      with nth [OF True] have "cmp_ticket c \<in> slot_ticket ` set (dp_workers p)" by simp
      with True Sending rm show ?thesis by (simp add: worker_send_def pool_tickets_def le_supI1 le_supI2)
    qed (simp add: worker_send_def)
  qed (simp add: worker_send_def)
qed (simp_all add: deactivate_def activate_def pool_tickets_def)

lemma open_uplink_new:
  "open_uplink lib write entitlement store connect cancelled now namespace generation = Inr (Some u)
    \<Longrightarrow> up_sessions u = [] \<and> up_generation u = generation"
  by (auto simp: open_uplink_def Let_def send_wire_def split: sum.splits option.splits prod.splits if_splits relay_fault.splits bool.splits)

lemma relay_step_ok:
  assumes "relay_step lib s s'" and "relay_inv s"
  shows "relay_inv s' \<and> evolves (re_uplink s) (re_uplink s')"
  using assms
proof (induction rule: relay_step.induct)
  case (owner s ob)
  then show ?case using relay_tick_step by blast
next
  case (reconnected wr entitlement store connect cancelled now namespace generation u s)
  note u = open_uplink_new [OF reconnected(1)]
  have "issued_by (re_uplink s) t \<Longrightarrow> issued_by u t" for t
    using u reconnected(2) by (auto simp: issued_by_def)
  moreover have "sessions_inv u" using u by (simp add: sessions_inv_def)
  ultimately show ?case
    using reconnected(3) u worker_tickets(5) by (auto simp: relay_inv_def evolves_def)
qed (auto simp: relay_inv_def worker_tickets(4) dest: worker_tickets(1-3) [THEN subsetD])

definition relay_steps :: "relay_lib \<Rightarrow> relay_state \<Rightarrow> relay_state \<Rightarrow> bool" where
  "relay_steps lib = (relay_step lib)\<^sup>*\<^sup>*"

lemma relay_steps_ok:
  assumes "relay_steps lib s s'" and "relay_inv s"
  shows "relay_inv s' \<and> evolves (re_uplink s) (re_uplink s')"
  using assms unfolding relay_steps_def
proof (induction rule: rtranclp_induct)
  case (step y z)
  then show ?case using relay_step_ok by (blast intro: evolves_trans)
qed simp

end
