(* ===== verification/Relay_Dispatch.thy ===== *)
theory Relay_Dispatch
  imports Relay_Host Ip_Text
begin

text \<open>
  One tunnelled request on its way to a handler: \<open>dispatch\<close> of \<open>crates/unpeel-serve/src/relay.rs\<close> and the
  routing of \<open>handle_authenticated\<close> in \<open>mobile.rs\<close>. The routes that concern direct paths act on the hub of
  \<open>Direct_Hub\<close>; all others are the parameter \<open>other\<close>. \<open>None\<close> is a panic.
\<close>

section \<open>Authenticated routes\<close>

text \<open>What a negotiation finds on the network.\<close>

record network =
  nw_bound :: "string + u16"
  nw_interfaces :: "ip_addr option list option"
  nw_stun :: "string + socket_addr"

type_synonym answer = "u16 \<times> string"

definition error_answer :: "relay_lib \<Rightarrow> u16 \<Rightarrow> string \<Rightarrow> answer" where
  "error_answer lib status message = (status, lib_to_string lib (error_json message))"

text \<open>\<open>hub\<close> is absent for a request that came over the LAN.\<close>

definition direct_path_route ::
    "relay_lib \<Rightarrow> network \<Rightarrow> http_request \<Rightarrow> direct_hub option
       \<Rightarrow> answer option \<times> direct_hub option \<times> punch_job option" where
  "direct_path_route lib net request hub =
     (if hr_method request \<noteq> ''POST'' then (Some (error_answer lib 405 ''method not allowed''), hub, None)
      else case (hub, relay_conn_id (hr_request_id request)) of
        (Some h, Some conn_id) \<Rightarrow>
          if hr_path request = ''/mobile/direct-path'' then
            (case negotiate (lib_hkdf lib) (lib_to_string lib) (lib_from_slice lib) (nw_bound net) (nw_interfaces net)
                (nw_stun net) conn_id (hr_body request) h of
               (r, h', job) \<Rightarrow> (map_option (map_prod id (lib_to_string lib)) r, Some h', job))
          else (Some (map_prod id (lib_to_string lib) (hub_result (lib_from_slice lib) conn_id (hr_body request) h)),
            hub, None)
      | _ \<Rightarrow> (Some (error_answer lib 409 ''direct path requires a relayed connection''), hub, None))"

definition handle_authenticated ::
    "relay_lib \<Rightarrow> network \<Rightarrow> (http_request \<Rightarrow> controller_principal \<Rightarrow> answer option) \<Rightarrow> http_request
       \<Rightarrow> controller_principal \<Rightarrow> direct_hub option \<Rightarrow> answer option \<times> direct_hub option \<times> punch_job option" where
  "handle_authenticated lib net other request p hub =
     (if \<not> starts_with ''/mobile/'' (hr_path request) \<or> hr_path request = ''/mobile/pair''
      then (Some (error_answer lib 404 ''not found''), hub, None)
      else if hr_method request \<noteq> ''GET'' \<and> hr_method request \<noteq> ''POST''
      then (Some (error_answer lib 405 ''method not allowed''), hub, None)
      else if hr_path request = ''/mobile/direct-path'' \<or> hr_path request = ''/mobile/direct-path-result''
      then direct_path_route lib net request hub
      else (other request p, hub, None))"

section \<open>Dispatch\<close>

definition NOT_FOUND :: answer where "NOT_FOUND = (404, ''{\"error\":\"not found\"}'')"
definition UNAUTHORIZED :: answer where "UNAUTHORIZED = (401, ''{\"error\":\"unauthorized\"}'')"

text \<open>The id under which the Host deduplicates and by which it finds the connection again.\<close>

definition relay_request_id :: "string \<Rightarrow> u32 \<Rightarrow> u64 \<Rightarrow> string" where
  "relay_request_id namespace conn_id i =
     ''relay:'' @ namespace @ '':'' @ show_nat conn_id @ '':'' @ show_nat i"

definition relay_request :: "string \<Rightarrow> u32 \<Rightarrow> tunnel_request \<Rightarrow> http_request" where
  "relay_request namespace conn_id tunneled =
     \<lparr>hr_request_id = Some (relay_request_id namespace conn_id (rq_id tunneled)), hr_method = rq_method tunneled,
      hr_path = rq_path tunneled, hr_query = fold (\<lambda>(k, v). hm_put k v) (rq_query tunneled) [],
      hr_headers = request_headers tunneled, hr_body = rq_body tunneled, hr_keep_alive = False\<rparr>"

definition dispatch ::
    "relay_lib \<Rightarrow> network \<Rightarrow> (http_request \<Rightarrow> controller_principal \<Rightarrow> answer option) \<Rightarrow> string + string \<Rightarrow> json option
       \<Rightarrow> string \<Rightarrow> u32 \<Rightarrow> tunnel_request \<Rightarrow> direct_hub \<Rightarrow> answer option \<times> direct_hub \<times> punch_job option" where
  "dispatch lib net other host_id store namespace conn_id tunneled hub =
     (if starts_with ''/relay/'' (rq_path tunneled) then (Some NOT_FOUND, hub, None)
      else if \<not> starts_with ''/mobile/'' (rq_path tunneled) \<or> rq_path tunneled = ''/mobile/pair''
      then (Some NOT_FOUND, hub, None)
      else
        let request = relay_request namespace conn_id tunneled in
        case principal_for_bearer host_id store (hr_headers request) of
          None \<Rightarrow> (Some UNAUTHORIZED, hub, None)
        | Some p \<Rightarrow>
            (case handle_authenticated lib net other request p (Some hub) of
               (r, Some hub', job) \<Rightarrow> (r, hub', job)
             | (r, None, job) \<Rightarrow> (r, hub, job)))"

end
