(* ===== verification/Relay_Host_Props.thy ===== *)
theory Relay_Host_Props
  imports Relay_Host_Facts Relay_Dispatch
begin

text \<open>
  What the relay Host sends and queues: the cases in which an answer goes out and in which a frame
  becomes a request, and that a fresh Host satisfies the invariant.
\<close>

section \<open>Answers\<close>

lemma fresh_relay_inv: "up_sessions (re_uplink s) = [] \<Longrightarrow> pool_tickets (re_pool s) = {} \<Longrightarrow> relay_inv s"
  by (simp add: relay_inv_def sessions_inv_def)

lemma seal_InrD:
  assumes "seal f p c = (Inr frame, c')"
  shows "\<exists>body. frame = be64 (cs_send_counter c + 1) @ body \<and> c' = c\<lparr>cs_send_counter := cs_send_counter c + 1\<rparr>
    \<and> cs_send_counter c < u64_max \<and> f (cs_send_key c) (nonce (cs_send_tag c) (cs_send_counter c + 1)) p = Some body"
  using assms by (auto simp: seal_def Let_def checked_add64_Some split: if_splits option.splits)

lemma send_wire_sent:
  "send_wire write m u = (f, u') \<Longrightarrow> up_sent u' = up_sent u \<and> f \<noteq> None \<or> up_sent u' = up_sent u @ [m] \<and> f = None"
  by (auto simp: send_wire_def split: option.splits)

lemma session_issued: "sessions_inv u \<Longrightarrow> hm_get (up_sessions u) c = Some a \<Longrightarrow> issued_by u (ses_ticket a)"
  by (simp add: sessions_inv_def issued_by_def)

lemma response_sentE:
  assumes "send_tunnel_response lib write store ticket i status body u = (f, u')" and "up_sent u' \<noteq> up_sent u"
  obtains active response sealed where
    "hm_get (up_sessions u) (tkt_conn_id ticket) = Some active" and "ses_ticket active = ticket"
    and "relay_token_hash store (ses_device_id active) = Some (ses_token_hash active)"
    and "encode_bounded_tunnel_response (lib_to_string lib) (lib_b64 lib) i status body = Some response"
    and "lib_seal lib (cs_send_key (ses_crypto active))
           (nonce (cs_send_tag (ses_crypto active)) (cs_send_counter (ses_crypto active) + 1)) response = Some sealed"
    and "up_sent u' = up_sent u @ [WireMessage (encode_data (tkt_conn_id ticket)
           (be64 (cs_send_counter (ses_crypto active) + 1) @ sealed))]"
    and "cs_send_counter (ses_crypto active) < u64_max"
    and "hm_get (up_sessions u') (tkt_conn_id ticket) = Some (active\<lparr>ses_crypto :=
           (ses_crypto active)\<lparr>cs_send_counter := cs_send_counter (ses_crypto active) + 1\<rparr>\<rparr>)"
proof -
  from assms obtain response where r:
    "encode_bounded_tunnel_response (lib_to_string lib) (lib_b64 lib) i status body = Some response"
    by (auto simp: send_tunnel_response_def split: option.splits)
  have "hm_get (up_sessions u) (tkt_conn_id ticket) \<noteq> None"
  proof
    assume "hm_get (up_sessions u) (tkt_conn_id ticket) = None"
    with assms r show False by (simp add: send_tunnel_response_def Let_def)
  qed
  then obtain active where a: "hm_get (up_sessions u) (tkt_conn_id ticket) = Some active" by blast
  have t: "relay_token_hash store (ses_device_id active) = Some (ses_token_hash active)" "ses_ticket active = ticket"
    using assms r a by (auto simp: send_tunnel_response_def Let_def drop_session_def split: if_splits)
  obtain x c where x: "seal (lib_seal lib) response (ses_crypto active) = (x, c)" by fastforce
  with assms r a t obtain frame where f: "x = Inr frame"
    by (cases x) (auto simp: send_tunnel_response_def Let_def drop_session_def put_crypto_def)
  from assms r a t x f have "send_wire write (WireMessage (encode_data (tkt_conn_id ticket) frame))
      (put_crypto (tkt_conn_id ticket) active c u) = (f, u')"
    by (simp add: send_tunnel_response_def Let_def)
  then have u': "hm_get (up_sessions u') (tkt_conn_id ticket) = Some (active\<lparr>ses_crypto := c\<rparr>)"
    using hm_get_put_crypto [of "tkt_conn_id ticket" active c u] send_wire_same [of "put_crypto (tkt_conn_id ticket) active c u" "write"]
    by (metis same_sessions_def snd_conv)
  from send_wire_sent [OF \<open>send_wire write _ _ = _\<close>] assms(2)
  have s: "up_sent u' = up_sent u @ [WireMessage (encode_data (tkt_conn_id ticket) frame)]"
    by (auto simp: put_crypto_def)
  from seal_InrD x f obtain b where "c = (ses_crypto active)\<lparr>cs_send_counter := cs_send_counter (ses_crypto active) + 1\<rparr>"
      "cs_send_counter (ses_crypto active) < u64_max" "frame = be64 (cs_send_counter (ses_crypto active) + 1) @ b"
      "lib_seal lib (cs_send_key (ses_crypto active))
         (nonce (cs_send_tag (ses_crypto active)) (cs_send_counter (ses_crypto active) + 1)) response = Some b" by blast
  with that [OF a t(2,1) r] s u' show ?thesis by blast
qed

lemma client_data_queuedE:
  assumes "client_data lib write view conn_id device_id payload s = (f, s')"
    and "dp_jobs (re_pool s') = dp_jobs (re_pool s) @ [job]"
  obtains active crypto where
    "hm_get (up_sessions (re_uplink s)) conn_id = Some active" and "ses_device_id active = device_id"
    and "relay_token_hash (hv_store view) device_id = Some (ses_token_hash active)"
    and "job_ticket job = ses_ticket active" and "crypto_advances (ses_crypto active) crypto"
    and "re_uplink s' = put_crypto conn_id active crypto (re_uplink s)"
    and "s' = snd (session_data lib write view conn_id active payload s)"
proof (cases "hm_get (up_sessions (re_uplink s)) conn_id")
  case None
  have "dp_jobs (re_pool s') = dp_jobs (re_pool s)"
    using assms(1) None by (auto simp: client_data_def client_hello_frame_def Let_def split: option.splits prod.splits)
  with assms(2) show ?thesis by simp
next
  case (Some active)
  have d: "ses_device_id active = device_id" "relay_token_hash (hv_store view) device_id = Some (ses_token_hash active)"
    using assms Some by (auto simp: client_data_def Let_def split: if_splits)
  with assms(1) Some have sd: "session_data lib write view conn_id active payload s = (f, s')"
    by (simp add: client_data_def Let_def)
  obtain r crypto where o: "open_frame (lib_open lib) payload (ses_crypto active) = (r, crypto)" by fastforce
  with sd assms(2) obtain plaintext where p: "r = Inr plaintext"
    by (cases r) (auto simp: session_data_def Let_def)
  from sd assms(2) o p obtain request where q:
    "parse_tunnel_request (lib_from_slice lib) (lib_unb64 lib) plaintext = Some request"
    by (auto simp: session_data_def Let_def split: option.splits)
  let ?u = "put_crypto conn_id active crypto (re_uplink s)"
  let ?j = "\<lparr>job_ticket = ses_ticket active, job_namespace = up_namespace ?u, job_request = request\<rparr>"
  consider "submit ?j (re_pool s) = (Inl Stopped, re_pool s)" | "submit ?j (re_pool s) = (Inl (Full ?j), re_pool s)"
    | "submit ?j (re_pool s) = (Inr (), (re_pool s)\<lparr>dp_jobs := dp_jobs (re_pool s) @ [?j]\<rparr>)"
    unfolding submit_def by (cases "dp_stopped (re_pool s)"; cases "DISPATCH_QUEUE_CAPACITY \<le> length (dp_jobs (re_pool s))") simp_all
  then have j: "job_ticket job = ses_ticket active \<and> re_uplink s' = ?u"
    using sd assms(2) by cases (auto simp: session_data_def Let_def o p q split_beta)
  have adv: "crypto_advances (ses_crypto active) crypto"
    using open_advances [of "ses_crypto active" "lib_open lib" payload] o by simp
  have "s' = snd (session_data lib write view conn_id active payload s)" by (simp only: sd snd_conv)
  then show ?thesis by (rule that [OF Some d conjunct1 [OF j] adv conjunct2 [OF j]])
qed

end
