(* ===== verification/Relay_Link_Props.thy ===== *)
theory Relay_Link_Props
  imports Relay_Host_Props Relay_Crypto_Props Punch_Props Relay_Downlink
begin

text \<open>
  Both ends of a relayed connection together: the Controller of \<open>Relay_Downlink\<close> and the Host of
  \<open>Relay_Host\<close>. The handshake gives them matching channels and the same key material for direct paths,
  and a request of the Controller reaches a handler and its answer comes back. The Relay between them
  forwards payloads unchanged.
\<close>

section \<open>Handshake\<close>

lemma mac_mismatch_iff: "mac_mismatch a b \<longleftrightarrow> a \<noteq> b"
  using constant_time_eq_iff [of a b] by (auto simp: mac_mismatch_def constant_time_eq_def simp del: neq0_conv split: if_splits)

text \<open>Each end receives with the key and tag the other sends with, and has not seen more than was sent.\<close>

definition ends_meet :: "crypto_session \<Rightarrow> crypto_session \<Rightarrow> bool" where
  "ends_meet h c \<longleftrightarrow> cs_receive_key h = cs_send_key c \<and> cs_receive_tag h = cs_send_tag c
     \<and> cs_receive_key c = cs_send_key h \<and> cs_receive_tag c = cs_send_tag h
     \<and> length (cs_send_key h) = 32 \<and> length (cs_send_key c) = 32
     \<and> cs_last_received h \<le> cs_send_counter c \<and> cs_last_received c \<le> cs_send_counter h"

lemma session_new_ok:
  assumes "hkdf_32 hkdf" and "length key = 32" and "length shared = 32" and "length csalt = 16" and "length hsalt = 16"
  obtains h c where "session_new hkdf key shared csalt hsalt True = Inr h"
    and "session_new hkdf key shared csalt hsalt False = Inr c" and "ends_meet h c"
  using assms by (simp add: session_new_def hkdf_32_def aead_key_def Let_def ends_meet_def)

text \<open>What the Diffie-Hellman agreement promises for two key pairs.\<close>

definition agreement :: "relay_lib \<Rightarrow> string \<Rightarrow> string \<Rightarrow> string \<Rightarrow> bool" where
  "agreement lib a b shared \<longleftrightarrow> lib_agree lib a (lib_public lib b) = Some shared
     \<and> lib_agree lib b (lib_public lib a) = Some shared \<and> length shared = 32"

definition lib_faithful :: "relay_lib \<Rightarrow> bool" where
  "lib_faithful lib \<longleftrightarrow> json_faithful (lib_to_string lib) (lib_from_slice lib)
     \<and> base64_faithful (lib_b64 lib) (lib_unb64 lib) \<and> hkdf_32 (lib_hkdf lib)
     \<and> aead_correct (lib_seal lib) (lib_open lib)"

abbreviation hello_of :: "relay_lib \<Rightarrow> string \<Rightarrow> string \<Rightarrow> string \<Rightarrow> string" where
  "hello_of lib device_id csalt cpriv \<equiv>
     encode_client_hello (lib_to_string lib) (lib_b64 lib) device_id csalt (lib_public lib cpriv)"

text \<open>A paired Controller and its Host complete the handshake: the hello of the Controller makes the
  Host install a session and answer; the Controller accepts that answer; the two crypto sessions match;
  and both ends hold the same material for direct paths.\<close>

lemma relay_handshake_agrees:
  assumes lib: "lib_faithful lib" and agree: "agreement lib cpriv hpriv shared"
    and view: "hv_ephemeral view = Inr hpriv" "length (hv_salt view) = 16" "length csalt = 16" "utf8_valid device_id"
    and paired: "relay_token_hash (hv_store view) device_id = Some token_hash"
      "e2e_key (lib_unb64 lib) (hv_keys view) (up_mac_id (re_uplink s)) device_id = Some key"
    and free: "hm_get (up_sessions (re_uplink s)) conn_id = None" "write (length (up_sent (re_uplink s))) = None"
  shows "\<exists>s' active d answer.
      client_data lib write view conn_id device_id (hello_of lib device_id csalt cpriv) s = (None, s')
    \<and> up_sent (re_uplink s') = up_sent (re_uplink s) @ [WireMessage (encode_data conn_id answer)]
    \<and> handshake lib (Inr cpriv) csalt
        (\<lambda>hello. if hello = hello_of lib device_id csalt cpriv then Inr answer else Inl []) device_id key = Inr d
    \<and> hm_get (up_sessions (re_uplink s')) conn_id = Some active \<and> ses_device_id active = device_id
    \<and> ends_meet (ses_crypto active) (dl_crypto d)
    \<and> map_option cn_material (hm_get (dh_connections (re_hub s')) conn_id)
        = Some \<lparr>cm_shared_secret = pm_shared_secret (downlink_probe_material d),
            cm_client_salt = pm_client_salt (downlink_probe_material d),
            cm_host_salt = pm_host_salt (downlink_probe_material d)\<rparr>"
proof -
  let ?hsalt = "hv_salt view" and ?hpub = "lib_public lib hpriv" and ?cpub = "lib_public lib cpriv"
  have key: "length key = 32" using paired(2) by (auto simp: e2e_key_def bind_eq_Some_conv split: if_splits)
  obtain h c where hc: "session_new (lib_hkdf lib) key shared csalt ?hsalt True = Inr h"
      "session_new (lib_hkdf lib) key shared csalt ?hsalt False = Inr c" "ends_meet h c"
    using session_new_ok [of "lib_hkdf lib" key shared csalt ?hsalt] lib agree view key
    by (auto simp: lib_faithful_def agreement_def)
  let ?mac = "transcript_mac (lib_hkdf lib) (lib_hmac lib) key device_id csalt ?hsalt ?cpub ?hpub"
  let ?answer = "encode_host_hello (lib_to_string lib) (lib_b64 lib) ?hsalt ?hpub ?mac"
  have jb: "json_faithful (lib_to_string lib) (lib_from_slice lib)" "base64_faithful (lib_b64 lib) (lib_unb64 lib)"
    using lib by (simp_all add: lib_faithful_def)
  have parsed: "parse_client_hello (lib_from_slice lib) (lib_unb64 lib) (hello_of lib device_id csalt cpriv)
      = Some \<lparr>ch_device_id = device_id, ch_salt = csalt, ch_ephemeral_public = ?cpub\<rparr>"
    using hello_round_trip [OF jb view(4,3)] by blast
  have answered: "parse_host_hello (lib_from_slice lib) (lib_unb64 lib) ?answer
      = Some \<lparr>hh_salt = ?hsalt, hh_ephemeral_public = ?hpub, hh_mac = ?mac\<rparr>"
    using hello_round_trip [OF jb view(4,2)] by blast
  have accepted: "accept_hello lib view (up_mac_id (re_uplink s)) device_id
      \<lparr>ch_device_id = device_id, ch_salt = csalt, ch_ephemeral_public = ?cpub\<rparr> = Some (token_hash, shared, ?hpub, ?mac, h)"
    using paired view(1) agree hc(1) by (simp add: accept_hello_def shared_secret_def agreement_def Let_def)
  obtain d where d: "handshake lib (Inr cpriv) csalt
      (\<lambda>hello. if hello = hello_of lib device_id csalt cpriv then Inr ?answer else Inl []) device_id key = Inr d"
    and dc: "dl_crypto d = c" "dl_shared_secret d = shared" "dl_client_salt d = csalt" "dl_host_salt d = ?hsalt"
    using answered agree hc(2)
    by (simp add: handshake_def Let_def mac_mismatch_iff shared_secret_def agreement_def)
  obtain s' active where s': "client_data lib write view conn_id device_id (hello_of lib device_id csalt cpriv) s = (None, s')"
      "up_sent (re_uplink s') = up_sent (re_uplink s) @ [WireMessage (encode_data conn_id ?answer)]"
      "hm_get (up_sessions (re_uplink s')) conn_id = Some active" "ses_device_id active = device_id" "ses_crypto active = h"
      "map_option cn_material (hm_get (dh_connections (re_hub s')) conn_id)
        = Some \<lparr>cm_shared_secret = shared, cm_client_salt = csalt, cm_host_salt = ?hsalt\<rparr>"
    using free parsed accepted
    by (simp add: client_data_def client_hello_frame_def send_wire_def register_def Let_def)
  show ?thesis
    by (intro exI [of _ s'] exI [of _ active] exI [of _ d] exI [of _ ?answer])
       (use s' d dc hc(3) in \<open>simp add: downlink_probe_material_def\<close>)
qed

section \<open>One request\<close>

lemma frame_arrives:
  assumes "aead_correct sl op" and "ends_meet h c" and "plaintext_frame_fits (length p)" and "cs_send_counter c < u64_max"
  obtains f where "seal sl p c = (Inr f, c\<lparr>cs_send_counter := Suc (cs_send_counter c)\<rparr>)"
    and "open_frame op f h = (Inr p, h\<lparr>cs_last_received := Suc (cs_send_counter c)\<rparr>)"
    and "ends_meet (h\<lparr>cs_last_received := Suc (cs_send_counter c)\<rparr>) (c\<lparr>cs_send_counter := Suc (cs_send_counter c)\<rparr>)"
proof -
  obtain b where b: "seal sl p c = (Inr (be64 (Suc (cs_send_counter c)) @ b), c\<lparr>cs_send_counter := Suc (cs_send_counter c)\<rparr>)"
      "length b = length p + 16" "op (cs_send_key c) (nonce (cs_send_tag c) (Suc (cs_send_counter c))) b = Some p"
    using seal_fit [OF assms(1) _ assms(3,4)] assms(2) by (auto simp: ends_meet_def)
  have "frame_opens op (cs_receive_key h) (cs_receive_tag h) (Suc (cs_send_counter c)) p (be64 (Suc (cs_send_counter c)) @ b)"
    using b assms(2) by (simp add: frame_opens_def ends_meet_def)
  then have "open_frame op (be64 (Suc (cs_send_counter c)) @ b) h = (Inr p, h\<lparr>cs_last_received := Suc (cs_send_counter c)\<rparr>)"
    using assms(2,4) by (intro open_frame_opens) (simp_all add: ends_meet_def)
  with b(1) assms(2) show ?thesis by (intro that) (auto simp: ends_meet_def)
qed

lemma ends_meet_sym: "ends_meet h c \<longleftrightarrow> ends_meet c h"
  by (auto simp: ends_meet_def)

lemma await_response_first:
  "open_frame (lib_open lib) f c = (Inr p, c') \<Longrightarrow>
   parse_tunnel_response (lib_from_slice lib) (lib_unb64 lib) p
     = Inr \<lparr>rs_id = i, rs_status = fst result, rs_body = snd result\<rparr> \<Longrightarrow>
   await_response lib i (Suc n) (Inr f # fs) c = (Some (Inr result), c')"
  by simp

lemma plain_request_decodes:
  assumes "lib_faithful lib" and "request_wf r" and "rq_query r = []"
  shows "parse_tunnel_request (lib_from_slice lib) (lib_unb64 lib)
    (encode_tunnel_request (lib_to_string lib) (lib_b64 lib) r) = Some r"
proof -
  obtain q where q: "\<forall>k. map_of q k = map_of (rev (rq_query r)) k"
      "parse_tunnel_request (lib_from_slice lib) (lib_unb64 lib)
         (encode_tunnel_request (lib_to_string lib) (lib_b64 lib) r) = Some (r\<lparr>rq_query := q\<rparr>)"
    using tunnel_request_round_trip [OF _ _ assms(2)] assms(1) unfolding lib_faithful_def by blast
  have "q = []" using q(1) assms(3) by (cases q) (auto dest: spec [of _ "fst (hd q)"] split: if_splits)
  with q(2) assms(3) show ?thesis by (cases r) simp
qed

text \<open>A frame of the Controller becomes a queued request.\<close>

lemma request_queued:
  assumes lib: "lib_faithful lib"
    and conn: "hm_get (up_sessions (re_uplink s)) conn_id = Some active" "ends_meet (ses_crypto active) c"
    and listed: "relay_token_hash (hv_store view) (ses_device_id active) = Some (ses_token_hash active)"
    and room: "\<not> dp_stopped (re_pool s)" "length (dp_jobs (re_pool s)) < DISPATCH_QUEUE_CAPACITY"
    and request: "request_wf r" "rq_query r = []"
      "plaintext_frame_fits (length (encode_tunnel_request (lib_to_string lib) (lib_b64 lib) r))"
    and counter: "cs_send_counter c < u64_max"
  defines "c\<^sub>1 \<equiv> c\<lparr>cs_send_counter := Suc (cs_send_counter c)\<rparr>"
    and "h\<^sub>1 \<equiv> (ses_crypto active)\<lparr>cs_last_received := Suc (cs_send_counter c)\<rparr>"
  obtains frame where
    "seal (lib_seal lib) (encode_tunnel_request (lib_to_string lib) (lib_b64 lib) r) c = (Inr frame, c\<^sub>1)"
    and "ends_meet h\<^sub>1 c\<^sub>1"
    and "client_data lib write view conn_id (ses_device_id active) frame s
      = (None, s\<lparr>re_uplink := put_crypto conn_id active h\<^sub>1 (re_uplink s),
          re_pool := (re_pool s)\<lparr>dp_jobs := dp_jobs (re_pool s)
            @ [\<lparr>job_ticket = ses_ticket active, job_namespace = up_namespace (re_uplink s), job_request = r\<rparr>]\<rparr>\<rparr>)"
proof -
  let ?p = "encode_tunnel_request (lib_to_string lib) (lib_b64 lib) r"
  have aead: "aead_correct (lib_seal lib) (lib_open lib)" using lib by (simp add: lib_faithful_def)
  obtain frame where f: "seal (lib_seal lib) ?p c = (Inr frame, c\<^sub>1)"
      "open_frame (lib_open lib) frame (ses_crypto active) = (Inr ?p, h\<^sub>1)" "ends_meet h\<^sub>1 c\<^sub>1"
    using frame_arrives [OF aead conn(2) request(3) counter] unfolding c\<^sub>1_def h\<^sub>1_def by blast
  have "client_data lib write view conn_id (ses_device_id active) frame s
      = (None, s\<lparr>re_uplink := put_crypto conn_id active h\<^sub>1 (re_uplink s),
          re_pool := (re_pool s)\<lparr>dp_jobs := dp_jobs (re_pool s)
            @ [\<lparr>job_ticket = ses_ticket active, job_namespace = up_namespace (re_uplink s), job_request = r\<rparr>]\<rparr>\<rparr>)"
    using conn(1) listed f(2) plain_request_decodes [OF lib request(1,2)] room
    by (simp add: client_data_def session_data_def submit_def Let_def put_crypto_def)
  with f(1,3) show ?thesis by (rule that)
qed

text \<open>An answer becomes a frame that the Controller opens.\<close>

lemma answer_sent:
  assumes lib: "lib_faithful lib"
    and conn: "hm_get (up_sessions u) conn_id = Some active" "tkt_conn_id (ses_ticket active) = conn_id"
      "ends_meet (ses_crypto active) c"
    and listed: "relay_token_hash store (ses_device_id active) = Some (ses_token_hash active)"
    and small: "length (lib_to_string lib (tunnel_response_json (lib_b64 lib) i 413 TOO_LARGE_BODY)) \<le> MAX_PLAINTEXT_BYTES"
    and limits: "i \<le> u64_max" "status < 2 ^ 16" "cs_send_counter (ses_crypto active) < u64_max"
    and wr: "write (length (up_sent u)) = None"
  defines "h\<^sub>1 \<equiv> (ses_crypto active)\<lparr>cs_send_counter := Suc (cs_send_counter (ses_crypto active))\<rparr>"
    and "c\<^sub>1 \<equiv> c\<lparr>cs_last_received := Suc (cs_send_counter (ses_crypto active))\<rparr>"
  obtains answer result where
    "send_tunnel_response lib write store (ses_ticket active) i status out u
      = (None, (put_crypto conn_id active h\<^sub>1 u)\<lparr>up_sent := up_sent u @ [WireMessage (encode_data conn_id answer)]\<rparr>)"
    and "await_response lib i 64 [Inr answer] c = (Some (Inr result), c\<^sub>1)" and "ends_meet h\<^sub>1 c\<^sub>1"
    and "result = bounded_answer (lib_to_string lib) (lib_b64 lib) i status out"
proof -
  have aead: "aead_correct (lib_seal lib) (lib_open lib)"
    and jb: "json_faithful (lib_to_string lib) (lib_from_slice lib)" "base64_faithful (lib_b64 lib) (lib_unb64 lib)"
    using lib by (simp_all add: lib_faithful_def)
  obtain bytes result where b:
      "encode_bounded_tunnel_response (lib_to_string lib) (lib_b64 lib) i status out = Some bytes"
      "plaintext_frame_fits (length bytes)"
      "parse_tunnel_response (lib_from_slice lib) (lib_unb64 lib) bytes
         = Inr \<lparr>rs_id = i, rs_status = fst result, rs_body = snd result\<rparr>"
      "result = bounded_answer (lib_to_string lib) (lib_b64 lib) i status out"
    using bounded_response_fits [OF jb limits(1,2) small, of out]
    by (fastforce simp: plaintext_frame_fits_def MAX_PLAINTEXT_BYTES_def MAX_SEALED_BYTES_def)
  obtain answer where g: "seal (lib_seal lib) bytes (ses_crypto active) = (Inr answer, h\<^sub>1)"
      "open_frame (lib_open lib) answer c = (Inr bytes, c\<^sub>1)" "ends_meet h\<^sub>1 c\<^sub>1"
    using frame_arrives [OF aead conn(3) [THEN ends_meet_sym [THEN iffD1]] b(2) limits(3)] unfolding h\<^sub>1_def c\<^sub>1_def
    using ends_meet_sym by blast
  have "send_tunnel_response lib write store (ses_ticket active) i status out u
      = (None, (put_crypto conn_id active h\<^sub>1 u)\<lparr>up_sent := up_sent u @ [WireMessage (encode_data conn_id answer)]\<rparr>)"
    using b(1) conn(1,2) listed g(1) wr
    by (simp add: send_tunnel_response_def Let_def) (simp add: send_wire_def put_crypto_def)
  moreover have "await_response lib i (Suc 63) [Inr answer] c = (Some (Inr result), c\<^sub>1)"
    by (rule await_response_first [OF g(2) b(3)])
  ultimately show ?thesis using that g(3) b(4) by simp
qed

text \<open>C10. A request of the Controller is answered: its frame makes the Host queue exactly that request, and
  when the worker answers with some status and body, the frame the Host then sends makes the waiting
  Controller return exactly that status and body when they fit into a frame, and the 413 that replaces them when they
  do not, with both channels ready for the next request.\<close>

theorem relayed_request_answered:
  assumes lib: "lib_faithful lib"
    and small: "length (lib_to_string lib (tunnel_response_json (lib_b64 lib) (dl_next_id d + 1) 413 TOO_LARGE_BODY))
      \<le> MAX_PLAINTEXT_BYTES"
    and conn: "hm_get (up_sessions (re_uplink s)) conn_id = Some active" "tkt_conn_id (ses_ticket active) = conn_id"
      "ends_meet (ses_crypto active) (dl_crypto d)"
    and listed: "relay_token_hash (hv_store view) (ses_device_id active) = Some (ses_token_hash active)"
      "relay_token_hash store (ses_device_id active) = Some (ses_token_hash active)"
    and room: "\<not> dp_stopped (re_pool s)" "length (dp_jobs (re_pool s)) < DISPATCH_QUEUE_CAPACITY"
    and request: "request_wf (downlink_request_of (dl_next_id d + 1) method path bearer body)"
      "plaintext_frame_fits (length (encode_tunnel_request (lib_to_string lib) (lib_b64 lib)
         (downlink_request_of (dl_next_id d + 1) method path bearer body)))"
    and counters: "cs_send_counter (dl_crypto d) < u64_max" "cs_send_counter (ses_crypto active) < u64_max"
    and status: "status < 2 ^ 16" and wr: "write (length (up_sent (re_uplink s))) = None"
  shows "\<exists>frame s\<^sub>1 job u\<^sub>2 active\<^sub>2 answer result d'.
      client_data lib write view conn_id (ses_device_id active) frame s = (None, s\<^sub>1)
    \<and> dp_jobs (re_pool s\<^sub>1) = dp_jobs (re_pool s) @ [job] \<and> job_ticket job = ses_ticket active
    \<and> job_request job = downlink_request_of (dl_next_id d + 1) method path bearer body
    \<and> (let c = completion_of job (Some (status, out)) in
         send_tunnel_response lib write store (cmp_ticket c) (cmp_request_id c) (cmp_status c) (cmp_body c) (re_uplink s\<^sub>1)
           = (None, u\<^sub>2))
    \<and> up_sent u\<^sub>2 = up_sent (re_uplink s\<^sub>1) @ [WireMessage (encode_data conn_id answer)]
    \<and> downlink_request lib (\<lambda>f. if f = frame then Inr () else Inl []) [Inr answer] method path bearer body d
        = (Some (Inr result), d')
    \<and> result = (if length (lib_to_string lib (tunnel_response_json (lib_b64 lib) (dl_next_id d + 1) status out))
                     + AEAD_OVERHEAD_BYTES \<le> MAX_FRAME_BYTES then (status, out) else (413, TOO_LARGE_BODY))
    \<and> hm_get (up_sessions u\<^sub>2) conn_id = Some active\<^sub>2 \<and> ends_meet (ses_crypto active\<^sub>2) (dl_crypto d')"
proof -
  let ?i = "dl_next_id d + 1"
  let ?r = "downlink_request_of ?i method path bearer body"
  let ?job = "\<lparr>job_ticket = ses_ticket active, job_namespace = up_namespace (re_uplink s), job_request = ?r\<rparr>"
  define c\<^sub>1 where "c\<^sub>1 = (dl_crypto d)\<lparr>cs_send_counter := Suc (cs_send_counter (dl_crypto d))\<rparr>"
  define h\<^sub>1 where "h\<^sub>1 = (ses_crypto active)\<lparr>cs_last_received := Suc (cs_send_counter (dl_crypto d))\<rparr>"
  let ?u\<^sub>1 = "put_crypto conn_id active h\<^sub>1 (re_uplink s)"
  let ?s\<^sub>1 = "s\<lparr>re_uplink := ?u\<^sub>1, re_pool := (re_pool s)\<lparr>dp_jobs := dp_jobs (re_pool s) @ [?job]\<rparr>\<rparr>"
  have q: "rq_query ?r = []" "rq_id ?r = ?i" by (simp_all add: downlink_request_of_def)
  obtain frame where f: "seal (lib_seal lib) (encode_tunnel_request (lib_to_string lib) (lib_b64 lib) ?r) (dl_crypto d)
        = (Inr frame, c\<^sub>1)" "ends_meet h\<^sub>1 c\<^sub>1"
      "client_data lib write view conn_id (ses_device_id active) frame s = (None, ?s\<^sub>1)"
    using request_queued [OF lib conn(1,3) listed(1) room request(1) q(1) request(2) counters(1)]
    unfolding c\<^sub>1_def h\<^sub>1_def by blast
  let ?a\<^sub>1 = "active\<lparr>ses_crypto := h\<^sub>1\<rparr>"
  define h\<^sub>2 where "h\<^sub>2 = h\<^sub>1\<lparr>cs_send_counter := Suc (cs_send_counter h\<^sub>1)\<rparr>"
  define c\<^sub>2 where "c\<^sub>2 = c\<^sub>1\<lparr>cs_last_received := Suc (cs_send_counter h\<^sub>1)\<rparr>"
  have "?i \<le> u64_max" using request(1) by (simp add: request_wf_def downlink_request_of_def)
  moreover have "cs_send_counter h\<^sub>1 < u64_max" using counters(2) by (simp add: h\<^sub>1_def)
  ultimately obtain answer result where g:
      "send_tunnel_response lib write store (ses_ticket active) ?i status out ?u\<^sub>1
        = (None, (put_crypto conn_id ?a\<^sub>1 h\<^sub>2 ?u\<^sub>1)\<lparr>up_sent := up_sent (re_uplink s) @ [WireMessage (encode_data conn_id answer)]\<rparr>)"
      "await_response lib ?i 64 [Inr answer] c\<^sub>1 = (Some (Inr result), c\<^sub>2)" "ends_meet h\<^sub>2 c\<^sub>2"
      "result = bounded_answer (lib_to_string lib) (lib_b64 lib) ?i status out"
    using answer_sent [of lib ?u\<^sub>1 conn_id ?a\<^sub>1 c\<^sub>1 store ?i status "write" out] lib small conn(2) f(2) listed(2) status wr
    unfolding h\<^sub>2_def c\<^sub>2_def by (auto simp: hm_get_put_crypto) (auto simp: put_crypto_def)
  have dr: "downlink_request lib (\<lambda>x. if x = frame then Inr () else Inl []) [Inr answer] method path bearer body d
      = (Some (Inr result), d\<lparr>dl_next_id := ?i, dl_crypto := c\<^sub>2\<rparr>)"
    using f(1) g(2) by (simp add: downlink_request_def Let_def)
  show ?thesis
  proof (intro exI conjI)
    show "client_data lib write view conn_id (ses_device_id active) frame s = (None, ?s\<^sub>1)" by (rule f(3))
    show "dp_jobs (re_pool ?s\<^sub>1) = dp_jobs (re_pool s) @ [?job]" by simp
    show "let c = completion_of ?job (Some (status, out)) in
        send_tunnel_response lib write store (cmp_ticket c) (cmp_request_id c) (cmp_status c) (cmp_body c) (re_uplink ?s\<^sub>1)
          = (None, (put_crypto conn_id ?a\<^sub>1 h\<^sub>2 ?u\<^sub>1)\<lparr>up_sent := up_sent (re_uplink s) @ [WireMessage (encode_data conn_id answer)]\<rparr>)"
      using g(1) q(2) by (simp add: completion_of_def Let_def)
    show "downlink_request lib (\<lambda>f. if f = frame then Inr () else Inl []) [Inr answer] method path bearer body d
        = (Some (Inr result), d\<lparr>dl_next_id := ?i, dl_crypto := c\<^sub>2\<rparr>)" by (rule dr)
    show "hm_get (up_sessions ((put_crypto conn_id ?a\<^sub>1 h\<^sub>2 ?u\<^sub>1)
        \<lparr>up_sent := up_sent (re_uplink s) @ [WireMessage (encode_data conn_id answer)]\<rparr>)) conn_id = Some (?a\<^sub>1\<lparr>ses_crypto := h\<^sub>2\<rparr>)"
      by (simp add: put_crypto_def)
  qed (use g(3,4) in \<open>simp_all add: put_crypto_def bounded_answer_def\<close>)
qed

section \<open>Who is answered\<close>

text \<open>The session that asked, and an answer that goes out under its ticket some steps later.\<close>

lemma answer_of_session:
  assumes inv: "relay_inv s" and b: "hm_get (up_sessions (re_uplink s)) conn_id = Some b"
    and steps: "relay_steps lib s s'"
    and send: "send_tunnel_response lib write store (ses_ticket b) i status body (re_uplink s') = (f, u)"
      "up_sent u = up_sent (re_uplink s') @ [m]"
  obtains c response sealed where "same_session b c"
    and "relay_token_hash store (ses_device_id b) = Some (ses_token_hash b)"
    and "encode_bounded_tunnel_response (lib_to_string lib) (lib_b64 lib) i status body = Some response"
    and "lib_seal lib (cs_send_key (ses_crypto b)) (nonce (cs_send_tag (ses_crypto b)) (cs_send_counter (ses_crypto c) + 1))
           response = Some sealed"
    and "m = WireMessage (encode_data conn_id (be64 (cs_send_counter (ses_crypto c) + 1) @ sealed))"
    and "cs_send_counter (ses_crypto c) < u64_max"
    and "hm_get (up_sessions u) conn_id = Some (c\<lparr>ses_crypto := (ses_crypto c)\<lparr>cs_send_counter := cs_send_counter (ses_crypto c) + 1\<rparr>\<rparr>)"
    and "relay_inv (s'\<lparr>re_uplink := u\<rparr>)"
proof -
  have s': "relay_inv s'" "evolves (re_uplink s) (re_uplink s')" using relay_steps_ok [OF steps inv] by simp_all
  have conn: "tkt_conn_id (ses_ticket b) = conn_id" using inv b by (simp add: relay_inv_def sessions_inv_def)
  have issued: "issued_by (re_uplink s) (ses_ticket b)" using session_issued [OF _ b] inv by (simp add: relay_inv_def)
  from send obtain c response sealed where c:
      "hm_get (up_sessions (re_uplink s')) conn_id = Some c" "ses_ticket c = ses_ticket b"
      "relay_token_hash store (ses_device_id c) = Some (ses_token_hash c)"
      "encode_bounded_tunnel_response (lib_to_string lib) (lib_b64 lib) i status body = Some response"
      "lib_seal lib (cs_send_key (ses_crypto c)) (nonce (cs_send_tag (ses_crypto c)) (cs_send_counter (ses_crypto c) + 1))
         response = Some sealed"
      "m = WireMessage (encode_data conn_id (be64 (cs_send_counter (ses_crypto c) + 1) @ sealed))"
      "cs_send_counter (ses_crypto c) < u64_max"
      "hm_get (up_sessions u) conn_id = Some (c\<lparr>ses_crypto := (ses_crypto c)\<lparr>cs_send_counter := cs_send_counter (ses_crypto c) + 1\<rparr>\<rparr>)"
    by (elim response_sentE) (auto simp: conn)
  have "(\<exists>a. hm_get (up_sessions (re_uplink s)) conn_id = Some a \<and> same_session a c) \<or> \<not> issued_by (re_uplink s) (ses_ticket c)"
    using s'(2) c(1) unfolding evolves_def by blast
  with c(2) issued b have same: "same_session b c" by simp
  have "good_step (re_uplink s') u" using send_tunnel_response_good send(1) by (metis snd_conv)
  then have "relay_inv (s'\<lparr>re_uplink := u\<rparr>)" using s'(1) by (auto simp: relay_inv_def good_step_def evolves_def)
  with that same c show thesis by (simp add: same_session_def)
qed

text \<open>C9. An answer reaches the session that asked, from every state of the invariant: when a frame made the Host queue a request and, after
  any number of steps (other requests, reconnections of the same client, revocations, a new uplink), an
  answer under the ticket of that request goes out, it is sealed with the send key of the very session
  that opened the frame, and the token of its device was still listed
  when the request was queued and when the answer was sent. No counter is used twice: the counter of the answer is above all that the
  session had used, the session that is kept has moved on to it, and every later answer of that session
  carries a larger one.\<close>

theorem answer_reaches_asker:
  assumes inv: "relay_inv s\<^sub>1"
    and "client_data lib write view conn_id device_id payload s\<^sub>1 = (None, s\<^sub>2)"
    and "dp_jobs (re_pool s\<^sub>2) = dp_jobs (re_pool s\<^sub>1) @ [job]"
    and "relay_steps lib s\<^sub>2 s\<^sub>3"
    and "send_tunnel_response lib write' store (job_ticket job) i status body (re_uplink s\<^sub>3) = (f, u)"
    and "up_sent u = up_sent (re_uplink s\<^sub>3) @ [m]"
  shows "\<exists>active response n sealed after. hm_get (up_sessions (re_uplink s\<^sub>1)) conn_id = Some active
    \<and> ses_device_id active = device_id
    \<and> relay_token_hash (hv_store view) device_id = Some (ses_token_hash active)
    \<and> relay_token_hash store device_id = Some (ses_token_hash active)
    \<and> encode_bounded_tunnel_response (lib_to_string lib) (lib_b64 lib) i status body = Some response
    \<and> cs_send_counter (ses_crypto active) < n \<and> n \<le> u64_max
    \<and> lib_seal lib (cs_send_key (ses_crypto active)) (nonce (cs_send_tag (ses_crypto active)) n) response = Some sealed
    \<and> m = WireMessage (encode_data conn_id (be64 n @ sealed))
    \<and> hm_get (up_sessions u) conn_id = Some after \<and> cs_send_counter (ses_crypto after) = n
    \<and> (\<forall>s\<^sub>4 write'' store' i' status' body' f' u' m'.
          relay_steps lib (s\<^sub>3\<lparr>re_uplink := u\<rparr>) s\<^sub>4
          \<and> send_tunnel_response lib write'' store' (job_ticket job) i' status' body' (re_uplink s\<^sub>4) = (f', u')
          \<and> up_sent u' = up_sent (re_uplink s\<^sub>4) @ [m']
          \<longrightarrow> (\<exists>n' sealed'. n < n' \<and> n' \<le> u64_max \<and> m' = WireMessage (encode_data conn_id (be64 n' @ sealed'))))"
proof -
  from client_data_queuedE [OF assms(2,3)] obtain active crypto where a:
      "hm_get (up_sessions (re_uplink s\<^sub>1)) conn_id = Some active" "ses_device_id active = device_id"
      "relay_token_hash (hv_store view) device_id = Some (ses_token_hash active)" "job_ticket job = ses_ticket active"
      "crypto_advances (ses_crypto active) crypto" "re_uplink s\<^sub>2 = put_crypto conn_id active crypto (re_uplink s\<^sub>1)"
      "s\<^sub>2 = snd (session_data lib write view conn_id active payload s\<^sub>1)" by blast
  have "owner_ok s\<^sub>1 s\<^sub>2" using session_data_ok [OF a(1)] a(7) by simp
  with owner_ok_via [of s\<^sub>1 "re_uplink s\<^sub>1" "re_pool s\<^sub>1" s\<^sub>2] inv have inv2: "relay_inv s\<^sub>2"
    by (simp add: relay_inv_def)
  let ?b = "active\<lparr>ses_crypto := crypto\<rparr>"
  have b: "hm_get (up_sessions (re_uplink s\<^sub>2)) conn_id = Some ?b" using a(6) by (simp add: hm_get_put_crypto)
  have job: "job_ticket job = ses_ticket ?b" using a(4) by simp
  obtain c response sealed where c: "same_session ?b c" "relay_token_hash store (ses_device_id ?b) = Some (ses_token_hash ?b)"
      "encode_bounded_tunnel_response (lib_to_string lib) (lib_b64 lib) i status body = Some response"
      "lib_seal lib (cs_send_key (ses_crypto ?b)) (nonce (cs_send_tag (ses_crypto ?b)) (cs_send_counter (ses_crypto c) + 1))
         response = Some sealed"
      "m = WireMessage (encode_data conn_id (be64 (cs_send_counter (ses_crypto c) + 1) @ sealed))"
      "cs_send_counter (ses_crypto c) < u64_max"
      "hm_get (up_sessions u) conn_id = Some (c\<lparr>ses_crypto := (ses_crypto c)\<lparr>cs_send_counter := cs_send_counter (ses_crypto c) + 1\<rparr>\<rparr>)"
      "relay_inv (s\<^sub>3\<lparr>re_uplink := u\<rparr>)"
    by (rule answer_of_session [OF inv2 b assms(4) assms(5) [unfolded job] assms(6)])
  let ?n = "cs_send_counter (ses_crypto c) + 1"
  let ?after = "c\<lparr>ses_crypto := (ses_crypto c)\<lparr>cs_send_counter := ?n\<rparr>\<rparr>"
  have later: "\<exists>n' sealed'. ?n < n' \<and> n' \<le> u64_max \<and> m' = WireMessage (encode_data conn_id (be64 n' @ sealed'))"
    if more: "relay_steps lib (s\<^sub>3\<lparr>re_uplink := u\<rparr>) s\<^sub>4"
      "send_tunnel_response lib write'' store' (job_ticket job) i' status' body' (re_uplink s\<^sub>4) = (f', u')"
      "up_sent u' = up_sent (re_uplink s\<^sub>4) @ [m']" for s\<^sub>4 write'' store' i' status' body' f' u' m'
  proof -
    have u: "hm_get (up_sessions (re_uplink (s\<^sub>3\<lparr>re_uplink := u\<rparr>))) conn_id = Some ?after" using c(7) by simp
    have "job_ticket job = ses_ticket ?after" using c(1) job by (simp add: same_session_def)
    from answer_of_session [OF c(8) u more(1) more(2) [unfolded this] more(3)] obtain e sealed' where
        "same_session ?after e" "cs_send_counter (ses_crypto e) < u64_max"
        "m' = WireMessage (encode_data conn_id (be64 (cs_send_counter (ses_crypto e) + 1) @ sealed'))" by metis
    then show ?thesis by (intro exI [of _ "cs_send_counter (ses_crypto e) + 1"] exI [of _ sealed']) (auto simp: same_session_def)
  qed
  have "cs_send_counter (ses_crypto active) < ?n" "cs_send_key crypto = cs_send_key (ses_crypto active)"
      "cs_send_tag crypto = cs_send_tag (ses_crypto active)"
    using c(1) a(5) by (auto simp: same_session_def crypto_advances_def)
  then show ?thesis
    by (intro exI [of _ active] exI [of _ response] exI [of _ ?n] exI [of _ sealed] exI [of _ ?after] conjI)
       (use a(1-3) c(2-7) later in auto)
qed

section \<open>Witnesses\<close>

text \<open>A printer that writes the values of a table in a few bytes, and any other in unary.\<close>

fun position :: "'a \<Rightarrow> 'a list \<Rightarrow> nat" where
  "position v [] = 0"
| "position v (x # xs) = (if v = x then 0 else Suc (position v xs))"

lemma nth_position: "v \<in> set xs \<Longrightarrow> position v xs < length xs \<and> xs ! position v xs = v"
  by (induction xs) auto

definition table_print :: "json list \<Rightarrow> json \<Rightarrow> string" where
  "table_print tbl v = (if v \<in> set tbl then CHR ''b'' # replicate (position v tbl) (CHR ''b'')
     else CHR ''a'' # replicate (to_nat v) (CHR ''a''))"

definition table_parse :: "json list \<Rightarrow> string \<Rightarrow> json option" where
  "table_parse tbl s = (case s of [] \<Rightarrow> None
     | c # r \<Rightarrow> if c = CHR ''b'' then if length r < length tbl then Some (tbl ! length r) else None
               else Some (from_nat (length r)))"

definition table_lib :: "json list \<Rightarrow> relay_lib" where
  "table_lib tbl = \<lparr>lib_hkdf = flat_hkdf, lib_hmac = (\<lambda>k m. m), lib_seal = pad_seal, lib_open = pad_open,
     lib_to_string = table_print tbl, lib_from_slice = table_parse tbl, lib_b64 = unary_b64, lib_unb64 = unary_unb64,
     lib_public = (\<lambda>p. p), lib_agree = (\<lambda>a b. Some (replicate 32 (CHR ''s'')))\<rparr>"

lemma table_lib_faithful: "lib_faithful (table_lib tbl)"
  using nth_position [of _ tbl] pad_correct unary_b64_faithful
  by (auto simp: lib_faithful_def table_lib_def json_faithful_def table_print_def table_parse_def hkdf_32_def flat_hkdf_def)

lemma table_print_length: "v \<in> set tbl \<Longrightarrow> length (table_print tbl v) \<le> length tbl"
  using nth_position [of v tbl] by (simp add: table_print_def)

definition hash64 :: string where "hash64 = replicate 64 (CHR ''0'')"

definition test_devices :: json where
  "test_devices = jobj [(''devices'', JArr [jobj [(''id'', JStr ''p''), (''relayTokenHash'', JStr hash64)]])]"

definition test_keys :: json where
  "test_keys = jobj [(''m.p'', JStr (unary_b64 (replicate 32 (CHR ''k''))))]"

definition test_view :: host_view where
  "test_view = \<lparr>hv_store = Some test_devices, hv_busy_store = Some test_devices, hv_keys = Some test_keys,
     hv_ephemeral = Inr ''h'', hv_salt = replicate 16 (CHR ''h'')\<rparr>"

definition test_state :: "(u32, active_session) hmap \<Rightarrow> relay_state" where
  "test_state sessions = \<lparr>re_uplink = \<lparr>up_generation = 1, up_mac_id = ''m'', up_devices = [(''p'', hash64)],
      up_sessions = sessions, up_namespace = ''n'', up_next_incarnation = length sessions, up_since_ping = 0,
      up_since_activity = 0, up_heartbeat_ack = None, up_last_hello = 0, up_sent = []\<rparr>,
    re_pool = \<lparr>dp_jobs = [], dp_workers = [], dp_completions = [], dp_active_generation = 1, dp_stopped = False\<rparr>,
    re_hub = direct_hub_default\<rparr>"

lemma test_paired: "relay_token_hash (Some test_devices) ''p'' = Some hash64"
  by (simp add: relay_token_hash_def relay_token_hash_in_store_def test_devices_def devices_of_def jget_def jget_str_def
      jget_bool_def jobj_def jmap_of_def hash64_def)

lemma test_key: "e2e_key unary_unb64 (Some test_keys) ''m'' ''p'' = Some (replicate 32 (CHR ''k''))"
  by (simp add: e2e_key_def test_keys_def jget_str_def jget_def jobj_def jmap_of_def unary_b64_def unary_unb64_def)

text \<open>An established connection: the session of device \<open>p\<close> and the Controller's end of it.\<close>

definition test_active :: active_session where
  "test_active = \<lparr>ses_ticket = \<lparr>tkt_generation = 1, tkt_conn_id = 7, tkt_incarnation = 1\<rparr>, ses_device_id = ''p'',
     ses_token_hash = hash64, ses_crypto = projr (test_session True)\<rparr>"

definition test_downlink :: relay_downlink where
  "test_downlink = \<lparr>dl_crypto = projr (test_session False), dl_shared_secret = replicate 32 (CHR ''s''),
     dl_client_salt = replicate 16 (CHR ''c''), dl_host_salt = replicate 16 (CHR ''h''), dl_next_id = 0\<rparr>"

lemma test_ends_meet: "ends_meet (ses_crypto test_active) (dl_crypto test_downlink)"
  by (simp add: test_active_def test_downlink_def session_new_def aead_key_def flat_hkdf_def Let_def ends_meet_def)

lemma test_counters: "cs_send_counter (ses_crypto test_active) = 0" "cs_send_counter (dl_crypto test_downlink) = 0"
  by (simp_all add: test_active_def test_downlink_def session_new_def aead_key_def flat_hkdf_def Let_def)

abbreviation test_request :: tunnel_request where
  "test_request \<equiv> downlink_request_of (dl_next_id test_downlink + 1) ''GET'' ''/mobile/x'' None []"

abbreviation test_table :: "json list" where
  "test_table \<equiv> [tunnel_response_json unary_b64 (dl_next_id test_downlink + 1) 413 TOO_LARGE_BODY,
     tunnel_request_json unary_b64 test_request,
     tunnel_response_json unary_b64 (dl_next_id test_downlink + 1) 200 ''ok'']"

lemma test_request_ok: "request_wf test_request"
  "plaintext_frame_fits (length (encode_tunnel_request (lib_to_string (table_lib test_table)) (lib_b64 (table_lib test_table)) test_request))"
proof -
  show "request_wf test_request"
    by (simp add: request_wf_def downlink_request_of_def test_downlink_def u64_max_def byte_val_def)
  have "length (table_print test_table (tunnel_request_json unary_b64 test_request)) \<le> 3"
    using table_print_length [of "tunnel_request_json unary_b64 test_request" test_table] by simp
  then show "plaintext_frame_fits (length (encode_tunnel_request (lib_to_string (table_lib test_table))
      (lib_b64 (table_lib test_table)) test_request))"
    by (simp add: table_lib_def encode_tunnel_request_def plaintext_frame_fits_def MAX_PLAINTEXT_BYTES_def
        MAX_SEALED_BYTES_def MAX_FRAME_BYTES_def AEAD_OVERHEAD_BYTES_def)
qed

lemma test_small: "length (lib_to_string (table_lib test_table)
    (tunnel_response_json (lib_b64 (table_lib test_table)) (dl_next_id test_downlink + 1) 413 TOO_LARGE_BODY)) \<le> MAX_PLAINTEXT_BYTES"
proof -
  have "length (table_print test_table (tunnel_response_json unary_b64 (dl_next_id test_downlink + 1) 413 TOO_LARGE_BODY)) \<le> 3"
    using table_print_length [of _ test_table] by fastforce
  then show ?thesis
    by (simp add: table_lib_def MAX_PLAINTEXT_BYTES_def MAX_SEALED_BYTES_def MAX_FRAME_BYTES_def AEAD_OVERHEAD_BYTES_def)
qed

lemma test_connection:
  "hm_get (up_sessions (re_uplink (test_state [(7, test_active)]))) 7 = Some test_active"
  "tkt_conn_id (ses_ticket test_active) = 7"
  "relay_token_hash (hv_store test_view) (ses_device_id test_active) = Some (ses_token_hash test_active)"
  "\<not> dp_stopped (re_pool (test_state [(7, test_active)]))"
  "length (dp_jobs (re_pool (test_state [(7, test_active)]))) < DISPATCH_QUEUE_CAPACITY"
  "relay_inv (test_state [(7, test_active)])"
proof -
  show "relay_inv (test_state [(7, test_active)])"
    by (simp add: relay_inv_def sessions_inv_def test_state_def pool_tickets_def hm_wf_def) (simp add: test_active_def)
  show "relay_token_hash (hv_store test_view) (ses_device_id test_active) = Some (ses_token_hash test_active)"
    using test_paired by (simp add: test_view_def test_active_def)
qed (simp_all add: test_state_def DISPATCH_QUEUE_CAPACITY_def, simp_all add: test_active_def)

lemma test_answer_fits: "length (lib_to_string (table_lib test_table)
    (tunnel_response_json (lib_b64 (table_lib test_table)) (dl_next_id test_downlink + 1) 200 ''ok'')) + AEAD_OVERHEAD_BYTES \<le> MAX_FRAME_BYTES"
proof -
  have "length (table_print test_table (tunnel_response_json unary_b64 (dl_next_id test_downlink + 1) 200 ''ok'')) \<le> 3"
    using table_print_length [of _ test_table] by fastforce
  then show ?thesis by (simp add: table_lib_def MAX_FRAME_BYTES_def AEAD_OVERHEAD_BYTES_def)
qed

theorem relayed_request_answered_witness:
  "\<exists>frame answer d'. downlink_request (table_lib test_table) (\<lambda>f. if f = frame then Inr () else Inl []) [Inr answer]
      ''GET'' ''/mobile/x'' None [] test_downlink = (Some (Inr (200, ''ok'')), d')"
proof -
  have c: "cs_send_counter (dl_crypto test_downlink) < u64_max" "cs_send_counter (ses_crypto test_active) < u64_max"
    by (simp_all add: test_counters u64_max_def)
  have "(200 :: nat) < 2 ^ 16" by simp
  from relayed_request_answered [OF table_lib_faithful test_small test_connection(1,2) test_ends_meet
      test_connection(3,3,4,5) test_request_ok c this, of "\<lambda>_. None" "''ok''", OF refl]
  show ?thesis using test_answer_fits by (simp only: if_True) blast
qed

theorem answer_reaches_asker_witness:
  "\<exists>(s\<^sub>2 :: relay_state) job u m. dp_jobs (re_pool s\<^sub>2) = [job]
    \<and> snd (send_tunnel_response (table_lib test_table) (\<lambda>_. None) (Some test_devices) (job_ticket job) (dl_next_id test_downlink + 1) 200 ''ok''
        (re_uplink s\<^sub>2)) = u
    \<and> up_sent u = up_sent (re_uplink s\<^sub>2) @ [m] \<and> (\<exists>n sealed. m = WireMessage (encode_data 7 (be64 n @ sealed)))"
proof -
  let ?lib = "table_lib test_table" and ?s = "test_state [(7, test_active)]"
  have c: "cs_send_counter (dl_crypto test_downlink) < u64_max" by (simp add: test_counters u64_max_def)
  have q: "rq_query test_request = []" by (simp add: downlink_request_of_def)
  let ?h\<^sub>1 = "(ses_crypto test_active)\<lparr>cs_last_received := Suc (cs_send_counter (dl_crypto test_downlink))\<rparr>"
  let ?c\<^sub>1 = "(dl_crypto test_downlink)\<lparr>cs_send_counter := Suc (cs_send_counter (dl_crypto test_downlink))\<rparr>"
  let ?job = "\<lparr>job_ticket = ses_ticket test_active, job_namespace = up_namespace (re_uplink ?s), job_request = test_request\<rparr>"
  let ?u = "put_crypto 7 test_active ?h\<^sub>1 (re_uplink ?s)"
  let ?s\<^sub>2 = "?s\<lparr>re_uplink := ?u, re_pool := (re_pool ?s)\<lparr>dp_jobs := dp_jobs (re_pool ?s) @ [?job]\<rparr>\<rparr>"
  obtain frame where f: "client_data ?lib (\<lambda>_. None) test_view 7 (ses_device_id test_active) frame ?s = (None, ?s\<^sub>2)"
      and m: "ends_meet ?h\<^sub>1 ?c\<^sub>1"
    using request_queued [OF table_lib_faithful test_connection(1) test_ends_meet test_connection(3,4,5)
        test_request_ok(1) q test_request_ok(2) c, of "\<lambda>_. None"] by blast
  have j: "dp_jobs (re_pool ?s\<^sub>2) = dp_jobs (re_pool ?s) @ [?job]" by simp
  let ?a = "test_active\<lparr>ses_crypto := ?h\<^sub>1\<rparr>"
  have a: "hm_get (up_sessions ?u) 7 = Some ?a" "tkt_conn_id (ses_ticket ?a) = 7"
    "relay_token_hash (Some test_devices) (ses_device_id ?a) = Some (ses_token_hash ?a)"
    "cs_send_counter (ses_crypto ?a) < u64_max"
    using test_connection(2,3) test_counters(1) by (simp_all add: hm_get_put_crypto test_view_def u64_max_def)
  have m': "ends_meet (ses_crypto ?a) ?c\<^sub>1" using m by simp
  have l: "dl_next_id test_downlink + 1 \<le> u64_max" "(200 :: nat) < 2 ^ 16" by (simp_all add: u64_max_def test_downlink_def)
  obtain answer where ans: "send_tunnel_response ?lib (\<lambda>_. None) (Some test_devices) (ses_ticket ?a) (dl_next_id test_downlink + 1) 200 ''ok'' ?u
      = (None, (put_crypto 7 ?a ((ses_crypto ?a)\<lparr>cs_send_counter := Suc (cs_send_counter (ses_crypto ?a))\<rparr>) ?u)
          \<lparr>up_sent := up_sent ?u @ [WireMessage (encode_data 7 answer)]\<rparr>)"
    by (rule answer_sent [OF table_lib_faithful a(1,2) m' a(3) test_small l a(4), of "\<lambda>_. None" "''ok''", OF refl])
       (rule that, assumption)
  let ?w = "snd (send_tunnel_response ?lib (\<lambda>_. None) (Some test_devices) (job_ticket ?job) (dl_next_id test_downlink + 1) 200 ''ok'' (re_uplink ?s\<^sub>2))"
  have w: "up_sent ?w = up_sent (re_uplink ?s\<^sub>2) @ [WireMessage (encode_data 7 answer)]" using ans by simp
  have steps: "relay_steps ?lib ?s\<^sub>2 ?s\<^sub>2" by (simp add: relay_steps_def)
  from answer_reaches_asker [OF test_connection(6) f j steps surjective_pairing w]
  obtain k sealed where "WireMessage (encode_data 7 answer) = WireMessage (encode_data 7 (be64 k @ sealed))" by blast
  moreover have "dp_jobs (re_pool ?s\<^sub>2) = [?job]" by (simp add: test_state_def)
  ultimately show ?thesis using w by blast
qed

section \<open>Revocation\<close>

text \<open>C11. Once the token of a device is no longer listed as it was at the handshake (revoked, rotated, or
  restricted to direct connections), its session is not served any more: a frame from it is not opened,
  queues nothing and gets no answer, and an answer that is still due is dropped; either way the session
  is gone.\<close>

theorem revoked_session_not_served:
  assumes "hm_wf (up_sessions (re_uplink s))" and "hm_get (up_sessions (re_uplink s)) (tkt_conn_id t) = Some active"
    and "relay_token_hash store (ses_device_id active) \<noteq> Some (ses_token_hash active)" and "hv_store view = store"
  shows "client_data lib write view (tkt_conn_id t) device_id payload s
      = (None, s\<lparr>re_uplink := drop_session (tkt_conn_id t) (re_uplink s)\<rparr>)
    \<and> (encode_bounded_tunnel_response (lib_to_string lib) (lib_b64 lib) i status body \<noteq> None \<longrightarrow>
        send_tunnel_response lib write store t i status body (re_uplink s)
          = (None, drop_session (tkt_conn_id t) (re_uplink s)))
    \<and> hm_get (up_sessions (drop_session (tkt_conn_id t) (re_uplink s))) (tkt_conn_id t) = None
    \<and> up_sent (drop_session (tkt_conn_id t) (re_uplink s)) = up_sent (re_uplink s)"
  using assms
  by (auto simp: client_data_def send_tunnel_response_def Let_def) (simp_all add: drop_session_def hm.lookup_remove)

theorem revoked_session_not_served_witness:
  "fst (client_data (table_lib []) (\<lambda>_. None) (test_view\<lparr>hv_store := None\<rparr>) 7 ''p'' ''x'' (test_state [(7, test_active)])) = None
   \<and> hm_get (up_sessions (drop_session 7 (re_uplink (test_state [(7, test_active)])))) 7 = None"
proof -
  have wf: "hm_wf (up_sessions (re_uplink (test_state [(7, test_active)])))" by (simp add: test_state_def hm_wf_def)
  have c: "hm_get (up_sessions (re_uplink (test_state [(7, test_active)]))) (tkt_conn_id (ses_ticket test_active)) = Some test_active"
    using test_connection(1,2) by simp
  have "relay_token_hash None (ses_device_id test_active) \<noteq> Some (ses_token_hash test_active)"
    by (simp add: relay_token_hash_def)
  from revoked_session_not_served [OF wf c this, of "test_view\<lparr>hv_store := None\<rparr>" "table_lib []" "\<lambda>_. None" "''p''" "''x''"]
  show ?thesis using test_connection(2) by simp
qed

text \<open>C39. The handshake material of a session is not dead with it: dropping a revoked session leaves the
  hub of direct paths as it is, so a path that the revoked device negotiated stays live and its punch
  worker is not cancelled.\<close>

theorem revocation_keeps_direct_path:
  assumes "hm_get (up_sessions (re_uplink s)) conn_id = Some active"
    and "relay_token_hash (hv_store view) (ses_device_id active) \<noteq> Some (ses_token_hash active)"
    and "live_flag (re_hub s) conn_id = Some i" and "\<not> dh_flags (re_hub s) ! i"
  shows "\<exists>s'. client_data lib write view conn_id device_id payload s = (None, s')
    \<and> live_flag (re_hub s') conn_id = Some i \<and> \<not> dh_flags (re_hub s') ! i"
  using assms by (simp add: client_data_def Let_def)

definition live_hub :: direct_hub where
  "live_hub = \<lparr>dh_connections = [(7, \<lparr>cn_material = \<lparr>cm_shared_secret = [], cm_client_salt = [], cm_host_salt = []\<rparr>,
     cn_active = Some \<lparr>ap_path_session = ''x'', ap_cancel = 0\<rparr>\<rparr>)], dh_skip_stun = False, dh_flags = [False]\<rparr>"

theorem revocation_keeps_direct_path_witness:
  "\<exists>s'. client_data (table_lib []) (\<lambda>_. None) (test_view\<lparr>hv_store := None\<rparr>) 7 ''p'' ''x''
      ((test_state [(7, test_active)])\<lparr>re_hub := live_hub\<rparr>) = (None, s')
    \<and> live_flag (re_hub s') 7 = Some 0 \<and> \<not> dh_flags (re_hub s') ! 0"
proof (rule revocation_keeps_direct_path)
  show "hm_get (up_sessions (re_uplink ((test_state [(7, test_active)])\<lparr>re_hub := live_hub\<rparr>))) 7 = Some test_active"
    using test_connection(1) by simp
qed (simp_all add: relay_token_hash_def live_flag_def live_hub_def)

end
