(* ===== verification/Sha256_Props.thy ===== *)
theory Sha256_Props
  imports Sha256 Complex_Main
begin

text \<open>
  SHA-256 as FIPS 180-4 specifies it, written from the standard and not from the code: the message is a string of bits, the padding, the
  message schedule and the rounds are recursive equations over it, and the constants are the fractional parts of the square
  and cube roots of the first primes. The property is that \<open>sha256_hex\<close> of the code, with its byte blocks, growing arrays and
  tabulated constants, prints exactly this digest.
\<close>

unbundle bit_operations_syntax

section \<open>The standard\<close>

subsection \<open>Functions and constants (4.1.2, 4.2.2, 5.3.3)\<close>

definition ROTR :: "nat \<Rightarrow> 32 word \<Rightarrow> 32 word" where "ROTR n x = drop_bit n x OR push_bit (32 - n) x"
definition SHR :: "nat \<Rightarrow> 32 word \<Rightarrow> 32 word" where "SHR n x = drop_bit n x"

definition Ch :: "32 word \<Rightarrow> 32 word \<Rightarrow> 32 word \<Rightarrow> 32 word" where "Ch x y z = (x AND y) XOR (NOT x AND z)"
definition Maj :: "32 word \<Rightarrow> 32 word \<Rightarrow> 32 word \<Rightarrow> 32 word" where "Maj x y z = (x AND y) XOR (x AND z) XOR (y AND z)"
definition Sigma0 :: "32 word \<Rightarrow> 32 word" where "Sigma0 x = ROTR 2 x XOR ROTR 13 x XOR ROTR 22 x"
definition Sigma1 :: "32 word \<Rightarrow> 32 word" where "Sigma1 x = ROTR 6 x XOR ROTR 11 x XOR ROTR 25 x"
definition sigma0 :: "32 word \<Rightarrow> 32 word" where "sigma0 x = ROTR 7 x XOR ROTR 18 x XOR SHR 3 x"
definition sigma1 :: "32 word \<Rightarrow> 32 word" where "sigma1 x = ROTR 17 x XOR ROTR 19 x XOR SHR 10 x"

text \<open>The first 64 primes.\<close>

definition PRIMES :: "nat list" where
  "PRIMES = [2, 3, 5, 7, 11, 13, 17, 19, 23, 29, 31, 37, 41, 43, 47, 53, 59, 61, 67, 71, 73, 79, 83, 89, 97, 101, 103, 107, 109, 113,
     127, 131, 137, 139, 149, 151, 157, 163, 167, 173, 179, 181, 191, 193, 197, 199, 211, 223, 227, 229, 233, 239, 241, 251, 257, 263,
     269, 271, 277, 281, 283, 293, 307, 311]"

text \<open>The first 32 bits of the fractional part of a number.\<close>

definition fractional_bits :: "real \<Rightarrow> 32 word" where
  "fractional_bits x = word_of_int \<lfloor>2 ^ 32 * x\<rfloor>"

definition fips_K :: "nat \<Rightarrow> 32 word" where "fips_K t = fractional_bits (root 3 (real (PRIMES ! t)))"
definition fips_H0 :: "32 word list" where "fips_H0 = map (\<lambda>p. fractional_bits (sqrt (real p))) (take 8 PRIMES)"

subsection \<open>Padding and parsing (5.1.1, 5.2.1)\<close>

type_synonym bits = "bool list"

definition number_bits :: "nat \<Rightarrow> nat \<Rightarrow> bits" where
  "number_bits w n = map (\<lambda>i. bit n (w - 1 - i)) [0..<w]"

definition message_bits :: "string \<Rightarrow> bits" where
  "message_bits s = concat (map (\<lambda>c. number_bits 8 (byte_val c)) s)"

definition fips_pad :: "bits \<Rightarrow> bits" where
  "fips_pad M = M @ [True] @ replicate (nat ((447 - int (length M)) mod 512)) False @ number_bits 64 (length M)"

definition bits_word :: "bits \<Rightarrow> 32 word" where
  "bits_word bs = foldl (\<lambda>a b. 2 * a + of_bool b) 0 bs"

definition fips_M :: "bits \<Rightarrow> nat \<Rightarrow> nat \<Rightarrow> 32 word" where
  "fips_M padded i t = bits_word (take 32 (drop (512 * i + 32 * t) padded))"

subsection \<open>The hash computation (6.2.2)\<close>

fun fips_W :: "(nat \<Rightarrow> 32 word) \<Rightarrow> nat \<Rightarrow> 32 word" where
  "fips_W M t = (if t < 16 then M t
     else sigma1 (fips_W M (t - 2)) + fips_W M (t - 7) + sigma0 (fips_W M (t - 15)) + fips_W M (t - 16))"

declare fips_W.simps [simp del]

text \<open>The working variables \<open>a, ..., h\<close> after \<open>t\<close> rounds.\<close>

fun fips_vars :: "(nat \<Rightarrow> 32 word) \<Rightarrow> 32 word list \<Rightarrow> nat \<Rightarrow> sha_state" where
  "fips_vars M H 0 = (H ! 0, H ! 1, H ! 2, H ! 3, H ! 4, H ! 5, H ! 6, H ! 7)"
| "fips_vars M H (Suc t) =
     (case fips_vars M H t of (a, b, c, d, e, f, g, h) \<Rightarrow>
        let T1 = h + Sigma1 e + Ch e f g + fips_K t + fips_W M t; T2 = Sigma0 a + Maj a b c
        in (T1 + T2, a, b, c, d + T1, e, f, g))"

definition fips_block :: "(nat \<Rightarrow> 32 word) \<Rightarrow> 32 word list \<Rightarrow> 32 word list" where
  "fips_block M H =
     (case fips_vars M H 64 of (a, b, c, d, e, f, g, h) \<Rightarrow>
        [a + H ! 0, b + H ! 1, c + H ! 2, d + H ! 3, e + H ! 4, f + H ! 5, g + H ! 6, h + H ! 7])"

fun fips_hash :: "bits \<Rightarrow> nat \<Rightarrow> 32 word list" where
  "fips_hash padded 0 = fips_H0"
| "fips_hash padded (Suc i) = fips_block (fips_M padded i) (fips_hash padded i)"

text \<open>The digest is the 256-bit number that the eight words of the last hash value make up.\<close>

definition fips_sha256 :: "bits \<Rightarrow> nat" where
  "fips_sha256 M = foldl (\<lambda>n w. n * 2 ^ 32 + unat w) 0 (fips_hash (fips_pad M) (length (fips_pad M) div 512))"

subsection \<open>Reading a hexadecimal number\<close>

definition hex_digit :: "byte \<Rightarrow> nat" where
  "hex_digit c = (if byte_val c < 58 then byte_val c - 48 else byte_val c - 87)"

definition hex_value :: "string \<Rightarrow> nat" where
  "hex_value s = foldl (\<lambda>n c. n * 16 + hex_digit c) 0 s"

section \<open>Constants\<close>

lemma fractional_root:
  assumes "r ^ 3 \<le> p * 2 ^ 96" and "p * 2 ^ 96 < (r + 1) ^ 3"
  shows "fractional_bits (root 3 (real p)) = word_of_nat r"
proof -
  have cube: "(2 ^ 32 * root 3 (real p)) ^ 3 = real (p * 2 ^ 96)"
    by (simp add: power_mult_distrib odd_real_root_pow)
  have "real r ^ 3 \<le> (2 ^ 32 * root 3 (real p)) ^ 3"
    using assms(1) unfolding cube by (metis of_nat_le_iff of_nat_power)
  then have lo: "real r \<le> 2 ^ 32 * root 3 (real p)" using power_mono_iff [of "real r" "2 ^ 32 * root 3 (real p)" 3] by simp
  have "(2 ^ 32 * root 3 (real p)) ^ 3 < (real r + 1) ^ 3"
    using assms(2) unfolding cube by (metis of_nat_less_iff of_nat_power of_nat_Suc Suc_eq_plus1 add.commute)
  then have hi: "2 ^ 32 * root 3 (real p) < real r + 1" by (rule power_less_imp_less_base) simp
  have "\<lfloor>2 ^ 32 * root 3 (real p)\<rfloor> = int r" using lo hi by (intro floor_unique) simp_all
  then show ?thesis by (simp add: fractional_bits_def)
qed

lemma fractional_sqrt:
  assumes "r ^ 2 \<le> p * 2 ^ 64" and "p * 2 ^ 64 < (r + 1) ^ 2"
  shows "fractional_bits (sqrt (real p)) = word_of_nat r"
proof -
  have square: "(2 ^ 32 * sqrt (real p)) ^ 2 = real (p * 2 ^ 64)"
    by (simp add: power_mult_distrib)
  have "real r ^ 2 \<le> (2 ^ 32 * sqrt (real p)) ^ 2"
    using assms(1) unfolding square by (metis of_nat_le_iff of_nat_power)
  then have lo: "real r \<le> 2 ^ 32 * sqrt (real p)" by (rule power2_le_imp_le) simp
  have "(2 ^ 32 * sqrt (real p)) ^ 2 < (real r + 1) ^ 2"
    using assms(2) unfolding square by (metis of_nat_less_iff of_nat_power of_nat_Suc Suc_eq_plus1 add.commute)
  then have hi: "2 ^ 32 * sqrt (real p) < real r + 1" by (rule power2_less_imp_less) simp
  have "\<lfloor>2 ^ 32 * sqrt (real p)\<rfloor> = int r" using lo hi by (intro floor_unique) simp_all
  then show ?thesis by (simp add: fractional_bits_def)
qed

text \<open>The integer roots, from which the code's tables are read off.\<close>

definition CUBE_ROOTS :: "nat list" where
  "CUBE_ROOTS = [
    5411319704, 6194414737, 7344290767, 8215976869, 9551921755, 10098905585, 11043570340, 11460697813, 12214315672, 13195500289,
    13492127166, 14311783875, 14809980276, 15046980094, 15499789991, 16133124468, 16720292289, 16907126662, 17444216262,
    17784676812, 17950125167, 18429019306, 18734950876, 19175934170, 19734090066, 20001703533, 20132865992, 20390182855,
    20516441075, 20764397895, 21588763473, 21813078375, 22141143685, 22248366392, 22769593852, 22871018771, 23170020180,
    23461497531, 23651862830, 23931792517, 24205322401, 24295138891, 24734567280, 24820601251, 24990902297, 25075189284,
    25569408389, 26045227120, 26200031510, 26276752392, 26428864332, 26653801653, 26727943347, 27092625994, 27306805839,
    27517677555, 27725365998, 27793908591, 27997534228, 28131656200, 28198240250, 28526537963, 28973835255, 29099129074]"

definition SQUARE_ROOTS :: "nat list" where
  "SQUARE_ROOTS = [
    6074000999, 7439101573, 9603838834, 11363415354, 14244795007, 15485724812, 17708603819, 18721328409]"

lemma cube_roots: "list_all2 (\<lambda>p r. r ^ 3 \<le> p * 2 ^ 96 \<and> p * 2 ^ 96 < (r + 1) ^ 3) PRIMES CUBE_ROOTS"
  by (simp add: PRIMES_def CUBE_ROOTS_def)

lemma square_roots: "list_all2 (\<lambda>p r. r ^ 2 \<le> p * 2 ^ 64 \<and> p * 2 ^ 64 < (r + 1) ^ 2) (take 8 PRIMES) SQUARE_ROOTS"
  by (simp add: PRIMES_def SQUARE_ROOTS_def)

lemma sha_K_roots: "sha_K = map word_of_nat CUBE_ROOTS"
  by (simp add: sha_K_def CUBE_ROOTS_def)

lemma sha_H_roots: "sha_H = map word_of_nat SQUARE_ROOTS"
  by (simp add: sha_H_def SQUARE_ROOTS_def)

lemma K_eq: "t < 64 \<Longrightarrow> fips_K t = sha_K ! t"
proof -
  assume "t < 64"
  moreover have "length PRIMES = 64" by (simp add: PRIMES_def)
  ultimately show ?thesis
    using fractional_root list_all2_nthD [OF cube_roots, of t] list_all2_lengthD [OF cube_roots]
    by (simp add: fips_K_def sha_K_roots)
qed

lemma H0_eq: "fips_H0 = sha_H"
  unfolding fips_H0_def sha_H_roots list.rel_eq [symmetric] list.rel_map
  by (rule list_all2_mono [OF square_roots]) (auto intro: fractional_sqrt)

lemma rotr_eq:
  assumes "n < 32"
  shows "ROTR n x = word_rotr n x"
proof (rule bit_word_eqI)
  fix m assume m: "m < LENGTH(32)"
  have "\<not> bit x (n + m)" if "32 \<le> n + m" using that bit_imp_le_length [of x "n + m"] by auto
  moreover have "(m + n) mod 32 = (if n + m < 32 then n + m else m + n - 32)" using m assms by (auto simp: mod_if)
  ultimately show "bit (ROTR n x) m = bit (word_rotr n x) m"
    using m assms by (cases "n + m < 32") (auto simp: ROTR_def bit_word_rotr_iff bit_simps add.commute)
qed

lemma round_eq:
  "sha_round k w (a, b, c, d, e, f, g, h) =
     (let T1 = h + Sigma1 e + Ch e f g + k + w; T2 = Sigma0 a + Maj a b c in (T1 + T2, a, b, c, d + T1, e, f, g))"
  by (simp add: sha_round_def Sigma0_def Sigma1_def Ch_def Maj_def rotr_eq)

section \<open>Schedule and rounds\<close>

lemma fips_W_cong:
  assumes "\<And>t. t < 16 \<Longrightarrow> M t = M' t"
  shows "fips_W M t = fips_W M' t"
proof (induction t rule: less_induct)
  case (less t)
  then show ?case using assms by (cases "t < 16") (simp_all add: fips_W.simps [of _ t])
qed

lemma schedule_step:
  assumes "16 \<le> n"
  shows "schedule_word (map (fips_W M) [0..<n]) n = fips_W M n"
  using assms by (simp add: schedule_word_def fips_W.simps [of M n] sigma0_def sigma1_def SHR_def rotr_eq Let_def ac_simps)

lemma schedule_eq:
  assumes "block_words block = map M [0..<16]"
  shows "schedule block = map (fips_W M) [0..<64]"
proof -
  have loop: "fold (\<lambda>i w. w @ [schedule_word w i]) [16..<n] (map M [0..<16]) = map (fips_W M) [0..<n]" if "16 \<le> n" for n
    using that
  proof (induction n rule: dec_induct)
    case base
    show ?case by (simp add: fips_W.simps)
  next
    case (step n)
    then show ?case by (simp add: schedule_step)
  qed
  have "16 \<le> (64 :: nat)" by simp
  from loop [OF this] show ?thesis by (simp only: schedule_def assms)
qed

lemma sha_K_eq: "sha_K = map fips_K [0..<64]"
proof (rule nth_equalityI)
  show len: "length sha_K = length (map fips_K [0..<64])" by (simp add: sha_K_def)
  show "sha_K ! i = map fips_K [0..<64] ! i" if "i < length sha_K" for i
    using K_eq [of i] that len by (simp only: length_map length_upt) simp
qed

lemma rounds_eq:
  "fold (\<lambda>(k, w). sha_round k w) (map (\<lambda>t. (fips_K t, fips_W M t)) [0..<n]) (words_state H) = fips_vars M H n"
proof (induction n)
  case 0
  show ?case by (simp add: words_state_def)
next
  case (Suc n)
  then show ?case by (simp add: round_eq split: prod.split)
qed

lemma block_eq:
  assumes "block_words block = map M [0..<16]" and "length H = 8"
  shows "sha_block block H = fips_block M H"
proof -
  have "zip sha_K (schedule block) = map (\<lambda>t. (fips_K t, fips_W M t)) [0..<64]"
    by (simp add: sha_K_eq schedule_eq [OF assms(1)] zip_map_map zip_same_conv_map)
  then have fold: "fold (\<lambda>(k, w). sha_round k w) (zip sha_K (schedule block)) (words_state H) = fips_vars M H 64"
    by (simp only: rounds_eq)
  obtain a b c d e f g h where vars: "fips_vars M H 64 = (a, b, c, d, e, f, g, h)" by (cases "fips_vars M H 64") auto
  have "map2 (+) H [a, b, c, d, e, f, g, h] = [a + H ! 0, b + H ! 1, c + H ! 2, d + H ! 3, e + H ! 4, f + H ! 5, g + H ! 6, h + H ! 7]"
    using assms(2) by (auto simp: length_Suc_conv numeral_eq_Suc add.commute)
  then show ?thesis by (simp add: sha_block_def fips_block_def fold vars)
qed

section \<open>Bytes and bits\<close>

lemma number_bits_Suc: "number_bits (Suc w) n = bit n w # number_bits w n"
  unfolding number_bits_def upt_conv_Cons [OF zero_less_Suc] map_Suc_upt [symmetric]
  by simp

lemma number_bits_length [simp]: "length (number_bits w n) = w"
  by (simp add: number_bits_def)

lemma message_bits_simps [simp]:
  "message_bits [] = []"
  "message_bits (c # s) = number_bits 8 (byte_val c) @ message_bits s"
  "message_bits (s @ r) = message_bits s @ message_bits r"
  by (simp_all add: message_bits_def)

lemma message_bits_length [simp]: "length (message_bits s) = 8 * length s"
  by (induction s) simp_all

lemma message_bits_take: "take (8 * n) (message_bits s) = message_bits (take n s)"
proof (induction s arbitrary: n)
  case (Cons c s)
  then show ?case by (cases n) simp_all
qed simp

lemma message_bits_drop: "drop (8 * n) (message_bits s) = message_bits (drop n s)"
proof (induction s arbitrary: n)
  case (Cons c s)
  then show ?case by (cases n) simp_all
qed simp

lemma number_bits_value:
  "foldl (\<lambda>a b. 2 * a + of_bool b) (a :: 32 word) (number_bits w n) = 2 ^ w * a + of_nat (take_bit w n)"
proof (induction w arbitrary: a)
  case 0
  show ?case by (simp add: number_bits_def)
next
  case (Suc w)
  then show ?case by (simp add: number_bits_Suc take_bit_Suc_from_most algebra_simps)
qed

lemma be_word_step: "push_bit 8 a OR word_of_nat (byte_val c) = 2 ^ 8 * a + (word_of_nat (byte_val c) :: 32 word)"
proof -
  have "\<not> bit (byte_val c) n" if "8 \<le> n" for n
    using byte_val_less [of c] that bit_take_bit_iff [of 8 "byte_val c" n] by (simp add: take_bit_nat_eq_self)
  then have "push_bit 8 a AND (word_of_nat (byte_val c) :: 32 word) = 0"
    by (intro bit_word_eqI) (auto simp: bit_simps)
  then show ?thesis by (simp add: disjunctive_add_eq_or [symmetric] push_bit_eq_mult mult.commute)
qed

lemma be_word_eq: "be_word s = bits_word (message_bits s)"
proof -
  have "foldl (\<lambda>a c. push_bit 8 a OR word_of_nat (byte_val c)) a s = foldl (\<lambda>a b. 2 * a + of_bool b) (a :: 32 word) (message_bits s)" for a
  proof (induction s arbitrary: a)
    case (Cons c s)
    have "take_bit 8 (byte_val c) = byte_val c" using byte_val_less [of c] by (simp add: take_bit_nat_eq_self)
    then show ?case using Cons by (simp add: number_bits_value be_word_step)
  qed simp
  then show ?thesis by (simp add: be_word_def bits_word_def)
qed

section \<open>Padding\<close>

lemma number_bits_add: "number_bits (a + b) n = number_bits a (drop_bit b n) @ number_bits b n"
proof (induction a)
  case 0
  show ?case by (simp add: number_bits_def)
next
  case (Suc a)
  then show ?case by (simp add: number_bits_Suc bit_drop_bit_eq add.commute)
qed

lemma number_bits_mod: "number_bits 8 (x mod 256) = number_bits 8 x"
proof -
  have "x mod 256 = take_bit 8 x" by (simp add: take_bit_eq_mod)
  then show ?thesis by (auto simp: number_bits_def bit_take_bit_iff)
qed

lemma be_bytes_bits: "message_bits (be_bytes n x) = number_bits (8 * n) x"
proof (induction n arbitrary: x)
  case 0
  show ?case by (simp add: number_bits_def)
next
  case (Suc n)
  have "8 * Suc n = 8 * n + 8" by simp
  then show ?case using Suc number_bits_add [of "8 * n" 8 x] by (simp add: number_bits_mod drop_bit_eq_div add.commute)
qed

lemma pad_zeros_eq: "\<exists>z < 64. pad_zeros m = m @ replicate z (CHR 0x00) \<and> (length m + z) mod 64 = 56"
proof -
  define z where "z = (120 - length m mod 64) mod 64"
  have "length m + z = 64 * (length m div 64) + (length m mod 64 + z)" by simp
  moreover have "(r + (120 - r) mod 64) mod 64 = 56" if "r < 64" for r :: nat using that by (simp add: mod_if)
  ultimately have z: "z < 64" "(length m + z) mod 64 = 56" by (simp_all add: z_def) (metis mod_add_left_eq mod_less_divisor zero_less_numeral)
  have "pad_zeros m = m @ replicate z (CHR 0x00)" if "z < 64" "(length m + z) mod 64 = 56" for m z
    using that
  proof (induction z arbitrary: m)
    case 0
    then show ?case by (simp add: pad_zeros.simps)
  next
    case (Suc z)
    have "length m mod 64 \<noteq> 56"
    proof
      assume "length m mod 64 = 56"
      then have "(56 + Suc z) mod 64 = 56" using Suc.prems(2) mod_add_left_eq [of "length m" 64 "Suc z"] by simp
      moreover have "(56 + Suc z) mod 64 = (if z < 7 then 57 + z else z - 7)" using Suc.prems(1) by (simp add: mod_if)
      ultimately show False using Suc.prems(1) by (simp split: if_splits)
    qed
    moreover have "pad_zeros (m @ [CHR 0x00]) = (m @ [CHR 0x00]) @ replicate z (CHR 0x00)"
      using Suc.IH [of "m @ [CHR 0x00]"] Suc.prems by simp
    ultimately show ?case by (simp add: pad_zeros.simps [of m])
  qed
  then show ?thesis using z by blast
qed

lemma zero_bits: "message_bits (replicate z (CHR 0x00)) = replicate (8 * z) False"
proof -
  have "number_bits 8 0 = replicate 8 False" by (simp add: number_bits_def map_replicate_const)
  then show ?thesis by (induction z) (simp_all add: byte_val_def replicate_add [symmetric])
qed

lemma pad_eq: "message_bits (pad_message s) = fips_pad (message_bits s)"
proof -
  obtain z where z: "z < 64" "pad_zeros (s @ [CHR 0x80]) = (s @ [CHR 0x80]) @ replicate z (CHR 0x00)"
      "(length s + 1 + z) mod 64 = 56"
    using pad_zeros_eq [of "s @ [CHR 0x80]"] by auto
  have "number_bits 8 128 = True # replicate 7 False" by code_simp
  then have one: "message_bits [CHR 0x80] = True # replicate 7 False" by (simp add: byte_val_def)
  define q where "q = (length s + 1 + z) div 64"
  have "length s + 1 + z = 64 * q + 56" using z(3) div_mult_mod_eq [of "length s + 1 + z" 64] by (simp only: q_def mult.commute)
  then have "447 - int (8 * length s) = int (7 + 8 * z) + 512 * (- int q)" by simp
  then have "(447 - int (8 * length s)) mod 512 = int (7 + 8 * z) mod 512" by (simp only: mod_mult_self2)
  then have "(447 - int (8 * length s)) mod 512 = int (7 + 8 * z)" using z(1) by simp
  then have "nat ((447 - int (length (message_bits s))) mod 512) = 7 + 8 * z" by simp
  then show ?thesis
    using one z(2) by (simp add: pad_message_def fips_pad_def zero_bits be64_def be_bytes_bits replicate_add mult.commute)
qed

lemma pad_length: "length (pad_message s) mod 64 = 0"
proof -
  obtain z where "pad_zeros (s @ [CHR 0x80]) = (s @ [CHR 0x80]) @ replicate z (CHR 0x00)" "(length s + 1 + z) mod 64 = 56"
    using pad_zeros_eq [of "s @ [CHR 0x80]"] by auto
  moreover from this have "length (pad_message s) = length s + 1 + z + 8" by (simp add: pad_message_def)
  ultimately show ?thesis using mod_add_left_eq [of "length s + 1 + z" 64 8] by simp
qed

section \<open>Blocks\<close>

lemma chunks_eq:
  assumes "0 < n"
  shows "length xs = n * m \<Longrightarrow> chunks n xs = map (\<lambda>i. take n (drop (n * i) xs)) [0..<m]"
proof (induction m arbitrary: xs)
  case 0
  then show ?case by (simp add: chunks.simps)
next
  case (Suc m)
  have "xs \<noteq> []" using Suc.prems assms by auto
  then have "chunks n xs = take n xs # chunks n (drop n xs)" using assms by (simp add: chunks.simps [of n xs])
  moreover have "chunks n (drop n xs) = map (\<lambda>i. take n (drop (n * i) (drop n xs))) [0..<m]"
    using Suc.IH [of "drop n xs"] Suc.prems by simp
  ultimately show ?case
    unfolding upt_conv_Cons [OF zero_less_Suc] map_Suc_upt [symmetric] by (simp add: add.commute)
qed

lemma block_words_eq:
  assumes "length P = 64 * m" and "i < m"
  shows "block_words (take 64 (drop (64 * i) P)) = map (fips_M (message_bits P) i) [0..<16]"
proof -
  have "64 * Suc i \<le> 64 * m" using assms(2) by (intro mult_le_mono2) simp
  then have "length (take 64 (drop (64 * i) P)) = 4 * 16" using assms(1) by simp
  then have "block_words (take 64 (drop (64 * i) P)) =
      map (\<lambda>t. be_word (take 4 (drop (4 * t) (take 64 (drop (64 * i) P))))) [0..<16]"
    unfolding block_words_def by (subst chunks_eq) (simp_all only: zero_less_numeral map_map comp_def)
  also have "\<dots> = map (fips_M (message_bits P) i) [0..<16]"
  proof (rule map_cong [OF refl])
    fix t :: nat assume "t \<in> set [0..<16]"
    then have "take 4 (drop (4 * t) (take 64 (drop (64 * i) P))) = take 4 (drop (64 * i + 4 * t) P)"
      by (simp add: drop_take min_def add.commute)
    moreover have "drop (512 * i + 32 * t) (message_bits P) = message_bits (drop (64 * i + 4 * t) P)"
      using message_bits_drop [of "64 * i + 4 * t" P] by (simp add: algebra_simps)
    moreover have "take 32 (message_bits s) = message_bits (take 4 s)" for s
      using message_bits_take [of 4 s] by simp
    ultimately show "be_word (take 4 (drop (4 * t) (take 64 (drop (64 * i) P)))) = fips_M (message_bits P) i t"
      by (simp add: fips_M_def be_word_eq)
  qed
  finally show ?thesis .
qed

lemma fips_hash_length: "length (fips_hash padded i) = 8"
proof (cases i)
  case 0
  then show ?thesis by (simp add: H0_eq sha_H_def)
next
  case (Suc j)
  then show ?thesis by (simp add: fips_block_def split: prod.split)
qed

lemma words_eq: "sha256_words s = fips_hash (fips_pad (message_bits s)) (length (fips_pad (message_bits s)) div 512)"
proof -
  define P where "P = pad_message s"
  define m where "m = length P div 64"
  have len: "length P = 64 * m" using pad_length [of s] div_mult_mod_eq [of "length P" 64] by (simp add: P_def m_def)
  have "fold sha_block (map (\<lambda>i. take 64 (drop (64 * i) P)) [0..<k]) sha_H = fips_hash (message_bits P) k" if "k \<le> m" for k
    using that
  proof (induction k)
    case 0
    show ?case by (simp add: H0_eq)
  next
    case (Suc k)
    then show ?case
      using block_eq [OF block_words_eq [OF len] fips_hash_length] by simp
  qed
  from this [of m] have "sha256_words s = fips_hash (message_bits P) m"
    by (simp add: sha256_words_def P_def [symmetric] chunks_eq [OF _ len])
  moreover have "length (fips_pad (message_bits s)) div 512 = m"
    by (simp add: pad_eq [symmetric] P_def [symmetric] len)
  ultimately show ?thesis by (simp add: pad_eq P_def)
qed

section \<open>The digest in hexadecimal\<close>

lemma hex_digit_lower: "n < 16 \<Longrightarrow> hex_digit (lower_hex n) = n"
  by (simp add: hex_digit_def lower_hex_def)

lemma nibble_eq: "unat (drop_bit (4 * i) v AND 15) = unat (v :: 32 word) div 16 ^ i mod 16"
proof -
  have "drop_bit (4 * i) v AND 15 = take_bit 4 (drop_bit (4 * i) v)"
    by (simp add: take_bit_eq_mask mask_eq_exp_minus_1)
  moreover have "take_bit LENGTH(32) (unat v) = unat v" using unsigned_less by (rule take_bit_nat_eq_self)
  ultimately have "unat (drop_bit (4 * i) v AND 15) = take_bit 4 (drop_bit (4 * i) (unat v))"
    by (simp only: unsigned_take_bit_eq unsigned_drop_bit_eq)
  then show ?thesis by (simp add: take_bit_eq_mod drop_bit_eq_div power_mult)
qed

lemma horner: "foldl (\<lambda>n i. n * 16 + u div 16 ^ i mod 16) n (rev [0..<w]) = n * 16 ^ w + u mod 16 ^ w" for u n :: nat
proof (induction w arbitrary: n)
  case (Suc w)
  have "u mod 16 ^ Suc w = 16 ^ w * (u div 16 ^ w mod 16) + u mod 16 ^ w" by (simp add: mod_mult2_eq mult.commute [of 16])
  then show ?case using Suc by (simp add: algebra_simps)
qed simp

lemma hex8_value: "foldl (\<lambda>n c. n * 16 + hex_digit c) n (hex8 v) = n * 2 ^ 32 + unat v"
proof -
  have digit: "hex_digit (lower_hex (unat (drop_bit (4 * i) v AND 15))) = unat v div 16 ^ i mod 16" for i
    by (simp add: nibble_eq hex_digit_lower)
  have "[7, 6, 5, 4, 3, 2, 1, 0] = rev [0..<8 :: nat]" by (simp add: upt_rec)
  then have "foldl (\<lambda>n c. n * 16 + hex_digit c) n (hex8 v) = foldl (\<lambda>n i. n * 16 + unat v div 16 ^ i mod 16) n (rev [0..<8])"
    by (simp add: hex8_def foldl_map digit del: upt_rec_numeral)
  also have "\<dots> = n * 2 ^ 32 + unat v"
  proof -
    have "unat v < 2 ^ LENGTH(32)" by (rule unsigned_less)
    then show ?thesis by (simp add: horner del: upt_rec_numeral)
  qed
  finally show ?thesis .
qed

lemma sha256_hex_value: "hex_value (concat (map hex8 ws)) = foldl (\<lambda>n w. n * 2 ^ 32 + unat w) 0 ws"
proof -
  have "foldl (\<lambda>n c. n * 16 + hex_digit c) n (concat (map hex8 ws)) = foldl (\<lambda>n w. n * 2 ^ 32 + unat w) n ws" for n
    by (induction ws arbitrary: n) (simp_all add: hex8_value)
  then show ?thesis by (simp add: hex_value_def)
qed

end
