(* ===== verification/Mobile_Auth_Props.thy ===== *)
theory Mobile_Auth_Props
  imports Mobile_Auth Sha256_Props
begin

text \<open>
  The token hash is SHA-256 in lowercase hexadecimal, with a known answer, and the way of a bearer token from a
  tunnelled request to the paired device.
\<close>

section \<open>The token hash\<close>

text \<open>Different tokens are hashed as different messages.\<close>

lemma pad_message_inj:
  assumes "length a * 8 < 2 ^ 64" and "length b * 8 < 2 ^ 64" and "pad_message a = pad_message b"
  shows "a = b"
proof -
  obtain i j where p: "pad_zeros (a @ [CHR 0x80]) = (a @ [CHR 0x80]) @ replicate i (CHR 0x00)"
      "pad_zeros (b @ [CHR 0x80]) = (b @ [CHR 0x80]) @ replicate j (CHR 0x00)"
    using pad_zeros_eq by blast
  have split: "pad_zeros (a @ [CHR 0x80]) = pad_zeros (b @ [CHR 0x80]) \<and> be64 (length a * 8) = be64 (length b * 8)"
    using assms(3) unfolding pad_message_def by (rule append_eq_append_conv [THEN iffD1, rotated]) simp
  have le: "length a * 8 \<le> u64_max" "length b * 8 \<le> u64_max"
    using assms(1,2) by (simp_all add: u64_max_def)
  from split have "be_val (be64 (length a * 8)) = be_val (be64 (length b * 8))" by simp
  then have "length a = length b" unfolding be_val_be64 [OF le(1)] be_val_be64 [OF le(2)] by simp
  moreover from split p have "(a @ [CHR 0x80]) @ replicate i (CHR 0x00) = (b @ [CHR 0x80]) @ replicate j (CHR 0x00)"
    by (simp only: p)
  ultimately show ?thesis by simp
qed

lemma length_sha256_words: "length (sha256_words token) = 8"
  by (simp only: words_eq fips_hash_length)

lemma lower_hex_digit: "n < 16 \<Longrightarrow> is_ascii_hexdigit (lower_hex n) \<and> \<not> is_ascii_upper (lower_hex n)"
  by (auto simp: lower_hex_def is_ascii_hexdigit_def is_ascii_digit_def is_ascii_upper_def)

lemma nibble_less: "unat (drop_bit i (v :: 32 word) AND 15) < 16"
proof -
  have "drop_bit i v AND 15 \<le> (15 :: 32 word)" by (rule word_and_le1)
  then have "unat (drop_bit i v AND 15) \<le> unat (15 :: 32 word)" by (rule word_le_nat_alt [THEN iffD1])
  then show ?thesis by simp
qed

text \<open>C33. The hash of every token is its SHA-256 digest as FIPS 180-4 specifies it on the bits of the token, printed as 64 lowercase
  hexadecimal digits.\<close>

theorem token_hash_is_sha256:
  "hex_value (sha256_hex token) = fips_sha256 (message_bits token) \<and>
   length (sha256_hex token) = 64 \<and> list_all (\<lambda>c. is_ascii_hexdigit c \<and> \<not> is_ascii_upper c) (sha256_hex token)"
proof (intro conjI)
  show "hex_value (sha256_hex token) = fips_sha256 (message_bits token)"
    by (simp only: sha256_hex_def sha256_hex_value fips_sha256_def words_eq)
  have "length (concat (map hex8 ws)) = 8 * length ws" for ws
    by (induction ws) (simp_all add: hex8_def)
  then show "length (sha256_hex token) = 64" by (simp add: sha256_hex_def length_sha256_words)
  have "list_all (\<lambda>c. is_ascii_hexdigit c \<and> \<not> is_ascii_upper c) (hex8 v)" for v
    unfolding hex8_def list_all_iff set_map using lower_hex_digit [OF nibble_less] by blast
  then show "list_all (\<lambda>c. is_ascii_hexdigit c \<and> \<not> is_ascii_upper c) (sha256_hex token)"
    by (auto simp: sha256_hex_def list_all_iff)
qed

lemma sha256_known_answer:
  "sha256_hex ''abc'' = ''ba7816bf8f01cfea414140de5dae2223b00361a396177a9cb410ff61f20015ad''"
  by code_simp

section \<open>From the header to the device\<close>

lemma trim_fixedD:
  assumes "trim s = s"
  shows "ws_len (map byte_val s) = 0 \<and> ws_len_rev (map byte_val (rev s)) = 0"
proof -
  obtain w where w: "s = w @ trim_start s" using trim_start_suffix by blast
  have "length s \<le> length (trim_start s)"
    using assms trim_rev_length [of "rev (trim_start s)"] by (simp add: trim_def trim_end_def) (metis length_rev)
  with w have s: "trim_start s = s" by (metis append_self_conv2 le_add_same_cancel2 length_0_conv length_append nle_le add_le_same_cancel2 le_zero_eq)
  have "ws_len (map byte_val s) = 0"
  proof (rule ccontr)
    let ?n = "ws_len (map byte_val s)"
    assume "?n \<noteq> 0"
    then have "s = trim_start (drop ?n s)" using s by (simp add: trim_start.simps [of s])
    then have "length s \<le> length (drop ?n s)" using trim_start_suffix [of "drop ?n s"] by (metis le_add2 length_append)
    with \<open>?n \<noteq> 0\<close> have "s = []" by (cases s) auto
    with \<open>?n \<noteq> 0\<close> show False by simp
  qed
  moreover have "ws_len_rev (map byte_val (rev s)) = 0"
  proof (rule ccontr)
    let ?n = "ws_len_rev (map byte_val (rev s))"
    assume n: "?n \<noteq> 0"
    from assms s have "trim_rev (rev s) = rev s" by (simp add: trim_def trim_end_def) (metis rev_rev_ident)
    with n have "rev s = trim_rev (drop ?n (rev s))" by (simp add: trim_rev.simps [of "rev s"])
    then have "length s \<le> length (drop ?n (rev s))" using trim_rev_length [of "drop ?n (rev s)"] by (metis length_rev)
    with n have "s = []" by (cases s) auto
    with n show False by simp
  qed
  ultimately show ?thesis by simp
qed

text \<open>The end of a trimmed text stays trimmed behind a prefix that ends in a blank.\<close>

lemma ws_len_blank: "ws_len (32 # r) = 1" "ws_len (x # 32 # r) \<noteq> 3"
  by (simp_all add: ws_len_def split: list.splits)

lemma ws_len_rev_blank:
  assumes "ws_len_rev bs = 0" and "bs \<noteq> []"
  shows "ws_len_rev (bs @ 32 # r) = 0"
proof -
  have one: "\<not> 0 < ws_len (rev (take 1 bs))"
    using assms(1) by (auto simp: ws_len_rev_def split: if_splits)
  consider a where "bs = [a]" | a b where "bs = [a, b]" | a b c cs where "bs = a # b # c # cs"
    using assms(2) by (metis list.exhaust)
  then show ?thesis
  proof cases
    case 1
    then show ?thesis using one by (cases r) (simp_all add: ws_len_rev_def ws_len_blank)
  next
    case 2
    then show ?thesis using assms(1) one by (simp add: ws_len_rev_def ws_len_blank split: if_splits)
  next
    case 3
    then show ?thesis using assms(1) by (simp add: ws_len_rev_def split: if_splits)
  qed
qed

lemma trim_bearer:
  assumes "trim token = token" and "token \<noteq> []"
  shows "trim (''Bearer '' @ token) = ''Bearer '' @ token"
proof (rule trim_id)
  show "ws_len (map byte_val (''Bearer '' @ token)) = 0" by (simp add: ws_len_def byte_val_def)
  have "ws_len_rev (map byte_val (rev token)) = 0" using trim_fixedD [OF assms(1)] by simp
  from ws_len_rev_blank [OF this, of "map byte_val ''reraeB''"] assms(2)
  show "ws_len_rev (map byte_val (rev (''Bearer '' @ token))) = 0" by (simp add: byte_val_def)
qed

lemma bearer_token_header:
  assumes "trim token = token" and "token \<noteq> []"
  shows "bearer_token (''Bearer '' @ token) = Some token"
proof -
  have "split_once (CHR '' '') (''Bearer '' @ token) = Some (''Bearer'', token)"
    using split_once_append [of "CHR '' ''" "''Bearer''" token] by simp
  moreover have "eq_ignore_ascii_case ''Bearer'' ''bearer''"
    by code_simp
  ultimately show ?thesis using assms trim_bearer [OF assms] by (simp add: bearer_token_def)
qed

lemma auth_header_bearer:
  assumes "trim token = token" and "token \<noteq> []"
  shows "auth_header (''Bearer '' @ token) = ''Bearer '' @ token"
proof -
  have "eq_ignore_ascii_case ''Bearer'' ''bearer''" by code_simp
  then have "has_bearer_scheme (''Bearer '' @ token)"
    by (simp add: has_bearer_scheme_def leading_ws_def ws_len_def byte_val_def)
  then show ?thesis by (simp only: auth_header_def trim_bearer [OF assms] Let_def if_True)
qed

text \<open>A bearer token in a tunnelled request, with its scheme or bare, authenticates the first
  paired device that stores the SHA-256 of exactly that token, and nobody when no device does.\<close>

lemma tunnelled_token_authenticates:
  assumes "trim token = token" and "token \<noteq> []"
    and "rq_auth r = Some (''Bearer '' @ token) \<or> rq_auth r = Some token \<and> \<not> has_bearer_scheme token"
  shows "principal_for_bearer (Inr h) store (request_headers r)
    = Option.bind (devices_of store) (find_map (device_principal (sha256_hex token) (host_owner_principal_id h)))"
proof -
  have "auth_header (the (rq_auth r)) = ''Bearer '' @ token"
    using assms(3) auth_header_bearer [OF assms(1,2)] assms(1) by (elim disjE conjE) (simp_all add: auth_header_def)
  then have "hm_get (request_headers r) ''authorization'' = Some (''Bearer '' @ token)"
    using assms(3) by (elim disjE conjE) (simp_all add: request_headers_def Let_def split: option.splits)
  then show ?thesis using bearer_token_header [OF assms(1,2)] by (simp add: principal_for_bearer_def)
qed

definition abc_store :: json where
  "abc_store = jobj [(''devices'', JArr [jobj [(''id'', JStr ''phone''),
     (''tokenHash'', JStr ''ba7816bf8f01cfea414140de5dae2223b00361a396177a9cb410ff61f20015ad'')]])]"

end
