(* ===== verification/Relay_Dispatch_Props.thy ===== *)
theory Relay_Dispatch_Props
  imports Relay_Dispatch Direct_Hub_Props Mobile_Auth_Props
begin

text \<open>
  Tunnelled requests need a paired device, and a direct-path offer is negotiated on the connection it
  arrived on.
\<close>

text \<open>C12. Whatever a tunnelled request asks for, the handlers have no influence on its answer and the hub of
  direct paths stays as it is unless the request carries the token of a paired device and its path lies
  under \<open>/mobile/\<close>; pairing is out of reach, and only a POST to the negotiation route can change the
  hub.\<close>

theorem dispatch_needs_principal:
  assumes "dispatch lib net other host_id store namespace conn_id t hub
        \<noteq> dispatch lib net' other' host_id store namespace conn_id t hub
      \<or> fst (snd (dispatch lib net other host_id store namespace conn_id t hub)) \<noteq> hub"
  shows "principal_for_bearer host_id store (request_headers t) \<noteq> None
    \<and> starts_with ''/mobile/'' (rq_path t) \<and> rq_path t \<noteq> ''/mobile/pair'' \<and> rq_method t \<in> {''GET'', ''POST''}
    \<and> (fst (snd (dispatch lib net other host_id store namespace conn_id t hub)) \<noteq> hub
        \<longrightarrow> rq_path t = ''/mobile/direct-path'' \<and> rq_method t = ''POST'')"
proof -
  let ?gate = "starts_with ''/mobile/'' (rq_path t) \<and> rq_path t \<noteq> ''/mobile/pair''"
  have *: "dispatch lib n oth host_id store namespace conn_id t hub = (Some NOT_FOUND, hub, None)" if "\<not> ?gate" for n oth
    using that by (auto simp: dispatch_def)
  from assms * have gate: ?gate by (metis fst_conv snd_conv)
  have r: "starts_with ''/relay/'' (rq_path t) \<longleftrightarrow> False" using gate by (auto simp: starts_with_iff)
  show ?thesis
  proof (cases "principal_for_bearer host_id store (request_headers t)")
    case None
    with assms gate r show ?thesis by (simp add: dispatch_def relay_request_def)
  next
    case (Some p)
    have d: "dispatch lib n oth host_id store namespace conn_id t hub
        = (case handle_authenticated lib n oth (relay_request namespace conn_id t) p (Some hub) of
             (r, Some hub', job) \<Rightarrow> (r, hub', job) | (r, None, job) \<Rightarrow> (r, hub, job))" for n oth
      using gate r Some by (simp add: dispatch_def relay_request_def)
    have m: "rq_method t \<in> {''GET'', ''POST''}"
    proof (rule ccontr)
      assume "rq_method t \<notin> {''GET'', ''POST''}"
      then have "dispatch lib n oth host_id store namespace conn_id t hub
          = (Some (error_answer lib 405 ''method not allowed''), hub, None)" for n oth
        unfolding d using gate by (simp add: handle_authenticated_def relay_request_def)
      with assms show False by simp
    qed
    have "fst (snd (dispatch lib net other host_id store namespace conn_id t hub)) = hub"
      if "\<not> (rq_path t = ''/mobile/direct-path'' \<and> rq_method t = ''POST'')"
      unfolding d using that gate
      by (auto simp: handle_authenticated_def relay_request_def direct_path_route_def split: option.split)
    with gate m Some show ?thesis by auto
  qed
qed

theorem dispatch_needs_principal_witness:
  "principal_for_bearer (Inr ''h'') (Some abc_store) (request_headers \<lparr>rq_id = 1, rq_method = ''GET'', rq_path = ''/mobile/x'',
     rq_query = [], rq_auth = Some ''Bearer abc'', rq_content_type = None, rq_body = []\<rparr>) \<noteq> None"
proof -
  let ?t = "\<lparr>rq_id = 1, rq_method = ''GET'', rq_path = ''/mobile/x'', rq_query = [], rq_auth = Some ''Bearer abc'',
      rq_content_type = None, rq_body = []\<rparr>"
  let ?d = "\<lambda>other. dispatch undefined undefined other (Inr ''h'') (Some abc_store) ''n'' 7 ?t direct_hub_default"
  have "trim ''Bearer abc'' = ''Bearer abc''" by (simp add: trim_eval)
  moreover have "bearer_token ''Bearer abc'' = Some ''abc''"
    using bearer_token_header [of "''abc''"] by (simp add: trim_eval)
  moreover have "has_bearer_scheme ''Bearer abc''" by code_simp
  ultimately have p: "principal_for_bearer (Inr ''h'') (Some abc_store) (request_headers ?t)
      = Some (PairedDevice ''phone'' ''device'' (Some ''host-owner:h''))"
    by (simp add: principal_for_bearer_def request_headers_def auth_header_def sha256_known_answer devices_of_def abc_store_def
        device_principal_def host_owner_principal_id_def jobj_def jmap_of_def jget_def jget_str_def Let_def)
  then have "?d (\<lambda>_ _. Some (200, [])) \<noteq> ?d (\<lambda>_ _. Some (204, []))"
    by (simp add: dispatch_def relay_request_def handle_authenticated_def starts_with_def)
  then show ?thesis using dispatch_needs_principal by blast
qed

text \<open>An offer that arrives through the tunnel is negotiated on the connection that carried it, whatever
  id the Controller gave the request: the request id the Host mints names that connection.\<close>

lemma tunnelled_offer_negotiates:
  assumes "conn_id < 2 ^ 32" and "principal_for_bearer host_id store (request_headers t) = Some p"
    and "rq_path t = ''/mobile/direct-path''" and "rq_method t = ''POST''"
  shows "dispatch lib net other host_id store namespace conn_id t hub
    = (case negotiate (lib_hkdf lib) (lib_to_string lib) (lib_from_slice lib) (nw_bound net) (nw_interfaces net)
           (nw_stun net) conn_id (rq_body t) hub of
         (r, hub', job) \<Rightarrow> (map_option (map_prod id (lib_to_string lib)) r, hub', job))"
  using assms relay_conn_id_minted [OF assms(1), of namespace "rq_id t"]
  by (simp add: dispatch_def relay_request_def handle_authenticated_def direct_path_route_def relay_request_id_def
      starts_with_def split: prod.split)

end
